(* ===== verification/Prelude.thy ===== *)
theory Prelude
  imports
    Complex_Main
    "HOL-Library.Word"
    "HOL-Library.AList"
    "HOL-Library.Char_ord"
    "HOL-Library.List_Lexorder"
    "HOL-Library.Multiset"
    "HOL-Library.Signed_Division"
begin

text \<open>
  The vocabulary every component shares: Go's signed 64-bit arithmetic, instants and
  durations, errors with wrapping, results of fallible operations, decimal formatting, and
  the association lists that stand for Go maps which the program iterates over.
\<close>

named_theorems go_error_defs \<open>the sentinel errors, unfolded to their messages\<close>
named_theorems wrap_simps \<open>normalisation of wrapped 64-bit arithmetic\<close>

section \<open>Signed 64-bit integers\<close>

text \<open>
  A Go \<^verbatim>\<open>int64\<close> (and \<^verbatim>\<open>int\<close> on the 64-bit targets the project builds for) is an
  \<^typ>\<open>int\<close> in the two's complement range; every operation that can leave the range is
  written with \<open>wrap64\<close>.
\<close>

definition MaxInt64 :: int where "MaxInt64 = 9223372036854775807"
definition MinInt64 :: int where "MinInt64 = - 9223372036854775808"

definition wrap64 :: "int \<Rightarrow> int" where
  "wrap64 x = (x + 9223372036854775808) mod 18446744073709551616 - 9223372036854775808"

definition in_i64 :: "int \<Rightarrow> bool" where
  "in_i64 x \<longleftrightarrow> MinInt64 \<le> x \<and> x \<le> MaxInt64"

lemma wrap64_id [simp]: "in_i64 x \<Longrightarrow> wrap64 x = x"
  by (simp add: wrap64_def in_i64_def MinInt64_def MaxInt64_def)

lemma wrap64_in_i64 [simp]: "in_i64 (wrap64 x)"
  unfolding in_i64_def wrap64_def MinInt64_def MaxInt64_def by (auto simp: algebra_simps)

lemma wrap64_eq_iff: "wrap64 x = wrap64 y \<longleftrightarrow> x mod 18446744073709551616 = y mod 18446744073709551616"
  unfolding wrap64_def by (auto simp: mod_eq_dvd_iff)

lemma wrap64_mod: "wrap64 x mod 18446744073709551616 = x mod 18446744073709551616"
  unfolding wrap64_def by (simp add: mod_diff_left_eq)

lemma wrap64_idem [simp]: "wrap64 (wrap64 x) = wrap64 x"
  by (rule wrap64_id) (rule wrap64_in_i64)

lemma wrap64_add_left [wrap_simps]: "wrap64 (wrap64 x + y) = wrap64 (x + y)"
  unfolding wrap64_eq_iff by (metis mod_add_left_eq wrap64_mod)

lemma wrap64_add_right [wrap_simps]: "wrap64 (x + wrap64 y) = wrap64 (x + y)"
  unfolding wrap64_eq_iff by (metis mod_add_right_eq wrap64_mod)

lemma wrap64_diff_left [wrap_simps]: "wrap64 (wrap64 x - y) = wrap64 (x - y)"
  unfolding wrap64_eq_iff by (metis mod_diff_left_eq wrap64_mod)

lemma wrap64_diff_right [wrap_simps]: "wrap64 (x - wrap64 y) = wrap64 (x - y)"
  unfolding wrap64_eq_iff by (metis mod_diff_right_eq wrap64_mod)

lemma wrap64_add_cong: "wrap64 a = wrap64 b \<Longrightarrow> wrap64 (a + c) = wrap64 (b + c)"
  by (metis wrap64_add_left)

lemma wrap64_numeral_small [simp]:
  "wrap64 0 = 0" "wrap64 1 = 1"
  by (simp_all add: wrap64_def)

section \<open>Instants and durations\<close>

text \<open>
  A \<^verbatim>\<open>time.Time\<close> is the instant it denotes, in nanoseconds from the Unix epoch; its
  location and its monotonic reading, which no modelled operation observes, are erased. The
  zero value of the type is midnight of 1 January of year 1.
\<close>

type_synonym time = int
type_synonym duration = int

text \<open>A byte slice and a Go string are both a list of bytes.\<close>

type_synonym bytes = string

definition zero_time :: time where "zero_time = - 62135596800000000000"

definition IsZero :: "time \<Rightarrow> bool" where "IsZero t \<longleftrightarrow> t = zero_time"

definition UnixNano :: "time \<Rightarrow> int" where "UnixNano t = wrap64 t"

definition Unix :: "int \<Rightarrow> time" where "Unix ns = ns"

lemma UnixNano_Unix [simp]: "in_i64 n \<Longrightarrow> UnixNano (Unix n) = n"
  by (simp add: UnixNano_def Unix_def)

lemma Unix_not_zero [simp]: "in_i64 n \<Longrightarrow> \<not> IsZero (Unix n)"
  by (simp add: Unix_def IsZero_def zero_time_def in_i64_def MinInt64_def)

definition second :: duration where "second = 1000000000"
definition millisecond :: duration where "millisecond = 1000000"

section \<open>Errors and results\<close>

text \<open>
  A sentinel made by \<^verbatim>\<open>errors.New\<close> is \<open>Err\<close> of its message (each message carries its
  package's name, so sentinels of different packages differ), \<^verbatim>\<open>fmt.Errorf\<close> with
  \<^verbatim>\<open>%w\<close> is \<open>Wrap\<close> of the text around it, with two of them \<open>Join\<close>. The text is kept in the order prefix, cause and without the quotation marks of \<^verbatim>\<open>%q\<close>:
  the code compares errors only by \<^verbatim>\<open>errors.Is\<close>. \<open>errors_Is\<close> is \<^verbatim>\<open>errors.Is\<close>.
  A context is the error it reports: \<open>None\<close> while it is live.
\<close>

datatype error = Err string | Wrap string error | Join error error

fun errors_Is :: "error \<Rightarrow> error \<Rightarrow> bool" where
  "errors_Is (Err m) t = (Err m = t)"
| "errors_Is (Wrap m e) t = (Wrap m e = t \<or> errors_Is e t)"
| "errors_Is (Join e1 e2) t = (Join e1 e2 = t \<or> errors_Is e1 t \<or> errors_Is e2 t)"

lemma errors_Is_refl [simp]: "errors_Is e e"
  by (cases e) simp_all

lemma errors_Is_Wrap [simp]: "errors_Is e t \<Longrightarrow> errors_Is (Wrap m e) t"
  by simp

text \<open>The first error of a list of outcomes.\<close>

fun first_error :: "error option list \<Rightarrow> error option" where
  "first_error [] = None"
| "first_error (None # cs) = first_error cs"
| "first_error (Some err # cs) = Some err"

lemma first_error_None: "first_error cs = None \<longleftrightarrow> (\<forall>c \<in> set cs. c = None)"
  by (induction cs rule: first_error.induct) auto

type_synonym ctx = "error option"

definition ErrCanceled :: error where [go_error_defs]: "ErrCanceled = Err ''context canceled''"

section \<open>Go maps that are iterated: association lists\<close>

text \<open>
  A Go map whose keys are ranged over or counted is an association list with distinct keys;
  the order of the list stands for the order in which the runtime happens to iterate.
\<close>

lemma map_of_update [simp]: "map_of (AList.update k v m) = (map_of m)(k \<mapsto> v)"
  by (rule update_conv')

lemma map_of_delete [simp]: "map_of (AList.delete k m) = (map_of m)(k := None)"
  by (rule delete_conv')

lemma fst_set_update [simp]: "fst ` set (AList.update k v m) = insert k (fst ` set m)"
  by (metis dom_map_of_conv_image_fst dom_fun_upd map_of_update option.distinct(1))

lemma fst_set_delete: "fst ` set (AList.delete k m) = fst ` set m - {k}"
  by (metis delete_keys set_map set_removeAll)

lemma length_update_new: "map_of m k = None \<Longrightarrow> length (AList.update k v m) = Suc (length m)"
  by (induction m) (auto split: if_splits)

lemma length_update_old: "map_of m k \<noteq> None \<Longrightarrow> length (AList.update k v m) = length m"
  by (induction m) (auto split: if_splits)

lemma update_new: "map_of m k = None \<Longrightarrow> AList.update k v m = m @ [(k, v)]"
  by (induction m) (auto split: if_splits)

lemma delete_not_key: "k \<notin> fst ` set m \<Longrightarrow> AList.delete k m = m"
  by (induction m) (auto simp: AList.delete_eq)

lemma delete_key_Cons:
  "k' \<notin> fst ` set m \<Longrightarrow>
   AList.delete k ((k', v) # m) = (if k = k' then m else (k', v) # AList.delete k m)"
  using delete_not_key[of k' m] by (auto simp: AList.delete_eq)

lemma length_delete_old:
  "distinct (map fst m) \<Longrightarrow> map_of m k \<noteq> None \<Longrightarrow> Suc (length (AList.delete k m)) = length m"
  by (induction m) (auto simp: delete_key_Cons split: if_splits)

definition alist_sum :: "('k \<times> 'v \<Rightarrow> int) \<Rightarrow> ('k \<times> 'v) list \<Rightarrow> int" where
  "alist_sum f m = sum_list (map f m)"

lemma alist_sum_simps [simp]:
  "alist_sum f [] = 0"
  "alist_sum f (x # m) = f x + alist_sum f m"
  "alist_sum f (m @ m') = alist_sum f m + alist_sum f m'"
  by (simp_all add: alist_sum_def)

lemma alist_sum_update_old:
  assumes "distinct (map fst m)" and "map_of m k = Some v"
  shows "alist_sum f (AList.update k v' m) = alist_sum f m - f (k, v) + f (k, v')"
  using assms by (induction m) (auto split: if_splits)

lemma alist_sum_delete:
  assumes "distinct (map fst m)" and "map_of m k = Some v"
  shows "alist_sum f (AList.delete k m) = alist_sum f m - f (k, v)"
  using assms by (induction m) (auto simp: delete_key_Cons split: if_splits)

section \<open>Sorting\<close>

lemma sort_unique:
  "distinct xs \<Longrightarrow> set xs = set ys \<Longrightarrow> distinct ys \<Longrightarrow> sort xs = sort ys"
  by (simp add: sorted_distinct_set_unique)

end
