(* ===== verification/GoStrings.thy ===== *)
theory GoStrings
  imports Prelude
begin

text \<open>
  The string operations of Go's standard library the program uses: decimal formatting and
  parsing (\<^verbatim>\<open>strconv\<close>, the \<^verbatim>\<open>%020d\<close> verb of \<^verbatim>\<open>fmt\<close>), searching and
  splitting (\<^verbatim>\<open>strings\<close>) and file name components (\<^verbatim>\<open>path/filepath\<close>).
  A Go string is a list of bytes, here \<^typ>\<open>string\<close>. The lemmas give the round trip of
  formatting and parsing and the injectivity of formatting.
\<close>

section \<open>Decimal digits\<close>

definition digit_char :: "nat \<Rightarrow> char" where
  "digit_char d = char_of (48 + d)"

definition digit_val :: "char \<Rightarrow> nat" where
  "digit_val c = of_char c - 48"

definition is_digit :: "char \<Rightarrow> bool" where
  "is_digit c \<longleftrightarrow> 48 \<le> (of_char c :: nat) \<and> (of_char c :: nat) \<le> 57"

fun digits :: "nat \<Rightarrow> string" where
  "digits n = (if n < 10 then [digit_char n] else digits (n div 10) @ [digit_char (n mod 10)])"

declare digits.simps [simp del]

definition digits_val :: "string \<Rightarrow> nat" where
  "digits_val = foldl (\<lambda>a c. 10 * a + digit_val c) 0"

lemma of_char_digit: "d < 10 \<Longrightarrow> (of_char (digit_char d) :: nat) = 48 + d"
  by (simp add: digit_char_def)

lemma digit_val_char [simp]: "d < 10 \<Longrightarrow> digit_val (digit_char d) = d"
  by (simp add: digit_val_def of_char_digit)

lemma is_digit_char [simp]: "d < 10 \<Longrightarrow> is_digit (digit_char d)"
  by (simp add: is_digit_def of_char_digit)

lemma digits_all_digit: "\<forall>c \<in> set (digits n). is_digit c"
proof (induction n rule: digits.induct)
  case (1 n)
  then show ?case by (cases "n < 10") (simp_all add: digits.simps[of n])
qed

lemma digits_nonempty [simp]: "digits n \<noteq> []"
  by (subst digits.simps) simp

lemma digits_val_append: "digits_val (xs @ [c]) = 10 * digits_val xs + digit_val c"
  by (simp add: digits_val_def)

lemma digits_val_digits [simp]: "digits_val (digits n) = n"
proof (induction n rule: digits.induct)
  case (1 n)
  then show ?case
    by (cases "n < 10") (simp_all add: digits.simps[of n] digits_val_append, simp add: digits_val_def)
qed

lemma digits_inj: "digits m = digits n \<Longrightarrow> m = n"
  by (metis digits_val_digits)

lemma length_digits_bound: "n < 10 ^ k \<Longrightarrow> 0 < k \<Longrightarrow> length (digits n) \<le> k"
proof (induction k arbitrary: n)
  case (Suc k)
  show ?case
  proof (cases "n < 10")
    case False
    with Suc.prems have "n div 10 < 10 ^ k" "0 < k"
      by (auto simp: less_mult_imp_div_less) (cases k, auto)
    with Suc.IH False show ?thesis by (subst digits.simps) simp
  qed (subst digits.simps, simp)
qed simp

section \<open>Formatting integers\<close>

definition AppendInt :: "int \<Rightarrow> string" where
  "AppendInt n = (if n < 0 then CHR ''-'' # digits (nat (- n)) else digits (nat n))"

text \<open>The verb \<^verbatim>\<open>%020d\<close>: zeros between the sign and the digits, to width twenty.\<close>

definition pad20 :: "int \<Rightarrow> string" where
  "pad20 n =
     (if n < 0 then CHR ''-'' # replicate (19 - length (digits (nat (- n)))) (CHR ''0'') @ digits (nat (- n))
      else replicate (20 - length (digits (nat n))) (CHR ''0'') @ digits (nat n))"

lemma is_digit_not_special [simp]:
  "\<not> is_digit (CHR ''-'')" "\<not> is_digit (CHR '':'')" "\<not> is_digit (CHR ''#'')"
  "\<not> is_digit (CHR ''+'')" "\<not> is_digit (CHR ''.'')" "\<not> is_digit (CHR ''/'')"
  "is_digit (CHR ''0'')"
  by (simp_all add: is_digit_def)

lemma AppendInt_chars: "c \<in> set (AppendInt n) \<Longrightarrow> is_digit c \<or> c = CHR ''-''"
  using digits_all_digit by (auto simp: AppendInt_def split: if_splits)

lemma AppendInt_no_hash [simp]: "CHR ''#'' \<notin> set (AppendInt n)"
  using AppendInt_chars by fastforce

lemma AppendInt_no_colon [simp]: "CHR '':'' \<notin> set (AppendInt n)"
  using AppendInt_chars by fastforce

lemma digits_no_minus: "digits n = CHR ''-'' # xs \<Longrightarrow> False"
  using digits_all_digit[of n] by auto

lemma AppendInt_inj [simp]: "AppendInt m = AppendInt n \<longleftrightarrow> m = n"
  by (auto simp: AppendInt_def dest: digits_inj digits_no_minus digits_no_minus[OF sym] split: if_splits)

lemma digits_val_zeros [simp]: "digits_val (replicate k (CHR ''0'') @ xs) = digits_val xs"
  by (induction k) (auto simp: digits_val_def digit_val_def)

lemma pad20_all_digit: "0 \<le> n \<Longrightarrow> c \<in> set (pad20 n) \<Longrightarrow> is_digit c"
  using digits_all_digit by (auto simp: pad20_def)

lemma pad20_nonempty [simp]: "pad20 n \<noteq> []"
  by (auto simp: pad20_def)

lemma digits_val_pad20: "0 \<le> n \<Longrightarrow> digits_val (pad20 n) = nat n"
  by (simp add: pad20_def)

section \<open>Parsing integers\<close>

text \<open>
  \<^verbatim>\<open>strconv.ParseUint\<close> and \<^verbatim>\<open>strconv.ParseInt\<close> in base 10 and 64 bits: a syntax error
  and a range error are both \<open>None\<close>.
\<close>

definition ParseUint :: "string \<Rightarrow> nat option" where
  "ParseUint s =
     (if s = [] \<or> \<not> list_all is_digit s then None
      else if digits_val s < 18446744073709551616 then Some (digits_val s) else None)"

definition ParseInt :: "string \<Rightarrow> int option" where
  "ParseInt s =
     (case s of [] \<Rightarrow> None
      | c # cs \<Rightarrow>
          (let neg = (c = CHR ''-'');
               body = (if c = CHR ''-'' \<or> c = CHR ''+'' then cs else s)
           in case ParseUint body of None \<Rightarrow> None
              | Some un \<Rightarrow>
                  if \<not> neg \<and> 9223372036854775808 \<le> un then None
                  else if neg \<and> 9223372036854775808 < un then None
                  else Some (if neg then - int un else int un)))"

lemma ParseUint_pad20:
  "0 \<le> n \<Longrightarrow> n < 18446744073709551616 \<Longrightarrow> ParseUint (pad20 n) = Some (nat n)"
  using pad20_all_digit[of n]
  by (auto simp: ParseUint_def digits_val_pad20 list_all_iff)

lemma ParseInt_pad20:
  assumes "0 \<le> n" and "n \<le> MaxInt64"
  shows "ParseInt (pad20 n) = Some n"
proof -
  obtain c cs where cs: "pad20 n = c # cs" by (meson list.exhaust pad20_nonempty)
  with assms have "is_digit c" using pad20_all_digit by auto
  then have "c \<noteq> CHR ''-''" "c \<noteq> CHR ''+''" by auto
  with cs assms ParseUint_pad20[of n] show ?thesis
    by (simp add: ParseInt_def MaxInt64_def nat_less_iff)
qed

lemma ParseInt_AppendInt:
  assumes "in_i64 n"
  shows "ParseInt (AppendInt n) = Some n"
proof (cases "n < 0")
  case True
  with assms have "nat (- n) \<le> 9223372036854775808"
    by (simp add: in_i64_def MinInt64_def nat_le_iff)
  with True show ?thesis
    using digits_all_digit[of "nat (- n)"]
    by (simp add: ParseInt_def AppendInt_def ParseUint_def list_all_iff)
next
  case False
  obtain c cs where cs: "digits (nat n) = c # cs" by (meson list.exhaust digits_nonempty)
  then have "is_digit c" using digits_all_digit[of "nat n"] by auto
  then have "c \<noteq> CHR ''-''" "c \<noteq> CHR ''+''" by auto
  moreover have "nat n < 9223372036854775808"
    using assms False by (simp add: in_i64_def MaxInt64_def nat_less_iff)
  ultimately show ?thesis
    using False cs digits_all_digit[of "nat n"] digits_val_digits[of "nat n"]
    by (simp add: ParseInt_def AppendInt_def ParseUint_def list_all_iff)
qed

section \<open>Searching and splitting\<close>

definition LastIndexByte :: "string \<Rightarrow> char \<Rightarrow> int" where
  "LastIndexByte s c =
     (let tail = takeWhile (\<lambda>x. x \<noteq> c) (rev s)
      in if length tail = length s then - 1 else int (length s - length tail - 1))"

definition has_suffix :: "string \<Rightarrow> string \<Rightarrow> bool" where
  "has_suffix s suf \<longleftrightarrow> length suf \<le> length s \<and> drop (length s - length suf) s = suf"

definition TrimSuffix :: "string \<Rightarrow> string \<Rightarrow> string" where
  "TrimSuffix s suf = (if has_suffix s suf then take (length s - length suf) s else s)"

lemma takeWhile_stop [simp]: "c \<notin> set xs \<Longrightarrow> takeWhile (\<lambda>x. x \<noteq> c) (xs @ c # ys) = xs"
  by (induction xs) auto

lemma LastIndexByte_append:
  "c \<notin> set ys \<Longrightarrow> LastIndexByte (xs @ c # ys) c = int (length xs)"
  using takeWhile_stop[of c "rev ys" "rev xs"] by (simp add: LastIndexByte_def Let_def)

lemma TrimSuffix_append [simp]: "TrimSuffix (s @ suf) suf = s"
  by (simp add: TrimSuffix_def has_suffix_def)

text \<open>The bytes before and after the last \<open>c\<close> are determined by the string.\<close>

lemma split_last_unique:
  fixes c :: char
  assumes "xs @ c # ys = xs' @ c # ys'" and "c \<notin> set ys" and "c \<notin> set ys'"
  shows "xs = xs' \<and> ys = ys'"
proof -
  have "length xs = length xs'"
    using LastIndexByte_append[OF assms(2), of xs] LastIndexByte_append[OF assms(3), of xs'] assms(1)
    by simp
  with assms(1) show ?thesis by simp
qed

lemma split_first_unique:
  assumes "xs @ c # ys = xs' @ c # ys'" and "c \<notin> set xs" and "c \<notin> set xs'"
  shows "xs = xs' \<and> ys = ys'"
proof -
  have "xs = xs'" using assms by (metis takeWhile_stop)
  with assms(1) show ?thesis by simp
qed

text \<open>\<^verbatim>\<open>strings.Split\<close> on one byte; \<^verbatim>\<open>strings.SplitN\<close> with a positive count.\<close>

fun Split :: "char \<Rightarrow> string \<Rightarrow> string list" where
  "Split c [] = [[]]"
| "Split c (x # xs) =
     (if x = c then [] # Split c xs
      else case Split c xs of [] \<Rightarrow> [[x]] | y # ys \<Rightarrow> (x # y) # ys)"

fun SplitN :: "nat \<Rightarrow> char \<Rightarrow> string \<Rightarrow> string list" where
  "SplitN 0 c s = []"
| "SplitN (Suc 0) c s = [s]"
| "SplitN (Suc (Suc n)) c s =
     (if c \<in> set s
      then takeWhile (\<lambda>x. x \<noteq> c) s # SplitN (Suc n) c (tl (dropWhile (\<lambda>x. x \<noteq> c) s))
      else [s])"

text \<open>The white space of \<^verbatim>\<open>strings.TrimSpace\<close>: the Unicode spaces in UTF-8.\<close>

definition space_bytes :: "nat list list" where
  "space_bytes = [[9], [10], [11], [12], [13], [32], [0xC2, 0x85], [0xC2, 0xA0], [0xE1, 0x9A, 0x80]]
     @ map (\<lambda>b. [0xE2, 0x80, b]) ([0x80..<0x8B] @ [0xA8, 0xA9, 0xAF]) @ [[0xE2, 0x81, 0x9F], [0xE3, 0x80, 0x80]]"

definition spaces :: "string list" where "spaces = map (map char_of) space_bytes"

text \<open>One round drops one space, so the length is enough fuel.\<close>

fun drop_spaces :: "nat \<Rightarrow> string list \<Rightarrow> string \<Rightarrow> string" where
  "drop_spaces 0 sps s = s"
| "drop_spaces (Suc n) sps s =
     (case find (\<lambda>sp. take (length sp) s = sp) sps of
        Some sp \<Rightarrow> drop_spaces n sps (drop (length sp) s)
      | None \<Rightarrow> s)"

definition TrimSpace :: "string \<Rightarrow> string" where
  "TrimSpace s =
     (let left = drop_spaces (length s) spaces s
      in rev (drop_spaces (length left) (map rev spaces) (rev left)))"

lemma Split_nonempty [simp]: "Split c s \<noteq> []"
  by (cases s) (auto split: list.split)

lemma Split_none: "c \<notin> set s \<Longrightarrow> Split c s = [s]"
  by (induction s) auto

lemma Split_append: "c \<notin> set s \<Longrightarrow> Split c (s @ c # t) = s # Split c t"
  by (induction s) auto

lemma spaces_nonempty: "sp \<in> set spaces \<Longrightarrow> sp \<noteq> []"
  by (auto simp: spaces_def space_bytes_def)

text \<open>A string that neither starts nor ends with a space is left alone.\<close>

lemma TrimSpace_id:
  assumes "\<forall>sp \<in> set spaces. take (length sp) s \<noteq> sp" and "\<forall>sp \<in> set spaces. take (length sp) (rev s) \<noteq> rev sp"
  shows "TrimSpace s = s"
proof -
  have "find (\<lambda>sp. take (length sp) s = sp) spaces = None" using assms(1) by (simp add: find_None_iff)
  moreover have "find (\<lambda>sp. take (length sp) (rev s) = sp) (map rev spaces) = None" using assms(2) by (auto simp: find_None_iff)
  ultimately show ?thesis by (cases "length s") (simp_all add: TrimSpace_def)
qed

definition visible_char :: "char \<Rightarrow> bool" where
  "visible_char c \<longleftrightarrow> 32 < (of_char c :: nat) \<and> (of_char c :: nat) < 128"

lemma spaces_invisible:
  assumes "sp \<in> set spaces"
  shows "\<not> visible_char (hd sp) \<and> \<not> visible_char (last sp)"
proof -
  have "\<forall>b \<in> set space_bytes. b \<noteq> [] \<and> (\<forall>x \<in> set b. x < 256 \<and> (x \<le> 32 \<or> 128 \<le> x))" by (auto simp: space_bytes_def)
  moreover obtain b where b: "b \<in> set space_bytes" "sp = map char_of b" using assms by (auto simp: spaces_def)
  ultimately have "b \<noteq> []" "\<forall>c \<in> set sp. \<not> visible_char c" by (fastforce simp: visible_char_def)+
  with b show ?thesis by (simp add: hd_map last_map)
qed

lemma TrimSpace_visible:
  assumes "s \<noteq> []" and "visible_char (hd s)" and "visible_char (last s)"
  shows "TrimSpace s = s"
proof (rule TrimSpace_id; intro ballI notI)
  fix sp assume sp: "sp \<in> set spaces"
  show False if "take (length sp) s = sp"
    using that spaces_invisible[OF sp] spaces_nonempty[OF sp] assms by (metis hd_take length_greater_0_conv)
  show False if "take (length sp) (rev s) = rev sp"
    using that spaces_invisible[OF sp] spaces_nonempty[OF sp] assms by (metis hd_rev hd_take length_greater_0_conv)
qed

section \<open>File names\<close>

text \<open>
  \<^verbatim>\<open>filepath.Ext\<close>: the suffix from the last dot of the last path element.
  \<^verbatim>\<open>filepath.Base\<close>: the last path element, trailing separators removed.
\<close>

definition Ext :: "string \<Rightarrow> string" where
  "Ext path =
     (let tail = takeWhile (\<lambda>c. c \<noteq> CHR ''.'' \<and> c \<noteq> CHR ''/'') (rev path);
          rest = dropWhile (\<lambda>c. c \<noteq> CHR ''.'' \<and> c \<noteq> CHR ''/'') (rev path)
      in case rest of [] \<Rightarrow> [] | c # _ \<Rightarrow> if c = CHR ''.'' then CHR ''.'' # rev tail else [])"

definition Base :: "string \<Rightarrow> string" where
  "Base path =
     (if path = [] then ''.''
      else let stripped = rev (dropWhile (\<lambda>c. c = CHR ''/'') (rev path));
               elem = rev (takeWhile (\<lambda>c. c \<noteq> CHR ''/'') (rev stripped))
           in if elem = [] then ''/'' else elem)"

lemma Base_plain:
  assumes "s \<noteq> []" and "CHR ''/'' \<notin> set s"
  shows "Base s = s"
proof -
  have "dropWhile (\<lambda>c. c = CHR ''/'') (rev s) = rev s"
    using assms by (cases "rev s") auto
  moreover have "takeWhile (\<lambda>c. c \<noteq> CHR ''/'') (rev s) = rev s"
    by (rule takeWhile_eq_all_conv[THEN iffD2]) (use assms(2) in auto)
  ultimately show ?thesis unfolding Base_def Let_def using assms(1) by (simp only: rev_rev_ident if_False)
qed

lemma Ext_append_dot:
  assumes "CHR ''.'' \<notin> set e" and "CHR ''/'' \<notin> set e"
  shows "Ext (s @ CHR ''.'' # e) = CHR ''.'' # e"
proof -
  let ?P = "\<lambda>c. c \<noteq> CHR ''.'' \<and> c \<noteq> CHR ''/''"
  have all: "\<forall>c \<in> set (rev e). ?P c" using assms by auto
  have "takeWhile ?P (rev e @ CHR ''.'' # rev s) = rev e"
    using all by (subst takeWhile_append2) auto
  moreover have "dropWhile ?P (rev e @ CHR ''.'' # rev s) = CHR ''.'' # rev s"
    using all by (subst dropWhile_append2) auto
  ultimately show ?thesis by (simp add: Ext_def)
qed

end
