(* ===== verification/Domain.thy ===== *)
theory Domain
  imports GoStrings
begin

text \<open>
  The domain types of \<^verbatim>\<open>internal/domain\<close>: events, batches, correlation keys, aggregate
  windows, device states and commands, with their validation and their string identities.
  The lemmas characterise what validation accepts and when two identities can collide.
\<close>

section \<open>Event kinds (event.go)\<close>

type_synonym EventKind = "8 word"

definition EventKindUnknown :: EventKind where "EventKindUnknown = 0"
definition EventKindSyscall :: EventKind where "EventKindSyscall = 1"
definition EventKindNetwork :: EventKind where "EventKindNetwork = 2"
definition EventKindProcessExec :: EventKind where "EventKindProcessExec = 3"
definition EventKindProcessExit :: EventKind where "EventKindProcessExit = 4"

lemmas event_kind_defs = EventKindUnknown_def EventKindSyscall_def EventKindNetwork_def
  EventKindProcessExec_def EventKindProcessExit_def

definition eventKindNames :: "(EventKind \<times> string) list" where
  "eventKindNames =
     [(EventKindUnknown, ''unknown''), (EventKindSyscall, ''syscall''),
      (EventKindNetwork, ''network''), (EventKindProcessExec, ''process_exec''),
      (EventKindProcessExit, ''process_exit'')]"

definition EventKind_String :: "EventKind \<Rightarrow> string" where
  "EventKind_String k = (case map_of eventKindNames k of Some name \<Rightarrow> name | None \<Rightarrow> ''unknown'')"

definition EventKind_Valid :: "EventKind \<Rightarrow> bool" where
  "EventKind_Valid k = (map_of eventKindNames k \<noteq> None)"

lemma EventKind_Valid_iff: "EventKind_Valid k \<longleftrightarrow> k \<in> {0, 1, 2, 3, 4}"
  by (auto simp: EventKind_Valid_def eventKindNames_def event_kind_defs)

section \<open>Errors\<close>

definition ErrMissingDeviceID :: error where
  [go_error_defs]: "ErrMissingDeviceID = Err ''domain: device id is empty''"
definition ErrMissingUserID :: error where
  [go_error_defs]: "ErrMissingUserID = Err ''domain: user id is empty''"
definition ErrInvalidKind :: error where
  [go_error_defs]: "ErrInvalidKind = Err ''domain: event kind is not recognised''"
definition ErrNegativeLatency :: error where
  [go_error_defs]: "ErrNegativeLatency = Err ''domain: latency must not be negative''"
definition ErrNegativeBytes :: error where
  [go_error_defs]: "ErrNegativeBytes = Err ''domain: bytes must not be negative''"
definition ErrZeroTimestamp :: error where
  [go_error_defs]: "ErrZeroTimestamp = Err ''domain: observed timestamp is zero''"
definition ErrDeviceMismatch :: error where
  [go_error_defs]: "ErrDeviceMismatch = Err ''domain: event device id does not match authenticated identity''"
definition ErrDeviceNotFound :: error where
  [go_error_defs]: "ErrDeviceNotFound = Err ''no such device''"
definition ErrInvalidCommand :: error where
  [go_error_defs]: "ErrInvalidCommand = Err ''domain: command kind is not recognised''"
definition ErrMissingActor :: error where
  [go_error_defs]: "ErrMissingActor = Err ''domain: command actor is empty''"

section \<open>Events and batches (event.go)\<close>

record Event =
  ev_DeviceID :: string
  ev_UserID :: string
  ev_ProcessID :: int
  ev_PodID :: string
  ev_Kind :: EventKind
  ev_ObservedAt :: time
  ev_LatencyNanos :: int
  ev_Bytes :: int
  ev_Failed :: bool

datatype CorrelationKey =
  CorrelationKey (ck_UserID: string) (ck_DeviceID: string) (ck_ProcessID: int) (ck_PodID: string)

definition Event_Validate :: "Event \<Rightarrow> error option" where
  "Event_Validate e =
     (if ev_DeviceID e = [] then Some ErrMissingDeviceID
      else if ev_UserID e = [] then Some ErrMissingUserID
      else if \<not> EventKind_Valid (ev_Kind e) then Some ErrInvalidKind
      else if ev_LatencyNanos e < 0 then Some ErrNegativeLatency
      else if ev_Bytes e < 0 then Some ErrNegativeBytes
      else if IsZero (ev_ObservedAt e) then Some ErrZeroTimestamp
      else None)"

definition Event_CorrelationKey :: "Event \<Rightarrow> CorrelationKey" where
  "Event_CorrelationKey e = CorrelationKey (ev_UserID e) (ev_DeviceID e) (ev_ProcessID e) (ev_PodID e)"

record Batch =
  b_DeviceID :: string
  b_CreatedAt :: time
  b_Events :: "Event list"

fun batch_validate_from :: "string \<Rightarrow> nat \<Rightarrow> Event list \<Rightarrow> error option" where
  "batch_validate_from dev i [] = None"
| "batch_validate_from dev i (e # es) =
     (case Event_Validate e of
        Some err \<Rightarrow> Some (Wrap (''domain: batch event '' @ AppendInt (int i) @ '' invalid'') err)
      | None \<Rightarrow>
          if ev_DeviceID e \<noteq> dev
          then Some (Wrap (''domain: batch event '' @ AppendInt (int i)) ErrDeviceMismatch)
          else batch_validate_from dev (Suc i) es)"

definition Batch_Validate :: "Batch \<Rightarrow> error option" where
  "Batch_Validate b =
     (if b_DeviceID b = [] then Some ErrMissingDeviceID
      else batch_validate_from (b_DeviceID b) 0 (b_Events b))"

fun verify_events_from :: "string \<Rightarrow> nat \<Rightarrow> Event list \<Rightarrow> error option" where
  "verify_events_from auth i [] = None"
| "verify_events_from auth i (e # es) =
     (if ev_DeviceID e \<noteq> auth
      then Some (Wrap (''domain: event '' @ AppendInt (int i) @ '' claims '' @ ev_DeviceID e
                       @ '' but connection is '' @ auth) ErrDeviceMismatch)
      else verify_events_from auth (Suc i) es)"

definition Batch_VerifyIdentity :: "Batch \<Rightarrow> string \<Rightarrow> error option" where
  "Batch_VerifyIdentity b auth =
     (if b_DeviceID b \<noteq> auth
      then Some (Wrap (''domain: batch claims '' @ b_DeviceID b @ '' but connection is '' @ auth)
                   ErrDeviceMismatch)
      else verify_events_from auth 0 (b_Events b))"

definition Batch_Len :: "Batch \<Rightarrow> int" where
  "Batch_Len b = int (length (b_Events b))"

section \<open>Keys, windows and device states (key.go)\<close>

definition CorrelationKey_append :: "CorrelationKey \<Rightarrow> string \<Rightarrow> string" where
  "CorrelationKey_append k buffer =
     buffer @ ''{'' @ ck_UserID k @ ''}:'' @ ck_DeviceID k @ '':''
       @ AppendInt (ck_ProcessID k) @ '':'' @ ck_PodID k"

definition CorrelationKey_String :: "CorrelationKey \<Rightarrow> string" where
  "CorrelationKey_String k = CorrelationKey_append k []"

definition CorrelationKey_ShardTag :: "CorrelationKey \<Rightarrow> string" where
  "CorrelationKey_ShardTag k = ck_UserID k"

definition CorrelationKey_DeviceScope :: "CorrelationKey \<Rightarrow> string" where
  "CorrelationKey_DeviceScope k = ''{'' @ ck_UserID k @ ''}:'' @ ck_DeviceID k"

record AggregateWindow =
  w_Key :: CorrelationKey
  w_WindowID :: int
  w_Sequence :: int
  w_WindowStart :: time
  w_WindowEnd :: time
  w_Count :: int
  w_ErrorCount :: int
  w_Bytes :: int
  w_P95Nanos :: int
  w_P99Nanos :: int
  w_MaxNanos :: int

definition Identity :: "AggregateWindow \<Rightarrow> string" where
  "Identity w = CorrelationKey_append (w_Key w) [] @ ''#'' @ AppendInt (w_WindowID w)
     @ ''#'' @ AppendInt (w_Sequence w)"

definition WindowIdentity :: "AggregateWindow \<Rightarrow> string" where
  "WindowIdentity w = CorrelationKey_append (w_Key w) [] @ ''#'' @ AppendInt (w_WindowID w)"

record DeviceState =
  ds_UserID :: string
  ds_DeviceID :: string
  ds_Count :: int
  ds_ErrorCount :: int
  ds_Bytes :: int
  ds_P95Nanos :: int
  ds_P99Nanos :: int
  ds_LastWindowID :: int
  ds_LastSeen :: time
  ds_Stale :: bool

text \<open>The zero value of the struct, as \<^verbatim>\<open>domain.DeviceState{}\<close>.\<close>

definition zero_DeviceState :: DeviceState where
  "zero_DeviceState =
     \<lparr>ds_UserID = [], ds_DeviceID = [], ds_Count = 0, ds_ErrorCount = 0, ds_Bytes = 0,
      ds_P95Nanos = 0, ds_P99Nanos = 0, ds_LastWindowID = 0, ds_LastSeen = zero_time, ds_Stale = False\<rparr>"

section \<open>Commands (command.go)\<close>

type_synonym CommandKind = "8 word"

definition CommandUnknown :: CommandKind where "CommandUnknown = 0"
definition CommandResetCounters :: CommandKind where "CommandResetCounters = 1"
definition CommandQuarantineDevice :: CommandKind where "CommandQuarantineDevice = 2"

lemmas command_kind_defs = CommandUnknown_def CommandResetCounters_def CommandQuarantineDevice_def

definition commandKindNames :: "(CommandKind \<times> string) list" where
  "commandKindNames =
     [(CommandResetCounters, ''reset_counters''), (CommandQuarantineDevice, ''quarantine_device'')]"

definition CommandKind_String :: "CommandKind \<Rightarrow> string" where
  "CommandKind_String k = (case map_of commandKindNames k of Some name \<Rightarrow> name | None \<Rightarrow> ''unknown'')"

definition CommandKind_Valid :: "CommandKind \<Rightarrow> bool" where
  "CommandKind_Valid k = (map_of commandKindNames k \<noteq> None)"

record Command =
  c_Kind :: CommandKind
  c_UserID :: string
  c_DeviceID :: string
  c_Actor :: string
  c_IssuedAt :: time

definition Command_Validate :: "Command \<Rightarrow> error option" where
  "Command_Validate c =
     (if \<not> CommandKind_Valid (c_Kind c) then Some ErrInvalidCommand
      else if c_UserID c = [] then Some ErrMissingUserID
      else if c_DeviceID c = [] then Some ErrMissingDeviceID
      else if c_Actor c = [] then Some ErrMissingActor
      else None)"

definition Command_ShardTag :: "Command \<Rightarrow> string" where
  "Command_ShardTag c = c_UserID c"

section \<open>Ports shared by the services (ports.go)\<close>

record DeviceListing =
  dl_Devices :: "string list"
  dl_Stale :: bool

record Lease =
  ls_Resource :: string
  ls_Token :: int
  ls_ExpiresAt :: time

section \<open>What validation accepts\<close>

definition valid_event :: "Event \<Rightarrow> bool" where
  "valid_event e \<longleftrightarrow>
     ev_DeviceID e \<noteq> [] \<and> ev_UserID e \<noteq> [] \<and> ev_Kind e \<in> {0, 1, 2, 3, 4} \<and>
     0 \<le> ev_LatencyNanos e \<and> 0 \<le> ev_Bytes e \<and> \<not> IsZero (ev_ObservedAt e)"

lemma Event_Validate_None: "Event_Validate e = None \<longleftrightarrow> valid_event e"
  by (auto simp: Event_Validate_def valid_event_def EventKind_Valid_iff split: if_splits)

lemma batch_validate_from_None:
  "batch_validate_from dev i es = None \<longleftrightarrow> (\<forall>e \<in> set es. valid_event e \<and> ev_DeviceID e = dev)"
  by (induction es arbitrary: i) (auto simp flip: Event_Validate_None split: option.splits)

lemma Batch_Validate_None:
  "Batch_Validate b = None \<longleftrightarrow>
     b_DeviceID b \<noteq> [] \<and> (\<forall>e \<in> set (b_Events b). valid_event e \<and> ev_DeviceID e = b_DeviceID b)"
  by (simp add: Batch_Validate_def batch_validate_from_None)

lemma verify_events_from_None:
  "verify_events_from auth i es = None \<longleftrightarrow> (\<forall>e \<in> set es. ev_DeviceID e = auth)"
  by (induction es arbitrary: i) auto

lemma verify_events_from_mismatch:
  "verify_events_from auth i es = Some err \<Longrightarrow> errors_Is err ErrDeviceMismatch"
  by (induction es arbitrary: i) (auto split: if_splits)

lemma VerifyIdentity_None:
  "Batch_VerifyIdentity b auth = None \<longleftrightarrow>
     b_DeviceID b = auth \<and> (\<forall>e \<in> set (b_Events b). ev_DeviceID e = auth)"
  by (simp add: Batch_VerifyIdentity_def verify_events_from_None)

lemma VerifyIdentity_mismatch:
  "Batch_VerifyIdentity b auth = Some err \<Longrightarrow> errors_Is err ErrDeviceMismatch"
  by (auto simp: Batch_VerifyIdentity_def dest: verify_events_from_mismatch split: if_splits)

section \<open>Identities\<close>

text \<open>
  Reading an identity from its end recovers the sequence and the window id; with the user and
  the device known, it recovers the process and the pod as well.
\<close>

lemma Identity_suffix_inj:
  assumes "Identity v = Identity w"
  shows "w_Sequence v = w_Sequence w \<and> w_WindowID v = w_WindowID w \<and>
         CorrelationKey_String (w_Key v) = CorrelationKey_String (w_Key w)"
proof -
  let ?pre = "\<lambda>w. CorrelationKey_append (w_Key w) [] @ CHR ''#'' # AppendInt (w_WindowID w)"
  have "?pre v @ CHR ''#'' # AppendInt (w_Sequence v) = ?pre w @ CHR ''#'' # AppendInt (w_Sequence w)"
    using assms by (simp add: Identity_def)
  from split_last_unique[OF this] have "?pre v = ?pre w" and "w_Sequence v = w_Sequence w"
    by auto
  moreover from split_last_unique[OF this(1)] have
    "CorrelationKey_append (w_Key v) [] = CorrelationKey_append (w_Key w) []"
    and "w_WindowID v = w_WindowID w"
    by auto
  ultimately show ?thesis by (simp add: CorrelationKey_String_def)
qed

lemma CorrelationKey_String_inj:
  assumes "CorrelationKey_String j = CorrelationKey_String k"
    and "ck_UserID j = ck_UserID k" and "ck_DeviceID j = ck_DeviceID k"
  shows "j = k"
proof -
  have "AppendInt (ck_ProcessID j) @ CHR '':'' # ck_PodID j = AppendInt (ck_ProcessID k) @ CHR '':'' # ck_PodID k"
    using assms by (simp add: CorrelationKey_String_def CorrelationKey_append_def)
  from split_first_unique[OF this] assms(2,3) show ?thesis
    by (simp add: CorrelationKey.expand)
qed

text \<open>A user id without a closing brace is determined by the device scope.\<close>

lemma scope_inj:
  assumes "''{'' @ u @ ''}:'' @ d = ''{'' @ u' @ ''}:'' @ d'"
    and "CHR ''}'' \<notin> set u" and "CHR ''}'' \<notin> set u'"
  shows "u = u' \<and> d = d'"
  using split_first_unique[of u "CHR ''}''" "CHR '':'' # d" u' "CHR '':'' # d'"] assms by auto

end
