(* ===== verification/Locker.thy ===== *)
theory Locker
  imports Domain
begin

text \<open>
  The in-memory fenced lock of \<^verbatim>\<open>internal/store/lock.go\<close>. The clock's reading is an argument of each
  operation. The locale states what the users of \<^verbatim>\<open>domain.FencedLocker\<close> rely on: tokens of a resource
  grow, and a lease passes its guard only while it is the newest and unexpired, so at most one holder
  passes at any instant.
\<close>

section \<open>The lock\<close>

definition ErrLockHeld :: error where
  [go_error_defs]: "ErrLockHeld = Err ''store: lock is held by another holder''"
definition ErrLeaseSuperseded :: error where
  [go_error_defs]: "ErrLeaseSuperseded = Err ''store: lease was superseded by a newer fencing token''"
definition ErrEmptyResource :: error where
  [go_error_defs]: "ErrEmptyResource = Err ''store: resource name is required''"

definition DefaultLeaseTTL :: duration where "DefaultLeaseTTL = 15 * second"

record heldLock =
  hl_token :: int
  hl_expiresAt :: time

record Locker =
  lk_held :: "string \<rightharpoonup> heldLock"
  lk_fences :: "string \<rightharpoonup> int"

definition NewLocker :: Locker where
  "NewLocker = \<lparr>lk_held = Map.empty, lk_fences = Map.empty\<rparr>"

definition fence :: "Locker \<Rightarrow> string \<Rightarrow> int" where
  "fence l r = (case lk_fences l r of Some n \<Rightarrow> n | None \<Rightarrow> 0)"

definition Acquire :: "ctx \<Rightarrow> string \<Rightarrow> duration \<Rightarrow> time \<Rightarrow> Locker \<Rightarrow> (error + Lease) \<times> Locker" where
  "Acquire ctx resource ttl0 now l =
     (case ctx of Some err \<Rightarrow> (Inl err, l)
      | None \<Rightarrow>
          if resource = [] then (Inl ErrEmptyResource, l)
          else let ttl = (if ttl0 \<le> 0 then DefaultLeaseTTL else ttl0)
               in if (case lk_held l resource of Some current \<Rightarrow> now < hl_expiresAt current | None \<Rightarrow> False)
                  then (Inl ErrLockHeld, l)
                  else let token = wrap64 (fence l resource + 1);
                           lease = \<lparr>ls_Resource = resource, ls_Token = token, ls_ExpiresAt = now + ttl\<rparr>
                       in (Inr lease,
                           l\<lparr>lk_fences := (lk_fences l)(resource \<mapsto> token),
                             lk_held := (lk_held l)(resource \<mapsto> \<lparr>hl_token = token, hl_expiresAt = ls_ExpiresAt lease\<rparr>)\<rparr>))"

definition Release :: "ctx \<Rightarrow> Lease \<Rightarrow> Locker \<Rightarrow> error option \<times> Locker" where
  "Release ctx lease l =
     (case ctx of Some err \<Rightarrow> (Some err, l)
      | None \<Rightarrow>
          (case lk_held l (ls_Resource lease) of
             None \<Rightarrow> (None, l)
           | Some current \<Rightarrow>
               if hl_token current \<noteq> ls_Token lease then (Some ErrLeaseSuperseded, l)
               else (None, l\<lparr>lk_held := (lk_held l)(ls_Resource lease := None)\<rparr>)))"

definition Guard :: "ctx \<Rightarrow> Lease \<Rightarrow> time \<Rightarrow> Locker \<Rightarrow> error option" where
  "Guard ctx lease now l =
     (case ctx of Some err \<Rightarrow> Some err
      | None \<Rightarrow>
          (case lk_held l (ls_Resource lease) of
             None \<Rightarrow> Some ErrLeaseSuperseded
           | Some current \<Rightarrow>
               if hl_token current \<noteq> ls_Token lease then Some ErrLeaseSuperseded
               else if ls_Token lease < fence l (ls_Resource lease) then Some ErrLeaseSuperseded
               else if \<not> now < hl_expiresAt current then Some ErrLeaseSuperseded
               else None))"

section \<open>The FencedLocker contract\<close>

text \<open>
  Runs of a lock from \<open>s0\<close>, in any interleaving of its users' calls, with the leases issued so far, the newest
  first. The first argument of an operation is its context, or whatever else the operation depends on. \<open>fits\<close> says that the next token does not wrap.
\<close>

inductive locker_run :: "('c \<Rightarrow> string \<Rightarrow> duration \<Rightarrow> time \<Rightarrow> 's \<Rightarrow> (error + Lease) \<times> 's) \<Rightarrow>
    ('c \<Rightarrow> Lease \<Rightarrow> 's \<Rightarrow> error option \<times> 's) \<Rightarrow> (string \<Rightarrow> 's \<Rightarrow> bool) \<Rightarrow> 's \<Rightarrow> Lease list \<Rightarrow> 's \<Rightarrow> bool"
  for acquire release fits s0 where
  run_start: "locker_run acquire release fits s0 [] s0"
| run_acquire: "locker_run acquire release fits s0 ls s \<Longrightarrow> fits r s \<Longrightarrow> acquire ctx r ttl now s = (Inr lease, s') \<Longrightarrow>
    locker_run acquire release fits s0 (lease # ls) s'"
| run_refused: "locker_run acquire release fits s0 ls s \<Longrightarrow> fits r s \<Longrightarrow> acquire ctx r ttl now s = (Inl err, s') \<Longrightarrow>
    locker_run acquire release fits s0 ls s'"
| run_release: "locker_run acquire release fits s0 ls s \<Longrightarrow> release ctx lease s = (e, s') \<Longrightarrow>
    locker_run acquire release fits s0 ls s'"

text \<open>
  \<open>newest r s\<close> is the last token issued for a resource.
\<close>

locale fenced_locker =
  fixes acquire :: "'c \<Rightarrow> string \<Rightarrow> duration \<Rightarrow> time \<Rightarrow> 's \<Rightarrow> (error + Lease) \<times> 's"
    and release :: "'c \<Rightarrow> Lease \<Rightarrow> 's \<Rightarrow> error option \<times> 's"
    and guard :: "'c \<Rightarrow> Lease \<Rightarrow> time \<Rightarrow> 's \<Rightarrow> error option"
    and newest :: "string \<Rightarrow> 's \<Rightarrow> int"
    and ok :: "'s \<Rightarrow> bool"
    and fits :: "string \<Rightarrow> 's \<Rightarrow> bool"
  assumes acquire_ok: "ok s \<Longrightarrow> fits r s \<Longrightarrow> acquire ctx r ttl now s = (Inr lease, s') \<Longrightarrow>
      ok s' \<and> ls_Resource lease = r \<and> newest r s < ls_Token lease \<and> newest r s' = ls_Token lease \<and>
      (\<forall>q. newest q s \<le> newest q s')"
    and acquire_fail: "ok s \<Longrightarrow> fits r s \<Longrightarrow> acquire ctx r ttl now s = (Inl err, s') \<Longrightarrow> ok s' \<and> (\<forall>q. newest q s \<le> newest q s')"
    and release_ok: "ok s \<Longrightarrow> release ctx lease s = (e, s') \<Longrightarrow> ok s' \<and> (\<forall>q. newest q s \<le> newest q s')"
    and guard_newest: "ok s \<Longrightarrow> guard cx lease now s = None \<Longrightarrow> ls_Token lease = newest (ls_Resource lease) s"
begin

lemma run_ok: "locker_run acquire release fits s0 ls s \<Longrightarrow> ok s0 \<Longrightarrow> ok s"
  by (induction rule: locker_run.induct) (auto dest: acquire_ok acquire_fail release_ok)

lemma run_tokens:
  assumes "locker_run acquire release fits s0 ls s" and "ok s0"
  shows "(\<forall>l \<in> set ls. ls_Token l \<le> newest (ls_Resource l) s) \<and>
    sorted_wrt (\<lambda>new old. ls_Resource new = ls_Resource old \<longrightarrow> ls_Token old < ls_Token new) ls"
  using assms
proof (induction rule: locker_run.induct)
  case (run_acquire ls s r ctx ttl now lease s')
  note a = acquire_ok[OF run_ok[OF run_acquire.hyps(1) run_acquire.prems] run_acquire.hyps(2,3)]
  have "ls_Token l \<le> newest (ls_Resource l) s' \<and> (ls_Resource lease = ls_Resource l \<longrightarrow> ls_Token l < ls_Token lease)"
    if "l \<in> set ls" for l
    using that a run_acquire.IH[OF run_acquire.prems] by (metis order_trans le_less_trans)
  with run_acquire.IH[OF run_acquire.prems] a show ?case by auto
next
  case (run_refused ls s r ctx ttl now err s')
  then show ?case using acquire_fail[OF run_ok[OF run_refused.hyps(1)]] by (meson order_trans)
next
  case (run_release ls s ctx lease e s')
  then show ?case using release_ok[OF run_ok[OF run_release.hyps(1)]] by (meson order_trans)
qed simp

lemma guard_unique:
  assumes "locker_run acquire release fits s0 ls s" and "ok s0" and "l \<in> set ls" and "l' \<in> set ls" and "ls_Resource l = ls_Resource l'"
    and "guard cx l now s = None" and "guard cx' l' now' s = None"
  shows "l = l'"
proof -
  have "ls_Token l = ls_Token l'"
    using guard_newest[OF run_ok[OF assms(1,2)]] assms(5-7) by metis
  moreover have "sorted_wrt (\<lambda>new old. ls_Resource new = ls_Resource old \<longrightarrow> ls_Token old < ls_Token new) ls"
    using run_tokens[OF assms(1,2)] by simp
  ultimately show ?thesis
    using assms(3-5) by (induction ls) auto
qed

lemma guard_latest:
  assumes "locker_run acquire release fits s0 ls s" and "ok s0" and "guard cx l now s = None" and "l' \<in> set ls" and "ls_Resource l' = ls_Resource l"
  shows "ls_Token l' \<le> ls_Token l"
  using guard_newest[OF run_ok[OF assms(1,2)] assms(3)] run_tokens[OF assms(1,2)] assms(4,5) by metis

end

section \<open>The lock fulfils it\<close>

definition lock_inv :: "Locker \<Rightarrow> bool" where
  "lock_inv l \<longleftrightarrow> (\<forall>r h. lk_held l r = Some h \<longrightarrow> hl_token h = fence l r) \<and> (\<forall>r. in_i64 (fence l r))"

definition token_fits :: "string \<Rightarrow> Locker \<Rightarrow> bool" where
  "token_fits r l \<longleftrightarrow> fence l r < MaxInt64"

lemma fence_held [simp]: "fence (l\<lparr>lk_held := h\<rparr>) r = fence l r"
  by (simp add: fence_def)

lemma lock_inv_init: "lock_inv NewLocker"
  by (simp add: lock_inv_def NewLocker_def fence_def in_i64_def MinInt64_def MaxInt64_def)

lemma Acquire_cases:
  assumes "Acquire ctx r ttl now l = (res, l')"
  obtains (refused) err where "res = Inl err" "l' = l"
  | (granted) lease where "ctx = None" "r \<noteq> []" "res = Inr lease" "\<And>h. lk_held l r = Some h \<Longrightarrow> hl_expiresAt h \<le> now"
      "lease = \<lparr>ls_Resource = r, ls_Token = wrap64 (fence l r + 1), ls_ExpiresAt = now + (if ttl \<le> 0 then DefaultLeaseTTL else ttl)\<rparr>"
      "lk_fences l' = (lk_fences l)(r \<mapsto> ls_Token lease)"
      "lk_held l' = (lk_held l)(r \<mapsto> \<lparr>hl_token = ls_Token lease, hl_expiresAt = ls_ExpiresAt lease\<rparr>)"
  using assms by (auto simp: Acquire_def Let_def not_less split: option.splits if_splits)

lemma wrap64_fits: "token_fits r l \<Longrightarrow> lock_inv l \<Longrightarrow> wrap64 (fence l r + 1) = fence l r + 1"
  by (intro wrap64_id) (auto simp: token_fits_def lock_inv_def in_i64_def intro: le_imp_less_Suc order_trans dest!: spec[of _ r])

interpretation lock: fenced_locker Acquire Release Guard "\<lambda>r l. fence l r" lock_inv token_fits
proof unfold_locales
  fix l l' :: Locker and r ctx ttl now lease
  assume inv: "lock_inv l" and fits: "token_fits r l" and run: "Acquire ctx r ttl now l = (Inr lease, l')"
  note w = wrap64_fits[OF fits inv]
  have "in_i64 (fence l r + 1)" using w wrap64_in_i64 by metis
  with inv show "lock_inv l' \<and> ls_Resource lease = r \<and> fence l r < ls_Token lease \<and> fence l' r = ls_Token lease \<and> (\<forall>q. fence l q \<le> fence l' q)"
    by (rule_tac Acquire_cases[OF run]) (auto simp: w lock_inv_def fence_def)
next
  fix l l' :: Locker and r ctx ttl now err
  assume "lock_inv l" and "Acquire ctx r ttl now l = (Inl err, l')"
  then show "lock_inv l' \<and> (\<forall>q. fence l q \<le> fence l' q)" by (elim Acquire_cases) auto
next
  fix l l' :: Locker and ctx lease e
  assume "lock_inv l" and "Release ctx lease l = (e, l')"
  then show "lock_inv l' \<and> (\<forall>q. fence l q \<le> fence l' q)"
    by (auto simp: Release_def lock_inv_def split: option.splits if_splits)
next
  fix l :: Locker and cx lease now
  assume "lock_inv l" and "Guard cx lease now l = None"
  then show "ls_Token lease = fence l (ls_Resource lease)"
    by (auto simp: Guard_def lock_inv_def split: option.splits if_splits)
qed

section \<open>Properties\<close>

text \<open>
  Property C6 (mutual exclusion). In every run of the lock, if two leases it issued for one resource both pass the guard in the
  same state, at whatever clock readings, they are the same lease; and no lease issued for the resource has
  a newer token.
\<close>

theorem guard_mutual_exclusion:
  assumes "locker_run Acquire Release token_fits NewLocker ls l" and "x \<in> set ls" and "y \<in> set ls"
    and "ls_Resource x = ls_Resource y" and "Guard None x now l = None"
  shows "(Guard None y now' l = None \<longrightarrow> x = y) \<and> ls_Token y \<le> ls_Token x"
  using lock.guard_unique[OF assms(1) lock_inv_init assms(2-5)] lock.guard_latest[OF assms(1) lock_inv_init assms(5,3)] assms(4)
  by auto

definition ex_lease :: "int \<Rightarrow> time \<Rightarrow> Lease" where
  "ex_lease t e = \<lparr>ls_Resource = ''r'', ls_Token = t, ls_ExpiresAt = e\<rparr>"

definition ex_locked :: Locker where "ex_locked = snd (Acquire None ''r'' 5 100 NewLocker)"
definition ex_taken :: Locker where "ex_taken = snd (Acquire None ''r'' 5 105 ex_locked)"

lemma ex_acquires:
  "Acquire None ''r'' 5 100 NewLocker = (Inr (ex_lease 1 105), ex_locked)"
  "Acquire None ''r'' 5 105 ex_locked = (Inr (ex_lease 2 110), ex_taken)"
  by (simp_all add: ex_locked_def ex_taken_def Acquire_def NewLocker_def ex_lease_def fence_def Let_def wrap64_def)

lemma ex_run: "locker_run Acquire Release token_fits NewLocker [ex_lease 2 110, ex_lease 1 105] ex_taken"
proof -
  have fits: "token_fits ''r'' NewLocker" "token_fits ''r'' ex_locked"
    by (simp_all add: token_fits_def fence_def ex_locked_def Acquire_def NewLocker_def Let_def wrap64_def MaxInt64_def)
  have "locker_run Acquire Release token_fits NewLocker [] NewLocker" by (rule run_start)
  then have "locker_run Acquire Release token_fits NewLocker [ex_lease 1 105] ex_locked"
    using fits(1) ex_acquires(1) by (rule run_acquire)
  then show ?thesis using fits(2) ex_acquires(2) by (rule run_acquire)
qed

theorem guard_mutual_exclusion_witness:
  "Guard None (ex_lease 2 110) 107 ex_taken = None \<and> Guard None (ex_lease 1 105) 107 ex_taken \<noteq> None"
proof -
  have ok: "Guard None (ex_lease 2 110) 107 ex_taken = None"
    by (simp add: Guard_def ex_taken_def ex_locked_def Acquire_def NewLocker_def ex_lease_def fence_def Let_def wrap64_def)
  have "ex_lease 2 110 \<noteq> ex_lease 1 105" by (simp add: ex_lease_def)
  with guard_mutual_exclusion[OF ex_run _ _ _ ok, of "ex_lease 1 105" 107] ok show ?thesis by (auto simp: ex_lease_def)
qed

text \<open>
  Availability of the lock. Acquiring a named resource with a live context fails only while another lease is unexpired; otherwise
  it grants a lease that passes the guard until its expiry, that its holder can release, and whose expiry lies strictly
  in the future.
\<close>

theorem acquire_grants:
  assumes "lock_inv l" and "token_fits r l" and "r \<noteq> []"
  shows "case Acquire None r ttl now l of
      (Inl err, l') \<Rightarrow> err = ErrLockHeld \<and> l' = l \<and> (\<exists>h. lk_held l r = Some h \<and> now < hl_expiresAt h)
    | (Inr lease, l') \<Rightarrow> (\<forall>h. lk_held l r = Some h \<longrightarrow> hl_expiresAt h \<le> now) \<and> now < ls_ExpiresAt lease \<and>
        (\<forall>t. Guard None lease t l' = None \<longleftrightarrow> t < ls_ExpiresAt lease) \<and>
        fst (Release None lease l') = None \<and> lk_held (snd (Release None lease l')) r = None"
proof (cases "\<exists>h. lk_held l r = Some h \<and> now < hl_expiresAt h")
  case True
  with assms(3) show ?thesis by (auto simp: Acquire_def Let_def)
next
  case False
  have "0 < DefaultLeaseTTL" by (simp add: DefaultLeaseTTL_def second_def)
  with False assms(3) show ?thesis
    by (auto simp: Acquire_def Guard_def Release_def fence_def Let_def not_less wrap64_fits[OF assms(2,1)] split: option.split)
qed

theorem acquire_grants_witness:
  "fst (Acquire None ''r'' 0 104 ex_locked) = Inl ErrLockHeld"
proof -
  have inv: "lock_inv ex_locked" and fits: "token_fits ''r'' ex_locked"
    and held: "lk_held ex_locked ''r'' = Some \<lparr>hl_token = 1, hl_expiresAt = 105\<rparr>"
    by (auto simp: lock_inv_def token_fits_def fence_def ex_locked_def Acquire_def NewLocker_def Let_def wrap64_def in_i64_def
        MinInt64_def MaxInt64_def)
  show ?thesis
    using acquire_grants[OF inv fits, of 104 0] held by (auto split: prod.splits sum.splits)
qed

text \<open>
  Release respects the fence. Releasing with a superseded lease is refused and changes nothing, and releasing never
  touches the lock of another resource, so a slow holder cannot free a lock that has passed to someone else.
\<close>

theorem stale_release_refused:
  assumes "lk_held l (ls_Resource lease) = Some h" and "Release None lease l = (e, l')"
  shows "(e = None \<longleftrightarrow> hl_token h = ls_Token lease) \<and> (e \<noteq> None \<longrightarrow> e = Some ErrLeaseSuperseded \<and> l' = l) \<and>
    (\<forall>r. r \<noteq> ls_Resource lease \<longrightarrow> lk_held l' r = lk_held l r) \<and> lk_fences l' = lk_fences l"
  using assms by (auto simp: Release_def split: if_splits)

theorem stale_release_refused_witness: "Release None (ex_lease 1 105) ex_taken = (Some ErrLeaseSuperseded, ex_taken)"
proof -
  have "lk_held ex_taken (ls_Resource (ex_lease 1 105)) = Some \<lparr>hl_token = 2, hl_expiresAt = 110\<rparr>"
    by (simp add: ex_taken_def ex_locked_def Acquire_def NewLocker_def ex_lease_def fence_def Let_def wrap64_def)
  from stale_release_refused[OF this surjective_pairing] show ?thesis by (simp add: ex_lease_def prod_eq_iff)
qed

end
