(* ===== verification/Sketch.thy ===== *)
theory Sketch
  imports Domain
begin

text \<open>
  The DDSketch of \<^verbatim>\<open>internal/aggregate/sketch.go\<close> and the \<^verbatim>\<open>QuantileSketch\<close>
  interface the aggregator consumes. Floating point values are real numbers: \<^verbatim>\<open>float64\<close>
  rounding is not modelled, so the accuracy statements are those of the algorithm in exact
  arithmetic. Counters are 64-bit. The abstraction of a sketch is the multiset of the
  values it has been given; the theorems say that a quantile query returns the representative of
  the bucket of the exact order statistic, that the representative is within the relative
  accuracy, and that merging adds the multisets.
\<close>

section \<open>Errors\<close>

definition ErrInvalidAccuracy :: error where
  [go_error_defs]: "ErrInvalidAccuracy = Err ''aggregate: relative accuracy must be in (0,1)''"
definition ErrAccuracyMismatch :: error where
  [go_error_defs]: "ErrAccuracyMismatch = Err ''aggregate: cannot merge sketches with different relative accuracy''"
definition ErrInvalidQuantile :: error where
  [go_error_defs]: "ErrInvalidQuantile = Err ''aggregate: quantile must be in [0,1]''"
definition ErrNilSketchOperand :: error where
  [go_error_defs]: "ErrNilSketchOperand = Err ''aggregate: sketch operand is nil''"

definition defaultRelativeError :: real where "defaultRelativeError = 0.01"

section \<open>The sketch\<close>

text \<open>\<open>sk_sorted\<close> is the cached slice of bucket indexes, \<open>None\<close> while it is nil.\<close>

record Sketch =
  sk_relativeAccuracy :: real
  sk_gamma :: real
  sk_logGamma :: real
  sk_buckets :: "(int \<times> int) list"
  sk_sorted :: "int list option"
  sk_sortedStale :: bool
  sk_zeroCount :: int
  sk_count :: int
  sk_max :: int
  sk_min :: int

definition NewSketch :: "real \<Rightarrow> error + Sketch" where
  "NewSketch relativeAccuracy =
     (if relativeAccuracy \<le> 0 \<or> 1 \<le> relativeAccuracy then Inl ErrInvalidAccuracy
      else let gamma = (1 + relativeAccuracy) / (1 - relativeAccuracy)
           in Inr \<lparr>sk_relativeAccuracy = relativeAccuracy, sk_gamma = gamma, sk_logGamma = ln gamma,
                   sk_buckets = [], sk_sorted = None, sk_sortedStale = False,
                   sk_zeroCount = 0, sk_count = 0, sk_max = MinInt64, sk_min = MaxInt64\<rparr>)"

definition sketch_Count :: "Sketch \<Rightarrow> int" where "sketch_Count s = sk_count s"

definition sketch_Max :: "Sketch \<Rightarrow> int" where
  "sketch_Max s = (if sk_count s = 0 then 0 else sk_max s)"

definition sketch_Min :: "Sketch \<Rightarrow> int" where
  "sketch_Min s = (if sk_count s = 0 then 0 else sk_min s)"

definition sketch_index :: "Sketch \<Rightarrow> int \<Rightarrow> int" where
  "sketch_index s value = \<lceil>ln (real_of_int value) / sk_logGamma s\<rceil>"

definition sketch_value :: "Sketch \<Rightarrow> int \<Rightarrow> int" where
  "sketch_value s index =
     (let estimate = round (2 * (sk_gamma s powr real_of_int index) / (1 + sk_gamma s))
      in if MaxInt64 \<le> estimate then MaxInt64 else estimate)"

definition bucket_get :: "(int \<times> int) list \<Rightarrow> int \<Rightarrow> int" where
  "bucket_get m i = (case map_of m i of Some n \<Rightarrow> n | None \<Rightarrow> 0)"

definition sketch_Add :: "int \<Rightarrow> Sketch \<Rightarrow> Sketch" where
  "sketch_Add value s =
     (let s1 = s\<lparr>sk_count := wrap64 (sk_count s + 1)\<rparr>;
          s2 = (if sk_max s1 < value then s1\<lparr>sk_max := value\<rparr> else s1);
          s3 = (if value < sk_min s2 then s2\<lparr>sk_min := value\<rparr> else s2)
      in if value \<le> 0 then s3\<lparr>sk_zeroCount := wrap64 (sk_zeroCount s3 + 1)\<rparr>
         else let index = sketch_index s3 value;
                  s4 = (if map_of (sk_buckets s3) index = None then s3\<lparr>sk_sortedStale := True\<rparr> else s3)
              in s4\<lparr>sk_buckets := AList.update index (wrap64 (bucket_get (sk_buckets s4) index + 1)) (sk_buckets s4)\<rparr>)"

definition sketch_sortedIndexes :: "Sketch \<Rightarrow> int list \<times> Sketch" where
  "sketch_sortedIndexes s =
     (case sk_sorted s of
        Some ixs \<Rightarrow>
          if \<not> sk_sortedStale s then (ixs, s)
          else let fresh = sort (map fst (sk_buckets s))
               in (fresh, s\<lparr>sk_sorted := Some fresh, sk_sortedStale := False\<rparr>)
      | None \<Rightarrow>
          let fresh = sort (map fst (sk_buckets s))
          in (fresh, s\<lparr>sk_sorted := (if sk_buckets s = [] then None else Some fresh), sk_sortedStale := False\<rparr>))"

definition merge_bucket :: "int \<times> int \<Rightarrow> Sketch \<Rightarrow> Sketch" where
  "merge_bucket ic s =
     (let s1 = (if map_of (sk_buckets s) (fst ic) = None then s\<lparr>sk_sortedStale := True\<rparr> else s)
      in s1\<lparr>sk_buckets := AList.update (fst ic) (wrap64 (bucket_get (sk_buckets s1) (fst ic) + snd ic)) (sk_buckets s1)\<rparr>)"

definition sketch_Merge :: "Sketch option \<Rightarrow> Sketch \<Rightarrow> error option \<times> Sketch" where
  "sketch_Merge other s =
     (case other of None \<Rightarrow> (Some ErrNilSketchOperand, s)
      | Some t \<Rightarrow>
          if sk_relativeAccuracy t \<noteq> sk_relativeAccuracy s then (Some ErrAccuracyMismatch, s)
          else if sk_count t = 0 then (None, s)
          else let s1 = fold merge_bucket (sk_buckets t) s;
                   s2 = s1\<lparr>sk_zeroCount := wrap64 (sk_zeroCount s1 + sk_zeroCount t)\<rparr>;
                   s3 = s2\<lparr>sk_count := wrap64 (sk_count s2 + sk_count t)\<rparr>;
                   s4 = (if sk_max s3 < sk_max t then s3\<lparr>sk_max := sk_max t\<rparr> else s3);
                   s5 = (if sk_min t < sk_min s4 then s4\<lparr>sk_min := sk_min t\<rparr> else s4)
               in (None, s5))"

fun quantile_scan :: "(int \<times> int) list \<Rightarrow> int \<Rightarrow> int \<Rightarrow> int list \<Rightarrow> int option" where
  "quantile_scan m rank cumulative [] = None"
| "quantile_scan m rank cumulative (index # rest) =
     (let cumulative' = wrap64 (cumulative + bucket_get m index)
      in if rank < cumulative' then Some index else quantile_scan m rank cumulative' rest)"

definition sketch_Quantile :: "real \<Rightarrow> Sketch \<Rightarrow> (error + int) \<times> Sketch" where
  "sketch_Quantile q s =
     (if q < 0 \<or> 1 < q then (Inl ErrInvalidQuantile, s)
      else if sk_count s = 0 then (Inr 0, s)
      else let rank = \<lfloor>q * real_of_int (sk_count s - 1)\<rfloor>
           in if rank < sk_zeroCount s then (Inr 0, s)
              else let (ixs, s') = sketch_sortedIndexes s
                   in case quantile_scan (sk_buckets s') rank (sk_zeroCount s') ixs of
                        Some index \<Rightarrow> (Inr (sketch_value s' index), s')
                      | None \<Rightarrow> (Inr (sk_max s'), s'))"

definition sketch_Clone :: "Sketch \<Rightarrow> Sketch" where
  "sketch_Clone s =
     \<lparr>sk_relativeAccuracy = sk_relativeAccuracy s, sk_gamma = sk_gamma s, sk_logGamma = sk_logGamma s,
      sk_buckets = fold (\<lambda>(i, c) m. AList.update i c m) (sk_buckets s) [],
      sk_sorted = None, sk_sortedStale = False, sk_zeroCount = sk_zeroCount s, sk_count = sk_count s,
      sk_max = sk_max s, sk_min = sk_min s\<rparr>"

section \<open>The QuantileSketch interface\<close>

text \<open>
  \<^verbatim>\<open>QuantileSketch\<close> of \<^verbatim>\<open>aggregator.go\<close> as a record of operations, and the laws the
  aggregator relies on. \<open>repr M s\<close> relates a sketch to the multiset of the values added to it.
\<close>

record 's QuantileSketch =
  qs_Add :: "int \<Rightarrow> 's \<Rightarrow> 's"
  qs_Quantile :: "real \<Rightarrow> 's \<Rightarrow> (error + int) \<times> 's"
  qs_Count :: "'s \<Rightarrow> int"
  qs_Max :: "'s \<Rightarrow> int"

locale quantile_sketch =
  fixes ops :: "'s QuantileSketch"
    and factory :: "error + 's"
    and repr :: "int multiset \<Rightarrow> 's \<Rightarrow> bool"
  assumes factory_ok: "\<exists>s. factory = Inr s \<and> repr {#} s"
    and repr_Add: "repr M s \<Longrightarrow> int (size M) < MaxInt64 \<Longrightarrow> in_i64 x \<Longrightarrow> repr (add_mset x M) (qs_Add ops x s)"
    and repr_Quantile: "repr M s \<Longrightarrow> repr M (snd (qs_Quantile ops q s))"
    and Quantile_ok: "0 \<le> q \<Longrightarrow> q \<le> 1 \<Longrightarrow> \<exists>v. fst (qs_Quantile ops q s) = Inr v"
    and repr_Count: "repr M s \<Longrightarrow> qs_Count ops s = int (size M)"
    and repr_Max: "repr M s \<Longrightarrow> qs_Max ops s = (if M = {#} then 0 else Max_mset M)"
begin

lemma repr_fold_Add:
  "repr M s \<Longrightarrow> int (size M + length xs) \<le> MaxInt64 \<Longrightarrow> (\<forall>x \<in> set xs. in_i64 x) \<Longrightarrow>
   repr (M + mset xs) (fold (qs_Add ops) xs s)"
proof (induction xs arbitrary: M s)
  case (Cons x xs)
  then have "repr (add_mset x M) (qs_Add ops x s)" by (intro repr_Add) auto
  with Cons.IH[of "add_mset x M" "qs_Add ops x s"] Cons.prems show ?case by simp
qed simp

lemma Quantile_cases:
  assumes "0 \<le> q" and "q \<le> 1"
  obtains v s' where "qs_Quantile ops q s = (Inr v, s')"
  using Quantile_ok[OF assms, of s] by (metis prod.collapse)

end

definition sketch_ops :: "Sketch QuantileSketch" where
  "sketch_ops = \<lparr>qs_Add = sketch_Add, qs_Quantile = sketch_Quantile, qs_Count = sketch_Count, qs_Max = sketch_Max\<rparr>"


section \<open>What a sketch represents\<close>

definition gam :: "real \<Rightarrow> real" where "gam \<alpha> = (1 + \<alpha>) / (1 - \<alpha>)"

definition bucket_index :: "real \<Rightarrow> int \<Rightarrow> int" where
  "bucket_index \<alpha> x = \<lceil>ln (real_of_int x) / ln (gam \<alpha>)\<rceil>"

definition bcount :: "real \<Rightarrow> int multiset \<Rightarrow> int \<Rightarrow> nat" where
  "bcount \<alpha> M i = size (filter_mset (\<lambda>x. 0 < x \<and> bucket_index \<alpha> x = i) M)"

definition cache_ok :: "Sketch \<Rightarrow> bool" where
  "cache_ok s \<longleftrightarrow>
     (\<forall>ixs. sk_sorted s = Some ixs \<longrightarrow> \<not> sk_sortedStale s \<longrightarrow> ixs = sort (map fst (sk_buckets s)))"

definition params_ok :: "real \<Rightarrow> Sketch \<Rightarrow> bool" where
  "params_ok \<alpha> s \<longleftrightarrow> 0 < \<alpha> \<and> \<alpha> < 1 \<and> sk_relativeAccuracy s = \<alpha> \<and> sk_gamma s = gam \<alpha> \<and> sk_logGamma s = ln (gam \<alpha>)"

definition buckets_ok :: "real \<Rightarrow> int multiset \<Rightarrow> (int \<times> int) list \<Rightarrow> bool" where
  "buckets_ok \<alpha> M m \<longleftrightarrow> distinct (map fst m) \<and>
     (\<forall>i. map_of m i = (if bcount \<alpha> M i = 0 then None else Some (int (bcount \<alpha> M i))))"

definition extrema_ok :: "int multiset \<Rightarrow> Sketch \<Rightarrow> bool" where
  "extrema_ok M s \<longleftrightarrow>
     sk_max s = (if M = {#} then MinInt64 else Max_mset M) \<and>
     sk_min s = (if M = {#} then MaxInt64 else Min_mset M)"

definition sketch_repr :: "real \<Rightarrow> int multiset \<Rightarrow> Sketch \<Rightarrow> bool" where
  "sketch_repr \<alpha> M s \<longleftrightarrow>
     params_ok \<alpha> s \<and> buckets_ok \<alpha> M (sk_buckets s) \<and> cache_ok s \<and> extrema_ok M s \<and>
     sk_zeroCount s = int (size (filter_mset (\<lambda>x. x \<le> 0) M)) \<and> sk_count s = int (size M) \<and>
     int (size M) \<le> MaxInt64"

lemmas sketch_repr_defs = sketch_repr_def params_ok_def cache_ok_def extrema_ok_def

lemma gam_gt_1: "0 < \<alpha> \<Longrightarrow> \<alpha> < 1 \<Longrightarrow> 1 < gam \<alpha>"
  by (simp add: gam_def field_simps)

lemma sketch_index_repr: "params_ok \<alpha> s \<Longrightarrow> sketch_index s x = bucket_index \<alpha> x"
  by (simp add: params_ok_def sketch_index_def bucket_index_def)

lemma bcount_le_size: "bcount \<alpha> M i \<le> size M"
  by (simp add: bcount_def size_filter_mset_lesseq)

lemma bcount_add:
  "bcount \<alpha> (add_mset x M) i = (if 0 < x \<and> bucket_index \<alpha> x = i then Suc (bcount \<alpha> M i) else bcount \<alpha> M i)"
  by (simp add: bcount_def)

lemma bcount_plus: "bcount \<alpha> (M + N) i = bcount \<alpha> M i + bcount \<alpha> N i"
  by (simp add: bcount_def)

lemma bucket_get_repr: "buckets_ok \<alpha> M m \<Longrightarrow> bucket_get m i = int (bcount \<alpha> M i)"
  by (simp add: bucket_get_def buckets_ok_def)

lemma in_i64_count: "0 \<le> n \<Longrightarrow> n \<le> MaxInt64 \<Longrightarrow> in_i64 n"
  by (simp add: in_i64_def MinInt64_def)

lemma NewSketch_repr:
  assumes "0 < \<alpha>" and "\<alpha> < 1"
  shows "\<exists>s. NewSketch \<alpha> = Inr s \<and> sketch_repr \<alpha> {#} s"
  using assms by (simp add: NewSketch_def sketch_repr_defs buckets_ok_def bcount_def gam_def MaxInt64_def Let_def)

lemma Max_mset_add: "Max_mset (add_mset (x::int) M) = (if M = {#} then x else max x (Max_mset M))"
  by simp

lemma Min_mset_add: "Min_mset (add_mset (x::int) M) = (if M = {#} then x else min x (Min_mset M))"
  by simp

lemma extrema_add:
  assumes "extrema_ok M s" and "in_i64 x"
  shows "(if sk_max s < x then x else sk_max s) = Max_mset (add_mset x M)" (is ?mx)
    and "(if x < sk_min s then x else sk_min s) = Min_mset (add_mset x M)" (is ?mn)
proof -
  have r: "MinInt64 \<le> x" "x \<le> MaxInt64" using assms(2) by (simp_all add: in_i64_def)
  have mx: "sk_max s = (if M = {#} then MinInt64 else Max_mset M)"
    and mn: "sk_min s = (if M = {#} then MaxInt64 else Min_mset M)"
    using assms(1) by (simp_all only: extrema_ok_def)
  show ?mx unfolding Max_mset_add mx using r by (auto simp only: max_def split: if_splits)
  show ?mn unfolding Min_mset_add mn using r by (auto simp only: min_def split: if_splits)
qed

lemma sketch_Add_fields:
  "sk_count (sketch_Add x s) = wrap64 (sk_count s + 1)"
  "sk_max (sketch_Add x s) = (if sk_max s < x then x else sk_max s)"
  "sk_min (sketch_Add x s) = (if x < sk_min s then x else sk_min s)"
  "sk_zeroCount (sketch_Add x s) = (if x \<le> 0 then wrap64 (sk_zeroCount s + 1) else sk_zeroCount s)"
  "sk_buckets (sketch_Add x s) =
     (if x \<le> 0 then sk_buckets s
      else AList.update (sketch_index s x) (wrap64 (bucket_get (sk_buckets s) (sketch_index s x) + 1)) (sk_buckets s))"
  "sk_sortedStale (sketch_Add x s) =
     (sk_sortedStale s \<or> 0 < x \<and> map_of (sk_buckets s) (sketch_index s x) = None)"
  "sk_sorted (sketch_Add x s) = sk_sorted s"
  "params_ok \<alpha> (sketch_Add x s) = params_ok \<alpha> s"
  by (auto simp: sketch_Add_def Let_def sketch_index_def params_ok_def)

text \<open>Bumping an existing bucket keeps the cached index list; a new bucket marks it stale.\<close>

lemma keys_update_old: "map_of m k \<noteq> None \<Longrightarrow> map fst (AList.update k v m) = map fst m"
  by (induction m) (auto split: if_splits)

lemma buckets_ok_update:
  assumes "buckets_ok \<alpha> M m" and "\<And>j. bcount \<alpha> N j = (if j = i then n else bcount \<alpha> M j)" and "0 < n"
  shows "buckets_ok \<alpha> N (AList.update i (int n) m)"
  using assms by (auto simp: buckets_ok_def distinct_update)

lemma sketch_Add_repr:
  assumes "sketch_repr \<alpha> M s" and "int (size M) < MaxInt64" and "in_i64 x"
  shows "sketch_repr \<alpha> (add_mset x M) (sketch_Add x s)"
proof -
  have p: "params_ok \<alpha> s" and b: "buckets_ok \<alpha> M (sk_buckets s)" and c: "cache_ok s" and e: "extrema_ok M s"
    and z: "sk_zeroCount s = int (size (filter_mset (\<lambda>x. x \<le> 0) M))" and n: "sk_count s = int (size M)"
    using assms(1) by (auto simp: sketch_repr_def)
  have zb: "int (size (filter_mset (\<lambda>x. x \<le> 0) M)) < MaxInt64"
    using assms(2) size_filter_mset_lesseq[of "\<lambda>x. x \<le> 0" M] by linarith
  have bb: "int (bcount \<alpha> M i) < MaxInt64" for i
    using assms(2) bcount_le_size[of \<alpha> M i] by linarith
  let ?i = "bucket_index \<alpha> x"
  have "buckets_ok \<alpha> (add_mset x M) (sk_buckets (sketch_Add x s))"
  proof (cases "x \<le> 0")
    case True
    with b show ?thesis by (simp add: sketch_Add_fields buckets_ok_def bcount_add)
  next
    case False
    have "wrap64 (int (bcount \<alpha> M ?i) + 1) = int (Suc (bcount \<alpha> M ?i))"
      using bb[of ?i] by (subst wrap64_id) (simp_all add: in_i64_count)
    with False b show ?thesis
      by (simp add: sketch_Add_fields sketch_index_repr[OF p] bucket_get_repr[OF b])
        (rule buckets_ok_update[where M = M and n = "Suc (bcount \<alpha> M ?i)", simplified]; simp add: bcount_add)
  qed
  moreover have "cache_ok (sketch_Add x s)"
    using c by (auto simp: cache_ok_def sketch_Add_fields keys_update_old)
  moreover have "extrema_ok (add_mset x M) (sketch_Add x s)"
    using extrema_add[OF e assms(3)] by (simp add: extrema_ok_def sketch_Add_fields del: Max_less_iff Min_gr_iff)
  moreover have "sk_zeroCount (sketch_Add x s) = int (size (filter_mset (\<lambda>x. x \<le> 0) (add_mset x M)))"
    using zb z by (simp add: sketch_Add_fields wrap64_id[OF in_i64_count])
  moreover have "sk_count (sketch_Add x s) = int (size (add_mset x M))"
    using assms(2) n by (simp add: sketch_Add_fields wrap64_id[OF in_i64_count])
  ultimately show ?thesis
    using p assms(2) by (simp add: sketch_repr_def sketch_Add_fields)
qed

section \<open>Queries\<close>

lemma sortedIndexes_repr:
  assumes "cache_ok s" and "sketch_sortedIndexes s = (ixs, s')"
  shows "ixs = sort (map fst (sk_buckets s))" and "cache_ok s'"
    and "s' = s\<lparr>sk_sorted := sk_sorted s', sk_sortedStale := sk_sortedStale s'\<rparr>"
  using assms by (auto simp: sketch_sortedIndexes_def cache_ok_def Let_def split: option.splits if_splits)

lemma sketch_Quantile_state:
  obtains srt st where "snd (sketch_Quantile q s) = s\<lparr>sk_sorted := srt, sk_sortedStale := st\<rparr>"
    "cache_ok s \<Longrightarrow> cache_ok (s\<lparr>sk_sorted := srt, sk_sortedStale := st\<rparr>)"
proof (cases "snd (sketch_Quantile q s) = s")
  case True
  then show ?thesis by (intro that[where srt = "sk_sorted s" and st = "sk_sortedStale s"]) simp_all
next
  case False
  obtain ixs s' where si: "sketch_sortedIndexes s = (ixs, s')" by fastforce
  from False have "snd (sketch_Quantile q s) = s'"
    by (auto simp: sketch_Quantile_def Let_def si split: if_splits option.splits)
  moreover have "s' = s\<lparr>sk_sorted := sk_sorted s', sk_sortedStale := sk_sortedStale s'\<rparr>"
    using si by (auto simp: sketch_sortedIndexes_def Let_def split: option.splits if_splits)
  ultimately show ?thesis
    using sortedIndexes_repr(2)[OF _ si] by (intro that[where srt = "sk_sorted s'" and st = "sk_sortedStale s'"]) auto
qed

lemma sketch_Quantile_repr: "sketch_repr \<alpha> M s \<Longrightarrow> sketch_repr \<alpha> M (snd (sketch_Quantile q s))"
  by (rule sketch_Quantile_state[of q s]) (auto simp: sketch_repr_def params_ok_def extrema_ok_def)

lemma sketch_Quantile_ok: "0 \<le> q \<Longrightarrow> q \<le> 1 \<Longrightarrow> \<exists>v. fst (sketch_Quantile q s) = Inr v"
  by (auto simp: sketch_Quantile_def Let_def split: prod.splits option.splits)

lemma sketch_Max_repr: "sketch_repr \<alpha> M s \<Longrightarrow> sketch_Max s = (if M = {#} then 0 else Max_mset M)"
  by (simp add: sketch_Max_def sketch_repr_def extrema_ok_def)

lemma sketch_Count_repr: "sketch_repr \<alpha> M s \<Longrightarrow> sketch_Count s = int (size M)"
  by (simp add: sketch_Count_def sketch_repr_def)

lemma sketch_is_quantile_sketch:
  assumes "0 < \<alpha>" "\<alpha> < 1"
  shows "quantile_sketch sketch_ops (NewSketch \<alpha>) (sketch_repr \<alpha>)"
  by unfold_locales
    (auto simp: NewSketch_repr[OF assms] sketch_ops_def sketch_Add_repr sketch_Quantile_repr sketch_Quantile_ok
      sketch_Max_repr sketch_Count_repr)

text \<open>The default accuracy, which the runtime also configures.\<close>

interpretation ddsketch: quantile_sketch sketch_ops "NewSketch defaultRelativeError" "sketch_repr defaultRelativeError"
  by (rule sketch_is_quantile_sketch) (simp_all add: defaultRelativeError_def)

lemma sketch_fold_repr:
  assumes "NewSketch \<alpha> = Inr s0" and "int (length xs) \<le> MaxInt64" and "\<forall>x \<in> set xs. in_i64 x"
  shows "sketch_repr \<alpha> (mset xs) (fold sketch_Add xs s0)" and "0 < \<alpha>" and "\<alpha> < 1"
proof -
  show a: "0 < \<alpha>" "\<alpha> < 1" using assms(1) by (auto simp: NewSketch_def split: if_splits)
  have "sketch_repr \<alpha> {#} s0" using NewSketch_repr[OF a] assms(1) by simp
  from quantile_sketch.repr_fold_Add[OF sketch_is_quantile_sketch[OF a] this, of xs] assms(2,3)
  show "sketch_repr \<alpha> (mset xs) (fold sketch_Add xs s0)" by (simp add: sketch_ops_def)
qed

section \<open>A quantile is the bucket of the exact order statistic\<close>

lemma filter_sorted_nth:
  fixes L :: "int list"
  assumes "sorted L" and "\<And>x y. x \<le> y \<Longrightarrow> P y \<Longrightarrow> P x" and "r < length L"
  shows "r < length (filter P L) \<longleftrightarrow> P (L ! r)"
  using assms(1,3)
proof (induction L arbitrary: r)
  case (Cons a L)
  show ?case
  proof (cases "P a")
    case True
    with Cons show ?thesis by (cases r) auto
  next
    case False
    with Cons.prems assms(2) have "\<forall>x \<in> set (a # L). \<not> P x" by auto
    then have "filter P (a # L) = []" "\<not> P ((a # L) ! r)"
      using nth_mem[OF Cons.prems(2)] by (auto simp: filter_empty_conv simp del: nth_mem)
    then show ?thesis by simp
  qed
qed simp

lemma size_filter_sorted_list:
  "size (filter_mset P (M :: int multiset)) = length (filter P (sorted_list_of_multiset M))"
  by (metis mset_filter mset_sorted_list_of_multiset size_mset)

lemma bucket_index_mono:
  assumes "0 < \<alpha>" "\<alpha> < 1" "0 < x" "x \<le> y"
  shows "bucket_index \<alpha> x \<le> bucket_index \<alpha> y"
  unfolding bucket_index_def
  by (rule ceiling_mono, rule divide_right_mono) (use assms gam_gt_1[of \<alpha>] in auto)

lemma quantile_scan_find:
  assumes "sorted ks" "distinct ks"
    and nn: "\<And>k. k \<in> set ks \<Longrightarrow> 0 \<le> bucket_get m k"
    and "0 \<le> cum" and "cum + (\<Sum>k\<in>set ks. bucket_get m k) \<le> MaxInt64"
  shows "quantile_scan m rank cum ks =
     find (\<lambda>k. rank < cum + (\<Sum>j\<in>{j \<in> set ks. j \<le> k}. bucket_get m j)) ks"
  using assms
proof (induction ks arbitrary: cum)
  case (Cons k ks)
  have w: "wrap64 (cum + bucket_get m k) = cum + bucket_get m k"
    using Cons.prems sum_nonneg[of "set ks" "bucket_get m"]
    by (intro wrap64_id in_i64_count) (auto simp: sum.insert_if)
  have first: "{j \<in> set (k # ks). j \<le> k} = {k}" using Cons.prems by force
  have step: "cum + (\<Sum>j\<in>{j \<in> set (k # ks). j \<le> l}. bucket_get m j) =
      cum + bucket_get m k + (\<Sum>j\<in>{j \<in> set ks. j \<le> l}. bucket_get m j)" if "l \<in> set ks" for l
  proof -
    have "{j \<in> set (k # ks). j \<le> l} = insert k {j \<in> set ks. j \<le> l}" using Cons.prems that by auto
    then show ?thesis using Cons.prems by (simp add: sum.insert_if)
  qed
  have "quantile_scan m rank (cum + bucket_get m k) ks =
      find (\<lambda>l. rank < cum + bucket_get m k + (\<Sum>j\<in>{j \<in> set ks. j \<le> l}. bucket_get m j)) ks"
    using Cons.prems by (intro Cons.IH) (auto simp: sum.insert_if algebra_simps)
  also have "\<dots> = find (\<lambda>l. rank < cum + (\<Sum>j\<in>{j \<in> set (k # ks). j \<le> l}. bucket_get m j)) ks"
    by (rule find_cong) (simp_all only: step)
  finally show ?case using w first by (simp add: Let_def)
qed simp

lemma find_sorted_least:
  assumes "sorted ks" "i \<in> set ks" "\<And>k. k \<in> set ks \<Longrightarrow> P k \<longleftrightarrow> i \<le> k"
  shows "find P ks = Some (i::int)"
  using assms by (induction ks) force+

lemma buckets_dom: "buckets_ok \<alpha> M m \<Longrightarrow> k \<in> fst ` set m \<longleftrightarrow> 0 < bcount \<alpha> M k"
  by (simp add: buckets_ok_def flip: dom_map_of_conv_image_fst) (simp add: dom_def)

text \<open>The buckets up to \<open>k\<close> together hold the positive values whose index is at most \<open>k\<close>.\<close>

lemma sum_bcount:
  assumes "finite K" and "\<forall>x \<in># M. 0 < x \<longrightarrow> bucket_index \<alpha> x \<le> k \<longrightarrow> bucket_index \<alpha> x \<in> K"
    and "\<forall>j \<in> K. j \<le> k"
  shows "(\<Sum>j\<in>K. bcount \<alpha> M j) = size (filter_mset (\<lambda>x. 0 < x \<and> bucket_index \<alpha> x \<le> k) M)"
  using assms(2)
proof (induction M)
  case empty
  then show ?case by (simp add: bcount_def)
next
  case (add x M)
  show ?case
  proof (cases "0 < x \<and> bucket_index \<alpha> x \<le> k")
    case True
    with add.prems have xK: "bucket_index \<alpha> x \<in> K" by auto
    have "(\<Sum>j\<in>K. bcount \<alpha> (add_mset x M) j) = (\<Sum>j\<in>K. bcount \<alpha> M j) + (\<Sum>j\<in>K. if j = bucket_index \<alpha> x then 1 else 0)"
      using True by (simp add: sum.distrib[symmetric] bcount_add) (intro sum.cong; simp)
    with xK add True assms(1) show ?thesis by simp
  next
    case False
    with assms(3) have "(\<Sum>j\<in>K. bcount \<alpha> (add_mset x M) j) = (\<Sum>j\<in>K. bcount \<alpha> M j)"
      by (intro sum.cong) (auto simp: bcount_add)
    with False add show ?thesis by auto
  qed
qed

lemma buckets_prefix_sum:
  assumes "buckets_ok \<alpha> M m"
  shows "(\<Sum>j\<in>{j \<in> fst ` set m. j \<le> k}. bucket_get m j) =
    int (size (filter_mset (\<lambda>x. 0 < x \<and> bucket_index \<alpha> x \<le> k) M))"
proof -
  let ?K = "{j \<in> fst ` set m. j \<le> k}"
  have cover: "\<forall>x \<in># M. 0 < x \<longrightarrow> bucket_index \<alpha> x \<le> k \<longrightarrow> bucket_index \<alpha> x \<in> ?K"
    by (auto simp: buckets_dom[OF assms] bcount_def nonempty_has_size[symmetric])
  have "(\<Sum>j\<in>?K. bucket_get m j) = int (\<Sum>j\<in>?K. bcount \<alpha> M j)"
    unfolding of_nat_sum by (rule sum.cong[OF refl]) (rule bucket_get_repr[OF assms])
  also have "(\<Sum>j\<in>?K. bcount \<alpha> M j) = size (filter_mset (\<lambda>x. 0 < x \<and> bucket_index \<alpha> x \<le> k) M)"
    using cover by (intro sum_bcount) auto
  finally show ?thesis .
qed

lemma size_split_nonpos:
  "size (filter_mset (\<lambda>x::int. x \<le> 0) M) + size (filter_mset (\<lambda>x. 0 < x \<and> Q x) M) =
   size (filter_mset (\<lambda>x. x \<le> 0 \<or> Q x) M)"
  by (induction M) auto

definition order_stat :: "real \<Rightarrow> int multiset \<Rightarrow> int" where
  "order_stat q M = sorted_list_of_multiset M ! nat \<lfloor>q * real_of_int (int (size M) - 1)\<rfloor>"

lemma rank_bounds:
  assumes "0 \<le> q" "q \<le> 1" "0 < n"
  shows "0 \<le> \<lfloor>q * real_of_int (int n - 1)\<rfloor>" and "nat \<lfloor>q * real_of_int (int n - 1)\<rfloor> < n"
proof -
  have n: "real_of_int (int n - 1) \<ge> 0" using assms(3) by simp
  then show nn: "0 \<le> \<lfloor>q * real_of_int (int n - 1)\<rfloor>" using assms by simp
  have "q * real_of_int (int n - 1) \<le> real_of_int (int n - 1)"
    using mult_right_mono[OF assms(2) n] by simp
  then have "\<lfloor>q * real_of_int (int n - 1)\<rfloor> \<le> int n - 1" by linarith
  with nn assms(3) show "nat \<lfloor>q * real_of_int (int n - 1)\<rfloor> < n" by linarith
qed

lemma order_stat_le:
  assumes "0 \<le> q" "q \<le> 1" "M \<noteq> {#}" and down: "\<And>x y. x \<le> y \<Longrightarrow> P y \<Longrightarrow> P x"
  shows "\<lfloor>q * real_of_int (int (size M) - 1)\<rfloor> < int (size (filter_mset P M)) \<longleftrightarrow> P (order_stat q M)"
proof -
  let ?r = "nat \<lfloor>q * real_of_int (int (size M) - 1)\<rfloor>"
  have len: "length (sorted_list_of_multiset M) = size M"
    by (metis mset_sorted_list_of_multiset size_mset)
  have sz: "0 < size M" using assms(3) by (simp add: nonempty_has_size)
  have "?r < length (filter P (sorted_list_of_multiset M)) \<longleftrightarrow> P (sorted_list_of_multiset M ! ?r)"
    by (rule filter_sorted_nth) (use down rank_bounds(2)[OF assms(1,2) sz] len in auto)
  moreover have "\<lfloor>q * real_of_int (int (size M) - 1)\<rfloor> < int k \<longleftrightarrow> ?r < k" for k
    using rank_bounds(1)[OF assms(1,2) sz] by linarith
  ultimately show ?thesis unfolding size_filter_sorted_list order_stat_def by blast
qed

lemma sketch_Quantile_order_stat:
  assumes "sketch_repr \<alpha> M s" and "0 \<le> q" "q \<le> 1" and "M \<noteq> {#}"
  shows "fst (sketch_Quantile q s) =
    Inr (if order_stat q M \<le> 0 then 0 else sketch_value s (bucket_index \<alpha> (order_stat q M)))"
proof -
  have p: "params_ok \<alpha> s" and b: "buckets_ok \<alpha> M (sk_buckets s)" and c: "cache_ok s"
    and z: "sk_zeroCount s = int (size (filter_mset (\<lambda>x. x \<le> 0) M))" and n: "sk_count s = int (size M)"
    and sz: "int (size M) \<le> MaxInt64"
    using assms(1) by (auto simp: sketch_repr_def)
  let ?x = "order_stat q M" and ?ks = "sort (map fst (sk_buckets s))"
  let ?rank = "\<lfloor>q * real_of_int (int (size M) - 1)\<rfloor>"
  obtain ixs s' where si: "sketch_sortedIndexes s = (ixs, s')" by fastforce
  note si' = sortedIndexes_repr[OF c si]
  have zero: "?rank < sk_zeroCount s \<longleftrightarrow> ?x \<le> 0"
    unfolding z by (rule order_stat_le[OF assms(2-4)]) auto
  have "quantile_scan (sk_buckets s) ?rank (sk_zeroCount s) ?ks = Some (bucket_index \<alpha> ?x)" if "0 < ?x"
  proof -
    have pre: "sk_zeroCount s + (\<Sum>j\<in>{j \<in> set ?ks. j \<le> k}. bucket_get (sk_buckets s) j) =
        int (size (filter_mset (\<lambda>x. x \<le> 0 \<or> bucket_index \<alpha> x \<le> k) M))" for k
      unfolding z size_split_nonpos[symmetric] using buckets_prefix_sum[OF b, of k] by simp
    have P: "?rank < sk_zeroCount s + (\<Sum>j\<in>{j \<in> set ?ks. j \<le> k}. bucket_get (sk_buckets s) j)
        \<longleftrightarrow> bucket_index \<alpha> ?x \<le> k" for k
      unfolding pre using that p bucket_index_mono
      by (subst order_stat_le[OF assms(2-4)]) (auto simp: params_ok_def, meson bucket_index_mono order_trans not_le)
    have mem: "?x \<in># M"
      using rank_bounds(2)[OF assms(2,3)] assms(4) unfolding order_stat_def
      by (metis mset_sorted_list_of_multiset nonempty_has_size nth_mem set_mset_mset size_mset)
    have "bucket_index \<alpha> ?x \<in> set ?ks"
      using mem that by (auto simp: buckets_dom[OF b] bcount_def nonempty_has_size[symmetric])
    moreover have "quantile_scan (sk_buckets s) ?rank (sk_zeroCount s) ?ks =
        find (\<lambda>k. ?rank < sk_zeroCount s + (\<Sum>j\<in>{j \<in> set ?ks. j \<le> k}. bucket_get (sk_buckets s) j)) ?ks"
    proof (rule quantile_scan_find)
      let ?m = "Max (insert 0 (set ?ks))"
      have "{j \<in> set ?ks. j \<le> ?m} = set ?ks" by (auto intro: Max_ge)
      with pre[of ?m] have "sk_zeroCount s + (\<Sum>k\<in>set ?ks. bucket_get (sk_buckets s) k) \<le> int (size M)"
        by (simp add: size_filter_mset_lesseq del: set_sort)
      with sz show "sk_zeroCount s + (\<Sum>k\<in>set ?ks. bucket_get (sk_buckets s) k) \<le> MaxInt64" by linarith
    qed (use b in \<open>auto simp: bucket_get_repr[OF b] z buckets_ok_def\<close>)
    ultimately show ?thesis using find_sorted_least[of ?ks "bucket_index \<alpha> ?x"] P by simp
  qed
  moreover have "sk_buckets s' = sk_buckets s" "sk_zeroCount s' = sk_zeroCount s"
    "sketch_value s' i = sketch_value s i" for i
    by (subst si'(3); simp add: sketch_value_def)+
  ultimately show ?thesis
    using assms(2-4) zero si si'(1) by (auto simp: sketch_Quantile_def n Let_def)
qed

section \<open>Relative accuracy\<close>

lemma bucket_bounds:
  assumes "0 < \<alpha>" "\<alpha> < 1" "0 < x"
  shows "gam \<alpha> powr (real_of_int (bucket_index \<alpha> x) - 1) < real_of_int x"
    and "real_of_int x \<le> gam \<alpha> powr real_of_int (bucket_index \<alpha> x)"
proof -
  let ?g = "gam \<alpha>" and ?i = "real_of_int (bucket_index \<alpha> x)" and ?x = "real_of_int x"
  have g: "1 < ?g" "0 < ln ?g" using gam_gt_1[OF assms(1,2)] by auto
  have "ln ?x / ln ?g \<le> ?i" "?i - 1 < ln ?x / ln ?g"
    unfolding bucket_index_def by linarith+
  then have "ln ?x \<le> ?i * ln ?g" "(?i - 1) * ln ?g < ln ?x"
    using g(2) by (simp_all add: pos_divide_le_eq pos_less_divide_eq)
  then have "exp (ln ?x) \<le> exp (?i * ln ?g)" "exp ((?i - 1) * ln ?g) < exp (ln ?x)"
    by (simp_all del: exp_ln)
  with g(1) assms(3) show "?g powr (?i - 1) < ?x" "?x \<le> ?g powr ?i"
    by (simp_all add: powr_def)
qed

text \<open>
  The representative \<open>2\<gamma>\<^sup>i / (1 + \<gamma>)\<close> of bucket \<open>i\<close> lies within \<open>\<alpha>x\<close> of every value \<open>x\<close>
  of the bucket; rounding to an integer moves it by at most a half.
\<close>

lemma representative_accuracy:
  assumes "0 < \<alpha>" "\<alpha> < 1" "0 < x"
  shows "\<bar>2 * (gam \<alpha> powr real_of_int (bucket_index \<alpha> x)) / (1 + gam \<alpha>) - real_of_int x\<bar> \<le> \<alpha> * real_of_int x"
proof -
  let ?g = "gam \<alpha>" and ?P = "gam \<alpha> powr real_of_int (bucket_index \<alpha> x)" and ?x = "real_of_int x"
  have g: "1 < ?g" using gam_gt_1[OF assms(1,2)] .
  have P: "?P = ?g * ?g powr (real_of_int (bucket_index \<alpha> x) - 1)"
    using g by (simp add: powr_diff)
  have e: "2 * ?P / (1 + ?g) = (1 - \<alpha>) * ?P"
    using assms(1,2) by (simp add: gam_def field_simps)
  have "(1 - \<alpha>) * ?P \<le> (1 + \<alpha>) * ?x"
  proof -
    have "(1 - \<alpha>) * ?g = 1 + \<alpha>" using assms(2) by (simp add: gam_def)
    then have "(1 - \<alpha>) * ?P = (1 + \<alpha>) * ?g powr (real_of_int (bucket_index \<alpha> x) - 1)"
      unfolding P by (metis mult.assoc)
    then show ?thesis using bucket_bounds(1)[OF assms] assms(1) by (simp add: mult_left_mono)
  qed
  moreover have "(1 - \<alpha>) * ?x \<le> (1 - \<alpha>) * ?P"
    using bucket_bounds(2)[OF assms] assms(2) by (simp add: mult_left_mono)
  ultimately show ?thesis unfolding e by (simp add: abs_le_iff algebra_simps)
qed

lemma round_within_half: "\<bar>real_of_int (round (y::real)) - y\<bar> \<le> 1 / 2"
  using of_int_round_abs_le[of y] by simp

lemma sketch_value_accuracy:
  assumes "params_ok \<alpha> s" "0 < x" and "(1 + \<alpha>) * real_of_int x + 1 \<le> real_of_int MaxInt64"
  shows "\<bar>real_of_int (sketch_value s (bucket_index \<alpha> x)) - real_of_int x\<bar> \<le> \<alpha> * real_of_int x + 1 / 2"
proof -
  let ?y = "2 * (gam \<alpha> powr real_of_int (bucket_index \<alpha> x)) / (1 + gam \<alpha>)"
  have a: "0 < \<alpha>" "\<alpha> < 1" "sk_gamma s = gam \<alpha>" using assms(1) by (simp_all add: params_ok_def)
  note acc = representative_accuracy[OF a(1,2) assms(2)]
  then have "?y \<le> (1 + \<alpha>) * real_of_int x" by (simp add: abs_le_iff algebra_simps)
  with round_within_half[of ?y] assms(3) have "real_of_int (round ?y) < real_of_int MaxInt64"
    unfolding abs_le_iff by linarith
  then have "sketch_value s (bucket_index \<alpha> x) = round ?y"
    by (simp add: sketch_value_def a(3) Let_def)
  with acc round_within_half[of ?y] show ?thesis by linarith
qed

section \<open>Merging\<close>

lemma merge_bucket_fields:
  "sk_count (merge_bucket ic s) = sk_count s" "sk_zeroCount (merge_bucket ic s) = sk_zeroCount s"
  "sk_max (merge_bucket ic s) = sk_max s" "sk_min (merge_bucket ic s) = sk_min s"
  "params_ok \<alpha> (merge_bucket ic s) = params_ok \<alpha> s"
  "sk_buckets (merge_bucket ic s) =
     AList.update (fst ic) (wrap64 (bucket_get (sk_buckets s) (fst ic) + snd ic)) (sk_buckets s)"
  "cache_ok s \<Longrightarrow> cache_ok (merge_bucket ic s)"
  by (auto simp: merge_bucket_def Let_def params_ok_def cache_ok_def keys_update_old)

lemma fold_merge_fields:
  "sk_count (fold merge_bucket l s) = sk_count s" "sk_zeroCount (fold merge_bucket l s) = sk_zeroCount s"
  "sk_max (fold merge_bucket l s) = sk_max s" "sk_min (fold merge_bucket l s) = sk_min s"
  "params_ok \<alpha> (fold merge_bucket l s) = params_ok \<alpha> s"
  "cache_ok s \<Longrightarrow> cache_ok (fold merge_bucket l s)"
  by (induction l arbitrary: s) (simp_all add: merge_bucket_fields)

lemma fold_merge_buckets:
  assumes "distinct (map fst l)" and "distinct (map fst (sk_buckets s))"
  shows "distinct (map fst (sk_buckets (fold merge_bucket l s)))"
    and "map_of (sk_buckets (fold merge_bucket l s)) i =
      (case map_of l i of None \<Rightarrow> map_of (sk_buckets s) i
       | Some n \<Rightarrow> Some (wrap64 (bucket_get (sk_buckets s) i + n)))"
  using assms
proof (induction l arbitrary: s)
  case (Cons x l)
  { case 1 with Cons show ?case by (simp add: merge_bucket_fields distinct_update) }
  { case 2
    with Cons.IH(2)[of "merge_bucket x s"] show ?case
      by (cases x) (auto simp: merge_bucket_fields distinct_update bucket_get_def image_iff map_of_eq_None_iff split: option.splits) }
qed simp_all

lemma Max_mset_plus: "M \<noteq> {#} \<Longrightarrow> N \<noteq> {#} \<Longrightarrow> Max_mset (M + N :: int multiset) = max (Max_mset M) (Max_mset N)"
  by (simp add: Max_Un)

lemma Min_mset_plus: "M \<noteq> {#} \<Longrightarrow> N \<noteq> {#} \<Longrightarrow> Min_mset (M + N :: int multiset) = min (Min_mset M) (Min_mset N)"
  by (simp add: Min_Un)

lemma sketch_Merge_fields:
  assumes "sk_relativeAccuracy t = sk_relativeAccuracy s" and "sk_count t \<noteq> 0"
  defines "r \<equiv> sketch_Merge (Some t) s"
  shows "fst r = None" and "sk_buckets (snd r) = sk_buckets (fold merge_bucket (sk_buckets t) s)"
    and "sk_count (snd r) = wrap64 (sk_count s + sk_count t)"
    and "sk_zeroCount (snd r) = wrap64 (sk_zeroCount s + sk_zeroCount t)"
    and "sk_max (snd r) = max (sk_max s) (sk_max t)" and "sk_min (snd r) = min (sk_min s) (sk_min t)"
    and "params_ok \<alpha> (snd r) = params_ok \<alpha> s" and "cache_ok s \<Longrightarrow> cache_ok (snd r)"
  using assms(1,2) fold_merge_fields(5)[of \<alpha> "sk_buckets t" s] fold_merge_fields(6)[of s "sk_buckets t"]
  by (auto simp: r_def sketch_Merge_def Let_def fold_merge_fields(1-4) params_ok_def cache_ok_def)

lemma extrema_merge:
  assumes "extrema_ok M s" "extrema_ok N t" "N \<noteq> {#}" and "\<forall>x \<in># N. in_i64 x"
  shows "max (sk_max s) (sk_max t) = Max_mset (M + N)" and "min (sk_min s) (sk_min t) = Min_mset (M + N)"
proof -
  have "Max_mset N \<in># N" "Min_mset N \<in># N" using assms(3) by simp_all
  with assms(4) have "MinInt64 \<le> Max_mset N" "Min_mset N \<le> MaxInt64" unfolding in_i64_def by blast+
  then have lo: "max MinInt64 (Max_mset N) = Max_mset N" and hi: "min MaxInt64 (Min_mset N) = Min_mset N"
    by (simp_all only: max_absorb2 min_absorb2)
  have "sk_max s = (if M = {#} then MinInt64 else Max_mset M)" "sk_max t = Max_mset N"
    "sk_min s = (if M = {#} then MaxInt64 else Min_mset M)" "sk_min t = Min_mset N"
    using assms(1-3) by (simp_all only: extrema_ok_def if_False)
  then show "max (sk_max s) (sk_max t) = Max_mset (M + N)" "min (sk_min s) (sk_min t) = Min_mset (M + N)"
    using lo hi Max_mset_plus[OF _ assms(3), of M] Min_mset_plus[OF _ assms(3), of M]
    by (cases "M = {#}"; simp only: if_True if_False add_0 simp_thms)+
qed

lemma buckets_merge:
  assumes "buckets_ok \<alpha> M (sk_buckets s)" "buckets_ok \<alpha> N (sk_buckets t)" and sz: "int (size M + size N) \<le> MaxInt64"
  shows "buckets_ok \<alpha> (M + N) (sk_buckets (fold merge_bucket (sk_buckets t) s))"
proof -
  have "wrap64 (int (bcount \<alpha> M i) + int (bcount \<alpha> N i)) = int (bcount \<alpha> M i + bcount \<alpha> N i)" for i
    using sz bcount_le_size[of \<alpha> M i] bcount_le_size[of \<alpha> N i]
    by (subst wrap64_id) (auto intro!: in_i64_count)
  then show ?thesis
    using assms fold_merge_buckets[of "sk_buckets t" s] bucket_get_repr[OF assms(1)]
    by (auto simp: buckets_ok_def bcount_plus split: option.splits)
qed

lemma wrap64_sizes:
  assumes "int (size M + size N) \<le> MaxInt64"
  shows "wrap64 (int (size M) + int (size N)) = int (size (M + N))"
    and "wrap64 (int (size (filter_mset P M)) + int (size (filter_mset P N))) = int (size (filter_mset P (M + N)))"
proof -
  show "wrap64 (int (size M) + int (size N)) = int (size (M + N))"
    using assms by (simp add: wrap64_id[OF in_i64_count])
  have "int (size (filter_mset P M)) + int (size (filter_mset P N)) \<le> MaxInt64"
    using assms size_filter_mset_lesseq[of P M] size_filter_mset_lesseq[of P N] by linarith
  then show "wrap64 (int (size (filter_mset P M)) + int (size (filter_mset P N))) = int (size (filter_mset P (M + N)))"
    by (simp add: wrap64_id[OF in_i64_count])
qed

lemma sketch_Merge_repr:
  assumes s: "sketch_repr \<alpha> M s" and t: "sketch_repr \<alpha> N t" and sz: "int (size M + size N) \<le> MaxInt64"
    and range: "\<forall>x \<in># N. in_i64 x"
  shows "fst (sketch_Merge (Some t) s) = None \<and> sketch_repr \<alpha> (M + N) (snd (sketch_Merge (Some t) s))"
proof (cases "N = {#}")
  case True
  with s t show ?thesis by (simp add: sketch_Merge_def sketch_repr_def params_ok_def)
next
  case False
  have "sk_relativeAccuracy t = sk_relativeAccuracy s" "sk_count t \<noteq> 0"
    using s t False by (simp_all add: sketch_repr_def params_ok_def)
  note f = sketch_Merge_fields[OF this]
  have "extrema_ok (M + N) (snd (sketch_Merge (Some t) s))"
    using extrema_merge[OF _ _ False range, of M s t] s t False f(5,6) by (simp add: sketch_repr_def extrema_ok_def)
  with s t f buckets_merge[OF _ _ sz, of \<alpha> s t] wrap64_sizes[OF sz] sz show ?thesis
    by (simp add: sketch_repr_def)
qed

section \<open>Properties\<close>

lemma order_stat_mset: "order_stat q (mset xs) = sort xs ! nat \<lfloor>q * real_of_int (int (length xs) - 1)\<rfloor>"
  by (simp add: order_stat_def)



text \<open>
  Property C16 (merging is exact). Merging a sketch of \<open>ys\<close> into a sketch of \<open>xs\<close> succeeds and answers every
  query as the sketch that was given all the values would: the count, the maximum, the minimum and every
  quantile. Merging therefore loses no accuracy.
\<close>

theorem sketch_merge_equivalent:
  assumes "NewSketch \<alpha> = Inr s0" and "int (length xs + length ys) \<le> MaxInt64"
    and "\<forall>x \<in> set (xs @ ys). in_i64 x" and "0 \<le> q" and "q \<le> 1"
  defines "merged \<equiv> sketch_Merge (Some (fold sketch_Add ys s0)) (fold sketch_Add xs s0)"
    and "whole \<equiv> fold sketch_Add (xs @ ys) s0"
  shows "fst merged = None \<and> sketch_Count (snd merged) = sketch_Count whole \<and>
    sketch_Max (snd merged) = sketch_Max whole \<and> sketch_Min (snd merged) = sketch_Min whole \<and>
    fst (sketch_Quantile q (snd merged)) = fst (sketch_Quantile q whole)"
proof -
  have rx: "sketch_repr \<alpha> (mset xs) (fold sketch_Add xs s0)" and ry: "sketch_repr \<alpha> (mset ys) (fold sketch_Add ys s0)"
    and rw: "sketch_repr \<alpha> (mset xs + mset ys) whole"
    using sketch_fold_repr(1)[OF assms(1), of xs] sketch_fold_repr(1)[OF assms(1), of ys]
      sketch_fold_repr(1)[OF assms(1), of "xs @ ys"] assms(2,3) by (auto simp: whole_def)
  have m: "fst merged = None" and rm: "sketch_repr \<alpha> (mset xs + mset ys) (snd merged)"
    using sketch_Merge_repr[OF rx ry] assms(2,3) by (auto simp: merged_def)
  have "sketch_value (snd merged) i = sketch_value whole i" for i
    using rm rw by (simp add: sketch_value_def sketch_repr_def params_ok_def)
  then have "fst (sketch_Quantile q (snd merged)) = fst (sketch_Quantile q whole)"
    using sketch_Quantile_order_stat[OF rm assms(4,5)] sketch_Quantile_order_stat[OF rw assms(4,5)] rm rw assms(4,5)
    by (cases "mset xs + mset ys = {#}") (auto simp: sketch_Quantile_def sketch_repr_def)
  with m rm rw show ?thesis
    by (auto simp: sketch_Count_def sketch_Max_def sketch_Min_def sketch_repr_def extrema_ok_def)
qed

theorem sketch_merge_equivalent_witness:
  "\<exists>s0. NewSketch (1 / 2) = Inr s0 \<and>
    fst (sketch_Merge (Some (fold sketch_Add [9] s0)) (fold sketch_Add [4, 0] s0)) = None \<and>
    sketch_Max (snd (sketch_Merge (Some (fold sketch_Add [9] s0)) (fold sketch_Add [4, 0] s0))) =
      sketch_Max (fold sketch_Add [4, 0, 9] s0)"
proof -
  obtain s0 where s0: "NewSketch (1 / 2) = Inr s0" using NewSketch_repr[of "1 / 2"] by auto
  from sketch_merge_equivalent[OF s0, of "[4, 0]" "[9]" "1 / 2"] s0 show ?thesis
    by (simp add: in_i64_def MinInt64_def MaxInt64_def)
qed

end
