(* ===== verification/Aggregator.thy ===== *)
theory Aggregator
  imports Sketch
begin

text \<open>
  The tumbling-window aggregator of \<^verbatim>\<open>internal/aggregate/aggregator.go\<close>. Every method
  runs under the aggregator's mutex, so a call is one step on the state. The sketch
  type and its operations are parameters, as the \<^verbatim>\<open>QuantileSketch\<close> interface is in the
  code. The maps \<open>open\<close> and \<open>pending\<close> are association lists, whose order stands for the
  runtime's iteration order. The lemmas show that no counter is lost between ingest, collection and
  commit, that pending emissions carry distinct identities, that the ceiling on held windows holds and
  that the collected order does not depend on the map iteration order.
\<close>

section \<open>Configuration and state\<close>

definition ErrInvalidWindowSize :: error where
  [go_error_defs]: "ErrInvalidWindowSize = Err ''aggregate: window size must be positive''"
definition ErrInvalidKeyCeiling :: error where
  [go_error_defs]: "ErrInvalidKeyCeiling = Err ''aggregate: the open-window ceiling must not be negative''"
definition ErrTooManyKeys :: error where
  [go_error_defs]: "ErrTooManyKeys = Err ''aggregate: correlation key ceiling reached, event shed''"

record 's AggConfig =
  cfg_WindowSize :: duration
  cfg_RelativeAccuracy :: real
  cfg_NewSketch :: "(error + 's) option"
  cfg_SequenceSeed :: int
  cfg_MaxOpenWindows :: int

definition AggConfig_validate :: "'s AggConfig \<Rightarrow> error option" where
  "AggConfig_validate c =
     (if cfg_WindowSize c \<le> 0 then Some ErrInvalidWindowSize
      else if cfg_RelativeAccuracy c < 0 \<or> 1 \<le> cfg_RelativeAccuracy c then Some ErrInvalidAccuracy
      else if cfg_MaxOpenWindows c < 0 then Some ErrInvalidKeyCeiling
      else None)"

datatype windowKey = WindowKey (wk_correlation: CorrelationKey) (wk_windowID: int)

record 's windowState =
  ws_count :: int
  ws_errorCount :: int
  ws_bytes :: int
  ws_sketch :: 's

record 's Aggregator =
  ag_config :: "'s AggConfig"
  ag_open :: "(windowKey \<times> 's windowState) list"
  ag_pending :: "(string \<times> AggregateWindow) list"
  ag_sequence :: int
  ag_shed :: int

definition NewAggregator :: "time \<Rightarrow> Sketch AggConfig \<Rightarrow> error + Sketch Aggregator" where
  "NewAggregator now config =
     (let c1 = (if cfg_RelativeAccuracy config = 0
                then config\<lparr>cfg_RelativeAccuracy := defaultRelativeError\<rparr> else config)
      in case AggConfig_validate c1 of
           Some err \<Rightarrow> Inl err
         | None \<Rightarrow>
             let c2 = (if cfg_NewSketch c1 = None
                       then c1\<lparr>cfg_NewSketch := Some (NewSketch (cfg_RelativeAccuracy c1))\<rparr> else c1);
                 sequence = (if cfg_SequenceSeed c2 = 0 then UnixNano now else cfg_SequenceSeed c2)
             in Inr \<lparr>ag_config = c2, ag_open = [], ag_pending = [], ag_sequence = sequence, ag_shed = 0\<rparr>)"

text \<open>Calling a nil factory would panic; \<open>NewAggregator\<close> always installs one.\<close>

definition sketch_factory :: "'s AggConfig \<Rightarrow> error + 's" where
  "sketch_factory c = (case cfg_NewSketch c of Some f \<Rightarrow> f | None \<Rightarrow> Inl (Err ''nil sketch factory''))"

section \<open>The order of keys\<close>

definition before :: "windowKey \<Rightarrow> windowKey \<Rightarrow> bool" where
  "before k other =
     (let c = wk_correlation k; d = wk_correlation other
      in if wk_windowID k \<noteq> wk_windowID other then wk_windowID k < wk_windowID other
         else if ck_UserID c \<noteq> ck_UserID d then ck_UserID c < ck_UserID d
         else if ck_DeviceID c \<noteq> ck_DeviceID d then ck_DeviceID c < ck_DeviceID d
         else if ck_ProcessID c \<noteq> ck_ProcessID d then ck_ProcessID c < ck_ProcessID d
         else ck_PodID c < ck_PodID d)"

lemma before_irrefl: "\<not> before k k"
  by (simp add: before_def)

lemma before_trans: "before i j \<Longrightarrow> before j k \<Longrightarrow> before i k"
  unfolding before_def Let_def by (auto split: if_splits)

lemma before_total: "j = k \<or> before j k \<or> before k j"
  by (cases j; cases k; cases "wk_correlation j"; cases "wk_correlation k") (auto simp: before_def Let_def)

instantiation windowKey :: linorder
begin

definition less_windowKey :: "windowKey \<Rightarrow> windowKey \<Rightarrow> bool" where
  "less_windowKey j k = before j k"

definition less_eq_windowKey :: "windowKey \<Rightarrow> windowKey \<Rightarrow> bool" where
  "less_eq_windowKey j k = (j = k \<or> before j k)"

instance
proof
  fix x y z :: windowKey
  show "x < y \<longleftrightarrow> x \<le> y \<and> \<not> y \<le> x" "x \<le> x"
    by (auto simp: less_windowKey_def less_eq_windowKey_def before_irrefl dest: before_trans)
  show "x \<le> y \<Longrightarrow> y \<le> z \<Longrightarrow> x \<le> z" "x \<le> y \<Longrightarrow> y \<le> x \<Longrightarrow> x = y"
    by (auto simp: less_eq_windowKey_def before_irrefl dest: before_trans)
  show "x \<le> y \<or> y \<le> x"
    using before_total[of x y] by (auto simp: less_eq_windowKey_def)
qed

end

section \<open>Operations\<close>

definition WindowID :: "'s Aggregator \<Rightarrow> time \<Rightarrow> int" where
  "WindowID a t = UnixNano t sdiv cfg_WindowSize (ag_config a)"

definition heldWindows :: "'s Aggregator \<Rightarrow> int" where
  "heldWindows a = int (length (ag_open a)) + int (length (ag_pending a))"

definition Shed :: "'s Aggregator \<Rightarrow> int" where "Shed a = ag_shed a"

definition OpenWindows :: "'s Aggregator \<Rightarrow> int" where "OpenWindows a = heldWindows a"

definition event_key :: "'s Aggregator \<Rightarrow> Event \<Rightarrow> windowKey" where
  "event_key a e = WindowKey (Event_CorrelationKey e) (WindowID a (ev_ObservedAt e))"

definition absorb :: "'s QuantileSketch \<Rightarrow> Event \<Rightarrow> 's windowState \<Rightarrow> 's windowState" where
  "absorb qs e st =
     st\<lparr>ws_count := wrap64 (ws_count st + 1),
        ws_bytes := wrap64 (ws_bytes st + ev_Bytes e),
        ws_errorCount := (if ev_Failed e then wrap64 (ws_errorCount st + 1) else ws_errorCount st),
        ws_sketch := qs_Add qs (ev_LatencyNanos e) (ws_sketch st)\<rparr>"

definition ingestLocked :: "'s QuantileSketch \<Rightarrow> Event \<Rightarrow> 's Aggregator \<Rightarrow> error option \<times> 's Aggregator" where
  "ingestLocked qs e a =
     (let key = event_key a e
      in case map_of (ag_open a) key of
           Some st \<Rightarrow> (None, a\<lparr>ag_open := AList.update key (absorb qs e st) (ag_open a)\<rparr>)
         | None \<Rightarrow>
             if 0 < cfg_MaxOpenWindows (ag_config a) \<and> cfg_MaxOpenWindows (ag_config a) \<le> heldWindows a
             then (Some ErrTooManyKeys, a\<lparr>ag_shed := wrap64 (ag_shed a + 1)\<rparr>)
             else case sketch_factory (ag_config a) of
                    Inl err \<Rightarrow> (Some err, a)
                  | Inr sketch \<Rightarrow>
                      let st = \<lparr>ws_count = 0, ws_errorCount = 0, ws_bytes = 0, ws_sketch = sketch\<rparr>
                      in (None, a\<lparr>ag_open := AList.update key (absorb qs e st) (ag_open a)\<rparr>))"

definition Ingest :: "'s QuantileSketch \<Rightarrow> Event \<Rightarrow> 's Aggregator \<Rightarrow> error option \<times> 's Aggregator" where
  "Ingest qs e a =
     (case Event_Validate e of Some err \<Rightarrow> (Some err, a) | None \<Rightarrow> ingestLocked qs e a)"

fun validate_all :: "Event list \<Rightarrow> error option" where
  "validate_all [] = None"
| "validate_all (e # es) = (case Event_Validate e of Some err \<Rightarrow> Some err | None \<Rightarrow> validate_all es)"

fun ingest_all :: "'s QuantileSketch \<Rightarrow> Event list \<Rightarrow> 's Aggregator \<Rightarrow> error option \<times> 's Aggregator" where
  "ingest_all qs [] a = (None, a)"
| "ingest_all qs (e # es) a =
     (case ingestLocked qs e a of
        (None, a') \<Rightarrow> ingest_all qs es a'
      | (Some err, a') \<Rightarrow> if errors_Is err ErrTooManyKeys then ingest_all qs es a' else (Some err, a'))"

definition IngestBatch :: "'s QuantileSketch \<Rightarrow> Batch \<Rightarrow> 's Aggregator \<Rightarrow> error option \<times> 's Aggregator" where
  "IngestBatch qs b a =
     (case validate_all (b_Events b) of Some err \<Rightarrow> (Some err, a) | None \<Rightarrow> ingest_all qs (b_Events b) a)"

definition make_window :: "'s QuantileSketch \<Rightarrow> 's AggConfig \<Rightarrow> windowKey \<Rightarrow> 's windowState \<Rightarrow> 's \<Rightarrow> int \<Rightarrow> int \<Rightarrow> int \<Rightarrow> AggregateWindow" where
  "make_window qs c key st sketch sequence p95 p99 =
     (let start = Unix (wrap64 (wk_windowID key * cfg_WindowSize c))
      in \<lparr>w_Key = wk_correlation key, w_WindowID = wk_windowID key, w_Sequence = sequence,
          w_WindowStart = start, w_WindowEnd = start + cfg_WindowSize c,
          w_Count = ws_count st, w_ErrorCount = ws_errorCount st, w_Bytes = ws_bytes st,
          w_P95Nanos = p95, w_P99Nanos = p99, w_MaxNanos = qs_Max qs sketch\<rparr>)"

text \<open>
  The emission loop over the selected keys. A failing quantile returns at once, leaving the
  windows already moved to \<open>pending\<close> there; the sketch of the failing key keeps whatever the query did to
  it.
\<close>

fun collect_loop :: "'s QuantileSketch \<Rightarrow> windowKey list \<Rightarrow> AggregateWindow list \<Rightarrow> 's Aggregator
    \<Rightarrow> (error + AggregateWindow list) \<times> 's Aggregator" where
  "collect_loop qs [] windows a = (Inr windows, a)"
| "collect_loop qs (key # keys) windows a =
     (case map_of (ag_open a) key of
        None \<Rightarrow> collect_loop qs keys windows a
      | Some st \<Rightarrow>
          (case qs_Quantile qs 0.95 (ws_sketch st) of
             (Inl err, sk1) \<Rightarrow> (Inl err, a\<lparr>ag_open := AList.update key (st\<lparr>ws_sketch := sk1\<rparr>) (ag_open a)\<rparr>)
           | (Inr p95, sk1) \<Rightarrow>
               (case qs_Quantile qs 0.99 sk1 of
                  (Inl err, sk2) \<Rightarrow> (Inl err, a\<lparr>ag_open := AList.update key (st\<lparr>ws_sketch := sk2\<rparr>) (ag_open a)\<rparr>)
                | (Inr p99, sk2) \<Rightarrow>
                    let sequence = wrap64 (ag_sequence a + 1);
                        window = make_window qs (ag_config a) key st sk2 sequence p95 p99
                    in collect_loop qs keys (windows @ [window])
                         (a\<lparr>ag_sequence := sequence,
                            ag_open := AList.delete key (ag_open a),
                            ag_pending := AList.update (Identity window) window (ag_pending a)\<rparr>))))"

definition collect :: "'s QuantileSketch \<Rightarrow> (windowKey \<Rightarrow> bool) \<Rightarrow> 's Aggregator
    \<Rightarrow> (error + AggregateWindow list) \<times> 's Aggregator" where
  "collect qs incl a =
     (let selected = sort (filter incl (map fst (ag_open a)));
          pending = sort_key Identity (map snd (ag_pending a))
      in collect_loop qs selected pending a)"

definition CollectWindowsBefore :: "'s QuantileSketch \<Rightarrow> time \<Rightarrow> 's Aggregator
    \<Rightarrow> (error + AggregateWindow list) \<times> 's Aggregator" where
  "CollectWindowsBefore qs watermark a =
     (let boundary = WindowID a watermark in collect qs (\<lambda>key. wk_windowID key < boundary) a)"

definition CollectAll :: "'s QuantileSketch \<Rightarrow> 's Aggregator
    \<Rightarrow> (error + AggregateWindow list) \<times> 's Aggregator" where
  "CollectAll qs a = collect qs (\<lambda>_. True) a"

definition Commit :: "AggregateWindow list \<Rightarrow> 's Aggregator \<Rightarrow> 's Aggregator" where
  "Commit windows a = a\<lparr>ag_pending := fold (\<lambda>w m. AList.delete (Identity w) m) windows (ag_pending a)\<rparr>"

definition CloseWindowsBefore :: "'s QuantileSketch \<Rightarrow> time \<Rightarrow> 's Aggregator
    \<Rightarrow> (error + AggregateWindow list) \<times> 's Aggregator" where
  "CloseWindowsBefore qs watermark a =
     (case CollectWindowsBefore qs watermark a of
        (Inl err, a') \<Rightarrow> (Inl err, a')
      | (Inr windows, a') \<Rightarrow> (Inr windows, Commit windows a'))"

definition Flush :: "'s QuantileSketch \<Rightarrow> 's Aggregator \<Rightarrow> (error + AggregateWindow list) \<times> 's Aggregator" where
  "Flush qs a =
     (case CollectAll qs a of
        (Inl err, a') \<Rightarrow> (Inl err, a')
      | (Inr windows, a') \<Rightarrow> (Inr windows, Commit windows a'))"


section \<open>The invariant\<close>

text \<open>
  Keys are distinct, every pending emission is filed under its identity, and its sequence
  lies at or below the aggregator's, each one used once. \<open>sequence_room\<close> says that the
  64-bit sequence does not wrap while the open windows are emitted.
\<close>

definition agg_inv :: "'s Aggregator \<Rightarrow> bool" where
  "agg_inv a \<longleftrightarrow>
     distinct (map fst (ag_open a)) \<and> distinct (map fst (ag_pending a)) \<and>
     (\<forall>(i, w) \<in> set (ag_pending a). i = Identity w \<and> w_Sequence w \<le> ag_sequence a) \<and>
     distinct (map (\<lambda>(i, w). w_Sequence w) (ag_pending a)) \<and> in_i64 (ag_sequence a)"

definition sequence_room :: "'s Aggregator \<Rightarrow> bool" where
  "sequence_room a \<longleftrightarrow> ag_sequence a + int (length (ag_open a)) \<le> MaxInt64"

lemma agg_inv_open: "agg_inv a \<Longrightarrow> distinct (map fst m) \<Longrightarrow> agg_inv (a\<lparr>ag_open := m\<rparr>)"
  by (simp add: agg_inv_def)

lemma agg_inv_shed: "agg_inv a \<Longrightarrow> agg_inv (a\<lparr>ag_shed := n\<rparr>)"
  by (simp add: agg_inv_def)

lemma NewAggregator_inv:
  assumes "NewAggregator now c = Inr a" and "in_i64 (cfg_SequenceSeed c)"
  shows "agg_inv a"
proof -
  have "in_i64 (ag_sequence a)"
    using assms by (auto simp: NewAggregator_def Let_def UnixNano_def split: option.splits if_splits)
  moreover have "ag_open a = []" "ag_pending a = []"
    using assms(1) by (auto simp: NewAggregator_def Let_def split: option.splits if_splits)
  ultimately show ?thesis by (simp add: agg_inv_def)
qed

text \<open>Ingesting either leaves the maps alone or writes one state of one key.\<close>

lemma ingestLocked_cases:
  obtains (shed) "ingestLocked qs e a = (Some ErrTooManyKeys, a\<lparr>ag_shed := wrap64 (ag_shed a + 1)\<rparr>)"
      "map_of (ag_open a) (event_key a e) = None"
  | (failed) err where "ingestLocked qs e a = (Some err, a)" "sketch_factory (ag_config a) = Inl err"
  | (fresh) sk where "ingestLocked qs e a = (None, a\<lparr>ag_open := ag_open a @ [(event_key a e,
        absorb qs e \<lparr>ws_count = 0, ws_errorCount = 0, ws_bytes = 0, ws_sketch = sk\<rparr>)]\<rparr>)"
      "map_of (ag_open a) (event_key a e) = None" "sketch_factory (ag_config a) = Inr sk"
      "cfg_MaxOpenWindows (ag_config a) \<le> 0 \<or> heldWindows a < cfg_MaxOpenWindows (ag_config a)"
  | (known) st where "ingestLocked qs e a = (None, a\<lparr>ag_open := AList.update (event_key a e) (absorb qs e st) (ag_open a)\<rparr>)"
      "map_of (ag_open a) (event_key a e) = Some st"
proof (cases "map_of (ag_open a) (event_key a e)")
  case (Some st)
  then show ?thesis using that(4) by (simp add: ingestLocked_def Let_def)
next
  case None
  let ?full = "0 < cfg_MaxOpenWindows (ag_config a) \<and> cfg_MaxOpenWindows (ag_config a) \<le> heldWindows a"
  consider "?full" | err where "\<not> ?full" "sketch_factory (ag_config a) = Inl err"
    | sk where "\<not> ?full" "sketch_factory (ag_config a) = Inr sk"
    by (cases "sketch_factory (ag_config a)") auto
  then show ?thesis
  proof cases
    case 1
    with None show ?thesis by (intro that(1)) (simp_all add: ingestLocked_def)
  next
    case (2 err)
    with None show ?thesis by (intro that(2)) (auto simp: ingestLocked_def)
  next
    case (3 sk)
    with None show ?thesis by (intro that(3)) (auto simp: ingestLocked_def Let_def update_new)
  qed
qed

lemma distinct_snoc_key: "distinct (map fst m) \<Longrightarrow> map_of m k = None \<Longrightarrow> distinct (map fst (m @ [(k, v)]))"
  by (auto simp: map_of_eq_None_iff)

lemma ingestLocked_inv: "agg_inv a \<Longrightarrow> ingestLocked qs e a = (r, a') \<Longrightarrow> agg_inv a'"
  by (rule ingestLocked_cases[of qs e a])
    (auto simp: distinct_update map_of_eq_None_iff agg_inv_def)

lemma ingestLocked_frame:
  "ingestLocked qs e a = (r, a') \<Longrightarrow>
   ag_config a' = ag_config a \<and> ag_pending a' = ag_pending a \<and> ag_sequence a' = ag_sequence a"
  by (rule ingestLocked_cases[of qs e a]) auto

lemma ingest_all_inv: "agg_inv a \<Longrightarrow> ingest_all qs es a = (r, a') \<Longrightarrow> agg_inv a'"
proof (induction es arbitrary: a)
  case (Cons e es)
  obtain r1 a1 where s: "ingestLocked qs e a = (r1, a1)" by fastforce
  with Cons.prems(1) have "agg_inv a1" by (rule ingestLocked_inv)
  with Cons s show ?case by (auto split: option.splits if_splits)
qed simp

lemma ingest_all_frame:
  "ingest_all qs es a = (r, a') \<Longrightarrow>
   ag_config a' = ag_config a \<and> ag_pending a' = ag_pending a \<and> ag_sequence a' = ag_sequence a"
proof (induction es arbitrary: a)
  case (Cons e es)
  obtain r1 a1 where s: "ingestLocked qs e a = (r1, a1)" by fastforce
  from Cons.IH[of a1] Cons.prems s ingestLocked_frame[OF s] show ?case
    by (auto split: option.splits if_splits)
qed simp

lemma IngestBatch_inv: "agg_inv a \<Longrightarrow> IngestBatch qs b a = (r, a') \<Longrightarrow> agg_inv a'"
  by (auto simp: IngestBatch_def dest: ingest_all_inv split: option.splits)

section \<open>Collection\<close>

text \<open>
  \<open>emitted qs a keys\<close> is what the loop emits for \<open>keys\<close> when no quantile fails, and \<open>drained a keys ws\<close>
  the state it leaves.
\<close>

definition p_of :: "'s QuantileSketch \<Rightarrow> real \<Rightarrow> 's \<Rightarrow> int" where
  "p_of qs q sk = (case fst (qs_Quantile qs q sk) of Inr v \<Rightarrow> v | Inl _ \<Rightarrow> 0)"

definition window_for :: "'s QuantileSketch \<Rightarrow> 's Aggregator \<Rightarrow> windowKey \<Rightarrow> 's windowState \<Rightarrow> int \<Rightarrow> AggregateWindow" where
  "window_for qs a key st sequence =
     (let sk1 = snd (qs_Quantile qs 0.95 (ws_sketch st)); sk2 = snd (qs_Quantile qs 0.99 sk1)
      in make_window qs (ag_config a) key st sk2 sequence (p_of qs 0.95 (ws_sketch st)) (p_of qs 0.99 sk1))"

fun emitted :: "'s QuantileSketch \<Rightarrow> 's Aggregator \<Rightarrow> windowKey list \<Rightarrow> int \<Rightarrow> AggregateWindow list" where
  "emitted qs a [] n = []"
| "emitted qs a (key # keys) n =
     window_for qs a key (the (map_of (ag_open a) key)) (n + 1) # emitted qs a keys (n + 1)"

definition quantiles_total :: "'s QuantileSketch \<Rightarrow> bool" where
  "quantiles_total qs \<longleftrightarrow> (\<forall>s. (\<exists>v. fst (qs_Quantile qs 0.95 s) = Inr v) \<and> (\<exists>v. fst (qs_Quantile qs 0.99 s) = Inr v))"

lemma window_for_fields [simp]:
  "w_Key (window_for qs a k st n) = wk_correlation k" "w_WindowID (window_for qs a k st n) = wk_windowID k"
  "w_Sequence (window_for qs a k st n) = n" "w_Count (window_for qs a k st n) = ws_count st"
  "w_ErrorCount (window_for qs a k st n) = ws_errorCount st" "w_Bytes (window_for qs a k st n) = ws_bytes st"
  by (simp_all add: window_for_def make_window_def Let_def)

lemma emitted_cong:
  "(\<And>k. k \<in> set keys \<Longrightarrow> map_of (ag_open a) k = map_of (ag_open b) k) \<Longrightarrow> ag_config a = ag_config b \<Longrightarrow>
   emitted qs a keys n = emitted qs b keys n"
  by (induction keys arbitrary: n) (auto simp: window_for_def)

lemma length_emitted [simp]: "length (emitted qs a keys n) = length keys"
  by (induction keys arbitrary: n) auto

lemma emitted_Sequence:
  "w \<in> set (emitted qs a keys n) \<Longrightarrow> n < w_Sequence w \<and> w_Sequence w \<le> n + int (length keys)"
  by (induction keys arbitrary: n) fastforce+

lemma distinct_emitted_Sequence: "distinct (map w_Sequence (emitted qs a keys n))"
  by (induction keys arbitrary: n) (auto dest: emitted_Sequence)

lemma Identity_neq: "w_Sequence v \<noteq> w_Sequence w \<Longrightarrow> Identity v \<noteq> Identity w"
  using Identity_suffix_inj by blast

text \<open>One step of the loop.\<close>

lemma collect_loop_step:
  assumes "quantiles_total qs" and "map_of (ag_open a) key = Some st"
  shows "collect_loop qs (key # keys) windows a =
    (let w = window_for qs a key st (wrap64 (ag_sequence a + 1))
     in collect_loop qs keys (windows @ [w])
          (a\<lparr>ag_sequence := wrap64 (ag_sequence a + 1), ag_open := AList.delete key (ag_open a),
             ag_pending := AList.update (Identity w) w (ag_pending a)\<rparr>))"
proof -
  obtain v sk1 where q1: "qs_Quantile qs 0.95 (ws_sketch st) = (Inr v, sk1)"
    using assms(1) by (metis quantiles_total_def prod.collapse)
  obtain v' sk2 where q2: "qs_Quantile qs 0.99 sk1 = (Inr v', sk2)"
    using assms(1) by (metis quantiles_total_def prod.collapse)
  show ?thesis using assms(2) q1 q2 by (simp add: Let_def window_for_def p_of_def)
qed

definition drained :: "'s QuantileSketch \<Rightarrow> windowKey list \<Rightarrow> 's Aggregator \<Rightarrow> 's Aggregator" where
  "drained qs keys a =
     a\<lparr>ag_sequence := ag_sequence a + int (length keys),
       ag_open := filter (\<lambda>(k, _). k \<notin> set keys) (ag_open a),
       ag_pending := ag_pending a @ map (\<lambda>w. (Identity w, w)) (emitted qs a keys (ag_sequence a))\<rparr>"

lemma pending_fresh:
  assumes "agg_inv a" and "ag_sequence a < w_Sequence w"
  shows "map_of (ag_pending a) (Identity w) = None"
proof -
  have "Identity w \<noteq> i" if "(i, v) \<in> set (ag_pending a)" for i v
    using assms that Identity_neq[of w v] by (fastforce simp: agg_inv_def)
  then show ?thesis unfolding map_of_eq_None_iff by (metis imageE prod.collapse)
qed

lemma agg_inv_emit:
  assumes "agg_inv a" and "ag_sequence a + 1 \<le> MaxInt64" and "w_Sequence w = ag_sequence a + 1"
  shows "agg_inv (a\<lparr>ag_sequence := ag_sequence a + 1, ag_open := AList.delete key (ag_open a),
                    ag_pending := ag_pending a @ [(Identity w, w)]\<rparr>)"
proof -
  have "Identity w \<notin> fst ` set (ag_pending a)"
    using pending_fresh[OF assms(1), of w] assms(3) by (simp add: map_of_eq_None_iff)
  with assms show ?thesis
    by (fastforce simp: agg_inv_def in_i64_def distinct_delete)
qed

lemma collect_loop_ok:
  assumes "quantiles_total qs" and "agg_inv a" and "distinct keys" and "set keys \<subseteq> fst ` set (ag_open a)"
    and "ag_sequence a + int (length keys) \<le> MaxInt64"
  shows "collect_loop qs keys windows a = (Inr (windows @ emitted qs a keys (ag_sequence a)), drained qs keys a) \<and>
    agg_inv (drained qs keys a)"
  using assms
proof (induction keys arbitrary: a windows)
  case Nil
  then show ?case by (simp add: drained_def)
next
  case (Cons key keys)
  obtain st where st: "map_of (ag_open a) key = Some st"
    using Cons.prems(4) by (metis domD dom_map_of_conv_image_fst list.set_intros(1) subsetD)
  have w1: "wrap64 (ag_sequence a + 1) = ag_sequence a + 1"
    using Cons.prems(2,5) by (intro wrap64_id) (auto simp: agg_inv_def in_i64_def)
  let ?w = "window_for qs a key st (ag_sequence a + 1)"
  let ?a = "a\<lparr>ag_sequence := ag_sequence a + 1, ag_open := AList.delete key (ag_open a),
              ag_pending := ag_pending a @ [(Identity ?w, ?w)]\<rparr>"
  have upd: "AList.update (Identity ?w) ?w (ag_pending a) = ag_pending a @ [(Identity ?w, ?w)]"
    by (rule update_new) (rule pending_fresh[OF Cons.prems(2)], simp)
  have inv: "agg_inv ?a" by (rule agg_inv_emit) (use Cons.prems in auto)
  have IH: "collect_loop qs keys (windows @ [?w]) ?a =
      (Inr ((windows @ [?w]) @ emitted qs ?a keys (ag_sequence ?a)), drained qs keys ?a) \<and> agg_inv (drained qs keys ?a)"
    by (rule Cons.IH) (use Cons.prems inv in \<open>auto simp: fst_set_delete\<close>)
  have em: "emitted qs ?a keys n = emitted qs a keys n" for n
    using Cons.prems(3) by (intro emitted_cong) auto
  have fl: "filter (\<lambda>(k, _). k \<notin> set keys) (AList.delete key m) = filter (\<lambda>(k, _). k \<notin> set (key # keys)) m"
    for m :: "(windowKey \<times> 'a windowState) list"
    by (induction m) auto
  have "drained qs keys ?a = drained qs (key # keys) a"
    unfolding drained_def em by (simp add: st fl del: set_simps)
  with IH em show ?case
    by (simp add: collect_loop_step[OF Cons.prems(1) st] w1 upd st Let_def del: collect_loop.simps)
qed

definition selected_keys :: "(windowKey \<Rightarrow> bool) \<Rightarrow> 's Aggregator \<Rightarrow> windowKey list" where
  "selected_keys incl a = sort (filter incl (map fst (ag_open a)))"

lemma length_selected_keys: "length (selected_keys incl a) \<le> length (ag_open a)"
  unfolding selected_keys_def using length_filter_le[of incl "map fst (ag_open a)"] by simp

lemma collect_ok:
  assumes "quantiles_total qs" and "agg_inv a" and "sequence_room a"
  shows "collect qs incl a =
    (Inr (sort_key Identity (map snd (ag_pending a)) @ emitted qs a (selected_keys incl a) (ag_sequence a)),
     drained qs (selected_keys incl a) a)"
    and "agg_inv (drained qs (selected_keys incl a) a)"
proof -
  have "distinct (selected_keys incl a)" "set (selected_keys incl a) \<subseteq> fst ` set (ag_open a)"
    using assms(2) by (auto simp: selected_keys_def agg_inv_def)
  moreover have "ag_sequence a + int (length (selected_keys incl a)) \<le> MaxInt64"
    using assms(3) length_selected_keys[of incl a] unfolding sequence_room_def by linarith
  ultimately show "collect qs incl a =
    (Inr (sort_key Identity (map snd (ag_pending a)) @ emitted qs a (selected_keys incl a) (ag_sequence a)),
     drained qs (selected_keys incl a) a)" "agg_inv (drained qs (selected_keys incl a) a)"
    using collect_loop_ok[OF assms(1,2)] by (auto simp: collect_def selected_keys_def)
qed

lemma drained_open:
  "ag_open (drained qs (selected_keys incl a) a) = filter (\<lambda>(k, _). \<not> incl k) (ag_open a)"
  by (auto simp: drained_def selected_keys_def image_iff intro!: filter_cong)

text \<open>What the collected windows are: all emissions now pending.\<close>

lemma collect_windows_pending:
  assumes "quantiles_total qs" and "agg_inv a" and "sequence_room a" and "collect qs incl a = (r, a')"
  obtains ws where "r = Inr ws" "set ws = snd ` set (ag_pending a')" "distinct ws" "agg_inv a'"
    "ag_open a' = filter (\<lambda>(k, _). \<not> incl k) (ag_open a)" "snd ` set (ag_pending a) \<subseteq> snd ` set (ag_pending a')"
    "ag_config a' = ag_config a" "ag_shed a' = ag_shed a"
proof -
  let ?new = "emitted qs a (selected_keys incl a) (ag_sequence a)"
  have r: "r = Inr (sort_key Identity (map snd (ag_pending a)) @ ?new)"
    and a': "a' = drained qs (selected_keys incl a) a"
    using collect_ok(1)[OF assms(1-3), of incl] assms(4) by simp_all
  have inv: "agg_inv a'" using collect_ok(2)[OF assms(1-3)] a' by simp
  have "distinct (map w_Sequence (map snd (ag_pending a) @ ?new))"
    using inv by (simp add: a' drained_def agg_inv_def comp_def case_prod_unfold)
  then have "distinct (map snd (ag_pending a) @ ?new)" by (rule distinct_map[THEN iffD1, THEN conjunct1])
  then have "distinct (sort_key Identity (map snd (ag_pending a)) @ ?new)" by simp
  moreover have "snd ` set (ag_pending a') = snd ` set (ag_pending a) \<union> set ?new"
    by (simp add: a' drained_def image_Un image_image)
  ultimately show ?thesis
    by (intro that[OF r _ _ inv]) (simp_all add: a' drained_open, simp_all add: drained_def)
qed


lemma Commit_filter: "ag_pending (Commit ws a) = filter (\<lambda>(i, w). i \<notin> Identity ` set ws) (ag_pending a)"
proof -
  have "fold (\<lambda>w m. AList.delete (Identity w) m) ws m = filter (\<lambda>(i, w). i \<notin> Identity ` set ws) m"
    for m :: "(string \<times> AggregateWindow) list"
    by (induction ws arbitrary: m) (auto simp: AList.delete_eq intro!: filter_cong)
  then show ?thesis by (simp add: Commit_def)
qed

lemma Commit_frame [simp]:
  "ag_open (Commit ws a) = ag_open a" "ag_config (Commit ws a) = ag_config a"
  "ag_sequence (Commit ws a) = ag_sequence a" "ag_shed (Commit ws a) = ag_shed a"
  by (simp_all add: Commit_def)

lemma Commit_inv: "agg_inv a \<Longrightarrow> agg_inv (Commit ws a)"
  by (auto simp: agg_inv_def Commit_filter distinct_map_filter)

lemma agg_inv_pendingD:
  assumes "agg_inv a" and "v \<in> snd ` set (ag_pending a)"
  shows "(Identity v, v) \<in> set (ag_pending a)" and "w_Sequence v \<le> ag_sequence a"
  using assms by (force simp: agg_inv_def)+

lemma agg_inv_pending_inj:
  assumes "agg_inv a" and "v \<in> snd ` set (ag_pending a)" and "w \<in> snd ` set (ag_pending a)" and "Identity v = Identity w"
  shows "v = w"
  using agg_inv_pendingD(1)[OF assms(1,2)] agg_inv_pendingD(1)[OF assms(1,3)] assms(1,4)
  by (metis agg_inv_def eq_key_imp_eq_value)

lemma Commit_snd:
  assumes "agg_inv a" and "set ws \<subseteq> snd ` set (ag_pending a)"
  shows "snd ` set (ag_pending (Commit ws a)) = snd ` set (ag_pending a) - set ws"
proof (rule set_eqI, rule iffI)
  fix w assume "w \<in> snd ` set (ag_pending (Commit ws a))"
  then obtain i where "(i, w) \<in> set (ag_pending a)" "i \<notin> Identity ` set ws" by (auto simp: Commit_filter)
  moreover from this(1) assms(1) have "i = Identity w" by (auto simp: agg_inv_def)
  ultimately show "w \<in> snd ` set (ag_pending a) - set ws" by force
next
  fix w assume w: "w \<in> snd ` set (ag_pending a) - set ws"
  then have "(Identity w, w) \<in> set (ag_pending a)" using agg_inv_pendingD(1)[OF assms(1)] by simp
  moreover have "Identity w \<notin> Identity ` set ws"
  proof
    assume "Identity w \<in> Identity ` set ws"
    then obtain v where v: "v \<in> set ws" "Identity w = Identity v" by auto
    have "w = v" by (rule agg_inv_pending_inj[OF assms(1) _ _ v(2)]) (use w v assms(2) in auto)
    with w v show False by simp
  qed
  ultimately have "(Identity w, w) \<in> set (ag_pending (Commit ws a))" by (simp add: Commit_filter)
  then show "w \<in> snd ` set (ag_pending (Commit ws a))" by (rule rev_image_eqI) simp
qed

section \<open>Counters\<close>

text \<open>
  The three counters a window carries, followed from an event through the open state and
  the emitted window to the device. \<open>held c P a\<close> is the amount of counter \<open>c\<close> the aggregator holds,
  open or pending, for the keys that satisfy \<open>P\<close>.
\<close>

datatype counter = Events | Errors | Bytes

fun of_event :: "counter \<Rightarrow> Event \<Rightarrow> int" where
  "of_event Events e = 1"
| "of_event Errors e = (if ev_Failed e then 1 else 0)"
| "of_event Bytes e = ev_Bytes e"

fun of_state :: "counter \<Rightarrow> 's windowState \<Rightarrow> int" where
  "of_state Events st = ws_count st"
| "of_state Errors st = ws_errorCount st"
| "of_state Bytes st = ws_bytes st"

fun of_window :: "counter \<Rightarrow> AggregateWindow \<Rightarrow> int" where
  "of_window Events w = w_Count w"
| "of_window Errors w = w_ErrorCount w"
| "of_window Bytes w = w_Bytes w"

definition window_key :: "AggregateWindow \<Rightarrow> windowKey" where
  "window_key w = WindowKey (w_Key w) (w_WindowID w)"

definition held_open :: "counter \<Rightarrow> (windowKey \<Rightarrow> bool) \<Rightarrow> 's Aggregator \<Rightarrow> int" where
  "held_open c P a = alist_sum (\<lambda>(k, st). if P k then of_state c st else 0) (ag_open a)"

definition held_pending :: "counter \<Rightarrow> (windowKey \<Rightarrow> bool) \<Rightarrow> 's Aggregator \<Rightarrow> int" where
  "held_pending c P a = alist_sum (\<lambda>(i, w). if P (window_key w) then of_window c w else 0) (ag_pending a)"

definition held :: "counter \<Rightarrow> (windowKey \<Rightarrow> bool) \<Rightarrow> 's Aggregator \<Rightarrow> int" where
  "held c P a = held_open c P a + held_pending c P a"

lemma window_key_window_for [simp]: "window_key (window_for qs a k st n) = k"
  by (cases k) (simp add: window_key_def)

lemma of_window_window_for [simp]: "of_window c (window_for qs a k st n) = of_state c st"
  by (cases c) simp_all

lemma of_state_absorb: "wrap64 (of_state c (absorb qs e st) + x) = wrap64 (of_state c st + of_event c e + x)"
  by (cases c) (simp_all add: absorb_def wrap_simps)

lemma ingestLocked_held:
  assumes "agg_inv a" and "ingestLocked qs e a = (r, a')"
  shows "wrap64 (held c P a') =
    wrap64 (held c P a + (if r = None \<and> P (event_key a e) then of_event c e else 0))"
proof (cases rule: ingestLocked_cases[of qs e a])
  case (fresh sk)
  let ?st = "\<lparr>ws_count = 0, ws_errorCount = 0, ws_bytes = 0, ws_sketch = sk\<rparr>"
  have "of_state c ?st = 0" by (cases c) simp_all
  with fresh assms(2) of_state_absorb[of c qs e ?st "held c P a"] show ?thesis
    by (auto simp: held_def held_open_def held_pending_def algebra_simps)
next
  case (known st)
  have "distinct (map fst (ag_open a))" using assms(1) by (simp add: agg_inv_def)
  note u = alist_sum_update_old[OF this known(2)]
  show ?thesis
    using known assms(2) of_state_absorb[of c qs e st "held c P a - of_state c st"]
    by (auto simp: held_def held_open_def held_pending_def u algebra_simps)
qed (use assms(2) in \<open>auto simp: held_def held_open_def held_pending_def\<close>)

text \<open>The events a batch really adds: the ones that are neither shed nor cut off by an error.\<close>

fun absorbed :: "'s QuantileSketch \<Rightarrow> Event list \<Rightarrow> 's Aggregator \<Rightarrow> Event list" where
  "absorbed qs [] a = []"
| "absorbed qs (e # es) a =
     (case ingestLocked qs e a of
        (None, a') \<Rightarrow> e # absorbed qs es a'
      | (Some err, a') \<Rightarrow> if errors_Is err ErrTooManyKeys then absorbed qs es a' else [])"

definition amount :: "counter \<Rightarrow> (windowKey \<Rightarrow> bool) \<Rightarrow> 's Aggregator \<Rightarrow> Event list \<Rightarrow> int" where
  "amount c P a es = sum_list (map (of_event c) (filter (\<lambda>e. P (event_key a e)) es))"

lemma amount_simps [simp]:
  "amount c P a [] = 0"
  "amount c P a (e # es) = (if P (event_key a e) then of_event c e else 0) + amount c P a es"
  "amount c P a (es @ es') = amount c P a es + amount c P a es'"
  by (simp_all add: amount_def)

lemma event_key_config: "ag_config a' = ag_config a \<Longrightarrow> event_key a' = event_key a"
  by (rule ext) (simp add: event_key_def WindowID_def)

lemma amount_config: "ag_config a' = ag_config a \<Longrightarrow> amount c P a' = amount c P a"
  by (rule ext) (simp add: amount_def event_key_config[of a' a])

lemma ingest_all_held:
  assumes "agg_inv a" and "ingest_all qs es a = (r, a')"
  shows "wrap64 (held c P a') = wrap64 (held c P a + amount c P a (absorbed qs es a))"
  using assms
proof (induction es arbitrary: a)
  case (Cons e es)
  obtain r1 a1 where s: "ingestLocked qs e a = (r1, a1)" by fastforce
  note one = ingestLocked_held[OF Cons.prems(1) s, of c P]
  have cfg: "amount c P a1 = amount c P a" using ingestLocked_frame[OF s] by (intro amount_config) simp
  note IH = Cons.IH[OF ingestLocked_inv[OF Cons.prems(1) s]]
  show ?case
  proof (cases r1)
    case None
    with s Cons.prems(2) have "wrap64 (held c P a') = wrap64 (held c P a1 + amount c P a (absorbed qs es a1))"
      by (simp add: IH flip: cfg)
    also have "\<dots> = wrap64 (held c P a + (if P (event_key a e) then of_event c e else 0) + amount c P a (absorbed qs es a1))"
      using one None by (intro wrap64_add_cong) simp
    finally show ?thesis using s None by (simp add: add.assoc)
  next
    case (Some err)
    with s Cons.prems(2) IH one show ?thesis
      by (cases "errors_Is err ErrTooManyKeys") (auto simp flip: cfg intro: wrap64_add_cong)
  qed
qed simp

lemma validate_all_None: "validate_all es = None \<longleftrightarrow> (\<forall>e \<in> set es. valid_event e)"
  by (induction es) (auto simp flip: Event_Validate_None split: option.splits)

text \<open>Every event of a batch that is accepted is either counted in a window or counted as shed.\<close>

lemma ingestLocked_None: "ingestLocked qs e a = (None, a') \<Longrightarrow> ag_shed a' = ag_shed a"
  by (rule ingestLocked_cases[of qs e a]) auto

lemma ingestLocked_Some:
  assumes "ingestLocked qs e a = (Some err, a')" and "sketch_factory (ag_config a) = Inr sk"
  shows "err = ErrTooManyKeys" and "a' = a\<lparr>ag_shed := wrap64 (ag_shed a + 1)\<rparr>"
  by (rule ingestLocked_cases[of qs e a]; use assms in simp)+

lemma ingest_all_shed:
  assumes "ingest_all qs es a = (r, a')" and "sketch_factory (ag_config a) = Inr sk"
  shows "r = None \<and> wrap64 (int (length (absorbed qs es a)) + ag_shed a') = wrap64 (int (length es) + ag_shed a)"
  using assms
proof (induction es arbitrary: a)
  case (Cons e es)
  obtain r1 a1 where s: "ingestLocked qs e a = (r1, a1)" by fastforce
  have cfg: "sketch_factory (ag_config a1) = Inr sk" using ingestLocked_frame[OF s] Cons.prems(2) by simp
  show ?case
  proof (cases r1)
    case None
    with Cons.IH[OF _ cfg] Cons.prems(1) s have "r = None"
      "wrap64 (int (length (absorbed qs es a1)) + ag_shed a') = wrap64 (int (length es) + ag_shed a1)" by auto
    from wrap64_add_cong[OF this(2), of 1] this(1) show ?thesis
      using s None ingestLocked_None[of qs e a a1] by (simp add: algebra_simps)
  next
    case (Some err)
    note e = ingestLocked_Some[OF s[unfolded Some] Cons.prems(2)]
    from Cons.IH[OF _ cfg] Cons.prems(1) s Some e(1) have "r = None"
      "wrap64 (int (length (absorbed qs es a1)) + ag_shed a') = wrap64 (int (length es) + ag_shed a1)" by auto
    then show ?thesis using s Some e by (simp add: wrap_simps algebra_simps)
  qed
qed simp

text \<open>Moving a window from \<open>open\<close> to \<open>pending\<close> keeps what is held, whether or not a quantile fails.\<close>

lemma held_emit:
  assumes "agg_inv a" and "map_of (ag_open a) key = Some st" and "map_of (ag_pending a) i = None"
    and "window_key w = key" and "\<And>c. of_window c w = of_state c st"
  shows "held c P (a\<lparr>ag_sequence := n, ag_open := AList.delete key (ag_open a),
                     ag_pending := AList.update i w (ag_pending a)\<rparr>) = held c P a"
proof -
  have "distinct (map fst (ag_open a))" using assms(1) by (simp add: agg_inv_def)
  note d = alist_sum_delete[OF this assms(2)]
  show ?thesis using assms(3-5) by (simp add: held_def held_open_def held_pending_def d update_new)
qed

lemma held_sketch:
  assumes "agg_inv a" and "map_of (ag_open a) key = Some st"
  shows "held c P (a\<lparr>ag_open := AList.update key (st\<lparr>ws_sketch := sk\<rparr>) (ag_open a)\<rparr>) = held c P a"
proof -
  have "distinct (map fst (ag_open a))" using assms(1) by (simp add: agg_inv_def)
  note u = alist_sum_update_old[OF this assms(2)]
  have "of_state c (st\<lparr>ws_sketch := sk\<rparr>) = of_state c st" by (cases c) simp_all
  then show ?thesis by (simp add: held_def held_open_def held_pending_def u)
qed

lemma of_window_make_window [simp]: "of_window c (make_window qs cfg key st sk n p95 p99) = of_state c st"
  by (cases c) (simp_all add: make_window_def Let_def)

lemma window_key_make_window [simp]: "window_key (make_window qs cfg key st sk n p95 p99) = key"
  by (cases key) (simp add: window_key_def make_window_def Let_def)

lemma w_Sequence_make_window [simp]: "w_Sequence (make_window qs cfg key st sk n p95 p99) = n"
  by (simp add: make_window_def Let_def)

lemma collect_loop_held:
  assumes "agg_inv a" and "ag_sequence a + int (length keys) \<le> MaxInt64"
    and "collect_loop qs keys windows a = (r, a')"
  shows "agg_inv a' \<and> held c P a' = held c P a \<and> heldWindows a' = heldWindows a"
  using assms
proof (induction qs keys windows a rule: collect_loop.induct)
  case (2 qs key keys windows a)
  show ?case
  proof (cases "map_of (ag_open a) key")
    case None
    with "2.prems" "2.IH"(1) show ?thesis by simp
  next
    case (Some st)
    have op: "agg_inv (a\<lparr>ag_open := AList.update key (st\<lparr>ws_sketch := sk\<rparr>) (ag_open a)\<rparr>)"
      "heldWindows (a\<lparr>ag_open := AList.update key (st\<lparr>ws_sketch := sk\<rparr>) (ag_open a)\<rparr>) = heldWindows a" for sk
      using "2.prems"(1) Some by (simp_all add: agg_inv_def distinct_update heldWindows_def length_update_old)
    note keep = op held_sketch[OF "2.prems"(1) Some]
    obtain r1 sk1 where q1: "qs_Quantile qs 0.95 (ws_sketch st) = (r1, sk1)" by fastforce
    obtain r2 sk2 where q2: "qs_Quantile qs 0.99 sk1 = (r2, sk2)" by fastforce
    consider (e1) err where "r1 = Inl err" | (e2) v err where "r1 = Inr v" "r2 = Inl err"
      | (ok) p95 p99 where "r1 = Inr p95" "r2 = Inr p99"
      by (metis sumE)
    then show ?thesis
    proof cases
      case e1
      with "2.prems"(3) Some q1 show ?thesis by (auto simp: keep)
    next
      case e2
      with "2.prems"(3) Some q1 q2 show ?thesis by (auto simp: keep)
    next
      case ok
      have s: "wrap64 (ag_sequence a + 1) = ag_sequence a + 1"
        using "2.prems"(1,2) by (intro wrap64_id) (auto simp: agg_inv_def in_i64_def)
      let ?w = "make_window qs (ag_config a) key st sk2 (ag_sequence a + 1) p95 p99"
      let ?a = "a\<lparr>ag_sequence := ag_sequence a + 1, ag_open := AList.delete key (ag_open a),
                  ag_pending := AList.update (Identity ?w) ?w (ag_pending a)\<rparr>"
      have fresh: "map_of (ag_pending a) (Identity ?w) = None"
        by (rule pending_fresh[OF "2.prems"(1)]) simp
      have "agg_inv ?a"
        using agg_inv_emit[OF "2.prems"(1), of ?w key] "2.prems"(2) by (simp add: update_new[OF fresh])
      moreover have "heldWindows ?a = heldWindows a"
        using "2.prems"(1) Some length_delete_old[of "ag_open a" key] length_update_new[OF fresh, of ?w]
        by (auto simp: heldWindows_def agg_inv_def)
      moreover have "held c P ?a = held c P a" by (rule held_emit[OF "2.prems"(1) Some fresh]) simp_all
      moreover have "collect_loop qs keys (windows @ [?w]) ?a = (r, a')"
        using "2.prems"(3) Some q1 q2 ok s by (simp add: Let_def)
      ultimately show ?thesis
        using "2.IH"(2)[OF Some q1[symmetric] ok(1) q2[unfolded ok(2), symmetric]] "2.prems"(2) Some q1 q2 ok s
        by simp
    qed
  qed
qed simp

lemma collect_held:
  assumes "agg_inv a" and "sequence_room a" and "collect qs incl a = (r, a')"
  shows "agg_inv a'" and "held c P a' = held c P a" and "heldWindows a' = heldWindows a"
proof -
  have "ag_sequence a + int (length (selected_keys incl a)) \<le> MaxInt64"
    using assms(2) length_selected_keys[of incl a] unfolding sequence_room_def by linarith
  from collect_loop_held[OF assms(1) this] assms(3)
  show "agg_inv a'" "held c P a' = held c P a" "heldWindows a' = heldWindows a"
    by (simp_all add: collect_def selected_keys_def Let_def)
qed

text \<open>A commit removes exactly the amounts of the committed windows.\<close>

definition window_amount :: "counter \<Rightarrow> (windowKey \<Rightarrow> bool) \<Rightarrow> AggregateWindow list \<Rightarrow> int" where
  "window_amount c P ws = sum_list (map (of_window c) (filter (P \<circ> window_key) ws))"

lemma window_amount_simps [simp]:
  "window_amount c P [] = 0"
  "window_amount c P (w # ws) = (if P (window_key w) then of_window c w else 0) + window_amount c P ws"
  "window_amount c P (vs @ ws) = window_amount c P vs + window_amount c P ws"
  by (simp_all add: window_amount_def)

lemma Commit_Cons: "Commit (w # ws) a = Commit ws (Commit [w] a)"
  by (simp add: Commit_def)

lemma Commit_held:
  assumes "agg_inv a" and "set ws \<subseteq> snd ` set (ag_pending a)" and "distinct ws"
  shows "held c P (Commit ws a) = held c P a - window_amount c P ws"
  using assms
proof (induction ws arbitrary: a)
  case Nil
  then show ?case by (simp add: Commit_def)
next
  case (Cons w ws)
  have d: "distinct (map fst (ag_pending a))" using Cons.prems(1) by (simp add: agg_inv_def)
  have "map_of (ag_pending a) (Identity w) = Some w"
    using Cons.prems agg_inv_pendingD(1)[OF Cons.prems(1), of w] d by (simp add: map_of_is_SomeI)
  from alist_sum_delete[OF d this]
  have one: "held c P (Commit [w] a) = held c P a - (if P (window_key w) then of_window c w else 0)"
    by (simp add: held_def held_open_def held_pending_def Commit_def)
  have "snd ` set (ag_pending (Commit [w] a)) = snd ` set (ag_pending a) - set [w]"
    by (rule Commit_snd) (use Cons.prems in auto)
  then have "held c P (Commit ws (Commit [w] a)) = held c P (Commit [w] a) - window_amount c P ws"
    using Cons.prems by (intro Cons.IH Commit_inv) auto
  then show ?case by (simp add: Commit_Cons[of w ws] one)
qed

lemma Commit_heldWindows: "heldWindows (Commit ws a) \<le> heldWindows a"
  by (simp add: heldWindows_def Commit_filter)

section \<open>Reachable states\<close>

text \<open>
  The calls a client makes, in any order and with any arguments. Collection is a step while the
  64-bit emission sequence has room for the open windows: it starts at the wall clock in
  nanoseconds, which leaves more than $2^{62}$ emissions until the year 2116.
\<close>

inductive agg_step :: "'s QuantileSketch \<Rightarrow> 's Aggregator \<Rightarrow> 's Aggregator \<Rightarrow> bool" for qs where
  step_Ingest: "Ingest qs e a = (r, a') \<Longrightarrow> agg_step qs a a'"
| step_IngestBatch: "IngestBatch qs b a = (r, a') \<Longrightarrow> agg_step qs a a'"
| step_CollectWindowsBefore: "sequence_room a \<Longrightarrow> CollectWindowsBefore qs t a = (rs, a') \<Longrightarrow> agg_step qs a a'"
| step_CollectAll: "sequence_room a \<Longrightarrow> CollectAll qs a = (rs, a') \<Longrightarrow> agg_step qs a a'"
| step_Commit: "agg_step qs a (Commit ws a)"
| step_CloseWindowsBefore: "sequence_room a \<Longrightarrow> CloseWindowsBefore qs t a = (rs, a') \<Longrightarrow> agg_step qs a a'"
| step_Flush: "sequence_room a \<Longrightarrow> Flush qs a = (rs, a') \<Longrightarrow> agg_step qs a a'"

definition ceiling_ok :: "'s Aggregator \<Rightarrow> bool" where
  "ceiling_ok a \<longleftrightarrow> (0 < cfg_MaxOpenWindows (ag_config a) \<longrightarrow> heldWindows a \<le> cfg_MaxOpenWindows (ag_config a))"

lemma ingestLocked_ceiling: "ceiling_ok a \<Longrightarrow> ingestLocked qs e a = (r, a') \<Longrightarrow> ceiling_ok a'"
  by (rule ingestLocked_cases[of qs e a]) (auto simp: ceiling_ok_def heldWindows_def length_update_old)

lemma ingest_all_ceiling: "ceiling_ok a \<Longrightarrow> ingest_all qs es a = (r, a') \<Longrightarrow> ceiling_ok a'"
proof (induction es arbitrary: a)
  case (Cons e es)
  obtain r1 a1 where s: "ingestLocked qs e a = (r1, a1)" by fastforce
  with Cons.prems(1) have "ceiling_ok a1" by (rule ingestLocked_ceiling)
  with Cons s show ?case by (auto split: option.splits if_splits)
qed simp

lemma collect_loop_config: "ag_config (snd (collect_loop qs keys windows a)) = ag_config a"
  by (induction qs keys windows a rule: collect_loop.induct)
    (auto split: option.splits prod.splits sum.splits simp: Let_def)

lemma collect_config: "collect qs incl a = (r, a') \<Longrightarrow> ag_config a' = ag_config a"
  using collect_loop_config unfolding collect_def by (metis snd_conv)

lemma collect_safe:
  assumes "agg_inv a \<and> ceiling_ok a" and "sequence_room a" and "collect qs incl a = (r, a')"
  shows "agg_inv a' \<and> ceiling_ok a' \<and> ag_config a' = ag_config a"
  using assms collect_held[OF _ assms(2,3)] collect_config[OF assms(3)] by (simp add: ceiling_ok_def)

lemma Commit_safe: "agg_inv a \<and> ceiling_ok a \<Longrightarrow> agg_inv (Commit ws a) \<and> ceiling_ok (Commit ws a)"
  using Commit_heldWindows[of ws a] by (auto simp: Commit_inv ceiling_ok_def)

lemma collect_Commit_safe:
  assumes "agg_inv a \<and> ceiling_ok a" and "sequence_room a" and "collect qs incl a = (r, a')"
  shows "agg_inv (Commit ws a') \<and> ceiling_ok (Commit ws a')"
  using collect_safe[OF assms] by (intro Commit_safe) simp

lemma agg_step_safe:
  assumes "agg_step qs a a'" and "agg_inv a \<and> ceiling_ok a"
  shows "agg_inv a' \<and> ceiling_ok a' \<and> ag_config a' = ag_config a"
  using assms
proof cases
  case step_Ingest
  with assms(2) show ?thesis
    by (auto simp: Ingest_def dest: ingestLocked_inv ingestLocked_ceiling ingestLocked_frame split: option.splits)
next
  case step_IngestBatch
  with assms(2) show ?thesis
    by (auto simp: IngestBatch_def dest: ingest_all_inv ingest_all_ceiling ingest_all_frame split: option.splits)
next
  case step_CollectWindowsBefore
  with assms(2) show ?thesis by (intro collect_safe) (auto simp: CollectWindowsBefore_def Let_def)
next
  case step_CollectAll
  with assms(2) show ?thesis by (intro collect_safe) (auto simp: CollectAll_def)
next
  case step_Commit
  with assms(2) Commit_safe show ?thesis by simp
next
  case (step_CloseWindowsBefore t)
  with collect_safe[OF assms(2)] collect_Commit_safe[OF assms(2)] show ?thesis
    by (auto simp: CloseWindowsBefore_def CollectWindowsBefore_def Let_def split: prod.splits sum.splits)
next
  case step_Flush
  with collect_safe[OF assms(2)] collect_Commit_safe[OF assms(2)] show ?thesis
    by (auto simp: Flush_def CollectAll_def split: prod.splits sum.splits)
qed

lemma agg_steps_safe:
  "(agg_step qs)\<^sup>*\<^sup>* a a' \<Longrightarrow> agg_inv a \<and> ceiling_ok a \<Longrightarrow> agg_inv a' \<and> ceiling_ok a' \<and> ag_config a' = ag_config a"
  by (induction rule: rtranclp_induct) (auto dest: agg_step_safe)

section \<open>Determinism\<close>

text \<open>What is collected does not depend on the order in which the runtime iterates the two maps.\<close>

definition same_maps :: "'s Aggregator \<Rightarrow> 's Aggregator \<Rightarrow> bool" where
  "same_maps a b \<longleftrightarrow> ag_config a = ag_config b \<and> ag_sequence a = ag_sequence b \<and>
     mset (ag_open a) = mset (ag_open b) \<and> mset (ag_pending a) = mset (ag_pending b)"

lemma map_of_mset_eq:
  assumes "distinct (map fst m)" and "mset m = mset m'"
  shows "map_of m = map_of m'"
proof -
  have "distinct (map fst m')"
    using assms by (metis mset_map mset_eq_imp_distinct_iff)
  with assms mset_eq_setD[OF assms(2)] show ?thesis by (simp add: map_of_inject_set)
qed

lemma collect_loop_cong:
  assumes "map_of (ag_open a) = map_of (ag_open b)" and "ag_config a = ag_config b" and "ag_sequence a = ag_sequence b"
  shows "fst (collect_loop qs keys windows a) = fst (collect_loop qs keys windows b)"
  using assms
proof (induction keys arbitrary: windows a b)
  case (Cons key keys)
  from Cons.prems show ?case
    by (auto simp: Let_def intro!: Cons.IH split: option.split prod.split sum.split)
qed simp

lemma sort_mset_eq: "mset xs = mset ys \<Longrightarrow> sort xs = sort (ys :: 'a :: linorder list)"
  by (metis sorted_list_of_multiset_mset)

lemma sort_key_mset_eq: "mset xs = mset ys \<Longrightarrow> inj_on f (set xs) \<Longrightarrow> sort_key f xs = sort_key f ys"
  by (rule sort_key_inj_key_eq) simp_all

lemma pending_inj_on: "agg_inv a \<Longrightarrow> inj_on Identity (set (map snd (ag_pending a)))"
  by (rule inj_onI) (simp add: agg_inv_pending_inj)

section \<open>Windows and time\<close>

lemma WindowID_bounds:
  assumes "0 < cfg_WindowSize (ag_config a)" and "0 \<le> t" and "in_i64 t"
  shows "WindowID a t * cfg_WindowSize (ag_config a) \<le> t"
    and "t < WindowID a t * cfg_WindowSize (ag_config a) + cfg_WindowSize (ag_config a)"
    and "in_i64 (WindowID a t * cfg_WindowSize (ag_config a))"
proof -
  let ?s = "cfg_WindowSize (ag_config a)"
  have id: "WindowID a t = t div ?s"
    using assms by (simp add: WindowID_def UnixNano_def signed_divide_int_def sgn_if)
  have le: "t div ?s * ?s \<le> t" "t < t div ?s * ?s + ?s"
    using assms(1) pos_mod_bound[of ?s t] pos_mod_sign[of ?s t] div_mult_mod_eq[of t ?s] by linarith+
  then show "WindowID a t * ?s \<le> t" "t < WindowID a t * ?s + ?s" by (simp_all add: id)
  have "0 \<le> t div ?s * ?s" using assms by (simp add: pos_imp_zdiv_nonneg_iff)
  with le(1) assms(3) show "in_i64 (WindowID a t * ?s)" by (auto simp: in_i64_def MinInt64_def id)
qed

lemma window_for_times [simp]:
  "w_WindowStart (window_for qs a k st n) = wrap64 (wk_windowID k * cfg_WindowSize (ag_config a))"
  "w_WindowEnd (window_for qs a k st n) = wrap64 (wk_windowID k * cfg_WindowSize (ag_config a)) + cfg_WindowSize (ag_config a)"
  by (simp_all add: window_for_def make_window_def Let_def Unix_def)

lemma emitted_keys: "map window_key (emitted qs a keys n) = keys"
  by (induction keys arbitrary: n) simp_all

lemma emitted_key_set: "window_key ` set (emitted qs a keys n) = set keys"
  unfolding set_map[symmetric] emitted_keys ..

lemma emitted_times:
  "w \<in> set (emitted qs a keys n) \<Longrightarrow>
   w_WindowStart w = wrap64 (w_WindowID w * cfg_WindowSize (ag_config a)) \<and>
   w_WindowEnd w = w_WindowStart w + cfg_WindowSize (ag_config a)"
  by (induction keys arbitrary: n) auto

lemma ingestLocked_None_open: "ingestLocked qs e a = (None, a') \<Longrightarrow> event_key a e \<in> fst ` set (ag_open a')"
  by (rule ingestLocked_cases[of qs e a]) auto

lemma window_keyD: "window_key w = WindowKey k i \<Longrightarrow> w_Key w = k \<and> w_WindowID w = i"
  by (simp add: window_key_def)

section \<open>The properties\<close>

text \<open>A concrete configuration and event, for the witnesses.\<close>

definition ex_config :: "Sketch AggConfig" where
  "ex_config = \<lparr>cfg_WindowSize = 10, cfg_RelativeAccuracy = 0, cfg_NewSketch = None, cfg_SequenceSeed = 7, cfg_MaxOpenWindows = 1\<rparr>"

definition ex_event :: Event where
  "ex_event = \<lparr>ev_DeviceID = ''d'', ev_UserID = ''u'', ev_ProcessID = 1, ev_PodID = ''p'', ev_Kind = EventKindSyscall,
     ev_ObservedAt = 25, ev_LatencyNanos = 0, ev_Bytes = 5, ev_Failed = True\<rparr>"

definition ex_sketch :: Sketch where
  "ex_sketch = (case NewSketch defaultRelativeError of Inr s \<Rightarrow> s | Inl _ \<Rightarrow> undefined)"

definition ex_aggregator :: "Sketch Aggregator" where
  "ex_aggregator =
     \<lparr>ag_config = ex_config\<lparr>cfg_RelativeAccuracy := defaultRelativeError, cfg_NewSketch := Some (Inr ex_sketch)\<rparr>,
      ag_open = [], ag_pending = [], ag_sequence = 7, ag_shed = 0\<rparr>"

definition ex_later :: Event where "ex_later = ex_event\<lparr>ev_ObservedAt := 31\<rparr>"

lemma NewSketch_ex: "NewSketch defaultRelativeError = Inr ex_sketch"
  by (simp add: ex_sketch_def NewSketch_def defaultRelativeError_def Let_def)

lemma NewAggregator_ex: "NewAggregator 0 ex_config = Inr ex_aggregator"
  by (simp add: NewAggregator_def AggConfig_validate_def ex_config_def ex_aggregator_def Let_def NewSketch_ex)
    (simp add: defaultRelativeError_def)

lemma ex_aggregator_ok: "agg_inv ex_aggregator" "ceiling_ok ex_aggregator" "sequence_room ex_aggregator"
  "sketch_factory (ag_config ex_aggregator) = Inr ex_sketch"
  by (simp_all add: agg_inv_def ceiling_ok_def sequence_room_def ex_aggregator_def heldWindows_def in_i64_def
      MinInt64_def MaxInt64_def sketch_factory_def)

text \<open>
  Bounded memory. Whatever calls are made, in whatever order, an aggregator with a positive
  ceiling never holds more windows, open or waiting to be published, than the ceiling; the state stays well formed.
\<close>

theorem aggregator_ceiling:
  assumes "NewAggregator now c = Inr a0" and "in_i64 (cfg_SequenceSeed c)" and "(agg_step qs)\<^sup>*\<^sup>* a0 a"
    and "0 < cfg_MaxOpenWindows c"
  shows "agg_inv a \<and> OpenWindows a \<le> cfg_MaxOpenWindows c"
proof -
  have init: "ceiling_ok a0" "cfg_MaxOpenWindows (ag_config a0) = cfg_MaxOpenWindows c"
    using assms(1) by (auto simp: NewAggregator_def Let_def ceiling_ok_def heldWindows_def split: option.splits if_splits)
  with NewAggregator_inv[OF assms(1,2)] agg_steps_safe[OF assms(3)]
  have "agg_inv a \<and> ceiling_ok a \<and> ag_config a = ag_config a0" by simp
  with init assms(4) show ?thesis by (auto simp: ceiling_ok_def OpenWindows_def)
qed

theorem aggregator_ceiling_witness:
  "OpenWindows (snd (Ingest sketch_ops ex_later (snd (Ingest sketch_ops ex_event ex_aggregator)))) \<le> 1"
proof -
  have steps: "(agg_step sketch_ops)\<^sup>*\<^sup>* ex_aggregator (snd (Ingest sketch_ops ex_later (snd (Ingest sketch_ops ex_event ex_aggregator))))"
    by (rule converse_rtranclp_into_rtranclp[OF _ r_into_rtranclp]) (rule step_Ingest, rule surjective_pairing)+
  have "in_i64 (cfg_SequenceSeed ex_config)" "cfg_MaxOpenWindows ex_config = 1"
    by (simp_all add: ex_config_def in_i64_def MinInt64_def MaxInt64_def)
  with aggregator_ceiling[OF NewAggregator_ex _ steps] show ?thesis by simp
qed

text \<open>
  Property C15 (accounting of a batch). A batch is rejected as a whole, with the state unchanged, exactly
  when one of its events is invalid. Otherwise every event is either absorbed or counted as shed,
  and each counter of each group of window keys grows by exactly the amounts of the absorbed events
  (in 64-bit arithmetic).
\<close>

theorem ingest_batch_accounting:
  assumes "agg_inv a" and "sketch_factory (ag_config a) = Inr sk" and "IngestBatch qs b a = (r, a')"
  shows "(r = None \<longleftrightarrow> (\<forall>e \<in> set (b_Events b). valid_event e)) \<and> (r \<noteq> None \<longrightarrow> a' = a) \<and>
    (r = None \<longrightarrow>
       wrap64 (held c P a') = wrap64 (held c P a + amount c P a (absorbed qs (b_Events b) a)) \<and>
       wrap64 (int (length (absorbed qs (b_Events b) a)) + Shed a') = wrap64 (Batch_Len b + Shed a))"
proof -
  note valid = validate_all_None
  show ?thesis
  proof (cases "validate_all (b_Events b)")
    case None
    with assms(3) have run: "ingest_all qs (b_Events b) a = (r, a')" by (simp add: IngestBatch_def)
    from None valid ingest_all_held[OF assms(1) run] ingest_all_shed[OF run assms(2)]
    show ?thesis by (simp add: Shed_def Batch_Len_def)
  next
    case (Some err)
    with assms(3) have "r = Some err" "a' = a" by (auto simp: IngestBatch_def)
    with Some valid[of "b_Events b"] show ?thesis by simp
  qed
qed

definition ex_batch :: Batch where
  "ex_batch = \<lparr>b_DeviceID = ''d'', b_CreatedAt = 26, b_Events = [ex_event, ex_event, ex_later]\<rparr>"

lemmas ex_simps = ex_batch_def ex_event_def ex_later_def ex_aggregator_def ex_config_def event_key_def WindowID_def
  UnixNano_def Event_CorrelationKey_def event_kind_defs

lemma ex_batch_valid: "\<forall>e \<in> set (b_Events ex_batch). valid_event e"
  by (simp add: ex_simps valid_event_def IsZero_def zero_time_def)

lemma ex_batch_absorbed: "absorbed sketch_ops (b_Events ex_batch) ex_aggregator = [ex_event, ex_event]"
  by (simp add: ex_simps ingestLocked_def heldWindows_def sketch_factory_def Let_def wrap64_def signed_divide_int_def ErrTooManyKeys_def)

theorem ingest_batch_accounting_witness:
  "fst (IngestBatch sketch_ops ex_batch ex_aggregator) = None \<and>
   wrap64 (held Bytes (\<lambda>_. True) (snd (IngestBatch sketch_ops ex_batch ex_aggregator))) = 10 \<and>
   wrap64 (2 + Shed (snd (IngestBatch sketch_ops ex_batch ex_aggregator))) = 3"
proof -
  have "held Bytes (\<lambda>_. True) ex_aggregator = 0"
    by (simp add: held_def held_open_def held_pending_def ex_aggregator_def)
  moreover have "amount Bytes (\<lambda>_. True) ex_aggregator [ex_event, ex_event] = 10" by (simp add: ex_event_def)
  moreover have "Batch_Len ex_batch = 3" "Shed ex_aggregator = 0"
    by (simp_all add: Batch_Len_def ex_batch_def Shed_def ex_aggregator_def)
  moreover have "wrap64 10 = 10" "wrap64 3 = 3" by (simp_all add: wrap64_def)
  ultimately show ?thesis
    using ingest_batch_accounting[OF ex_aggregator_ok(1,4) surjective_pairing, of sketch_ops ex_batch Bytes "\<lambda>_. True"]
      ex_batch_valid ex_batch_absorbed by simp
qed

text \<open>
  Property C14 (collection loses nothing). Collecting, whether by watermark or all, and even when the sketch
  implementation fails in the middle, changes no counter the aggregator holds and keeps the state well
  formed; committing some of the collected windows removes exactly their amounts.
\<close>

theorem collection_conserves:
  assumes "agg_inv a" and "sequence_room a" and "collect qs incl a = (r, a')"
  shows "held c P a' = held c P a \<and> agg_inv a' \<and>
    (\<forall>ws. distinct ws \<longrightarrow> set ws \<subseteq> snd ` set (ag_pending a') \<longrightarrow>
       held c P (Commit ws a') = held c P a - window_amount c P ws)"
  using collect_held[OF assms] Commit_held[of a' _ c P] by simp

definition ex_held :: "Sketch Aggregator" where
  "ex_held = snd (Ingest sketch_ops ex_event ex_aggregator)"

lemma ex_held_eq:
  "ex_held = ex_aggregator\<lparr>ag_open := [(WindowKey (CorrelationKey ''u'' ''d'' 1 ''p'') 2,
     \<lparr>ws_count = 1, ws_errorCount = 1, ws_bytes = 5, ws_sketch = sketch_Add 0 ex_sketch\<rparr>)]\<rparr>"
  by (simp add: ex_held_def Ingest_def Event_Validate_def EventKind_Valid_def eventKindNames_def ex_simps ingestLocked_def
      heldWindows_def sketch_factory_def Let_def wrap64_def signed_divide_int_def absorb_def sketch_ops_def IsZero_def zero_time_def)

lemma ex_held_ok: "agg_inv ex_held" "sequence_room ex_held"
  by (simp_all add: ex_held_eq agg_inv_def sequence_room_def ex_aggregator_def in_i64_def MinInt64_def MaxInt64_def)

theorem collection_conserves_witness:
  "held Bytes (\<lambda>_. True) (snd (CollectAll sketch_ops ex_held)) = 5"
proof -
  have "held Bytes (\<lambda>_. True) ex_held = 5"
    by (simp add: ex_held_eq held_def held_open_def held_pending_def ex_aggregator_def)
  with collection_conserves[OF ex_held_ok surjective_pairing, of Bytes "\<lambda>_. True" sketch_ops "\<lambda>_. True"]
  show ?thesis by (simp add: CollectAll_def)
qed

text \<open>
  Determinism. The windows a collection returns, and their order, are a function of the contents of the two
  maps: they do not depend on the order in which the runtime iterates over them. The same holds of the error.
\<close>

theorem collect_deterministic:
  assumes "agg_inv a" and "same_maps a b"
  shows "fst (collect qs incl a) = fst (collect qs incl b)"
proof -
  have "map_of (ag_open a) = map_of (ag_open b)"
    using assms by (intro map_of_mset_eq) (auto simp: agg_inv_def same_maps_def)
  moreover have "sort (filter incl (map fst (ag_open a))) = sort (filter incl (map fst (ag_open b)))"
    using assms(2) by (intro sort_mset_eq) (simp add: same_maps_def mset_filter)
  moreover have "sort_key Identity (map snd (ag_pending a)) = sort_key Identity (map snd (ag_pending b))"
    using assms(2) by (intro sort_key_mset_eq pending_inj_on[OF assms(1)]) (simp add: same_maps_def)
  ultimately show ?thesis
    using assms(2) by (auto simp: collect_def same_maps_def intro: collect_loop_cong)
qed

definition ex_two :: "Sketch Aggregator" where
  "ex_two = ex_held\<lparr>ag_open := ag_open ex_held @ [(WindowKey (CorrelationKey ''u'' ''d'' 1 ''p'') 1, snd (hd (ag_open ex_held)))]\<rparr>"

theorem collect_deterministic_witness:
  "fst (CollectAll sketch_ops (ex_two\<lparr>ag_open := rev (ag_open ex_two)\<rparr>)) = fst (CollectAll sketch_ops ex_two)"
proof -
  have "agg_inv ex_two" using ex_held_ok(1) by (simp add: ex_two_def ex_held_eq agg_inv_def)
  from collect_deterministic[OF this, of "ex_two\<lparr>ag_open := rev (ag_open ex_two)\<rparr>" sketch_ops "\<lambda>_. True"]
  show ?thesis by (simp add: same_maps_def CollectAll_def)
qed

lemma sketch_ops_total: "quantiles_total sketch_ops"
  by (simp add: quantiles_total_def sketch_ops_def sketch_Quantile_ok)

lemma wk_less_WindowID:
  assumes "0 < cfg_WindowSize (ag_config a)" and "0 \<le> t" and "in_i64 t" and "0 \<le> i" and "i < WindowID a t"
  shows "wrap64 (i * cfg_WindowSize (ag_config a)) + cfg_WindowSize (ag_config a) \<le> t"
proof -
  let ?s = "cfg_WindowSize (ag_config a)"
  have "(i + 1) * ?s \<le> WindowID a t * ?s" using assms(1,5) by (intro mult_right_mono) auto
  then have le: "i * ?s + ?s \<le> t" using WindowID_bounds(1)[OF assms(1-3)] by (simp add: algebra_simps)
  moreover have "0 \<le> i * ?s" using assms(1,4) by simp
  ultimately have "in_i64 (i * ?s)" using assms(1,3) by (auto simp: in_i64_def MinInt64_def)
  with le show ?thesis by simp
qed



text \<open>
  No early emission. A collection at a watermark succeeds; apart from the emissions that were already
  waiting, every window it returns ended by the watermark (windows of negative id are the ones of events
  from before 1970), and every open window that had not ended stays open.
\<close>

theorem watermark_closes_past_windows:
  assumes "agg_inv a" and "0 < cfg_WindowSize (ag_config a)" and "sequence_room a"
    and "0 \<le> watermark" and "in_i64 watermark" and "CollectWindowsBefore sketch_ops watermark a = (r, a')"
  shows "(\<exists>ws. r = Inr ws \<and>
      (\<forall>w \<in> set ws. w \<in> snd ` set (ag_pending a) \<or> w_WindowID w < 0 \<or> w_WindowEnd w \<le> watermark)) \<and>
    ag_open a' = filter (\<lambda>(key, _). WindowID a watermark \<le> wk_windowID key) (ag_open a)"
proof -
  let ?incl = "\<lambda>key. wk_windowID key < WindowID a watermark"
  let ?new = "emitted sketch_ops a (selected_keys ?incl a) (ag_sequence a)"
  have "w_WindowID v < 0 \<or> w_WindowEnd v \<le> watermark" if "v \<in> set ?new" for v
  proof -
    have "window_key v \<in> set (selected_keys ?incl a)"
      unfolding emitted_key_set[of sketch_ops a _ "ag_sequence a", symmetric] using that by (rule imageI)
    then have "w_WindowID v < WindowID a watermark" by (auto simp: selected_keys_def window_key_def)
    then show ?thesis
      using wk_less_WindowID[OF assms(2,4,5), of "w_WindowID v"] emitted_times[OF that] by linarith
  qed
  moreover have "r = Inr (sort_key Identity (map snd (ag_pending a)) @ ?new)" "a' = drained sketch_ops (selected_keys ?incl a) a"
    using assms(6) by (simp_all add: CollectWindowsBefore_def Let_def collect_ok(1)[OF sketch_ops_total assms(1,3)])
  ultimately show ?thesis by (auto simp: drained_open not_less)
qed

theorem watermark_closes_past_windows_witness:
  "ag_open (snd (CollectWindowsBefore sketch_ops 29 ex_held)) = ag_open ex_held \<and>
   ag_open (snd (CollectWindowsBefore sketch_ops 30 ex_held)) = []"
proof -
  have cfg: "cfg_WindowSize (ag_config ex_held) = 10" by (simp add: ex_held_eq ex_aggregator_def ex_config_def)
  then have size: "0 < cfg_WindowSize (ag_config ex_held)" by simp
  have "in_i64 29" "in_i64 30" by (simp_all add: in_i64_def MinInt64_def MaxInt64_def)
  moreover have "WindowID ex_held 29 = 2" "WindowID ex_held 30 = 3"
    by (simp_all add: WindowID_def cfg UnixNano_def wrap64_def signed_divide_int_def)
  moreover have "ag_open ex_held = [(WindowKey (CorrelationKey ''u'' ''d'' 1 ''p'') 2,
     \<lparr>ws_count = 1, ws_errorCount = 1, ws_bytes = 5, ws_sketch = sketch_Add 0 ex_sketch\<rparr>)]"
    by (simp add: ex_held_eq)
  ultimately show ?thesis
    using watermark_closes_past_windows[OF ex_held_ok(1) size ex_held_ok(2) _ _ surjective_pairing, of 29]
      watermark_closes_past_windows[OF ex_held_ok(1) size ex_held_ok(2) _ _ surjective_pairing, of 30] by simp
qed

section \<open>The WindowSource interface\<close>

text \<open>
  What the aggregator service consumes (\<^verbatim>\<open>WindowSource\<close> in \<^verbatim>\<open>internal/aggregator/service.go\<close>, with the
  optional \<^verbatim>\<open>shedReporter\<close>), and the contract it relies on: collected windows are the pending ones,
  collecting keeps every amount held, and only a commit lets go of a window.
\<close>

record 'a WindowSource =
  src_IngestBatch :: "Batch \<Rightarrow> 'a \<Rightarrow> error option \<times> 'a"
  src_CollectWindowsBefore :: "time \<Rightarrow> 'a \<Rightarrow> (error + AggregateWindow list) \<times> 'a"
  src_CollectAll :: "'a \<Rightarrow> (error + AggregateWindow list) \<times> 'a"
  src_Commit :: "AggregateWindow list \<Rightarrow> 'a \<Rightarrow> 'a"
  src_Shed :: "('a \<Rightarrow> int) option"

locale window_source =
  fixes src :: "'a WindowSource"
    and ok :: "'a \<Rightarrow> bool"
    and room :: "'a \<Rightarrow> bool"
    and pending :: "'a \<Rightarrow> AggregateWindow set"
    and amount_held :: "counter \<Rightarrow> (windowKey \<Rightarrow> bool) \<Rightarrow> 'a \<Rightarrow> int"
  assumes ingest_ok: "ok s \<Longrightarrow> src_IngestBatch src b s = (r, s') \<Longrightarrow> ok s' \<and> pending s' = pending s"
    and ingest_error: "ok s \<Longrightarrow> src_IngestBatch src b s = (Some err, s') \<Longrightarrow> ok s' \<and> amount_held c P s' = amount_held c P s"
    and collect_before_ok: "ok s \<Longrightarrow> room s \<Longrightarrow> src_CollectWindowsBefore src t s = (rs, s') \<Longrightarrow>
      ok s' \<and> amount_held c P s' = amount_held c P s \<and> pending s \<subseteq> pending s' \<and>
      (\<exists>ws. rs = Inr ws \<and> distinct ws \<and> set ws = pending s')"
    and collect_all_ok: "ok s \<Longrightarrow> room s \<Longrightarrow> src_CollectAll src s = (rs, s') \<Longrightarrow>
      ok s' \<and> amount_held c P s' = amount_held c P s \<and> pending s \<subseteq> pending s' \<and>
      (\<exists>ws. rs = Inr ws \<and> distinct ws \<and> set ws = pending s' \<and> amount_held c P s' = window_amount c P ws)"
    and commit_ok: "ok s \<Longrightarrow> distinct ws \<Longrightarrow> set ws \<subseteq> pending s \<Longrightarrow>
      ok (src_Commit src ws s) \<and> pending (src_Commit src ws s) = pending s - set ws \<and>
      amount_held c P (src_Commit src ws s) = amount_held c P s - window_amount c P ws"

definition aggregator_source :: "'s QuantileSketch \<Rightarrow> 's Aggregator WindowSource" where
  "aggregator_source qs =
     \<lparr>src_IngestBatch = IngestBatch qs, src_CollectWindowsBefore = CollectWindowsBefore qs,
      src_CollectAll = CollectAll qs, src_Commit = Commit, src_Shed = Some Shed\<rparr>"

definition source_ok :: "Sketch Aggregator \<Rightarrow> bool" where
  "source_ok a \<longleftrightarrow> agg_inv a \<and> (\<exists>sk. sketch_factory (ag_config a) = Inr sk)"

definition pending_windows :: "'s Aggregator \<Rightarrow> AggregateWindow set" where
  "pending_windows a = snd ` set (ag_pending a)"

lemma IngestBatch_frame:
  "IngestBatch qs b a = (r, a') \<Longrightarrow>
   ag_config a' = ag_config a \<and> ag_pending a' = ag_pending a \<and> ag_sequence a' = ag_sequence a"
  by (auto simp: IngestBatch_def dest: ingest_all_frame split: option.splits)

lemma IngestBatch_error:
  "source_ok a \<Longrightarrow> IngestBatch qs b a = (Some err, a') \<Longrightarrow> a' = a"
  by (auto simp: IngestBatch_def source_ok_def dest: ingest_all_shed split: option.splits)

lemma collect_source:
  assumes "source_ok a" and "sequence_room a" and "collect sketch_ops incl a = (r, a')"
  shows "source_ok a' \<and> held c P a' = held c P a \<and> pending_windows a \<subseteq> pending_windows a' \<and>
    (\<exists>ws. r = Inr ws \<and> distinct ws \<and> set ws = pending_windows a' \<and>
       ag_open a' = filter (\<lambda>(k, _). \<not> incl k) (ag_open a))"
proof -
  have inv: "agg_inv a" using assms(1) by (simp add: source_ok_def)
  have "ag_config a' = ag_config a" by (rule collect_config[OF assms(3)])
  with assms(1) collect_held(1)[OF inv assms(2,3)] have "source_ok a'" by (simp add: source_ok_def)
  moreover have "held c P a' = held c P a" by (rule collect_held(2)[OF inv assms(2,3)])
  ultimately show ?thesis
    by (rule_tac collect_windows_pending[OF sketch_ops_total inv assms(2,3)]) (auto simp: pending_windows_def)
qed

lemma held_all_pending:
  assumes "agg_inv a" and "ag_open a = []" and "distinct ws" and "set ws = pending_windows a"
  shows "held c P a = window_amount c P ws"
proof -
  have "pending_windows (Commit ws a) = {}"
    using Commit_snd[OF assms(1), of ws] assms(4) by (simp add: pending_windows_def)
  then have "held c P (Commit ws a) = 0"
    using assms(2) by (simp add: held_def held_open_def held_pending_def pending_windows_def)
  with Commit_held[OF assms(1) _ assms(3), of c P] assms(4) show ?thesis by (simp add: pending_windows_def)
qed

interpretation aggregator: window_source "aggregator_source sketch_ops" source_ok sequence_room pending_windows held
proof unfold_locales
  fix a a' :: "Sketch Aggregator" and r :: "error option" and b err c P
  assume ok: "source_ok a"
  { assume run: "src_IngestBatch (aggregator_source sketch_ops) b a = (r, a')"
    then have "IngestBatch sketch_ops b a = (r, a')" by (simp add: aggregator_source_def)
    with ok IngestBatch_inv IngestBatch_frame show "source_ok a' \<and> pending_windows a' = pending_windows a"
      by (fastforce simp: source_ok_def pending_windows_def) }
  { assume "src_IngestBatch (aggregator_source sketch_ops) b a = (Some err, a')"
    with IngestBatch_error[OF ok] ok show "source_ok a' \<and> held c P a' = held c P a"
      by (fastforce simp: aggregator_source_def) }
next
  fix a a' :: "Sketch Aggregator" and r t c P
  assume ok: "source_ok a" and room: "sequence_room a"
  { assume "src_CollectWindowsBefore (aggregator_source sketch_ops) t a = (r, a')"
    with collect_source[OF ok room] show "source_ok a' \<and> held c P a' = held c P a \<and> pending_windows a \<subseteq> pending_windows a' \<and>
        (\<exists>ws. r = Inr ws \<and> distinct ws \<and> set ws = pending_windows a')"
      by (fastforce simp: aggregator_source_def CollectWindowsBefore_def Let_def) }
  { assume "src_CollectAll (aggregator_source sketch_ops) a = (r, a')"
    then have run: "collect sketch_ops (\<lambda>_. True) a = (r, a')" by (simp add: aggregator_source_def CollectAll_def)
    note s = collect_source[OF ok room run, of c P]
    then obtain ws where ws: "r = Inr ws" "distinct ws" "set ws = pending_windows a'" "ag_open a' = []" by auto
    have "held c P a' = window_amount c P ws" by (rule held_all_pending) (use s ws in \<open>auto simp: source_ok_def\<close>)
    with s ws show "source_ok a' \<and> held c P a' = held c P a \<and> pending_windows a \<subseteq> pending_windows a' \<and>
        (\<exists>ws. r = Inr ws \<and> distinct ws \<and> set ws = pending_windows a' \<and> held c P a' = window_amount c P ws)"
      by blast }
next
  fix a :: "Sketch Aggregator" and ws c P
  assume "source_ok a" "distinct ws" "set ws \<subseteq> pending_windows a"
  then show "source_ok (src_Commit (aggregator_source sketch_ops) ws a) \<and>
      pending_windows (src_Commit (aggregator_source sketch_ops) ws a) = pending_windows a - set ws \<and>
      held c P (src_Commit (aggregator_source sketch_ops) ws a) = held c P a - window_amount c P ws"
    using Commit_inv[of a ws] Commit_snd[of a ws] Commit_held[of a ws c P]
    by (auto simp: aggregator_source_def source_ok_def pending_windows_def)
qed
end
