(* ===== verification/MemoryStore.thy ===== *)
theory MemoryStore
  imports Aggregator
begin

text \<open>
  The in-memory state store of \<^verbatim>\<open>internal/store/memory.go\<close> and \<^verbatim>\<open>watch.go\<close>: device records
  with deduplication of windows, the per-user index, the metric counters, and the watchers with
  their buffered channels. Every method holds the store's lock, so a call is one step.
  The lemmas show that a device's counters are the sums over the distinct windows
  applied, in whatever order and however often they were delivered, that a reset is not undone by a
  redelivery, and that no update is ever sent on a closed channel.
\<close>

section \<open>Data\<close>

definition ErrStoreDeviceNotFound :: error where
  [go_error_defs]: "ErrStoreDeviceNotFound = Wrap ''store'' ErrDeviceNotFound"

definition MetricWindowsApplied :: string where "MetricWindowsApplied = ''windows_applied''"
definition MetricWindowsDuplicate :: string where "MetricWindowsDuplicate = ''windows_duplicate''"
definition MetricEventsCounted :: string where "MetricEventsCounted = ''events_counted''"
definition MetricErrorsCounted :: string where "MetricErrorsCounted = ''errors_counted''"
definition MetricDeviceResets :: string where "MetricDeviceResets = ''device_resets''"
definition MetricWatchDropped :: string where "MetricWatchDropped = ''watch_updates_dropped''"

lemmas metric_name_defs = MetricWindowsApplied_def MetricWindowsDuplicate_def MetricEventsCounted_def
  MetricErrorsCounted_def MetricDeviceResets_def MetricWatchDropped_def

record deviceRecord =
  dr_state :: DeviceState
  dr_applied :: "string set"
  dr_percentileSample :: int

text \<open>
  A watcher is an object with identity, so watchers live in a store of their own, addressed by
  numbers. \<open>wt_updates\<close> is the content of its channel, of capacity \<open>watchBuffer\<close>, \<open>wt_chanClosed\<close>
  whether the channel is closed and \<open>wt_closed\<close> the struct's flag.
\<close>

record watcher =
  wt_updates :: "DeviceState list"
  wt_chanClosed :: bool
  wt_closed :: bool

definition watchBuffer :: nat where "watchBuffer = 8"

text \<open>
  \<open>mem_byUser u\<close> lists the keys of the inner map of \<open>u\<close>, in iteration order. \<open>mem_panicked\<close> records
  that the runtime would have panicked, which sending on or closing a closed channel does.
\<close>

record Memory =
  mem_devices :: "string \<rightharpoonup> deviceRecord"
  mem_byUser :: "string \<rightharpoonup> string list"
  mem_metrics :: "string \<rightharpoonup> int"
  mem_watchers :: "string \<rightharpoonup> nat list"
  mem_heap :: "watcher list"
  mem_panicked :: bool

definition NewMemory :: Memory where
  "NewMemory = \<lparr>mem_devices = Map.empty, mem_byUser = Map.empty, mem_metrics = Map.empty, mem_watchers = Map.empty,
     mem_heap = [], mem_panicked = False\<rparr>"

definition deviceKey :: "string \<Rightarrow> string \<Rightarrow> string" where
  "deviceKey userID deviceID = ''{'' @ userID @ ''}:'' @ deviceID"

section \<open>Metrics\<close>

definition metric :: "Memory \<Rightarrow> string \<Rightarrow> int" where
  "metric m name = (case mem_metrics m name of Some v \<Rightarrow> v | None \<Rightarrow> 0)"

definition Increment :: "string \<Rightarrow> int \<Rightarrow> Memory \<Rightarrow> Memory" where
  "Increment name delta m = m\<lparr>mem_metrics := (mem_metrics m)(name \<mapsto> wrap64 (metric m name + delta))\<rparr>"

definition PipelineMetrics :: "ctx \<Rightarrow> Memory \<Rightarrow> error + (string \<rightharpoonup> int)" where
  "PipelineMetrics ctx m = (case ctx of Some err \<Rightarrow> Inl err | None \<Rightarrow> Inr (mem_metrics m))"

section \<open>Watching\<close>

definition send_or_drop :: "DeviceState \<Rightarrow> nat \<Rightarrow> Memory \<Rightarrow> Memory" where
  "send_or_drop state i m =
     (let w = mem_heap m ! i
      in if wt_chanClosed w then m\<lparr>mem_panicked := True\<rparr>
         else if length (wt_updates w) < watchBuffer
         then m\<lparr>mem_heap := (mem_heap m)[i := w\<lparr>wt_updates := wt_updates w @ [state]\<rparr>]\<rparr>
         else Increment MetricWatchDropped 1 m)"

definition notify :: "string \<Rightarrow> DeviceState \<Rightarrow> Memory \<Rightarrow> Memory" where
  "notify key state m =
     (case mem_watchers m key of None \<Rightarrow> m | Some subs \<Rightarrow> fold (send_or_drop state) subs m)"

text \<open>
  \<open>WatchDevice\<close> also starts a goroutine that waits for the context and then calls \<open>unwatch\<close>: a later step.
\<close>

definition WatchDevice :: "ctx \<Rightarrow> string \<Rightarrow> string \<Rightarrow> Memory \<Rightarrow> (error + nat) \<times> Memory" where
  "WatchDevice ctx userID deviceID m =
     (case ctx of Some err \<Rightarrow> (Inl err, m)
      | None \<Rightarrow>
          if userID = [] \<or> deviceID = [] then (Inl ErrStoreDeviceNotFound, m)
          else let i = length (mem_heap m);
                   key = deviceKey userID deviceID;
                   subs = (case mem_watchers m key of Some l \<Rightarrow> l | None \<Rightarrow> [])
               in (Inr i, m\<lparr>mem_heap := mem_heap m @ [\<lparr>wt_updates = [], wt_chanClosed = False, wt_closed = False\<rparr>],
                            mem_watchers := (mem_watchers m)(key \<mapsto> subs @ [i])\<rparr>))"

definition unwatch :: "string \<Rightarrow> nat \<Rightarrow> Memory \<Rightarrow> Memory" where
  "unwatch key i m =
     (let existing = (case mem_watchers m key of Some l \<Rightarrow> l | None \<Rightarrow> []);
          remaining = filter (\<lambda>j. j \<noteq> i) existing;
          m1 = (if remaining = [] then m\<lparr>mem_watchers := (mem_watchers m)(key := None)\<rparr>
                else m\<lparr>mem_watchers := (mem_watchers m)(key \<mapsto> remaining)\<rparr>);
          w = mem_heap m1 ! i
      in if \<not> wt_closed w
         then m1\<lparr>mem_heap := (mem_heap m1)[i := w\<lparr>wt_closed := True, wt_chanClosed := True\<rparr>],
                 mem_panicked := mem_panicked m1 \<or> wt_chanClosed w\<rparr>
         else m1)"

text \<open>The subscriber's receive, when an update is buffered.\<close>

definition receive :: "nat \<Rightarrow> Memory \<Rightarrow> (DeviceState \<times> Memory) option" where
  "receive i m =
     (if i < length (mem_heap m) then
        (case wt_updates (mem_heap m ! i) of
           [] \<Rightarrow> None
         | s # rest \<Rightarrow> Some (s, m\<lparr>mem_heap := (mem_heap m)[i := (mem_heap m ! i)\<lparr>wt_updates := rest\<rparr>]\<rparr>))
      else None)"

section \<open>Device records\<close>

definition new_record :: "string \<Rightarrow> string \<Rightarrow> deviceRecord" where
  "new_record userID deviceID =
     \<lparr>dr_state = zero_DeviceState\<lparr>ds_UserID := userID, ds_DeviceID := deviceID\<rparr>,
      dr_applied = {}, dr_percentileSample = 0\<rparr>"

definition register :: "string \<Rightarrow> string \<Rightarrow> Memory \<Rightarrow> Memory" where
  "register userID deviceID m =
     (let known = (case mem_byUser m userID of Some l \<Rightarrow> l | None \<Rightarrow> [])
      in m\<lparr>mem_byUser := (mem_byUser m)(userID \<mapsto> (if deviceID \<in> set known then known else known @ [deviceID]))\<rparr>)"

definition find_record :: "string \<Rightarrow> string \<Rightarrow> Memory \<Rightarrow> deviceRecord \<times> Memory" where
  "find_record userID deviceID m =
     (case mem_devices m (deviceKey userID deviceID) of
        Some record \<Rightarrow> (record, m)
      | None \<Rightarrow>
          let record = new_record userID deviceID
          in (record, register userID deviceID
                (m\<lparr>mem_devices := (mem_devices m)(deviceKey userID deviceID \<mapsto> record)\<rparr>)))"

definition add_counters :: "AggregateWindow \<Rightarrow> DeviceState \<Rightarrow> DeviceState" where
  "add_counters w s =
     s\<lparr>ds_Count := wrap64 (ds_Count s + w_Count w),
       ds_ErrorCount := wrap64 (ds_ErrorCount s + w_ErrorCount w),
       ds_Bytes := wrap64 (ds_Bytes s + w_Bytes w)\<rparr>"

definition take_latest :: "AggregateWindow \<Rightarrow> deviceRecord \<Rightarrow> deviceRecord" where
  "take_latest w record =
     (let s = dr_state record in
      if ds_LastWindowID s < w_WindowID w
      then record\<lparr>dr_state := s\<lparr>ds_LastWindowID := w_WindowID w, ds_P95Nanos := w_P95Nanos w,
                                ds_P99Nanos := w_P99Nanos w, ds_LastSeen := w_WindowEnd w\<rparr>,
                  dr_percentileSample := w_Count w\<rparr>
      else if w_WindowID w = ds_LastWindowID s
      then let record1 = (if dr_percentileSample record < w_Count w
                          then record\<lparr>dr_state := s\<lparr>ds_P95Nanos := w_P95Nanos w, ds_P99Nanos := w_P99Nanos w\<rparr>,
                                      dr_percentileSample := w_Count w\<rparr>
                          else record);
               s1 = dr_state record1
           in if ds_LastSeen s1 < w_WindowEnd w
              then record1\<lparr>dr_state := s1\<lparr>ds_LastSeen := w_WindowEnd w\<rparr>\<rparr>
              else record1
      else record)"

definition apply_to_record :: "AggregateWindow \<Rightarrow> deviceRecord \<Rightarrow> deviceRecord" where
  "apply_to_record w record =
     take_latest w (record\<lparr>dr_applied := insert (Identity w) (dr_applied record),
                          dr_state := add_counters w (dr_state record)\<rparr>)"

definition ApplyWindow :: "ctx \<Rightarrow> AggregateWindow \<Rightarrow> Memory \<Rightarrow> error option \<times> Memory" where
  "ApplyWindow ctx w m =
     (case ctx of Some err \<Rightarrow> (Some err, m)
      | None \<Rightarrow>
          let key = deviceKey (ck_UserID (w_Key w)) (ck_DeviceID (w_Key w));
              (record, m1) = find_record (ck_UserID (w_Key w)) (ck_DeviceID (w_Key w)) m
          in if Identity w \<in> dr_applied record then (None, Increment MetricWindowsDuplicate 1 m1)
             else let record' = apply_to_record w record;
                      m2 = m1\<lparr>mem_devices := (mem_devices m1)(key \<mapsto> record')\<rparr>;
                      m3 = Increment MetricWindowsApplied 1 m2;
                      m4 = Increment MetricEventsCounted (w_Count w) m3;
                      m5 = Increment MetricErrorsCounted (w_ErrorCount w) m4
                  in (None, notify key (dr_state record') m5))"

definition reset_record :: "deviceRecord \<Rightarrow> deviceRecord" where
  "reset_record record =
     record\<lparr>dr_state := (dr_state record)\<lparr>ds_Count := 0, ds_ErrorCount := 0, ds_Bytes := 0, ds_P95Nanos := 0, ds_P99Nanos := 0\<rparr>,
            dr_percentileSample := 0\<rparr>"

definition ResetDevice :: "ctx \<Rightarrow> string \<Rightarrow> string \<Rightarrow> Memory \<Rightarrow> error option \<times> Memory" where
  "ResetDevice ctx userID deviceID m =
     (case ctx of Some err \<Rightarrow> (Some err, m)
      | None \<Rightarrow>
          let key = deviceKey userID deviceID
          in case mem_devices m key of
               None \<Rightarrow> (Some ErrStoreDeviceNotFound, m)
             | Some record \<Rightarrow>
                 let record' = reset_record record;
                     m1 = Increment MetricDeviceResets 1 (m\<lparr>mem_devices := (mem_devices m)(key \<mapsto> record')\<rparr>)
                 in (None, notify key (dr_state record') m1))"

definition Memory_DeviceState :: "ctx \<Rightarrow> string \<Rightarrow> string \<Rightarrow> Memory \<Rightarrow> error + DeviceState" where
  "Memory_DeviceState ctx userID deviceID m =
     (case ctx of Some err \<Rightarrow> Inl err
      | None \<Rightarrow> (case mem_devices m (deviceKey userID deviceID) of
                   None \<Rightarrow> Inl ErrStoreDeviceNotFound
                 | Some record \<Rightarrow> Inr (dr_state record)))"

definition UserDevices :: "ctx \<Rightarrow> string \<Rightarrow> Memory \<Rightarrow> error + DeviceListing" where
  "UserDevices ctx userID m =
     (case ctx of Some err \<Rightarrow> Inl err
      | None \<Rightarrow> Inr \<lparr>dl_Devices = sort (case mem_byUser m userID of Some l \<Rightarrow> l | None \<Rightarrow> []), dl_Stale = False\<rparr>)"

section \<open>Notifications touch only the channels and a metric\<close>

lemma Increment_frame [simp]:
  "mem_devices (Increment n d m) = mem_devices m" "mem_byUser (Increment n d m) = mem_byUser m"
  "mem_watchers (Increment n d m) = mem_watchers m" "mem_heap (Increment n d m) = mem_heap m"
  "mem_panicked (Increment n d m) = mem_panicked m"
  by (simp_all add: Increment_def)

lemma metric_Increment: "metric (Increment n d m) k = (if k = n then wrap64 (metric m n + d) else metric m k)"
  by (simp add: Increment_def metric_def)

lemma send_or_drop_frame [simp]:
  "mem_devices (send_or_drop s i m) = mem_devices m" "mem_byUser (send_or_drop s i m) = mem_byUser m"
  "mem_watchers (send_or_drop s i m) = mem_watchers m" "length (mem_heap (send_or_drop s i m)) = length (mem_heap m)"
  by (simp_all add: send_or_drop_def Let_def)

lemma fold_send_frame [simp]:
  "mem_devices (fold (send_or_drop s) js m) = mem_devices m" "mem_byUser (fold (send_or_drop s) js m) = mem_byUser m"
  "mem_watchers (fold (send_or_drop s) js m) = mem_watchers m"
  "length (mem_heap (fold (send_or_drop s) js m)) = length (mem_heap m)"
  by (induction js arbitrary: m) simp_all

lemma notify_frame [simp]:
  "mem_devices (notify k s m) = mem_devices m" "mem_byUser (notify k s m) = mem_byUser m"
  "mem_watchers (notify k s m) = mem_watchers m" "length (mem_heap (notify k s m)) = length (mem_heap m)"
  by (simp_all add: notify_def split: option.split)

lemma register_frame [simp]:
  "mem_devices (register u d m) = mem_devices m" "mem_watchers (register u d m) = mem_watchers m"
  "mem_heap (register u d m) = mem_heap m" "mem_panicked (register u d m) = mem_panicked m"
  "mem_metrics (register u d m) = mem_metrics m"
  by (simp_all add: register_def Let_def)

section \<open>The StateWriter contract\<close>

definition dkey :: "AggregateWindow \<Rightarrow> string" where
  "dkey w = deviceKey (ck_UserID (w_Key w)) (ck_DeviceID (w_Key w))"

text \<open>
  What the persister relies on, of any store: a live write succeeds, records the window's identity under its
  device, and adds the window's counters exactly when the identity was new; a cancelled write changes
  nothing.
\<close>

locale state_writer =
  fixes put :: "ctx \<Rightarrow> AggregateWindow \<Rightarrow> 's \<Rightarrow> error option \<times> 's"
    and total :: "counter \<Rightarrow> string \<Rightarrow> 's \<Rightarrow> int"
    and applied :: "string \<Rightarrow> 's \<Rightarrow> string set"
  assumes write_cancelled: "put (Some err) w s = (Some err, s)"
    and write_live: "fst (put None w s) = None"
    and applied_write: "applied k (snd (put None w s)) = (if k = dkey w then insert (Identity w) (applied k s) else applied k s)"
    and total_write: "total c k (snd (put None w s)) =
      (if k = dkey w \<and> Identity w \<notin> applied k s then wrap64 (total c k s + of_window c w) else total c k s)"
begin

definition deliver :: "AggregateWindow list \<Rightarrow> 's \<Rightarrow> 's" where
  "deliver ws s = fold (\<lambda>w s. snd (put None w s)) ws s"

definition fresh :: "string \<Rightarrow> AggregateWindow set \<Rightarrow> 's \<Rightarrow> AggregateWindow set" where
  "fresh k W s = {w \<in> W. dkey w = k \<and> Identity w \<notin> applied k s}"

lemma deliver_applied: "applied k (deliver ws s) = applied k s \<union> Identity ` {w \<in> set ws. dkey w = k}"
  by (induction ws arbitrary: s) (auto simp: deliver_def applied_write)

lemma fresh_step:
  assumes "inj_on Identity {w \<in> set (v # ws). dkey w = k}"
  shows "fresh k (set (v # ws)) s =
      (if dkey v = k \<and> Identity v \<notin> applied k s then insert v (fresh k (set ws) (snd (put None v s)))
       else fresh k (set ws) (snd (put None v s)))"
    and "dkey v = k \<Longrightarrow> v \<notin> fresh k (set ws) (snd (put None v s))"
  using assms by (auto simp: fresh_def applied_write inj_on_def)

lemma deliver_total:
  assumes "inj_on Identity {w \<in> set ws. dkey w = k}"
  shows "wrap64 (total c k (deliver ws s)) = wrap64 (total c k s + sum (of_window c) (fresh k (set ws) s))"
  using assms
proof (induction ws arbitrary: s)
  case Nil
  then show ?case by (simp add: deliver_def fresh_def)
next
  case (Cons v ws)
  let ?s = "snd (put None v s)"
  have "inj_on Identity {w \<in> set ws. dkey w = k}"
    using Cons.prems by (rule inj_on_subset) auto
  note IH = Cons.IH[OF this, of ?s]
  have fin: "finite (fresh k (set ws) ?s)" by (simp add: fresh_def)
  have step: "deliver (v # ws) s = deliver ws ?s" by (simp add: deliver_def)
  show ?case
  proof (cases "dkey v = k \<and> Identity v \<notin> applied k s")
    case True
    have "sum (of_window c) (fresh k (set (v # ws)) s) = of_window c v + sum (of_window c) (fresh k (set ws) ?s)"
      unfolding fresh_step(1)[OF Cons.prems] using True fin fresh_step(2)[OF Cons.prems] by simp
    with True IH show ?thesis by (simp add: step total_write wrap_simps algebra_simps)
  next
    case False
    with IH show ?thesis
      unfolding fresh_step(1)[OF Cons.prems] by (simp add: step total_write) (metis)
  qed
qed

text \<open>Redelivering what was delivered changes no counter.\<close>

lemma redeliver_total:
  assumes "set vs \<subseteq> set ws"
  shows "total c k (deliver vs (deliver ws s)) = total c k (deliver ws s)"
  using assms
proof (induction vs arbitrary: ws)
  case Nil
  then show ?case by (simp add: deliver_def)
next
  case (Cons v vs)
  have snoc: "snd (put None v (deliver ws s)) = deliver (ws @ [v]) s" by (simp add: deliver_def)
  have "deliver (v # vs) (deliver ws s) = deliver vs (deliver (ws @ [v]) s)"
    by (simp add: deliver_def)
  moreover have "total c k (deliver vs (deliver (ws @ [v]) s)) = total c k (deliver (ws @ [v]) s)"
    by (rule Cons.IH) (use Cons.prems in auto)
  moreover have "total c k (deliver (ws @ [v]) s) = total c k (deliver ws s)"
    using Cons.prems by (auto simp: total_write deliver_applied simp flip: snoc)
  ultimately show ?case by simp
qed

end

section \<open>The memory store fulfils it\<close>

fun of_device :: "counter \<Rightarrow> DeviceState \<Rightarrow> int" where
  "of_device Events s = ds_Count s"
| "of_device Errors s = ds_ErrorCount s"
| "of_device Bytes s = ds_Bytes s"

definition dev_total :: "counter \<Rightarrow> string \<Rightarrow> Memory \<Rightarrow> int" where
  "dev_total c k m = (case mem_devices m k of Some r \<Rightarrow> of_device c (dr_state r) | None \<Rightarrow> 0)"

definition dev_applied :: "string \<Rightarrow> Memory \<Rightarrow> string set" where
  "dev_applied k m = (case mem_devices m k of Some r \<Rightarrow> dr_applied r | None \<Rightarrow> {})"

definition record_of :: "AggregateWindow \<Rightarrow> Memory \<Rightarrow> deviceRecord" where
  "record_of w m = (case mem_devices m (dkey w) of Some r \<Rightarrow> r | None \<Rightarrow> new_record (ck_UserID (w_Key w)) (ck_DeviceID (w_Key w)))"

lemma of_device_take_latest [simp]: "of_device c (dr_state (take_latest w r)) = of_device c (dr_state r)"
  by (cases c) (simp_all add: take_latest_def Let_def)

lemma dr_applied_take_latest [simp]: "dr_applied (take_latest w r) = dr_applied r"
  by (simp add: take_latest_def Let_def)

lemma of_device_add_counters [simp]: "of_device c (add_counters w s) = wrap64 (of_device c s + of_window c w)"
  by (cases c) (simp_all add: add_counters_def)

lemma of_device_apply: "of_device c (dr_state (apply_to_record w r)) = wrap64 (of_device c (dr_state r) + of_window c w)"
  by (simp add: apply_to_record_def)

lemma dr_applied_apply [simp]: "dr_applied (apply_to_record w r) = insert (Identity w) (dr_applied r)"
  by (simp add: apply_to_record_def)

text \<open>One live write, seen on the device records.\<close>

lemma ApplyWindow_devices:
  "mem_devices (snd (ApplyWindow None w m)) =
     (mem_devices m)(dkey w \<mapsto> (if Identity w \<in> dr_applied (record_of w m) then record_of w m else apply_to_record w (record_of w m)))"
  by (auto simp: ApplyWindow_def find_record_def dkey_def record_of_def Let_def split: option.split)

lemma new_record_simps [simp]: "dr_applied (new_record u d) = {}" "of_device c (dr_state (new_record u d)) = 0"
  by (simp_all add: new_record_def zero_DeviceState_def) (cases c, simp_all)

interpretation memory: state_writer ApplyWindow dev_total dev_applied
proof unfold_locales
  fix err w and m :: Memory and k c
  show "ApplyWindow (Some err) w m = (Some err, m)" by (simp add: ApplyWindow_def)
  show "fst (ApplyWindow None w m) = None" by (simp add: ApplyWindow_def Let_def case_prod_unfold)
  show "dev_applied k (snd (ApplyWindow None w m)) = (if k = dkey w then insert (Identity w) (dev_applied k m) else dev_applied k m)"
    by (auto simp: dev_applied_def ApplyWindow_devices record_of_def split: option.split)
  show "dev_total c k (snd (ApplyWindow None w m)) =
      (if k = dkey w \<and> Identity w \<notin> dev_applied k m then wrap64 (dev_total c k m + of_window c w) else dev_total c k m)"
    by (auto simp: dev_total_def dev_applied_def ApplyWindow_devices record_of_def of_device_apply split: option.split)
qed

section \<open>The latest window\<close>

text \<open>
  \<open>latest W r\<close>: the record \<open>r\<close> shows the greatest window id of \<open>W\<close>, the latest end among the windows with that id, and the
  percentiles of one of them that has the largest count. Negative ids never replace the initial 0.
\<close>

definition latest :: "AggregateWindow set \<Rightarrow> deviceRecord \<Rightarrow> bool" where
  "latest W r \<longleftrightarrow>
     (let s = dr_state r; L = ds_LastWindowID s in
      0 \<le> L \<and> (\<forall>w \<in> W. w_WindowID w \<le> L) \<and>
      (\<forall>w \<in> W. w_WindowID w = L \<longrightarrow> w_Count w \<le> dr_percentileSample r \<and> w_WindowEnd w \<le> ds_LastSeen s) \<and>
      (0 < L \<longrightarrow>
        (\<exists>w \<in> W. w_WindowID w = L \<and> w_Count w = dr_percentileSample r \<and> w_P95Nanos w = ds_P95Nanos s \<and> w_P99Nanos w = ds_P99Nanos s) \<and>
        (\<exists>w \<in> W. w_WindowID w = L \<and> w_WindowEnd w = ds_LastSeen s)))"

lemma latest_new: "latest {} (new_record u d)"
  by (simp add: latest_def new_record_def zero_DeviceState_def Let_def)

lemma latest_take: "latest W r \<Longrightarrow> latest (insert w W) (take_latest w r)"
  unfolding latest_def take_latest_def Let_def by (auto simp: not_less dest: order_trans)

lemma latest_frame:
  "latest W r \<Longrightarrow> latest W (r\<lparr>dr_applied := A, dr_state := add_counters w (dr_state r)\<rparr>)"
  by (simp add: latest_def add_counters_def Let_def)

lemma latest_apply: "latest W r \<Longrightarrow> latest (insert w W) (apply_to_record w r)"
  unfolding apply_to_record_def by (intro latest_take latest_frame)

definition deliver_all :: "AggregateWindow list \<Rightarrow> Memory \<Rightarrow> Memory" where
  "deliver_all ws m = fold (\<lambda>w m. snd (ApplyWindow None w m)) ws m"

lemma deliver_all_memory: "deliver_all = memory.deliver"
  by (simp add: fun_eq_iff deliver_all_def memory.deliver_def)

definition latest_at :: "string \<Rightarrow> AggregateWindow list \<Rightarrow> Memory \<Rightarrow> bool" where
  "latest_at k ws m \<longleftrightarrow> (\<forall>r. mem_devices m k = Some r \<longrightarrow> latest {w \<in> set ws. dkey w = k} r)"

lemma latest_at_step:
  assumes "latest_at k ws m" and "inj_on Identity {v \<in> set (w # ws). dkey v = k}"
    and "dev_applied k m = Identity ` {v \<in> set ws. dkey v = k}"
    and "mem_devices m k = None \<Longrightarrow> {v \<in> set ws. dkey v = k} = {}"
  shows "latest_at k (w # ws) (snd (ApplyWindow None w m))"
proof (cases "dkey w = k")
  case False
  then have "{v. (v = w \<or> v \<in> set ws) \<and> dkey v = k} = {v \<in> set ws. dkey v = k}" by auto
  with False assms(1) show ?thesis by (auto simp: latest_at_def ApplyWindow_devices)
next
  case True
  let ?W = "{v \<in> set ws. dkey v = k}" and ?r = "record_of w m"
  have l: "latest ?W ?r"
  proof (cases "mem_devices m k")
    case None
    with assms(4) True have "?W = {}" "?r = new_record (ck_UserID (w_Key w)) (ck_DeviceID (w_Key w))"
      by (simp_all add: record_of_def)
    then show ?thesis using latest_new by metis
  next
    case (Some r)
    with assms(1) True show ?thesis by (simp add: latest_at_def record_of_def)
  qed
  have ins: "{v \<in> set (w # ws). dkey v = k} = insert w ?W" using True by auto
  have "dr_applied ?r = Identity ` ?W"
    using assms(3) True by (auto simp: dev_applied_def record_of_def split: option.splits)
  then have known: "w \<in> ?W" if "Identity w \<in> dr_applied ?r"
    using that assms(2) unfolding ins by (auto simp: inj_on_def)
  show ?thesis
    unfolding latest_at_def ins using True l latest_apply[OF l, of w] known
    by (auto simp: ApplyWindow_devices insert_absorb)
qed

lemma deliver_all_latest:
  assumes "inj_on Identity {w \<in> set ws. dkey w = k}"
  shows "latest_at k ws (deliver_all (rev ws) NewMemory) \<and>
    (mem_devices (deliver_all (rev ws) NewMemory) k = None \<longrightarrow> {v \<in> set ws. dkey v = k} = {})"
  using assms
proof (induction ws)
  case Nil
  then show ?case by (simp add: deliver_all_def latest_at_def NewMemory_def)
next
  case (Cons w ws)
  let ?m = "deliver_all (rev ws) NewMemory"
  have "inj_on Identity {v \<in> set ws. dkey v = k}"
    using Cons.prems by (rule inj_on_subset) auto
  note IH = Cons.IH[OF this]
  have app: "dev_applied k ?m = Identity ` {v \<in> set ws. dkey v = k}"
    unfolding deliver_all_memory memory.deliver_applied by (simp add: dev_applied_def NewMemory_def)
  have "latest_at k (w # ws) (snd (ApplyWindow None w ?m))"
    by (rule latest_at_step) (use IH Cons.prems app in auto)
  moreover have "deliver_all (rev (w # ws)) NewMemory = snd (ApplyWindow None w ?m)"
    by (simp add: deliver_all_def)
  ultimately show ?case
    using IH by (auto simp: ApplyWindow_devices split: if_splits)
qed

section \<open>Properties of the device records\<close>

definition ex_window :: "string \<Rightarrow> int \<Rightarrow> int \<Rightarrow> AggregateWindow" where
  "ex_window u i seq = \<lparr>w_Key = CorrelationKey u ''d'' 1 ''p'', w_WindowID = i, w_Sequence = seq, w_WindowStart = i * 10,
     w_WindowEnd = i * 10 + 10, w_Count = 3, w_ErrorCount = 1, w_Bytes = 100, w_P95Nanos = 7, w_P99Nanos = 9, w_MaxNanos = 9\<rparr>"

lemma Identity_inj_on:
  assumes "\<And>v w. v \<in> W \<Longrightarrow> w \<in> W \<Longrightarrow> w_Sequence v = w_Sequence w \<Longrightarrow> v = w"
  shows "inj_on Identity W"
  by (rule inj_onI) (meson assms Identity_suffix_inj)

text \<open>
  Property C3 (exactly-once counting). Deliver windows to an empty store in any order and any number of times: if
  the distinct windows of a device carry distinct identities, each counter of the device is the sum over
  the distinct windows (in 64-bit arithmetic), as if each had been delivered exactly once.
\<close>

theorem memory_exactly_once:
  assumes "inj_on Identity {w \<in> set ws. dkey w = k}"
  shows "wrap64 (dev_total c k (deliver_all ws NewMemory)) = wrap64 (\<Sum>w \<in> {w \<in> set ws. dkey w = k}. of_window c w)"
  using memory.deliver_total[OF assms, of c NewMemory]
  by (simp add: deliver_all_memory memory.fresh_def dev_total_def dev_applied_def NewMemory_def)

theorem memory_exactly_once_witness:
  "wrap64 (dev_total Bytes (deviceKey ''u'' ''d'')
     (deliver_all [ex_window ''u'' 2 1, ex_window ''v'' 2 3, ex_window ''u'' 1 2, ex_window ''u'' 2 1] NewMemory)) = 200"
proof -
  let ?ws = "[ex_window ''u'' 2 1, ex_window ''v'' 2 3, ex_window ''u'' 1 2, ex_window ''u'' 2 1]"
  have set: "{w \<in> set ?ws. dkey w = deviceKey ''u'' ''d''} = {ex_window ''u'' 2 1, ex_window ''u'' 1 2}"
    by (auto simp: dkey_def ex_window_def deviceKey_def)
  have "inj_on Identity {w \<in> set ?ws. dkey w = deviceKey ''u'' ''d''}"
    unfolding set by (rule Identity_inj_on) (auto simp: ex_window_def)
  from memory_exactly_once[OF this, of Bytes] show ?thesis
    unfolding set by (simp add: ex_window_def wrap64_def)
qed

text \<open>
  Latest window. After any deliveries to an empty store, the record of a device shows the greatest window id delivered (at
  least 0), the latest end among the windows of that id, and the percentiles of one of them with the
  largest count, whatever the order and the repetitions.
\<close>

theorem memory_latest_window:
  assumes "inj_on Identity {w \<in> set ws. dkey w = k}" and "mem_devices (deliver_all ws NewMemory) k = Some r"
  shows "latest {w \<in> set ws. dkey w = k} r"
  using deliver_all_latest[of "rev ws" k] assms by (simp add: latest_at_def)

theorem memory_latest_window_witness:
  "\<exists>r. mem_devices (deliver_all [ex_window ''u'' 2 1, ex_window ''u'' 1 2] NewMemory) (deviceKey ''u'' ''d'') = Some r \<and>
     ds_LastWindowID (dr_state r) = 2 \<and> latest {ex_window ''u'' 2 1, ex_window ''u'' 1 2} r"
proof -
  let ?ws = "[ex_window ''u'' 2 1, ex_window ''u'' 1 2]"
  have set: "{w \<in> set ?ws. dkey w = deviceKey ''u'' ''d''} = {ex_window ''u'' 2 1, ex_window ''u'' 1 2}"
    by (auto simp: dkey_def ex_window_def)
  have inj: "inj_on Identity {w \<in> set ?ws. dkey w = deviceKey ''u'' ''d''}"
    unfolding set by (rule Identity_inj_on) (auto simp: ex_window_def)
  obtain r where r: "mem_devices (deliver_all ?ws NewMemory) (deviceKey ''u'' ''d'') = Some r"
    by (simp add: deliver_all_def ApplyWindow_devices dkey_def ex_window_def)
  from memory_latest_window[OF inj r] have l: "latest {ex_window ''u'' 2 1, ex_window ''u'' 1 2} r"
    unfolding set .
  then have "ds_LastWindowID (dr_state r) = 2" by (auto simp: latest_def Let_def ex_window_def)
  with r l show ?thesis by blast
qed

lemma ResetDevice_ok:
  assumes "ResetDevice None u d m = (r, m')"
  shows "(r = None \<longleftrightarrow> mem_devices m (deviceKey u d) \<noteq> None) \<and> (r \<noteq> None \<longrightarrow> r = Some ErrStoreDeviceNotFound \<and> m' = m)"
    and "r = None \<Longrightarrow> mem_devices m' = (mem_devices m)(deviceKey u d := map_option reset_record (mem_devices m (deviceKey u d)))"
  using assms by (auto simp: ResetDevice_def Let_def split: option.splits)

lemma of_device_reset [simp]: "of_device c (dr_state (reset_record r)) = 0"
  by (cases c) (simp_all add: reset_record_def)

lemma dr_applied_reset [simp]: "dr_applied (reset_record r) = dr_applied r"
  by (simp add: reset_record_def)

text \<open>
  Property C32 (a reset is final). Resetting a known device succeeds and zeroes its counters, and redelivering windows the store had
  already applied, which at-least-once delivery may do at any time, leaves them at zero: the reset keeps the record of
  applied identities.
\<close>

theorem reset_survives_redelivery:
  assumes "ResetDevice None u d (deliver_all ws m) = (None, m')" and "set vs \<subseteq> set ws"
  shows "dev_total c (deviceKey u d) (deliver_all vs m') = 0"
proof -
  let ?k = "deviceKey u d"
  have dev: "mem_devices m' = (mem_devices (deliver_all ws m))(?k := map_option reset_record (mem_devices (deliver_all ws m) ?k))"
    and some: "mem_devices (deliver_all ws m) ?k \<noteq> None"
    using ResetDevice_ok[OF assms(1)] by auto
  have zero: "dev_total c ?k m' = 0" using some by (auto simp: dev_total_def dev)
  have app: "dev_applied ?k m' = dev_applied ?k (deliver_all ws m)"
    using some by (auto simp: dev_applied_def dev)
  have step: "dev_total c ?k (deliver_all vs n) = 0"
    if "dev_total c ?k n = 0" and "\<forall>v \<in> set vs. dkey v = ?k \<longrightarrow> Identity v \<in> dev_applied ?k n" for n
    using that
  proof (induction vs arbitrary: n)
    case (Cons v vs)
    then have "dev_total c ?k (deliver_all vs (snd (ApplyWindow None v n))) = 0"
      by (intro Cons.IH) (auto simp: memory.total_write memory.applied_write)
    then show ?case by (simp add: deliver_all_def)
  qed (simp add: deliver_all_def)
  show ?thesis
    by (rule step[OF zero]) (use assms(2) in \<open>auto simp: app deliver_all_memory memory.deliver_applied\<close>)
qed

theorem reset_survives_redelivery_witness:
  "\<exists>m'. ResetDevice None ''u'' ''d'' (deliver_all [ex_window ''u'' 2 1] NewMemory) = (None, m') \<and>
     dev_total Events (deviceKey ''u'' ''d'') (deliver_all [ex_window ''u'' 2 1] m') = 0"
proof -
  have known: "mem_devices (deliver_all [ex_window ''u'' 2 1] NewMemory) (deviceKey ''u'' ''d'') \<noteq> None"
    by (simp add: deliver_all_def ApplyWindow_devices dkey_def ex_window_def)
  obtain r m' where run: "ResetDevice None ''u'' ''d'' (deliver_all [ex_window ''u'' 2 1] NewMemory) = (r, m')"
    by fastforce
  with ResetDevice_ok(1)[OF run] known have "r = None" by simp
  with run reset_survives_redelivery[of "''u''" "''d''" "[ex_window ''u'' 2 1]" NewMemory m' "[ex_window ''u'' 2 1]" Events]
  show ?thesis by auto
qed

section \<open>Isolation of devices\<close>

lemma deviceKey_inj:
  "CHR ''}'' \<notin> set u \<Longrightarrow> CHR ''}'' \<notin> set u' \<Longrightarrow> deviceKey u d = deviceKey u' d' \<Longrightarrow> u = u' \<and> d = d'"
  unfolding deviceKey_def by (rule scope_inj)

text \<open>
  Property C33 (isolation of tenants). While user ids contain no closing brace, applying a window or resetting a
  device changes the state of no other device: neither of another user's nor of the same user's.
\<close>

theorem tenant_isolation:
  assumes "CHR ''}'' \<notin> set u" and "CHR ''}'' \<notin> set (ck_UserID (w_Key w))" and "CHR ''}'' \<notin> set u'"
    and "(u, d) \<noteq> (ck_UserID (w_Key w), ck_DeviceID (w_Key w))" and "(u, d) \<noteq> (u', d')"
  shows "Memory_DeviceState ctx u d (snd (ApplyWindow wctx w m)) = Memory_DeviceState ctx u d m \<and>
    Memory_DeviceState ctx u d (snd (ResetDevice rctx u' d' m)) = Memory_DeviceState ctx u d m"
proof -
  have "dkey w \<noteq> deviceKey u d" using deviceKey_inj[OF assms(2,1)] assms(4) by (auto simp: dkey_def)
  then have "mem_devices (snd (ApplyWindow wctx w m)) (deviceKey u d) = mem_devices m (deviceKey u d)"
    by (cases wctx) (auto simp: ApplyWindow_devices memory.write_cancelled)
  moreover have "deviceKey u' d' \<noteq> deviceKey u d" using deviceKey_inj[OF assms(3,1)] assms(5) by auto
  then have "mem_devices (snd (ResetDevice rctx u' d' m)) (deviceKey u d) = mem_devices m (deviceKey u d)"
    by (auto simp: ResetDevice_def Let_def split: option.split)
  ultimately show ?thesis by (cases ctx) (simp_all add: Memory_DeviceState_def)
qed

theorem tenant_isolation_witness:
  "Memory_DeviceState None ''v'' ''d'' (snd (ApplyWindow None (ex_window ''u'' 2 1) NewMemory)) =
   Memory_DeviceState None ''v'' ''d'' NewMemory"
  using tenant_isolation[of "''v''" "ex_window ''u'' 2 1" "''u''" "''d''" "''d''" None None NewMemory None]
  by (simp add: ex_window_def)

text \<open>
  The brace collision. The side condition of the isolation theorem is needed: the delimiters of a device key are not escaped,
  so user \<open>a}:b\<close> with device \<open>c\<close> and user \<open>a\<close> with device \<open>b}:c\<close> share one record, and the second user reads the first one's state.
\<close>

theorem device_key_collision:
  "Memory_DeviceState None ''a'' ''b}:c''
     (snd (ApplyWindow None ((ex_window ''a}:b'' 2 1)\<lparr>w_Key := CorrelationKey ''a}:b'' ''c'' 1 ''p''\<rparr>) NewMemory)) =
   Inr (zero_DeviceState\<lparr>ds_UserID := ''a}:b'', ds_DeviceID := ''c'', ds_Count := 3, ds_ErrorCount := 1, ds_Bytes := 100,
     ds_P95Nanos := 7, ds_P99Nanos := 9, ds_LastWindowID := 2, ds_LastSeen := 30\<rparr>)"
  by (simp add: Memory_DeviceState_def ApplyWindow_devices dkey_def deviceKey_def record_of_def NewMemory_def apply_to_record_def
      take_latest_def add_counters_def new_record_def zero_DeviceState_def ex_window_def Let_def wrap64_def)

section \<open>The listing of a user's devices\<close>

text \<open>
  The index of a user lists the devices for which a record was created; a record exists for each
  listed device.
\<close>

definition known_devices :: "Memory \<Rightarrow> string \<Rightarrow> string list" where
  "known_devices m u = (case mem_byUser m u of Some l \<Rightarrow> l | None \<Rightarrow> [])"

definition index_inv :: "Memory \<Rightarrow> bool" where
  "index_inv m \<longleftrightarrow>
     (\<forall>u. distinct (known_devices m u) \<and> (\<forall>d \<in> set (known_devices m u). mem_devices m (deviceKey u d) \<noteq> None)) \<and>
     (\<forall>k r. mem_devices m k = Some r \<longrightarrow>
        k = deviceKey (ds_UserID (dr_state r)) (ds_DeviceID (dr_state r)) \<and>
        ds_DeviceID (dr_state r) \<in> set (known_devices m (ds_UserID (dr_state r))))"

lemma index_invD:
  assumes "index_inv m"
  shows "distinct (known_devices m u)"
    and "d \<in> set (known_devices m u) \<Longrightarrow> \<exists>r. mem_devices m (deviceKey u d) = Some r"
    and "mem_devices m k = Some r \<Longrightarrow> k = deviceKey (ds_UserID (dr_state r)) (ds_DeviceID (dr_state r))"
    and "mem_devices m k = Some r \<Longrightarrow> ds_DeviceID (dr_state r) \<in> set (known_devices m (ds_UserID (dr_state r)))"
  using assms by (auto simp: index_inv_def)

lemma known_register:
  "known_devices (register u d m) u' =
     (if u' = u \<and> d \<notin> set (known_devices m u) then known_devices m u @ [d] else known_devices m u')"
  by (auto simp: known_devices_def register_def Let_def)

lemma known_frame: "mem_byUser m' = mem_byUser m \<Longrightarrow> known_devices m' = known_devices m"
  by (rule ext) (simp add: known_devices_def)

lemma names_apply [simp]:
  "ds_UserID (dr_state (apply_to_record w r)) = ds_UserID (dr_state r)"
  "ds_DeviceID (dr_state (apply_to_record w r)) = ds_DeviceID (dr_state r)"
  by (simp_all add: apply_to_record_def take_latest_def add_counters_def Let_def)

lemma index_inv_cong: "mem_devices m' = mem_devices m \<Longrightarrow> mem_byUser m' = mem_byUser m \<Longrightarrow> index_inv m' = index_inv m"
  using known_frame[of m' m] by (simp add: index_inv_def)

lemma index_inv_update:
  assumes "index_inv m" and "mem_devices m k = Some r" and "ds_UserID (dr_state r') = ds_UserID (dr_state r)"
    and "ds_DeviceID (dr_state r') = ds_DeviceID (dr_state r)"
  shows "index_inv (m\<lparr>mem_devices := (mem_devices m)(k \<mapsto> r')\<rparr>)"
  using assms known_frame[of "m\<lparr>mem_devices := (mem_devices m)(k \<mapsto> r')\<rparr>" m] by (auto simp: index_inv_def)

lemma find_record_inv:
  assumes "index_inv m" and "find_record u d m = (r, m')"
  shows "index_inv m' \<and> mem_devices m' (deviceKey u d) = Some r"
proof (cases "mem_devices m (deviceKey u d)")
  case (Some x)
  with assms show ?thesis by (simp add: find_record_def)
next
  case None
  have names: "ds_UserID (dr_state (new_record u d)) = u" "ds_DeviceID (dr_state (new_record u d)) = d"
    by (simp_all add: new_record_def zero_DeviceState_def)
  have eq: "r = new_record u d" "m' = register u d (m\<lparr>mem_devices := (mem_devices m)(deviceKey u d \<mapsto> r)\<rparr>)"
    using None assms(2) by (auto simp: find_record_def Let_def)
  let ?m = "m\<lparr>mem_devices := (mem_devices m)(deviceKey u d \<mapsto> r)\<rparr>"
  have k: "known_devices ?m = known_devices m" by (rule known_frame) simp
  show ?thesis
    using assms(1) unfolding index_inv_def eq(2) known_register k by (auto simp: eq(1) names)
qed

lemma ApplyWindow_cases:
  obtains (cancelled) err where "ctx = Some err" "ApplyWindow ctx w m = (Some err, m)"
  | (duplicate) r m1 where "ctx = None" "find_record (ck_UserID (w_Key w)) (ck_DeviceID (w_Key w)) m = (r, m1)" "Identity w \<in> dr_applied r"
      "ApplyWindow ctx w m = (None, Increment MetricWindowsDuplicate 1 m1)"
  | (applied) r m1 where "ctx = None" "find_record (ck_UserID (w_Key w)) (ck_DeviceID (w_Key w)) m = (r, m1)" "Identity w \<notin> dr_applied r"
      "ApplyWindow ctx w m = (None, notify (dkey w) (dr_state (apply_to_record w r))
         (Increment MetricErrorsCounted (w_ErrorCount w) (Increment MetricEventsCounted (w_Count w) (Increment MetricWindowsApplied 1
           (m1\<lparr>mem_devices := (mem_devices m1)(dkey w \<mapsto> apply_to_record w r)\<rparr>)))))"
proof (cases ctx)
  case (Some err)
  then show ?thesis by (intro that(1)) (simp_all add: ApplyWindow_def)
next
  case None
  obtain r m1 where f: "find_record (ck_UserID (w_Key w)) (ck_DeviceID (w_Key w)) m = (r, m1)" by fastforce
  show ?thesis
  proof (cases "Identity w \<in> dr_applied r")
    case True
    with None f show ?thesis by (intro that(2)) (simp_all add: ApplyWindow_def Let_def)
  next
    case False
    with None f show ?thesis by (intro that(3)) (simp_all add: ApplyWindow_def Let_def dkey_def)
  qed
qed

lemma ApplyWindow_index:
  assumes "index_inv m"
  shows "index_inv (snd (ApplyWindow ctx w m))"
proof (cases rule: ApplyWindow_cases[of ctx w m])
  case (duplicate r m1)
  with find_record_inv[OF assms duplicate(2)] index_inv_cong[of "Increment MetricWindowsDuplicate 1 m1" m1]
  show ?thesis by simp
next
  case (applied r m1)
  have f: "index_inv m1 \<and> mem_devices m1 (dkey w) = Some r"
    using find_record_inv[OF assms applied(2)] by (simp add: dkey_def)
  let ?m = "m1\<lparr>mem_devices := (mem_devices m1)(dkey w \<mapsto> apply_to_record w r)\<rparr>"
  have "index_inv ?m" by (rule index_inv_update[where r = r]) (use f in simp_all)
  moreover have "index_inv (snd (ApplyWindow ctx w m)) = index_inv ?m"
    unfolding applied(4) snd_conv by (rule index_inv_cong) simp_all
  ultimately show ?thesis by simp
qed (use assms in simp)

lemma ResetDevice_index:
  assumes "index_inv m"
  shows "index_inv (snd (ResetDevice ctx u d m))"
proof (cases "ctx = None \<and> mem_devices m (deviceKey u d) \<noteq> None")
  case True
  then obtain r where r: "ctx = None" "mem_devices m (deviceKey u d) = Some r" by auto
  let ?m = "m\<lparr>mem_devices := (mem_devices m)(deviceKey u d \<mapsto> reset_record r)\<rparr>"
  have "index_inv ?m" by (rule index_inv_update[OF assms r(2)]) (simp_all add: reset_record_def)
  moreover have "index_inv (snd (ResetDevice ctx u d m)) = index_inv ?m"
    by (rule index_inv_cong) (simp_all add: ResetDevice_def r Let_def)
  ultimately show ?thesis by simp
qed (use assms in \<open>auto simp: ResetDevice_def Let_def split: option.splits\<close>)

section \<open>Watchers\<close>

text \<open>
  The store together with the goroutines that \<open>WatchDevice\<close> starts: each waits for its context and then unwatches once
  the watcher it was started for, under the key it was registered with.
\<close>

definition watch_inv :: "Memory \<Rightarrow> (string \<times> nat) list \<Rightarrow> bool" where
  "watch_inv m gs \<longleftrightarrow>
     \<not> mem_panicked m \<and> distinct (map snd gs) \<and>
     (\<forall>w \<in> set (mem_heap m). wt_closed w = wt_chanClosed w \<and> length (wt_updates w) \<le> watchBuffer) \<and>
     (\<forall>(k, i) \<in> set gs. i < length (mem_heap m) \<and> \<not> wt_closed (mem_heap m ! i)) \<and>
     (\<forall>k l. mem_watchers m k = Some l \<longrightarrow> (\<forall>i \<in> set l. (k, i) \<in> set gs))"

inductive mem_step :: "Memory \<times> (string \<times> nat) list \<Rightarrow> Memory \<times> (string \<times> nat) list \<Rightarrow> bool" where
  step_apply: "mem_step (m, gs) (snd (ApplyWindow ctx w m), gs)"
| step_reset: "mem_step (m, gs) (snd (ResetDevice ctx u d m), gs)"
| step_increment: "mem_step (m, gs) (Increment name delta m, gs)"
| step_watch: "WatchDevice ctx u d m = (Inr i, m') \<Longrightarrow> mem_step (m, gs) (m', (deviceKey u d, i) # gs)"
| step_cancel: "(key, i) \<in> set gs \<Longrightarrow> mem_step (m, gs) (unwatch key i m, filter (\<lambda>g. g \<noteq> (key, i)) gs)"
| step_receive: "receive i m = Some (s, m') \<Longrightarrow> mem_step (m, gs) (m', gs)"

lemma send_or_drop_inv: "watch_inv m gs \<Longrightarrow> i \<in> snd ` set gs \<Longrightarrow> watch_inv (send_or_drop s i m) gs"
proof -
  assume inv: "watch_inv m gs" and "i \<in> snd ` set gs"
  then have i: "i < length (mem_heap m)" "\<not> wt_closed (mem_heap m ! i)" by (auto simp: watch_inv_def)
  then have "\<not> wt_chanClosed (mem_heap m ! i)" using inv by (auto simp: watch_inv_def)
  with i inv show ?thesis
    by (auto simp: watch_inv_def send_or_drop_def Let_def nth_list_update dest!: set_update_subset_insert[THEN subsetD] split: if_splits)
qed

lemma fold_send_inv: "watch_inv m gs \<Longrightarrow> set js \<subseteq> snd ` set gs \<Longrightarrow> watch_inv (fold (send_or_drop s) js m) gs"
  by (induction js arbitrary: m) (auto intro: send_or_drop_inv)

lemma notify_inv:
  assumes "watch_inv m gs"
  shows "watch_inv (notify k s m) gs"
proof (cases "mem_watchers m k")
  case (Some l)
  then have "set l \<subseteq> snd ` set gs" using assms by (force simp: watch_inv_def)
  with Some assms show ?thesis by (simp add: notify_def fold_send_inv)
qed (use assms in \<open>simp add: notify_def\<close>)

lemma watch_inv_frame:
  "mem_panicked m' = mem_panicked m \<Longrightarrow> mem_heap m' = mem_heap m \<Longrightarrow> mem_watchers m' = mem_watchers m \<Longrightarrow>
   watch_inv m' gs = watch_inv m gs"
  by (simp add: watch_inv_def)

lemma find_record_frame:
  "find_record u d m = (r, m1) \<Longrightarrow> mem_panicked m1 = mem_panicked m \<and> mem_heap m1 = mem_heap m \<and> mem_watchers m1 = mem_watchers m"
  by (auto simp: find_record_def Let_def split: option.splits)

lemma ApplyWindow_watch: "watch_inv m gs \<Longrightarrow> watch_inv (snd (ApplyWindow ctx w m)) gs"
proof (cases rule: ApplyWindow_cases[of ctx w m])
  case (duplicate r m1)
  assume "watch_inv m gs"
  then show ?thesis using find_record_frame[OF duplicate(2)] duplicate(4) by (simp add: watch_inv_def)
next
  case (applied r m1)
  assume "watch_inv m gs"
  then show ?thesis
    using find_record_frame[OF applied(2)] unfolding applied(4) snd_conv
    by (intro notify_inv) (simp add: watch_inv_def)
qed simp

lemma ResetDevice_watch:
  assumes "watch_inv m gs"
  shows "watch_inv (snd (ResetDevice ctx u d m)) gs"
proof -
  have "watch_inv (notify k s (Increment n x (m\<lparr>mem_devices := f\<rparr>))) gs" for k s n x f
    using assms by (intro notify_inv) (simp add: watch_inv_def)
  with assms show ?thesis by (simp add: ResetDevice_def Let_def split: option.split)
qed

lemma WatchDevice_watch:
  assumes "watch_inv m gs" and "WatchDevice ctx u d m = (Inr i, m')"
  shows "watch_inv m' ((deviceKey u d, i) # gs)"
proof -
  have m': "i = length (mem_heap m)" "mem_heap m' = mem_heap m @ [\<lparr>wt_updates = [], wt_chanClosed = False, wt_closed = False\<rparr>]"
    "mem_panicked m' = mem_panicked m"
    "mem_watchers m' = (mem_watchers m)(deviceKey u d \<mapsto> (case mem_watchers m (deviceKey u d) of Some l \<Rightarrow> l | None \<Rightarrow> []) @ [i])"
    using assms(2) by (auto simp: WatchDevice_def Let_def split: option.splits if_splits)
  have "i \<notin> snd ` set gs" using assms(1) by (auto simp: watch_inv_def m'(1))
  moreover have "(k, j) \<in> set gs" if "mem_watchers m k = Some l" "j \<in> set l" for k l j
    using that assms(1) by (simp add: watch_inv_def)
  ultimately show ?thesis using assms(1)
    by (cases "mem_watchers m (deviceKey u d)") (auto simp: watch_inv_def m' nth_append split: if_splits)
qed

lemma unwatch_watch:
  assumes "watch_inv m gs" and "(key, i) \<in> set gs"
  shows "watch_inv (unwatch key i m) (filter (\<lambda>g. g \<noteq> (key, i)) gs)"
proof -
  have i: "i < length (mem_heap m)" "\<not> wt_closed (mem_heap m ! i)" "\<not> wt_chanClosed (mem_heap m ! i)"
    using assms by (auto simp: watch_inv_def)
  have only: "k = key" if "(k, i) \<in> set gs" for k
    using that assms(2) inj_onD[of snd "set gs" "(k, i)" "(key, i)"] assms(1) by (simp add: watch_inv_def distinct_map)
  let ?w = "(mem_heap m ! i)\<lparr>wt_closed := True, wt_chanClosed := True\<rparr>"
  let ?gs = "filter (\<lambda>g. g \<noteq> (key, i)) gs"
  have heap: "mem_heap (unwatch key i m) = (mem_heap m)[i := ?w]" "mem_panicked (unwatch key i m) = mem_panicked m"
    using i by (simp_all add: unwatch_def Let_def)
  have regs: "\<exists>l'. mem_watchers m k = Some l' \<and> j \<in> set l' \<and> (k, j) \<noteq> (key, i)"
    if "mem_watchers (unwatch key i m) k = Some l" "j \<in> set l" for k l j
    using that by (auto simp: unwatch_def Let_def split: option.splits if_splits)
  have "j \<noteq> i" if "(k, j) \<in> set ?gs" for k j using that only by auto
  then have "\<forall>(k, j) \<in> set ?gs. j < length (mem_heap (unwatch key i m)) \<and> \<not> wt_closed (mem_heap (unwatch key i m) ! j)"
    using assms(1) unfolding watch_inv_def heap(1) by fastforce
  moreover have "\<forall>w \<in> set (mem_heap (unwatch key i m)). wt_closed w = wt_chanClosed w \<and> length (wt_updates w) \<le> watchBuffer"
    using assms(1) i(1) set_update_subset_insert[of "mem_heap m" i ?w] unfolding heap(1) watch_inv_def by auto
  moreover have "\<forall>k l. mem_watchers (unwatch key i m) k = Some l \<longrightarrow> (\<forall>j \<in> set l. (k, j) \<in> set ?gs)"
    using regs assms(1) unfolding watch_inv_def by fastforce
  moreover have "\<not> mem_panicked (unwatch key i m)" "distinct (map snd ?gs)"
    using assms(1) by (simp_all add: watch_inv_def heap(2) distinct_map_filter)
  ultimately show ?thesis unfolding watch_inv_def by blast
qed

lemma receive_watch: "watch_inv m gs \<Longrightarrow> receive i m = Some (s, m') \<Longrightarrow> watch_inv m' gs"
  by (auto simp: watch_inv_def receive_def nth_list_update split: if_splits list.splits
      dest!: set_update_subset_insert[THEN subsetD])
    (metis Suc_leD length_Cons nth_mem)+

definition mem_inv :: "Memory \<times> (string \<times> nat) list \<Rightarrow> bool" where
  "mem_inv s \<longleftrightarrow> index_inv (fst s) \<and> watch_inv (fst s) (snd s)"

lemma mem_inv_init: "mem_inv (NewMemory, [])"
  by (simp add: mem_inv_def index_inv_def watch_inv_def known_devices_def NewMemory_def)

lemma mem_step_inv: "mem_step s s' \<Longrightarrow> mem_inv s \<Longrightarrow> mem_inv s'"
proof (induction rule: mem_step.induct)
  case (step_increment m gs name delta)
  then show ?case
    using index_inv_cong[of "Increment name delta m" m] watch_inv_frame[of "Increment name delta m" m gs]
    by (simp add: mem_inv_def)
next
  case (step_watch ctx u d m i m' gs)
  have "mem_devices m' = mem_devices m" "mem_byUser m' = mem_byUser m"
    using step_watch(1) by (auto simp: WatchDevice_def Let_def split: option.splits if_splits)
  from index_inv_cong[OF this] step_watch(2) WatchDevice_watch[OF _ step_watch(1), of gs] show ?case by (simp add: mem_inv_def)
next
  case (step_cancel key i gs m)
  have "mem_devices (unwatch key i m) = mem_devices m" "mem_byUser (unwatch key i m) = mem_byUser m"
    by (simp_all add: unwatch_def Let_def)
  from index_inv_cong[OF this] step_cancel(2) unwatch_watch[OF _ step_cancel(1)] show ?case by (simp add: mem_inv_def)
next
  case (step_receive i m s m' gs)
  have "mem_devices m' = mem_devices m" "mem_byUser m' = mem_byUser m"
    using step_receive(1) by (auto simp: receive_def split: if_splits list.splits)
  from index_inv_cong[OF this] step_receive(2) receive_watch[OF _ step_receive(1), of gs] show ?case by (simp add: mem_inv_def)
qed (simp_all add: mem_inv_def ApplyWindow_index ApplyWindow_watch ResetDevice_index ResetDevice_watch)

lemma mem_reachable_inv: "mem_step\<^sup>*\<^sup>* (NewMemory, []) s \<Longrightarrow> mem_inv s"
  by (induction rule: rtranclp_induct) (auto intro: mem_inv_init mem_step_inv)

text \<open>
  Property C34 (watchers are safe). Whatever interleaving of writes, resets, subscriptions, cancellations and receives leads to a state,
  no update was sent on a closed channel and no channel closed twice, every buffer holds at most 8 updates, and every
  registered watcher is open.
\<close>

theorem watchers_safe:
  assumes "mem_step\<^sup>*\<^sup>* (NewMemory, []) (m, gs)"
  shows "\<not> mem_panicked m \<and> (\<forall>w \<in> set (mem_heap m). length (wt_updates w) \<le> 8) \<and>
    (\<forall>k l i. mem_watchers m k = Some l \<longrightarrow> i \<in> set l \<longrightarrow> i < length (mem_heap m) \<and> \<not> wt_chanClosed (mem_heap m ! i))"
proof -
  have inv: "watch_inv m gs" using mem_reachable_inv[OF assms] by (simp add: mem_inv_def)
  have reg: "i < length (mem_heap m) \<and> \<not> wt_closed (mem_heap m ! i)" if "mem_watchers m k = Some l" "i \<in> set l" for k l i
    using inv that unfolding watch_inv_def by blast
  have heap: "wt_closed w = wt_chanClosed w \<and> length (wt_updates w) \<le> 8" if "w \<in> set (mem_heap m)" for w
    using inv that by (simp add: watch_inv_def watchBuffer_def)
  have "i < length (mem_heap m) \<and> \<not> wt_chanClosed (mem_heap m ! i)" if "mem_watchers m k = Some l" "i \<in> set l" for k l i
    using reg[OF that] heap[OF nth_mem, of i] by simp
  moreover have "\<not> mem_panicked m" using inv by (simp add: watch_inv_def)
  ultimately show ?thesis using heap by blast
qed

definition ex_watch :: Memory where
  "ex_watch = unwatch (deviceKey ''u'' ''d'') 0 (snd (WatchDevice None ''u'' ''d'' NewMemory))"

theorem watchers_safe_witness: "\<not> mem_panicked (snd (ApplyWindow None (ex_window ''u'' 2 1) ex_watch))"
proof -
  have "WatchDevice None ''u'' ''d'' NewMemory = (Inr 0, snd (WatchDevice None ''u'' ''d'' NewMemory))"
    by (simp add: WatchDevice_def Let_def NewMemory_def)
  then have "mem_step\<^sup>*\<^sup>* (NewMemory, []) (snd (WatchDevice None ''u'' ''d'' NewMemory), [(deviceKey ''u'' ''d'', 0)])"
    by (intro r_into_rtranclp step_watch)
  moreover have "mem_step (snd (WatchDevice None ''u'' ''d'' NewMemory), [(deviceKey ''u'' ''d'', 0)]) (ex_watch, [])"
    using step_cancel[of "deviceKey ''u'' ''d''" 0 "[(deviceKey ''u'' ''d'', 0)]"] by (simp add: ex_watch_def)
  ultimately have "mem_step\<^sup>*\<^sup>* (NewMemory, []) (snd (ApplyWindow None (ex_window ''u'' 2 1) ex_watch), [])"
    by (meson rtranclp.rtrancl_into_rtrancl step_apply)
  from watchers_safe[OF this] show ?thesis by simp
qed

text \<open>
  Device listings. In every reachable state a user's listing succeeds, is sorted and free of duplicates, and
  lists exactly the devices whose record belongs to the user.
\<close>

theorem user_devices_listing:
  assumes "mem_step\<^sup>*\<^sup>* (NewMemory, []) (m, gs)" and "CHR ''}'' \<notin> set u"
    and "\<forall>k r. mem_devices m k = Some r \<longrightarrow> CHR ''}'' \<notin> set (ds_UserID (dr_state r))"
  shows "\<exists>l. UserDevices None u m = Inr l \<and> sorted (dl_Devices l) \<and> distinct (dl_Devices l) \<and>
    set (dl_Devices l) = {d. \<exists>k r. mem_devices m k = Some r \<and> ds_UserID (dr_state r) = u \<and> ds_DeviceID (dr_state r) = d}"
proof -
  have inv: "index_inv m" using mem_reachable_inv[OF assms(1)] by (simp add: mem_inv_def)
  have "\<exists>k r. mem_devices m k = Some r \<and> ds_UserID (dr_state r) = u \<and> ds_DeviceID (dr_state r) = d"
    if "d \<in> set (known_devices m u)" for d
  proof -
    from index_invD(2)[OF inv that] obtain r where r: "mem_devices m (deviceKey u d) = Some r" by blast
    then have "deviceKey u d = deviceKey (ds_UserID (dr_state r)) (ds_DeviceID (dr_state r))"
      by (rule index_invD(3)[OF inv])
    moreover have "CHR ''}'' \<notin> set (ds_UserID (dr_state r))" using assms(3) r by blast
    ultimately have "u = ds_UserID (dr_state r) \<and> d = ds_DeviceID (dr_state r)"
      by (intro deviceKey_inj[OF assms(2)])
    with r show ?thesis by metis
  qed
  moreover have "ds_DeviceID (dr_state r) \<in> set (known_devices m u)"
    if "mem_devices m k = Some r" "ds_UserID (dr_state r) = u" for k r
    using index_invD(4)[OF inv that(1)] that(2) by simp
  ultimately have "set (known_devices m u) = {d. \<exists>k r. mem_devices m k = Some r \<and> ds_UserID (dr_state r) = u \<and> ds_DeviceID (dr_state r) = d}"
    by blast
  moreover have "distinct (known_devices m u)" by (rule index_invD(1)[OF inv])
  ultimately show ?thesis by (simp add: UserDevices_def known_devices_def)
qed

theorem user_devices_listing_witness:
  "\<exists>l. UserDevices None ''u'' (snd (ApplyWindow None (ex_window ''u'' 2 1) NewMemory)) = Inr l \<and> set (dl_Devices l) = {''d''}"
proof -
  let ?m = "snd (ApplyWindow None (ex_window ''u'' 2 1) NewMemory)"
  have reach: "mem_step\<^sup>*\<^sup>* (NewMemory, []) (?m, [])" by (intro r_into_rtranclp step_apply)
  have names: "ds_UserID (dr_state (record_of (ex_window ''u'' 2 1) NewMemory)) = ''u''"
    "ds_DeviceID (dr_state (record_of (ex_window ''u'' 2 1) NewMemory)) = ''d''"
    by (simp_all add: record_of_def NewMemory_def new_record_def zero_DeviceState_def ex_window_def)
  have "mem_devices NewMemory = Map.empty" by (simp add: NewMemory_def)
  with names have "{d. \<exists>k r. mem_devices ?m k = Some r \<and> ds_UserID (dr_state r) = ''u'' \<and> ds_DeviceID (dr_state r) = d} = {''d''}"
    and "\<forall>k r. mem_devices ?m k = Some r \<longrightarrow> CHR ''}'' \<notin> set (ds_UserID (dr_state r))"
    by (auto simp: ApplyWindow_devices split: if_splits)
  with user_devices_listing[OF reach, of "''u''"] show ?thesis by auto
qed
end
