(* ===== verification/AggregatorService.thy ===== *)
theory AggregatorService
  imports MemoryStore
begin

text \<open>
  The aggregator service of \<^verbatim>\<open>internal/aggregator/service.go\<close>, over any window source and any window
  publisher. Its lemmas are proved in the \<open>window_source\<close> locale and reach the program through the
  aggregator's interpretation: a window leaves the source only after the publisher accepted
  it, and a failed publication is offered again, unchanged, by the next emission.
\<close>

section \<open>The service\<close>

definition MetricBatchesConsumed :: string where "MetricBatchesConsumed = ''aggregator_batches_consumed''"
definition MetricWindowsEmitted :: string where "MetricWindowsEmitted = ''aggregator_windows_emitted''"
definition MetricWindowsRetained :: string where "MetricWindowsRetained = ''aggregator_windows_retained''"
definition MetricEventsShed :: string where "MetricEventsShed = ''aggregator_events_shed''"

text \<open>A publisher and a metrics recorder are operations on their own state; a nil recorder is \<open>None\<close>.\<close>

type_synonym 'p WindowPublisher = "ctx \<Rightarrow> AggregateWindow \<Rightarrow> 'p \<Rightarrow> error option \<times> 'p"
type_synonym 'm MetricsRecorder = "(string \<Rightarrow> int \<Rightarrow> 'm \<Rightarrow> 'm) option"

record ('a, 'p, 'm) AggService =
  as_source :: 'a
  as_publisher :: 'p
  as_metrics :: 'm
  as_lastShed :: int

definition NewAggService :: "'a \<Rightarrow> 'p \<Rightarrow> 'm \<Rightarrow> ('a, 'p, 'm) AggService" where
  "NewAggService source publisher metrics = \<lparr>as_source = source, as_publisher = publisher, as_metrics = metrics, as_lastShed = 0\<rparr>"

definition agg_record :: "'m MetricsRecorder \<Rightarrow> string \<Rightarrow> int \<Rightarrow> ('a, 'p, 'm) AggService \<Rightarrow> ('a, 'p, 'm) AggService" where
  "agg_record met name delta s =
     (case met of None \<Rightarrow> s
      | Some increment \<Rightarrow> if delta = 0 then s else s\<lparr>as_metrics := increment name delta (as_metrics s)\<rparr>)"

definition recordShed :: "'a WindowSource \<Rightarrow> 'm MetricsRecorder \<Rightarrow> ('a, 'p, 'm) AggService \<Rightarrow> ('a, 'p, 'm) AggService" where
  "recordShed src met s =
     (case src_Shed src of None \<Rightarrow> s
      | Some shed_of \<Rightarrow>
          let shed = shed_of (as_source s);
              delta = wrap64 (shed - as_lastShed s)
          in agg_record met MetricEventsShed delta (s\<lparr>as_lastShed := shed\<rparr>))"

definition Agg_HandleBatch :: "'a WindowSource \<Rightarrow> 'm MetricsRecorder \<Rightarrow> ctx \<Rightarrow> Batch \<Rightarrow> ('a, 'p, 'm) AggService
    \<Rightarrow> error option \<times> ('a, 'p, 'm) AggService" where
  "Agg_HandleBatch src met ctx b s =
     (case ctx of Some err \<Rightarrow> (Some err, s)
      | None \<Rightarrow>
          (case src_IngestBatch src b (as_source s) of
             (Some err, a) \<Rightarrow> (Some err, s\<lparr>as_source := a\<rparr>)
           | (None, a) \<Rightarrow>
               (None, recordShed src met (agg_record met MetricBatchesConsumed 1 (s\<lparr>as_source := a\<rparr>)))))"

text \<open>The publication loop: the windows accepted, the first failure, the publisher's state.\<close>

fun publish_loop :: "'p WindowPublisher \<Rightarrow> ctx \<Rightarrow> AggregateWindow list \<Rightarrow> AggregateWindow list \<Rightarrow> error option \<Rightarrow> 'p
    \<Rightarrow> AggregateWindow list \<times> error option \<times> 'p" where
  "publish_loop pub ctx [] published failure p = (published, failure, p)"
| "publish_loop pub ctx (w # ws) published failure p =
     (case pub ctx w p of
        (Some err, p') \<Rightarrow> publish_loop pub ctx ws published (if failure = None then Some err else failure) p'
      | (None, p') \<Rightarrow> publish_loop pub ctx ws (published @ [w]) failure p')"

definition agg_publish :: "'a WindowSource \<Rightarrow> 'p WindowPublisher \<Rightarrow> 'm MetricsRecorder \<Rightarrow> ctx \<Rightarrow> AggregateWindow list
    \<Rightarrow> ('a, 'p, 'm) AggService \<Rightarrow> error option \<times> ('a, 'p, 'm) AggService" where
  "agg_publish src pub met ctx windows s =
     (let (published, failure, p) = publish_loop pub ctx windows [] None (as_publisher s);
          s1 = s\<lparr>as_publisher := p, as_source := src_Commit src published (as_source s)\<rparr>;
          s2 = agg_record met MetricWindowsEmitted (int (length published)) s1;
          s3 = (if failure \<noteq> None
                then agg_record met MetricWindowsRetained (int (length windows) - int (length published)) s2 else s2)
      in (failure, s3))"

definition EmitClosedWindows :: "'a WindowSource \<Rightarrow> 'p WindowPublisher \<Rightarrow> 'm MetricsRecorder \<Rightarrow> ctx \<Rightarrow> time
    \<Rightarrow> ('a, 'p, 'm) AggService \<Rightarrow> error option \<times> ('a, 'p, 'm) AggService" where
  "EmitClosedWindows src pub met ctx watermark s =
     (case src_CollectWindowsBefore src watermark (as_source s) of
        (Inl err, a) \<Rightarrow> (Some err, s\<lparr>as_source := a\<rparr>)
      | (Inr windows, a) \<Rightarrow> agg_publish src pub met ctx windows (s\<lparr>as_source := a\<rparr>))"

definition EmitAll :: "'a WindowSource \<Rightarrow> 'p WindowPublisher \<Rightarrow> 'm MetricsRecorder \<Rightarrow> ctx
    \<Rightarrow> ('a, 'p, 'm) AggService \<Rightarrow> error option \<times> ('a, 'p, 'm) AggService" where
  "EmitAll src pub met ctx s =
     (case src_CollectAll src (as_source s) of
        (Inl err, a) \<Rightarrow> (Some err, s\<lparr>as_source := a\<rparr>)
      | (Inr windows, a) \<Rightarrow> agg_publish src pub met ctx windows (s\<lparr>as_source := a\<rparr>))"

section \<open>The publication loop\<close>

text \<open>What the publisher answers to each window offered to it, in order.\<close>

fun answers :: "'p WindowPublisher \<Rightarrow> ctx \<Rightarrow> AggregateWindow list \<Rightarrow> 'p \<Rightarrow> (AggregateWindow \<times> error option) list" where
  "answers pub ctx [] p = []"
| "answers pub ctx (w # ws) p = (w, fst (pub ctx w p)) # answers pub ctx ws (snd (pub ctx w p))"

definition accepted :: "'p WindowPublisher \<Rightarrow> ctx \<Rightarrow> AggregateWindow list \<Rightarrow> 'p \<Rightarrow> AggregateWindow list" where
  "accepted pub ctx ws p = map fst (filter (\<lambda>(w, e). e = None) (answers pub ctx ws p))"

lemma map_fst_answers [simp]: "map fst (answers pub ctx ws p) = ws"
  by (induction ws arbitrary: p) simp_all

lemma publish_loop_eq:
  "publish_loop pub ctx ws published failure p =
     (published @ accepted pub ctx ws p,
      (if failure = None then (case filter (\<lambda>(w, e). e \<noteq> None) (answers pub ctx ws p) of [] \<Rightarrow> None | x # _ \<Rightarrow> snd x) else failure),
      snd (snd (publish_loop pub ctx ws published failure p)))"
proof (induction ws arbitrary: published failure p)
  case (Cons w ws)
  obtain r p' where s: "pub ctx w p = (r, p')" by fastforce
  show ?case
    using Cons.IH[of published "if failure = None then r else failure" p'] Cons.IH[of "published @ [w]" failure p'] s
    by (cases r) (auto simp: accepted_def split: if_splits)
qed (simp add: accepted_def)

lemma accepted_subset: "set (accepted pub ctx ws p) \<subseteq> set ws"
proof -
  have "set (accepted pub ctx ws p) \<subseteq> fst ` set (answers pub ctx ws p)" by (auto simp: accepted_def)
  also have "\<dots> = set (map fst (answers pub ctx ws p))" by (simp del: map_fst_answers)
  finally show ?thesis by simp
qed

lemma distinct_accepted: "distinct ws \<Longrightarrow> distinct (accepted pub ctx ws p)"
  unfolding accepted_def by (rule distinct_map_filter) simp

lemma accepted_simps [simp]:
  "accepted pub ctx [] p = []"
  "accepted pub ctx (w # ws) p = (if fst (pub ctx w p) = None then [w] else []) @ accepted pub ctx ws (snd (pub ctx w p))"
  by (simp_all add: accepted_def)

lemma length_accepted: "length (accepted pub ctx ws p) \<le> length ws"
  by (induction ws arbitrary: p) (auto intro: le_SucI)

lemma accepted_all: "accepted pub ctx ws p = ws \<longleftrightarrow> filter (\<lambda>(w, e). e \<noteq> None) (answers pub ctx ws p) = []"
proof (induction ws arbitrary: p)
  case (Cons w ws)
  have "accepted pub ctx ws q \<noteq> w # ws" for q
    using length_accepted[of pub ctx ws q] by auto
  with Cons.IH[of "snd (pub ctx w p)"] show ?case by simp
qed simp

lemma failure_None_iff:
  "fst (snd (publish_loop pub ctx ws published None p)) = None \<longleftrightarrow> accepted pub ctx ws p = ws"
  unfolding accepted_all
  by (subst publish_loop_eq) (auto split: list.split simp: filter_eq_Cons_iff)

lemma agg_publish_eq:
  obtains p where "snd (agg_publish src pub met ctx ws s) =
      (let s2 = agg_record met MetricWindowsEmitted (int (length (accepted pub ctx ws (as_publisher s))))
                  (s\<lparr>as_publisher := p, as_source := src_Commit src (accepted pub ctx ws (as_publisher s)) (as_source s)\<rparr>)
       in if accepted pub ctx ws (as_publisher s) \<noteq> ws
          then agg_record met MetricWindowsRetained (int (length ws) - int (length (accepted pub ctx ws (as_publisher s)))) s2 else s2)"
    "fst (agg_publish src pub met ctx ws s) = None \<longleftrightarrow> accepted pub ctx ws (as_publisher s) = ws"
proof -
  obtain e p where l: "publish_loop pub ctx ws [] None (as_publisher s) = (accepted pub ctx ws (as_publisher s), e, p)"
    using publish_loop_eq[of pub ctx ws "[]" None "as_publisher s"] by (metis append_Nil)
  have "e = None \<longleftrightarrow> accepted pub ctx ws (as_publisher s) = ws"
    using failure_None_iff[of pub ctx ws "[]" "as_publisher s"] l by simp
  then show ?thesis using l by (intro that[of p]) (auto simp: agg_publish_def Let_def)
qed

lemma as_source_agg_record [simp]: "as_source (agg_record met n d s) = as_source s"
  by (simp add: agg_record_def split: option.split)

lemma as_publisher_agg_record [simp]: "as_publisher (agg_record met n d s) = as_publisher s"
  by (simp add: agg_record_def split: option.split)

lemma as_source_recordShed [simp]: "as_source (recordShed src met s) = as_source s"
  by (simp add: recordShed_def Let_def split: option.split)

lemma as_source_agg_publish:
  "as_source (snd (agg_publish src pub met ctx ws s)) = src_Commit src (accepted pub ctx ws (as_publisher s)) (as_source s)"
  by (rule agg_publish_eq[of src pub met ctx ws s]) (simp add: Let_def)

section \<open>What an emission keeps\<close>

context window_source
begin

text \<open>
  \<open>emission s s' ws acc\<close>: the windows \<open>ws\<close> were offered and \<open>acc\<close> accepted; the source keeps the rest
  and what it held is split between them.
\<close>

definition emission :: "'a \<Rightarrow> 'a \<Rightarrow> AggregateWindow list \<Rightarrow> AggregateWindow list \<Rightarrow> bool" where
  "emission s s' ws acc \<longleftrightarrow>
     ok s' \<and> distinct ws \<and> distinct acc \<and> set acc \<subseteq> set ws \<and> pending s \<subseteq> set ws \<and> pending s' = set ws - set acc \<and>
     (\<forall>c P. amount_held c P s = amount_held c P s' + window_amount c P acc)"

lemma publish_emission:
  assumes "ok a" and "distinct ws" and "set ws = pending a" and "pending a0 \<subseteq> pending a"
    and "\<And>c P. amount_held c P a = amount_held c P a0"
  shows "emission a0 (src_Commit src (accepted pub ctx ws p) a) ws (accepted pub ctx ws p)"
proof -
  let ?acc = "accepted pub ctx ws p"
  have acc: "distinct ?acc" "set ?acc \<subseteq> set ws" by (rule distinct_accepted[OF assms(2)], rule accepted_subset)
  then have "set ?acc \<subseteq> pending a" using assms(3) by simp
  from commit_ok[OF assms(1) acc(1) this] acc assms(2-5) show ?thesis by (simp add: emission_def)
qed

lemma EmitClosedWindows_emission:
  assumes "ok (as_source s)" and "room (as_source s)" and "EmitClosedWindows src pub met ctx t s = (r, s')"
  obtains ws where "emission (as_source s) (as_source s') ws (accepted pub ctx ws (as_publisher s))"
    "r = None \<longleftrightarrow> accepted pub ctx ws (as_publisher s) = ws"
proof -
  obtain rs a where c: "src_CollectWindowsBefore src t (as_source s) = (rs, a)" by fastforce
  note co = collect_before_ok[OF assms(1,2) c]
  then obtain ws where ws: "rs = Inr ws" "distinct ws" "set ws = pending a" by blast
  have run: "agg_publish src pub met ctx ws (s\<lparr>as_source := a\<rparr>) = (r, s')"
    using assms(3) c ws(1) by (simp add: EmitClosedWindows_def)
  show ?thesis
  proof (rule that[of ws])
    show "emission (as_source s) (as_source s') ws (accepted pub ctx ws (as_publisher s))"
      using publish_emission[OF _ ws(2,3), of "as_source s"] co as_source_agg_publish[of src pub met ctx ws "s\<lparr>as_source := a\<rparr>"] run
      by simp
    show "r = None \<longleftrightarrow> accepted pub ctx ws (as_publisher s) = ws"
      by (rule agg_publish_eq[of src pub met ctx ws "s\<lparr>as_source := a\<rparr>"]) (use run in simp)
  qed
qed

lemma EmitAll_emission:
  assumes "ok (as_source s)" and "room (as_source s)" and "EmitAll src pub met ctx s = (r, s')"
  obtains ws where "emission (as_source s) (as_source s') ws (accepted pub ctx ws (as_publisher s))"
    "r = None \<longleftrightarrow> accepted pub ctx ws (as_publisher s) = ws"
    "\<forall>c P. amount_held c P (as_source s) = window_amount c P ws"
proof -
  obtain rs a where c: "src_CollectAll src (as_source s) = (rs, a)" by fastforce
  note co = collect_all_ok[OF assms(1,2) c]
  then obtain ws where ws: "rs = Inr ws" "distinct ws" "set ws = pending a" by blast
  have run: "agg_publish src pub met ctx ws (s\<lparr>as_source := a\<rparr>) = (r, s')"
    using assms(3) c ws(1) by (simp add: EmitAll_def)
  show ?thesis
  proof (rule that[of ws])
    show "emission (as_source s) (as_source s') ws (accepted pub ctx ws (as_publisher s))"
      using publish_emission[OF _ ws(2,3), of "as_source s"] co as_source_agg_publish[of src pub met ctx ws "s\<lparr>as_source := a\<rparr>"] run
      by simp
    show "r = None \<longleftrightarrow> accepted pub ctx ws (as_publisher s) = ws"
      by (rule agg_publish_eq[of src pub met ctx ws "s\<lparr>as_source := a\<rparr>"]) (use run in simp)
    show "\<forall>c P. amount_held c P (as_source s) = window_amount c P ws"
    proof (intro allI)
      fix c P
      from co[of c P] ws(1) show "amount_held c P (as_source s) = window_amount c P ws" by auto
    qed
  qed
qed

end

section \<open>Properties\<close>

text \<open>
  Property C22 (no window is lost by a failing publisher). An emission offers every window still waiting and every window it closes; the aggregator
  keeps exactly the offered windows the publisher did not accept, so the next emission offers them again with the same
  identity, and every counter it held is now either still held or in an accepted window. The call
  reports success exactly when all offered windows were accepted.
\<close>

theorem emission_retains_unpublished:
  assumes "source_ok (as_source s)" and "sequence_room (as_source s)"
    and "EmitClosedWindows (aggregator_source sketch_ops) pub met ctx t s = (r, s')"
  shows "\<exists>ws. let acc = accepted pub ctx ws (as_publisher s) in
    source_ok (as_source s') \<and> distinct ws \<and> pending_windows (as_source s) \<subseteq> set ws \<and>
    pending_windows (as_source s') = set ws - set acc \<and> (r = None \<longleftrightarrow> acc = ws) \<and>
    (\<forall>c P. held c P (as_source s) = held c P (as_source s') + window_amount c P acc)"
proof -
  obtain ws where e: "aggregator.emission (as_source s) (as_source s') ws (accepted pub ctx ws (as_publisher s))"
    "r = None \<longleftrightarrow> accepted pub ctx ws (as_publisher s) = ws"
    by (rule aggregator.EmitClosedWindows_emission[OF assms])
  then show ?thesis unfolding aggregator.emission_def Let_def by blast
qed

definition ex_service :: "(Sketch Aggregator, unit, Memory) AggService" where
  "ex_service = NewAggService ex_held () NewMemory"

definition refuse :: "unit WindowPublisher" where "refuse ctx w p = (Some ErrCanceled, p)"
definition accept_all :: "unit WindowPublisher" where "accept_all ctx w p = (None, p)"

lemma ex_service_ok: "source_ok (as_source ex_service)" "sequence_room (as_source ex_service)"
  using ex_held_ok by (simp_all add: ex_service_def NewAggService_def source_ok_def)
    (simp add: ex_held_eq ex_aggregator_def sketch_factory_def)

lemma accepted_refuse: "accepted refuse ctx ws p = []"
  by (induction ws arbitrary: p) (simp_all add: refuse_def)

theorem emission_retains_unpublished_witness:
  "held Bytes (\<lambda>_. True) (as_source (snd (EmitClosedWindows (aggregator_source sketch_ops) refuse None None 30 ex_service))) = 5"
proof -
  have "held Bytes (\<lambda>_. True) (as_source ex_service) = 5"
    by (simp add: ex_service_def NewAggService_def ex_held_eq held_def held_open_def held_pending_def ex_aggregator_def)
  with emission_retains_unpublished[OF ex_service_ok surjective_pairing, of refuse "None" None 30]
  show ?thesis by (auto simp: Let_def accepted_refuse)
qed

text \<open>
  A healthy publisher drains the aggregator. When the publisher accepts every window, \<open>EmitAll\<close>, which runs at shutdown, succeeds, offers windows that carry everything that was held, and leaves nothing behind.
\<close>

theorem emit_all_drains:
  assumes "source_ok (as_source s)" and "sequence_room (as_source s)" and "\<And>w p. fst (pub ctx w p) = None"
    and "EmitAll (aggregator_source sketch_ops) pub met ctx s = (r, s')"
  shows "r = None \<and> pending_windows (as_source s') = {} \<and> (\<forall>c P. held c P (as_source s') = 0)"
proof -
  obtain ws where e: "aggregator.emission (as_source s) (as_source s') ws (accepted pub ctx ws (as_publisher s))"
    "r = None \<longleftrightarrow> accepted pub ctx ws (as_publisher s) = ws" "\<forall>c P. held c P (as_source s) = window_amount c P ws"
    by (rule aggregator.EmitAll_emission[OF assms(1,2,4)])
  have "accepted pub ctx ws p = ws" for p
    using assms(3) by (induction ws arbitrary: p) simp_all
  with e show ?thesis by (simp add: aggregator.emission_def)
qed

theorem emit_all_drains_witness:
  "held Bytes (\<lambda>_. True) (as_source (snd (EmitAll (aggregator_source sketch_ops) accept_all None None ex_service))) = 0"
  using emit_all_drains[OF ex_service_ok _ surjective_pairing, of accept_all None None] by (simp add: accept_all_def)

lemma ingestLocked_shed_range: "in_i64 (ag_shed a) \<Longrightarrow> ingestLocked qs e a = (r, a') \<Longrightarrow> in_i64 (ag_shed a')"
  by (rule ingestLocked_cases[of qs e a]) auto

lemma ingest_all_shed_range: "in_i64 (ag_shed a) \<Longrightarrow> ingest_all qs es a = (r, a') \<Longrightarrow> in_i64 (ag_shed a')"
proof (induction es arbitrary: a)
  case (Cons e es)
  obtain r1 a1 where s: "ingestLocked qs e a = (r1, a1)" by fastforce
  with Cons.prems(1) have "in_i64 (ag_shed a1)" by (rule ingestLocked_shed_range)
  with Cons s show ?case by (auto split: option.splits if_splits)
qed simp

lemma IngestBatch_shed_range: "in_i64 (Shed a) \<Longrightarrow> IngestBatch qs b a = (r, a') \<Longrightarrow> in_i64 (Shed a')"
  by (auto simp: IngestBatch_def Shed_def dest: ingest_all_shed_range split: option.splits)

text \<open>
  The shed metric is exact. With the store as its metrics recorder, the service keeps the exported number of shed events equal to the last reading it
  took of the aggregator's counter, and a successful batch brings that reading up to date.
\<close>

theorem shed_metric_exact:
  assumes "metric (as_metrics s) MetricEventsShed = as_lastShed s" and "in_i64 (as_lastShed s)" and "in_i64 (Shed (as_source s))"
    and "Agg_HandleBatch (aggregator_source sketch_ops) (Some Increment) ctx b s = (r, s')"
  shows "metric (as_metrics s') MetricEventsShed = as_lastShed s' \<and>
    (r = None \<longrightarrow> as_lastShed s' = Shed (as_source s')) \<and> in_i64 (as_lastShed s') \<and> in_i64 (Shed (as_source s')) \<and>
    (r \<noteq> None \<longrightarrow> as_metrics s' = as_metrics s)"
proof (cases "ctx = None \<and> fst (IngestBatch sketch_ops b (as_source s)) = None")
  case False
  with assms show ?thesis
    by (auto simp: Agg_HandleBatch_def aggregator_source_def split: option.splits prod.splits dest: IngestBatch_shed_range)
next
  case True
  obtain a where a: "IngestBatch sketch_ops b (as_source s) = (None, a)" using True by (metis prod.collapse)
  have range: "in_i64 (Shed a)" by (rule IngestBatch_shed_range[OF assms(3) a])
  let ?s1 = "agg_record (Some Increment) MetricBatchesConsumed 1 (s\<lparr>as_source := a\<rparr>)"
  have s': "r = None" "s' = recordShed (aggregator_source sketch_ops) (Some Increment) ?s1"
    using assms(4) True a by (simp_all add: Agg_HandleBatch_def aggregator_source_def)
  have m1: "metric (as_metrics ?s1) MetricEventsShed = as_lastShed s" "as_lastShed ?s1 = as_lastShed s" "as_source ?s1 = a"
    using assms(1) by (simp_all add: agg_record_def metric_Increment MetricBatchesConsumed_def MetricEventsShed_def)
  have "wrap64 (as_lastShed s + wrap64 (Shed a - as_lastShed s)) = Shed a"
    unfolding wrap64_add_right using range by simp
  then have "metric (as_metrics s') MetricEventsShed = Shed a" "as_lastShed s' = Shed a" "as_source s' = a"
    using s'(2) m1 assms(2) by (auto simp: recordShed_def aggregator_source_def agg_record_def Let_def metric_Increment)
  with range s'(1) show ?thesis by simp
qed

theorem shed_metric_exact_witness:
  "\<exists>s'. Agg_HandleBatch (aggregator_source sketch_ops) (Some Increment) None ex_batch (NewAggService ex_aggregator () NewMemory) = (None, s') \<and>
     metric (as_metrics s') MetricEventsShed = Shed (as_source s')"
proof -
  let ?s = "NewAggService ex_aggregator () NewMemory"
  have "fst (IngestBatch sketch_ops ex_batch ex_aggregator) = None"
  proof -
    have "validate_all (b_Events ex_batch) = None"
      using ex_batch_valid by (simp add: validate_all_None)
    with ingest_all_shed[OF surjective_pairing ex_aggregator_ok(4)] show ?thesis by (simp add: IngestBatch_def)
  qed
  then have run: "fst (Agg_HandleBatch (aggregator_source sketch_ops) (Some Increment) None ex_batch ?s) = None"
    by (auto simp: Agg_HandleBatch_def aggregator_source_def NewAggService_def split: prod.split)
  have "metric (as_metrics ?s) MetricEventsShed = as_lastShed ?s" "in_i64 (as_lastShed ?s)" "in_i64 (Shed (as_source ?s))"
    by (simp_all add: NewAggService_def metric_def NewMemory_def in_i64_def MinInt64_def MaxInt64_def Shed_def ex_aggregator_def)
  from shed_metric_exact[OF this surjective_pairing, of None ex_batch] run show ?thesis
    by (metis prod.collapse)
qed

end
