(* ===== verification/Services.thy ===== *)
theory Services
  imports AggregatorService
begin

text \<open>
  The remaining services: the persister (\<^verbatim>\<open>internal/persister\<close>), the ingest service
  (\<^verbatim>\<open>internal/ingest\<close>) and the command service (\<^verbatim>\<open>internal/commands\<close>), each over the port it is
  given. The lemmas say on which inputs each of them acts on its port and what it reports otherwise.
\<close>

section \<open>Persister\<close>

definition MetricWindowsPersisted :: string where "MetricWindowsPersisted = ''persister_windows_persisted''"

definition HandleWindow :: "(ctx \<Rightarrow> AggregateWindow \<Rightarrow> 's \<Rightarrow> error option \<times> 's) \<Rightarrow> 'm MetricsRecorder \<Rightarrow> ctx \<Rightarrow> AggregateWindow
    \<Rightarrow> 's \<times> 'm \<Rightarrow> error option \<times> ('s \<times> 'm)" where
  "HandleWindow writer met ctx w s =
     (case writer ctx w (fst s) of
        (Some err, st) \<Rightarrow> (Some err, (st, snd s))
      | (None, st) \<Rightarrow>
          (None, (st, (case met of None \<Rightarrow> snd s | Some increment \<Rightarrow> increment MetricWindowsPersisted 1 (snd s)))))"

section \<open>Ingest service\<close>

definition ErrIngestMissingIdentity :: error where
  [go_error_defs]: "ErrIngestMissingIdentity = Err ''ingest: authenticated identity is empty''"

definition MetricBatchesAccepted :: string where "MetricBatchesAccepted = ''ingest_batches_accepted''"
definition MetricBatchesRejected :: string where "MetricBatchesRejected = ''ingest_batches_rejected''"
definition MetricEventsAccepted :: string where "MetricEventsAccepted = ''ingest_events_accepted''"

type_synonym 'p Publisher = "ctx \<Rightarrow> string \<Rightarrow> Batch \<Rightarrow> 'p \<Rightarrow> error option \<times> 'p"

definition svc_record :: "'m MetricsRecorder \<Rightarrow> string \<Rightarrow> int \<Rightarrow> 'p \<times> 'm \<Rightarrow> 'p \<times> 'm" where
  "svc_record met name delta s = (case met of None \<Rightarrow> s | Some increment \<Rightarrow> (fst s, increment name delta (snd s)))"

definition Accept :: "'p Publisher \<Rightarrow> 'm MetricsRecorder \<Rightarrow> ctx \<Rightarrow> string \<Rightarrow> Batch \<Rightarrow> 'p \<times> 'm \<Rightarrow> error option \<times> ('p \<times> 'm)" where
  "Accept pub met ctx authenticatedDeviceID b s =
     (if authenticatedDeviceID = [] then (Some ErrIngestMissingIdentity, svc_record met MetricBatchesRejected 1 s)
      else case Batch_VerifyIdentity b authenticatedDeviceID of
        Some err \<Rightarrow> (Some err, svc_record met MetricBatchesRejected 1 s)
      | None \<Rightarrow>
          (case Batch_Validate b of
             Some err \<Rightarrow> (Some err, svc_record met MetricBatchesRejected 1 s)
           | None \<Rightarrow>
               (case pub ctx (b_DeviceID b) b (fst s) of
                  (Some err, p) \<Rightarrow> (Some err, svc_record met MetricBatchesRejected 1 (p, snd s))
                | (None, p) \<Rightarrow>
                    (None, svc_record met MetricEventsAccepted (Batch_Len b)
                             (svc_record met MetricBatchesAccepted 1 (p, snd s))))))"

section \<open>Command service\<close>

definition ErrUnsupportedKind :: error where
  [go_error_defs]: "ErrUnsupportedKind = Err ''commands: command kind is not supported''"

definition MetricCommandsApplied :: string where "MetricCommandsApplied = ''commands_applied''"
definition MetricCommandsRejected :: string where "MetricCommandsRejected = ''commands_rejected''"

definition HandleCommand :: "(ctx \<Rightarrow> string \<Rightarrow> string \<Rightarrow> 's \<Rightarrow> error option \<times> 's) \<Rightarrow> 'm MetricsRecorder \<Rightarrow> ctx \<Rightarrow> Command
    \<Rightarrow> 's \<times> 'm \<Rightarrow> error option \<times> ('s \<times> 'm)" where
  "HandleCommand resetter met ctx c s =
     (case Command_Validate c of
        Some err \<Rightarrow> (Some err, svc_record met MetricCommandsRejected 1 s)
      | None \<Rightarrow>
          if c_Kind c = CommandResetCounters
          then (case resetter ctx (c_UserID c) (c_DeviceID c) (fst s) of
                  (Some err, st) \<Rightarrow> (Some err, svc_record met MetricCommandsRejected 1 (st, snd s))
                | (None, st) \<Rightarrow> (None, svc_record met MetricCommandsApplied 1 (st, snd s)))
          else (Some (Wrap (CommandKind_String (c_Kind c)) ErrUnsupportedKind), svc_record met MetricCommandsRejected 1 s))"

section \<open>Lemmas\<close>

lemma fst_svc_record [simp]: "fst (svc_record met n d s) = fst s"
  by (simp add: svc_record_def split: option.split)

definition acceptable :: "string \<Rightarrow> Batch \<Rightarrow> bool" where
  "acceptable dev b \<longleftrightarrow> dev \<noteq> [] \<and> b_DeviceID b = dev \<and> (\<forall>e \<in> set (b_Events b). valid_event e \<and> ev_DeviceID e = dev)"

lemma Accept_acceptable:
  "acceptable dev b \<longleftrightarrow> dev \<noteq> [] \<and> Batch_VerifyIdentity b dev = None \<and> Batch_Validate b = None"
  by (auto simp: acceptable_def VerifyIdentity_None Batch_Validate_None)

lemma Accept_refused: "\<not> acceptable dev b \<Longrightarrow> \<exists>err. fst (Accept pub met ctx dev b s) = Some err \<and> fst (snd (Accept pub met ctx dev b s)) = fst s"
  unfolding Accept_acceptable by (auto simp: Accept_def split: option.split)

lemma Accept_published:
  "acceptable dev b \<Longrightarrow>
   fst (Accept pub met ctx dev b s) = fst (pub ctx dev b (fst s)) \<and> fst (snd (Accept pub met ctx dev b s)) = snd (pub ctx dev b (fst s))"
  using Accept_acceptable[of dev b] by (auto simp: Accept_def acceptable_def split: option.split prod.split)

text \<open>
  Only authentic batches are published. The ingest service hands a batch to the publisher exactly when the authenticated device is named, the batch and
  each of its events claim that device and every event is valid; then it reports what the
  publisher answers. In every other case it reports an error and the publisher is not called.
\<close>

theorem accept_publishes_authentic:
  "(if acceptable dev b
    then fst (Accept pub met ctx dev b (p, m)) = fst (pub ctx dev b p) \<and> fst (snd (Accept pub met ctx dev b (p, m))) = snd (pub ctx dev b p)
    else fst (Accept pub met ctx dev b (p, m)) \<noteq> None \<and> fst (snd (Accept pub met ctx dev b (p, m))) = p)"
  using Accept_refused[of dev b pub met ctx "(p, m)"] Accept_published[of dev b pub met ctx "(p, m)"] by auto

text \<open>
  Commands on the store. A command changes the store only when it is a valid reset of a known device, and then it
  zeroes that device's counters; every other command, quarantine included although it is a recognised
  kind, is reported as an error and leaves the device states as they were.
\<close>

theorem command_effect:
  assumes "HandleCommand ResetDevice (Some Increment) ctx c (m, rec) = (r, (m', rec'))"
  shows "(if c_Kind c = CommandResetCounters \<and> c_UserID c \<noteq> [] \<and> c_DeviceID c \<noteq> [] \<and> c_Actor c \<noteq> [] \<and> ctx = None \<and>
             mem_devices m (deviceKey (c_UserID c) (c_DeviceID c)) \<noteq> None
          then r = None \<and> dev_total k (deviceKey (c_UserID c) (c_DeviceID c)) m' = 0
          else r \<noteq> None \<and> m' = m) \<and>
    (c_Kind c = CommandQuarantineDevice \<longrightarrow> r \<noteq> None)"
proof -
  have valid: "Command_Validate c = None \<longleftrightarrow>
      c_Kind c \<in> {CommandResetCounters, CommandQuarantineDevice} \<and> c_UserID c \<noteq> [] \<and> c_DeviceID c \<noteq> [] \<and> c_Actor c \<noteq> []"
    by (auto simp: Command_Validate_def CommandKind_Valid_def commandKindNames_def)
  obtain e m1 where reset: "ResetDevice ctx (c_UserID c) (c_DeviceID c) m = (e, m1)" by fastforce
  have reset_ok: "(e = None \<longleftrightarrow> ctx = None \<and> mem_devices m (deviceKey (c_UserID c) (c_DeviceID c)) \<noteq> None) \<and> (e \<noteq> None \<longrightarrow> m1 = m)"
  proof (cases ctx)
    case None
    with ResetDevice_ok(1)[OF reset[unfolded None]] show ?thesis by (cases e) auto
  next
    case (Some err)
    with reset show ?thesis by (auto simp: ResetDevice_def)
  qed
  have zero: "dev_total k (deviceKey (c_UserID c) (c_DeviceID c)) m1 = 0" if "e = None"
    using that reset_ok ResetDevice_ok(2)[of "c_UserID c" "c_DeviceID c" m e m1] reset by (auto simp: dev_total_def)
  show ?thesis
  proof (cases "Command_Validate c")
    case None
    then show ?thesis using assms reset reset_ok zero valid
      by (auto simp: HandleCommand_def svc_record_def CommandResetCounters_def CommandQuarantineDevice_def split: option.splits if_splits)
  next
    case (Some err)
    then show ?thesis using assms valid
      by (auto simp: HandleCommand_def svc_record_def CommandResetCounters_def CommandQuarantineDevice_def)
  qed
qed

definition ex_command :: "CommandKind \<Rightarrow> Command" where
  "ex_command k = \<lparr>c_Kind = k, c_UserID = ''u'', c_DeviceID = ''d'', c_Actor = ''ops'', c_IssuedAt = 5\<rparr>"

theorem command_effect_witness:
  "fst (HandleCommand ResetDevice (Some Increment) None (ex_command CommandQuarantineDevice) (NewMemory, NewMemory)) \<noteq> None"
proof -
  obtain r m' rec' where "HandleCommand ResetDevice (Some Increment) None (ex_command CommandQuarantineDevice) (NewMemory, NewMemory) = (r, (m', rec'))"
    by (metis prod.collapse)
  from command_effect[OF this] this show ?thesis by (simp add: ex_command_def)
qed

end
