(* ===== verification/HttpIngest.thy ===== *)
theory HttpIngest
  imports Services
begin

text \<open>
  The HTTP edge: the wire form of a batch (\<^verbatim>\<open>internal/wire/edge.go\<close>), the ingest endpoint
  (\<^verbatim>\<open>internal/httpingest/server.go\<close>) and the in-process transport (\<^verbatim>\<open>internal/transport/loopback.go\<close>).
  JSON encoding and decoding are parameters: \<open>marshal\<close> is \<^verbatim>\<open>json.Marshal\<close> of the payload and
  \<open>decode limit\<close> is the decoder applied to a body cut at the limit. The lemmas say
  which batches reach the ingest service and that a batch survives the trip.
\<close>

section \<open>The wire form (edge.go)\<close>

record EdgeEvent =
  ee_UserID :: string
  ee_ProcessID :: int
  ee_Kind :: "8 word"
  ee_ObservedAtUnixNanos :: int
  ee_LatencyNanos :: int
  ee_Bytes :: int
  ee_Failed :: bool

record EdgeBatch =
  eb_DeviceID :: string
  eb_Events :: "EdgeEvent list"

definition edge_event :: "Event \<Rightarrow> EdgeEvent" where
  "edge_event e = \<lparr>ee_UserID = ev_UserID e, ee_ProcessID = ev_ProcessID e, ee_Kind = ev_Kind e,
     ee_ObservedAtUnixNanos = UnixNano (ev_ObservedAt e), ee_LatencyNanos = ev_LatencyNanos e, ee_Bytes = ev_Bytes e, ee_Failed = ev_Failed e\<rparr>"

definition edge_payload :: "Batch \<Rightarrow> EdgeBatch" where
  "edge_payload b = \<lparr>eb_DeviceID = b_DeviceID b, eb_Events = map edge_event (b_Events b)\<rparr>"

definition EncodeEdgeBatch :: "(EdgeBatch \<Rightarrow> error + string) \<Rightarrow> Batch \<Rightarrow> error + string" where
  "EncodeEdgeBatch marshal b =
     (case marshal (edge_payload b) of Inl err \<Rightarrow> Inl (Wrap ''wire: encoding edge batch'' err) | Inr body \<Rightarrow> Inr body)"

section \<open>The ingest endpoint (server.go)\<close>

definition DefaultIdentityHeader :: string where "DefaultIdentityHeader = ''X-Device-Id''"
definition DefaultMaxBodyBytes :: int where "DefaultMaxBodyBytes = 8388608"
definition MetricRequestsAccepted :: string where "MetricRequestsAccepted = ''http_ingest_accepted''"
definition MetricRequestsRejected :: string where "MetricRequestsRejected = ''http_ingest_rejected''"
definition MetricRequestsUnauthentic :: string where "MetricRequestsUnauthentic = ''http_ingest_unauthenticated''"

definition StatusAccepted :: int where "StatusAccepted = 202"
definition StatusBadRequest :: int where "StatusBadRequest = 400"
definition StatusUnauthorized :: int where "StatusUnauthorized = 401"
definition StatusForbidden :: int where "StatusForbidden = 403"

lemmas status_defs = StatusAccepted_def StatusBadRequest_def StatusUnauthorized_def StatusForbidden_def

text \<open>The environment variable and the host name, when it can be read, are arguments.\<close>

definition LocalPodID :: "string \<Rightarrow> string option \<Rightarrow> string" where
  "LocalPodID env host =
     (if env \<noteq> [] then env else case host of Some h \<Rightarrow> h | None \<Rightarrow> ''unknown-pod'')"

record HttpConfig =
  hc_IdentityHeader :: string
  hc_MaxBodyBytes :: int
  hc_AllowedClientCNs :: "string list"
  hc_PodID :: string

record HttpServer =
  hs_identityHeader :: string
  hs_maxBodyBytes :: int
  hs_allowedClients :: "string set"
  hs_podID :: string

definition NewHttpServer :: "string \<Rightarrow> HttpConfig \<Rightarrow> HttpServer" where
  "NewHttpServer localPod c =
     \<lparr>hs_identityHeader = (if hc_IdentityHeader c = [] then DefaultIdentityHeader else hc_IdentityHeader c),
      hs_maxBodyBytes = (if hc_MaxBodyBytes c \<le> 0 then DefaultMaxBodyBytes else hc_MaxBodyBytes c),
      hs_allowedClients = set (filter (\<lambda>n. n \<noteq> []) (hc_AllowedClientCNs c)),
      hs_podID = (if hc_PodID c = [] then localPod else hc_PodID c)\<rparr>"

text \<open>\<open>rq_peerCN\<close> is the common name of the first peer certificate, \<open>None\<close> without TLS or without certificates.\<close>

record Request =
  rq_ctx :: ctx
  rq_peerCN :: "string option"
  rq_header :: "string \<Rightarrow> string"
  rq_body :: string

definition peerIsAuthorisedEdge :: "HttpServer \<Rightarrow> Request \<Rightarrow> bool" where
  "peerIsAuthorisedEdge s r =
     (if hs_allowedClients s = {} then True
      else case rq_peerCN r of None \<Rightarrow> False | Some cn \<Rightarrow> cn \<in> hs_allowedClients s)"

text \<open>\<open>clock i\<close> is the \<open>i\<close>-th reading of the server's clock.\<close>

definition to_event :: "HttpServer \<Rightarrow> string \<Rightarrow> time \<Rightarrow> EdgeEvent \<Rightarrow> Event" where
  "to_event s deviceID now e =
     \<lparr>ev_DeviceID = deviceID, ev_UserID = ee_UserID e, ev_ProcessID = ee_ProcessID e, ev_PodID = hs_podID s,
      ev_Kind = (if EventKind_Valid (ee_Kind e) then ee_Kind e else EventKindSyscall),
      ev_ObservedAt = (if 0 < ee_ObservedAtUnixNanos e then Unix (ee_ObservedAtUnixNanos e) else now),
      ev_LatencyNanos = ee_LatencyNanos e, ev_Bytes = ee_Bytes e, ev_Failed = ee_Failed e\<rparr>"

definition toBatch :: "HttpServer \<Rightarrow> (nat \<Rightarrow> time) \<Rightarrow> string \<Rightarrow> EdgeBatch \<Rightarrow> error + Batch" where
  "toBatch s clock deviceID payload =
     (let batch = \<lparr>b_DeviceID = deviceID, b_CreatedAt = clock 0,
                   b_Events = map (\<lambda>(i, e). to_event s deviceID (clock (Suc i)) e) (enumerate 0 (eb_Events payload))\<rparr>
      in case Batch_Validate batch of Some err \<Rightarrow> Inl err | None \<Rightarrow> Inr batch)"

type_synonym 's BatchAcceptor = "ctx \<Rightarrow> string \<Rightarrow> Batch \<Rightarrow> 's \<Rightarrow> error option \<times> 's"

text \<open>The handler returns the status it writes; the text of a response, which no client of the program reads, is not modelled.\<close>

definition http_ingest :: "'s BatchAcceptor \<Rightarrow> 'm MetricsRecorder \<Rightarrow> (int \<Rightarrow> string \<Rightarrow> EdgeBatch option) \<Rightarrow> HttpServer \<Rightarrow> (nat \<Rightarrow> time) \<Rightarrow> Request
    \<Rightarrow> 's \<times> 'm \<Rightarrow> int \<times> ('s \<times> 'm)" where
  "http_ingest accept met decode s clock r st =
     (if \<not> peerIsAuthorisedEdge s r then (StatusForbidden, svc_record met MetricRequestsUnauthentic 1 st)
      else let deviceID = rq_header r (hs_identityHeader s) in
        if deviceID = [] then (StatusUnauthorized, svc_record met MetricRequestsUnauthentic 1 st)
        else case decode (hs_maxBodyBytes s) (rq_body r) of
          None \<Rightarrow> (StatusBadRequest, svc_record met MetricRequestsRejected 1 st)
        | Some payload \<Rightarrow>
            if eb_DeviceID payload \<noteq> [] \<and> eb_DeviceID payload \<noteq> deviceID
            then (StatusForbidden, svc_record met MetricRequestsRejected 1 st)
            else case toBatch s clock deviceID payload of
              Inl err \<Rightarrow> (StatusBadRequest, svc_record met MetricRequestsRejected 1 st)
            | Inr batch \<Rightarrow>
                (case accept (rq_ctx r) deviceID batch (fst st) of
                   (Some err, a) \<Rightarrow>
                     if errors_Is err ErrDeviceMismatch
                     then (StatusForbidden, svc_record met MetricRequestsRejected 1 (a, snd st))
                     else (StatusBadRequest, svc_record met MetricRequestsRejected 1 (a, snd st))
                 | (None, a) \<Rightarrow> (StatusAccepted, svc_record met MetricRequestsAccepted 1 (a, snd st))))"

definition http_health :: int where "http_health = 200"

section \<open>The in-process transport (loopback.go)\<close>

record Loopback = lb_identity :: string

definition Loopback_Send :: "'s BatchAcceptor \<Rightarrow> Loopback \<Rightarrow> ctx \<Rightarrow> Batch \<Rightarrow> 's \<Rightarrow> error option \<times> 's" where
  "Loopback_Send accept l ctx b s = accept ctx (lb_identity l) b s"

section \<open>Lemmas\<close>

lemma toBatch_acceptable:
  assumes "toBatch s clock dev p = Inr b" and "dev \<noteq> []"
  shows "acceptable dev b" and "\<forall>e \<in> set (b_Events b). ev_PodID e = hs_podID s" and "length (b_Events b) = length (eb_Events p)"
    and "b_DeviceID b = dev"
  using assms by (auto simp: toBatch_def Let_def acceptable_def Batch_Validate_None to_event_def split: option.splits)

text \<open>The answers of the endpoint on top of the ingest service.\<close>

lemma http_ingest_cases:
  assumes "http_ingest (Accept pub met1) met decode s clock r ((p, m1), m) = (status, ((p', m1'), m'))"
  obtains (refused) "status \<in> {StatusForbidden, StatusUnauthorized, StatusBadRequest}" "p' = p"
  | (published) b where "peerIsAuthorisedEdge s r" "rq_header r (hs_identityHeader s) \<noteq> []" "acceptable (rq_header r (hs_identityHeader s)) b"
      "\<forall>e \<in> set (b_Events b). ev_PodID e = hs_podID s" "p' = snd (pub (rq_ctx r) (rq_header r (hs_identityHeader s)) b p)"
      "case fst (pub (rq_ctx r) (rq_header r (hs_identityHeader s)) b p) of
         None \<Rightarrow> status = StatusAccepted
       | Some err \<Rightarrow> status = (if errors_Is err ErrDeviceMismatch then StatusForbidden else StatusBadRequest)"
proof -
  let ?dev = "rq_header r (hs_identityHeader s)"
  let ?early = "\<not> peerIsAuthorisedEdge s r \<or> ?dev = []"
  consider (a) "?early" | (b) "\<not> ?early" "decode (hs_maxBodyBytes s) (rq_body r) = None"
    | (c) pl where "\<not> ?early" "decode (hs_maxBodyBytes s) (rq_body r) = Some pl"
        "(eb_DeviceID pl \<noteq> [] \<and> eb_DeviceID pl \<noteq> ?dev) \<or> (\<exists>e. toBatch s clock ?dev pl = Inl e)"
    | (d) pl bt where "\<not> ?early" "decode (hs_maxBodyBytes s) (rq_body r) = Some pl"
        "\<not> (eb_DeviceID pl \<noteq> [] \<and> eb_DeviceID pl \<noteq> ?dev)" "toBatch s clock ?dev pl = Inr bt"
    by (metis option.exhaust sumE)
  then show ?thesis
  proof cases
    case a
    with assms show ?thesis by (intro that(1)) (auto simp: http_ingest_def svc_record_def Let_def split: if_splits option.splits)
  next
    case b
    with assms show ?thesis by (intro that(1)) (auto simp: http_ingest_def svc_record_def Let_def split: option.splits)
  next
    case (c pl)
    with assms show ?thesis by (intro that(1)) (auto simp: http_ingest_def svc_record_def Let_def split: if_splits option.splits)
  next
    case (d pl bt)
    have dev: "?dev \<noteq> []" using d(1) by simp
    note tb = toBatch_acceptable[OF d(4) dev]
    obtain e st where acc: "Accept pub met1 (rq_ctx r) ?dev bt (p, m1) = (e, st)" by (metis prod.collapse)
    note ap = Accept_published[OF tb(1), of pub met1 "rq_ctx r" "(p, m1)"]
    have e: "e = fst (pub (rq_ctx r) ?dev bt p)" "fst st = snd (pub (rq_ctx r) ?dev bt p)" using ap acc by simp_all
    have res: "status = (case e of None \<Rightarrow> StatusAccepted | Some err \<Rightarrow> if errors_Is err ErrDeviceMismatch then StatusForbidden else StatusBadRequest)"
      "(p', m1') = st"
      using assms d acc by (auto simp: http_ingest_def svc_record_def Let_def split: option.splits if_splits)
    show ?thesis
      by (rule that(2)[of bt]) (use d(1) dev tb e res in \<open>auto split: option.split\<close>)
  qed
qed

text \<open>
  Property C23 (the authenticated edge). Every request ends in one of four statuses. The publisher is reached only when the peer is an authorised
  edge and the identity header is set, with a batch that belongs to the header's device throughout, whose events are valid and carry this server's pod;
  the request is accepted exactly when the publisher then accepts that batch.
\<close>

theorem http_ingest_authentic:
  assumes "http_ingest (Accept pub met1) met decode s clock r ((p, m1), m) = (status, ((p', m1'), m'))"
    and "dev = rq_header r (hs_identityHeader s)"
  shows "status \<in> {StatusAccepted, StatusBadRequest, StatusUnauthorized, StatusForbidden} \<and>
    ((p' = p \<and> status \<noteq> StatusAccepted) \<or>
     (\<exists>b. peerIsAuthorisedEdge s r \<and> acceptable dev b \<and> (\<forall>e \<in> set (b_Events b). ev_PodID e = hs_podID s) \<and>
          p' = snd (pub (rq_ctx r) dev b p) \<and> (status = StatusAccepted \<longleftrightarrow> fst (pub (rq_ctx r) dev b p) = None)))"
  using assms(1)
proof (cases rule: http_ingest_cases)
  case refused
  then show ?thesis by (auto simp: status_defs)
next
  case (published b)
  then have "status = StatusAccepted \<longleftrightarrow> fst (pub (rq_ctx r) (rq_header r (hs_identityHeader s)) b p) = None"
    by (auto simp: status_defs split: option.splits if_splits)
  moreover have "status \<in> {StatusAccepted, StatusBadRequest, StatusUnauthorized, StatusForbidden}"
    using published(6) by (auto split: option.splits if_splits)
  ultimately show ?thesis using published unfolding assms(2)
    by (intro conjI disjI2 exI[of _ b]) simp_all
qed

definition ex_server :: HttpServer where
  "ex_server = NewHttpServer ''pod-7'' \<lparr>hc_IdentityHeader = [], hc_MaxBodyBytes = 0, hc_AllowedClientCNs = [''edge''], hc_PodID = []\<rparr>"

definition ex_edge_event :: EdgeEvent where
  "ex_edge_event = \<lparr>ee_UserID = ''u'', ee_ProcessID = 12, ee_Kind = 1, ee_ObservedAtUnixNanos = 5, ee_LatencyNanos = 7, ee_Bytes = 9, ee_Failed = False\<rparr>"

definition ex_request :: "string option \<Rightarrow> Request" where
  "ex_request cn = \<lparr>rq_ctx = None, rq_peerCN = cn, rq_header = (\<lambda>h. if h = ''X-Device-Id'' then ''d'' else []), rq_body = ''{}''\<rparr>"

definition ex_decode :: "int \<Rightarrow> string \<Rightarrow> EdgeBatch option" where
  "ex_decode n body = Some \<lparr>eb_DeviceID = ''d'', eb_Events = [ex_edge_event]\<rparr>"

definition ex_publish :: "Batch list Publisher" where
  "ex_publish ctx dev b q = (None, q @ [b])"

lemmas ex_http_defs = ex_server_def ex_edge_event_def ex_request_def ex_decode_def ex_publish_def NewHttpServer_def DefaultIdentityHeader_def DefaultMaxBodyBytes_def

lemma ex_http_accepts:
  "http_ingest (Accept ex_publish (None :: unit MetricsRecorder)) (None :: unit MetricsRecorder) ex_decode ex_server (\<lambda>_. 1) (ex_request (Some ''edge'')) (([], ()), ())
   = (StatusAccepted, (([\<lparr>b_DeviceID = ''d'', b_CreatedAt = 1, b_Events = [to_event ex_server ''d'' 1 ex_edge_event]\<rparr>], ()), ()))"
  by (simp add: http_ingest_def ex_http_defs peerIsAuthorisedEdge_def toBatch_def Let_def Batch_Validate_def Event_Validate_def to_event_def
    EventKind_Valid_iff IsZero_def zero_time_def Unix_def Accept_def Batch_VerifyIdentity_def svc_record_def)

theorem http_ingest_authentic_witness:
  "\<exists>b. peerIsAuthorisedEdge ex_server (ex_request (Some ''edge'')) \<and> acceptable ''d'' b \<and> (\<forall>e \<in> set (b_Events b). ev_PodID e = ''pod-7'')"
  using http_ingest_authentic[OF ex_http_accepts refl] by (auto simp: ex_http_defs)

section \<open>The trip of a batch from an agent to the ingest service\<close>

definition received :: "HttpServer \<Rightarrow> time \<Rightarrow> Batch \<Rightarrow> Batch" where
  "received s now b = b\<lparr>b_CreatedAt := now, b_Events := map (\<lambda>e. e\<lparr>ev_PodID := hs_podID s\<rparr>) (b_Events b)\<rparr>"

definition encodable :: "Event \<Rightarrow> bool" where
  "encodable e \<longleftrightarrow> 0 < ev_ObservedAt e \<and> in_i64 (ev_ObservedAt e)"

lemma to_event_edge_event:
  "valid_event e \<Longrightarrow> ev_DeviceID e = dev \<Longrightarrow> encodable e \<Longrightarrow> to_event s dev now (edge_event e) = e\<lparr>ev_PodID := hs_podID s\<rparr>"
  by (cases e) (auto simp: to_event_def edge_event_def valid_event_def encodable_def EventKind_Valid_iff UnixNano_def Unix_def)

lemma map_enumerate_const: "\<forall>x \<in> set xs. \<forall>i. f (i, x) = g x \<Longrightarrow> map f (enumerate n xs) = map g xs"
  by (induction xs arbitrary: n) auto

lemma toBatch_edge_payload:
  assumes "acceptable dev b" and "\<forall>e \<in> set (b_Events b). encodable e"
  shows "toBatch s clock dev (edge_payload b) = Inr (received s (clock 0) b)"
proof -
  have events: "map (\<lambda>(i, e). to_event s dev (clock (Suc i)) e) (enumerate 0 (map edge_event (b_Events b)))
      = map (\<lambda>e. e\<lparr>ev_PodID := hs_podID s\<rparr>) (b_Events b)"
    using assms by (subst map_enumerate_const[where g = "\<lambda>e. to_event s dev 0 e"])
      (auto simp: acceptable_def to_event_edge_event comp_def)
  have "Batch_Validate (received s (clock 0) b) = None"
    using assms(1) by (auto simp: acceptable_def Batch_Validate_None received_def valid_event_def)
  moreover have "\<lparr>b_DeviceID = dev, b_CreatedAt = clock 0, b_Events = map (\<lambda>e. e\<lparr>ev_PodID := hs_podID s\<rparr>) (b_Events b)\<rparr> = received s (clock 0) b"
    using assms(1) by (simp add: received_def acceptable_def)
  ultimately show ?thesis using events by (simp add: toBatch_def edge_payload_def Let_def)
qed

text \<open>
  Property C26 (the edge trip). A batch that an agent encodes and posts reaches the ingest service as it was: the same device and, event by event, the same
  contents, with this server's pod and clock filled in; the answer is then the ingest service's. It is assumed of the
  JSON codec that it decodes this payload's encoding to the payload.
\<close>

theorem edge_trip:
  assumes encoded: "EncodeEdgeBatch marshal b = Inr (rq_body r)"
    and codec: "\<And>body. marshal (edge_payload b) = Inr body \<Longrightarrow> decode (hs_maxBodyBytes s) body = Some (edge_payload b)"
    and peer: "peerIsAuthorisedEdge s r" "rq_header r (hs_identityHeader s) = dev"
    and batch: "acceptable dev b" "\<forall>e \<in> set (b_Events b). encodable e"
  shows "fst (snd (http_ingest accept met decode s clock r (a, m))) = snd (accept (rq_ctx r) dev (received s (clock 0) b) a) \<and>
    (fst (http_ingest accept met decode s clock r (a, m)) = StatusAccepted \<longleftrightarrow> fst (accept (rq_ctx r) dev (received s (clock 0) b) a) = None)"
proof -
  have dec: "decode (hs_maxBodyBytes s) (rq_body r) = Some (edge_payload b)"
    using encoded codec by (auto simp: EncodeEdgeBatch_def split: sum.splits)
  have dev: "dev \<noteq> []" "eb_DeviceID (edge_payload b) = dev" using batch(1) by (simp_all add: acceptable_def edge_payload_def)
  obtain e a' where acc: "accept (rq_ctx r) dev (received s (clock 0) b) a = (e, a')" by fastforce
  show ?thesis using dev dec peer toBatch_edge_payload[OF batch, of s clock] acc
    by (cases e) (auto simp: http_ingest_def Let_def status_defs)
qed

definition ex_sent :: Batch where
  "ex_sent = \<lparr>b_DeviceID = ''d'', b_CreatedAt = 3, b_Events = [to_event ex_server ''d'' 1 ex_edge_event]\<rparr>"

lemma ex_sent_ok: "acceptable ''d'' ex_sent" "\<forall>e \<in> set (b_Events ex_sent). encodable e"
  by (simp_all add: acceptable_def ex_sent_def to_event_def ex_http_defs valid_event_def encodable_def EventKind_Valid_iff IsZero_def zero_time_def
    Unix_def in_i64_def MinInt64_def MaxInt64_def)

theorem edge_trip_witness:
  "fst (snd (http_ingest ex_publish (None :: unit MetricsRecorder) (\<lambda>n body. Some (edge_payload ex_sent)) ex_server (\<lambda>_. 1)
      (ex_request (Some ''edge'')) ([], ()))) = [received ex_server 1 ex_sent]"
proof -
  let ?r = "ex_request (Some ''edge'')"
  have "EncodeEdgeBatch (\<lambda>_. Inr ''{}'') ex_sent = Inr (rq_body ?r)" by (simp add: EncodeEdgeBatch_def ex_request_def)
  moreover have "peerIsAuthorisedEdge ex_server ?r" "rq_header ?r (hs_identityHeader ex_server) = ''d''"
    by (simp_all add: peerIsAuthorisedEdge_def ex_http_defs)
  ultimately show ?thesis
    using ex_sent_ok edge_trip[of "\<lambda>_. Inr ''{}''" ex_sent ?r "\<lambda>n body. Some (edge_payload ex_sent)" ex_server "''d''" ex_publish "None :: unit MetricsRecorder" "\<lambda>_. 1" "[]" "()"]
    by (simp add: ex_publish_def)
qed

end
