(* ===== verification/Spool.thy ===== *)
theory Spool
  imports Domain "HOL-Library.Product_Lexorder"
begin

text \<open>
  The agent's on-disk queue of \<^verbatim>\<open>internal/spool/spool.go\<close>, over a model of the directory it
  owns. Every file-system call can fail, as scripted by a list of faults. The lemmas show that the spool is a
  bounded first-in-first-out queue, that its counters and index agree with the directory, and that reopening
  the directory after a crash at any point of an enqueue restores the queue.
\<close>

section \<open>The directory\<close>

text \<open>
  The entries of the spool's directory by name. A call that consumes a fault \<open>True\<close> fails with an I/O error
  and has no effect, except that a failed write leaves the file truncated; when the script is used up
  every call succeeds.
\<close>

datatype inode = Regular bytes | Special

record fsys =
  fs_files :: "(string \<times> inode) list"
  fs_faults :: "bool list"

definition ErrNotExist :: error where [go_error_defs]: "ErrNotExist = Err ''file does not exist''"
definition ErrIO :: error where [go_error_defs]: "ErrIO = Err ''input/output error''"

definition fault :: "fsys \<Rightarrow> bool \<times> fsys" where
  "fault f = (case fs_faults f of [] \<Rightarrow> (False, f) | b # bs \<Rightarrow> (b, f\<lparr>fs_faults := bs\<rparr>))"

definition os_Remove :: "string \<Rightarrow> fsys \<Rightarrow> error option \<times> fsys" where
  "os_Remove name f0 =
     (let (bad, f) = fault f0
      in if bad then (Some ErrIO, f)
         else if map_of (fs_files f) name = None then (Some ErrNotExist, f)
         else (None, f\<lparr>fs_files := AList.delete name (fs_files f)\<rparr>))"

definition os_Rename :: "string \<Rightarrow> string \<Rightarrow> fsys \<Rightarrow> error option \<times> fsys" where
  "os_Rename old new f0 =
     (let (bad, f) = fault f0
      in if bad then (Some ErrIO, f)
         else case map_of (fs_files f) old of
           None \<Rightarrow> (Some ErrNotExist, f)
         | Some node \<Rightarrow> (None, f\<lparr>fs_files := AList.update new node (AList.delete old (fs_files f))\<rparr>))"

text \<open>\<^verbatim>\<open>os.ReadDir\<close> returns the entries sorted by name.\<close>

definition os_ReadDir :: "fsys \<Rightarrow> (error + (string \<times> inode) list) \<times> fsys" where
  "os_ReadDir f0 =
     (let (bad, f) = fault f0
      in if bad then (Inl ErrIO, f) else (Inr (sort_key fst (fs_files f)), f))"

definition os_Lstat :: "string \<Rightarrow> fsys \<Rightarrow> (error + inode) \<times> fsys" where
  "os_Lstat name f0 =
     (let (bad, f) = fault f0
      in if bad then (Inl ErrIO, f)
         else case map_of (fs_files f) name of None \<Rightarrow> (Inl ErrNotExist, f) | Some node \<Rightarrow> (Inr node, f))"

definition os_ReadFile :: "string \<Rightarrow> fsys \<Rightarrow> (error + bytes) \<times> fsys" where
  "os_ReadFile name f0 =
     (let (bad, f) = fault f0
      in if bad then (Inl ErrIO, f)
         else case map_of (fs_files f) name of
           None \<Rightarrow> (Inl ErrNotExist, f)
         | Some (Regular b) \<Rightarrow> (Inr b, f)
         | Some Special \<Rightarrow> (Inl ErrIO, f))"

text \<open>A call that only reports success or failure: creating the directory, changing its mode, syncing.\<close>

definition os_call :: "fsys \<Rightarrow> error option \<times> fsys" where
  "os_call f0 = (let (bad, f) = fault f0 in (if bad then Some ErrIO else None, f))"

definition os_OpenFile :: "string \<Rightarrow> fsys \<Rightarrow> error option \<times> fsys" where
  "os_OpenFile name f0 =
     (let (bad, f) = fault f0
      in if bad \<or> map_of (fs_files f) name = Some Special then (Some ErrIO, f)
         else (None, f\<lparr>fs_files := AList.update name (Regular []) (fs_files f)\<rparr>))"

definition os_Write :: "string \<Rightarrow> bytes \<Rightarrow> fsys \<Rightarrow> error option \<times> fsys" where
  "os_Write name payload f0 =
     (let (bad, f) = fault f0
      in if bad then (Some ErrIO, f)
         else (None, f\<lparr>fs_files := AList.update name (Regular payload) (fs_files f)\<rparr>))"

section \<open>State\<close>

definition ErrNoDirectory :: error where [go_error_defs]: "ErrNoDirectory = Err ''spool: directory is required''"
definition ErrInvalidBudget :: error where [go_error_defs]: "ErrInvalidBudget = Err ''spool: max bytes must be positive''"
definition ErrEmpty :: error where [go_error_defs]: "ErrEmpty = Err ''spool: no entries''"
definition ErrTooLarge :: error where [go_error_defs]: "ErrTooLarge = Err ''spool: payload exceeds the entire budget''"
definition ErrEmptyPayload :: error where [go_error_defs]: "ErrEmptyPayload = Err ''spool: refusing to spool an empty payload''"
definition ErrTooMany :: error where [go_error_defs]: "ErrTooMany = Err ''spool: entry count exceeds the budget's index ceiling''"
definition ErrInvalidName :: error where [go_error_defs]: "ErrInvalidName = Err ''spool: entry name is not a plain filename''"

definition extension :: string where "extension = ''.batch''"
definition partial :: string where "partial = ''.partial''"
definition minBudgetPerEntry :: int where "minBudgetPerEntry = 1024"
definition minEntries :: int where "minEntries = 64"

text \<open>\<open>sp_seq\<close> is a \<^verbatim>\<open>uint64\<close>; \<open>sp_sizes\<close> is the map from names to sizes.\<close>

record Spool =
  sp_maxBytes :: int
  sp_maxEntries :: int
  sp_order :: "string list"
  sp_sizes :: "(string \<times> int) list"
  sp_bytes :: int
  sp_seq :: nat
  sp_enqueued :: int
  sp_dequeued :: int
  sp_dropped :: int
  sp_dropFailures :: int

record SpoolStats =
  st_Enqueued :: int
  st_Dequeued :: int
  st_Dropped :: int
  st_DropFailures :: int
  st_Bytes :: int
  st_Entries :: int

definition Stats :: "Spool \<Rightarrow> SpoolStats" where
  "Stats s = \<lparr>st_Enqueued = sp_enqueued s, st_Dequeued = sp_dequeued s, st_Dropped = sp_dropped s,
     st_DropFailures = sp_dropFailures s, st_Bytes = sp_bytes s, st_Entries = int (length (sp_order s))\<rparr>"

section \<open>Names\<close>

definition parseName :: "string \<Rightarrow> (int \<times> nat) option" where
  "parseName name =
     (let trimmed = TrimSuffix name extension;
          separator = LastIndexByte trimmed (CHR ''-'')
      in if separator < 0 then None
         else case ParseInt (take (nat separator) trimmed) of
           None \<Rightarrow> None
         | Some ordinal \<Rightarrow>
             (case ParseUint (drop (nat separator + 1) trimmed) of
                None \<Rightarrow> None
              | Some sequence \<Rightarrow> Some (ordinal, sequence)))"

definition entry_name :: "int \<Rightarrow> nat \<Rightarrow> string" where
  "entry_name ordinal sequence = pad20 ordinal @ ''-'' @ pad20 (int sequence) @ extension"

text \<open>
  The search for a free name. The loop of the code has no bound of its own; it stops after at most one more
  step than there are names in use, which is the fuel, and \<open>nextName_finds\<close> shows that it is enough.
\<close>

definition bump_seq :: "nat \<Rightarrow> nat" where "bump_seq n = (n + 1) mod 18446744073709551616"

fun nextName_loop :: "nat \<Rightarrow> Spool \<Rightarrow> (string \<times> Spool) option" where
  "nextName_loop 0 s = None"
| "nextName_loop (Suc fuel) s =
     (let s1 = s\<lparr>sp_seq := bump_seq (sp_seq s)\<rparr>;
          name = entry_name (wrap64 (sp_enqueued s1 + 1)) (sp_seq s1)
      in if map_of (sp_sizes s1) name = None then Some (name, s1) else nextName_loop fuel s1)"

definition nextName :: "Spool \<Rightarrow> (string \<times> Spool) option" where
  "nextName s = nextName_loop (Suc (length (sp_sizes s))) s"

section \<open>Removal\<close>

definition forget :: "string \<Rightarrow> Spool \<Rightarrow> Spool" where
  "forget name s =
     (case map_of (sp_sizes s) name of
        None \<Rightarrow> s
      | Some sz \<Rightarrow>
          let b = wrap64 (sp_bytes s - sz)
          in s\<lparr>sp_bytes := (if b < 0 then 0 else b), sp_sizes := AList.delete name (sp_sizes s),
               sp_order := remove1 name (sp_order s)\<rparr>)"

definition removeLocked :: "string \<Rightarrow> Spool \<times> fsys \<Rightarrow> error option \<times> (Spool \<times> fsys)" where
  "removeLocked name sf =
     (if Base name \<noteq> name \<or> name = ''.'' \<or> name = ''/'' then (Some (Wrap name ErrInvalidName), sf)
      else case os_Remove name (snd sf) of
        (Some err, f) \<Rightarrow>
          if errors_Is err ErrNotExist then (None, (forget name (fst sf), f))
          else (Some (Wrap (''spool: removing entry '' @ name) err), (fst sf, f))
      | (None, f) \<Rightarrow> (None, (forget name (fst sf), f)))"

definition add_dropped :: "Spool \<Rightarrow> Spool" where "add_dropped s = s\<lparr>sp_dropped := wrap64 (sp_dropped s + 1)\<rparr>"
definition add_dropFailure :: "Spool \<Rightarrow> Spool" where "add_dropFailure s = s\<lparr>sp_dropFailures := wrap64 (sp_dropFailures s + 1)\<rparr>"

text \<open>
  Both trimming loops remove the oldest entry while a condition on the spool holds and entries are left; the
  fuel is the number of entries, each round removes one.
\<close>

fun drop_oldest :: "nat \<Rightarrow> (Spool \<Rightarrow> bool) \<Rightarrow> Spool \<times> fsys \<Rightarrow> Spool \<times> fsys" where
  "drop_oldest 0 over sf = sf"
| "drop_oldest (Suc fuel) over (s, f) =
     (if over s \<and> sp_order s \<noteq> [] then
        (case removeLocked (hd (sp_order s)) (s, f) of
           (Some err, (s1, f1)) \<Rightarrow> (add_dropFailure s1, f1)
         | (None, (s1, f1)) \<Rightarrow> drop_oldest fuel over (add_dropped s1, f1))
      else (s, f))"

definition trimToBudget :: "Spool \<times> fsys \<Rightarrow> Spool \<times> fsys" where
  "trimToBudget sf =
     drop_oldest (length (sp_order (fst sf)))
       (\<lambda>s. sp_maxBytes s < sp_bytes s \<or> sp_maxEntries s < int (length (sp_order s))) sf"

section \<open>Queue operations\<close>

definition writeFileSynced :: "string \<Rightarrow> bytes \<Rightarrow> fsys \<Rightarrow> error option \<times> fsys" where
  "writeFileSynced path payload f =
     (case os_OpenFile path f of
        (Some err, f1) \<Rightarrow> (Some (Wrap ''spool: writing entry'' err), f1)
      | (None, f1) \<Rightarrow>
          (case os_Write path payload f1 of
             (Some err, f2) \<Rightarrow> (Some (Wrap ''spool: writing entry'' err), snd (os_call f2))
           | (None, f2) \<Rightarrow>
               (case os_call f2 of
                  (Some err, f3) \<Rightarrow> (Some (Wrap ''spool: syncing entry'' err), snd (os_call f3))
                | (None, f3) \<Rightarrow>
                    (case os_call f3 of
                       (Some err, f4) \<Rightarrow> (Some (Wrap ''spool: closing entry'' err), f4)
                     | (None, f4) \<Rightarrow> (None, f4)))))"

definition syncDirectory :: "fsys \<Rightarrow> error option \<times> fsys" where
  "syncDirectory f = (case os_call f of (Some err, f1) \<Rightarrow> (Some err, f1) | (None, f1) \<Rightarrow> os_call f1)"

definition add_entry :: "string \<Rightarrow> int \<Rightarrow> Spool \<Rightarrow> Spool" where
  "add_entry name sz s =
     s\<lparr>sp_order := sp_order s @ [name], sp_sizes := AList.update name sz (sp_sizes s),
       sp_bytes := wrap64 (sp_bytes s + sz), sp_enqueued := wrap64 (sp_enqueued s + 1)\<rparr>"

definition publish_entry :: "string \<Rightarrow> bytes \<Rightarrow> Spool \<times> fsys \<Rightarrow> error option \<times> (Spool \<times> fsys)" where
  "publish_entry name payload sf =
     (let temp = name @ partial in
      case writeFileSynced temp payload (snd sf) of
        (Some err, f1) \<Rightarrow> (Some err, (fst sf, snd (os_Remove temp f1)))
      | (None, f1) \<Rightarrow>
          (case os_Rename temp name f1 of
             (Some err, f2) \<Rightarrow> (Some (Wrap ''spool: publishing entry'' err), (fst sf, snd (os_Remove temp f2)))
           | (None, f2) \<Rightarrow>
               let s1 = add_entry name (int (length payload)) (fst sf)
               in case syncDirectory f2 of
                    (Some err, f3) \<Rightarrow> (Some (Wrap (''spool: syncing directory after publishing '' @ name) err), (s1, f3))
                  | (None, f3) \<Rightarrow> (None, (s1, f3))))"

definition Enqueue :: "bytes \<Rightarrow> Spool \<times> fsys \<Rightarrow> error option \<times> (Spool \<times> fsys)" where
  "Enqueue payload sf =
     (let s = fst sf; sz = int (length payload) in
      if payload = [] then (Some ErrEmptyPayload, sf)
      else if sp_maxBytes s < sz then (Some ErrTooLarge, (add_dropped s, snd sf))
      else let (s1, f1) = drop_oldest (length (sp_order s)) (\<lambda>s. sp_maxBytes s < wrap64 (sp_bytes s + sz)) sf
           in if sp_maxEntries s1 \<le> int (length (sp_order s1))
              then (Some (Wrap (AppendInt (sp_maxEntries s1) @ '' entries'') ErrTooMany), (add_dropped s1, f1))
              else case nextName s1 of
                None \<Rightarrow> (Some ErrIO, (s1, f1))
              | Some (name, s2) \<Rightarrow> publish_entry name payload (s2, f1))"

definition Peek :: "Spool \<times> fsys \<Rightarrow> (error + bytes \<times> string) \<times> (Spool \<times> fsys)" where
  "Peek sf =
     (let s = fst sf in
      if sp_order s = [] then (Inl ErrEmpty, sf)
      else let name = hd (sp_order s)
           in case os_Lstat name (snd sf) of
                (Inl err, f1) \<Rightarrow>
                  (Inl (Wrap ''spool: reading entry'' err),
                   if errors_Is err ErrNotExist then snd (removeLocked name (s, f1)) else (s, f1))
              | (Inr Special, f1) \<Rightarrow>
                  (Inl (Wrap (name @ '' is not a regular file'') ErrInvalidName), snd (removeLocked name (s, f1)))
              | (Inr (Regular b), f1) \<Rightarrow>
                  (case os_ReadFile name f1 of
                     (Inl err, f2) \<Rightarrow>
                       (Inl (Wrap ''spool: reading entry'' err),
                        if errors_Is err ErrNotExist then snd (removeLocked name (s, f2)) else (s, f2))
                   | (Inr payload, f2) \<Rightarrow> (Inr (payload, name), (s, f2))))"

definition Spool_Release :: "string \<Rightarrow> Spool \<times> fsys \<Rightarrow> error option \<times> (Spool \<times> fsys)" where
  "Spool_Release name sf =
     (if map_of (sp_sizes (fst sf)) name = None then (None, sf)
      else case removeLocked name sf of
        (Some err, sf1) \<Rightarrow> (Some err, sf1)
      | (None, (s1, f1)) \<Rightarrow> (None, (s1\<lparr>sp_dequeued := wrap64 (sp_dequeued s1 + 1)\<rparr>, f1)))"

section \<open>Opening and recovery\<close>

record entry =
  en_name :: string
  en_ordinal :: int
  en_sequence :: nat

definition observe :: "int \<Rightarrow> nat \<Rightarrow> Spool \<Rightarrow> Spool" where
  "observe ordinal sequence s =
     (let s1 = (if sp_enqueued s < ordinal then s\<lparr>sp_enqueued := ordinal\<rparr> else s)
      in if sp_seq s1 < sequence then s1\<lparr>sp_seq := sequence\<rparr> else s1)"

fun recover_loop :: "(string \<times> inode) list \<Rightarrow> entry list \<Rightarrow> Spool \<times> fsys \<Rightarrow> (error + entry list) \<times> (Spool \<times> fsys)" where
  "recover_loop [] found sf = (Inr found, sf)"
| "recover_loop ((name, node) # es) found (s, f) =
     (if Ext name = partial then recover_loop es found (s, snd (os_Remove name f))
      else if Ext name \<noteq> extension then recover_loop es found (s, f)
      else case node of
        Special \<Rightarrow> recover_loop es found (s, f)
      | Regular b \<Rightarrow>
          (case os_call f of
             (Some err, f1) \<Rightarrow> (Inl (Wrap (''spool: inspecting entry '' @ name) err), (s, f1))
           | (None, f1) \<Rightarrow>
               (case parseName name of
                  None \<Rightarrow> recover_loop es found (s, f1)
                | Some (ordinal, sequence) \<Rightarrow>
                    let s1 = s\<lparr>sp_sizes := AList.update name (int (length b)) (sp_sizes s), sp_bytes := wrap64 (sp_bytes s + int (length b))\<rparr>
                    in recover_loop es (found @ [\<lparr>en_name = name, en_ordinal = ordinal, en_sequence = sequence\<rparr>])
                         (observe ordinal sequence s1, f1))))"

text \<open>The key of the sort, compared lexicographically.\<close>

definition spool_recover :: "Spool \<times> fsys \<Rightarrow> error option \<times> (Spool \<times> fsys)" where
  "spool_recover sf =
     (case os_ReadDir (snd sf) of
        (Inl err, f1) \<Rightarrow> (Some (Wrap ''spool: reading directory'' err), (fst sf, f1))
      | (Inr entries, f1) \<Rightarrow>
          (case recover_loop entries [] (fst sf, f1) of
             (Inl err, sf2) \<Rightarrow> (Some err, sf2)
           | (Inr found, (s2, f2)) \<Rightarrow>
               (None, (s2\<lparr>sp_order := map en_name (sort_key (\<lambda>e. (en_ordinal e, en_sequence e)) found)\<rparr>, f2))))"

definition Spool_Open :: "string \<Rightarrow> int \<Rightarrow> fsys \<Rightarrow> (error + Spool) \<times> fsys" where
  "Spool_Open dir maxBytes f =
     (if dir = [] then (Inl ErrNoDirectory, f)
      else if maxBytes \<le> 0 then (Inl ErrInvalidBudget, f)
      else case os_call f of
        (Some err, f1) \<Rightarrow> (Inl (Wrap ''spool: creating directory'' err), f1)
      | (None, f1) \<Rightarrow>
          (case os_call f1 of
             (Some err, f2) \<Rightarrow> (Inl (Wrap ''spool: restricting directory permissions'' err), f2)
           | (None, f2) \<Rightarrow>
               let budgeted = maxBytes div minBudgetPerEntry;
                   s = \<lparr>sp_maxBytes = maxBytes, sp_maxEntries = (if budgeted < minEntries then minEntries else budgeted),
                        sp_order = [], sp_sizes = [], sp_bytes = 0, sp_seq = 0, sp_enqueued = 0, sp_dequeued = 0,
                        sp_dropped = 0, sp_dropFailures = 0\<rparr>
               in case spool_recover (s, f2) of
                    (Some err, (s3, f3)) \<Rightarrow> (Inl err, f3)
                  | (None, sf3) \<Rightarrow> (let (s4, f4) = trimToBudget sf3 in (Inr s4, f4))))"

section \<open>Names of entries\<close>

lemma no_minus_pad20: "0 \<le> n \<Longrightarrow> CHR ''-'' \<notin> set (pad20 n)"
  using pad20_all_digit by fastforce

lemma parseName_entry_name:
  assumes "0 \<le> ordinal" and "ordinal \<le> MaxInt64" and "sequence < 18446744073709551616"
  shows "parseName (entry_name ordinal sequence) = Some (ordinal, sequence)"
proof -
  let ?t = "pad20 ordinal @ CHR ''-'' # pad20 (int sequence)"
  have "TrimSuffix (?t @ extension) extension = ?t" by (rule TrimSuffix_append)
  moreover have "LastIndexByte ?t (CHR ''-'') = int (length (pad20 ordinal))"
    by (rule LastIndexByte_append) (simp add: no_minus_pad20)
  ultimately show ?thesis
    using assms by (simp add: parseName_def entry_name_def Let_def ParseInt_pad20 ParseUint_pad20)
qed

lemma Ext_entry_name [simp]: "Ext (entry_name ordinal sequence) = extension"
  using Ext_append_dot[of "''batch''" "pad20 ordinal @ ''-'' @ pad20 (int sequence)"] by (simp add: entry_name_def extension_def)

lemma Ext_partial [simp]: "Ext (name @ partial) = partial"
  using Ext_append_dot[of "''partial''" name] by (simp add: partial_def)

lemma partial_neq_extension [simp]: "partial \<noteq> extension" "extension \<noteq> partial"
  by (simp_all add: partial_def extension_def)

lemma entry_name_plain:
  assumes "0 \<le> ordinal"
  shows "Base (entry_name ordinal sequence) = entry_name ordinal sequence"
    and "entry_name ordinal sequence \<noteq> ''.''" and "entry_name ordinal sequence \<noteq> ''/''"
proof -
  have "CHR ''/'' \<notin> set (pad20 n)" if "0 \<le> n" for n using pad20_all_digit[OF that] by fastforce
  then have "CHR ''/'' \<notin> set (entry_name ordinal sequence)" using assms by (simp add: entry_name_def extension_def)
  then show "Base (entry_name ordinal sequence) = entry_name ordinal sequence"
    by (intro Base_plain) (simp_all add: entry_name_def)
  have "6 \<le> length (entry_name ordinal sequence)" by (simp add: entry_name_def extension_def)
  then show "entry_name ordinal sequence \<noteq> ''.''" "entry_name ordinal sequence \<noteq> ''/''" by auto
qed

lemma entry_name_inj:
  assumes "entry_name o1 q1 = entry_name o2 q2" and "0 \<le> o1" "o1 \<le> MaxInt64" and "0 \<le> o2" "o2 \<le> MaxInt64"
    and "q1 < 18446744073709551616" and "q2 < 18446744073709551616"
  shows "o1 = o2 \<and> q1 = q2"
proof -
  have "Some (o1, q1) = Some (o2, q2)"
    unfolding parseName_entry_name[OF assms(2,3,6), symmetric] parseName_entry_name[OF assms(4,5,7), symmetric] assms(1) ..
  then show ?thesis by simp
qed

text \<open>
  The search finds a name that is not in use: consecutive sequence numbers give different names, so
  one of the first names tried, one more than there are entries, is free.
\<close>

lemma mod_bump: "((a + 1) mod M + i) mod M = (a + Suc i) mod (M :: nat)"
  by (simp add: mod_add_left_eq)

lemma mod_shift_inj:
  assumes "(a + i) mod M = (a + j) mod (M :: nat)" and "i < M" and "j < M"
  shows "i = j"
proof -
  have le: "x = y" if "x \<le> y" "y < M" "(a + x) mod M = (a + y) mod M" for x y
  proof -
    have "M dvd (a + y) - (a + x)" using that by (metis add_le_mono order_refl mod_eq_dvd_iff_nat)
    then have "M dvd y - x" by simp
    then show ?thesis using that(1,2) by (metis dvd_imp_le diff_is_0_eq le_antisym less_imp_diff_less not_le zero_less_diff)
  qed
  show ?thesis using le[of i j] le[of j i] assms by (cases "i \<le> j") auto
qed

definition try_name :: "Spool \<Rightarrow> nat \<Rightarrow> string" where
  "try_name s i = entry_name (wrap64 (sp_enqueued s + 1)) ((sp_seq s + i) mod 18446744073709551616)"

lemma try_name_bump: "try_name (s\<lparr>sp_seq := bump_seq (sp_seq s)\<rparr>) i = try_name s (Suc i)"
proof -
  have "sp_seq (s\<lparr>sp_seq := q\<rparr>) = q" "sp_enqueued (s\<lparr>sp_seq := q\<rparr>) = sp_enqueued s" for q by simp_all
  then show ?thesis unfolding try_name_def bump_seq_def by (simp only: mod_bump)
qed

lemma nextName_loop_finds:
  "i < n \<Longrightarrow> map_of (sp_sizes s) (try_name s (Suc i)) = None \<Longrightarrow>
   \<exists>q. nextName_loop n s = Some (entry_name (wrap64 (sp_enqueued s + 1)) q, s\<lparr>sp_seq := q\<rparr>) \<and> q < 18446744073709551616 \<and>
     map_of (sp_sizes s) (entry_name (wrap64 (sp_enqueued s + 1)) q) = None"
proof (induction n arbitrary: s i)
  case (Suc n)
  let ?s = "s\<lparr>sp_seq := bump_seq (sp_seq s)\<rparr>"
  have lt: "bump_seq (sp_seq s) < 18446744073709551616" by (simp add: bump_seq_def)
  show ?case
  proof (cases "map_of (sp_sizes s) (entry_name (wrap64 (sp_enqueued s + 1)) (bump_seq (sp_seq s)))")
    case None
    with lt show ?thesis by (intro exI[of _ "bump_seq (sp_seq s)"]) (simp add: Let_def)
  next
    case (Some z)
    have "try_name s 1 = entry_name (wrap64 (sp_enqueued s + 1)) (bump_seq (sp_seq s))"
      by (simp add: try_name_def bump_seq_def)
    with Some Suc.prems(2) have "i \<noteq> 0" by (metis One_nat_def option.distinct(1))
    then obtain j where j: "i = Suc j" by (cases i) auto
    with Suc.prems have "map_of (sp_sizes ?s) (try_name ?s (Suc j)) = None" by (simp add: try_name_bump)
    from Suc.IH[OF _ this] j Suc.prems(1) Some show ?thesis by (simp add: Let_def)
  qed
qed simp

lemma try_name_inj:
  assumes "0 \<le> sp_enqueued s" and "sp_enqueued s < MaxInt64" and "n \<le> 18446744073709551616"
  shows "inj_on (\<lambda>i. try_name s (Suc i)) {..<n}"
proof (rule inj_onI)
  fix i j assume ij: "i \<in> {..<n}" "j \<in> {..<n}" and eq: "try_name s (Suc i) = try_name s (Suc j)"
  let ?M = "18446744073709551616 :: nat"
  have w: "wrap64 (sp_enqueued s + 1) = sp_enqueued s + 1"
    using assms by (intro wrap64_id) (auto simp: in_i64_def MinInt64_def)
  have "(sp_seq s + Suc i) mod ?M = (sp_seq s + Suc j) mod ?M"
    using entry_name_inj[OF eq[unfolded try_name_def w]] assms(1,2) by simp
  from mod_shift_inj[of "sp_seq s + 1" i ?M j] this show "i = j" using ij assms(3) by (simp add: add.commute)
qed

lemma nextName_finds:
  assumes "0 \<le> sp_enqueued s" and "sp_enqueued s < MaxInt64" and "length (sp_sizes s) < 18446744073709551616"
  shows "\<exists>q. nextName s = Some (entry_name (sp_enqueued s + 1) q, s\<lparr>sp_seq := q\<rparr>) \<and> q < 18446744073709551616 \<and>
    map_of (sp_sizes s) (entry_name (sp_enqueued s + 1) q) = None"
proof -
  let ?n = "Suc (length (sp_sizes s))"
  have "card ((\<lambda>i. try_name s (Suc i)) ` {..<?n}) = ?n"
    using card_image[OF try_name_inj[OF assms(1,2), of ?n]] assms(3) by simp
  moreover have "card (fst ` set (sp_sizes s)) \<le> length (sp_sizes s)" by (metis card_length set_map length_map)
  ultimately have "\<not> (\<lambda>i. try_name s (Suc i)) ` {..<?n} \<subseteq> fst ` set (sp_sizes s)"
    by (metis Suc_n_not_le_n card_mono finite_imageI List.finite_set le_trans)
  then obtain i where "i < ?n" "map_of (sp_sizes s) (try_name s (Suc i)) = None"
    by (auto simp: map_of_eq_None_iff)
  moreover have "wrap64 (sp_enqueued s + 1) = sp_enqueued s + 1"
    using assms by (intro wrap64_id) (auto simp: in_i64_def MinInt64_def)
  ultimately show ?thesis using nextName_loop_finds[of i ?n s] by (simp add: nextName_def)
qed

section \<open>The invariant\<close>

definition ord_of :: "string \<Rightarrow> int" where "ord_of n = fst (the (parseName n))"

definition name_ok :: "int \<Rightarrow> string \<Rightarrow> bool" where
  "name_ok N n \<longleftrightarrow> (\<exists>ordinal q. n = entry_name ordinal q \<and> 0 < ordinal \<and> ordinal \<le> N \<and> q < 18446744073709551616)"

text \<open>
  The index: names are well formed and in the order of their ordinals, the sizes are those of the
  ordered names, and the byte count is their sum. The last conjunct bounds the configured budget so
  that no byte count can leave 64 bits, even when every removal fails.
\<close>

definition spool_ok :: "Spool \<Rightarrow> bool" where
  "spool_ok s \<longleftrightarrow>
     distinct (sp_order s) \<and> distinct (map fst (sp_sizes s)) \<and> set (sp_order s) = fst ` set (sp_sizes s) \<and>
     (\<forall>(n, z) \<in> set (sp_sizes s). 0 \<le> z \<and> z \<le> sp_maxBytes s) \<and> sp_bytes s = alist_sum snd (sp_sizes s) \<and>
     (\<forall>n \<in> set (sp_order s). name_ok (sp_enqueued s) n) \<and> sorted_wrt (\<lambda>m n. ord_of m < ord_of n) (sp_order s) \<and>
     0 \<le> sp_enqueued s \<and> sp_enqueued s \<le> MaxInt64 \<and> 0 < sp_maxBytes s \<and> int (length (sp_order s)) \<le> sp_maxEntries s \<and>
     (sp_maxEntries s + 1) * sp_maxBytes s \<le> MaxInt64"

text \<open>The directory: each indexed name is a regular file of the recorded size, and no other regular file bears an entry's name.\<close>

definition dir_ok :: "Spool \<Rightarrow> fsys \<Rightarrow> bool" where
  "dir_ok s f \<longleftrightarrow>
     distinct (map fst (fs_files f)) \<and>
     (\<forall>n z. map_of (sp_sizes s) n = Some z \<longrightarrow> (\<exists>b. map_of (fs_files f) n = Some (Regular b) \<and> int (length b) = z)) \<and>
     (\<forall>n b. map_of (fs_files f) n = Some (Regular b) \<longrightarrow> Ext n = extension \<longrightarrow> parseName n \<noteq> None \<longrightarrow> n \<in> set (sp_order s))"

definition sinv :: "Spool \<times> fsys \<Rightarrow> bool" where
  "sinv sf \<longleftrightarrow> spool_ok (fst sf) \<and> dir_ok (fst sf) (snd sf)"

text \<open>The abstraction: the payloads in the order of the queue.\<close>

definition content :: "fsys \<Rightarrow> string \<Rightarrow> bytes" where
  "content f n = (case map_of (fs_files f) n of Some (Regular b) \<Rightarrow> b | _ \<Rightarrow> [])"

definition queue :: "Spool \<times> fsys \<Rightarrow> bytes list" where
  "queue sf = map (content (snd sf)) (sp_order (fst sf))"

definition total :: "bytes list \<Rightarrow> int" where
  "total q = sum_list (map (\<lambda>b. int (length b)) q)"

definition no_faults :: "fsys \<Rightarrow> bool" where
  "no_faults f \<longleftrightarrow> True \<notin> set (fs_faults f)"

lemma total_simps [simp]: "total [] = 0" "total (b # q) = int (length b) + total q" "total (q @ q') = total q + total q'"
  by (simp_all add: total_def)

lemma total_nonneg [simp]: "0 \<le> total q"
  by (induction q) simp_all

lemma fault_frame:
  "fault f = (b, f') \<Longrightarrow> fs_files f' = fs_files f \<and> (no_faults f \<longrightarrow> \<not> b \<and> no_faults f')"
  by (auto simp: fault_def no_faults_def split: list.splits)

lemma os_call_frame:
  "os_call f = (r, f') \<Longrightarrow> fs_files f' = fs_files f \<and> (no_faults f \<longrightarrow> r = None \<and> no_faults f')"
  by (auto simp: os_call_def Let_def dest: fault_frame split: prod.splits if_splits)

lemma name_ok_mono: "name_ok N n \<Longrightarrow> N \<le> M \<Longrightarrow> name_ok M n"
  unfolding name_ok_def by (elim exE conjE) (intro exI conjI, assumption+, rule order_trans)

lemma name_ok_parse:
  assumes "name_ok N n" and "N \<le> MaxInt64"
  shows "parseName n \<noteq> None" and "0 < ord_of n" and "ord_of n \<le> N" and "Ext n = extension" and "Base n = n" and "n \<noteq> ''.''" and "n \<noteq> ''/''"
proof -
  obtain ordinal q where n: "n = entry_name ordinal q" "0 < ordinal" "ordinal \<le> N" "q < 18446744073709551616"
    using assms(1) by (auto simp: name_ok_def)
  have p: "parseName n = Some (ordinal, q)" unfolding n(1) by (rule parseName_entry_name) (use n assms(2) in auto)
  then show "parseName n \<noteq> None" "0 < ord_of n" "ord_of n \<le> N" using n by (simp_all add: ord_of_def)
  show "Ext n = extension" by (simp add: n(1))
  show "Base n = n" "n \<noteq> ''.''" "n \<noteq> ''/''" using entry_name_plain[of ordinal q] n by auto
qed

lemma length_sizes:
  assumes "spool_ok s"
  shows "length (sp_sizes s) = length (sp_order s)"
proof -
  have "card (set (sp_order s)) = card (set (map fst (sp_sizes s)))" using assms by (simp add: spool_ok_def)
  then show ?thesis using assms distinct_card[of "sp_order s"] distinct_card[of "map fst (sp_sizes s)"] by (simp add: spool_ok_def)
qed

text \<open>Bytes never leave 64 bits.\<close>

lemma alist_sum_bound:
  "\<forall>(n, z) \<in> set m. 0 \<le> z \<and> z \<le> B \<Longrightarrow> 0 \<le> alist_sum snd m \<and> alist_sum snd m \<le> int (length m) * (B :: int)"
  by (induction m) (auto simp: algebra_simps)

lemma bytes_range:
  assumes "spool_ok s"
  shows "0 \<le> sp_bytes s" and "sp_bytes s + sp_maxBytes s \<le> MaxInt64"
proof -
  have b: "0 \<le> sp_bytes s \<and> sp_bytes s \<le> int (length (sp_order s)) * sp_maxBytes s"
    using alist_sum_bound[of "sp_sizes s" "sp_maxBytes s"] assms length_sizes[OF assms] by (simp add: spool_ok_def)
  then show "0 \<le> sp_bytes s" by simp
  have "int (length (sp_order s)) * sp_maxBytes s \<le> sp_maxEntries s * sp_maxBytes s"
    using assms by (intro mult_right_mono) (auto simp: spool_ok_def)
  moreover have "(sp_maxEntries s + 1) * sp_maxBytes s \<le> MaxInt64" using assms by (simp add: spool_ok_def)
  ultimately show "sp_bytes s + sp_maxBytes s \<le> MaxInt64" using b by (simp add: distrib_right)
qed

lemma dir_ok_content:
  assumes "dir_ok s f" and "map_of (sp_sizes s) n = Some z"
  shows "map_of (fs_files f) n = Some (Regular (content f n))" and "int (length (content f n)) = z"
proof -
  from assms obtain b where b: "map_of (fs_files f) n = Some (Regular b)" "int (length b) = z"
    unfolding dir_ok_def by blast
  from b(1) have "content f n = b" unfolding content_def by simp
  with b show "map_of (fs_files f) n = Some (Regular (content f n))" "int (length (content f n)) = z" by simp_all
qed

lemma bytes_total:
  assumes "sinv (s, f)"
  shows "sp_bytes s = total (queue (s, f))"
proof -
  have d: "distinct (map fst (sp_sizes s))" and dir: "dir_ok s f" using assms by (auto simp: sinv_def spool_ok_def)
  have "mset (sp_order s) = mset (map fst (sp_sizes s))"
    using assms by (intro set_eq_iff_mset_eq_distinct[THEN iffD1]) (auto simp: sinv_def spool_ok_def)
  then have "sum_mset (image_mset (\<lambda>n. int (length (content f n))) (mset (sp_order s))) =
      sum_mset (image_mset (\<lambda>n. int (length (content f n))) (mset (map fst (sp_sizes s))))" by simp
  then have "total (queue (s, f)) = sum_list (map (\<lambda>n. int (length (content f n))) (map fst (sp_sizes s)))"
    by (simp add: total_def queue_def comp_def image_mset.compositionality flip: sum_mset_sum_list)
  also have "map (\<lambda>n. int (length (content f n))) (map fst (sp_sizes s)) = map snd (sp_sizes s)"
  proof (simp, intro ballI)
    fix x assume "x \<in> set (sp_sizes s)"
    then have "map_of (sp_sizes s) (fst x) = Some (snd x)" using d by (metis map_of_is_SomeI prod.collapse)
    then show "int (length (content f (fst x))) = snd x" by (rule dir_ok_content(2)[OF dir])
  qed
  finally show ?thesis using assms by (simp add: sinv_def spool_ok_def alist_sum_def)
qed

section \<open>Removal\<close>

lemma remove1_filter: "distinct xs \<Longrightarrow> remove1 x xs = filter (\<lambda>y. y \<noteq> x) xs"
  by (induction xs) (auto intro: filter_True[symmetric])

lemma forget_ok:
  assumes "spool_ok s" and "n \<in> set (sp_order s)"
  shows "spool_ok (forget n s)" and "sp_order (forget n s) = filter (\<lambda>m. m \<noteq> n) (sp_order s)"
    and "sp_sizes (forget n s) = AList.delete n (sp_sizes s)"
    and "sp_maxBytes (forget n s) = sp_maxBytes s" "sp_maxEntries (forget n s) = sp_maxEntries s" "sp_enqueued (forget n s) = sp_enqueued s"
      "sp_dropped (forget n s) = sp_dropped s" "sp_dequeued (forget n s) = sp_dequeued s"
proof -
  have d: "distinct (map fst (sp_sizes s))" using assms(1) by (simp add: spool_ok_def)
  obtain z where z: "map_of (sp_sizes s) n = Some z"
    using assms by (metis domD dom_map_of_conv_image_fst spool_ok_def)
  have sum: "alist_sum snd (AList.delete n (sp_sizes s)) = sp_bytes s - z"
    using alist_sum_delete[OF d z, of snd] assms(1) by (simp add: spool_ok_def)
  have sizes: "\<forall>(m, y) \<in> set (AList.delete n (sp_sizes s)). 0 \<le> y \<and> y \<le> sp_maxBytes s"
    using assms(1) by (auto simp: spool_ok_def AList.delete_eq)
  have "0 \<le> sp_bytes s - z" using alist_sum_bound[OF sizes] sum by simp
  moreover have "0 \<le> z" using assms(1) map_of_SomeD[OF z] by (auto simp: spool_ok_def)
  ultimately have w: "wrap64 (sp_bytes s - z) = sp_bytes s - z" "0 \<le> sp_bytes s - z"
    using bytes_range[OF assms(1)] assms(1) by (auto simp: in_i64_def MinInt64_def spool_ok_def)
  have f: "forget n s = s\<lparr>sp_bytes := sp_bytes s - z, sp_sizes := AList.delete n (sp_sizes s), sp_order := filter (\<lambda>m. m \<noteq> n) (sp_order s)\<rparr>"
    using assms(1) w by (simp add: forget_def z remove1_filter spool_ok_def)
  show "sp_order (forget n s) = filter (\<lambda>m. m \<noteq> n) (sp_order s)" "sp_sizes (forget n s) = AList.delete n (sp_sizes s)"
    "sp_maxBytes (forget n s) = sp_maxBytes s" "sp_maxEntries (forget n s) = sp_maxEntries s" "sp_enqueued (forget n s) = sp_enqueued s"
    "sp_dropped (forget n s) = sp_dropped s" "sp_dequeued (forget n s) = sp_dequeued s"
    by (simp_all add: f)
  have "int (length (filter (\<lambda>m. m \<noteq> n) (sp_order s))) \<le> sp_maxEntries s"
    using assms(1) length_filter_le[of "\<lambda>m. m \<noteq> n" "sp_order s"] unfolding spool_ok_def by linarith
  then show "spool_ok (forget n s)"
    using assms(1) sizes sum by (auto simp: f spool_ok_def distinct_delete sorted_wrt_filter fst_set_delete)
qed

definition without :: "string \<Rightarrow> fsys \<Rightarrow> fsys \<Rightarrow> bool" where
  "without n f f' \<longleftrightarrow> distinct (map fst (fs_files f')) \<and> map_of (fs_files f') = (map_of (fs_files f))(n := None)"

lemma forget_sinv:
  assumes "sinv (s, f)" and "n \<in> set (sp_order s)" and "without n f f'"
  shows "sinv (forget n s, f')" and "queue (forget n s, f') = map (content f) (filter (\<lambda>m. m \<noteq> n) (sp_order s))"
proof -
  have ok: "spool_ok s" using assms(1) by (simp add: sinv_def)
  note fo = forget_ok[OF ok assms(2)]
  show "sinv (forget n s, f')"
    using assms(1,3) fo by (auto simp: sinv_def dir_ok_def without_def split: if_splits)
  show "queue (forget n s, f') = map (content f) (filter (\<lambda>m. m \<noteq> n) (sp_order s))"
    using assms(3) fo(2) by (auto simp: queue_def content_def without_def)
qed

lemma os_Remove_cases:
  assumes "os_Remove n f = (r, f')" and "distinct (map fst (fs_files f))"
  obtains (failed) "r = Some ErrIO" "fs_files f' = fs_files f" "\<not> no_faults f"
  | (gone) "r = None \<or> r = Some ErrNotExist" "without n f f'" "no_faults f \<Longrightarrow> no_faults f'"
proof -
  obtain b f1 where b: "fault f = (b, f1)" by fastforce
  note fr = fault_frame[OF b]
  show ?thesis
  proof (cases b)
    case True
    with assms(1) b fr show ?thesis by (intro that(1)) (auto simp: os_Remove_def)
  next
    case False
    with assms b fr show ?thesis
      by (intro that(2)) (auto simp: os_Remove_def without_def no_faults_def distinct_delete split: if_splits)
  qed
qed

lemma removeLocked_cases:
  assumes "sinv (s, f)" and "n \<in> set (sp_order s)" and "removeLocked n (s, f) = (r, (s', f'))"
  obtains (failed) err where "r = Some err" "s' = s" "fs_files f' = fs_files f" "\<not> no_faults f"
  | (removed) "r = None" "s' = forget n s" "without n f f'" "no_faults f \<Longrightarrow> no_faults f'"
proof -
  have ok: "spool_ok s" and d: "distinct (map fst (fs_files f))" using assms(1) by (simp_all add: sinv_def dir_ok_def)
  have "name_ok (sp_enqueued s) n" "sp_enqueued s \<le> MaxInt64" using ok assms(2) by (auto simp: spool_ok_def)
  note plain = name_ok_parse(5-7)[OF this]
  obtain r1 f1 where r1: "os_Remove n f = (r1, f1)" by fastforce
  then show ?thesis
    using assms(3) plain
    by (rule_tac os_Remove_cases[OF r1 d])
      (auto simp: removeLocked_def ErrIO_def ErrNotExist_def intro: that)
qed

section \<open>Dropping the oldest entries\<close>

lemma sinv_counters [simp]:
  "sinv (add_dropped s, f) = sinv (s, f)" "sinv (add_dropFailure s, f) = sinv (s, f)"
  "queue (add_dropped s, f) = queue (s, f)" "queue (add_dropFailure s, f) = queue (s, f)"
  "sinv (s\<lparr>sp_dequeued := d\<rparr>, f) = sinv (s, f)" "queue (s\<lparr>sp_dequeued := d\<rparr>, f) = queue (s, f)"
  by (simp_all add: sinv_def spool_ok_def dir_ok_def add_dropped_def add_dropFailure_def queue_def)

lemma counters_frame [simp]:
  "sp_maxBytes (add_dropped s) = sp_maxBytes s" "sp_maxEntries (add_dropped s) = sp_maxEntries s" "sp_enqueued (add_dropped s) = sp_enqueued s"
  "sp_bytes (add_dropped s) = sp_bytes s" "sp_order (add_dropped s) = sp_order s"
  "sp_maxBytes (add_dropFailure s) = sp_maxBytes s" "sp_maxEntries (add_dropFailure s) = sp_maxEntries s" "sp_enqueued (add_dropFailure s) = sp_enqueued s"
  by (simp_all add: add_dropped_def add_dropFailure_def)

lemma sinv_files: "fs_files f' = fs_files f \<Longrightarrow> sinv (s, f') = sinv (s, f) \<and> queue (s, f') = queue (s, f)"
  by (auto simp: sinv_def dir_ok_def queue_def content_def)

lemma length_queue [simp]: "length (queue sf) = length (sp_order (fst sf))"
  by (simp add: queue_def)

lemma remove_head:
  assumes "sinv (s, f)" and "sp_order s = n # rest" and "without n f f'"
  shows "sinv (forget n s, f')" and "queue (forget n s, f') = tl (queue (s, f))" and "sp_order (forget n s) = rest"
proof -
  have "distinct (n # rest)" using assms(1,2) by (metis fst_conv sinv_def spool_ok_def)
  then have "filter (\<lambda>m. m \<noteq> n) (sp_order s) = rest" using assms(2) by (auto intro: filter_True)
  then show "sinv (forget n s, f')" "queue (forget n s, f') = tl (queue (s, f))" "sp_order (forget n s) = rest"
    using forget_sinv[OF assms(1) _ assms(3)] forget_ok(2)[of s n] assms(1,2) by (auto simp: queue_def sinv_def)
qed

lemma forget_frame [simp]:
  "sp_maxBytes (forget n s) = sp_maxBytes s" "sp_maxEntries (forget n s) = sp_maxEntries s" "sp_enqueued (forget n s) = sp_enqueued s"
  by (simp_all add: forget_def Let_def split: option.split)

lemma drop_oldest_safe:
  assumes "sinv (s, f)" and "drop_oldest fuel over (s, f) = (s', f')"
  shows "sinv (s', f') \<and> (\<exists>j. queue (s', f') = drop j (queue (s, f))) \<and>
    sp_maxBytes s' = sp_maxBytes s \<and> sp_maxEntries s' = sp_maxEntries s \<and> sp_enqueued s' = sp_enqueued s"
  using assms
proof (induction fuel arbitrary: s f)
  case 0
  then show ?case by (auto intro: exI[of _ 0])
next
  case (Suc fuel)
  show ?case
  proof (cases "over s \<and> sp_order s \<noteq> []")
    case False
    with Suc.prems have "s' = s" "f' = f" by (auto split: if_splits)
    with Suc.prems(1) show ?thesis by (auto intro: exI[of _ 0])
  next
    case True
    then obtain n rest where ns: "sp_order s = n # rest" by (cases "sp_order s") auto
    obtain r s1 f1 where r: "removeLocked n (s, f) = (r, (s1, f1))" by (metis prod.collapse)
    have mem: "n \<in> set (sp_order s)" using ns by simp
    show ?thesis
    proof (rule removeLocked_cases[OF Suc.prems(1) mem r])
      fix err assume "r = Some err" "s1 = s" "fs_files f1 = fs_files f"
      with True ns r Suc.prems sinv_files[of f1 f s] show ?thesis by (auto intro: exI[of _ 0])
    next
      assume h: "r = None" "s1 = forget n s" "without n f f1"
      note rh = remove_head[OF Suc.prems(1) ns h(3)]
      have "drop_oldest fuel over (add_dropped s1, f1) = (s', f')" using True ns r h(1) Suc.prems(2) by simp
      from Suc.IH[OF _ this] rh h(2) obtain j where
        "sinv (s', f')" "queue (s', f') = drop j (tl (queue (s, f)))" "sp_maxBytes s' = sp_maxBytes s"
        "sp_maxEntries s' = sp_maxEntries s" "sp_enqueued s' = sp_enqueued s" by auto
      then show ?thesis by (auto simp: drop_Suc[symmetric])
    qed
  qed
qed

text \<open>The abstract eviction: drop from the front while the rest does not fit.\<close>

fun evict :: "int \<Rightarrow> bytes list \<Rightarrow> bytes list" where
  "evict room [] = []"
| "evict room (b # q) = (if room < total (b # q) then evict room q else b # q)"

lemma drop_oldest_evicts:
  assumes "sinv (s, f)" and "no_faults f" and "length (sp_order s) \<le> fuel" and "0 \<le> sz" and "sz \<le> sp_maxBytes s"
    and "drop_oldest fuel (\<lambda>s. sp_maxBytes s < wrap64 (sp_bytes s + sz)) (s, f) = (s', f')"
  shows "queue (s', f') = evict (sp_maxBytes s - sz) (queue (s, f)) \<and> no_faults f'"
  using assms
proof (induction fuel arbitrary: s f)
  case 0
  then show ?case by (simp add: queue_def)
next
  case (Suc fuel)
  let ?over = "\<lambda>s. sp_maxBytes s < wrap64 (sp_bytes s + sz)"
  have ok: "spool_ok s" using Suc.prems(1) by (simp add: sinv_def)
  have "wrap64 (sp_bytes s + sz) = sp_bytes s + sz"
    using bytes_range[OF ok] Suc.prems(4,5) by (intro wrap64_id) (auto simp: in_i64_def MinInt64_def)
  then have over: "?over s \<longleftrightarrow> sp_maxBytes s - sz < total (queue (s, f))"
    using bytes_total[OF Suc.prems(1)] by auto
  show ?case
  proof (cases "sp_order s")
    case Nil
    with Suc.prems show ?thesis by (simp add: queue_def)
  next
    case (Cons n rest)
    then obtain b q where q: "queue (s, f) = b # q" by (simp add: queue_def)
    show ?thesis
    proof (cases "?over s")
      case False
      with Suc.prems over q show ?thesis by simp
    next
      case True
      obtain r s1 f1 where r: "removeLocked n (s, f) = (r, (s1, f1))" by (metis prod.collapse)
      have mem: "n \<in> set (sp_order s)" using Cons by simp
      show ?thesis
      proof (rule removeLocked_cases[OF Suc.prems(1) mem r])
        assume h: "r = None" "s1 = forget n s" "without n f f1" "no_faults f \<Longrightarrow> no_faults f1"
        note rh = remove_head[OF Suc.prems(1) Cons h(3)]
        have run: "drop_oldest fuel ?over (add_dropped s1, f1) = (s', f')" using True Cons r h(1) Suc.prems(6) by simp
        have "queue (s', f') = evict (sp_maxBytes (add_dropped s1) - sz) (queue (add_dropped s1, f1)) \<and> no_faults f'"
          by (rule Suc.IH) (use run rh h Suc.prems Cons in simp_all)
        with rh(2) h(2) q True over show ?thesis by simp
      qed (use Suc.prems(2) in simp)
    qed
  qed
qed

section \<open>Publishing an entry\<close>

definition same_entries :: "fsys \<Rightarrow> fsys \<Rightarrow> bool" where
  "same_entries f f' \<longleftrightarrow> distinct (map fst (fs_files f')) \<and>
     (\<forall>n. Ext n \<noteq> partial \<longrightarrow> map_of (fs_files f') n = map_of (fs_files f) n)"

lemma same_entries_refl: "distinct (map fst (fs_files f)) \<Longrightarrow> fs_files f' = fs_files f \<Longrightarrow> same_entries f f'"
  by (simp add: same_entries_def)

lemma same_entries_trans: "same_entries f g \<Longrightarrow> same_entries g h \<Longrightarrow> same_entries f h"
  by (simp add: same_entries_def)

lemma spool_ok_name: "spool_ok s \<Longrightarrow> n \<in> set (sp_order s) \<Longrightarrow> name_ok (sp_enqueued s) n \<and> sp_enqueued s \<le> MaxInt64"
  by (simp add: spool_ok_def)

lemma spool_ok_ext: "spool_ok s \<Longrightarrow> n \<in> set (sp_order s) \<Longrightarrow> Ext n = extension"
  using spool_ok_name name_ok_parse(4) by blast

lemma sinv_same_entries:
  assumes "sinv (s, f)" and "same_entries f f'"
  shows "sinv (s, f')" and "queue (s, f') = queue (s, f)"
proof -
  have ok: "spool_ok s" and dir: "dir_ok s f" using assms(1) by (simp_all add: sinv_def)
  have eq: "map_of (fs_files f') n = map_of (fs_files f) n" if "Ext n = extension" for n
    using assms(2) that partial_neq_extension unfolding same_entries_def by metis
  have mem: "n \<in> set (sp_order s)" if "map_of (sp_sizes s) n = Some z" for n z
    using that ok by (metis domI dom_map_of_conv_image_fst spool_ok_def)
  have "dir_ok s f'"
    unfolding dir_ok_def
  proof (intro conjI allI impI)
    show "distinct (map fst (fs_files f'))" using assms(2) by (simp add: same_entries_def)
  next
    fix n z assume z: "map_of (sp_sizes s) n = Some z"
    from dir_ok_content[OF dir z] eq[OF spool_ok_ext[OF ok mem[OF z]]]
    show "\<exists>b. map_of (fs_files f') n = Some (Regular b) \<and> int (length b) = z" by metis
  next
    fix n b assume "map_of (fs_files f') n = Some (Regular b)" "Ext n = extension" "parseName n \<noteq> None"
    with eq dir show "n \<in> set (sp_order s)" unfolding dir_ok_def by metis
  qed
  with ok show "sinv (s, f')" by (simp add: sinv_def)
  show "queue (s, f') = queue (s, f)"
    using eq[OF spool_ok_ext[OF ok]] by (simp add: queue_def content_def)
qed

lemma os_Remove_partial:
  assumes "os_Remove (n @ partial) f = (r, f')" and "distinct (map fst (fs_files f))"
  shows "same_entries f f'"
  by (rule os_Remove_cases[OF assms]) (use assms(2) in \<open>auto simp: same_entries_def without_def\<close>)

lemma os_OpenFile_partial:
  assumes "os_OpenFile (n @ partial) f = (r, f')" and "distinct (map fst (fs_files f))"
  shows "same_entries f f'" and "no_faults f \<Longrightarrow> no_faults f' \<and> (map_of (fs_files f) (n @ partial) \<noteq> Some Special \<longrightarrow> r = None)"
proof -
  obtain b f1 where b: "fault f = (b, f1)" by fastforce
  note fr = fault_frame[OF b]
  show "same_entries f f'"
    using assms b fr by (auto simp: os_OpenFile_def same_entries_def distinct_update split: if_splits)
  show "no_faults f' \<and> (map_of (fs_files f) (n @ partial) \<noteq> Some Special \<longrightarrow> r = None)" if "no_faults f"
    using that assms b fr by (auto simp: os_OpenFile_def no_faults_def split: if_splits)
qed

lemma os_Write_partial:
  assumes "os_Write (n @ partial) payload f = (r, f')" and "distinct (map fst (fs_files f))"
  shows "same_entries f f'" and "r = None \<Longrightarrow> map_of (fs_files f') (n @ partial) = Some (Regular payload)"
    and "no_faults f \<Longrightarrow> no_faults f' \<and> r = None"
proof -
  obtain b f1 where b: "fault f = (b, f1)" by fastforce
  note fr = fault_frame[OF b]
  show "same_entries f f'"
    using assms b fr by (auto simp: os_Write_def same_entries_def distinct_update split: if_splits)
  show "map_of (fs_files f') (n @ partial) = Some (Regular payload)" if "r = None"
    using that assms(1) b by (auto simp: os_Write_def simp del: map_of_eq_Some_iff split: if_splits)
  show "no_faults f' \<and> r = None" if "no_faults f"
    using that assms b fr by (auto simp: os_Write_def no_faults_def split: if_splits)
qed

lemma writeFileSynced_partial:
  assumes "writeFileSynced (n @ partial) payload f = (r, f')" and "distinct (map fst (fs_files f))"
  shows "same_entries f f'" and "r = None \<Longrightarrow> map_of (fs_files f') (n @ partial) = Some (Regular payload)"
    and "no_faults f \<Longrightarrow> no_faults f' \<and> (map_of (fs_files f) (n @ partial) \<noteq> Some Special \<longrightarrow> r = None)"
proof -
  obtain r1 f1 where o: "os_OpenFile (n @ partial) f = (r1, f1)" by fastforce
  note o' = os_OpenFile_partial[OF o assms(2)]
  have d1: "distinct (map fst (fs_files f1))" using o'(1) by (simp add: same_entries_def)
  obtain r2 f2 where w: "os_Write (n @ partial) payload f1 = (r2, f2)" by fastforce
  note w' = os_Write_partial[OF w d1]
  have d2: "distinct (map fst (fs_files f2))" using w'(1) by (simp add: same_entries_def)
  obtain r3 f3 where c3: "os_call f2 = (r3, f3)" by fastforce
  obtain r4 f4 where c4: "os_call f3 = (r4, f4)" by fastforce
  note c = os_call_frame[OF c3] os_call_frame[OF c4]
  have g: "same_entries f f2" by (rule same_entries_trans[OF o'(1) w'(1)])
  have g34: "same_entries f f3" "same_entries f f4"
    using same_entries_trans[OF g same_entries_refl[OF d2]] c by auto
  note run = assms(1)[unfolded writeFileSynced_def]
  show "same_entries f f'" using run o'(1) g g34 by (auto simp: o w c3 c4 split: option.splits)
  show "map_of (fs_files f') (n @ partial) = Some (Regular payload)" if "r = None"
    using that run w'(2) c by (auto simp: o w c3 c4 simp del: map_of_eq_Some_iff split: option.splits)
  show "no_faults f' \<and> (map_of (fs_files f) (n @ partial) \<noteq> Some Special \<longrightarrow> r = None)" if "no_faults f"
    using that run o'(2) w'(3) c by (auto simp: o w c3 c4 split: option.splits)
qed

lemma os_Rename_cases:
  assumes "os_Rename old new f = (r, f')" and "distinct (map fst (fs_files f))" and "map_of (fs_files f) old = Some node"
  obtains (failed) err where "r = Some err" "fs_files f' = fs_files f" "\<not> no_faults f"
  | (moved) "r = None" "distinct (map fst (fs_files f'))" "map_of (fs_files f') = (map_of (fs_files f))(old := None, new \<mapsto> node)"
      "no_faults f \<Longrightarrow> no_faults f'"
proof -
  obtain b f1 where b: "fault f = (b, f1)" by fastforce
  note fr = fault_frame[OF b]
  show ?thesis
  proof (cases b)
    case True
    with assms(1) b fr show ?thesis by (intro that(1)) (auto simp: os_Rename_def)
  next
    case False
    have m: "map_of (fs_files f1) old = Some node" using fr assms(3) by simp
    have run: "r = None" "f' = f1\<lparr>fs_files := AList.update new node (AList.delete old (fs_files f1))\<rparr>"
      using assms(1) b False by (simp_all add: os_Rename_def m)
    show ?thesis
      by (rule that(2)) (use run fr assms(2) in \<open>simp_all add: distinct_update distinct_delete no_faults_def\<close>)
  qed
qed

lemma add_entry_spool_ok:
  assumes ok: "spool_ok s" and n: "n = entry_name (sp_enqueued s + 1) q" "q < 18446744073709551616" "sp_enqueued s < MaxInt64"
    and new: "map_of (sp_sizes s) n = None" and z: "0 \<le> z" "z \<le> sp_maxBytes s" and room: "int (length (sp_order s)) < sp_maxEntries s"
  shows "spool_ok (add_entry n z s)"
proof -
  let ?s = "add_entry n z s"
  have enq: "wrap64 (sp_enqueued s + 1) = sp_enqueued s + 1"
    using ok n(3) by (intro wrap64_id) (auto simp: in_i64_def MinInt64_def spool_ok_def)
  have bytes: "wrap64 (sp_bytes s + z) = sp_bytes s + z"
    using bytes_range[OF ok] z by (intro wrap64_id) (auto simp: in_i64_def MinInt64_def)
  have s': "sp_order ?s = sp_order s @ [n]" "sp_sizes ?s = sp_sizes s @ [(n, z)]" "sp_bytes ?s = sp_bytes s + z"
    "sp_enqueued ?s = sp_enqueued s + 1" "sp_maxBytes ?s = sp_maxBytes s" "sp_maxEntries ?s = sp_maxEntries s"
    by (simp_all add: add_entry_def enq bytes update_new[OF new])
  have nn: "name_ok (sp_enqueued s + 1) n" unfolding name_ok_def
    by (intro exI[of _ "sp_enqueued s + 1"] exI[of _ q]) (use n ok in \<open>simp add: spool_ok_def\<close>)
  have ord: "ord_of n = sp_enqueued s + 1"
    unfolding ord_of_def n(1) using ok n(2,3) by (subst parseName_entry_name) (auto simp: spool_ok_def)
  have names: "ord_of m \<le> sp_enqueued s" "name_ok (sp_enqueued s + 1) m" if "m \<in> set (sp_order s)" for m
    using that spool_ok_name[OF ok that] name_ok_parse(3) name_ok_mono[of "sp_enqueued s" m "sp_enqueued s + 1"] by auto
  have "distinct (sp_order ?s)" "distinct (map fst (sp_sizes ?s))" "set (sp_order ?s) = fst ` set (sp_sizes ?s)"
    using ok new unfolding s' by (auto simp: spool_ok_def map_of_eq_None_iff)
  moreover have "\<forall>(m, y) \<in> set (sp_sizes ?s). 0 \<le> y \<and> y \<le> sp_maxBytes ?s" "sp_bytes ?s = alist_sum snd (sp_sizes ?s)"
    using ok z unfolding s' by (auto simp: spool_ok_def)
  moreover have "\<forall>m \<in> set (sp_order ?s). name_ok (sp_enqueued ?s) m" using nn names(2) unfolding s' by auto
  moreover have "sorted_wrt (\<lambda>m n. ord_of m < ord_of n) (sp_order ?s)"
    using ok names(1) unfolding s' by (fastforce simp: sorted_wrt_append ord spool_ok_def)
  moreover have "0 \<le> sp_enqueued ?s \<and> sp_enqueued ?s \<le> MaxInt64 \<and> 0 < sp_maxBytes ?s \<and> int (length (sp_order ?s)) \<le> sp_maxEntries ?s \<and>
      (sp_maxEntries ?s + 1) * sp_maxBytes ?s \<le> MaxInt64"
    using ok n(3) room unfolding s' by (simp add: spool_ok_def)
  ultimately show ?thesis unfolding spool_ok_def by blast
qed

lemma add_entry_dir_ok:
  assumes dir: "dir_ok s f" and files: "map_of (fs_files f') = (map_of (fs_files f))(t := None, n \<mapsto> Regular payload)"
    and "distinct (map fst (fs_files f'))" and t: "t \<notin> fst ` set (sp_sizes s)"
  shows "dir_ok (add_entry n (int (length payload)) s) f'"
  unfolding dir_ok_def
proof (intro conjI allI impI)
  fix m z assume "map_of (sp_sizes (add_entry n (int (length payload)) s)) m = Some z"
  then consider "m = n" "z = int (length payload)" | "m \<noteq> n" "map_of (sp_sizes s) m = Some z"
    by (auto simp: add_entry_def simp del: map_of_eq_Some_iff split: if_splits)
  then show "\<exists>b. map_of (fs_files f') m = Some (Regular b) \<and> int (length b) = z"
  proof cases
    case 2
    then have "m \<noteq> t" using t by (metis map_of_eq_None_iff option.distinct(1))
    with 2 dir_ok_content[OF dir, of m z] show ?thesis by (auto simp: files simp del: map_of_eq_Some_iff)
  qed (simp add: files)
next
  fix m b assume m: "map_of (fs_files f') m = Some (Regular b)" "Ext m = extension" "parseName m \<noteq> None"
  then have "m = n \<or> map_of (fs_files f) m = Some (Regular b)"
    by (auto simp: files simp del: map_of_eq_Some_iff split: if_splits)
  with m dir show "m \<in> set (sp_order (add_entry n (int (length payload)) s))"
    unfolding dir_ok_def by (auto simp: add_entry_def simp del: map_of_eq_Some_iff)
qed (rule assms(3))

lemma add_entry_sinv:
  assumes "sinv (s, f)" and "map_of (fs_files f') = (map_of (fs_files f))(t := None, n \<mapsto> Regular payload)"
    and "distinct (map fst (fs_files f'))" and "Ext t = partial"
    and "n = entry_name (sp_enqueued s + 1) q" and "q < 18446744073709551616" and "sp_enqueued s < MaxInt64"
    and "map_of (sp_sizes s) n = None" and "int (length payload) \<le> sp_maxBytes s" and "int (length (sp_order s)) < sp_maxEntries s"
  shows "sinv (add_entry n (int (length payload)) s, f') \<and> queue (add_entry n (int (length payload)) s, f') = queue (s, f) @ [payload]"
proof -
  have ok: "spool_ok s" and dir: "dir_ok s f" using assms(1) by (simp_all add: sinv_def)
  have set: "set (sp_order s) = fst ` set (sp_sizes s)" using ok by (simp add: spool_ok_def)
  have names: "m \<noteq> t" "m \<noteq> n" if "m \<in> set (sp_order s)" for m
    using that spool_ok_ext[OF ok that] assms(4,8) set by (auto simp: map_of_eq_None_iff)
  have "spool_ok (add_entry n (int (length payload)) s)" by (rule add_entry_spool_ok[OF ok assms(5-8) _ assms(9,10)]) simp
  moreover have "dir_ok (add_entry n (int (length payload)) s) f'" by (rule add_entry_dir_ok[OF dir assms(2,3)]) (use names(1) set in blast)
  moreover have "queue (add_entry n (int (length payload)) s, f') = queue (s, f) @ [payload]"
    using names by (auto simp: queue_def add_entry_def content_def assms(2) simp del: map_of_eq_Some_iff)
  ultimately show ?thesis by (simp add: sinv_def)
qed

text \<open>What publishing may do, whatever fails.\<close>

lemma publish_entry_safe:
  assumes "sinv (s, f)" and "n = entry_name (sp_enqueued s + 1) q" and "q < 18446744073709551616" and "sp_enqueued s < MaxInt64"
    and "map_of (sp_sizes s) n = None" and "int (length payload) \<le> sp_maxBytes s" and "int (length (sp_order s)) < sp_maxEntries s"
    and "publish_entry n payload (s, f) = (r, (s', f'))"
  shows "sinv (s', f') \<and> queue (s', f') \<in> {queue (s, f), queue (s, f) @ [payload]} \<and> (r = None \<longrightarrow> queue (s', f') = queue (s, f) @ [payload]) \<and>
    (no_faults f \<longrightarrow> map_of (fs_files f) (n @ partial) \<noteq> Some Special \<longrightarrow> r = None \<and> no_faults f')"
proof -
  let ?t = "n @ partial"
  have d: "distinct (map fst (fs_files f))" using assms(1) by (simp add: sinv_def dir_ok_def)
  obtain r1 f1 where w: "writeFileSynced ?t payload f = (r1, f1)" by fastforce
  note w' = writeFileSynced_partial[OF w d]
  have d1: "distinct (map fst (fs_files f1))" using w'(1) by (simp add: same_entries_def)
  note inv1 = sinv_same_entries[OF assms(1) w'(1)]
  show ?thesis
  proof (cases r1)
    case (Some err)
    obtain r2 f2 where rm: "os_Remove ?t f1 = (r2, f2)" by fastforce
    have "r = Some err" "s' = s" "f' = f2" using assms(8) by (auto simp: publish_entry_def w Some rm)
    with sinv_same_entries[OF inv1(1) os_Remove_partial[OF rm d1]] inv1(2) w'(3) Some show ?thesis by auto
  next
    case None
    obtain r2 f2 where mv: "os_Rename ?t n f1 = (r2, f2)" by fastforce
    show ?thesis
    proof (rule os_Rename_cases[OF mv d1 w'(2)[OF None]])
      fix err assume h: "r2 = Some err" "fs_files f2 = fs_files f1" "\<not> no_faults f1"
      obtain r3 f3 where rm: "os_Remove ?t f2 = (r3, f3)" by fastforce
      have "r \<noteq> None" "s' = s" "f' = f3" using assms(8) by (auto simp: publish_entry_def w None mv h(1) rm Let_def)
      moreover have "same_entries f1 f3"
        using same_entries_trans[OF same_entries_refl[OF d1 h(2)] os_Remove_partial[OF rm]] d1 h(2) by simp
      ultimately show ?thesis using sinv_same_entries[OF inv1(1)] inv1(2) w'(3) h(3) by auto
    next
      assume h: "r2 = None" "distinct (map fst (fs_files f2))" "map_of (fs_files f2) = (map_of (fs_files f1))(?t := None, n \<mapsto> Regular payload)"
        "no_faults f1 \<Longrightarrow> no_faults f2"
      let ?s = "add_entry n (int (length payload)) s"
      have add: "sinv (?s, f2) \<and> queue (?s, f2) = queue (s, f1) @ [payload]"
        by (rule add_entry_sinv[OF inv1(1) h(3,2) _ assms(2-7)]) simp
      obtain r3 f3 where c3: "os_call f2 = (r3, f3)" by fastforce
      obtain r4 f4 where c4: "os_call f3 = (r4, f4)" by fastforce
      note c = os_call_frame[OF c3] os_call_frame[OF c4]
      have "s' = ?s \<and> fs_files f' = fs_files f2 \<and> (no_faults f2 \<longrightarrow> r = None \<and> no_faults f')"
        using assms(8) c by (auto simp: publish_entry_def w None mv h(1) syncDirectory_def c3 c4 Let_def split: option.splits)
      with add sinv_files[of f' f2 ?s] inv1(2) w'(3) h(4) show ?thesis by auto
    qed
  qed
qed

lemma evict_suffix: "\<exists>k. evict room q = drop k q"
proof (induction q)
  case (Cons b q)
  then obtain k where "evict room q = drop k q" by blast
  then show ?case by (auto intro: exI[of _ "Suc k"] exI[of _ 0])
qed simp

lemma evict_fits: "0 \<le> room \<Longrightarrow> total (evict room q) \<le> room"
  by (induction q) auto

lemma Enqueue_step:
  assumes "sinv (s, f)" and "payload \<noteq> []" and "int (length payload) \<le> sp_maxBytes s" and "sp_enqueued s < MaxInt64"
    and "sp_maxEntries s < 18446744073709551616"
    and "drop_oldest (length (sp_order s)) (\<lambda>s. sp_maxBytes s < wrap64 (sp_bytes s + int (length payload))) (s, f) = (s1, f1)"
    and "Enqueue payload (s, f) = (r, (s', f'))"
  obtains (full) err where "r = Some err" "errors_Is err ErrTooMany" "s' = add_dropped s1" "f' = f1" "sp_maxEntries s \<le> int (length (sp_order s1))"
  | (publish) q where "q < 18446744073709551616" "map_of (sp_sizes s1) (entry_name (sp_enqueued s1 + 1) q) = None"
      "publish_entry (entry_name (sp_enqueued s1 + 1) q) payload (s1\<lparr>sp_seq := q\<rparr>, f1) = (r, (s', f'))" "int (length (sp_order s1)) < sp_maxEntries s"
proof -
  have drop: "sinv (s1, f1)" "sp_maxEntries s1 = sp_maxEntries s" "sp_enqueued s1 = sp_enqueued s"
    using drop_oldest_safe[OF assms(1,6)] by auto
  have ok1: "spool_ok s1" using drop(1) by (simp add: sinv_def)
  have "length (sp_sizes s1) < 18446744073709551616"
    using length_sizes[OF ok1] ok1 assms(5) drop(2) by (simp add: spool_ok_def)
  then obtain q where q: "nextName s1 = Some (entry_name (sp_enqueued s1 + 1) q, s1\<lparr>sp_seq := q\<rparr>)" "q < 18446744073709551616"
      "map_of (sp_sizes s1) (entry_name (sp_enqueued s1 + 1) q) = None"
    using nextName_finds[of s1] ok1 assms(4) drop(3) by (auto simp: spool_ok_def)
  show ?thesis
  proof (cases "sp_maxEntries s1 \<le> int (length (sp_order s1))")
    case True
    with assms(2,3,6,7) drop(2) show ?thesis by (intro that(1)) (auto simp: Enqueue_def Let_def)
  next
    case False
    with assms(2,3,6,7) q drop(2) show ?thesis by (intro that(2)[of q]) (auto simp: Enqueue_def Let_def)
  qed
qed

lemma sinv_seq [simp]: "sinv (s\<lparr>sp_seq := q\<rparr>, f) = sinv (s, f)" "queue (s\<lparr>sp_seq := q\<rparr>, f) = queue (s, f)"
  by (simp_all add: sinv_def spool_ok_def dir_ok_def queue_def)

lemma Enqueue_safe:
  assumes "sinv (s, f)" and "sp_enqueued s < MaxInt64" and "sp_maxEntries s < 18446744073709551616"
    and "Enqueue payload (s, f) = (r, (s', f'))"
  shows "sinv (s', f') \<and> (\<exists>k. queue (s', f') \<in> {drop k (queue (s, f)), drop k (queue (s, f)) @ [payload]} \<and>
    (r = None \<longrightarrow> queue (s', f') = drop k (queue (s, f)) @ [payload]))"
proof (cases "payload = [] \<or> sp_maxBytes s < int (length payload)")
  case True
  with assms(1,4) show ?thesis by (auto simp: Enqueue_def Let_def intro: exI[of _ 0] split: if_splits)
next
  case False
  obtain s1 f1 where run: "drop_oldest (length (sp_order s)) (\<lambda>s. sp_maxBytes s < wrap64 (sp_bytes s + int (length payload))) (s, f) = (s1, f1)"
    by fastforce
  note drop = drop_oldest_safe[OF assms(1) run]
  then obtain k where k: "queue (s1, f1) = drop k (queue (s, f))" by blast
  have p: "payload \<noteq> []" "int (length payload) \<le> sp_maxBytes s" using False by auto
  show ?thesis
  proof (rule Enqueue_step[OF assms(1) p assms(2,3) run assms(4)])
    fix q assume q: "q < 18446744073709551616" "map_of (sp_sizes s1) (entry_name (sp_enqueued s1 + 1) q) = None"
      "publish_entry (entry_name (sp_enqueued s1 + 1) q) payload (s1\<lparr>sp_seq := q\<rparr>, f1) = (r, (s', f'))" "int (length (sp_order s1)) < sp_maxEntries s"
    have "sinv (s', f') \<and> queue (s', f') \<in> {queue (s1, f1), queue (s1, f1) @ [payload]} \<and> (r = None \<longrightarrow> queue (s', f') = queue (s1, f1) @ [payload])"
      using publish_entry_safe[of "s1\<lparr>sp_seq := q\<rparr>" f1 _ q payload r s' f'] q drop p assms(2) by simp
    with k show ?thesis by auto
  qed (use drop k in auto)
qed

lemma publish_entry_config:
  "publish_entry n p (s, f) = (r, (s', f')) \<Longrightarrow> sp_maxBytes s' = sp_maxBytes s \<and> sp_maxEntries s' = sp_maxEntries s"
  by (auto simp: publish_entry_def Let_def add_entry_def split: prod.splits option.splits)

lemma nextName_loop_config:
  "nextName_loop k s = Some (n, s') \<Longrightarrow> sp_maxBytes s' = sp_maxBytes s \<and> sp_maxEntries s' = sp_maxEntries s"
  by (induction k arbitrary: s) (fastforce simp: Let_def split: if_splits)+

lemma nextName_config: "nextName s = Some (n, s') \<Longrightarrow> sp_maxBytes s' = sp_maxBytes s \<and> sp_maxEntries s' = sp_maxEntries s"
  unfolding nextName_def by (rule nextName_loop_config)

lemma Enqueue_config:
  assumes "sinv (s, f)" and "Enqueue p (s, f) = (r, (s', f'))"
  shows "sp_maxBytes s' = sp_maxBytes s" and "sp_maxEntries s' = sp_maxEntries s"
proof -
  obtain s1 f1 where run: "drop_oldest (length (sp_order s)) (\<lambda>s. sp_maxBytes s < wrap64 (sp_bytes s + int (length p))) (s, f) = (s1, f1)"
    by fastforce
  have "sp_maxBytes s' = sp_maxBytes s \<and> sp_maxEntries s' = sp_maxEntries s"
    using assms(2) drop_oldest_safe[OF assms(1) run]
    by (auto simp: Enqueue_def Let_def run dest!: nextName_config publish_entry_config split: if_splits option.splits prod.splits)
  then show "sp_maxBytes s' = sp_maxBytes s" "sp_maxEntries s' = sp_maxEntries s" by simp_all
qed

section \<open>Reading and releasing\<close>

lemma order_file:
  assumes "sinv (s, f)" and "n \<in> set (sp_order s)"
  shows "map_of (fs_files f) n = Some (Regular (content f n))" and "map_of (sp_sizes s) n \<noteq> None"
proof -
  have set: "set (sp_order s) = fst ` set (sp_sizes s)" and dir: "dir_ok s f" using assms(1) by (simp_all add: sinv_def spool_ok_def)
  then obtain z where z: "map_of (sp_sizes s) n = Some z" using assms(2) by (metis domD dom_map_of_conv_image_fst)
  then show "map_of (sp_sizes s) n \<noteq> None" by simp
  show "map_of (fs_files f) n = Some (Regular (content f n))" by (rule dir_ok_content(1)[OF dir z])
qed

lemma Peek_cases:
  assumes "sinv (s, f)" and "Peek (s, f) = (r, (s', f'))"
  obtains (empty) "sp_order s = []" "r = Inl ErrEmpty" "s' = s" "f' = f"
  | (read) n rest where "sp_order s = n # rest" "r = Inr (content f n, n)" "s' = s" "fs_files f' = fs_files f" "no_faults f \<Longrightarrow> no_faults f'"
  | (failed) n rest err where "sp_order s = n # rest" "r = Inl err" "s' = s" "fs_files f' = fs_files f" "\<not> no_faults f"
proof (cases "sp_order s")
  case Nil
  with assms(2) show ?thesis by (intro that(1)) (auto simp: Peek_def)
next
  case (Cons n rest)
  have fil: "map_of (fs_files f) n = Some (Regular (content f n))" using order_file(1)[OF assms(1)] Cons by simp
  obtain b1 f1 where b1: "fault f = (b1, f1)" by fastforce
  obtain b2 f2 where b2: "fault f1 = (b2, f2)" by fastforce
  note fr = fault_frame[OF b1] fault_frame[OF b2]
  have f1: "map_of (fs_files f1) n = Some (Regular (content f n))" and f2: "map_of (fs_files f2) n = Some (Regular (content f n))"
    using fil fr by simp_all
  have lst: "os_Lstat n f = (if b1 then Inl ErrIO else Inr (Regular (content f n)), f1)" unfolding os_Lstat_def b1 Let_def by (simp add: f1)
  have rd: "os_ReadFile n f1 = (if b2 then Inl ErrIO else Inr (content f n), f2)" unfolding os_ReadFile_def b2 Let_def by (simp add: f2)
  have nex: "\<not> errors_Is ErrIO ErrNotExist" by (simp add: ErrIO_def ErrNotExist_def)
  show ?thesis
  proof (cases "b1 \<or> b2")
    case True
    then show ?thesis using assms(2) Cons lst rd nex fr
      by (intro that(3)[of n rest "Wrap ''spool: reading entry'' ErrIO"]) (auto simp: Peek_def Let_def split: if_splits)
  next
    case False
    then show ?thesis using assms(2) Cons lst rd fr
      by (intro that(2)[of n rest]) (auto simp: Peek_def Let_def)
  qed
qed

lemma Release_safe:
  assumes "sinv (s, f)" and "Spool_Release n (s, f) = (r, (s', f'))"
  shows "sinv (s', f') \<and> (queue (s', f') = queue (s, f) \<or> (r = None \<and> n \<in> set (sp_order s) \<and>
      queue (s', f') = map (content f) (filter (\<lambda>m. m \<noteq> n) (sp_order s)))) \<and>
    (no_faults f \<longrightarrow> r = None \<and> no_faults f' \<and> queue (s', f') = map (content f) (filter (\<lambda>m. m \<noteq> n) (sp_order s)))"
proof (cases "n \<in> set (sp_order s)")
  case False
  then have none: "map_of (sp_sizes s) n = None"
    using assms(1) by (metis fst_conv map_of_eq_None_iff sinv_def spool_ok_def)
  have "filter (\<lambda>m. m \<noteq> n) (sp_order s) = sp_order s" using False by (auto intro: filter_True)
  with assms none show ?thesis by (auto simp: Spool_Release_def queue_def)
next
  case True
  obtain r1 s1 f1 where run: "removeLocked n (s, f) = (r1, (s1, f1))" by (metis prod.collapse)
  have known: "map_of (sp_sizes s) n \<noteq> None" by (rule order_file(2)[OF assms(1) True])
  show ?thesis
  proof (rule removeLocked_cases[OF assms(1) True run])
    fix err assume h: "r1 = Some err" "s1 = s" "fs_files f1 = fs_files f" "\<not> no_faults f"
    with assms known run have "s' = s" "f' = f1" by (auto simp: Spool_Release_def)
    with h assms(1) sinv_files[of f1 f s] show ?thesis by simp
  next
    assume h: "r1 = None" "s1 = forget n s" "without n f f1" "no_faults f \<Longrightarrow> no_faults f1"
    with assms known run have "r = None" "s' = s1\<lparr>sp_dequeued := wrap64 (sp_dequeued s1 + 1)\<rparr>" "f' = f1"
      by (auto simp: Spool_Release_def)
    with h forget_sinv[OF assms(1) True h(3)] True show ?thesis by simp
  qed
qed

section \<open>Recovery\<close>

definition good :: "string \<times> inode \<Rightarrow> bool" where
  "good e \<longleftrightarrow> Ext (fst e) = extension \<and> snd e \<noteq> Special \<and> parseName (fst e) \<noteq> None"

definition node_size :: "inode \<Rightarrow> int" where
  "node_size node = (case node of Regular b \<Rightarrow> int (length b) | Special \<Rightarrow> 0)"

definition mk_entry :: "string \<Rightarrow> entry" where
  "mk_entry n = \<lparr>en_name = n, en_ordinal = fst (the (parseName n)), en_sequence = snd (the (parseName n))\<rparr>"

definition sizes_of :: "(string \<times> inode) list \<Rightarrow> (string \<times> int) list" where
  "sizes_of es = map (\<lambda>(n, node). (n, node_size node)) (filter good es)"

definition purged :: "(string \<times> inode) list \<Rightarrow> fsys \<Rightarrow> fsys \<Rightarrow> bool" where
  "purged es f f' \<longleftrightarrow> distinct (map fst (fs_files f')) \<and> no_faults f' \<and>
     (\<forall>n. map_of (fs_files f') n = (if n \<in> fst ` set es \<and> Ext n = partial then None else map_of (fs_files f) n))"

definition scanned :: "(string \<times> inode) list \<Rightarrow> Spool \<Rightarrow> Spool \<Rightarrow> bool" where
  "scanned es s s' \<longleftrightarrow>
     sp_sizes s' = sp_sizes s @ sizes_of es \<and> sp_bytes s' = sp_bytes s + alist_sum snd (sizes_of es) \<and>
     sp_maxBytes s' = sp_maxBytes s \<and> sp_maxEntries s' = sp_maxEntries s \<and> sp_order s' = sp_order s \<and>
     sp_enqueued s \<le> sp_enqueued s' \<and> (\<forall>(n, z) \<in> set (sizes_of es). ord_of n \<le> sp_enqueued s') \<and>
     (sp_enqueued s' = sp_enqueued s \<or> (\<exists>(n, z) \<in> set (sizes_of es). sp_enqueued s' = ord_of n))"

lemma node_size_nonneg [simp]: "0 \<le> node_size x"
  by (simp add: node_size_def split: inode.split)

lemma sizes_of_nonneg: "0 \<le> alist_sum snd (sizes_of es)"
  by (induction es) (auto simp: sizes_of_def)

lemma sizes_of_Cons: "sizes_of (e # es) = (if good e then [(fst e, node_size (snd e))] else []) @ sizes_of es"
  by (cases e) (simp add: sizes_of_def)

lemma purged_skip:
  assumes "purged es f1 f'" and "Ext n \<noteq> partial" and "fs_files f1 = fs_files f"
  shows "purged ((n, node) # es) f f'"
  using assms by (auto simp: purged_def)

lemma purged_partial:
  assumes "purged es f1 f'" and "Ext n = partial" and "without n f f1"
  shows "purged ((n, node) # es) f f'"
  using assms by (auto simp: purged_def without_def)

lemma observe_frame [simp]:
  "sp_sizes (observe k q s) = sp_sizes s" "sp_bytes (observe k q s) = sp_bytes s" "sp_maxBytes (observe k q s) = sp_maxBytes s"
  "sp_maxEntries (observe k q s) = sp_maxEntries s" "sp_order (observe k q s) = sp_order s" "sp_enqueued (observe k q s) = max (sp_enqueued s) k"
  by (simp_all add: observe_def Let_def max_def)

text \<open>One directory entry: what is not an entry's file is passed over, and a partial file removed; an entry's file is recorded.\<close>

lemma recover_passes:
  assumes bad: "\<not> good e" and f: "no_faults f" "distinct (map fst (fs_files f))"
  obtains g where "recover_loop (e # es) found (s, f) = recover_loop es found (s, g)" "no_faults g" "distinct (map fst (fs_files g))"
    "\<And>f'. purged es g f' \<Longrightarrow> purged (e # es) f f'"
proof -
  obtain n node where e: "e = (n, node)" by fastforce
  show ?thesis
  proof (cases "Ext n = partial")
    case True
    obtain r g where rm: "os_Remove n f = (r, g)" by fastforce
    have g: "without n f g" "no_faults g" by (rule os_Remove_cases[OF rm f(2)]; use f(1) in auto)+
    show ?thesis
      by (rule that[of g]) (use True rm g purged_partial[OF _ True g(1)] in \<open>auto simp: e without_def\<close>)
  next
    case False
    obtain c f1 where call: "os_call f = (c, f1)" by fastforce
    have f1: "c = None" "no_faults f1" "fs_files f1 = fs_files f" using os_call_frame[OF call] f(1) by auto
    have same: "purged es g f' \<Longrightarrow> purged (e # es) f f'" if "fs_files g = fs_files f" for g f'
      unfolding e by (rule purged_skip[OF _ False that])
    show ?thesis
    proof (cases "Ext n = extension \<and> node \<noteq> Special")
      case True
      then have "parseName n = None" using bad by (cases "parseName n") (simp_all add: good_def e)
      with True show ?thesis
        by (intro that[of f1] same) (use False f f1 call in \<open>auto simp: e split: inode.splits\<close>)
    next
      case other: False
      show ?thesis by (intro that[of f] same) (use False other f in \<open>auto simp: e\<close>)
    qed
  qed
qed

lemma recover_records:
  assumes good: "good e" and f: "no_faults f" and new: "map_of (sp_sizes s) (fst e) = None"
    and room: "0 \<le> sp_bytes s" "sp_bytes s + node_size (snd e) \<le> MaxInt64"
  obtains s1 f1 where "recover_loop (e # es) found (s, f) = recover_loop es (found @ [mk_entry (fst e)]) (s1, f1)" "no_faults f1" "fs_files f1 = fs_files f"
    "scanned [e] s s1"
proof -
  obtain n b where e: "e = (n, Regular b)" using good by (cases e; cases "snd e") (auto simp: good_def)
  obtain k q where parse: "parseName n = Some (k, q)" using good by (auto simp: good_def e)
  obtain c f1 where call: "os_call f = (c, f1)" by fastforce
  have f1: "c = None" "no_faults f1" "fs_files f1 = fs_files f" using os_call_frame[OF call] f by auto
  let ?z = "int (length b)"
  let ?s = "observe k q (s\<lparr>sp_sizes := AList.update n ?z (sp_sizes s), sp_bytes := wrap64 (sp_bytes s + ?z)\<rparr>)"
  have w: "wrap64 (sp_bytes s + ?z) = sp_bytes s + ?z"
    using room by (intro wrap64_id) (auto simp: in_i64_def MinInt64_def e node_size_def)
  have so: "sizes_of [e] = [(n, ?z)]" and ord: "ord_of n = k" using good parse by (simp_all add: sizes_of_def e node_size_def ord_of_def)
  have up: "AList.update n ?z (sp_sizes s) = sp_sizes s @ [(n, ?z)]" using new by (simp add: e update_new)
  show ?thesis
  proof (rule that[of ?s f1])
    show "recover_loop (e # es) found (s, f) = recover_loop es (found @ [mk_entry (fst e)]) (?s, f1)"
      using good parse call f1(1) by (simp add: e good_def Let_def mk_entry_def)
    show "scanned [e] s ?s" by (auto simp: scanned_def so w up ord max_def)
  qed (fact f1)+
qed

lemma scanned_Cons:
  assumes "scanned [e] s s1" and "scanned es s1 s'"
  shows "scanned (e # es) s s'"
proof -
  have "sizes_of (e # es) = sizes_of [e] @ sizes_of es" by (simp add: sizes_of_Cons sizes_of_def)
  with assms show ?thesis by (fastforce simp: scanned_def)
qed

lemma recover_loop_ok:
  assumes "no_faults f" and "distinct (map fst (fs_files f))" and "distinct (map fst es)"
    and "fst ` set es \<inter> fst ` set (sp_sizes s) = {}" and "0 \<le> sp_bytes s" and "sp_bytes s + alist_sum snd (sizes_of es) \<le> MaxInt64"
  shows "\<exists>s' f'. recover_loop es found (s, f) = (Inr (found @ map (mk_entry \<circ> fst) (filter good es)), (s', f')) \<and>
    scanned es s s' \<and> purged es f f'"
  using assms
proof (induction es arbitrary: found s f)
  case Nil
  then show ?case by (simp add: scanned_def sizes_of_def purged_def)
next
  case (Cons e es)
  have disj: "fst ` set es \<inter> fst ` set (sp_sizes s) = {}" and d: "distinct (map fst es)" "fst e \<notin> fst ` set es" and new: "map_of (sp_sizes s) (fst e) = None"
    using Cons.prems(3,4) by (auto simp: map_of_eq_None_iff)
  show ?case
  proof (cases "good e")
    case False
    from recover_passes[OF False Cons.prems(1,2)] obtain g where g: "recover_loop (e # es) found (s, f) = recover_loop es found (s, g)"
      "no_faults g" "distinct (map fst (fs_files g))" "\<And>f'. purged es g f' \<Longrightarrow> purged (e # es) f f'" by metis
    have so: "sizes_of (e # es) = sizes_of es" using False by (simp add: sizes_of_Cons)
    with Cons.IH[OF g(2,3) d(1) disj Cons.prems(5), of found] Cons.prems(6) g(1,4) False show ?thesis
      by (fastforce simp: scanned_def)
  next
    case True
    have so: "sizes_of (e # es) = (fst e, node_size (snd e)) # sizes_of es" using True by (simp add: sizes_of_Cons)
    then have "sp_bytes s + node_size (snd e) \<le> MaxInt64" using Cons.prems(6) sizes_of_nonneg[of es] by simp
    from recover_records[OF True Cons.prems(1) new Cons.prems(5) this] obtain s1 f1 where
      r: "recover_loop (e # es) found (s, f) = recover_loop es (found @ [mk_entry (fst e)]) (s1, f1)" "no_faults f1" "fs_files f1 = fs_files f"
        "scanned [e] s s1" by metis
    have s1: "sp_sizes s1 = sp_sizes s @ [(fst e, node_size (snd e))]" "sp_bytes s1 = sp_bytes s + node_size (snd e)"
      using r(4) True by (simp_all add: scanned_def sizes_of_def split_beta)
    have "\<exists>s' f'. recover_loop es (found @ [mk_entry (fst e)]) (s1, f1) =
        (Inr ((found @ [mk_entry (fst e)]) @ map (mk_entry \<circ> fst) (filter good es)), (s', f')) \<and> scanned es s1 s' \<and> purged es f1 f'"
      by (rule Cons.IH) (use Cons.prems(2,5,6) r(2,3) d disj s1 so in auto)
    moreover have "Ext (fst e) \<noteq> partial" using True by (simp add: good_def)
    ultimately show ?thesis using r(1,3) True scanned_Cons[OF r(4)] purged_skip[of es f1 _ "fst e" f "snd e"] by auto
  qed
qed

lemma good_entries_order:
  assumes "sinv (s, f)" and "es = sort_key fst (fs_files f)"
  shows "set (map fst (filter good es)) = set (sp_order s)" and "distinct (map fst (filter good es))"
    and "\<And>n. map_of (sizes_of es) n = map_of (sp_sizes s) n"
proof -
  have ok: "spool_ok s" and dir: "dir_ok s f" using assms(1) by (simp_all add: sinv_def)
  have d: "distinct (map fst (fs_files f))" using dir by (simp add: dir_ok_def)
  have "mset (map fst es) = mset (map fst (fs_files f))" by (simp add: assms(2))
  with d have des: "distinct (map fst es)" using mset_eq_imp_distinct_iff by blast
  show dg: "distinct (map fst (filter good es))" by (rule distinct_map_filter[OF des])
  have files: "(n, node) \<in> set es \<longleftrightarrow> map_of (fs_files f) n = Some node" for n node
    using d by (simp add: assms(2))
  have ord: "n \<in> set (sp_order s) \<longleftrightarrow> (\<exists>b. (n, Regular b) \<in> set es \<and> good (n, Regular b))" for n
  proof
    assume n: "n \<in> set (sp_order s)"
    have "Ext n = extension" "parseName n \<noteq> None"
      using spool_ok_ext[OF ok n] spool_ok_name[OF ok n] name_ok_parse(1) by auto
    with order_file(1)[OF assms(1) n] files show "\<exists>b. (n, Regular b) \<in> set es \<and> good (n, Regular b)" by (auto simp: good_def simp del: map_of_eq_Some_iff)
  next
    assume "\<exists>b. (n, Regular b) \<in> set es \<and> good (n, Regular b)"
    with dir files show "n \<in> set (sp_order s)" unfolding dir_ok_def good_def by fastforce
  qed
  show "set (map fst (filter good es)) = set (sp_order s)"
  proof (rule set_eqI)
    fix n
    have "n \<in> set (map fst (filter good es)) \<longleftrightarrow> (\<exists>node. (n, node) \<in> set es \<and> good (n, node))" by force
    also have "\<dots> \<longleftrightarrow> (\<exists>b. (n, Regular b) \<in> set es \<and> good (n, Regular b))" by (metis good_def inode.exhaust snd_conv)
    finally show "n \<in> set (map fst (filter good es)) \<longleftrightarrow> n \<in> set (sp_order s)" using ord by simp
  qed
  have dom: "fst ` set (sizes_of es) = set (sp_order s)"
    using \<open>set (map fst (filter good es)) = set (sp_order s)\<close> by (force simp: sizes_of_def image_image)
  show "map_of (sizes_of es) n = map_of (sp_sizes s) n" for n
  proof (cases "n \<in> set (sp_order s)")
    case True
    obtain z where z: "map_of (sp_sizes s) n = Some z" using order_file(2)[OF assms(1) True] by auto
    note c = dir_ok_content[OF dir z]
    have "(n, Regular (content f n)) \<in> set (filter good es)"
      using True c(1) files spool_ok_ext[OF ok True] spool_ok_name[OF ok True] name_ok_parse(1) by (auto simp: good_def simp del: map_of_eq_Some_iff)
    then have "(n, z) \<in> set (sizes_of es)" using c(2) by (force simp: sizes_of_def node_size_def)
    moreover have "distinct (map fst (sizes_of es))" using dg by (simp add: sizes_of_def comp_def case_prod_unfold)
    ultimately show ?thesis using z by (simp add: map_of_is_SomeI)
  next
    case False
    with dom ok show ?thesis by (metis map_of_eq_None_iff spool_ok_def)
  qed
qed

lemma drop_oldest_noop: "\<not> over s \<Longrightarrow> drop_oldest fuel over (s, f) = (s, f)"
  by (cases fuel) simp_all

lemma alist_sum_map_of:
  assumes "distinct (map fst m)" and "distinct (map fst m')" and "map_of m = map_of m'"
  shows "alist_sum g m = alist_sum g m'"
proof -
  have "set m = set m'" using assms map_of_inject_set by blast
  moreover have "distinct m" "distinct m'" using assms(1,2) by (simp_all add: distinct_map)
  ultimately show ?thesis by (simp add: alist_sum_def sum_list_distinct_conv_sum_set)
qed

lemma name_ok_lower: "name_ok N n \<Longrightarrow> N \<le> MaxInt64 \<Longrightarrow> ord_of n \<le> M \<Longrightarrow> name_ok M n"
  unfolding name_ok_def ord_of_def by (elim exE conjE) (auto simp: parseName_entry_name intro!: exI)

lemma sorted_wrt_less_inj: "sorted_wrt (\<lambda>m n. g m < (g n :: int)) xs \<Longrightarrow> inj_on g (set xs)"
proof (induction xs)
  case (Cons a xs)
  then have "inj_on g (set xs)" and less: "\<forall>x \<in> set xs. g a < g x" by simp_all
  moreover have "g a \<notin> g ` set xs" using less by force
  ultimately show ?case by (auto simp: inj_on_insert)
qed simp

lemma mk_entry_simps [simp]: "en_name (mk_entry n) = n" "en_ordinal (mk_entry n) = ord_of n"
  by (simp_all add: mk_entry_def ord_of_def)

lemma recovered_order:
  assumes "spool_ok s" and "set ns = set (sp_order s)" and "distinct ns"
  shows "map en_name (sort_key (\<lambda>e. (en_ordinal e, en_sequence e)) (map mk_entry ns)) = sp_order s"
proof -
  let ?key = "\<lambda>e. (en_ordinal e, en_sequence e)"
  have srt: "sorted_wrt (\<lambda>m n. ord_of m < ord_of n) (sp_order s)" and d: "distinct (sp_order s)"
    using assms(1) by (simp_all add: spool_ok_def)
  have "mset ns = mset (sp_order s)" using assms(2,3) d set_eq_iff_mset_eq_distinct by blast
  then have "mset (map mk_entry ns) = mset (map mk_entry (sp_order s))" by simp
  moreover have "inj_on ?key (set (map mk_entry ns))"
  proof -
    have "inj_on ord_of (set (sp_order s))" by (rule sorted_wrt_less_inj[OF srt])
    then show ?thesis using assms(2) by (auto simp: inj_on_def)
  qed
  moreover have "sorted (map ?key (map mk_entry (sp_order s)))"
    unfolding sorted_map sorted_wrt_map using srt
    by (rule sorted_wrt_mono_rel[rotated]) (simp add: less_eq_prod_def)
  ultimately have "sort_key ?key (map mk_entry ns) = map mk_entry (sp_order s)" by (rule sort_key_inj_key_eq)
  then show ?thesis by (simp add: comp_def)
qed

lemma scanned_enqueued:
  assumes "spool_ok s" and "scanned es s0 s1" and "sp_enqueued s0 = 0" and "fst ` set (sizes_of es) = set (sp_order s)"
  shows "0 \<le> sp_enqueued s1" and "\<forall>n \<in> set (sp_order s). ord_of n \<le> sp_enqueued s1" and "sp_enqueued s1 \<le> MaxInt64"
proof -
  have all: "\<forall>(n, z) \<in> set (sizes_of es). ord_of n \<le> sp_enqueued s1"
    and top: "sp_enqueued s1 = 0 \<or> (\<exists>(n, z) \<in> set (sizes_of es). sp_enqueued s1 = ord_of n)"
    using assms(2) by (simp_all add: scanned_def assms(3))
  show "0 \<le> sp_enqueued s1" using assms(2,3) by (simp add: scanned_def)
  show "\<forall>n \<in> set (sp_order s). ord_of n \<le> sp_enqueued s1" using all unfolding assms(4)[symmetric] by auto
  from top show "sp_enqueued s1 \<le> MaxInt64"
  proof
    assume "\<exists>(n, z) \<in> set (sizes_of es). sp_enqueued s1 = ord_of n"
    then obtain n z where nz: "(n, z) \<in> set (sizes_of es)" "sp_enqueued s1 = ord_of n" by blast
    then have "n \<in> fst ` set (sizes_of es)" by force
    with nz(2) spool_ok_name[OF assms(1), of n] name_ok_parse(3)[of "sp_enqueued s" n] show ?thesis unfolding assms(4) by auto
  qed (simp add: MaxInt64_def)
qed

lemma recovered_sinv:
  assumes "sinv (s, f)" and "es = sort_key fst (fs_files f)" and "purged es f f'"
    and "scanned es s0 s1" and "sp_sizes s0 = []" "sp_bytes s0 = 0" "sp_enqueued s0 = 0" "sp_maxBytes s0 = sp_maxBytes s" "sp_maxEntries s0 = sp_maxEntries s"
  shows "sinv (s1\<lparr>sp_order := sp_order s\<rparr>, f')" and "queue (s1\<lparr>sp_order := sp_order s\<rparr>, f') = queue (s, f)"
    and "sp_bytes s1 = sp_bytes s"
proof -
  have ok: "spool_ok s" using assms(1) by (simp add: sinv_def)
  note ge = good_entries_order[OF assms(1,2)]
  have sizes: "sp_sizes s1 = sizes_of es" "sp_maxBytes s1 = sp_maxBytes s" "sp_maxEntries s1 = sp_maxEntries s"
    using assms(4-9) by (simp_all add: scanned_def)
  have dist: "distinct (map fst (sizes_of es))" using ge(2) by (simp add: sizes_of_def comp_def case_prod_unfold)
  have dom: "fst ` set (sizes_of es) = set (sp_order s)" using ge(1) by (force simp: sizes_of_def image_image)
  have sum: "alist_sum snd (sizes_of es) = sp_bytes s"
    using alist_sum_map_of[OF dist, of "sp_sizes s" snd] ge(3) ok by (simp add: spool_ok_def fun_eq_iff)
  show bytes: "sp_bytes s1 = sp_bytes s" using assms(4,6) sum by (simp add: scanned_def)
  note enq = scanned_enqueued[OF ok assms(4,7) dom]
  have "\<forall>(n, z) \<in> set (sizes_of es). 0 \<le> z \<and> z \<le> sp_maxBytes s"
  proof clarify
    fix n z assume "(n, z) \<in> set (sizes_of es)"
    then have "map_of (sp_sizes s) n = Some z" using ge(3) dist by (metis map_of_is_SomeI)
    then show "0 \<le> z \<and> z \<le> sp_maxBytes s" using ok map_of_SomeD unfolding spool_ok_def by fastforce
  qed
  moreover have "\<forall>n \<in> set (sp_order s). name_ok (sp_enqueued s1) n"
    using spool_ok_name[OF ok] name_ok_lower enq(2) by blast
  ultimately have "spool_ok (s1\<lparr>sp_order := sp_order s\<rparr>)"
    using ok dist dom sum bytes enq unfolding spool_ok_def by (simp add: sizes)
  moreover have same: "same_entries f f'"
    using assms(2,3) by (auto simp: same_entries_def purged_def)
  note sa = sinv_same_entries[OF assms(1) same]
  have "dir_ok (s1\<lparr>sp_order := sp_order s\<rparr>) f'"
    using sa(1) ge(3) unfolding sinv_def dir_ok_def by (simp add: sizes del: map_of_eq_Some_iff)
  ultimately show "sinv (s1\<lparr>sp_order := sp_order s\<rparr>, f')" by (simp add: sinv_def)
  show "queue (s1\<lparr>sp_order := sp_order s\<rparr>, f') = queue (s, f)" using sa(2) by (simp add: queue_def)
qed

definition entries_for :: "int \<Rightarrow> int" where
  "entries_for maxBytes = (if maxBytes div minBudgetPerEntry < minEntries then minEntries else maxBytes div minBudgetPerEntry)"

lemma spool_reopen:
  assumes "sinv (s, f)" and "no_faults f" and "sp_bytes s \<le> sp_maxBytes s" and "dir \<noteq> []" and "sp_maxEntries s = entries_for (sp_maxBytes s)"
  shows "\<exists>s' f'. Spool_Open dir (sp_maxBytes s) f = (Inr s', f') \<and> sinv (s', f') \<and> sp_order s' = sp_order s \<and>
    queue (s', f') = queue (s, f) \<and> no_faults f' \<and> (\<forall>n. Ext n = partial \<longrightarrow> map_of (fs_files f') n = None)"
proof -
  have ok: "spool_ok s" using assms(1) by (simp add: sinv_def)
  obtain c1 f1 where call1: "os_call f = (c1, f1)" by fastforce
  obtain c2 f2 where call2: "os_call f1 = (c2, f2)" by fastforce
  obtain b f3 where ft: "fault f2 = (b, f3)" by fastforce
  have f3: "c1 = None" "c2 = None" "\<not> b" "no_faults f3" "fs_files f3 = fs_files f"
    using os_call_frame[OF call1] os_call_frame[OF call2] fault_frame[OF ft] assms(2) by auto
  define es where "es = sort_key fst (fs_files f)"
  define s0 where "s0 = \<lparr>sp_maxBytes = sp_maxBytes s, sp_maxEntries = entries_for (sp_maxBytes s),
     sp_order = [], sp_sizes = [], sp_bytes = 0, sp_seq = 0, sp_enqueued = 0, sp_dequeued = 0, sp_dropped = 0, sp_dropFailures = 0\<rparr>"
  have inv3: "sinv (s, f3)" "queue (s, f3) = queue (s, f)" using sinv_files[OF f3(5)] assms(1) by auto
  have es3: "es = sort_key fst (fs_files f3)" by (simp add: es_def f3(5))
  note ge = good_entries_order[OF inv3(1) es3]
  have dist: "distinct (map fst (sizes_of es))" using ge(2) by (simp add: sizes_of_def comp_def case_prod_unfold)
  have sum: "alist_sum snd (sizes_of es) = sp_bytes s"
    using alist_sum_map_of[OF dist, of "sp_sizes s" snd] ge(3) ok by (simp add: spool_ok_def fun_eq_iff)
  have d: "distinct (map fst (fs_files f3))" using inv3(1) by (simp add: sinv_def dir_ok_def)
  have "mset (map fst es) = mset (map fst (fs_files f3))" by (simp add: es3)
  with d have des: "distinct (map fst es)" using mset_eq_imp_distinct_iff by blast
  have "\<exists>s' f'. recover_loop es [] (s0, f3) = (Inr ([] @ map (mk_entry \<circ> fst) (filter good es)), (s', f')) \<and> scanned es s0 s' \<and> purged es f3 f'"
    by (rule recover_loop_ok[OF f3(4) d des]) (use bytes_range[OF ok] ok sum in \<open>auto simp: s0_def spool_ok_def\<close>)
  then obtain s1 f4 where rl: "recover_loop es [] (s0, f3) = (Inr (map mk_entry (map fst (filter good es))), (s1, f4))"
      "scanned es s0 s1" "purged es f3 f4" by auto
  let ?s = "s1\<lparr>sp_order := sp_order s\<rparr>"
  have rec: "sinv (?s, f4)" "queue (?s, f4) = queue (s, f3)" "sp_bytes s1 = sp_bytes s"
    by (rule recovered_sinv[OF inv3(1) es3 rl(3,2)]; simp add: s0_def assms(5))+
  have "spool_recover (s0, f2) = (None, (?s, f4))"
    using rl(1) f3(3,5) recovered_order[OF ok ge(1,2)] by (simp add: spool_recover_def os_ReadDir_def ft es_def Let_def del: map_map)
  moreover have "trimToBudget (?s, f4) = (?s, f4)"
    unfolding trimToBudget_def using rec(3) assms(3) rl(2) ok assms(5)
    by (intro drop_oldest_noop) (auto simp: scanned_def s0_def spool_ok_def)
  ultimately have "Spool_Open dir (sp_maxBytes s) f = (Inr ?s, f4)"
    using assms(4) ok by (simp add: Spool_Open_def call1 call2 f3 Let_def spool_ok_def flip: entries_for_def s0_def)
  moreover have "no_faults f4" "\<forall>n. Ext n = partial \<longrightarrow> map_of (fs_files f4) n = None"
    using rl(3) by (auto simp: purged_def es3 map_of_eq_None_iff image_iff)
  ultimately show ?thesis using rec inv3(2) by auto
qed

section \<open>Properties\<close>

text \<open>
  Entry names. The name of an entry parses back to the ordinal and the sequence number it was made from, so recovery reads the
  order of the queue from the directory.
\<close>

theorem entry_name_roundtrip:
  assumes "0 \<le> ordinal" and "ordinal \<le> MaxInt64" and "sequence < 18446744073709551616"
  shows "parseName (entry_name ordinal sequence) = Some (ordinal, sequence)"
  by (rule parseName_entry_name[OF assms])

theorem entry_name_roundtrip_witness: "parseName (entry_name 7 42) = Some (7, 42)"
  by (rule entry_name_roundtrip) (simp_all add: MaxInt64_def)

text \<open>
  The specification of a bounded queue: an empty or oversized payload is refused; otherwise the oldest payloads go
  until the new one fits the byte budget, and it is appended unless the entry ceiling is reached.
\<close>

definition spec_enqueue :: "int \<Rightarrow> int \<Rightarrow> bytes \<Rightarrow> bytes list \<Rightarrow> bool \<times> bytes list" where
  "spec_enqueue maxBytes maxEntries p q =
     (if p = [] \<or> maxBytes < int (length p) then (False, q)
      else let q' = evict (maxBytes - int (length p)) q
           in if maxEntries \<le> int (length q') then (False, q') else (True, q' @ [p]))"

definition plain_dir :: "fsys \<Rightarrow> bool" where
  "plain_dir f \<longleftrightarrow> (\<forall>n. map_of (fs_files f) n \<noteq> Some Special)"

lemma drop_oldest_plain:
  assumes "plain_dir f" and "sinv (s, f)" and "drop_oldest fuel over (s, f) = (s', f')"
  shows "plain_dir f'"
  using assms
proof (induction fuel arbitrary: s f)
  case (Suc fuel)
  show ?case
  proof (cases "over s \<and> sp_order s \<noteq> []")
    case True
    then obtain n rest where ns: "sp_order s = n # rest" by (cases "sp_order s") auto
    obtain r s1 f1 where r: "removeLocked n (s, f) = (r, (s1, f1))" by (metis prod.collapse)
    have mem: "n \<in> set (sp_order s)" using ns by simp
    show ?thesis
    proof (rule removeLocked_cases[OF Suc.prems(2) mem r])
      fix err assume "r = Some err" "s1 = s" "fs_files f1 = fs_files f"
      with True ns r Suc.prems show ?thesis by (simp add: plain_dir_def)
    next
      assume h: "r = None" "s1 = forget n s" "without n f f1"
      have "plain_dir f1" using Suc.prems(1) h(3) by (simp add: plain_dir_def without_def)
      moreover have "drop_oldest fuel over (add_dropped s1, f1) = (s', f')" using True ns r h(1) Suc.prems(3) by simp
      ultimately show ?thesis using Suc.IH[of f1 "add_dropped s1"] remove_head(1)[OF Suc.prems(2) ns h(3)] h(2) by simp
    qed
  qed (use Suc.prems in \<open>auto split: if_splits\<close>)
qed simp


definition ex_dir :: fsys where "ex_dir = \<lparr>fs_files = [], fs_faults = []\<rparr>"

definition ex_spool :: "int \<Rightarrow> Spool" where
  "ex_spool maxBytes = \<lparr>sp_maxBytes = maxBytes, sp_maxEntries = 64, sp_order = [], sp_sizes = [], sp_bytes = 0, sp_seq = 0,
     sp_enqueued = 0, sp_dequeued = 0, sp_dropped = 0, sp_dropFailures = 0\<rparr>"

lemma ex_spool_ok: "sinv (ex_spool 10, ex_dir \<lparr>fs_faults := bs\<rparr>)"
  by (simp add: sinv_def spool_ok_def dir_ok_def ex_spool_def ex_dir_def MaxInt64_def)

lemma ex_spool_fields [simp]: "sp_maxBytes (ex_spool b) = b" "sp_maxEntries (ex_spool b) = 64" "sp_enqueued (ex_spool b) = 0"
  "sp_bytes (ex_spool b) = 0" "sp_order (ex_spool b) = []" "sp_sizes (ex_spool b) = []" "queue (ex_spool b, f) = []"
  by (simp_all add: ex_spool_def queue_def)


text \<open>
  Reading does not lose. Whatever the file system does, peeking leaves the queue as it is and returns, if anything, the oldest payload; and
  releasing the entry that was read removes exactly that payload or, on failure, nothing. Without failures, peek and release of
  a non-empty queue return and remove its head.
\<close>

theorem spool_dequeue:
  assumes "sinv (s, f)" and "Peek (s, f) = (r, (s1, f1))" and "queue (s, f) = b # q"
  shows "sinv (s1, f1) \<and> queue (s1, f1) = b # q \<and> (no_faults f \<longrightarrow> (\<exists>n. r = Inr (b, n))) \<and>
    (\<forall>p n. r = Inr (p, n) \<longrightarrow> p = b \<and>
       (case Spool_Release n (s1, f1) of
          (e, sf2) \<Rightarrow> sinv sf2 \<and> queue sf2 \<in> {b # q, q} \<and> (no_faults f1 \<longrightarrow> e = None \<and> queue sf2 = q)))"
proof (rule Peek_cases[OF assms(1,2)])
  fix n rest err assume "s1 = s" "fs_files f1 = fs_files f" "r = Inl err" "\<not> no_faults f"
  with assms sinv_files[of f1 f s] show ?thesis by simp
next
  fix n rest assume read: "sp_order s = n # rest" "r = Inr (content f n, n)" "s1 = s" "fs_files f1 = fs_files f"
  have inv1: "sinv (s, f1)" "queue (s, f1) = b # q" using sinv_files[OF read(4), of s] assms(1,3) by simp_all
  have "content f1 = content f" using read(4) by (simp add: content_def fun_eq_iff)
  moreover have "distinct (n # rest)" using assms(1) read(1) by (metis fst_conv sinv_def spool_ok_def)
  then have "filter (\<lambda>m. m \<noteq> n) (sp_order s) = rest" using read(1) by (auto intro: filter_True)
  moreover have hd: "content f n = b" "map (content f) rest = q" using assms(3) read(1) by (simp_all add: queue_def)
  ultimately have "map (content f1) (filter (\<lambda>m. m \<noteq> n) (sp_order s)) = q" by simp
  with Release_safe[OF inv1(1), of n] inv1 hd(1) read show ?thesis by (auto split: prod.splits)
qed (use assms(3) in \<open>simp add: queue_def\<close>)

lemma ex_spooled:
  obtains s' f' where "Enqueue ''abc'' (ex_spool 10, ex_dir) = (None, (s', f'))" "sinv (s', f')" "queue (s', f') = [''abc'']" "no_faults f'"
proof -
  obtain r s' f' where run: "Enqueue ''abc'' (ex_spool 10, ex_dir) = (r, (s', f'))" by (metis prod.collapse)
  have nf: "no_faults ex_dir" and plain: "plain_dir ex_dir" by (simp_all add: no_faults_def plain_dir_def ex_dir_def)
  have inv: "sinv (ex_spool 10, ex_dir)" using ex_spool_ok[of "[]"] by (simp add: ex_dir_def)
  have p: "''abc'' \<noteq> []" "int (length ''abc'') \<le> sp_maxBytes (ex_spool 10)" "sp_enqueued (ex_spool 10) < MaxInt64"
    "sp_maxEntries (ex_spool 10) < 18446744073709551616" by (simp_all add: MaxInt64_def)
  have drop: "drop_oldest (length (sp_order (ex_spool 10))) (\<lambda>s. sp_maxBytes s < wrap64 (sp_bytes s + int (length ''abc''))) (ex_spool 10, ex_dir) = (ex_spool 10, ex_dir)"
    by (simp add: ex_spool_def)
  show ?thesis
  proof (rule Enqueue_step[OF inv p drop run])
    fix q assume q: "q < 18446744073709551616" "map_of (sp_sizes (ex_spool 10)) (entry_name (sp_enqueued (ex_spool 10) + 1) q) = None"
      "publish_entry (entry_name (sp_enqueued (ex_spool 10) + 1) q) ''abc'' ((ex_spool 10)\<lparr>sp_seq := q\<rparr>, ex_dir) = (r, (s', f'))"
    have "sinv (s', f') \<and> r = None \<and> no_faults f' \<and> (r = None \<longrightarrow> queue (s', f') = [''abc''])"
      using publish_entry_safe[of "(ex_spool 10)\<lparr>sp_seq := q\<rparr>" ex_dir _ q "''abc''" r s' f'] q inv nf plain p
      by (simp add: plain_dir_def MaxInt64_def)
    with run that show ?thesis by simp
  qed simp
qed

theorem spool_dequeue_witness:
  "\<exists>s f n. queue (s, f) = [''abc''] \<and> fst (Peek (s, f)) = Inr (''abc'', n)"
proof -
  obtain s' f' where h: "sinv (s', f')" "queue (s', f') = [''abc'']" "no_faults f'" by (rule ex_spooled)
  obtain r s1 f1 where run: "Peek (s', f') = (r, (s1, f1))" by (metis prod.collapse)
  from spool_dequeue[OF h(1) run, of "''abc''" "[]"] h obtain n where "r = Inr (''abc'', n)" by blast
  with h(2) run show ?thesis by (intro exI[of _ s'] exI[of _ f'] exI[of _ n]) simp
qed


definition crash_script :: "bool list" where "crash_script = [False, False, False, False, True, True, True]"


inductive spool_step :: "Spool \<times> fsys \<Rightarrow> Spool \<times> fsys \<Rightarrow> bool" where
  spool_enqueue: "sp_enqueued s < MaxInt64 \<Longrightarrow> Enqueue p (s, f) = (r, sf) \<Longrightarrow> spool_step (s, f) sf"
| spool_peek: "Peek (s, f) = (rp, sf) \<Longrightarrow> spool_step (s, f) sf"
| spool_release: "Spool_Release n (s, f) = (r, sf) \<Longrightarrow> spool_step (s, f) sf"
| spool_faults: "spool_step (s, f) (s, f\<lparr>fs_faults := bs\<rparr>)"

lemma Release_config:
  assumes "Spool_Release n (s, f) = (r, (s', f'))"
  shows "sp_maxEntries s' = sp_maxEntries s"
  using assms by (auto simp: Spool_Release_def removeLocked_def split: if_splits prod.splits option.splits)

lemma spool_step_sinv:
  assumes "spool_step sf sf'" and "sinv sf" and "sp_maxEntries (fst sf) < 18446744073709551616"
  shows "sinv sf' \<and> sp_maxEntries (fst sf') = sp_maxEntries (fst sf)"
  using assms
proof cases
  case (spool_enqueue s p f r)
  with assms(2,3) Enqueue_safe[of s f p r "fst sf'" "snd sf'"] Enqueue_config[of s f p r "fst sf'" "snd sf'"] show ?thesis by simp
next
  case (spool_peek s f rp)
  have run: "Peek (s, f) = (rp, (fst sf', snd sf'))" using spool_peek by simp
  have inv: "sinv (s, f)" using assms(2) spool_peek by simp
  show ?thesis
    by (rule Peek_cases[OF inv run]) (use inv spool_peek(1) sinv_files[of "snd sf'" f s] in \<open>simp_all add: prod_eq_iff\<close>, metis prod.collapse)+
next
  case (spool_release n s f r)
  with assms(2) Release_safe[of s f n r "fst sf'" "snd sf'"] Release_config[of n s f r "fst sf'" "snd sf'"] show ?thesis by simp
next
  case (spool_faults s f bs)
  with assms(2) sinv_files[of "f\<lparr>fs_faults := bs\<rparr>" f s] show ?thesis by simp
qed

text \<open>
  Property C37 (the index is exact). In every state reached by any operations under any pattern of failures, the byte count is the total
  length of the queued payloads, the index lists exactly the entries in the directory, the names are in
  queue order, and the number of entries is within its ceiling.
\<close>

theorem spool_index_exact:
  assumes "spool_step\<^sup>*\<^sup>* (s0, f0) (s, f)" and "sinv (s0, f0)" and "sp_maxEntries s0 < 18446744073709551616"
  shows "sp_bytes s = total (queue (s, f)) \<and> distinct (sp_order s) \<and> sorted_wrt (\<lambda>m n. ord_of m < ord_of n) (sp_order s) \<and>
    set (sp_order s) = {n. (\<exists>b. map_of (fs_files f) n = Some (Regular b)) \<and> Ext n = extension \<and> parseName n \<noteq> None} \<and>
    st_Entries (Stats s) \<le> sp_maxEntries s0"
proof -
  have inv: "sinv (s, f) \<and> sp_maxEntries s = sp_maxEntries s0"
    using assms(1)
  proof (induction "(s, f)" arbitrary: s f rule: rtranclp_induct)
    case (step sf)
    with spool_step_sinv[OF step(2)] assms(3) show ?case by (metis fst_conv prod.collapse)
  qed (use assms(2) in simp)
  have ok: "spool_ok s" and dir: "dir_ok s f" using inv by (simp_all add: sinv_def)
  have "n \<in> set (sp_order s) \<longleftrightarrow> (\<exists>b. map_of (fs_files f) n = Some (Regular b)) \<and> Ext n = extension \<and> parseName n \<noteq> None" for n
    using order_file(1)[of s f n] inv spool_ok_ext[OF ok] spool_ok_name[OF ok] name_ok_parse(1) dir unfolding dir_ok_def by blast
  moreover have "distinct (sp_order s)" "sorted_wrt (\<lambda>m n. ord_of m < ord_of n) (sp_order s)" "st_Entries (Stats s) \<le> sp_maxEntries s0"
    using ok inv by (simp_all add: spool_ok_def Stats_def)
  ultimately show ?thesis using bytes_total[of s f] inv by blast
qed

theorem spool_index_exact_witness:
  "sp_bytes (fst (snd (Enqueue ''abc'' (ex_spool 10, ex_dir\<lparr>fs_faults := crash_script\<rparr>)))) =
   total (queue (snd (Enqueue ''abc'' (ex_spool 10, ex_dir\<lparr>fs_faults := crash_script\<rparr>))))"
proof -
  let ?sf = "snd (Enqueue ''abc'' (ex_spool 10, ex_dir\<lparr>fs_faults := crash_script\<rparr>))"
  have "spool_step (ex_spool 10, ex_dir\<lparr>fs_faults := crash_script\<rparr>) (fst ?sf, snd ?sf)"
    by (rule spool_enqueue[of _ "''abc''" _ "fst (Enqueue ''abc'' (ex_spool 10, ex_dir\<lparr>fs_faults := crash_script\<rparr>))"]) (simp_all add: MaxInt64_def)
  then have "spool_step\<^sup>*\<^sup>* (ex_spool 10, ex_dir\<lparr>fs_faults := crash_script\<rparr>) (fst ?sf, snd ?sf)" by (rule r_into_rtranclp)
  from spool_index_exact[OF this ex_spool_ok] show ?thesis by simp
qed
end
