(* ===== verification/Transport.thy ===== *)
theory Transport
  imports HttpIngest Spool "HOL-Library.Sublist"
begin

text \<open>
  The agent's HTTPS transport (\<^verbatim>\<open>internal/transport/https.go\<close>): posting a batch, spooling it when the edge cannot
  be reached, and draining the spool. The HTTP client is a parameter with a state of its own that answers a post with
  an error or a status; reading certificates is a parameter of the construction. The lemmas say which payloads may leave the spool and why.
\<close>

section \<open>Construction\<close>

definition ErrNoEndpoint :: error where [go_error_defs]: "ErrNoEndpoint = Err ''transport: endpoint is required''"
definition ErrNoKeyPair :: error where [go_error_defs]: "ErrNoKeyPair = Err ''transport: a client certificate and key are required''"
definition ErrEmptyCABundle :: error where [go_error_defs]: "ErrEmptyCABundle = Err ''transport: CA bundle contained no certificates''"
definition ErrNoEncoder :: error where [go_error_defs]: "ErrNoEncoder = Err ''transport: an encoder is required''"
definition ErrRejected :: error where [go_error_defs]: "ErrRejected = Err ''transport: edge rejected the batch''"
definition ErrUnacceptable :: error where [go_error_defs]: "ErrUnacceptable = Err ''transport: edge permanently refused the batch''"

definition MetricSent :: string where "MetricSent = ''agent_batches_sent''"
definition MetricSpooled :: string where "MetricSpooled = ''agent_batches_spooled''"
definition MetricDrained :: string where "MetricDrained = ''agent_batches_drained''"
definition MetricSpoolDropped :: string where "MetricSpoolDropped = ''agent_spool_dropped''"
definition MetricRefused :: string where "MetricRefused = ''agent_batches_refused''"
definition MetricReleaseFailed :: string where "MetricReleaseFailed = ''agent_spool_release_failed''"

type_synonym Encoder = "Batch \<Rightarrow> error + bytes"

text \<open>\<open>hx_Client\<close> says whether the caller supplied an HTTP client, in which case no certificate is read.\<close>

record HTTPSConfig =
  hx_Endpoint :: string
  hx_CertFile :: string
  hx_KeyFile :: string
  hx_CAFile :: string
  hx_ServerName :: string
  hx_Encode :: "Encoder option"
  hx_Client :: bool
  hx_BaseBackoff :: duration
  hx_MaxBackoff :: duration
  hx_DrainEvery :: duration

record HTTPS =
  h_endpoint :: string
  h_encode :: Encoder
  h_baseBackoff :: duration
  h_maxBackoff :: duration
  h_drainEvery :: duration

record ('cert, 'pool) tls_Config =
  tc_Certificate :: 'cert
  tc_ServerName :: string
  tc_RootCAs :: "'pool option"

definition buildClientTLS :: "(string \<Rightarrow> string \<Rightarrow> error + 'cert) \<Rightarrow> (string \<Rightarrow> error + bytes) \<Rightarrow> (bytes \<Rightarrow> 'pool option) \<Rightarrow> HTTPSConfig
    \<Rightarrow> error + ('cert, 'pool) tls_Config" where
  "buildClientTLS loadX509KeyPair readFile appendCertsFromPEM c =
     (if hx_CertFile c = [] \<or> hx_KeyFile c = [] then Inl ErrNoKeyPair
      else case loadX509KeyPair (hx_CertFile c) (hx_KeyFile c) of
        Inl err \<Rightarrow> Inl (Wrap ''transport: loading client certificate'' err)
      | Inr certificate \<Rightarrow>
          let tlsConfig = \<lparr>tc_Certificate = certificate, tc_ServerName = hx_ServerName c, tc_RootCAs = None\<rparr>
          in if hx_CAFile c = [] then Inr tlsConfig
             else case readFile (hx_CAFile c) of
               Inl err \<Rightarrow> Inl (Wrap ''transport: reading CA bundle'' err)
             | Inr pem \<Rightarrow>
                 (case appendCertsFromPEM pem of
                    None \<Rightarrow> Inl ErrEmptyCABundle
                  | Some pool \<Rightarrow> Inr (tlsConfig\<lparr>tc_RootCAs := Some pool\<rparr>)))"

definition NewHTTPS :: "(HTTPSConfig \<Rightarrow> error + 'tls) \<Rightarrow> HTTPSConfig \<Rightarrow> error + HTTPS" where
  "NewHTTPS build_tls c =
     (if hx_Endpoint c = [] then Inl ErrNoEndpoint
      else case hx_Encode c of
        None \<Rightarrow> Inl ErrNoEncoder
      | Some encode \<Rightarrow>
          (case (if hx_Client c then None else case build_tls c of Inl err \<Rightarrow> Some err | Inr tls \<Rightarrow> None) of
             Some err \<Rightarrow> Inl err
           | None \<Rightarrow>
               Inr \<lparr>h_endpoint = hx_Endpoint c, h_encode = encode,
                    h_baseBackoff = (if hx_BaseBackoff c \<le> 0 then 250 * millisecond else hx_BaseBackoff c),
                    h_maxBackoff = (if hx_MaxBackoff c \<le> 0 then 30 * second else hx_MaxBackoff c),
                    h_drainEvery = (if hx_DrainEvery c \<le> 0 then 2 * second else hx_DrainEvery c)\<rparr>))"

section \<open>Posting\<close>

text \<open>
  The mutable part: the spool with its directory (absent when the transport was built without one), the last drop count reported, the
  client's state and the recorder's.
\<close>

record ('c, 'm) transport =
  t_queue :: "(Spool \<times> fsys) option"
  t_lastDropped :: int
  t_client :: 'c
  t_metrics :: 'm

text \<open>The client builds the request for an endpoint and performs it: an error, or the status of the response.\<close>

type_synonym 'c http_client = "ctx \<Rightarrow> string \<Rightarrow> bytes \<Rightarrow> 'c \<Rightarrow> (error + int) \<times> 'c"

definition permanentlyRefused :: "int \<Rightarrow> bool" where
  "permanentlyRefused status =
     (if status < 400 \<or> 500 \<le> status then False else status \<noteq> 408 \<and> status \<noteq> 429)"

definition post_outcome :: "error + int \<Rightarrow> error option" where
  "post_outcome answer =
     (case answer of
        Inl err \<Rightarrow> Some err
      | Inr status \<Rightarrow>
          if 200 \<le> status \<and> status < 300 then None
          else if permanentlyRefused status then Some (Wrap (''status '' @ AppendInt status) ErrUnacceptable)
          else Some (Wrap (''status '' @ AppendInt status) ErrRejected))"

definition post :: "'c http_client \<Rightarrow> HTTPS \<Rightarrow> ctx \<Rightarrow> bytes \<Rightarrow> 'c \<Rightarrow> error option \<times> 'c" where
  "post do_request h ctx payload c =
     (case do_request ctx (h_endpoint h) payload c of (answer, c') \<Rightarrow> (post_outcome answer, c'))"

definition tr_record :: "'m MetricsRecorder \<Rightarrow> string \<Rightarrow> int \<Rightarrow> ('c, 'm) transport \<Rightarrow> ('c, 'm) transport" where
  "tr_record met name delta t =
     (case met of None \<Rightarrow> t | Some increment \<Rightarrow> t\<lparr>t_metrics := increment name delta (t_metrics t)\<rparr>)"

definition recordSpoolDrops :: "'m MetricsRecorder \<Rightarrow> Spool \<Rightarrow> ('c, 'm) transport \<Rightarrow> ('c, 'm) transport" where
  "recordSpoolDrops met s t =
     (let dropped = st_Dropped (Stats s);
          delta = wrap64 (dropped - t_lastDropped t);
          t1 = t\<lparr>t_lastDropped := dropped\<rparr>
      in if 0 < delta then tr_record met MetricSpoolDropped delta t1 else t1)"

definition HTTPS_Send :: "'c http_client \<Rightarrow> 'm MetricsRecorder \<Rightarrow> HTTPS \<Rightarrow> ctx \<Rightarrow> Batch \<Rightarrow> ('c, 'm) transport
    \<Rightarrow> error option \<times> ('c, 'm) transport" where
  "HTTPS_Send do_request met h ctx batch t =
     (case h_encode h batch of
        Inl err \<Rightarrow> (Some err, t)
      | Inr payload \<Rightarrow>
          (case post do_request h ctx payload (t_client t) of
             (Some err, c) \<Rightarrow>
               let t1 = t\<lparr>t_client := c\<rparr>
               in if errors_Is err ErrUnacceptable then (Some err, tr_record met MetricRefused 1 t1)
                  else (case t_queue t1 of
                      None \<Rightarrow> (Some err, t1)
                    | Some sf \<Rightarrow>
                        (case Enqueue payload sf of
                           (enqueued, sf1) \<Rightarrow>
                             (enqueued, recordSpoolDrops met (fst sf1) ((tr_record met MetricSpooled 1 t1)\<lparr>t_queue := Some sf1\<rparr>))))
           | (None, c) \<Rightarrow> (None, tr_record met MetricSent 1 (t\<lparr>t_client := c\<rparr>))))"

section \<open>Draining the spool\<close>

definition drain_release :: "'m MetricsRecorder \<Rightarrow> string \<Rightarrow> Spool \<times> fsys \<Rightarrow> ('c, 'm) transport \<Rightarrow> ('c, 'm) transport" where
  "drain_release met name sf t =
     (case Spool_Release name sf of
        (Some err, sf1) \<Rightarrow> tr_record met MetricReleaseFailed 1 (t\<lparr>t_queue := Some sf1\<rparr>)
      | (None, sf1) \<Rightarrow> t\<lparr>t_queue := Some sf1\<rparr>)"

text \<open>
  The nominal delay keeps the wrap-around of the shift; the jitter is a real in the unit interval and the scaled delay is
  truncated, over exact arithmetic.
\<close>

definition nominal_delay :: "HTTPS \<Rightarrow> nat \<Rightarrow> duration" where
  "nominal_delay h attempt =
     (let delay = wrap64 (h_baseBackoff h * 2 ^ min (attempt - 1) 16)
      in if h_maxBackoff h < delay \<or> delay \<le> 0 then h_maxBackoff h else delay)"

definition backoff :: "HTTPS \<Rightarrow> real \<Rightarrow> nat \<Rightarrow> duration" where
  "backoff h jitter attempt = \<lfloor>real_of_int (nominal_delay h attempt) * (1 / 2 + 1 / 2 * jitter)\<rfloor>"

text \<open>
  What one round of the loop observes of its surroundings: the context's error at the top of the round, whether the context ends
  before the timer of the round's wait, and the random number drawn.
\<close>

record round =
  rd_ctx :: ctx
  rd_cancelled :: bool
  rd_jitter :: real

text \<open>
  One round: the number of consecutive failures that the next round starts from, or \<open>None\<close> when \<^verbatim>\<open>Drain\<close> returns; the
  delay waited for, if any; and the new state.
\<close>

definition drain_round :: "'c http_client \<Rightarrow> 'm MetricsRecorder \<Rightarrow> HTTPS \<Rightarrow> round \<Rightarrow> nat \<Rightarrow> Spool \<times> fsys \<Rightarrow> ('c, 'm) transport
    \<Rightarrow> nat option \<times> duration option \<times> ('c, 'm) transport" where
  "drain_round do_request met h rd failures sf t =
     (if rd_ctx rd \<noteq> None then (None, None, t)
      else case Peek sf of
        (Inl err, sf1) \<Rightarrow> (if rd_cancelled rd then None else Some 0, Some (h_drainEvery h), t\<lparr>t_queue := Some sf1\<rparr>)
      | (Inr (payload, name), sf1) \<Rightarrow>
          (case post do_request h (rd_ctx rd) payload (t_client t) of
             (Some err, c) \<Rightarrow>
               let t1 = t\<lparr>t_queue := Some sf1, t_client := c\<rparr>
               in if errors_Is err ErrUnacceptable
                  then (Some 0, None, tr_record met MetricRefused 1 (drain_release met name sf1 t1))
                  else (if rd_cancelled rd then None else Some (Suc failures), Some (backoff h (rd_jitter rd) (Suc failures)), t1)
           | (None, c) \<Rightarrow>
               (Some 0, None, tr_record met MetricDrained 1 (drain_release met name sf1 (t\<lparr>t_queue := Some sf1, t_client := c\<rparr>)))))"

text \<open>
  The loop over the rounds observed so far. The result says whether it is still running, and with how many consecutive failures.
\<close>

fun Drain :: "'c http_client \<Rightarrow> 'm MetricsRecorder \<Rightarrow> HTTPS \<Rightarrow> round list \<Rightarrow> nat \<Rightarrow> ('c, 'm) transport \<Rightarrow> nat option \<times> ('c, 'm) transport" where
  "Drain do_request met h [] failures t = (if t_queue t = None then None else Some failures, t)"
| "Drain do_request met h (rd # rds) failures t =
     (case t_queue t of
        None \<Rightarrow> (None, t)
      | Some sf \<Rightarrow>
          (case drain_round do_request met h rd failures sf t of
             (None, _, t1) \<Rightarrow> (None, t1)
           | (Some failures1, _, t1) \<Rightarrow> Drain do_request met h rds failures1 t1))"

section \<open>Lemmas\<close>

lemma tr_record_frame [simp]:
  "t_queue (tr_record met n d t) = t_queue t" "t_client (tr_record met n d t) = t_client t" "t_lastDropped (tr_record met n d t) = t_lastDropped t"
  by (simp_all add: tr_record_def split: option.split)

lemma recordSpoolDrops_frame [simp]:
  "t_queue (recordSpoolDrops met s t) = t_queue t" "t_client (recordSpoolDrops met s t) = t_client t"
  by (simp_all add: recordSpoolDrops_def Let_def)

lemma drain_release_frame:
  "t_queue (drain_release met n sf t) = Some (snd (Spool_Release n sf))" "t_client (drain_release met n sf t) = t_client t"
  by (cases "Spool_Release n sf"; cases "fst (Spool_Release n sf)"; simp add: drain_release_def)+

text \<open>An answer settles a payload when it is a success or a permanent refusal; only then may the payload leave the spool.\<close>

definition settled :: "error + int \<Rightarrow> bool" where
  "settled answer \<longleftrightarrow> (case post_outcome answer of None \<Rightarrow> True | Some err \<Rightarrow> errors_Is err ErrUnacceptable)"

lemma settled_status: "settled (Inr status) \<longleftrightarrow> (200 \<le> status \<and> status < 300) \<or> permanentlyRefused status"
  by (auto simp: settled_def post_outcome_def go_error_defs permanentlyRefused_def)

text \<open>A client that keeps a log of the payloads it was given and of its answers.\<close>

definition logged :: "'c http_client \<Rightarrow> ('c \<times> (bytes \<times> (error + int)) list) http_client" where
  "logged do_request ctx url payload cl =
     (case do_request ctx url payload (fst cl) of (answer, c) \<Rightarrow> (answer, (c, snd cl @ [(payload, answer)])))"

definition settled_payloads :: "(bytes \<times> (error + int)) list \<Rightarrow> bytes list" where
  "settled_payloads lg = map fst (filter (\<lambda>pa. settled (snd pa)) lg)"

lemma settled_payloads_simps [simp]:
  "settled_payloads [] = []" "settled_payloads (x # lg) = (if settled (snd x) then fst x # settled_payloads lg else settled_payloads lg)"
  "settled_payloads (lg @ lg') = settled_payloads lg @ settled_payloads lg'"
  by (simp_all add: settled_payloads_def)

lemma Release_head:
  assumes inv: "sinv (s, f)" and ns: "sp_order s = n # rest" and q: "queue (s, f) = b # q"
    and sf: "snd (Spool_Release n (s, f)) = sf"
  shows "sinv sf \<and> (queue sf = b # q \<or> queue sf = q) \<and> (no_faults f \<longrightarrow> queue sf = q \<and> no_faults (snd sf))"
proof -
  obtain r s' f' where run: "Spool_Release n (s, f) = (r, (s', f'))" by (metis prod.collapse)
  have "distinct (n # rest)" using inv ns by (metis fst_conv sinv_def spool_ok_def)
  then have "filter (\<lambda>m. m \<noteq> n) (sp_order s) = rest" using ns by (auto intro: filter_True)
  with Release_safe[OF inv run] ns q run sf show ?thesis by (auto simp: queue_def)
qed

text \<open>
  One round on a spool in order: it leaves the queue as it is, or removes the head after the answer to its
  post settled it; without faults and with a settled answer it does remove it.
\<close>

lemma drain_round_safe:
  assumes inv: "sinv (s, f)" and live: "rd_ctx rd = None" and q: "queue (s, f) = b # q"
    and run: "drain_round (logged do_request) met h rd n (s, f) t = (r, d, t')"
  obtains sf lg where "t_queue t' = Some sf" "sinv sf" "snd (t_client t') = snd (t_client t) @ lg"
    "queue sf = b # q \<or> (queue sf = q \<and> settled_payloads lg = [b])"
    "lg = [] \<or> lg = [(b, fst (do_request None (h_endpoint h) b (fst (t_client t))))]"
    "no_faults f \<longrightarrow> lg \<noteq> [] \<and> (settled (snd (hd lg)) \<longrightarrow> r = Some 0 \<and> queue sf = q \<and> no_faults (snd sf))"
proof -
  obtain p s1 f1 where peek: "Peek (s, f) = (p, (s1, f1))" by (metis prod.collapse)
  show ?thesis
  proof (rule Peek_cases[OF inv peek])
    assume "sp_order s = []"
    with q show ?thesis by (simp add: queue_def)
  next
    fix m rest err assume h: "p = Inl err" "s1 = s" "fs_files f1 = fs_files f" "\<not> no_faults f"
    have "sinv (s, f1)" "queue (s, f1) = b # q" using sinv_files[OF h(3), of s] inv q by simp_all
    with h run live peek show ?thesis by (intro that[of "(s, f1)" "[]"]) (auto simp: drain_round_def)
  next
    fix m rest assume h: "sp_order s = m # rest" "p = Inr (content f m, m)" "s1 = s" "fs_files f1 = fs_files f" "no_faults f \<Longrightarrow> no_faults f1"
    have inv1: "sinv (s, f1)" "queue (s, f1) = b # q" using sinv_files[OF h(4), of s] inv q by simp_all
    have b: "content f m = b" using q h(1) by (simp add: queue_def)
    obtain a c where ans: "do_request None (h_endpoint h) b (fst (t_client t)) = (a, c)" by fastforce
    let ?lg = "[(b, a)]"
    have post: "post (logged do_request) h (rd_ctx rd) b (t_client t) = (post_outcome a, (c, snd (t_client t) @ ?lg))"
      using ans live by (simp add: post_def logged_def)
    note rel = Release_head[OF inv1(1) h(1) inv1(2) refl]
    show ?thesis
    proof (cases "settled a")
      case True
      have "t_queue t' = Some (snd (Spool_Release m (s, f1))) \<and> t_client t' = (c, snd (t_client t) @ ?lg) \<and> r = Some 0"
        using run live peek h b post True by (auto simp: drain_round_def settled_def drain_release_frame Let_def split: option.splits)
      with rel True ans h(5) show ?thesis by (intro that[of "snd (Spool_Release m (s, f1))" ?lg]) auto
    next
      case False
      have "t_queue t' = Some (s, f1) \<and> t_client t' = (c, snd (t_client t) @ ?lg)"
        using run live peek h b post False by (auto simp: drain_round_def settled_def Let_def split: option.splits)
      with inv1 ans False show ?thesis by (intro that[of "(s, f1)" ?lg]) auto
    qed
  qed
qed

lemma drain_round_idle:
  assumes "queue (s, f) = []" and "drain_round do_request met h rd n (s, f) t = (r, d, t')" and "t_queue t = Some (s, f)"
  shows "t_queue t' = Some (s, f) \<and> t_client t' = t_client t"
  using assms by (auto simp: drain_round_def Peek_def queue_def split: if_splits)

lemma Drain_prefix:
  assumes "t_queue t = Some sf0" and "sinv sf0" and "Drain (logged do_request) met h rds n t = (r, t')"
  shows "\<exists>sf lg removed. t_queue t' = Some sf \<and> sinv sf \<and> queue sf0 = removed @ queue sf \<and>
    snd (t_client t') = snd (t_client t) @ lg \<and> subseq removed (settled_payloads lg)"
  using assms
proof (induction rds arbitrary: n t sf0)
  case Nil
  then show ?case by (intro exI[of _ sf0] exI[of _ "[]"]) simp
next
  case (Cons rd rds)
  obtain s f where sf: "sf0 = (s, f)" by fastforce
  obtain r1 d1 t1 where rnd: "drain_round (logged do_request) met h rd n (s, f) t = (r1, d1, t1)" by (metis prod.collapse)
  obtain sf1 lg1 rem1 where one: "t_queue t1 = Some sf1" "sinv sf1" "queue sf0 = rem1 @ queue sf1"
      "snd (t_client t1) = snd (t_client t) @ lg1" "subseq rem1 (settled_payloads lg1)"
  proof (cases "rd_ctx rd = None \<and> queue (s, f) \<noteq> []")
    case True
    then obtain b q where q: "queue (s, f) = b # q" by (cases "queue (s, f)") auto
    have live: "rd_ctx rd = None" and inv: "sinv (s, f)" using True Cons.prems(2) sf by simp_all
    obtain sf1 lg where h: "t_queue t1 = Some sf1" "sinv sf1" "snd (t_client t1) = snd (t_client t) @ lg"
      "queue sf1 = b # q \<or> (queue sf1 = q \<and> settled_payloads lg = [b])"
      by (rule drain_round_safe[OF inv live q rnd]) blast
    show ?thesis
      by (rule that[of sf1 "if queue sf1 = b # q then [] else [b]" lg]) (use h q sf in auto)
  next
    case False
    then have "t_queue t1 = Some (s, f) \<and> t_client t1 = t_client t"
      using drain_round_idle[OF _ rnd] rnd Cons.prems(1) sf by (auto simp: drain_round_def split: if_splits)
    with Cons.prems(2) sf show ?thesis by (intro that[of sf0 "[]" "[]"]) simp_all
  qed
  show ?case
  proof (cases r1)
    case None
    with Cons.prems rnd sf have "t' = t1" by simp
    with one show ?thesis by (intro exI[of _ sf1] exI[of _ lg1] exI[of _ rem1]) simp
  next
    case (Some n1)
    with Cons.prems rnd sf have "Drain (logged do_request) met h rds n1 t1 = (r, t')" by simp
    from Cons.IH[OF one(1,2) this] obtain sf2 lg2 rem2 where "t_queue t' = Some sf2 \<and> sinv sf2 \<and> queue sf1 = rem2 @ queue sf2 \<and>
      snd (t_client t') = snd (t_client t1) @ lg2 \<and> subseq rem2 (settled_payloads lg2)" by blast
    with one show ?thesis
      by (intro exI[of _ sf2] exI[of _ "lg1 @ lg2"] exI[of _ "rem1 @ rem2"]) (simp add: list_emb_append_mono)
  qed
qed

lemma Drain_empties:
  assumes "t_queue t = Some sf0" and "sinv sf0" and "no_faults (snd sf0)" and "list_all (\<lambda>rd. rd_ctx rd = None) rds"
    and "length rds = length (queue sf0)" and "\<And>p c. settled (fst (do_request None (h_endpoint h) p c))"
    and "Drain (logged do_request) met h rds n t = (r, t')"
  shows "\<exists>sf lg. t_queue t' = Some sf \<and> queue sf = [] \<and> snd (t_client t') = snd (t_client t) @ lg \<and> map fst lg = queue sf0 \<and> r \<noteq> None"
  using assms
proof (induction rds arbitrary: n t sf0)
  case Nil
  then show ?case by (intro exI[of _ sf0] exI[of _ "[]"]) (auto simp: queue_def split: prod.splits)
next
  case (Cons rd rds)
  obtain s f where sf: "sf0 = (s, f)" by fastforce
  obtain b q where q: "queue (s, f) = b # q" using Cons.prems(5) sf by (cases "queue (s, f)") auto
  obtain r1 d1 t1 where rnd: "drain_round (logged do_request) met h rd n (s, f) t = (r1, d1, t1)" by (metis prod.collapse)
  have live: "rd_ctx rd = None" and inv: "sinv (s, f)" using Cons.prems(2,4) sf by simp_all
  obtain sf1 lg1 where one: "t_queue t1 = Some sf1" "sinv sf1" "snd (t_client t1) = snd (t_client t) @ lg1"
      "lg1 = [] \<or> lg1 = [(b, fst (do_request None (h_endpoint h) b (fst (t_client t))))]"
      "no_faults f \<longrightarrow> lg1 \<noteq> [] \<and> (settled (snd (hd lg1)) \<longrightarrow> r1 = Some 0 \<and> queue sf1 = q \<and> no_faults (snd sf1))"
    by (rule drain_round_safe[OF inv live q rnd]) blast
  have "no_faults f" using Cons.prems(3) sf by simp
  with one(4,5) Cons.prems(6) have step: "map fst lg1 = [b]" "r1 = Some 0" "queue sf1 = q" "no_faults (snd sf1)" by auto
  have rest: "Drain (logged do_request) met h rds 0 t1 = (r, t')" using Cons.prems(1,7) rnd sf step(2) by simp
  have len: "length rds = length (queue sf1)" "list_all (\<lambda>rd. rd_ctx rd = None) rds" using Cons.prems(4,5) q sf step(3) by simp_all
  from Cons.IH[OF one(1,2) step(4) len(2,1) Cons.prems(6) rest] obtain sf2 lg2 where
    "t_queue t' = Some sf2 \<and> queue sf2 = [] \<and> snd (t_client t') = snd (t_client t1) @ lg2 \<and> map fst lg2 = queue sf1 \<and> r \<noteq> None" by blast
  with one(3) step q sf show ?case by (intro exI[of _ sf2] exI[of _ "lg1 @ lg2"]) simp
qed

text \<open>
  Property C13 (draining loses nothing). Whatever the network answers and whatever the file system does, after any number of rounds the spool holds the
  payloads it held, in order, less some from its front, and each of those was posted and answered with a success or a
  permanent refusal, in that order.
\<close>

theorem drain_never_loses:
  assumes "t_queue t = Some sf0" and "sinv sf0" and "snd (t_client t) = []" and "Drain (logged do_request) met h rds n t = (r, t')"
  shows "\<exists>sf removed. t_queue t' = Some sf \<and> sinv sf \<and> queue sf0 = removed @ queue sf \<and> subseq removed (settled_payloads (snd (t_client t')))"
  using Drain_prefix[OF assms(1,2,4)] assms(3) by auto

text \<open>
  Property C29 (draining makes progress). While the file system works and the edge settles what it is sent, as many rounds as there are payloads empty
  the spool, posting every payload once and in order, and the loop keeps running.
\<close>

theorem drain_delivers:
  assumes "t_queue t = Some sf0" and "sinv sf0" and "no_faults (snd sf0)" and "list_all (\<lambda>rd. rd_ctx rd = None) rds"
    and "length rds = length (queue sf0)" and "\<And>p c. settled (fst (do_request None (h_endpoint h) p c))" and "snd (t_client t) = []"
    and "Drain (logged do_request) met h rds n t = (r, t')"
  shows "r \<noteq> None \<and> map fst (snd (t_client t')) = queue sf0 \<and> (\<exists>sf. t_queue t' = Some sf \<and> queue sf = [])"
  using Drain_empties[OF assms(1-6,8)] assms(7) by auto

definition ex_https :: HTTPS where
  "ex_https = \<lparr>h_endpoint = ''https://edge/v1/batches'', h_encode = (\<lambda>b. Inr ''abc''), h_baseBackoff = 250 * millisecond, h_maxBackoff = 30 * second,
     h_drainEvery = 2 * second\<rparr>"

definition ex_round :: round where "ex_round = \<lparr>rd_ctx = None, rd_cancelled = False, rd_jitter = 0\<rparr>"

definition ex_answers :: "int \<Rightarrow> unit http_client" where "ex_answers status ctx url p c = (Inr status, c)"

definition ex_transport :: "Spool \<times> fsys \<Rightarrow> (unit \<times> (bytes \<times> (error + int)) list, unit) transport" where
  "ex_transport sf = \<lparr>t_queue = Some sf, t_lastDropped = 0, t_client = ((), []), t_metrics = ()\<rparr>"

theorem drain_never_loses_witness:
  "\<exists>sf0 sf. queue sf0 = [''abc''] \<and> t_queue (snd (Drain (logged (ex_answers 503)) None ex_https [ex_round] 0 (ex_transport sf0))) = Some sf \<and> queue sf = [''abc'']"
proof -
  obtain s f where h: "sinv (s, f)" "queue (s, f) = [''abc'']" by (rule ex_spooled)
  let ?t = "ex_transport (s, f)"
  let ?run = "Drain (logged (ex_answers 503)) None ex_https [ex_round] 0 ?t"
  from drain_never_loses[of ?t "(s, f)" "ex_answers 503" None ex_https "[ex_round]" 0 "fst ?run" "snd ?run"] h(1)
  obtain sf removed where d: "t_queue (snd ?run) = Some sf" "queue (s, f) = removed @ queue sf" "subseq removed (settled_payloads (snd (t_client (snd ?run))))"
    by (auto simp: ex_transport_def)
  have lg: "set (snd (t_client (snd ?run))) \<subseteq> {(x, Inr 503) | x. True}"
    by (auto simp: drain_round_def logged_def ex_answers_def ex_transport_def post_def post_outcome_def permanentlyRefused_def ex_round_def go_error_defs
      split: prod.splits sum.splits option.splits)
  then have "settled_payloads (snd (t_client (snd ?run))) = []"
    by (auto simp: settled_payloads_def settled_status permanentlyRefused_def filter_empty_conv)
  with d h(2) have "queue sf = [''abc'']" by simp
  with d(1) h(2) show ?thesis by blast
qed

theorem drain_delivers_witness:
  "\<exists>sf0. queue sf0 = [''abc''] \<and> map fst (snd (t_client (snd (Drain (logged (ex_answers 202)) None ex_https [ex_round] 0 (ex_transport sf0))))) = [''abc'']"
proof -
  obtain s f where h: "sinv (s, f)" "queue (s, f) = [''abc'']" "no_faults f" by (rule ex_spooled)
  let ?t = "ex_transport (s, f)"
  let ?run = "Drain (logged (ex_answers 202)) None ex_https [ex_round] 0 ?t"
  have ok: "settled (fst (ex_answers 202 c u p x))" for c u p x by (simp add: ex_answers_def settled_status)
  have pre: "t_queue ?t = Some (s, f)" "no_faults (snd (s, f))" "list_all (\<lambda>rd. rd_ctx rd = None) [ex_round]" "length [ex_round] = length (queue (s, f))"
      "snd (t_client ?t) = []"
    using h by (simp_all add: ex_transport_def ex_round_def)
  obtain r t' where run: "?run = (r, t')" by fastforce
  have "map fst (snd (t_client (snd ?run))) = queue (s, f)"
    using drain_delivers[OF pre(1) h(1) pre(2-4) ok pre(5) run] run by simp
  with h(2) show ?thesis by (intro exI[of _ "(s, f)"]) simp
qed

section \<open>Backoff\<close>

lemma pow16_bound: "1 \<le> (2::int) ^ min k 16 \<and> (2::int) ^ min k 16 \<le> 65536"
  using power_increasing[of "min k 16" 16 "2::int"] by simp

lemma nominal_delay_exact:
  assumes "0 < h_baseBackoff h" and "h_baseBackoff h \<le> 140737488355327" and "0 < h_maxBackoff h"
  shows "nominal_delay h attempt = min (h_baseBackoff h * 2 ^ min (attempt - 1) 16) (h_maxBackoff h)"
proof -
  let ?m = "(2::int) ^ min (attempt - 1) 16"
  have "h_baseBackoff h * ?m \<le> 140737488355327 * 65536"
    using assms pow16_bound[of "attempt - 1"] by (intro mult_mono) auto
  moreover have "0 < h_baseBackoff h * ?m" using assms(1) pow16_bound[of "attempt - 1"] by simp
  ultimately have "wrap64 (h_baseBackoff h * ?m) = h_baseBackoff h * ?m"
    by (intro wrap64_id) (simp add: in_i64_def MinInt64_def MaxInt64_def)
  with \<open>0 < h_baseBackoff h * ?m\<close> show ?thesis by (simp add: nominal_delay_def Let_def min_def)
qed

text \<open>
  Bounded exponential backoff. With a base delay that the sixteen-fold doubling cannot overflow, the nominal delay doubles with every attempt until it reaches the
  ceiling, and the jittered delay lies between half of the nominal delay and the nominal delay, so it never exceeds the ceiling.
\<close>

theorem backoff_bounds:
  assumes "0 < h_baseBackoff h" and "h_baseBackoff h \<le> 140737488355327" and "0 < h_maxBackoff h" and "0 \<le> jitter" and "jitter < 1"
  shows "nominal_delay h attempt = min (h_baseBackoff h * 2 ^ min (attempt - 1) 16) (h_maxBackoff h) \<and>
    nominal_delay h attempt div 2 \<le> backoff h jitter attempt \<and> backoff h jitter attempt \<le> nominal_delay h attempt \<and>
    backoff h jitter attempt \<le> h_maxBackoff h"
proof -
  let ?d = "nominal_delay h attempt"
  note exact = nominal_delay_exact[OF assms(1-3), of attempt]
  have "0 < h_baseBackoff h * 2 ^ min (attempt - 1) 16" using assms(1) by simp
  then have d: "0 < ?d" "?d \<le> h_maxBackoff h" using exact assms(3) by simp_all
  have "of_int ?d * (1 / 2) \<le> of_int ?d * (1 / 2 + 1 / 2 * jitter)"
    using d assms(4) by (intro mult_left_mono) auto
  then have "\<lfloor>of_int ?d * (1 / 2 :: real)\<rfloor> \<le> backoff h jitter attempt" unfolding backoff_def by (rule floor_mono)
  moreover have "\<lfloor>of_int ?d * (1 / 2 :: real)\<rfloor> = ?d div 2" using floor_divide_of_int_eq[of ?d 2] by simp
  moreover have "of_int ?d * (1 / 2 + 1 / 2 * jitter) \<le> of_int ?d * 1"
    using d assms(4,5) by (intro mult_left_mono) auto
  then have "backoff h jitter attempt \<le> \<lfloor>of_int ?d * (1 :: real)\<rfloor>" unfolding backoff_def by (rule floor_mono)
  then have "backoff h jitter attempt \<le> ?d" by (simp only: mult_1_right floor_of_int)
  ultimately show ?thesis using exact d(2) by linarith
qed

theorem backoff_bounds_witness: "nominal_delay ex_https 3 = 1000000000 \<and> backoff ex_https (1 / 2) 100 \<le> 30000000000"
  using backoff_bounds[of ex_https "1 / 2" 3] backoff_bounds[of ex_https "1 / 2" 100]
  by (simp add: ex_https_def millisecond_def second_def)

section \<open>Sending\<close>

text \<open>
  Sending. Whatever fails, a batch whose post was settled leaves the spool alone, and the caller learns of a refusal; otherwise the payload is
  enqueued, and when sending then reports success, the payload is the newest in the spool, behind the payloads already there less some of the oldest.
\<close>

theorem send_outcome:
  assumes "h_encode h b = Inr payload" and "do_request ctx (h_endpoint h) payload (t_client t) = (answer, c)" and "t_queue t = Some (s, f)"
    and "sinv (s, f)" and "sp_enqueued s < MaxInt64" and "sp_maxEntries s < 18446744073709551616"
    and "HTTPS_Send do_request met h ctx b t = (r, t')"
  shows "\<exists>sf. t_queue t' = Some sf \<and> sinv sf \<and>
    (if settled answer then queue sf = queue (s, f) \<and> r = post_outcome answer
     else \<exists>k. queue sf \<in> {drop k (queue (s, f)), drop k (queue (s, f)) @ [payload]} \<and>
              (r = None \<longrightarrow> queue sf = drop k (queue (s, f)) @ [payload]))"
proof (cases "settled answer")
  case True
  with assms show ?thesis
    by (auto simp: HTTPS_Send_def post_def settled_def Let_def split: option.splits)
next
  case False
  obtain e s1 f1 where enq: "Enqueue payload (s, f) = (e, (s1, f1))" by (metis prod.collapse)
  have "r = e" "t_queue t' = Some (s1, f1)"
    using assms(1-3,7) enq False by (auto simp: HTTPS_Send_def post_def settled_def Let_def split: option.splits)
  with False Enqueue_safe[OF assms(4-6) enq] show ?thesis by auto
qed

theorem send_outcome_witness:
  "\<exists>sf. t_queue (snd (HTTPS_Send (logged (ex_answers 503)) None ex_https None ex_sent (ex_transport (ex_spool 10, ex_dir)))) = Some sf \<and>
     queue sf \<in> {[], [''abc'']}"
proof -
  let ?t = "ex_transport (ex_spool 10, ex_dir)"
  let ?run = "HTTPS_Send (logged (ex_answers 503)) None ex_https None ex_sent ?t"
  have inv: "sinv (ex_spool 10, ex_dir)" using ex_spool_ok[of "[]"] by (simp add: ex_dir_def)
  have ans: "logged (ex_answers 503) None (h_endpoint ex_https) ''abc'' (t_client ?t) = (Inr 503, ((), [(''abc'', Inr 503)]))"
    by (simp add: logged_def ex_answers_def ex_transport_def)
  obtain r t' where run: "?run = (r, t')" by fastforce
  have "\<not> settled (Inr 503)" by (simp add: settled_status permanentlyRefused_def)
  with send_outcome[OF _ ans _ inv _ _ run] run show ?thesis
    by (fastforce simp: ex_https_def ex_transport_def MaxInt64_def)
qed

section \<open>The transport against the ingest endpoint\<close>

text \<open>The network path that delivers a post to the endpoint, with the identity that the edge puts on it, and brings the status back.\<close>

definition via_edge :: "'s BatchAcceptor \<Rightarrow> 'n MetricsRecorder \<Rightarrow> (int \<Rightarrow> string \<Rightarrow> EdgeBatch option) \<Rightarrow> HttpServer \<Rightarrow> (nat \<Rightarrow> time)
    \<Rightarrow> string option \<Rightarrow> string \<Rightarrow> ('s \<times> 'n) http_client" where
  "via_edge accept met decode srv clock cn dev ctx url payload st =
     (case http_ingest accept met decode srv clock
             \<lparr>rq_ctx = ctx, rq_peerCN = cn, rq_header = (\<lambda>n. if n = hs_identityHeader srv then dev else []), rq_body = payload\<rparr> st of
        (status, st') \<Rightarrow> (Inr status, st'))"

lemma via_edge_answer:
  assumes dec: "decode (hs_maxBodyBytes srv) payload = Some (edge_payload b)"
    and peer: "hs_allowedClients srv = {} \<or> (\<exists>n \<in> hs_allowedClients srv. cn = Some n)"
    and b: "acceptable dev b" "\<forall>e \<in> set (b_Events b). encodable e"
    and pub: "pub ctx dev (received srv (clock 0) b) p = (e, p')"
  obtains st where "via_edge (Accept pub met1) met decode srv clock cn dev ctx url payload ((p, m1), m2) = (Inr (case e of None \<Rightarrow> StatusAccepted
      | Some err \<Rightarrow> if errors_Is err ErrDeviceMismatch then StatusForbidden else StatusBadRequest), st)" "fst (fst st) = p'"
proof -
  let ?r = "\<lparr>rq_ctx = ctx, rq_peerCN = cn, rq_header = (\<lambda>n. if n = hs_identityHeader srv then dev else []), rq_body = payload\<rparr>"
  have peer': "peerIsAuthorisedEdge srv ?r" using peer by (auto simp: peerIsAuthorisedEdge_def)
  have dev: "dev \<noteq> []" "eb_DeviceID (edge_payload b) = dev" using b(1) by (simp_all add: acceptable_def edge_payload_def)
  note tb = toBatch_edge_payload[OF b, of srv clock]
  have "acceptable dev (received srv (clock 0) b)" by (rule toBatch_acceptable(1)[OF tb dev(1)])
  from Accept_published[OF this, of pub met1 ctx "(p, m1)"] pub obtain m1' where
    acc: "Accept pub met1 ctx dev (received srv (clock 0) b) (p, m1) = (e, (p', m1'))" by (metis fst_conv prod.collapse snd_conv)
  show ?thesis
    by (rule that[of "svc_record met (if e = None then MetricRequestsAccepted else MetricRequestsRejected) 1 ((p', m1'), m2)"]; cases e)
      (use dev dec peer' tb acc in \<open>simp_all add: via_edge_def http_ingest_def Let_def\<close>)
qed

text \<open>
  A publisher outage and the agent. An agent posts a batch, with a spool at hand; the endpoint accepts everything about it, but its publisher cannot take it. The endpoint
  answers that as it answers a malformed request, the agent takes the answer for a permanent refusal and gives the batch up without spooling it. When the publisher takes the batch, sending succeeds.
\<close>

theorem publisher_outage_loses_batch:
  assumes "h_encode h b = Inr payload" and "decode (hs_maxBodyBytes srv) payload = Some (edge_payload b)"
    and "hs_allowedClients srv = {} \<or> (\<exists>n \<in> hs_allowedClients srv. cn = Some n)"
    and "acceptable dev b" and "\<forall>e \<in> set (b_Events b). encodable e"
    and "pub ctx dev (received srv (clock 0) b) p = (outage, p')" and "t_client t = ((p, m1), m2)"
    and "HTTPS_Send (via_edge (Accept pub met1) met decode srv clock cn dev) met' h ctx b t = (r, t')"
  shows "t_queue t' = t_queue t \<and> fst (fst (t_client t')) = p' \<and>
    (case outage of None \<Rightarrow> r = None | Some _ \<Rightarrow> \<exists>err. r = Some err \<and> errors_Is err ErrUnacceptable)"
proof -
  obtain st where ans: "via_edge (Accept pub met1) met decode srv clock cn dev ctx (h_endpoint h) payload ((p, m1), m2) = (Inr (case outage of None \<Rightarrow> StatusAccepted
      | Some err \<Rightarrow> if errors_Is err ErrDeviceMismatch then StatusForbidden else StatusBadRequest), st)" "fst (fst st) = p'"
    using via_edge_answer[where decode = decode and pub = pub and clock = clock and p = p, OF assms(2-6)] by metis
  show ?thesis
    using assms(1,7,8) ans
    by (cases outage) (auto simp: HTTPS_Send_def post_def post_outcome_def permanentlyRefused_def status_defs Let_def split: if_splits)
qed

definition ex_outage :: "Batch list Publisher" where
  "ex_outage ctx dev b q = (Some (Err ''kafka: broker unavailable''), q)"

theorem publisher_outage_loses_batch_witness:
  "\<exists>err. fst (HTTPS_Send (via_edge (Accept ex_outage (None :: unit MetricsRecorder)) (None :: unit MetricsRecorder) (\<lambda>n body. Some (edge_payload ex_sent)) ex_server (\<lambda>_. 1) (Some ''edge'') ''d'')
     (None :: unit MetricsRecorder) ex_https None ex_sent \<lparr>t_queue = Some (ex_spool 10, ex_dir), t_lastDropped = 0, t_client = (([], ()), ()), t_metrics = ()\<rparr>) = Some err \<and>
     errors_Is err ErrUnacceptable"
proof -
  let ?t = "\<lparr>t_queue = Some (ex_spool 10, ex_dir), t_lastDropped = 0, t_client = (([], ()), ()), t_metrics = ()\<rparr>"
  let ?run = "HTTPS_Send (via_edge (Accept ex_outage (None :: unit MetricsRecorder)) (None :: unit MetricsRecorder) (\<lambda>n body. Some (edge_payload ex_sent)) ex_server (\<lambda>_. 1) (Some ''edge'') ''d'')
     (None :: unit MetricsRecorder) ex_https None ex_sent ?t"
  obtain r t' where run: "?run = (r, t')" by fastforce
  have b: "acceptable ''d'' ex_sent" "\<forall>e \<in> set (b_Events ex_sent). encodable e"
    by (rule ex_sent_ok)+
  have enc: "h_encode ex_https ex_sent = Inr ''abc''" by (simp add: ex_https_def)
  have peer: "hs_allowedClients ex_server = {} \<or> (\<exists>n \<in> hs_allowedClients ex_server. Some ''edge'' = Some n)" by (simp add: ex_http_defs)
  have pub: "ex_outage None ''d'' (received ex_server 1 ex_sent) [] = (Some (Err ''kafka: broker unavailable''), [])" by (simp add: ex_outage_def)
  show ?thesis using publisher_outage_loses_batch[where decode = "\<lambda>n body. Some (edge_payload ex_sent)" and pub = ex_outage and clock = "\<lambda>_. 1", OF enc _ peer b pub _ run] run by simp
qed
end
