(* ===== verification/Bus.thy ===== *)
theory Bus
  imports Domain
begin

text \<open>
  The in-process bus (\<^verbatim>\<open>internal/bus\<close>): partitioned channels with claims, retries, dead letters and a
  shutdown protocol. Operations that one lock or one channel operation makes atomic are functions on the bus; the goroutines
  that senders, consumers and \<^verbatim>\<open>Close\<close> run are the threads of a step relation. A counter that is incremented right
  after a channel operation is incremented in the same step.
\<close>

section \<open>Configuration and state (bus.go)\<close>

definition ErrInvalidPartitions :: error where [go_error_defs]: "ErrInvalidPartitions = Err ''bus: partition count must be positive''"
definition ErrInvalidCapacity :: error where [go_error_defs]: "ErrInvalidCapacity = Err ''bus: partition capacity must be positive''"
definition ErrInvalidAttempts :: error where [go_error_defs]: "ErrInvalidAttempts = Err ''bus: max attempts must be positive''"
definition ErrNoFreePartition :: error where [go_error_defs]: "ErrNoFreePartition = Err ''bus: every partition is already claimed''"
definition ErrNoPartition :: error where [go_error_defs]: "ErrNoPartition = Err ''bus: partition is outside the configured range''"
definition ErrClosed :: error where [go_error_defs]: "ErrClosed = Err ''bus: closed''"

record BusConfig =
  bcf_Partitions :: int
  bcf_Capacity :: int
  bcf_MaxAttempts :: int

definition BusConfig_validate :: "BusConfig \<Rightarrow> error option" where
  "BusConfig_validate c =
     (if bcf_Partitions c \<le> 0 then Some ErrInvalidPartitions
      else if 2147483647 < bcf_Partitions c then Some ErrInvalidPartitions
      else if bcf_Capacity c \<le> 0 then Some ErrInvalidCapacity
      else if bcf_MaxAttempts c \<le> 0 then Some ErrInvalidAttempts
      else None)"

record BusStats =
  bs_Published :: int
  bs_Delivered :: int
  bs_Retried :: int
  bs_DeadLetter :: int
  bs_Abandoned :: int

text \<open>A buffered channel is the list of the values in it; the two signalling channels are closed or not.\<close>

record 'a Bus =
  bus_config :: BusConfig
  bus_partitions :: "'a list list"
  bus_claimed :: "bool list"
  bus_deadLetter :: "'a list"
  bus_partitionCount :: "32 word"
  bus_closing :: bool
  bus_shutdown :: bool
  bus_inflight :: int
  bus_closed :: bool
  bus_published :: int
  bus_delivered :: int
  bus_retried :: int
  bus_dead :: int
  bus_abandoned :: int

definition NewBus :: "BusConfig \<Rightarrow> error + 'a Bus" where
  "NewBus c0 =
     (let c = (if bcf_MaxAttempts c0 = 0 then c0\<lparr>bcf_MaxAttempts := 1\<rparr> else c0) in
      case BusConfig_validate c of
        Some err \<Rightarrow> Inl err
      | None \<Rightarrow>
          if bcf_Partitions c \<le> 0 \<or> 2147483647 < bcf_Partitions c then Inl ErrInvalidPartitions
          else let n = nat (bcf_Partitions c)
               in Inr \<lparr>bus_config = c, bus_partitions = replicate n [], bus_claimed = replicate n False, bus_deadLetter = [],
                       bus_partitionCount = word_of_int (bcf_Partitions c), bus_closing = False, bus_shutdown = False, bus_inflight = 0,
                       bus_closed = False, bus_published = 0, bus_delivered = 0, bus_retried = 0, bus_dead = 0, bus_abandoned = 0\<rparr>)"

definition Partitions :: "'a Bus \<Rightarrow> int" where "Partitions b = bcf_Partitions (bus_config b)"

definition Bus_Stats :: "'a Bus \<Rightarrow> BusStats" where
  "Bus_Stats b = \<lparr>bs_Published = bus_published b, bs_Delivered = bus_delivered b, bs_Retried = bus_retried b,
     bs_DeadLetter = bus_dead b, bs_Abandoned = bus_abandoned b\<rparr>"

definition DeadLettered :: "'a Bus \<Rightarrow> 'a list" where "DeadLettered b = bus_deadLetter b"

text \<open>The 32-bit FNV-1a hash of the standard library.\<close>

unbundle bit_operations_syntax

definition fnv32a :: "string \<Rightarrow> 32 word" where
  "fnv32a key = fold (\<lambda>c h. (h XOR of_nat (of_char c)) * 16777619) key 2166136261"

definition PartitionFor :: "'a Bus \<Rightarrow> string \<Rightarrow> nat" where
  "PartitionFor b key = unat (fnv32a key mod bus_partitionCount b)"

section \<open>Sending\<close>

definition enterSend :: "'a Bus \<Rightarrow> bool \<times> 'a Bus" where
  "enterSend b = (if bus_closed b then (False, b) else (True, b\<lparr>bus_inflight := bus_inflight b + 1\<rparr>))"

definition leaveSend :: "'a Bus \<Rightarrow> 'a Bus" where
  "leaveSend b = b\<lparr>bus_inflight := bus_inflight b - 1\<rparr>"

definition push :: "nat \<Rightarrow> 'a \<Rightarrow> 'a Bus \<Rightarrow> 'a Bus" where
  "push p v b = b\<lparr>bus_partitions := (bus_partitions b)[p := bus_partitions b ! p @ [v]], bus_published := wrap64 (bus_published b + 1)\<rparr>"

text \<open>The branches of the \<^verbatim>\<open>select\<close>; \<open>None\<close> when the branch is not ready.\<close>

datatype branch = ToPartition | SeeClosing | SeeDone

definition send_select :: "branch \<Rightarrow> ctx \<Rightarrow> string \<Rightarrow> 'a \<Rightarrow> 'a Bus \<Rightarrow> (error option \<times> 'a Bus) option" where
  "send_select br ctx key v b =
     (case br of
        ToPartition \<Rightarrow>
          if int (length (bus_partitions b ! PartitionFor b key)) < bcf_Capacity (bus_config b)
          then Some (None, push (PartitionFor b key) v b) else None
      | SeeClosing \<Rightarrow> if bus_closing b then Some (Some ErrClosed, b) else None
      | SeeDone \<Rightarrow> (case ctx of None \<Rightarrow> None | Some err \<Rightarrow> Some (Some err, b)))"

text \<open>A send that runs without interruption; \<open>None\<close> when it blocks on the branch.\<close>

definition Bus_Send :: "branch \<Rightarrow> ctx \<Rightarrow> string \<Rightarrow> 'a \<Rightarrow> 'a Bus \<Rightarrow> (error option \<times> 'a Bus) option" where
  "Bus_Send br ctx key v b =
     (if bus_closed b then Some (Some ErrClosed, b)
      else case enterSend b of
        (False, b1) \<Rightarrow> Some (Some ErrClosed, b1)
      | (True, b1) \<Rightarrow> map_option (\<lambda>(r, b2). (r, leaveSend b2)) (send_select br ctx key v b1))"

section \<open>Claims\<close>

fun first_free :: "nat \<Rightarrow> bool list \<Rightarrow> nat option" where
  "first_free i [] = None"
| "first_free i (taken # rest) = (if \<not> taken then Some i else first_free (Suc i) rest)"

definition Claim :: "'a Bus \<Rightarrow> (error + nat) \<times> 'a Bus" where
  "Claim b =
     (case first_free 0 (bus_claimed b) of
        Some index \<Rightarrow> (Inr index, b\<lparr>bus_claimed := (bus_claimed b)[index := True]\<rparr>)
      | None \<Rightarrow> (Inl ErrNoFreePartition, b))"

definition claimAll :: "'a Bus \<Rightarrow> error option \<times> 'a Bus" where
  "claimAll b =
     (if list_ex id (bus_claimed b) then (Some ErrNoFreePartition, b)
      else (None, b\<lparr>bus_claimed := map (\<lambda>_. True) (bus_claimed b)\<rparr>))"

definition Bus_Release :: "int \<Rightarrow> 'a Bus \<Rightarrow> 'a Bus" where
  "Bus_Release part b =
     (if 0 \<le> part \<and> part < int (length (bus_claimed b)) then b\<lparr>bus_claimed := (bus_claimed b)[nat part := False]\<rparr> else b)"

definition releaseAll :: "'a Bus \<Rightarrow> 'a Bus" where
  "releaseAll b = b\<lparr>bus_claimed := map (\<lambda>_. False) (bus_claimed b)\<rparr>"

section \<open>Starting and ending consumers\<close>

text \<open>
  Each entry point first settles which partitions its consumers read, then runs them, and gives its claims back when they have returned.
  The joined errors of a group are the errors of its consumers, in order.
\<close>

definition Receive_start :: "'a Bus \<Rightarrow> (error + nat list) \<times> 'a Bus" where
  "Receive_start b = (case Claim b of (Inl err, b1) \<Rightarrow> (Inl err, b1) | (Inr p, b1) \<Rightarrow> (Inr [p], b1))"

definition ReceivePartition_start :: "int \<Rightarrow> 'a Bus \<Rightarrow> error + nat list" where
  "ReceivePartition_start part b =
     (if part < 0 \<or> Partitions b \<le> part
      then Inl (Wrap (''partition '' @ AppendInt part @ '' of '' @ AppendInt (Partitions b)) ErrNoPartition)
      else Inr [nat part])"

definition RunConsumerGroup_start :: "'a Bus \<Rightarrow> (error + nat list) \<times> 'a Bus" where
  "RunConsumerGroup_start b =
     (case claimAll b of
        (Some err, b1) \<Rightarrow> (Inl err, b1)
      | (None, b1) \<Rightarrow> (Inr [0..<nat (Partitions b1)], b1))"

definition RunConsumerGroup_end :: "error option list \<Rightarrow> 'a Bus \<Rightarrow> error list \<times> 'a Bus" where
  "RunConsumerGroup_end errs b = (List.map_filter id errs, releaseAll b)"

section \<open>Delivery\<close>

text \<open>
  The handler acts on a state of its own; \<open>done n\<close> is what the context reports after the \<open>n\<close>-th attempt.
\<close>

type_synonym ('a, 's) handler = "'a \<Rightarrow> 's \<Rightarrow> error option \<times> 's"

fun deliver_from :: "nat \<Rightarrow> nat \<Rightarrow> (nat \<Rightarrow> ctx) \<Rightarrow> ('a, 's) handler \<Rightarrow> 'a \<Rightarrow> 'a Bus \<times> 's \<Rightarrow> 'a Bus \<times> 's" where
  "deliver_from 0 attempt cx handler v (b, s) =
     (b\<lparr>bus_dead := wrap64 (bus_dead b + 1), bus_deadLetter := bus_deadLetter b @ [v]\<rparr>, s)"
| "deliver_from (Suc left) attempt cx handler v (b, s) =
     (case handler v s of
        (None, s1) \<Rightarrow> (b\<lparr>bus_delivered := wrap64 (bus_delivered b + 1)\<rparr>, s1)
      | (Some err, s1) \<Rightarrow>
          if cx attempt \<noteq> None then (b\<lparr>bus_abandoned := wrap64 (bus_abandoned b + 1)\<rparr>, s1)
          else deliver_from left (Suc attempt) cx handler v
                 (if int attempt < bcf_MaxAttempts (bus_config b) then b\<lparr>bus_retried := wrap64 (bus_retried b + 1)\<rparr> else b, s1))"

definition deliver :: "(nat \<Rightarrow> ctx) \<Rightarrow> ('a, 's) handler \<Rightarrow> 'a \<Rightarrow> 'a Bus \<times> 's \<Rightarrow> 'a Bus \<times> 's" where
  "deliver cx handler v bs = deliver_from (nat (bcf_MaxAttempts (bus_config (fst bs)))) 1 cx handler v bs"

definition pop :: "nat \<Rightarrow> 'a Bus \<Rightarrow> ('a \<times> 'a Bus) option" where
  "pop p b =
     (case bus_partitions b ! p of
        [] \<Rightarrow> None
      | v # rest \<Rightarrow> Some (v, b\<lparr>bus_partitions := (bus_partitions b)[p := rest]\<rparr>))"

section \<open>Threads\<close>

text \<open>
  A sender that passed \<open>enterSend\<close> waits in the \<^verbatim>\<open>select\<close> and then has to leave. A consumer of a
  partition is in \<^verbatim>\<open>consume\<close> or in \<^verbatim>\<open>drain\<close>, holds a value that it delivers, or has returned. \<^verbatim>\<open>Close\<close> has not begun, waits for
  the senders, or is over. The two logs record, per partition, the values sent to it and taken from it.
\<close>

datatype 'a sender = Selecting string 'a | Leaving
datatype 'a stage = Consuming | Draining | Holding 'a bool | Returned "error option"
datatype closer = Open | WaitingIdle | Shut

record ('a, 's) bus_conf =
  bc_bus :: "'a Bus"
  bc_senders :: "'a sender list"
  bc_consumers :: "(nat \<times> 'a stage) list"
  bc_closer :: closer
  bc_world :: 's
  bc_sent :: "nat \<Rightarrow> 'a list"
  bc_taken :: "nat \<Rightarrow> 'a list"

definition Close_begin :: "'a Bus \<Rightarrow> 'a Bus" where "Close_begin b = b\<lparr>bus_closed := True, bus_closing := True\<rparr>"
definition Close_end :: "'a Bus \<Rightarrow> 'a Bus" where "Close_end b = b\<lparr>bus_shutdown := True\<rparr>"

text \<open>
  \<^verbatim>\<open>Receive\<close>, \<^verbatim>\<open>ReceivePartition\<close> and \<^verbatim>\<open>RunConsumerGroup\<close> all start consumers of partitions in range; any number of them may start at any time.
\<close>

inductive bus_step :: "('a, 's) handler \<Rightarrow> ('a, 's) bus_conf \<Rightarrow> ('a, 's) bus_conf \<Rightarrow> bool" for handler where
  send_enter: "enterSend (bc_bus c) = (True, b) \<Longrightarrow>
    bus_step handler c (c\<lparr>bc_bus := b, bc_senders := bc_senders c @ [Selecting key v]\<rparr>)"
| send_sent: "i < length (bc_senders c) \<Longrightarrow> bc_senders c ! i = Selecting key v \<Longrightarrow>
    send_select ToPartition cx key v (bc_bus c) = Some (None, b) \<Longrightarrow> p = PartitionFor (bc_bus c) key \<Longrightarrow>
    bus_step handler c (c\<lparr>bc_bus := b, bc_senders := (bc_senders c)[i := Leaving], bc_sent := (bc_sent c)(p := bc_sent c p @ [v])\<rparr>)"
| send_failed: "i < length (bc_senders c) \<Longrightarrow> bc_senders c ! i = Selecting key v \<Longrightarrow>
    send_select br cx key v (bc_bus c) = Some (Some err, b) \<Longrightarrow>
    bus_step handler c (c\<lparr>bc_bus := b, bc_senders := (bc_senders c)[i := Leaving]\<rparr>)"
| send_leave: "i < length (bc_senders c) \<Longrightarrow> bc_senders c ! i = Leaving \<Longrightarrow>
    bus_step handler c (c\<lparr>bc_bus := leaveSend (bc_bus c), bc_senders := take i (bc_senders c) @ drop (Suc i) (bc_senders c)\<rparr>)"
| consumer_start: "int p < Partitions (bc_bus c) \<Longrightarrow>
    bus_step handler c (c\<lparr>bc_consumers := bc_consumers c @ [(p, Consuming)]\<rparr>)"
| consumer_take: "i < length (bc_consumers c) \<Longrightarrow> bc_consumers c ! i = (p, st) \<Longrightarrow> st = (if draining then Draining else Consuming) \<Longrightarrow>
    pop p (bc_bus c) = Some (v, b) \<Longrightarrow>
    bus_step handler c (c\<lparr>bc_bus := b, bc_consumers := (bc_consumers c)[i := (p, Holding v draining)], bc_taken := (bc_taken c)(p := bc_taken c p @ [v])\<rparr>)"
| consumer_deliver: "i < length (bc_consumers c) \<Longrightarrow> bc_consumers c ! i = (p, Holding v draining) \<Longrightarrow>
    deliver cx handler v (bc_bus c, bc_world c) = (b, w) \<Longrightarrow>
    bus_step handler c (c\<lparr>bc_bus := b, bc_world := w, bc_consumers := (bc_consumers c)[i := (p, if draining then Draining else Consuming)]\<rparr>)"
| consumer_cancelled: "i < length (bc_consumers c) \<Longrightarrow> bc_consumers c ! i = (p, st) \<Longrightarrow> st \<in> {Consuming, Draining} \<Longrightarrow>
    bus_step handler c (c\<lparr>bc_consumers := (bc_consumers c)[i := (p, Returned (Some err))]\<rparr>)"
| consumer_shutdown: "i < length (bc_consumers c) \<Longrightarrow> bc_consumers c ! i = (p, Consuming) \<Longrightarrow> bus_shutdown (bc_bus c) \<Longrightarrow>
    bus_step handler c (c\<lparr>bc_consumers := (bc_consumers c)[i := (p, Draining)]\<rparr>)"
| consumer_drained: "i < length (bc_consumers c) \<Longrightarrow> bc_consumers c ! i = (p, Draining) \<Longrightarrow> pop p (bc_bus c) = None \<Longrightarrow>
    bus_step handler c (c\<lparr>bc_consumers := (bc_consumers c)[i := (p, Returned None)]\<rparr>)"
| close_begin: "bc_closer c = Open \<Longrightarrow>
    bus_step handler c (c\<lparr>bc_bus := Close_begin (bc_bus c), bc_closer := WaitingIdle\<rparr>)"
| close_end: "bc_closer c = WaitingIdle \<Longrightarrow> \<not> 0 < bus_inflight (bc_bus c) \<Longrightarrow>
    bus_step handler c (c\<lparr>bc_bus := Close_end (bc_bus c), bc_closer := Shut\<rparr>)"

definition bus_initial :: "'a Bus \<Rightarrow> 's \<Rightarrow> ('a, 's) bus_conf" where
  "bus_initial b w = \<lparr>bc_bus = b, bc_senders = [], bc_consumers = [], bc_closer = Open, bc_world = w, bc_sent = (\<lambda>_. []), bc_taken = (\<lambda>_. [])\<rparr>"

section \<open>The ports over the bus (adapters.go, commands.go)\<close>

definition Publish :: "branch \<Rightarrow> ctx \<Rightarrow> string \<Rightarrow> Batch \<Rightarrow> Batch Bus \<Rightarrow> (error option \<times> Batch Bus) option" where
  "Publish br ctx partitionKey batch b = Bus_Send br ctx partitionKey batch b"

definition PublishWindow :: "branch \<Rightarrow> ctx \<Rightarrow> AggregateWindow \<Rightarrow> AggregateWindow Bus \<Rightarrow> (error option \<times> AggregateWindow Bus) option" where
  "PublishWindow br ctx w b = Bus_Send br ctx (CorrelationKey_ShardTag (w_Key w)) w b"

definition PublishCommand :: "branch \<Rightarrow> ctx \<Rightarrow> Command \<Rightarrow> Command Bus \<Rightarrow> (error option \<times> Command Bus) option" where
  "PublishCommand br ctx command b =
     (case Command_Validate command of
        Some err \<Rightarrow> Some (Some err, b)
      | None \<Rightarrow> Bus_Send br ctx (Command_ShardTag command) command b)"

section \<open>Claims are exclusive\<close>

lemma first_free_Some:
  "first_free i xs = Some j \<Longrightarrow> i \<le> j \<and> j < i + length xs \<and> \<not> xs ! (j - i) \<and> (\<forall>k < j - i. xs ! k)"
  by (induction i xs rule: first_free.induct) (auto simp: nth_Cons' split: if_splits)

lemma first_free_None: "first_free i xs = None \<longleftrightarrow> (\<forall>x \<in> set xs. x)"
  by (induction i xs rule: first_free.induct) auto

text \<open>A claim takes a free partition and marks it; claiming all succeeds only when none is taken, so no two holders of claims share a partition.\<close>

lemma claims_exclusive:
  assumes "Receive_start b = (Inr ps, b')"
  shows "\<exists>p. ps = [p] \<and> p < length (bus_claimed b) \<and> \<not> bus_claimed b ! p \<and> bus_claimed b' = (bus_claimed b)[p := True] \<and>
    fst (RunConsumerGroup_start b') = Inl ErrNoFreePartition"
proof -
  obtain p where p: "first_free 0 (bus_claimed b) = Some p" "ps = [p]" "b' = b\<lparr>bus_claimed := (bus_claimed b)[p := True]\<rparr>"
    using assms by (auto simp: Receive_start_def Claim_def split: option.splits)
  have free: "p < length (bus_claimed b)" "\<not> bus_claimed b ! p" using first_free_Some[OF p(1)] by simp_all
  then have "True \<in> set (bus_claimed b')" using p(3) by (simp add: set_update_memI)
  then have "fst (RunConsumerGroup_start b') = Inl ErrNoFreePartition" by (auto simp: RunConsumerGroup_start_def claimAll_def list_ex_iff)
  with p free show ?thesis by simp
qed

section \<open>The invariant of the threads\<close>

definition queued :: "('a, 's) bus_conf \<Rightarrow> nat \<Rightarrow> 'a list" where
  "queued c p = bus_partitions (bc_bus c) ! p"

definition held :: "('a, 's) bus_conf \<Rightarrow> nat" where
  "held c = length (filter (\<lambda>ps. case snd ps of Holding v d \<Rightarrow> True | _ \<Rightarrow> False) (bc_consumers c))"

definition finished :: "'a Bus \<Rightarrow> int" where
  "finished b = bus_delivered b + bus_dead b + bus_abandoned b"

text \<open>The bus is shaped by its configuration.\<close>

definition shape_ok :: "'a Bus \<Rightarrow> bool" where
  "shape_ok b \<longleftrightarrow> 0 < Partitions b \<and> Partitions b \<le> 2147483647 \<and> int (length (bus_partitions b)) = Partitions b \<and>
     bus_partitionCount b = word_of_int (Partitions b) \<and>
     (\<forall>q \<in> set (bus_partitions b). int (length q) \<le> bcf_Capacity (bus_config b))"

text \<open>The shutdown protocol: nobody is sending once it is over.\<close>

definition close_ok :: "('a, 's) bus_conf \<Rightarrow> bool" where
  "close_ok c \<longleftrightarrow> bus_inflight (bc_bus c) = int (length (bc_senders c)) \<and> bus_closed (bc_bus c) = (bc_closer c \<noteq> Open) \<and>
     bus_shutdown (bc_bus c) = (bc_closer c = Shut) \<and> (bc_closer c = Shut \<longrightarrow> bc_senders c = [])"

definition stage_ok :: "'a Bus \<Rightarrow> nat \<times> 'a stage \<Rightarrow> bool" where
  "stage_ok b ps \<longleftrightarrow> int (fst ps) < Partitions b \<and>
     (case snd ps of
        Draining \<Rightarrow> bus_shutdown b
      | Holding v d \<Rightarrow> d \<longrightarrow> bus_shutdown b
      | Returned None \<Rightarrow> bus_shutdown b \<and> bus_partitions b ! fst ps = []
      | _ \<Rightarrow> True)"

definition logs_ok :: "('a, 's) bus_conf \<Rightarrow> bool" where
  "logs_ok c \<longleftrightarrow> (\<forall>p < length (bus_partitions (bc_bus c)). bc_sent c p = bc_taken c p @ queued c p)"

definition count_ok :: "('a, 's) bus_conf \<Rightarrow> bool" where
  "count_ok c \<longleftrightarrow>
     bus_published (bc_bus c) = wrap64 (finished (bc_bus c) + int (held c) + int (length (concat (bus_partitions (bc_bus c))))) \<and>
     bus_dead (bc_bus c) = wrap64 (int (length (bus_deadLetter (bc_bus c))))"

definition bus_inv :: "('a, 's) bus_conf \<Rightarrow> bool" where
  "bus_inv c \<longleftrightarrow> shape_ok (bc_bus c) \<and> close_ok c \<and> (\<forall>ps \<in> set (bc_consumers c). stage_ok (bc_bus c) ps) \<and> logs_ok c \<and> count_ok c"

text \<open>A hash picks a partition in range.\<close>

lemma PartitionFor_range:
  assumes "shape_ok b"
  shows "PartitionFor b key < length (bus_partitions b)"
proof -
  have n: "0 < Partitions b" "Partitions b \<le> 2147483647" "int (length (bus_partitions b)) = Partitions b"
    using assms by (simp_all add: shape_ok_def)
  have u: "uint (bus_partitionCount b) = Partitions b"
    using assms n by (simp add: shape_ok_def uint_word_of_int)
  have "uint (fnv32a key mod bus_partitionCount b) < Partitions b"
    using n(1) by (simp add: uint_mod u)
  then show ?thesis unfolding PartitionFor_def unat_eq_nat_uint n(3)[symmetric] by (subst nat_less_iff) simp_all
qed

lemma NewBus_fields:
  assumes "NewBus c = Inr b"
  shows "\<exists>n. 0 < n \<and> int n \<le> 2147483647 \<and> Partitions b = int n \<and> bus_partitions b = replicate n [] \<and> bus_partitionCount b = word_of_int (int n) \<and>
    0 < bcf_Capacity (bus_config b) \<and> 0 < bcf_MaxAttempts (bus_config b) \<and> \<not> bus_closed b \<and> \<not> bus_shutdown b \<and> bus_inflight b = 0 \<and> bus_deadLetter b = [] \<and>
    bus_published b = 0 \<and> bus_delivered b = 0 \<and> bus_dead b = 0 \<and> bus_abandoned b = 0"
proof -
  define c1 where "c1 = (if bcf_MaxAttempts c = 0 then c\<lparr>bcf_MaxAttempts := 1\<rparr> else c)"
  have run: "(case BusConfig_validate c1 of Some err \<Rightarrow> Inl err | None \<Rightarrow>
      if bcf_Partitions c1 \<le> 0 \<or> 2147483647 < bcf_Partitions c1 then Inl ErrInvalidPartitions
      else let n = nat (bcf_Partitions c1)
           in Inr \<lparr>bus_config = c1, bus_partitions = replicate n [], bus_claimed = replicate n False, bus_deadLetter = [],
                   bus_partitionCount = word_of_int (bcf_Partitions c1), bus_closing = False, bus_shutdown = False, bus_inflight = 0,
                   bus_closed = False, bus_published = 0, bus_delivered = 0, bus_retried = 0, bus_dead = 0, bus_abandoned = 0\<rparr>) = Inr b"
    using assms unfolding NewBus_def c1_def[symmetric] Let_def .
  then have v: "BusConfig_validate c1 = None" by (cases "BusConfig_validate c1") simp_all
  then have c: "0 < bcf_Partitions c1" "bcf_Partitions c1 \<le> 2147483647" "0 < bcf_Capacity c1" "0 < bcf_MaxAttempts c1"
    unfolding BusConfig_validate_def by (simp_all split: if_splits)
  obtain n where n: "bcf_Partitions c1 = int n" using c(1) by (metis nat_0_le less_imp_le)
  show ?thesis using run v c n by (intro exI[of _ n]) (auto simp: Partitions_def)
qed

lemma NewBus_ok:
  assumes "NewBus c = Inr b"
  shows "bus_inv (bus_initial b w)"
  using NewBus_fields[OF assms]
  by (elim exE conjE) (simp add: bus_inv_def bus_initial_def shape_ok_def close_ok_def logs_ok_def queued_def count_ok_def finished_def held_def)

lemma concat_push: "p < length qs \<Longrightarrow> length (concat (qs[p := qs ! p @ [v]])) = Suc (length (concat qs))"
  by (induction qs arbitrary: p) (auto split: nat.split)

lemma concat_pop: "p < length qs \<Longrightarrow> qs ! p = v # rest \<Longrightarrow> Suc (length (concat (qs[p := rest]))) = length (concat qs)"
  by (induction qs arbitrary: p) (auto split: nat.split)

lemma filter_length_update:
  assumes "i < length xs"
  shows "length (filter P (xs[i := y])) + (if P (xs ! i) then 1 else 0) = length (filter P xs) + (if P y then 1 else 0)"
proof -
  have "length (filter P xs) = length (filter P (take i xs @ xs ! i # drop (Suc i) xs))" using assms by (simp add: id_take_nth_drop[symmetric])
  then show ?thesis using assms by (simp add: upd_conv_take_nth_drop)
qed

lemma wrap64_sum3:
  "wrap64 (wrap64 (x + 1) + y + z) = wrap64 (x + y + z + 1)"
  "wrap64 (x + wrap64 (y + 1) + z) = wrap64 (x + y + z + 1)"
  "wrap64 (x + y + wrap64 (z + 1)) = wrap64 (x + y + z + 1)"
  using wrap64_add_left[of "x + 1" "y + z"] wrap64_add_left[of "y + 1" "x + z"] wrap64_add_left[of "z + 1" "x + y"]
  by (simp_all add: algebra_simps)

text \<open>A delivery ends in exactly one of its three counters and touches nothing but counters and dead letters.\<close>

definition same_bus :: "'a Bus \<Rightarrow> 'a Bus \<Rightarrow> bool" where
  "same_bus b b' \<longleftrightarrow> bus_config b' = bus_config b \<and> bus_partitions b' = bus_partitions b \<and> bus_partitionCount b' = bus_partitionCount b \<and>
     bus_closing b' = bus_closing b \<and> bus_shutdown b' = bus_shutdown b \<and> bus_inflight b' = bus_inflight b \<and> bus_closed b' = bus_closed b \<and>
     bus_published b' = bus_published b \<and> bus_claimed b' = bus_claimed b"

lemma deliver_from_frame:
  assumes "deliver_from left n cx handler v (b, s) = (b', s')"
  shows "same_bus b b' \<and> wrap64 (finished b') = wrap64 (finished b + 1) \<and>
    (bus_dead b = wrap64 (int (length (bus_deadLetter b))) \<longrightarrow> bus_dead b' = wrap64 (int (length (bus_deadLetter b'))))"
  using assms
proof (induction left arbitrary: n b s)
  case 0
  then show ?case by (auto simp: same_bus_def finished_def wrap64_sum3 wrap_simps add.commute[of "1 :: int"])
next
  case (Suc left)
  obtain e s1 where run: "handler v s = (e, s1)" by fastforce
  show ?case
  proof (cases "e \<noteq> None \<and> cx n = None")
    case True
    then obtain err where "e = Some err" "cx n = None" by auto
    with Suc.prems run Suc.IH[of "Suc n" _ s1] show ?thesis
      by (fastforce simp: same_bus_def finished_def split: if_splits)
  next
    case False
    with Suc.prems run show ?thesis by (auto simp: same_bus_def finished_def wrap64_sum3 split: option.splits)
  qed
qed

lemma deliver_frame:
  assumes "deliver cx handler v (b, s) = (b', s')"
  shows "same_bus b b'" and "wrap64 (finished b') = wrap64 (finished b + 1)"
    and "bus_dead b = wrap64 (int (length (bus_deadLetter b))) \<Longrightarrow> bus_dead b' = wrap64 (int (length (bus_deadLetter b')))"
  using deliver_from_frame[of "nat (bcf_MaxAttempts (bus_config b))" 1 cx handler v b s b' s'] assms by (simp_all add: deliver_def)

lemma send_select_cases:
  assumes "send_select br cx key v b = Some (r, b')"
  shows "if r = None then br = ToPartition \<and> int (length (bus_partitions b ! PartitionFor b key)) < bcf_Capacity (bus_config b) \<and> b' = push (PartitionFor b key) v b
    else b' = b"
  using assms by (auto simp: send_select_def split: branch.splits option.splits if_splits)

lemma pop_Some:
  "pop p b = Some (v, b') \<longleftrightarrow> (\<exists>rest. bus_partitions b ! p = v # rest \<and> b' = b\<lparr>bus_partitions := (bus_partitions b)[p := rest]\<rparr>)"
  by (auto simp: pop_def split: list.splits)

lemma pop_None: "pop p b = None \<longleftrightarrow> bus_partitions b ! p = []"
  by (auto simp: pop_def split: list.splits)

lemmas bus_op_defs = enterSend_def leaveSend_def push_def Close_begin_def Close_end_def

lemma step_shape:
  assumes "bus_step handler c c'" and "shape_ok (bc_bus c)"
  shows "shape_ok (bc_bus c') \<and> Partitions (bc_bus c') = Partitions (bc_bus c)"
  using assms
proof cases
  case (send_sent i key v cx b p)
  note sel = send_select_cases[OF send_sent(4)]
  have "p < length (bus_partitions (bc_bus c))" using PartitionFor_range[OF assms(2)] send_sent(5) by simp
  with sel assms(2) send_sent(1,5) show ?thesis
    by (auto simp: shape_ok_def Partitions_def push_def dest!: set_update_subset_insert[THEN subsetD])
next
  case (consumer_take i p st draining v b)
  then obtain rest where pop: "bus_partitions (bc_bus c) ! p = v # rest" "b = (bc_bus c)\<lparr>bus_partitions := (bus_partitions (bc_bus c))[p := rest]\<rparr>"
    by (auto simp: pop_Some)
  have "int (length rest) \<le> bcf_Capacity (bus_config (bc_bus c))" if "p < length (bus_partitions (bc_bus c))"
    using assms(2) that pop(1) nth_mem[OF that] by (fastforce simp: shape_ok_def)
  then have "\<forall>q \<in> set ((bus_partitions (bc_bus c))[p := rest]). int (length q) \<le> bcf_Capacity (bus_config (bc_bus c))"
    using assms(2) set_update_subset_insert[of "bus_partitions (bc_bus c)" p rest]
    by (cases "p < length (bus_partitions (bc_bus c))") (auto simp: shape_ok_def list_update_beyond)
  with pop(2) assms(2) consumer_take(1) show ?thesis by (simp add: shape_ok_def Partitions_def)
next
  case (consumer_deliver i p v draining cx b w)
  with deliver_frame(1)[OF consumer_deliver(4)] assms(2) show ?thesis by (simp add: same_bus_def shape_ok_def Partitions_def)
next
  case (send_failed i key v br cx err b)
  with send_select_cases[OF send_failed(4)] assms(2) show ?thesis by simp
qed (auto simp: shape_ok_def Partitions_def bus_op_defs split: if_splits)

lemma step_close:
  assumes "bus_step handler c c'" and "close_ok c"
  shows "close_ok c'"
  using assms
proof cases
  case (send_sent i key v cx b p)
  with send_select_cases[OF send_sent(4)] assms(2) show ?thesis by (auto simp: close_ok_def push_def)
next
  case (send_failed i key v br cx err b)
  with send_select_cases[OF send_failed(4)] assms(2) show ?thesis by (auto simp: close_ok_def)
next
  case (consumer_deliver i p v draining cx b w)
  with deliver_frame(1)[OF consumer_deliver(4)] assms(2) show ?thesis by (simp add: same_bus_def close_ok_def)
qed (auto simp: close_ok_def bus_op_defs pop_Some split: if_splits)

lemma stage_ok_mono:
  assumes "stage_ok b ps" and "Partitions b' = Partitions b" and "bus_shutdown b \<Longrightarrow> bus_shutdown b'"
    and "bus_shutdown b \<Longrightarrow> bus_partitions b ! fst ps = [] \<Longrightarrow> bus_partitions b' ! fst ps = []"
  shows "stage_ok b' ps"
  using assms by (auto simp: stage_ok_def split: stage.splits option.splits)

lemma step_fifo_frame:
  assumes "bus_step handler c c'" and "close_ok c"
  shows "(bus_shutdown (bc_bus c) \<longrightarrow> bus_shutdown (bc_bus c') \<and> (\<forall>p. queued c p = [] \<longrightarrow> queued c' p = []))"
  using assms
proof cases
  case (send_sent i key v cx b p)
  with assms(2) show ?thesis by (auto simp: close_ok_def)
next
  case (send_failed i key v br cx err b)
  with assms(2) show ?thesis by (auto simp: close_ok_def)
next
  case (consumer_deliver i p v draining cx b w)
  with deliver_frame(1)[OF consumer_deliver(4)] show ?thesis by (simp add: same_bus_def queued_def)
next
  case (consumer_take i p st draining v b)
  then show ?thesis by (auto simp: pop_Some queued_def nth_list_update_neq split: if_splits) (metis list.distinct(1) nth_list_update_neq)+
qed (auto simp: bus_op_defs queued_def split: if_splits)

lemma nth_update_consumers:
  assumes "\<forall>ps \<in> set xs. P ps" and "P y"
  shows "\<forall>ps \<in> set (xs[i := y]). P ps"
  using assms set_update_subset_insert[of xs i y] by auto

lemma step_stages:
  assumes "bus_step handler c c'" and "close_ok c" and "shape_ok (bc_bus c)" and "\<forall>ps \<in> set (bc_consumers c). stage_ok (bc_bus c) ps"
  shows "\<forall>ps \<in> set (bc_consumers c'). stage_ok (bc_bus c') ps"
proof -
  have old: "stage_ok (bc_bus c') ps" if "stage_ok (bc_bus c) ps" for ps
  proof (rule stage_ok_mono[OF that])
    show "Partitions (bc_bus c') = Partitions (bc_bus c)" using step_shape[OF assms(1,3)] by simp
    show "bus_shutdown (bc_bus c) \<Longrightarrow> bus_shutdown (bc_bus c')" using step_fifo_frame[OF assms(1,2)] by simp
    show "bus_shutdown (bc_bus c) \<Longrightarrow> bus_partitions (bc_bus c) ! fst ps = [] \<Longrightarrow> bus_partitions (bc_bus c') ! fst ps = []"
      using step_fifo_frame[OF assms(1,2)] by (simp add: queued_def)
  qed
  then have olds: "\<forall>ps \<in> set (bc_consumers c). stage_ok (bc_bus c') ps" using assms(4) by blast
  have cur: "stage_ok (bc_bus c') (bc_consumers c ! i)" if "i < length (bc_consumers c)" for i using olds that by simp
  from assms(1) show ?thesis
  proof cases
    case (consumer_start p)
    with olds show ?thesis by (auto simp: stage_ok_def)
  next
    case (consumer_take i p st draining v b)
    with cur[of i] have "stage_ok (bc_bus c') (p, Holding v draining)" by (simp add: stage_ok_def split: if_splits)
    from nth_update_consumers[OF olds this, of i] show ?thesis using consumer_take(1) by simp
  next
    case (consumer_deliver i p v draining cx b w)
    with cur[of i] have "stage_ok (bc_bus c') (p, if draining then Draining else Consuming)" by (simp add: stage_ok_def)
    from nth_update_consumers[OF olds this, of i] show ?thesis using consumer_deliver(1) by simp
  next
    case (consumer_cancelled i p st err)
    with cur[of i] have "stage_ok (bc_bus c') (p, Returned (Some err))" by (simp add: stage_ok_def)
    from nth_update_consumers[OF olds this, of i] show ?thesis using consumer_cancelled(1) by simp
  next
    case (consumer_shutdown i p)
    with cur[of i] have "stage_ok (bc_bus c') (p, Draining)" by (simp add: stage_ok_def)
    from nth_update_consumers[OF olds this, of i] show ?thesis using consumer_shutdown(1) by simp
  next
    case (consumer_drained i p)
    with cur[of i] have "stage_ok (bc_bus c') (p, Returned None)" by (simp add: stage_ok_def pop_None)
    from nth_update_consumers[OF olds this, of i] show ?thesis using consumer_drained(1) by simp
  qed (use olds in simp_all)
qed

lemma step_logs:
  assumes "bus_step handler c c'" and "shape_ok (bc_bus c)" and "\<forall>ps \<in> set (bc_consumers c). stage_ok (bc_bus c) ps" and "logs_ok c"
  shows "logs_ok c'"
  using assms(1)
proof cases
  case (send_sent i key v cx b p)
  with send_select_cases[OF send_sent(4)] assms(4) show ?thesis by (auto simp: logs_ok_def queued_def push_def nth_list_update)
next
  case (send_failed i key v br cx err b)
  with send_select_cases[OF send_failed(4)] assms(4) show ?thesis by (simp add: logs_ok_def queued_def)
next
  case (consumer_take i p st draining v b)
  then obtain rest where "bus_partitions (bc_bus c) ! p = v # rest" "b = (bc_bus c)\<lparr>bus_partitions := (bus_partitions (bc_bus c))[p := rest]\<rparr>"
    by (auto simp: pop_Some)
  with assms(4) consumer_take(1) show ?thesis by (auto simp: logs_ok_def queued_def nth_list_update)
next
  case (consumer_deliver i p v draining cx b w)
  with deliver_frame(1)[OF consumer_deliver(4)] assms(4) show ?thesis by (simp add: logs_ok_def queued_def same_bus_def)
qed (use assms(4) in \<open>auto simp: logs_ok_def queued_def bus_op_defs split: if_splits\<close>)

abbreviation holding :: "nat \<times> 'a stage \<Rightarrow> bool" where
  "holding ps \<equiv> (case snd ps of Holding v d \<Rightarrow> True | _ \<Rightarrow> False)"

lemma held_update:
  assumes "i < length (bc_consumers c)" and "bc_consumers c' = (bc_consumers c)[i := y]"
  shows "held c' + (if holding (bc_consumers c ! i) then 1 else 0) = held c + (if holding y then 1 else 0)"
  using filter_length_update[OF assms(1), of holding y] by (simp add: held_def assms(2))

lemma held_same: "bc_consumers c' = bc_consumers c \<Longrightarrow> held c' = held c"
  by (simp add: held_def)

lemma count_ok_sent:
  assumes "count_ok c" and "bus_published (bc_bus c') = wrap64 (bus_published (bc_bus c) + 1)" and "finished (bc_bus c') = finished (bc_bus c)"
    and "held c' = held c" and "length (concat (bus_partitions (bc_bus c'))) = Suc (length (concat (bus_partitions (bc_bus c))))"
    and "bus_dead (bc_bus c') = bus_dead (bc_bus c)" "bus_deadLetter (bc_bus c') = bus_deadLetter (bc_bus c)"
  shows "count_ok c'"
proof -
  let ?n = "finished (bc_bus c) + int (held c) + int (length (concat (bus_partitions (bc_bus c))))"
  have "bus_published (bc_bus c') = wrap64 (?n + 1)" using assms(1,2) unfolding count_ok_def by (metis wrap64_add_left)
  moreover have "finished (bc_bus c') + int (held c') + int (length (concat (bus_partitions (bc_bus c')))) = ?n + 1"
    using assms(3-5) by simp
  ultimately show ?thesis using assms(1,6,7) unfolding count_ok_def by metis
qed

lemma step_count:
  assumes "bus_step handler c c'" and "shape_ok (bc_bus c)" and "\<forall>ps \<in> set (bc_consumers c). stage_ok (bc_bus c) ps" and "count_ok c"
  shows "count_ok c'"
  using assms(1)
proof cases
  case (send_sent i key v cx b p)
  have sel: "b = push p v (bc_bus c)" "p < length (bus_partitions (bc_bus c))"
    using send_select_cases[OF send_sent(4)] PartitionFor_range[OF assms(2)] send_sent(5) by simp_all
  have "held c' = held c" by (rule held_same) (use send_sent(1) in simp)
  then show ?thesis using send_sent(1) sel concat_push[OF sel(2), of v]
    by (intro count_ok_sent[OF assms(4)]) (simp_all add: push_def finished_def)
next
  case (send_failed i key v br cx err b)
  with send_select_cases[OF send_failed(4)] assms(4) held_same[of c' c] show ?thesis by (simp add: count_ok_def)
next
  case (consumer_take i p st draining v b)
  then obtain rest where pop: "bus_partitions (bc_bus c) ! p = v # rest" "b = (bc_bus c)\<lparr>bus_partitions := (bus_partitions (bc_bus c))[p := rest]\<rparr>"
    by (auto simp: pop_Some)
  have "stage_ok (bc_bus c) (p, st)" using assms(3) consumer_take(2,3) nth_mem by fastforce
  then have p: "p < length (bus_partitions (bc_bus c))" using assms(2) by (simp add: stage_ok_def shape_ok_def)
  have "held c' = Suc (held c)"
    using held_update[OF consumer_take(2), of c' "(p, Holding v draining)"] consumer_take(1,3,4) by (simp split: if_splits)
  moreover have "int (length (concat (bus_partitions (bc_bus c)))) = 1 + int (length (concat (bus_partitions (bc_bus c'))))"
    using concat_pop[OF p pop(1)] pop(2) consumer_take(1) by simp
  ultimately show ?thesis using assms(4) consumer_take(1) pop(2) by (simp add: count_ok_def finished_def algebra_simps)
next
  case (consumer_deliver i p v draining cx b w)
  note fr = deliver_frame[OF consumer_deliver(4)]
  have "held c = Suc (held c')"
    using held_update[OF consumer_deliver(2), of c' "(p, if draining then Draining else Consuming)"] consumer_deliver(1,3) by (simp split: if_splits)
  then have "finished (bc_bus c) + 1 + (int (held c') + int (length (concat (bus_partitions (bc_bus c))))) =
      finished (bc_bus c) + int (held c) + int (length (concat (bus_partitions (bc_bus c))))" by simp
  with wrap64_add_cong[OF fr(2), of "int (held c') + int (length (concat (bus_partitions (bc_bus c))))"]
  have "wrap64 (finished b + int (held c') + int (length (concat (bus_partitions (bc_bus c))))) = bus_published (bc_bus c)"
    using assms(4) unfolding count_ok_def by (metis add.assoc)
  moreover have "bc_bus c' = b" "bus_partitions b = bus_partitions (bc_bus c)" "bus_published b = bus_published (bc_bus c)"
    using consumer_deliver(1) fr(1) by (simp_all add: same_bus_def)
  ultimately show ?thesis using assms(4) fr(3) unfolding count_ok_def by metis
next
  case (consumer_cancelled i p st err)
  have "held c' = held c"
    using held_update[OF consumer_cancelled(2), of c' "(p, Returned (Some err))"] consumer_cancelled(1,3,4) by auto
  with assms(4) consumer_cancelled(1) show ?thesis by (simp add: count_ok_def)
next
  case (consumer_shutdown i p)
  have "held c' = held c"
    using held_update[OF consumer_shutdown(2), of c' "(p, Draining)"] consumer_shutdown(1,3) by simp
  with assms(4) consumer_shutdown(1) show ?thesis by (simp add: count_ok_def)
next
  case (consumer_drained i p)
  have "held c' = held c"
    using held_update[OF consumer_drained(2), of c' "(p, Returned None)"] consumer_drained(1,3) by simp
  with assms(4) consumer_drained(1) show ?thesis by (simp add: count_ok_def)
next
  case (consumer_start p)
  then have "held c' = held c" by (simp add: held_def)
  with assms(4) consumer_start(1) show ?thesis by (simp add: count_ok_def)
qed (use assms(4) held_same[of c' c] in \<open>auto simp: count_ok_def finished_def bus_op_defs split: if_splits\<close>)

lemma step_inv: "bus_step handler c c' \<Longrightarrow> bus_inv c \<Longrightarrow> bus_inv c'"
  unfolding bus_inv_def using step_shape step_close step_stages step_logs step_count by blast

lemma reachable_inv:
  assumes "NewBus cfg = Inr b" and "(bus_step handler)\<^sup>*\<^sup>* (bus_initial b w) c"
  shows "bus_inv c"
  using assms(2) by (induction rule: rtranclp_induct) (auto intro: NewBus_ok[OF assms(1)] step_inv)

section \<open>Properties\<close>

text \<open>
  Property C19 (no message is lost in a shutdown). In every interleaving of senders, consumers and \<^verbatim>\<open>Close\<close>, once a consumer has returned without an error
  its partition is empty and stays empty: the bus is shut down, nobody is still sending, and nobody can start to send.
\<close>

theorem bus_shutdown_drains:
  assumes "NewBus cfg = Inr b" and "(bus_step handler)\<^sup>*\<^sup>* (bus_initial b w) c" and "(p, Returned None) \<in> set (bc_consumers c)"
    and "(bus_step handler)\<^sup>*\<^sup>* c c'"
  shows "queued c' p = [] \<and> bc_senders c' = [] \<and> enterSend (bc_bus c') = (False, bc_bus c')"
proof -
  have "(bus_step handler)\<^sup>*\<^sup>* c c' \<Longrightarrow> bus_inv c' \<and> bus_shutdown (bc_bus c') \<and> queued c' p = []"
  proof (induction rule: rtranclp_induct)
    case base
    have "bus_inv c" by (rule reachable_inv[OF assms(1,2)])
    moreover from this assms(3) have "stage_ok (bc_bus c) (p, Returned None)" by (auto simp: bus_inv_def)
    ultimately show ?case by (simp add: stage_ok_def queued_def)
  next
    case (step d d')
    then show ?case using step_inv[OF step(2)] step_fifo_frame[OF step(2)] by (auto simp: bus_inv_def)
  qed
  with assms(4) show ?thesis by (auto simp: bus_inv_def close_ok_def enterSend_def)
qed


text \<open>
  Order within a partition. In every reachable state the values taken from a partition, followed by those still in it, are the values sent to it in
  the order of the sends; a key always selects the same partition, which exists.
\<close>

theorem bus_fifo:
  assumes "NewBus cfg = Inr b" and "(bus_step handler)\<^sup>*\<^sup>* (bus_initial b w) c"
  shows "PartitionFor (bc_bus c) key = PartitionFor b key \<and> PartitionFor b key < length (bus_partitions (bc_bus c)) \<and>
    bc_sent c (PartitionFor b key) = bc_taken c (PartitionFor b key) @ queued c (PartitionFor b key)"
proof -
  have inv: "bus_inv c" by (rule reachable_inv[OF assms])
  have parts: "Partitions (bc_bus c) = Partitions b \<and> bus_inv c"
    using assms(2)
  proof (induction rule: rtranclp_induct)
    case base
    show ?case using NewBus_ok[OF assms(1), of w] by (simp add: bus_initial_def)
  next
    case (step d d')
    with step_shape[OF step(2)] step_inv[OF step(2)] show ?case by (auto simp: bus_inv_def)
  qed
  have "bus_partitionCount b = word_of_int (Partitions b)" using NewBus_ok[OF assms(1), of w] by (simp add: bus_inv_def bus_initial_def shape_ok_def)
  then have same: "PartitionFor (bc_bus c) key = PartitionFor b key" using parts inv by (simp add: PartitionFor_def bus_inv_def shape_ok_def)
  have shp: "shape_ok (bc_bus c)" using inv by (simp add: bus_inv_def)
  from PartitionFor_range[OF shp, of key] same inv show ?thesis by (simp add: bus_inv_def logs_ok_def)
qed

definition ex_bus_config :: BusConfig where "ex_bus_config = \<lparr>bcf_Partitions = 1, bcf_Capacity = 2, bcf_MaxAttempts = 0\<rparr>"

definition ex_bus :: "nat Bus" where
  "ex_bus = (case NewBus ex_bus_config of Inr b \<Rightarrow> b | Inl _ \<Rightarrow> undefined)"

lemma ex_bus_new: "NewBus ex_bus_config = Inr ex_bus"
  by (simp add: ex_bus_def NewBus_def ex_bus_config_def BusConfig_validate_def Let_def)

definition ex_handler :: "(nat, nat list) handler" where "ex_handler v seen = (None, seen @ [v])"

text \<open>A consumer starts, the bus is closed while idle, the consumer drains its empty partition and returns.\<close>

definition ex_shut :: "(nat, nat list) bus_conf" where
  "ex_shut = (bus_initial ex_bus [])\<lparr>bc_bus := Close_end (Close_begin ex_bus), bc_consumers := [(0, Returned None)], bc_closer := Shut\<rparr>"

lemma ex_bus_partition: "bus_partitions ex_bus = [[]]" "Partitions ex_bus = 1" "bus_inflight ex_bus = 0" "bus_closed ex_bus = False"
  "bus_partitionCount ex_bus = 1" "bcf_Capacity (bus_config ex_bus) = 2"
  by (simp_all add: ex_bus_def NewBus_def ex_bus_config_def BusConfig_validate_def Let_def Partitions_def)

lemma ex_shut_reached: "(bus_step ex_handler)\<^sup>*\<^sup>* (bus_initial ex_bus []) ex_shut"
proof -
  let ?c0 = "bus_initial ex_bus [] :: (nat, nat list) bus_conf"
  let ?c1 = "?c0\<lparr>bc_consumers := bc_consumers ?c0 @ [(0, Consuming)]\<rparr>"
  let ?c2 = "?c1\<lparr>bc_bus := Close_begin (bc_bus ?c1), bc_closer := WaitingIdle\<rparr>"
  let ?c3 = "?c2\<lparr>bc_bus := Close_end (bc_bus ?c2), bc_closer := Shut\<rparr>"
  let ?c4 = "?c3\<lparr>bc_consumers := (bc_consumers ?c3)[0 := (0, Draining)]\<rparr>"
  let ?c5 = "?c4\<lparr>bc_consumers := (bc_consumers ?c4)[0 := (0, Returned None)]\<rparr>"
  have "bus_step ex_handler ?c0 ?c1" by (rule consumer_start) (simp add: bus_initial_def ex_bus_partition)
  moreover have "bus_step ex_handler ?c1 ?c2" by (rule close_begin) (simp add: bus_initial_def)
  moreover have "bus_step ex_handler ?c2 ?c3" by (rule close_end) (simp_all add: bus_initial_def ex_bus_partition Close_begin_def)
  moreover have "bus_step ex_handler ?c3 ?c4" by (rule consumer_shutdown) (simp_all add: bus_initial_def Close_end_def)
  moreover have "bus_step ex_handler ?c4 ?c5" by (rule consumer_drained) (simp_all add: bus_initial_def pop_None Close_end_def Close_begin_def ex_bus_partition)
  ultimately have "(bus_step ex_handler)\<^sup>*\<^sup>* ?c0 ?c5" by (meson converse_rtranclp_into_rtranclp rtranclp.rtrancl_refl)
  then show ?thesis by (simp add: bus_initial_def ex_shut_def)
qed

theorem bus_shutdown_drains_witness: "queued ex_shut 0 = [] \<and> bc_senders ex_shut = []"
proof -
  have "(0, Returned None) \<in> set (bc_consumers ex_shut)" by (simp add: ex_shut_def)
  from bus_shutdown_drains[OF ex_bus_new ex_shut_reached this rtranclp.rtrancl_refl] show ?thesis by simp
qed


text \<open>A sender enters and its value goes to the partition of its key.\<close>

definition ex_one_sent :: "(nat, nat list) bus_conf" where
  "ex_one_sent = (bus_initial ex_bus [])\<lparr>bc_bus := push 0 7 (ex_bus\<lparr>bus_inflight := 1\<rparr>), bc_senders := [Leaving], bc_sent := (\<lambda>_. [])(0 := [7])\<rparr>"

lemma ex_PartitionFor: "bus_partitionCount b = 1 \<Longrightarrow> PartitionFor b key = 0"
  by (simp add: PartitionFor_def)

lemma ex_one_sent_reached: "(bus_step ex_handler)\<^sup>*\<^sup>* (bus_initial ex_bus []) ex_one_sent"
proof -
  let ?c0 = "bus_initial ex_bus [] :: (nat, nat list) bus_conf"
  let ?b1 = "ex_bus\<lparr>bus_inflight := 1\<rparr>"
  let ?c1 = "?c0\<lparr>bc_bus := ?b1, bc_senders := bc_senders ?c0 @ [Selecting ''k'' 7]\<rparr>"
  let ?c2 = "?c1\<lparr>bc_bus := push 0 7 ?b1, bc_senders := (bc_senders ?c1)[0 := Leaving], bc_sent := (bc_sent ?c1)(0 := bc_sent ?c1 0 @ [7])\<rparr>"
  have "bus_step ex_handler ?c0 ?c1" by (rule send_enter) (simp add: bus_initial_def enterSend_def ex_bus_partition)
  moreover have "bus_step ex_handler ?c1 ?c2"
    by (rule send_sent[where cx = None and key = "''k''"]) (simp_all add: bus_initial_def send_select_def ex_PartitionFor ex_bus_partition)
  ultimately have "(bus_step ex_handler)\<^sup>*\<^sup>* ?c0 ?c2" by (meson converse_rtranclp_into_rtranclp rtranclp.rtrancl_refl)
  then show ?thesis by (simp add: bus_initial_def ex_one_sent_def)
qed

theorem bus_fifo_witness: "bc_sent ex_one_sent 0 = bc_taken ex_one_sent 0 @ queued ex_one_sent 0 \<and> bc_sent ex_one_sent 0 = [7]"
  using bus_fifo[OF ex_bus_new ex_one_sent_reached, of "''k''"] by (simp add: ex_PartitionFor ex_bus_partition ex_one_sent_def)
end
