(* ===== verification/BusShutdown.thy ===== *)
theory BusShutdown
  imports Bus
begin

text \<open>
  That shutting the in-process bus down ends (\<^verbatim>\<open>internal/bus\<close>): once \<^verbatim>\<open>Close\<close> has begun, a weight of the threads and of the queued
  values drops with every step that does not start another consumer, and the threads can only be at rest when \<^verbatim>\<open>Close\<close> is over, nobody sends and every consumer has
  returned. So \<^verbatim>\<open>Close\<close> and the consumers return, whatever the scheduler does, as long as each call of a handler returns.
\<close>

section \<open>The work left\<close>

fun sender_weight :: "'a sender \<Rightarrow> nat" where
  "sender_weight (Selecting key v) = 4"
| "sender_weight Leaving = 1"

fun stage_weight :: "'a stage \<Rightarrow> nat" where
  "stage_weight Consuming = 2"
| "stage_weight Draining = 1"
| "stage_weight (Holding v draining) = (if draining then 2 else 3)"
| "stage_weight (Returned err) = 0"

fun closer_weight :: "closer \<Rightarrow> nat" where
  "closer_weight Open = 2"
| "closer_weight WaitingIdle = 1"
| "closer_weight Shut = 0"

definition shutdown_work :: "('a, 's) bus_conf \<Rightarrow> nat" where
  "shutdown_work c =
     (\<Sum>s\<leftarrow>bc_senders c. sender_weight s) + (\<Sum>ps\<leftarrow>bc_consumers c. stage_weight (snd ps)) +
     2 * length (concat (bus_partitions (bc_bus c))) + closer_weight (bc_closer c)"

text \<open>A step of the shutdown: \<^verbatim>\<open>Close\<close> has begun and no consumer is started.\<close>

definition shutdown_step :: "('a, 's) handler \<Rightarrow> ('a, 's) bus_conf \<Rightarrow> ('a, 's) bus_conf \<Rightarrow> bool" where
  "shutdown_step handler c c' \<longleftrightarrow> bus_step handler c c' \<and> bc_closer c \<noteq> Open \<and> length (bc_consumers c') = length (bc_consumers c)"

section \<open>Every step takes work away\<close>

lemma sum_list_update_nat:
  fixes f :: "'b \<Rightarrow> nat"
  assumes "i < length xs"
  shows "(\<Sum>x\<leftarrow>xs[i := y]. f x) + f (xs ! i) = (\<Sum>x\<leftarrow>xs. f x) + f y"
  using assms by (induction xs arbitrary: i) (auto split: nat.split)

lemma sum_list_remove_nat:
  fixes f :: "'b \<Rightarrow> nat"
  assumes "i < length xs"
  shows "(\<Sum>x\<leftarrow>take i xs @ drop (Suc i) xs. f x) + f (xs ! i) = (\<Sum>x\<leftarrow>xs. f x)"
proof -
  have "(\<Sum>x\<leftarrow>xs. f x) = (\<Sum>x\<leftarrow>take i xs @ xs ! i # drop (Suc i) xs. f x)" using assms by (simp only: id_take_nth_drop[symmetric])
  then show ?thesis by simp
qed

lemma consumer_in_range:
  assumes "bus_inv c" and "i < length (bc_consumers c)" and "bc_consumers c ! i = (p, st)"
  shows "p < length (bus_partitions (bc_bus c))"
  using assms nth_mem[OF assms(2)] by (fastforce simp: bus_inv_def shape_ok_def stage_ok_def)

lemma shutdown_step_work:
  assumes "shutdown_step handler c c'" and "bus_inv c"
  shows "shutdown_work c' < shutdown_work c"
proof -
  have step: "bus_step handler c c'" and begun: "bc_closer c \<noteq> Open" and same: "length (bc_consumers c') = length (bc_consumers c)"
    using assms(1) by (simp_all add: shutdown_step_def)
  note senders = sum_list_update_nat[where f = sender_weight] and stages = sum_list_update_nat[where f = "\<lambda>ps. stage_weight (snd ps)"]
  from step show ?thesis
  proof cases
    case (send_enter b key v)
    with begun assms(2) show ?thesis by (simp add: enterSend_def bus_inv_def close_ok_def)
  next
    case (send_sent i key v cx b p)
    then have "b = push p v (bc_bus c)" using send_select_cases[of ToPartition cx key v "bc_bus c" None b] by simp
    moreover have "p < length (bus_partitions (bc_bus c))" using PartitionFor_range[of "bc_bus c" key] assms(2) send_sent(5) by (simp add: bus_inv_def)
    ultimately show ?thesis using send_sent senders[OF send_sent(2), of Leaving] by (simp add: shutdown_work_def push_def concat_push)
  next
    case (send_failed i key v br cx err b)
    then have "b = bc_bus c" using send_select_cases[of br cx key v "bc_bus c" "Some err" b] by simp
    with send_failed senders[OF send_failed(2), of Leaving] show ?thesis by (simp add: shutdown_work_def)
  next
    case (send_leave i)
    with sum_list_remove_nat[OF send_leave(2), of sender_weight] show ?thesis by (simp add: shutdown_work_def leaveSend_def)
  next
    case (consumer_start p)
    with same show ?thesis by simp
  next
    case (consumer_take i p st draining v b)
    then obtain rest where "bus_partitions (bc_bus c) ! p = v # rest" "b = (bc_bus c)\<lparr>bus_partitions := (bus_partitions (bc_bus c))[p := rest]\<rparr>"
      by (auto simp: pop_Some)
    with consumer_take stages[OF consumer_take(2), of "(p, Holding v draining)"] concat_pop[OF consumer_in_range[OF assms(2) consumer_take(2,3)], of v rest]
    show ?thesis by (auto simp: shutdown_work_def split: if_splits)
  next
    case (consumer_deliver i p v draining cx b w)
    have "bus_partitions b = bus_partitions (bc_bus c)" using deliver_frame(1)[OF consumer_deliver(4)] by (simp add: same_bus_def)
    with consumer_deliver stages[OF consumer_deliver(2), of "(p, if draining then Draining else Consuming)"] show ?thesis
      by (simp add: shutdown_work_def split: if_splits)
  next
    case (consumer_cancelled i p st err)
    with stages[OF consumer_cancelled(2), of "(p, Returned (Some err))"] show ?thesis by (auto simp: shutdown_work_def)
  next
    case (consumer_shutdown i p)
    with stages[OF consumer_shutdown(2), of "(p, Draining)"] show ?thesis by (simp add: shutdown_work_def)
  next
    case (consumer_drained i p)
    with stages[OF consumer_drained(2), of "(p, Returned None)"] show ?thesis by (simp add: shutdown_work_def)
  next
    case close_begin
    with begun show ?thesis by simp
  next
    case close_end
    then show ?thesis by (simp add: shutdown_work_def Close_end_def)
  qed
qed

lemma shutdown_run_work:
  assumes "(shutdown_step handler ^^ n) c c'" and "bus_inv c"
  shows "shutdown_work c' + n \<le> shutdown_work c \<and> bus_inv c'"
  using assms(1)
proof (induction n arbitrary: c')
  case (Suc n)
  then obtain d where d: "(shutdown_step handler ^^ n) c d" "shutdown_step handler d c'" by auto
  from Suc.IH[OF d(1)] shutdown_step_work[OF d(2)] step_inv[of handler d c'] d(2) show ?case by (auto simp: shutdown_step_def)
qed (simp add: assms(2))

section \<open>Nobody is stuck\<close>

definition closing_ok :: "'a Bus \<Rightarrow> bool" where
  "closing_ok b \<longleftrightarrow> bus_closing b = bus_closed b"

lemma step_closing: "bus_step handler c c' \<Longrightarrow> closing_ok (bc_bus c) \<Longrightarrow> closing_ok (bc_bus c')"
proof (induction rule: bus_step.induct)
  case (consumer_deliver i c p v draining cx b w)
  from deliver_frame(1)[OF consumer_deliver(3)] consumer_deliver(4) show ?case by (simp add: closing_ok_def same_bus_def)
qed (auto simp: closing_ok_def bus_op_defs pop_Some split: if_splits dest!: send_select_cases)

lemma reachable_closing:
  assumes "NewBus cfg = Inr b" and "(bus_step handler)\<^sup>*\<^sup>* (bus_initial b w) c"
  shows "closing_ok (bc_bus c)"
  using assms(2)
proof (induction rule: rtranclp_induct)
  case base
  then show ?case using assms(1) by (auto simp: bus_initial_def closing_ok_def NewBus_def Let_def split: option.splits if_splits)
qed (rule step_closing)

text \<open>Each thread that is not at rest has a step of the shutdown.\<close>

lemma sender_can_step:
  assumes "bc_closer c \<noteq> Open" and "closing_ok (bc_bus c)" and "bus_inv c" and "bc_senders c \<noteq> []"
  shows "\<exists>c'. shutdown_step handler c c'"
proof -
  have closing: "bus_closing (bc_bus c)" using assms(1-3) by (simp add: closing_ok_def bus_inv_def close_ok_def)
  have i: "0 < length (bc_senders c)" using assms(4) by simp
  show ?thesis
  proof (cases "bc_senders c ! 0")
    case (Selecting key v)
    have "send_select SeeClosing None key v (bc_bus c) = Some (Some ErrClosed, bc_bus c)" using closing by (simp add: send_select_def)
    from send_failed[OF i Selecting this] assms(1) show ?thesis unfolding shutdown_step_def by fastforce
  next
    case Leaving
    from send_leave[OF i this] assms(1) show ?thesis unfolding shutdown_step_def by fastforce
  qed
qed

lemma closer_can_step:
  assumes "bc_closer c = WaitingIdle" and "bus_inv c" and "bc_senders c = []"
  shows "\<exists>c'. shutdown_step handler c c'"
proof -
  have "\<not> 0 < bus_inflight (bc_bus c)" using assms(2,3) by (simp add: bus_inv_def close_ok_def)
  from close_end[OF assms(1) this] assms(1) show ?thesis unfolding shutdown_step_def by fastforce
qed

lemma consumer_can_step:
  assumes "bc_closer c = Shut" and "bus_inv c" and "ps \<in> set (bc_consumers c)" and "\<nexists>err. snd ps = Returned err"
  shows "\<exists>c'. shutdown_step handler c c'"
proof -
  obtain i p st where i: "i < length (bc_consumers c)" "bc_consumers c ! i = (p, st)" "\<nexists>err. st = Returned err"
    using assms(3,4) by (metis in_set_conv_nth prod.collapse)
  have shut: "bus_shutdown (bc_bus c)" using assms(1,2) by (simp add: bus_inv_def close_ok_def)
  have ready: "shutdown_step handler c c'" if "bus_step handler c c'" and "length (bc_consumers c') = length (bc_consumers c)" for c'
    using that assms(1) by (simp add: shutdown_step_def)
  show ?thesis
  proof (cases st)
    case Consuming
    with i have "bc_consumers c ! i = (p, Consuming)" by simp
    from ready[OF consumer_shutdown[OF i(1) this shut]] show ?thesis by auto
  next
    case Draining
    then have at: "bc_consumers c ! i = (p, Draining)" using i by simp
    show ?thesis
    proof (cases "pop p (bc_bus c)")
      case None
      from ready[OF consumer_drained[OF i(1) at None]] show ?thesis by auto
    next
      case (Some vb)
      then obtain v b where "pop p (bc_bus c) = Some (v, b)" by (cases vb) simp
      from ready[OF consumer_take[where draining = True, OF i(1) at _ this]] show ?thesis by auto
    qed
  next
    case (Holding v draining)
    obtain b w where "deliver (\<lambda>_. None) handler v (bc_bus c, bc_world c) = (b, w)" by fastforce
    from ready[OF consumer_deliver[OF i(1) _ this]] i(2) Holding show ?thesis by auto
  qed (use i in auto)
qed

section \<open>Property\<close>

text \<open>
  Shutting down ends. From any reachable state in which \<^verbatim>\<open>Close\<close> has begun, every run that starts no further consumer is finite: its
  length is at most the work left. Where no such step is possible \<^verbatim>\<open>Close\<close> is over, no sender is left and every consumer has returned.
\<close>

theorem bus_shutdown_terminates:
  assumes "NewBus cfg = Inr b" and "(bus_step handler)\<^sup>*\<^sup>* (bus_initial b w) c" and "bc_closer c \<noteq> Open"
  shows "(\<forall>n c'. (shutdown_step handler ^^ n) c c' \<longrightarrow> n \<le> shutdown_work c) \<and>
    ((\<nexists>c'. shutdown_step handler c c') \<longrightarrow>
       bc_closer c = Shut \<and> bc_senders c = [] \<and> (\<forall>ps \<in> set (bc_consumers c). \<exists>err. snd ps = Returned err))"
proof (intro conjI allI impI)
  have inv: "bus_inv c" and closing: "closing_ok (bc_bus c)" by (rule reachable_inv[OF assms(1,2)], rule reachable_closing[OF assms(1,2)])
  show "n \<le> shutdown_work c" if "(shutdown_step handler ^^ n) c c'" for n c' using shutdown_run_work[OF that inv] by simp
  assume stuck: "\<nexists>c'. shutdown_step handler c c'"
  then show senders: "bc_senders c = []" using sender_can_step[OF assms(3) closing inv] by blast
  then show shut: "bc_closer c = Shut" using stuck closer_can_step[OF _ inv senders] assms(3) by (cases "bc_closer c") auto
  show "\<forall>ps \<in> set (bc_consumers c). \<exists>err. snd ps = Returned err" using stuck consumer_can_step[OF shut inv] by blast
qed

theorem bus_shutdown_terminates_witness: "shutdown_work ex_shut = 0 \<and> (\<nexists>c'. shutdown_step ex_handler ex_shut c')"
proof (intro conjI notI)
  show work: "shutdown_work ex_shut = 0" by (simp add: shutdown_work_def ex_shut_def bus_initial_def Close_end_def Close_begin_def ex_bus_partition)
  assume "\<exists>c'. shutdown_step ex_handler ex_shut c'"
  then obtain c' where "(shutdown_step ex_handler ^^ 1) ex_shut c'" by auto
  moreover have "bc_closer ex_shut \<noteq> Open" by (simp add: ex_shut_def)
  ultimately show False using conjunct1[OF bus_shutdown_terminates[OF ex_bus_new ex_shut_reached]] work by fastforce
qed

end
