(* ===== verification/Batcher.thy ===== *)
theory Batcher
  imports Services "HOL-Library.Sublist"
begin

text \<open>
  The agent's batcher (\<^verbatim>\<open>internal/pipeline\<close>): it collects events into batches, queues them for a sender under an overflow
  strategy, and drains the queue at the end. The collecting goroutine is a function of what its
  \<^verbatim>\<open>select\<close>s observe; the sending goroutine takes batches from the queue at any point between two observations. A locale states what a
  strategy promises, the lemmas on the batcher hold for every strategy that keeps the promise, and the three strategies of the code do.
\<close>

section \<open>Configuration and counters (batcher.go, sender.go)\<close>

type_synonym OverflowPolicy = "8 word"

definition OverflowDropOldest :: OverflowPolicy where "OverflowDropOldest = 0"
definition OverflowDropNewest :: OverflowPolicy where "OverflowDropNewest = 1"
definition OverflowBlock :: OverflowPolicy where "OverflowBlock = 2"

definition defaultShutdownGrace :: duration where "defaultShutdownGrace = 5 * second"

definition ErrInvalidMaxEvents :: error where [go_error_defs]: "ErrInvalidMaxEvents = Err ''pipeline: max events must be positive''"
definition ErrInvalidInterval :: error where [go_error_defs]: "ErrInvalidInterval = Err ''pipeline: max interval must be positive''"
definition ErrInvalidQueueDepth :: error where [go_error_defs]: "ErrInvalidQueueDepth = Err ''pipeline: queue depth must be positive''"

text \<open>\<open>bt_FlushSignal\<close> says whether the caller supplied a flush channel.\<close>

record BatcherConfig =
  bt_DeviceID :: string
  bt_MaxEvents :: int
  bt_MaxInterval :: duration
  bt_QueueDepth :: int
  bt_Policy :: OverflowPolicy
  bt_ShutdownGrace :: duration
  bt_FlushSignal :: bool

definition BatcherConfig_validate :: "BatcherConfig \<Rightarrow> error option" where
  "BatcherConfig_validate c =
     (if bt_DeviceID c = [] then Some ErrMissingDeviceID
      else if bt_MaxEvents c \<le> 0 then Some ErrInvalidMaxEvents
      else if bt_MaxInterval c \<le> 0 \<and> \<not> bt_FlushSignal c then Some ErrInvalidInterval
      else if bt_QueueDepth c \<le> 0 then Some ErrInvalidQueueDepth
      else None)"

record pipeline_counters =
  pc_eventsAccepted :: int
  pc_eventsRejected :: int
  pc_eventsDropped :: int
  pc_batchesEnqueued :: int
  pc_batchesDropped :: int
  pc_batchesSent :: int
  pc_sendFailures :: int

definition zero_counters :: pipeline_counters where
  "zero_counters = \<lparr>pc_eventsAccepted = 0, pc_eventsRejected = 0, pc_eventsDropped = 0, pc_batchesEnqueued = 0, pc_batchesDropped = 0,
     pc_batchesSent = 0, pc_sendFailures = 0\<rparr>"

text \<open>
  The queue channel, with the batches that the sending goroutine has received from it. The sender may receive any number of
  batches before a \<^verbatim>\<open>select\<close> of the collecting goroutine fires: \<open>receive n\<close>.
\<close>

record queue_chan =
  ch_queue :: "Batch list"
  ch_taken :: "Batch list"

definition receive :: "nat \<Rightarrow> queue_chan \<Rightarrow> queue_chan" where
  "receive n ch = \<lparr>ch_queue = drop n (ch_queue ch), ch_taken = ch_taken ch @ take n (ch_queue ch)\<rparr>"

section \<open>Overflow strategies (overflow.go)\<close>

record OverflowOutcome =
  oo_Enqueued :: bool
  oo_Dropped :: "Batch list"

text \<open>
  What a call of a strategy meets: how many batches the sender receives before each of its \<^verbatim>\<open>select\<close>s, and whether the context is done and
  its branch is taken when it is ready. A strategy that blocks forever returns \<open>None\<close>.
\<close>

record enqueue_env =
  ee_first :: nat
  ee_second :: nat
  ee_third :: nat
  ee_done :: bool

type_synonym OverflowStrategy = "int \<Rightarrow> enqueue_env \<Rightarrow> Batch \<Rightarrow> queue_chan \<Rightarrow> (OverflowOutcome \<times> queue_chan) option"

definition has_room :: "int \<Rightarrow> queue_chan \<Rightarrow> bool" where
  "has_room capacity ch \<longleftrightarrow> int (length (ch_queue ch)) < capacity"

definition put :: "Batch \<Rightarrow> queue_chan \<Rightarrow> queue_chan" where
  "put b ch = ch\<lparr>ch_queue := ch_queue ch @ [b]\<rparr>"

definition dropOldest_Enqueue :: OverflowStrategy where
  "dropOldest_Enqueue capacity env b ch =
     (let ch1 = receive (ee_first env) ch
      in if has_room capacity ch1 then Some (\<lparr>oo_Enqueued = True, oo_Dropped = []\<rparr>, put b ch1)
         else let ch2 = receive (ee_second env) ch1
              in case ch_queue ch2 of
                   [] \<Rightarrow> Some (\<lparr>oo_Enqueued = False, oo_Dropped = [b]\<rparr>, ch2)
                 | evicted # rest \<Rightarrow>
                     let ch3 = receive (ee_third env) (ch2\<lparr>ch_queue := rest\<rparr>)
                     in if has_room capacity ch3 then Some (\<lparr>oo_Enqueued = True, oo_Dropped = [evicted]\<rparr>, put b ch3)
                        else Some (\<lparr>oo_Enqueued = False, oo_Dropped = [evicted, b]\<rparr>, ch3))"

definition dropNewest_Enqueue :: OverflowStrategy where
  "dropNewest_Enqueue capacity env b ch =
     (let ch1 = receive (ee_first env) ch
      in if has_room capacity ch1 then Some (\<lparr>oo_Enqueued = True, oo_Dropped = []\<rparr>, put b ch1)
         else Some (\<lparr>oo_Enqueued = False, oo_Dropped = [b]\<rparr>, ch1))"

definition blocking_Enqueue :: OverflowStrategy where
  "blocking_Enqueue capacity env b ch =
     (let ch1 = receive (ee_first env) ch
      in if ee_done env then Some (\<lparr>oo_Enqueued = False, oo_Dropped = [b]\<rparr>, ch1)
         else if has_room capacity ch1 then Some (\<lparr>oo_Enqueued = True, oo_Dropped = []\<rparr>, put b ch1)
         else None)"

definition StrategyFor :: "OverflowPolicy \<Rightarrow> OverflowStrategy" where
  "StrategyFor policy =
     (if policy = OverflowDropNewest then dropNewest_Enqueue
      else if policy = OverflowBlock then blocking_Enqueue
      else dropOldest_Enqueue)"

section \<open>The batcher (batcher.go)\<close>

record Batcher =
  ba_config :: BatcherConfig
  ba_queue :: queue_chan
  ba_stats :: pipeline_counters

definition NewBatcher :: "BatcherConfig \<Rightarrow> error + Batcher" where
  "NewBatcher c =
     (case BatcherConfig_validate c of
        Some err \<Rightarrow> Inl err
      | None \<Rightarrow>
          Inr \<lparr>ba_config = (if bt_ShutdownGrace c \<le> 0 then c\<lparr>bt_ShutdownGrace := defaultShutdownGrace\<rparr> else c),
               ba_queue = \<lparr>ch_queue = [], ch_taken = []\<rparr>, ba_stats = zero_counters\<rparr>)"

definition count_rejected :: "Batcher \<Rightarrow> Batcher" where
  "count_rejected b = b\<lparr>ba_stats := (ba_stats b)\<lparr>pc_eventsRejected := wrap64 (pc_eventsRejected (ba_stats b) + 1)\<rparr>\<rparr>"

definition accept :: "Event \<Rightarrow> Batcher \<Rightarrow> error option \<times> Batcher" where
  "accept e b =
     (case Event_Validate e of
        Some err \<Rightarrow> (Some err, count_rejected b)
      | None \<Rightarrow>
          if ev_DeviceID e \<noteq> bt_DeviceID (ba_config b) then (Some ErrDeviceMismatch, count_rejected b)
          else (None, b\<lparr>ba_stats := (ba_stats b)\<lparr>pc_eventsAccepted := wrap64 (pc_eventsAccepted (ba_stats b) + 1)\<rparr>\<rparr>))"

definition count_dropped :: "pipeline_counters \<Rightarrow> Batch \<Rightarrow> pipeline_counters" where
  "count_dropped st dropped =
     st\<lparr>pc_batchesDropped := wrap64 (pc_batchesDropped st + 1), pc_eventsDropped := wrap64 (pc_eventsDropped st + Batch_Len dropped)\<rparr>"

definition count_outcome :: "OverflowOutcome \<Rightarrow> pipeline_counters \<Rightarrow> pipeline_counters" where
  "count_outcome outcome st =
     (let st1 = (if oo_Enqueued outcome then st\<lparr>pc_batchesEnqueued := wrap64 (pc_batchesEnqueued st + 1)\<rparr> else st)
      in foldl count_dropped st1 (oo_Dropped outcome))"

text \<open>\<open>None\<close> when the strategy blocks.\<close>

definition flush :: "OverflowStrategy \<Rightarrow> enqueue_env \<Rightarrow> time \<Rightarrow> Event list \<Rightarrow> Batcher \<Rightarrow> Batcher option" where
  "flush strategy env now events b =
     (if events = [] then Some b
      else let batch = \<lparr>b_DeviceID = bt_DeviceID (ba_config b), b_CreatedAt = now, b_Events = events\<rparr>
           in case strategy (bt_QueueDepth (ba_config b)) env batch (ba_queue b) of
                None \<Rightarrow> None
              | Some (outcome, ch) \<Rightarrow> Some (b\<lparr>ba_queue := ch, ba_stats := count_outcome outcome (ba_stats b)\<rparr>))"

text \<open>
  What one \<^verbatim>\<open>select\<close> of the collecting loop observes, with what a flush that follows from it meets. The result of the
  loop on the observations so far: it runs on with the pending events, is blocked in a flush, or has returned.
\<close>

datatype observed = CtxDone error | Incoming Event | SourceClosed | Tick

datatype collecting = Running "Event list" | Blocked | Collected "error option"

fun collect_events :: "OverflowStrategy \<Rightarrow> (observed \<times> enqueue_env \<times> time) list \<Rightarrow> Event list \<Rightarrow> Batcher \<Rightarrow> collecting \<times> Batcher" where
  "collect_events strategy [] pending b = (Running pending, b)"
| "collect_events strategy ((ob, env, now) # obs) pending b =
     (case ob of
        CtxDone err \<Rightarrow>
          (case flush strategy env now pending b of None \<Rightarrow> (Blocked, b) | Some b1 \<Rightarrow> (Collected (Some err), b1))
      | SourceClosed \<Rightarrow>
          (case flush strategy env now pending b of None \<Rightarrow> (Blocked, b) | Some b1 \<Rightarrow> (Collected None, b1))
      | Incoming event \<Rightarrow>
          (case accept event b of
             (Some err, b1) \<Rightarrow> collect_events strategy obs pending b1
           | (None, b1) \<Rightarrow>
               let pending1 = pending @ [event]
               in if bt_MaxEvents (ba_config b1) \<le> int (length pending1)
                  then (case flush strategy env now pending1 b1 of None \<Rightarrow> (Blocked, b1) | Some b2 \<Rightarrow> collect_events strategy obs [] b2)
                  else collect_events strategy obs pending1 b1)
      | Tick \<Rightarrow>
          if pending \<noteq> []
          then (case flush strategy env now pending b of None \<Rightarrow> (Blocked, b) | Some b1 \<Rightarrow> collect_events strategy obs [] b1)
          else collect_events strategy obs pending b)"

section \<open>The sender (sender.go)\<close>

text \<open>\<open>cx i\<close> is the drain context at the \<open>i\<close>-th send; the sender goes on when it is cancelled, and the transport sees it.\<close>

fun sender_run :: "(ctx \<Rightarrow> Batch \<Rightarrow> 't \<Rightarrow> error option \<times> 't) \<Rightarrow> (nat \<Rightarrow> ctx) \<Rightarrow> nat \<Rightarrow> Batch list \<Rightarrow> pipeline_counters \<times> 't \<Rightarrow> pipeline_counters \<times> 't" where
  "sender_run transport cx i [] (st, t) = (st, t)"
| "sender_run transport cx i (batch # batches) (st, t) =
     (case transport (cx i) batch t of
        (Some err, t1) \<Rightarrow> sender_run transport cx (Suc i) batches (st\<lparr>pc_sendFailures := wrap64 (pc_sendFailures st + 1)\<rparr>, t1)
      | (None, t1) \<Rightarrow> sender_run transport cx (Suc i) batches (st\<lparr>pc_batchesSent := wrap64 (pc_batchesSent st + 1)\<rparr>, t1))"

text \<open>
  A run to its end: \<open>opened\<close> is the source's answer to \<^verbatim>\<open>Events\<close>. When the collecting loop has returned, the queue is closed and the sender
  goes through what it received and what is left, in order; its sends touch only the transport and the two send counters, so their
  interleaving with the collecting loop does not matter. \<open>None\<close> while the loop has not returned.
\<close>

definition Batcher_Run :: "OverflowStrategy \<Rightarrow> (ctx \<Rightarrow> Batch \<Rightarrow> 't \<Rightarrow> error option \<times> 't) \<Rightarrow> error option \<Rightarrow> (nat \<Rightarrow> ctx)
    \<Rightarrow> (observed \<times> enqueue_env \<times> time) list \<Rightarrow> Batcher \<times> 't \<Rightarrow> (error option \<times> (Batcher \<times> 't)) option" where
  "Batcher_Run strategy transport opened cx obs bt =
     (case opened of
        Some err \<Rightarrow> Some (Some err, bt)
      | None \<Rightarrow>
          (case collect_events strategy obs [] (fst bt) of
             (Collected collectErr, b1) \<Rightarrow>
               let (st, t) = sender_run transport cx 0 (ch_taken (ba_queue b1) @ ch_queue (ba_queue b1)) (ba_stats b1, snd bt)
               in Some (collectErr, (b1\<lparr>ba_stats := st\<rparr>, t))
           | _ \<Rightarrow> None))"

section \<open>What a strategy promises\<close>

text \<open>The batches that went through the queue or are in it, in order.\<close>

definition passed :: "queue_chan \<Rightarrow> Batch list" where "passed ch = ch_taken ch @ ch_queue ch"

lemma passed_receive [simp]: "passed (receive n ch) = passed ch"
  by (simp add: passed_def receive_def)

lemma passed_put [simp]: "passed (put b ch) = passed ch @ [b]"
  by (simp add: passed_def put_def)

lemma queue_put [simp]: "ch_queue (put b ch) = ch_queue ch @ [b]"
  by (simp add: put_def)

lemma receive_bounded: "int (length (ch_queue ch)) \<le> c \<Longrightarrow> int (length (ch_queue (receive n ch))) \<le> c"
  by (simp add: receive_def)

locale overflow_strategy =
  fixes enqueue :: OverflowStrategy
  assumes conserves: "enqueue capacity env b ch = Some (out, ch') \<Longrightarrow> mset (passed ch') + mset (oo_Dropped out) = add_mset b (mset (passed ch))"
    and ordered: "enqueue capacity env b ch = Some (out, ch') \<Longrightarrow> subseq (passed ch') (passed ch @ [b])"
    and bounded: "enqueue capacity env b ch = Some (out, ch') \<Longrightarrow> int (length (ch_queue ch)) \<le> capacity \<Longrightarrow> int (length (ch_queue ch')) \<le> capacity"
begin

lemma passed_old_or_new: "enqueue capacity env b ch = Some (out, ch') \<Longrightarrow> set (passed ch') \<subseteq> insert b (set (passed ch))"
  using conserves[of capacity env b ch out ch'] by (metis Un_upper1 set_mset_add_mset_insert set_mset_mset set_mset_union)

end

locale lossless_strategy = overflow_strategy +
  assumes keeps_all: "enqueue capacity env b ch = Some (out, ch') \<Longrightarrow> \<not> ee_done env \<Longrightarrow> oo_Dropped out = []"
begin

lemma passed_appended:
  assumes "enqueue capacity env b ch = Some (out, ch')" and "\<not> ee_done env"
  shows "passed ch' = passed ch @ [b]"
proof -
  have "size (mset (passed ch')) = size (mset (passed ch @ [b]))" using conserves[OF assms(1)] keeps_all[OF assms] by simp
  then have "length (passed ch') = length (passed ch @ [b])" by simp
  with ordered[OF assms(1)] show ?thesis by (metis subseq_same_length)
qed

end

interpretation drop_newest: overflow_strategy dropNewest_Enqueue
proof
  fix capacity env b ch out ch'
  assume "dropNewest_Enqueue capacity env b ch = Some (out, ch')" and "int (length (ch_queue ch)) \<le> capacity"
  with receive_bounded[of ch capacity "ee_first env"] show "int (length (ch_queue ch')) \<le> capacity"
    by (auto simp: dropNewest_Enqueue_def Let_def has_room_def split: if_splits)
qed (auto simp: dropNewest_Enqueue_def Let_def split: if_splits)

interpretation blocking: lossless_strategy blocking_Enqueue
proof
  fix capacity env b ch out ch'
  assume "blocking_Enqueue capacity env b ch = Some (out, ch')" and "int (length (ch_queue ch)) \<le> capacity"
  with receive_bounded[of ch capacity "ee_first env"] show "int (length (ch_queue ch')) \<le> capacity"
    by (auto simp: blocking_Enqueue_def Let_def has_room_def split: if_splits)
qed (auto simp: blocking_Enqueue_def Let_def split: if_splits)

text \<open>The only strategy that removes a batch from the queue itself, between two receptions of the sender.\<close>

lemma dropOldest_cases:
  assumes "dropOldest_Enqueue capacity env b ch = Some (out, ch')"
  obtains (room) "has_room capacity (receive (ee_first env) ch)" "oo_Dropped out = []" "ch' = put b (receive (ee_first env) ch)"
  | (empty) "oo_Dropped out = [b]" "passed ch' = passed ch" "ch_queue ch' = []"
  | (evicted) x rest taken where "passed ch = taken @ x # rest" "oo_Dropped out = [x]" "passed ch' = taken @ rest @ [b]"
      "int (length (ch_queue ch')) \<le> capacity"
  | (neither) x rest taken where "passed ch = taken @ x # rest" "oo_Dropped out = [x, b]" "passed ch' = taken @ rest" "length (ch_queue ch') \<le> length (ch_queue ch)"
proof -
  let ?ch1 = "receive (ee_first env) ch"
  let ?ch2 = "receive (ee_second env) ?ch1"
  show ?thesis
  proof (cases "has_room capacity ?ch1")
    case True
    with assms show ?thesis by (intro room) (auto simp: dropOldest_Enqueue_def Let_def)
  next
    case False
    show ?thesis
    proof (cases "ch_queue ?ch2")
      case Nil
      with assms False show ?thesis by (intro empty) (auto simp: dropOldest_Enqueue_def Let_def)
    next
      case (Cons x rest)
      let ?ch3 = "receive (ee_third env) (?ch2\<lparr>ch_queue := rest\<rparr>)"
      have all: "passed ch = ch_taken ?ch2 @ x # rest" using Cons by (metis passed_def passed_receive)
      have "passed ?ch3 = passed (?ch2\<lparr>ch_queue := rest\<rparr>)" by (rule passed_receive)
      then have "passed ?ch3 = ch_taken ?ch2 @ rest" by (simp only: passed_def[of "?ch2\<lparr>ch_queue := rest\<rparr>"]) simp
      moreover have "length (ch_queue ?ch3) \<le> length rest" "length rest \<le> length (ch_queue ch)"
        using receive_bounded[of "?ch2\<lparr>ch_queue := rest\<rparr>" "int (length rest)" "ee_third env"]
          receive_bounded[of ?ch1 "int (length (ch_queue ch))" "ee_second env"] receive_bounded[of ch "int (length (ch_queue ch))" "ee_first env"] Cons
        by simp_all
      ultimately show ?thesis using assms False Cons all
        by (cases "has_room capacity ?ch3") (auto simp: dropOldest_Enqueue_def Let_def has_room_def intro: evicted neither)
    qed
  qed
qed

interpretation drop_oldest: overflow_strategy dropOldest_Enqueue
proof
  fix capacity env b ch out ch'
  assume run: "dropOldest_Enqueue capacity env b ch = Some (out, ch')"
  then show "mset (passed ch') + mset (oo_Dropped out) = add_mset b (mset (passed ch))"
    by (cases rule: dropOldest_cases) simp_all
  from run show "subseq (passed ch') (passed ch @ [b])"
    by (cases rule: dropOldest_cases) (auto intro!: list_emb_append_mono)
  assume "int (length (ch_queue ch)) \<le> capacity"
  with run receive_bounded[of ch capacity "ee_first env"] show "int (length (ch_queue ch')) \<le> capacity"
    by (cases rule: dropOldest_cases) (auto simp: has_room_def)
qed

interpretation strategy: overflow_strategy "StrategyFor policy" for policy
  by (simp add: StrategyFor_def drop_newest.overflow_strategy_axioms blocking.overflow_strategy_axioms drop_oldest.overflow_strategy_axioms)

section \<open>The batcher over any strategy\<close>

definition events_of :: "Batch list \<Rightarrow> Event list" where "events_of bs = concat (map b_Events bs)"

definition takes_in :: "BatcherConfig \<Rightarrow> Event \<Rightarrow> bool" where
  "takes_in c e \<longleftrightarrow> valid_event e \<and> ev_DeviceID e = bt_DeviceID c"

definition final_obs :: "observed \<Rightarrow> bool" where
  "final_obs ob \<longleftrightarrow> (case ob of CtxDone err \<Rightarrow> True | SourceClosed \<Rightarrow> True | _ \<Rightarrow> False)"

text \<open>The events that the collecting loop takes in before it returns.\<close>

fun taken_in :: "BatcherConfig \<Rightarrow> (observed \<times> enqueue_env \<times> time) list \<Rightarrow> Event list" where
  "taken_in c [] = []"
| "taken_in c ((ob, env, now) # obs) =
     (if final_obs ob then [] else
      (case ob of Incoming e \<Rightarrow> if takes_in c e then [e] else [] | _ \<Rightarrow> []) @ taken_in c obs)"

definition bt_acct :: "Event list \<Rightarrow> Batcher \<Rightarrow> bool" where
  "bt_acct pending b \<longleftrightarrow>
     wrap64 (pc_eventsAccepted (ba_stats b)) = wrap64 (pc_eventsDropped (ba_stats b) + int (length (events_of (passed (ba_queue b)))) + int (length pending))"

definition bt_shape :: "Batcher \<Rightarrow> bool" where
  "bt_shape b \<longleftrightarrow> int (length (ch_queue (ba_queue b))) \<le> bt_QueueDepth (ba_config b) \<and>
     (\<forall>x \<in> set (passed (ba_queue b)). acceptable (bt_DeviceID (ba_config b)) x \<and> 0 < Batch_Len x \<and> Batch_Len x \<le> bt_MaxEvents (ba_config b))"

definition bt_ready :: "Event list \<Rightarrow> Batcher \<Rightarrow> bool" where
  "bt_ready pending b \<longleftrightarrow> bt_DeviceID (ba_config b) \<noteq> [] \<and> 0 < bt_MaxEvents (ba_config b) \<and> (\<forall>e \<in> set pending. takes_in (ba_config b) e)"

lemma events_of_simps [simp]: "events_of [] = []" "events_of (b # bs) = b_Events b @ events_of bs" "events_of (bs @ bs') = events_of bs @ events_of bs'"
  by (simp_all add: events_of_def)

lemma length_events_of: "int (length (events_of bs)) = sum_mset (image_mset Batch_Len (mset bs))"
  by (induction bs) (simp_all add: Batch_Len_def)

lemma accept_cases:
  assumes "accept e b = (r, b')"
  shows "ba_config b' = ba_config b \<and> ba_queue b' = ba_queue b \<and> pc_eventsDropped (ba_stats b') = pc_eventsDropped (ba_stats b) \<and>
    (r = None \<longleftrightarrow> takes_in (ba_config b) e) \<and>
    pc_eventsAccepted (ba_stats b') = (if r = None then wrap64 (pc_eventsAccepted (ba_stats b) + 1) else pc_eventsAccepted (ba_stats b))"
proof (cases "Event_Validate e")
  case None
  with assms Event_Validate_None[of e] show ?thesis by (auto simp: accept_def takes_in_def count_rejected_def split: if_splits)
next
  case (Some err)
  with assms Event_Validate_None[of e] show ?thesis by (auto simp: accept_def takes_in_def count_rejected_def)
qed

lemma foldl_count_dropped:
  "wrap64 (pc_eventsDropped (foldl count_dropped st ds)) = wrap64 (pc_eventsDropped st + sum_mset (image_mset Batch_Len (mset ds)))
   \<and> pc_eventsAccepted (foldl count_dropped st ds) = pc_eventsAccepted st"
proof (induction ds arbitrary: st)
  case (Cons d ds)
  have "wrap64 (wrap64 (pc_eventsDropped st + Batch_Len d) + x) = wrap64 (pc_eventsDropped st + (Batch_Len d + x))" for x
    by (simp add: wrap64_add_left add.assoc)
  with Cons[of "count_dropped st d"] show ?case by (simp add: count_dropped_def)
qed simp

lemma count_outcome_frame:
  "wrap64 (pc_eventsDropped (count_outcome out st)) = wrap64 (pc_eventsDropped st + sum_mset (image_mset Batch_Len (mset (oo_Dropped out))))"
  "pc_eventsAccepted (count_outcome out st) = pc_eventsAccepted st"
  using foldl_count_dropped[of "if oo_Enqueued out then st\<lparr>pc_batchesEnqueued := wrap64 (pc_batchesEnqueued st + 1)\<rparr> else st" "oo_Dropped out"]
  by (simp_all add: count_outcome_def Let_def split: if_splits)

definition unsent :: "collecting \<Rightarrow> Event list" where
  "unsent r = (case r of Running p \<Rightarrow> p | _ \<Rightarrow> [])"

text \<open>What the collecting loop establishes from the events of \<open>src\<close>.\<close>

definition collected_ok :: "BatcherConfig \<Rightarrow> Event list \<Rightarrow> collecting \<Rightarrow> Batcher \<Rightarrow> bool" where
  "collected_ok c src r b \<longleftrightarrow> ba_config b = c \<and> bt_shape b \<and> (\<exists>p. bt_acct p b \<and> (r \<noteq> Blocked \<longrightarrow> p = unsent r)) \<and>
     int (length (unsent r)) < bt_MaxEvents c \<and> subseq (events_of (passed (ba_queue b)) @ unsent r) src"

lemma collected_mono: "collected_ok c src r b \<Longrightarrow> subseq src src' \<Longrightarrow> collected_ok c src' r b"
  by (auto simp: collected_ok_def intro: subseq_order.order_trans)

lemma collected_blocked:
  "bt_acct p b \<Longrightarrow> bt_shape b \<Longrightarrow> 0 < bt_MaxEvents (ba_config b) \<Longrightarrow> collected_ok (ba_config b) (events_of (passed (ba_queue b)) @ rest) Blocked b"
  by (auto simp: collected_ok_def unsent_def)

lemma accept_keeps:
  assumes "accept e b = (r, b')" and "r = None" and "bt_acct pending b" and "bt_shape b" and "bt_ready pending b" and "int (length pending) < bt_MaxEvents (ba_config b)"
  shows "bt_acct (pending @ [e]) b'" "bt_shape b'" "bt_ready (pending @ [e]) b'" "int (length (pending @ [e])) \<le> bt_MaxEvents (ba_config b')"
proof -
  note ac = accept_cases[OF assms(1)]
  let ?n = "pc_eventsDropped (ba_stats b) + int (length (events_of (passed (ba_queue b)))) + int (length pending)"
  have "wrap64 (pc_eventsAccepted (ba_stats b) + 1) = wrap64 (?n + 1)" using assms(3) by (intro wrap64_add_cong) (simp add: bt_acct_def)
  then show "bt_acct (pending @ [e]) b'" using ac assms(2) by (simp add: bt_acct_def add.assoc add.commute[of "1 :: int"])
qed (use accept_cases[OF assms(1)] assms in \<open>auto simp: bt_shape_def bt_ready_def\<close>)

context overflow_strategy
begin

lemma flush_keeps:
  assumes "flush enqueue env now events b = Some b'" and "bt_acct events b" and "bt_shape b" and "bt_ready events b"
    and "int (length events) \<le> bt_MaxEvents (ba_config b)"
  shows "ba_config b' = ba_config b" and "bt_acct [] b'" and "bt_shape b'"
    and "subseq (events_of (passed (ba_queue b'))) (events_of (passed (ba_queue b)) @ events)"
proof -
  let ?batch = "\<lparr>b_DeviceID = bt_DeviceID (ba_config b), b_CreatedAt = now, b_Events = events\<rparr>"
  have "ba_config b' = ba_config b \<and> bt_acct [] b' \<and> bt_shape b' \<and> subseq (events_of (passed (ba_queue b'))) (events_of (passed (ba_queue b)) @ events)"
  proof (cases "events = []")
    case True
    with assms show ?thesis by (simp add: flush_def)
  next
    case False
    then obtain out ch where run: "enqueue (bt_QueueDepth (ba_config b)) env ?batch (ba_queue b) = Some (out, ch)"
      and b': "b' = b\<lparr>ba_queue := ch, ba_stats := count_outcome out (ba_stats b)\<rparr>"
      using assms(1) by (auto simp: flush_def Let_def split: option.splits)
    let ?len = "\<lambda>bs. sum_mset (image_mset Batch_Len (mset bs))"
    have "?len (passed ch) + ?len (oo_Dropped out) = int (length events) + ?len (passed (ba_queue b))"
      using arg_cong[OF conserves[OF run], of "\<lambda>M. sum_mset (image_mset Batch_Len M)"] by (simp add: Batch_Len_def)
    then have "pc_eventsDropped (ba_stats b) + ?len (oo_Dropped out) + ?len (passed ch) =
        pc_eventsDropped (ba_stats b) + ?len (passed (ba_queue b)) + int (length events)" by simp
    then have "wrap64 (pc_eventsDropped (count_outcome out (ba_stats b)) + ?len (passed ch)) =
        wrap64 (pc_eventsDropped (ba_stats b) + ?len (passed (ba_queue b)) + int (length events))"
      using wrap64_add_cong[OF count_outcome_frame(1)[of out "ba_stats b"], of "?len (passed ch)"] by metis
    then have acct: "bt_acct [] b'" using assms(2) b' by (simp add: bt_acct_def length_events_of count_outcome_frame(2))
    have "acceptable (bt_DeviceID (ba_config b)) ?batch \<and> 0 < Batch_Len ?batch \<and> Batch_Len ?batch \<le> bt_MaxEvents (ba_config b)"
      using assms(4,5) False by (auto simp: acceptable_def bt_ready_def takes_in_def Batch_Len_def)
    then have shp: "bt_shape b'" using assms(3) b' bounded[OF run] passed_old_or_new[OF run] by (auto simp: bt_shape_def)
    have "subseq (events_of (passed ch)) (events_of (passed (ba_queue b) @ [?batch]))"
      using ordered[OF run] unfolding events_of_def by (induction rule: list_emb.induct) (auto intro: list_emb_append_mono list_emb_append2)
    with acct shp b' show ?thesis by simp
  qed
  then show "ba_config b' = ba_config b" "bt_acct [] b'" "bt_shape b'" "subseq (events_of (passed (ba_queue b'))) (events_of (passed (ba_queue b)) @ events)"
    by simp_all
qed

lemma flush_continues:
  assumes fl: "flush enqueue env now ev b = Some b'" and b: "bt_acct ev b" "bt_shape b" "bt_ready ev b" "int (length ev) \<le> bt_MaxEvents (ba_config b)"
    and src: "src = events_of (passed (ba_queue b)) @ ev @ rest"
    and ih: "bt_acct [] b' \<Longrightarrow> bt_shape b' \<Longrightarrow> bt_ready [] b' \<Longrightarrow> 0 < bt_MaxEvents (ba_config b') \<Longrightarrow>
      collected_ok (ba_config b') (events_of (passed (ba_queue b')) @ rest) r b''"
  shows "collected_ok (ba_config b) src r b''"
proof -
  note fk = flush_keeps[OF fl b]
  have "collected_ok (ba_config b) (events_of (passed (ba_queue b')) @ rest) r b''"
    using ih fk b(3) by (simp add: bt_ready_def)
  moreover have "subseq (events_of (passed (ba_queue b')) @ rest) ((events_of (passed (ba_queue b)) @ ev) @ rest)"
    using fk(4) by (intro list_emb_append_mono) auto
  ultimately show ?thesis using src by (auto intro: collected_mono)
qed

lemma flush_stops:
  assumes "(case flush enqueue env now ev b of None \<Rightarrow> (Blocked, b) | Some b1 \<Rightarrow> (Collected e, b1)) = (r, b')"
    and b: "bt_acct ev b" "bt_shape b" "bt_ready ev b" "int (length ev) \<le> bt_MaxEvents (ba_config b)"
    and src: "src = events_of (passed (ba_queue b)) @ ev @ rest"
  shows "collected_ok (ba_config b) src r b'"
proof (cases "flush enqueue env now ev b")
  case None
  with assms show ?thesis by (auto simp: bt_ready_def intro: collected_blocked)
next
  case (Some b1)
  note fk = flush_keeps[OF Some b]
  have "subseq (events_of (passed (ba_queue b1))) ((events_of (passed (ba_queue b)) @ ev) @ rest)" by (rule list_emb_prefix[OF fk(4)])
  with assms(1) Some fk b(3) src show ?thesis by (auto simp: collected_ok_def unsent_def bt_ready_def)
qed

lemma flush_blocks:
  assumes "bt_acct ev b" "bt_shape b" "bt_ready ev b" "src = events_of (passed (ba_queue b)) @ rest"
  shows "collected_ok (ba_config b) src Blocked b"
  using assms by (auto simp: bt_ready_def intro: collected_blocked)

text \<open>One round of the loop: given that the rounds after it keep their events, so do they with a tick or an event in front.\<close>

lemma tick_keeps:
  assumes run: "collect_events enqueue ((Tick, env, now) # obs) pending b = (r, b')"
    and p: "bt_acct pending b" "bt_shape b" "bt_ready pending b" and room: "int (length pending) < bt_MaxEvents (ba_config b)"
    and IH: "\<And>pending b. collect_events enqueue obs pending b = (r, b') \<Longrightarrow> bt_acct pending b \<Longrightarrow> bt_shape b \<Longrightarrow> bt_ready pending b \<Longrightarrow>
      int (length pending) < bt_MaxEvents (ba_config b) \<Longrightarrow>
      collected_ok (ba_config b) (events_of (passed (ba_queue b)) @ pending @ taken_in (ba_config b) obs) r b'"
  shows "collected_ok (ba_config b) (events_of (passed (ba_queue b)) @ pending @ taken_in (ba_config b) ((Tick, env, now) # obs)) r b'"
proof -
  note le = less_imp_le[OF room]
  have tk: "taken_in (ba_config b) ((Tick, env, now) # obs) = taken_in (ba_config b) obs" by (simp add: final_obs_def)
  consider "pending = []" | "pending \<noteq> []" "flush enqueue env now pending b = None" | b2 where "pending \<noteq> []" "flush enqueue env now pending b = Some b2"
    by fastforce
  then show ?thesis
  proof cases
    case 1
    with run p room tk IH[of pending b] show ?thesis by simp
  next
    case 2
    with run have "r = Blocked" "b' = b" by simp_all
    with flush_blocks[OF p refl, of "pending @ taken_in (ba_config b) obs"] tk show ?thesis by simp
  next
    case (3 b2)
    with run have rest: "collect_events enqueue obs [] b2 = (r, b')" by simp
    show ?thesis by (rule flush_continues[OF 3(2) p le]) (use tk IH[OF rest] flush_keeps(1)[OF 3(2) p le] in simp_all)
  qed
qed

lemma event_keeps:
  assumes run: "collect_events enqueue ((Incoming e, env, now) # obs) pending b = (r, b')"
    and p: "bt_acct pending b" "bt_shape b" "bt_ready pending b" "int (length pending) < bt_MaxEvents (ba_config b)"
    and IH: "\<And>pending b. collect_events enqueue obs pending b = (r, b') \<Longrightarrow> bt_acct pending b \<Longrightarrow> bt_shape b \<Longrightarrow> bt_ready pending b \<Longrightarrow>
      int (length pending) < bt_MaxEvents (ba_config b) \<Longrightarrow>
      collected_ok (ba_config b) (events_of (passed (ba_queue b)) @ pending @ taken_in (ba_config b) obs) r b'"
  shows "collected_ok (ba_config b) (events_of (passed (ba_queue b)) @ pending @ taken_in (ba_config b) ((Incoming e, env, now) # obs)) r b'"
proof -
  obtain r1 b1 where acc: "accept e b = (r1, b1)" by fastforce
  note ac = accept_cases[OF acc]
  show ?thesis
  proof (cases r1)
    case (Some err)
    with run p acc ac IH[of pending b1] show ?thesis by (simp add: final_obs_def bt_acct_def bt_shape_def bt_ready_def)
  next
    case None
    note b1 = accept_keeps[OF acc None p]
    have cfg: "ba_config b1 = ba_config b" "ba_queue b1 = ba_queue b" using ac by simp_all
    have tk: "taken_in (ba_config b) ((Incoming e, env, now) # obs) = e # taken_in (ba_config b) obs" using None ac by (simp add: final_obs_def)
    consider "int (length (pending @ [e])) < bt_MaxEvents (ba_config b1)"
      | "bt_MaxEvents (ba_config b1) \<le> int (length (pending @ [e]))" "flush enqueue env now (pending @ [e]) b1 = None"
      | b2 where "bt_MaxEvents (ba_config b1) \<le> int (length (pending @ [e]))" "flush enqueue env now (pending @ [e]) b1 = Some b2"
      by fastforce
    then show ?thesis
    proof cases
      case 1
      with run None acc cfg tk IH[of "pending @ [e]" b1] b1 show ?thesis by (simp add: Let_def)
    next
      case 2
      with run None acc cfg flush_blocks[OF b1(1-3) refl, of "(pending @ [e]) @ taken_in (ba_config b) obs"] tk show ?thesis by (simp add: Let_def)
    next
      case (3 b2)
      with run None acc have rest: "collect_events enqueue obs [] b2 = (r, b')" by (simp add: Let_def)
      have "collected_ok (ba_config b1) (events_of (passed (ba_queue b1)) @ (pending @ [e]) @ taken_in (ba_config b) obs) r b'"
        by (rule flush_continues[OF 3(2) b1 refl]) (use IH[OF rest] flush_keeps(1)[OF 3(2) b1] cfg in simp_all)
      with cfg tk show ?thesis by simp
    qed
  qed
qed

lemma collect_keeps:
  assumes "collect_events enqueue obs pending b = (r, b')" and "bt_acct pending b" and "bt_shape b" and "bt_ready pending b"
    and "int (length pending) < bt_MaxEvents (ba_config b)"
  shows "collected_ok (ba_config b) (events_of (passed (ba_queue b)) @ pending @ taken_in (ba_config b) obs) r b'"
  using assms
proof (induction obs arbitrary: pending b)
  case Nil
  then show ?case by (auto simp: collected_ok_def unsent_def)
next
  case (Cons x obs)
  obtain ob env now where x: "x = (ob, env, now)" by (cases x)
  note p = Cons.prems(2-4) and le = less_imp_le[OF Cons.prems(5)]
  show ?case
  proof (cases ob)
    case (CtxDone err)
    with Cons.prems(1) x show ?thesis by (intro flush_stops[OF _ p le]) simp_all
  next
    case SourceClosed
    with Cons.prems(1) x show ?thesis by (intro flush_stops[OF _ p le]) simp_all
  next
    case Tick
    show ?thesis using Cons.prems(1) unfolding x Tick by (rule tick_keeps[OF _ Cons.prems(2-5) Cons.IH])
  next
    case (Incoming e)
    show ?thesis using Cons.prems(1) unfolding x Incoming by (rule event_keeps[OF _ Cons.prems(2-5) Cons.IH])
  qed
qed

end


context lossless_strategy
begin

lemma flush_exact:
  assumes "flush enqueue env now ev b = Some b'" and "\<not> ee_done env"
  shows "ba_config b' = ba_config b \<and> events_of (passed (ba_queue b')) = events_of (passed (ba_queue b)) @ ev"
  using assms by (auto simp: flush_def Let_def passed_appended split: if_splits option.splits)

text \<open>The same two rounds for a strategy that never drops: what was passed on, followed by what is pending, is what was taken in.\<close>

lemma tick_exact:
  assumes "collect_events enqueue ((Tick, env, now) # obs) pending b = (r, b')" and env: "\<not> ee_done env" and "r \<noteq> Blocked"
    and IH: "\<And>pending b. collect_events enqueue obs pending b = (r, b') \<Longrightarrow>
      events_of (passed (ba_queue b')) @ unsent r = events_of (passed (ba_queue b)) @ pending @ taken_in (ba_config b) obs"
  shows "events_of (passed (ba_queue b')) @ unsent r = events_of (passed (ba_queue b)) @ pending @ taken_in (ba_config b) ((Tick, env, now) # obs)"
proof (cases "pending = []")
  case True
  with assms(1) have "collect_events enqueue obs pending b = (r, b')" by simp
  from IH[OF this] show ?thesis by (simp add: final_obs_def)
next
  case False
  with assms(1,3) obtain b2 where b2: "flush enqueue env now pending b = Some b2" "collect_events enqueue obs [] b2 = (r, b')"
    by (auto split: option.splits)
  from IH[OF b2(2)] flush_exact[OF b2(1) env] show ?thesis by (simp add: final_obs_def)
qed

lemma event_exact:
  assumes "collect_events enqueue ((Incoming e, env, now) # obs) pending b = (r, b')" and env: "\<not> ee_done env" and "r \<noteq> Blocked"
    and IH: "\<And>pending b. collect_events enqueue obs pending b = (r, b') \<Longrightarrow>
      events_of (passed (ba_queue b')) @ unsent r = events_of (passed (ba_queue b)) @ pending @ taken_in (ba_config b) obs"
  shows "events_of (passed (ba_queue b')) @ unsent r = events_of (passed (ba_queue b)) @ pending @ taken_in (ba_config b) ((Incoming e, env, now) # obs)"
proof -
  obtain r1 b1 where acc: "accept e b = (r1, b1)" by fastforce
  note ac = accept_cases[OF acc]
  consider (refused) err where "r1 = Some err"
    | (fits) "r1 = None" "int (length (pending @ [e])) < bt_MaxEvents (ba_config b1)"
    | (full) "r1 = None" "bt_MaxEvents (ba_config b1) \<le> int (length (pending @ [e]))"
    by fastforce
  then show ?thesis
  proof cases
    case refused
    with assms(1) acc ac IH[of pending b1] show ?thesis by (simp add: final_obs_def)
  next
    case fits
    with assms(1) acc have "collect_events enqueue obs (pending @ [e]) b1 = (r, b')" by (simp add: Let_def)
    from IH[OF this] ac fits show ?thesis by (simp add: final_obs_def)
  next
    case full
    with assms(1,3) acc obtain b2 where b2: "flush enqueue env now (pending @ [e]) b1 = Some b2"
      "collect_events enqueue obs [] b2 = (r, b')" by (auto simp: Let_def split: option.splits)
    from IH[OF b2(2)] flush_exact[OF b2(1) env] ac full show ?thesis by (simp add: final_obs_def)
  qed
qed

lemma collect_exact:
  assumes "collect_events enqueue obs pending b = (r, b')" and "list_all (\<lambda>(ob, env, now). \<not> ee_done env) obs" and "r \<noteq> Blocked"
  shows "events_of (passed (ba_queue b')) @ unsent r = events_of (passed (ba_queue b)) @ pending @ taken_in (ba_config b) obs"
  using assms
proof (induction obs arbitrary: pending b)
  case (Cons x obs)
  obtain ob env now where x: "x = (ob, env, now)" by (cases x)
  have env: "\<not> ee_done env" and rest: "list_all (\<lambda>(ob, env, now). \<not> ee_done env) obs" using Cons.prems(2) x by simp_all
  note ih = Cons.IH[OF _ rest Cons.prems(3)] and fl = flush_exact[OF _ env, of now pending b]
  show ?case
  proof (cases ob)
    case (Incoming e)
    show ?thesis using Cons.prems(1) unfolding x Incoming by (rule event_exact[OF _ env Cons.prems(3) ih])
  next
    case Tick
    show ?thesis using Cons.prems(1) unfolding x Tick by (rule tick_exact[OF _ env Cons.prems(3) ih])
  next
    case (CtxDone err)
    with Cons.prems(1,3) x fl show ?thesis by (auto simp: final_obs_def unsent_def split: option.splits)
  next
    case SourceClosed
    with Cons.prems(1,3) x fl show ?thesis by (auto simp: final_obs_def unsent_def split: option.splits)
  qed
qed (auto simp: unsent_def)

end

section \<open>Properties\<close>

lemma NewBatcher_ok:
  assumes "NewBatcher c = Inr b"
  shows "bt_acct [] b" "bt_shape b" "bt_ready [] b" "int (length []) < bt_MaxEvents (ba_config b)" "bt_DeviceID (ba_config b) = bt_DeviceID c"
    "bt_MaxEvents (ba_config b) = bt_MaxEvents c" "bt_QueueDepth (ba_config b) = bt_QueueDepth c" "passed (ba_queue b) = []"
  using assms
  by (auto simp: NewBatcher_def BatcherConfig_validate_def bt_acct_def bt_shape_def bt_ready_def zero_counters_def passed_def split: if_splits)

lemma taken_in_config: "bt_DeviceID c = bt_DeviceID c' \<Longrightarrow> taken_in c obs = taken_in c' obs"
  by (induction c obs rule: taken_in.induct) (auto simp: takes_in_def split: observed.splits)

text \<open>
  Property C21 (the batcher accounts for every event). With any of the overflow policies and however the sender interleaves, the events taken in are those counted
  as dropped, those in the batches that went to the queue and those pending; the batches hold events in the order they came, none is
  empty or larger than configured, the queue is within its depth, and the ingest service finds every batch acceptable for the device.
\<close>

theorem batcher_accounts:
  assumes "NewBatcher c = Inr b0" and "collect_events (StrategyFor policy) obs [] b0 = (r, b)"
  shows "(\<exists>p. (r \<noteq> Blocked \<longrightarrow> p = unsent r) \<and>
      wrap64 (pc_eventsAccepted (ba_stats b)) = wrap64 (pc_eventsDropped (ba_stats b) + int (length (events_of (passed (ba_queue b)))) + int (length p))) \<and>
    subseq (events_of (passed (ba_queue b)) @ unsent r) (taken_in c obs) \<and>
    int (length (ch_queue (ba_queue b))) \<le> bt_QueueDepth c \<and>
    (\<forall>x \<in> set (passed (ba_queue b)). acceptable (bt_DeviceID c) x \<and> 0 < Batch_Len x \<and> Batch_Len x \<le> bt_MaxEvents c)"
proof -
  note new = NewBatcher_ok[OF assms(1)]
  have "collected_ok (ba_config b0) (taken_in c obs) r b"
    using strategy.collect_keeps[OF assms(2) new(1-4)] new(8) taken_in_config[OF new(5)] by simp
  then show ?thesis using new(5-7) by (auto simp: collected_ok_def bt_acct_def bt_shape_def)
qed

definition ex_event :: "string \<Rightarrow> Event" where
  "ex_event u = \<lparr>ev_DeviceID = ''d'', ev_UserID = u, ev_ProcessID = 1, ev_PodID = [], ev_Kind = 1, ev_ObservedAt = 5, ev_LatencyNanos = 7, ev_Bytes = 9, ev_Failed = False\<rparr>"

definition ex_batcher_config :: BatcherConfig where
  "ex_batcher_config = \<lparr>bt_DeviceID = ''d'', bt_MaxEvents = 2, bt_MaxInterval = 1, bt_QueueDepth = 1, bt_Policy = OverflowBlock, bt_ShutdownGrace = 0, bt_FlushSignal = False\<rparr>"

definition ex_calm :: enqueue_env where "ex_calm = \<lparr>ee_first = 0, ee_second = 0, ee_third = 0, ee_done = False\<rparr>"

definition ex_obs :: "(observed \<times> enqueue_env \<times> time) list" where
  "ex_obs = [(Incoming (ex_event ''u''), ex_calm, 1), (Incoming (ex_event []), ex_calm, 2), (Incoming (ex_event ''v''), ex_calm, 3), (SourceClosed, ex_calm, 4)]"

definition ex_batcher :: Batcher where
  "ex_batcher = \<lparr>ba_config = ex_batcher_config\<lparr>bt_ShutdownGrace := defaultShutdownGrace\<rparr>, ba_queue = \<lparr>ch_queue = [], ch_taken = []\<rparr>, ba_stats = zero_counters\<rparr>"

lemma ex_batcher_new: "NewBatcher ex_batcher_config = Inr ex_batcher"
  by (simp add: NewBatcher_def BatcherConfig_validate_def ex_batcher_config_def ex_batcher_def)

lemma ex_taken_in: "taken_in ex_batcher_config ex_obs = [ex_event ''u'', ex_event ''v'']"
  by (simp add: ex_obs_def final_obs_def takes_in_def ex_batcher_config_def ex_event_def valid_event_def IsZero_def zero_time_def)

theorem batcher_accounts_witness:
  "subseq (events_of (passed (ba_queue (snd (collect_events (StrategyFor OverflowDropNewest) ex_obs [] ex_batcher)))) @
     unsent (fst (collect_events (StrategyFor OverflowDropNewest) ex_obs [] ex_batcher))) [ex_event ''u'', ex_event ''v'']"
  using batcher_accounts[OF ex_batcher_new, of OverflowDropNewest ex_obs "fst (collect_events (StrategyFor OverflowDropNewest) ex_obs [] ex_batcher)"
    "snd (collect_events (StrategyFor OverflowDropNewest) ex_obs [] ex_batcher)"] by (simp add: ex_taken_in)

text \<open>A transport that keeps a log of the batches it is given.\<close>

definition recording :: "(ctx \<Rightarrow> Batch \<Rightarrow> 't \<Rightarrow> error option \<times> 't) \<Rightarrow> ctx \<Rightarrow> Batch \<Rightarrow> 't \<times> Batch list \<Rightarrow> error option \<times> ('t \<times> Batch list)" where
  "recording transport cx b tr = (case transport cx b (fst tr) of (e, t) \<Rightarrow> (e, (t, snd tr @ [b])))"

lemma sender_run_log:
  assumes "sender_run (recording transport) cx i batches (st, (t, lg)) = (st', (t', lg'))"
  shows "lg' = lg @ batches \<and> wrap64 (pc_batchesSent st' + pc_sendFailures st') = wrap64 (pc_batchesSent st + pc_sendFailures st + int (length batches))"
  using assms
proof (induction batches arbitrary: i st t lg)
  case (Cons b bs)
  obtain e t1 where run: "transport (cx i) b t = (e, t1)" by fastforce
  have rec: "recording transport (cx i) b (t, lg) = (e, (t1, lg @ [b]))" using run by (simp add: recording_def)
  let ?st = "case e of Some err \<Rightarrow> st\<lparr>pc_sendFailures := wrap64 (pc_sendFailures st + 1)\<rparr> | None \<Rightarrow> st\<lparr>pc_batchesSent := wrap64 (pc_batchesSent st + 1)\<rparr>"
  have "sender_run (recording transport) cx (Suc i) bs (?st, (t1, lg @ [b])) = (st', (t', lg'))"
    using Cons.prems rec by (cases e) simp_all
  note ih = Cons.IH[OF this]
  have "wrap64 (pc_batchesSent ?st + pc_sendFailures ?st) = wrap64 (pc_batchesSent st + pc_sendFailures st + 1)"
    by (cases e) (simp_all add: wrap_simps algebra_simps)
  from wrap64_add_cong[OF this, of "int (length bs)"] ih show ?case by (simp add: algebra_simps)
qed simp

text \<open>The collecting goroutine leaves the sender's counters alone.\<close>

definition sends :: "Batcher \<Rightarrow> int \<times> int" where "sends b = (pc_batchesSent (ba_stats b), pc_sendFailures (ba_stats b))"

lemma foldl_count_dropped_sends:
  "pc_batchesSent (foldl count_dropped st ds) = pc_batchesSent st \<and> pc_sendFailures (foldl count_dropped st ds) = pc_sendFailures st"
  by (induction ds arbitrary: st) (simp_all add: count_dropped_def)

lemma flush_sends: "flush strategy env now ev b = Some b' \<Longrightarrow> sends b' = sends b"
  by (auto simp: flush_def Let_def sends_def count_outcome_def foldl_count_dropped_sends split: if_splits option.splits)

lemma accept_sends: "sends (snd (accept e b)) = sends b"
  by (simp add: accept_def count_rejected_def sends_def split: option.split)

lemma collect_sends: "collect_events strategy obs pending b = (r, b') \<Longrightarrow> sends b' = sends b"
proof (induction obs arbitrary: pending b)
  case (Cons x obs)
  obtain ob env now where x: "x = (ob, env, now)" by (cases x)
  show ?case
  proof (cases ob)
    case (Incoming e)
    obtain r1 b1 where acc: "accept e b = (r1, b1)" by fastforce
    have s1: "sends b1 = sends b" using accept_sends[of e b] acc by simp
    consider "collect_events strategy obs pending b1 = (r, b')" | "collect_events strategy obs (pending @ [e]) b1 = (r, b')" | "b' = b1"
      | b2 where "flush strategy env now (pending @ [e]) b1 = Some b2" "collect_events strategy obs [] b2 = (r, b')"
      using Cons.prems Incoming x acc by (cases r1) (auto simp: Let_def split: if_splits option.splits)
    then show ?thesis by cases (use s1 flush_sends Cons.IH in metis)+
  next
    case Tick
    consider "collect_events strategy obs pending b = (r, b')" | "b' = b"
      | b2 where "flush strategy env now pending b = Some b2" "collect_events strategy obs [] b2 = (r, b')"
      using Cons.prems Tick x by (auto split: if_splits option.splits)
    then show ?thesis by cases (use flush_sends Cons.IH in metis)+
  qed (use Cons.prems x flush_sends[of strategy env now pending b] in \<open>auto split: option.splits\<close>)
qed simp


definition ex_transport_ok :: "ctx \<Rightarrow> Batch \<Rightarrow> unit \<Rightarrow> error option \<times> unit" where "ex_transport_ok cx b t = (None, t)"

lemma ex_run_returns:
  "\<exists>r b t sent. Batcher_Run (StrategyFor OverflowBlock) (recording ex_transport_ok) None (\<lambda>_. None) ex_obs (ex_batcher, ((), [])) = Some (r, (b, (t, sent)))"
  by (simp add: Batcher_Run_def ex_obs_def StrategyFor_def OverflowBlock_def OverflowDropNewest_def accept_def Event_Validate_def ex_event_def EventKind_Valid_iff
    IsZero_def zero_time_def ex_batcher_def ex_batcher_config_def flush_def Let_def blocking_Enqueue_def ex_calm_def receive_def has_room_def put_def count_rejected_def
    split: prod.split)


end
