(* ===== verification/GoTime.thy ===== *)
theory GoTime
  imports GoStrings
begin

text \<open>
  Instants as text: the layout \<^verbatim>\<open>time.RFC3339\<close> of Go's \<^verbatim>\<open>time\<close> package, as the program uses it, in UTC and without fractions of a second. Days are counted in the
  proleptic Gregorian calendar. The lemma says that parsing gives the instant back, cut to the second.
\<close>

section \<open>The calendar\<close>

definition leap :: "int \<Rightarrow> bool" where
  "leap y \<longleftrightarrow> (4 dvd y \<and> \<not> 100 dvd y) \<or> 400 dvd y"

text \<open>The days from 1 January of the year 0 to 1 January of a year.\<close>

definition days_before :: "int \<Rightarrow> int" where
  "days_before y = 365 * y + (y + 3) div 4 - (y + 99) div 100 + (y + 399) div 400"

definition year_of :: "int \<Rightarrow> int" where
  "year_of d =
     (let y = (400 * d) div 146097
      in if d < days_before y then y - 1 else if days_before (y + 1) \<le> d then y + 1 else y)"

definition month_starts :: "bool \<Rightarrow> int list" where
  "month_starts lp = (let x = (if lp then 1 else 0) in [0, 31, 59 + x, 90 + x, 120 + x, 151 + x, 181 + x, 212 + x, 243 + x, 273 + x, 304 + x, 334 + x])"

definition month_of :: "bool \<Rightarrow> int \<Rightarrow> nat" where
  "month_of lp day = length (filter (\<lambda>start. start \<le> day) (month_starts lp))"

lemma div_bounds: "0 < k \<Longrightarrow> k * (x div k) \<le> x \<and> x < k * (x div k) + k" for x k :: int
  using pos_mod_bound[of k x] pos_mod_sign[of k x] mult_div_mod_eq[of k x] by linarith

lemma div_unique: "0 < k \<Longrightarrow> k * q \<le> x \<Longrightarrow> x < k * q + k \<Longrightarrow> x div k = q" for x k q :: int
  by (rule int_div_pos_eq[of x k q "x - k * q"]) auto

lemma days_before_bounds: "146097 * y - 800 \<le> 400 * days_before y \<and> 400 * days_before y \<le> 146097 * y + 1200"
proof -
  define a b c where "a = (y + 3) div 4" and "b = (y + 99) div 100" and "c = (y + 399) div 400"
  have "4 * a \<le> y + 3" "y + 3 < 4 * a + 4" "100 * b \<le> y + 99" "y + 99 < 100 * b + 100" "400 * c \<le> y + 399" "y + 399 < 400 * c + 400"
    unfolding a_def b_def c_def using div_bounds[of 4 "y + 3"] div_bounds[of 100 "y + 99"] div_bounds[of 400 "y + 399"] by simp_all
  moreover have "days_before y = 365 * y + a - b + c" by (simp add: days_before_def a_def b_def c_def)
  ultimately show ?thesis by linarith
qed

lemma year_of_bounds: "days_before (year_of d) \<le> d \<and> d < days_before (year_of d + 1)"
proof -
  define y where "y = (400 * d) div 146097"
  have y: "146097 * y \<le> 400 * d" "400 * d < 146097 * y + 146097" unfolding y_def using div_bounds[of 146097 "400 * d"] by simp_all
  have "400 * days_before (y - 1) \<le> 400 * d" using conjunct2[OF days_before_bounds[of "y - 1"]] y(1) by (simp only: right_diff_distrib)
  then have "days_before (y - 1) \<le> d" by simp
  moreover have "400 * d < 400 * days_before (y + 2)" using conjunct1[OF days_before_bounds[of "y + 2"]] y(2) by (simp only: distrib_left)
  then have "d < days_before (y + 2)" by simp
  ultimately show ?thesis unfolding year_of_def Let_def y_def[symmetric] by (simp add: not_less add.assoc)
qed

lemma div_next: "0 < k \<Longrightarrow> (x + k) div k = (x + k - 1) div k + (if k dvd x then 1 else 0)" for x k :: int
proof -
  assume k: "0 < k"
  show ?thesis
  proof (cases "k dvd x")
    case True
    then obtain q where q: "x = k * q" by (rule dvdE)
    have "(x + k) div k = q + 1" by (rule div_unique[OF k]) (simp_all add: q algebra_simps k)
    moreover have "(x + k - 1) div k = q" by (rule div_unique[OF k]) (use k in \<open>simp_all add: q algebra_simps\<close>)
    ultimately show ?thesis using True by simp
  next
    case False
    let ?q = "x div k"
    have "k * ?q \<noteq> x" using False by (metis dvd_triv_left)
    then have b: "k * ?q < x" "x < k * ?q + k" using div_bounds[OF k, of x] by linarith+
    have "(x + k) div k = ?q + 1" by (rule div_unique[OF k]) (use b in \<open>simp_all add: algebra_simps\<close>)
    moreover have "(x + k - 1) div k = ?q + 1" by (rule div_unique[OF k]) (use b in \<open>simp_all add: algebra_simps\<close>)
    ultimately show ?thesis using False by simp
  qed
qed

lemma year_length: "days_before (y + 1) = days_before y + (if leap y then 366 else 365)"
proof -
  have dvds: "100 dvd y" if "400 dvd y" using dvd_trans[of 100 400 y] that by simp
  have dvds4: "4 dvd y" if "100 dvd y" using dvd_trans[of 4 100 y] that by simp
  have "(y + 1 + 3) div 4 = (y + 3) div 4 + (if 4 dvd y then 1 else 0)" using div_next[of 4 y] by (simp add: add.commute)
  moreover have "(y + 1 + 99) div 100 = (y + 99) div 100 + (if 100 dvd y then 1 else 0)" using div_next[of 100 y] by (simp add: add.commute)
  moreover have "(y + 1 + 399) div 400 = (y + 399) div 400 + (if 400 dvd y then 1 else 0)" using div_next[of 400 y] by (simp add: add.commute)
  ultimately have "days_before (y + 1) = days_before y + 365 + (if 4 dvd y then 1 else 0) - (if 100 dvd y then 1 else 0) + (if 400 dvd y then 1 else 0)"
    unfolding days_before_def distrib_left by linarith
  then show ?thesis using dvds dvds4 unfolding leap_def by (cases "400 dvd y"; cases "100 dvd y"; cases "4 dvd y") simp_all
qed

text \<open>The month and the day of the month of a day of the year, both counted from 0 here.\<close>

definition days_in :: "bool \<Rightarrow> int \<Rightarrow> int" where
  "days_in lp m = (if m = 2 then (if lp then 29 else 28) else if m \<in> {4, 6, 9, 11} then 30 else 31)"

lemma month_of_bounds:
  assumes "0 \<le> day" and "day < (if lp then 366 else 365)"
  shows "1 \<le> month_of lp day \<and> month_of lp day \<le> 12 \<and> month_starts lp ! (month_of lp day - 1) \<le> day \<and>
    day - month_starts lp ! (month_of lp day - 1) + 1 \<le> days_in lp (int (month_of lp day))"
proof -
  define x :: int where "x = (if lp then 1 else 0)"
  have x: "0 \<le> x" "x \<le> 1" "day < 365 + x" using assms(2) by (simp_all add: x_def split: if_splits)
  have starts: "month_starts lp = [0, 31, 59 + x, 90 + x, 120 + x, 151 + x, 181 + x, 212 + x, 243 + x, 273 + x, 304 + x, 334 + x]"
    by (simp add: month_starts_def x_def)
  have days: "days_in lp m = (if m = 2 then 28 + x else if m \<in> {4, 6, 9, 11} then 30 else 31)" for m by (simp add: days_in_def x_def)
  consider "day < 31" | "31 \<le> day \<and> day < 59 + x" | "59 + x \<le> day \<and> day < 90 + x" | "90 + x \<le> day \<and> day < 120 + x" | "120 + x \<le> day \<and> day < 151 + x"
    | "151 + x \<le> day \<and> day < 181 + x" | "181 + x \<le> day \<and> day < 212 + x" | "212 + x \<le> day \<and> day < 243 + x" | "243 + x \<le> day \<and> day < 273 + x"
    | "273 + x \<le> day \<and> day < 304 + x" | "304 + x \<le> day \<and> day < 334 + x" | "334 + x \<le> day" by linarith
  then show ?thesis using assms(1) x by cases (simp_all add: month_of_def starts days)
qed

section \<open>Format and parse\<close>

definition pad :: "nat \<Rightarrow> int \<Rightarrow> string" where
  "pad w n =
     (let ds = digits (nat \<bar>n\<bar>) in (if n < 0 then ''-'' else []) @ replicate (w - length ds) (CHR ''0'') @ ds)"

definition FormatRFC3339 :: "time \<Rightarrow> string" where
  "FormatRFC3339 t =
     (let secs = t div second; day = secs div 86400 + 719528; s = secs mod 86400;
          y = year_of day; yday = day - days_before y; m = month_of (leap y) yday
      in pad 4 y @ ''-'' @ pad 2 (int m) @ ''-'' @ pad 2 (yday - month_starts (leap y) ! (m - 1) + 1) @ ''T'' @
         pad 2 (s div 3600) @ '':'' @ pad 2 (s div 60 mod 60) @ '':'' @ pad 2 (s mod 60) @ ''Z'')"

text \<open>Of the forms \<^verbatim>\<open>time.Parse\<close> accepts, the one \<^verbatim>\<open>Format\<close> writes.\<close>

definition field :: "nat \<Rightarrow> nat \<Rightarrow> string \<Rightarrow> int" where
  "field i w s = int (digits_val (take w (drop i s)))"

definition ParseRFC3339 :: "string \<Rightarrow> time option" where
  "ParseRFC3339 s =
     (if length s = 20 \<and> map ((!) s) [4, 7, 10, 13, 16, 19] = ''--T::Z'' \<and> list_all (\<lambda>i. is_digit (s ! i)) [0, 1, 2, 3, 5, 6, 8, 9, 11, 12, 14, 15, 17, 18] then
        let y = field 0 4 s; m = field 5 2 s; d = field 8 2 s; hh = field 11 2 s; mm = field 14 2 s; ss = field 17 2 s
        in if 1 \<le> m \<and> m \<le> 12 \<and> 1 \<le> d \<and> d \<le> days_in (leap y) m \<and> hh < 24 \<and> mm < 60 \<and> ss < 60
           then Some (((days_before y + month_starts (leap y) ! (nat m - 1) + d - 1 - 719528) * 86400 + hh * 3600 + mm * 60 + ss) * second)
           else None
      else None)"

lemma pad_fixed:
  assumes "0 \<le> n" and "n < 10 ^ w" and "0 < w"
  shows "length (pad w n) = w" and "\<forall>c \<in> set (pad w n). is_digit c" and "int (digits_val (pad w n)) = n"
proof -
  have "nat \<bar>n\<bar> < 10 ^ w" using assms(1,2) by (simp add: nat_less_iff)
  from length_digits_bound[OF this assms(3)] show "length (pad w n) = w" using assms(1) by (simp add: pad_def Let_def)
  show "\<forall>c \<in> set (pad w n). is_digit c" using digits_all_digit assms(1) by (auto simp: pad_def Let_def)
  show "int (digits_val (pad w n)) = n" using assms(1) by (simp add: pad_def Let_def)
qed

lemma two_chars: "length s = 2 \<Longrightarrow> \<exists>a b. s = [a, b]"
  by (cases s; cases "tl s"; cases "tl (tl s)") auto

lemma four_chars: "length s = 4 \<Longrightarrow> \<exists>a b c d. s = [a, b, c, d]"
  using two_chars[of "take 2 s"] two_chars[of "drop 2 s"] append_take_drop_id[of 2 s] by fastforce

lemma Parse_fields:
  assumes "length ys = 4" and "length ms = 2" and "length ds = 2" and "length hs = 2" and "length ns = 2" and "length ss = 2"
    and "\<forall>c \<in> set (ys @ ms @ ds @ hs @ ns @ ss). is_digit c"
  shows "ParseRFC3339 (ys @ ''-'' @ ms @ ''-'' @ ds @ ''T'' @ hs @ '':'' @ ns @ '':'' @ ss @ ''Z'') =
    (let y = int (digits_val ys); m = int (digits_val ms); d = int (digits_val ds); hh = int (digits_val hs); mm = int (digits_val ns); sc = int (digits_val ss)
     in if 1 \<le> m \<and> m \<le> 12 \<and> 1 \<le> d \<and> d \<le> days_in (leap y) m \<and> hh < 24 \<and> mm < 60 \<and> sc < 60
        then Some (((days_before y + month_starts (leap y) ! (nat m - 1) + d - 1 - 719528) * 86400 + hh * 3600 + mm * 60 + sc) * second)
        else None)"
proof -
  obtain y1 y2 y3 y4 where y: "ys = [y1, y2, y3, y4]" using four_chars[OF assms(1)] by blast
  obtain m1 m2 where m: "ms = [m1, m2]" using two_chars[OF assms(2)] by blast
  obtain d1 d2 where d: "ds = [d1, d2]" using two_chars[OF assms(3)] by blast
  obtain h1 h2 where h: "hs = [h1, h2]" using two_chars[OF assms(4)] by blast
  obtain n1 n2 where n: "ns = [n1, n2]" using two_chars[OF assms(5)] by blast
  obtain s1 s2 where s: "ss = [s1, s2]" using two_chars[OF assms(6)] by blast
  show ?thesis using assms(7) unfolding ParseRFC3339_def y m d h n s field_def by (simp add: numeral_eq_Suc)
qed

definition four_digit_year :: "time \<Rightarrow> bool" where
  "four_digit_year t \<longleftrightarrow> (let y = year_of (t div second div 86400 + 719528) in 0 \<le> y \<and> y < 10000)"

lemma Parse_Format:
  assumes "four_digit_year t"
  shows "ParseRFC3339 (FormatRFC3339 t) = Some (t div second * second)"
proof -
  define secs where "secs = t div second"
  define day where "day = secs div 86400 + 719528"
  define s where "s = secs mod 86400"
  define y where "y = year_of day"
  define yday where "yday = day - days_before y"
  define m where "m = month_of (leap y) yday"
  define dom where "dom = yday - month_starts (leap y) ! (m - 1) + 1"
  have y4: "0 \<le> y" "y < 10 ^ 4" using assms by (simp_all add: four_digit_year_def y_def day_def secs_def Let_def)
  have yd: "0 \<le> yday" "yday < (if leap y then 366 else 365)" using year_of_bounds[of day] year_length[of y] by (simp_all add: yday_def y_def)
  note mr = month_of_bounds[OF yd, folded m_def]
  then have md: "dom \<le> days_in (leap y) (int m)" by (simp add: dom_def)
  have "days_in (leap y) (int m) \<le> 31" by (simp add: days_in_def)
  with mr md have dm: "1 \<le> dom" "dom < 10 ^ 2" by (simp_all add: dom_def)
  have s: "0 \<le> s" "s < 86400" by (simp_all add: s_def)
  have hms: "0 \<le> s div 3600" "s div 3600 < 24" "0 \<le> s div 60 mod 60" "s div 60 mod 60 < 60" "0 \<le> s mod 60" "s mod 60 < 60" using s by (auto simp: int_div_less_self)
  have m2: "0 \<le> int m" "int m < 10 ^ 2" "1 \<le> int m" "int m \<le> 12" using mr by simp_all
  have h2: "s div 3600 < 10 ^ 2" "s div 60 mod 60 < 10 ^ 2" "s mod 60 < 10 ^ 2" "0 \<le> dom" using hms dm by simp_all
  have w: "0 < (4 :: nat)" "0 < (2 :: nat)" by simp_all
  note py = pad_fixed[OF y4 w(1)] and pm = pad_fixed[OF m2(1,2) w(2)] and pd = pad_fixed[OF h2(4) dm(2) w(2)]
    and ph = pad_fixed[OF hms(1) h2(1) w(2)] and pn = pad_fixed[OF hms(3) h2(2) w(2)] and ps = pad_fixed[OF hms(5) h2(3) w(2)]
  have "s div 3600 = s div 60 div 60" by (simp add: zdiv_zmult2_eq[symmetric])
  then have sum: "s div 3600 * 3600 + s div 60 mod 60 * 60 + s mod 60 = s"
    using div_mult_mod_eq[of "s div 60" 60] div_mult_mod_eq[of s 60] by linarith
  have "\<forall>c \<in> set (pad 4 y @ pad 2 (int m) @ pad 2 dom @ pad 2 (s div 3600) @ pad 2 (s div 60 mod 60) @ pad 2 (s mod 60)). is_digit c"
    using py(2) pm(2) pd(2) ph(2) pn(2) ps(2) unfolding set_append by blast
  note parse = Parse_fields[OF py(1) pm(1) pd(1) ph(1) pn(1) ps(1) this, unfolded py(3) pm(3) pd(3) ph(3) pn(3) ps(3) Let_def]
  have "FormatRFC3339 t = pad 4 y @ ''-'' @ pad 2 (int m) @ ''-'' @ pad 2 dom @ ''T'' @ pad 2 (s div 3600) @ '':'' @ pad 2 (s div 60 mod 60) @ '':'' @ pad 2 (s mod 60) @ ''Z''"
    unfolding FormatRFC3339_def Let_def secs_def[symmetric] day_def[symmetric] s_def[symmetric] y_def[symmetric] yday_def[symmetric] m_def[symmetric] dom_def[symmetric] by (rule refl)
  then have "ParseRFC3339 (FormatRFC3339 t) =
      Some (((days_before y + month_starts (leap y) ! (nat (int m) - 1) + dom - 1 - 719528) * 86400 + s div 3600 * 3600 + s div 60 mod 60 * 60 + s mod 60) * second)"
    using parse m2 dm(1) md hms by simp
  also have "(days_before y + month_starts (leap y) ! (nat (int m) - 1) + dom - 1 - 719528) * 86400 + s div 3600 * 3600 + s div 60 mod 60 * 60 + s mod 60 = secs"
  proof -
    have "days_before y + month_starts (leap y) ! (nat (int m) - 1) + dom - 1 - 719528 = secs div 86400" by (simp add: dom_def yday_def day_def)
    moreover have "secs div 86400 * 86400 + s = secs" unfolding s_def by (rule div_mult_mod_eq)
    ultimately show ?thesis using sum by (simp only: add.assoc)
  qed
  finally show ?thesis by (simp add: secs_def)
qed

end
