(* ===== verification/McpTools.thy ===== *)
theory McpTools
  imports Services GoTime
begin

text \<open>
  The MCP server's tools (\<^verbatim>\<open>internal/mcpserver\<close>): principals and authorisation, the five tools with their guards in order,
  the limit on concurrent watches, static bearer tokens, and the wrapping of results. The ports the tools call are
  arguments, the text of a duration is a parameter. The lemmas say whose data a caller can reach and which commands it can issue.
\<close>

section \<open>Principals (principal.go)\<close>

definition ErrUnauthenticated :: error where [go_error_defs]: "ErrUnauthenticated = Err ''mcpserver: request carries no authenticated principal''"
definition ErrForbidden :: error where [go_error_defs]: "ErrForbidden = Err ''mcpserver: principal may not access this user's telemetry''"

definition ScopeAdmin :: string where "ScopeAdmin = ''ironclaw:admin''"

record Principal =
  p_UserID :: string
  p_Scopes :: "string list"

record TokenInfo =
  ti_UserID :: string
  ti_Scopes :: "string list"
  ti_Expiration :: time

fun has_scope :: "string list \<Rightarrow> string \<Rightarrow> bool" where
  "has_scope [] name = False"
| "has_scope (scope # scopes) name = (if scope = name then True else has_scope scopes name)"

definition hasScope :: "Principal \<Rightarrow> string \<Rightarrow> bool" where
  "hasScope p name = has_scope (p_Scopes p) name"

definition mayAccess :: "Principal \<Rightarrow> string \<Rightarrow> bool" where
  "mayAccess p userID = (if hasScope p ScopeAdmin then True else p_UserID p \<noteq> [] \<and> p_UserID p = userID)"

text \<open>What the tools read of a request's context: its error, a principal put there, and the token information of the authentication middleware.\<close>

record tool_ctx =
  tc_err :: ctx
  tc_principal :: "Principal option"
  tc_token :: "TokenInfo option"

definition ContextWithPrincipal :: "tool_ctx \<Rightarrow> Principal \<Rightarrow> tool_ctx" where
  "ContextWithPrincipal cx p = cx\<lparr>tc_principal := Some p\<rparr>"

definition PrincipalFrom :: "tool_ctx \<Rightarrow> Principal option" where
  "PrincipalFrom cx =
     (case tc_principal cx of
        Some p \<Rightarrow> Some p
      | None \<Rightarrow>
          (case tc_token cx of
             None \<Rightarrow> None
           | Some info \<Rightarrow> Some \<lparr>p_UserID = ti_UserID info, p_Scopes = ti_Scopes info\<rparr>))"

definition authorise :: "bool \<Rightarrow> tool_ctx \<Rightarrow> string \<Rightarrow> error option" where
  "authorise requireAuth cx userID =
     (case PrincipalFrom cx of
        None \<Rightarrow> if requireAuth then Some ErrUnauthenticated else None
      | Some p \<Rightarrow>
          if \<not> mayAccess p userID
          then Some (Wrap (''principal '' @ p_UserID p @ '' requested '' @ userID) ErrForbidden)
          else None)"

section \<open>Inputs, outputs and limits (tools.go)\<close>

definition ErrNilStateReader :: error where [go_error_defs]: "ErrNilStateReader = Err ''mcpserver: device state reader is not configured''"
definition ErrNilDeviceLister :: error where [go_error_defs]: "ErrNilDeviceLister = Err ''mcpserver: user device lister is not configured''"
definition ErrNilMetricsReader :: error where [go_error_defs]: "ErrNilMetricsReader = Err ''mcpserver: pipeline metrics reader is not configured''"
definition ErrToolMissingUserID :: error where [go_error_defs]: "ErrToolMissingUserID = Err ''mcpserver: user id is required''"
definition ErrToolMissingDevice :: error where [go_error_defs]: "ErrToolMissingDevice = Err ''mcpserver: device id is required''"
definition ErrToolMissingActor :: error where [go_error_defs]: "ErrToolMissingActor = Err ''mcpserver: actor is required''"
definition ErrWritesDisabled :: error where [go_error_defs]: "ErrWritesDisabled = Err ''mcpserver: command publishing is not configured''"
definition ErrNilDeviceWatcher :: error where [go_error_defs]: "ErrNilDeviceWatcher = Err ''mcpserver: device watcher is not configured''"
definition ErrWatchClosed :: error where [go_error_defs]: "ErrWatchClosed = Err ''mcpserver: device watch closed before an update arrived''"
definition ErrIdentifierTooLong :: error where [go_error_defs]: "ErrIdentifierTooLong = Err ''mcpserver: identifier exceeds the maximum length''"
definition ErrIdentifierInvalid :: error where [go_error_defs]: "ErrIdentifierInvalid = Err ''mcpserver: identifier contains a control character''"
definition ErrTooManyWatches :: error where
  [go_error_defs]: "ErrTooManyWatches = Err ''mcpserver: too many concurrent device watches on this server; retry shortly''"

record DeviceStateInput =
  dsi_UserID :: string
  dsi_DeviceID :: string

record DeviceStateOutput =
  dso_UserID :: string
  dso_DeviceID :: string
  dso_Count :: int
  dso_ErrorCount :: int
  dso_Bytes :: int
  dso_P95Nanos :: int
  dso_P99Nanos :: int
  dso_LastWindowID :: int
  dso_LastSeen :: string
  dso_Stale :: bool

record UserDevicesInput =
  udi_UserID :: string
  udi_Limit :: int

record UserDevicesOutput =
  udo_UserID :: string
  udo_Devices :: "string list"
  udo_Count :: int
  udo_Truncated :: bool
  udo_Stale :: bool

definition DefaultWatchTimeout :: duration where "DefaultWatchTimeout = 30 * second"
definition MaxWatchTimeout :: duration where "MaxWatchTimeout = 300 * second"
definition DefaultDeviceLimit :: int where "DefaultDeviceLimit = 500"
definition MaxDeviceLimit :: int where "MaxDeviceLimit = 5000"
definition MaxIdentifierBytes :: int where "MaxIdentifierBytes = 256"
definition DefaultMaxWatches :: int where "DefaultMaxWatches = 64"

record WatchDeviceInput =
  wdi_UserID :: string
  wdi_DeviceID :: string
  wdi_TimeoutSeconds :: int

record WatchDeviceOutput =
  wdo_UserID :: string
  wdo_DeviceID :: string
  wdo_Updated :: bool
  wdo_TimedOut :: bool
  wdo_WaitedFor :: string
  wdo_State :: DeviceStateOutput

record ResetCountersInput =
  rci_UserID :: string
  rci_DeviceID :: string
  rci_Actor :: string

record ResetCountersOutput =
  rco_Accepted :: bool
  rco_Command :: string

text \<open>
  The tools over a state \<open>'s\<close> that the ports share; a port that is not configured is \<open>None\<close>. \<open>tl_slots\<close> is the
  capacity of the channel of watch slots.
\<close>

record 's Tools =
  tl_state :: "ctx \<Rightarrow> string \<Rightarrow> string \<Rightarrow> 's \<Rightarrow> error + DeviceState"
  tl_devices :: "(ctx \<Rightarrow> string \<Rightarrow> 's \<Rightarrow> error + DeviceListing) option"
  tl_metrics :: "(ctx \<Rightarrow> 's \<Rightarrow> error + (string \<rightharpoonup> int)) option"
  tl_commands :: "(ctx \<Rightarrow> Command \<Rightarrow> 's \<Rightarrow> error option \<times> 's) option"
  tl_watcher :: "(ctx \<Rightarrow> string \<Rightarrow> string \<Rightarrow> 's \<Rightarrow> error option \<times> 's) option"
  tl_requireAuth :: bool
  tl_slots :: int

text \<open>The clock of the tools is read by the caller of the model: each reading is an argument.\<close>

record 's ToolOptions =
  to_State :: "(ctx \<Rightarrow> string \<Rightarrow> string \<Rightarrow> 's \<Rightarrow> error + DeviceState) option"
  to_Devices :: "(ctx \<Rightarrow> string \<Rightarrow> 's \<Rightarrow> error + DeviceListing) option"
  to_Metrics :: "(ctx \<Rightarrow> 's \<Rightarrow> error + (string \<rightharpoonup> int)) option"
  to_Commands :: "(ctx \<Rightarrow> Command \<Rightarrow> 's \<Rightarrow> error option \<times> 's) option"
  to_Watcher :: "(ctx \<Rightarrow> string \<Rightarrow> string \<Rightarrow> 's \<Rightarrow> error option \<times> 's) option"
  to_RequireAuth :: bool
  to_MaxWatches :: int

definition NewTools :: "'s ToolOptions \<Rightarrow> error + 's Tools" where
  "NewTools options =
     (case to_State options of
        None \<Rightarrow> Inl ErrNilStateReader
      | Some state \<Rightarrow>
          Inr \<lparr>tl_state = state, tl_devices = to_Devices options, tl_metrics = to_Metrics options, tl_commands = to_Commands options,
               tl_watcher = to_Watcher options, tl_requireAuth = to_RequireAuth options,
               tl_slots = (if to_MaxWatches options \<le> 0 then DefaultMaxWatches else to_MaxWatches options)\<rparr>)"

text \<open>
  The code ranges over runes; below \<^verbatim>\<open>0x80\<close> a rune is its byte and every other byte is at least \<^verbatim>\<open>0x80\<close>, so
  the test is on bytes.
\<close>

definition control_byte :: "char \<Rightarrow> bool" where
  "control_byte c \<longleftrightarrow> (of_char c :: nat) < 32 \<or> (of_char c :: nat) = 127"

definition validateIdentifier :: "string \<Rightarrow> string \<Rightarrow> error option" where
  "validateIdentifier name v =
     (if MaxIdentifierBytes < int (length v)
      then Some (Wrap (name @ '' is '' @ AppendInt (int (length v)) @ '' bytes, limit is '' @ AppendInt MaxIdentifierBytes) ErrIdentifierTooLong)
      else if list_ex control_byte v then Some (Wrap name ErrIdentifierInvalid)
      else None)"

definition translateReadError :: "error \<Rightarrow> error" where
  "translateReadError err = (if errors_Is err ErrDeviceNotFound then ErrDeviceNotFound else err)"

section \<open>The tools\<close>

definition check :: "bool \<Rightarrow> error \<Rightarrow> error option" where
  "check bad err = (if bad then Some err else None)"

definition stateOutput :: "DeviceState \<Rightarrow> DeviceStateOutput" where
  "stateOutput s =
     \<lparr>dso_UserID = ds_UserID s, dso_DeviceID = ds_DeviceID s, dso_Count = ds_Count s, dso_ErrorCount = ds_ErrorCount s, dso_Bytes = ds_Bytes s,
      dso_P95Nanos = ds_P95Nanos s, dso_P99Nanos = ds_P99Nanos s, dso_LastWindowID = ds_LastWindowID s,
      dso_LastSeen = (if IsZero (ds_LastSeen s) then [] else FormatRFC3339 (ds_LastSeen s)), dso_Stale = ds_Stale s\<rparr>"

definition tool_DeviceState :: "'s Tools \<Rightarrow> tool_ctx \<Rightarrow> DeviceStateInput \<Rightarrow> 's \<Rightarrow> error + DeviceStateOutput" where
  "tool_DeviceState t cx inp s =
     (case first_error
         [check (dsi_UserID inp = []) ErrToolMissingUserID, check (dsi_DeviceID inp = []) ErrToolMissingDevice,
          validateIdentifier ''user_id'' (dsi_UserID inp), validateIdentifier ''device_id'' (dsi_DeviceID inp),
          authorise (tl_requireAuth t) cx (dsi_UserID inp)] of
        Some err \<Rightarrow> Inl err
      | None \<Rightarrow>
          (case tl_state t (tc_err cx) (dsi_UserID inp) (dsi_DeviceID inp) s of
             Inl err \<Rightarrow> Inl (translateReadError err)
           | Inr state \<Rightarrow> Inr (stateOutput state)))"

definition capDevices :: "string list \<Rightarrow> int \<Rightarrow> string list \<times> bool" where
  "capDevices devices requested =
     (let limit0 = (if requested \<le> 0 then DefaultDeviceLimit else requested);
          limit = (if MaxDeviceLimit < limit0 then MaxDeviceLimit else limit0)
      in if int (length devices) \<le> limit then (devices, False) else (take (nat limit) devices, True))"

definition tool_UserDevices :: "'s Tools \<Rightarrow> tool_ctx \<Rightarrow> UserDevicesInput \<Rightarrow> 's \<Rightarrow> error + UserDevicesOutput" where
  "tool_UserDevices t cx inp s =
     (case first_error [check (udi_UserID inp = []) ErrToolMissingUserID, validateIdentifier ''user_id'' (udi_UserID inp)] of
        Some err \<Rightarrow> Inl err
      | None \<Rightarrow>
          (case tl_devices t of
             None \<Rightarrow> Inl ErrNilDeviceLister
           | Some lister \<Rightarrow>
               (case authorise (tl_requireAuth t) cx (udi_UserID inp) of
                  Some err \<Rightarrow> Inl err
                | None \<Rightarrow>
                    (case lister (tc_err cx) (udi_UserID inp) s of
                       Inl err \<Rightarrow> Inl err
                     | Inr listing \<Rightarrow>
                         let (devices, truncated) = capDevices (dl_Devices listing) (udi_Limit inp)
                         in Inr \<lparr>udo_UserID = udi_UserID inp, udo_Devices = devices, udo_Count = int (length devices),
                                 udo_Truncated = truncated, udo_Stale = dl_Stale listing\<rparr>))))"

definition tool_PipelineMetrics :: "'s Tools \<Rightarrow> tool_ctx \<Rightarrow> 's \<Rightarrow> error + (string \<rightharpoonup> int)" where
  "tool_PipelineMetrics t cx s =
     (case tl_metrics t of
        None \<Rightarrow> Inl ErrNilMetricsReader
      | Some reader \<Rightarrow>
          (case (case PrincipalFrom cx of
                   Some p \<Rightarrow> if \<not> hasScope p ScopeAdmin then Some (Wrap (''fleet metrics require '' @ ScopeAdmin) ErrForbidden) else None
                 | None \<Rightarrow> if tl_requireAuth t then Some ErrUnauthenticated else None) of
             Some err \<Rightarrow> Inl err
           | None \<Rightarrow> reader (tc_err cx) s))"

definition actor :: "tool_ctx \<Rightarrow> string \<Rightarrow> string" where
  "actor cx claimed =
     (case PrincipalFrom cx of
        None \<Rightarrow> claimed
      | Some p \<Rightarrow>
          if p_UserID p = [] then claimed
          else if hasScope p ScopeAdmin \<and> claimed \<noteq> [] then claimed
          else p_UserID p)"

definition tool_ResetCounters :: "'s Tools \<Rightarrow> time \<Rightarrow> tool_ctx \<Rightarrow> ResetCountersInput \<Rightarrow> 's \<Rightarrow> (error + ResetCountersOutput) \<times> 's" where
  "tool_ResetCounters t now cx inp s =
     (case tl_commands t of
        None \<Rightarrow> (Inl ErrWritesDisabled, s)
      | Some publish \<Rightarrow>
          (case first_error
              [check (rci_UserID inp = []) ErrToolMissingUserID, check (rci_DeviceID inp = []) ErrToolMissingDevice,
               check (rci_Actor inp = []) ErrToolMissingActor, validateIdentifier ''user_id'' (rci_UserID inp),
               validateIdentifier ''device_id'' (rci_DeviceID inp), validateIdentifier ''actor'' (rci_Actor inp),
               authorise (tl_requireAuth t) cx (rci_UserID inp)] of
             Some err \<Rightarrow> (Inl err, s)
           | None \<Rightarrow>
               let command = \<lparr>c_Kind = CommandResetCounters, c_UserID = rci_UserID inp, c_DeviceID = rci_DeviceID inp,
                              c_Actor = actor cx (rci_Actor inp), c_IssuedAt = now\<rparr>
               in case Command_Validate command of
                    Some err \<Rightarrow> (Inl err, s)
                  | None \<Rightarrow>
                      (case publish (tc_err cx) command s of
                         (Some err, s1) \<Rightarrow> (Inl err, s1)
                       | (None, s1) \<Rightarrow> (Inr \<lparr>rco_Accepted = True, rco_Command = CommandKind_String (c_Kind command)\<rparr>, s1))))"

text \<open>
  A watch begins with the checks, takes a slot, computes how long to wait and subscribes; it ends with what its
  \<^verbatim>\<open>select\<close> observes and gives the slot back. The state carries the number of slots in use.
\<close>

record 's tool_state =
  ts_store :: 's
  ts_watching :: int

definition watch_wait :: "int \<Rightarrow> duration" where
  "watch_wait timeoutSeconds =
     (let wait0 = wrap64 (timeoutSeconds * second);
          wait1 = (if wait0 \<le> 0 then DefaultWatchTimeout else wait0)
      in if MaxWatchTimeout < wait1 then MaxWatchTimeout else wait1)"

definition WatchDevice_begin :: "'s Tools \<Rightarrow> tool_ctx \<Rightarrow> WatchDeviceInput \<Rightarrow> 's tool_state \<Rightarrow> (error + duration) \<times> 's tool_state" where
  "WatchDevice_begin t cx inp s =
     (case first_error [check (wdi_UserID inp = []) ErrToolMissingUserID, check (wdi_DeviceID inp = []) ErrToolMissingDevice] of
        Some err \<Rightarrow> (Inl err, s)
      | None \<Rightarrow>
          (case tl_watcher t of
             None \<Rightarrow> (Inl ErrNilDeviceWatcher, s)
           | Some watch \<Rightarrow>
               (case first_error
                   [validateIdentifier ''user_id'' (wdi_UserID inp), validateIdentifier ''device_id'' (wdi_DeviceID inp),
                    authorise (tl_requireAuth t) cx (wdi_UserID inp)] of
                  Some err \<Rightarrow> (Inl err, s)
                | None \<Rightarrow>
                    if tl_slots t \<le> ts_watching s then (Inl ErrTooManyWatches, s)
                    else (case watch (tc_err cx) (wdi_UserID inp) (wdi_DeviceID inp) (ts_store s) of
                            (Some err, st) \<Rightarrow> (Inl err, s\<lparr>ts_store := st\<rparr>)
                          | (None, st) \<Rightarrow> (Inr (watch_wait (wdi_TimeoutSeconds inp)), \<lparr>ts_store = st, ts_watching = ts_watching s + 1\<rparr>)))))"

datatype watch_outcome = CallerDone error | TimerFired | Update DeviceState | UpdatesClosed

definition zero_DeviceStateOutput :: DeviceStateOutput where
  "zero_DeviceStateOutput = \<lparr>dso_UserID = [], dso_DeviceID = [], dso_Count = 0, dso_ErrorCount = 0, dso_Bytes = 0, dso_P95Nanos = 0,
     dso_P99Nanos = 0, dso_LastWindowID = 0, dso_LastSeen = [], dso_Stale = False\<rparr>"

definition WatchDevice_end :: "(duration \<Rightarrow> string) \<Rightarrow> WatchDeviceInput \<Rightarrow> duration \<Rightarrow> watch_outcome \<Rightarrow> 's tool_state
    \<Rightarrow> (error + WatchDeviceOutput) \<times> 's tool_state" where
  "WatchDevice_end show_duration inp wait outcome s =
     (case outcome of
        CallerDone err \<Rightarrow> Inl err
      | TimerFired \<Rightarrow>
          Inr \<lparr>wdo_UserID = wdi_UserID inp, wdo_DeviceID = wdi_DeviceID inp, wdo_Updated = False, wdo_TimedOut = True,
               wdo_WaitedFor = show_duration wait, wdo_State = zero_DeviceStateOutput\<rparr>
      | UpdatesClosed \<Rightarrow> Inl ErrWatchClosed
      | Update state \<Rightarrow>
          Inr \<lparr>wdo_UserID = wdi_UserID inp, wdo_DeviceID = wdi_DeviceID inp, wdo_Updated = True, wdo_TimedOut = False,
               wdo_WaitedFor = show_duration wait, wdo_State = stateOutput state\<rparr>,
      s\<lparr>ts_watching := ts_watching s - 1\<rparr>)"

section \<open>Results of a tool call (server.go)\<close>

text \<open>The error of a failed call travels in the result, with an output that the schema accepts.\<close>

definition wrap :: "'o \<Rightarrow> (error + 'o) \<Rightarrow> error option \<times> 'o" where
  "wrap schema_zero r = (case r of Inl err \<Rightarrow> (Some err, schema_zero) | Inr out \<Rightarrow> (None, out))"

text \<open>
  What reflection sees of a value: a map or a slice that is nil or not, a pointer that is nil or not with the value it points to (for a nil pointer, the zero value
  of its element type), a struct whose fields can be set or not, anything else.
\<close>

datatype reflected = RMap bool | RSlice bool | RPointer bool reflected | RStruct "(bool \<times> reflected) list" | ROther

definition maxSchemaDepth :: nat where "maxSchemaDepth = 8"

fun fillEmptyCollections :: "nat \<Rightarrow> reflected \<Rightarrow> reflected" where
  "fillEmptyCollections depth (RMap nil) = (if maxSchemaDepth < depth then RMap nil else RMap False)"
| "fillEmptyCollections depth (RSlice nil) = (if maxSchemaDepth < depth then RSlice nil else RSlice False)"
| "fillEmptyCollections depth (RPointer nil v) =
     (if maxSchemaDepth < depth then RPointer nil v else RPointer False (fillEmptyCollections (Suc depth) v))"
| "fillEmptyCollections depth (RStruct fs) =
     (if maxSchemaDepth < depth then RStruct fs
      else RStruct (map (\<lambda>(canSet, v). (canSet, if canSet then fillEmptyCollections (Suc depth) v else v)) fs))"
| "fillEmptyCollections depth ROther = ROther"

section \<open>Static bearer tokens (httpserver.go)\<close>

definition ErrInvalidToken :: error where [go_error_defs]: "ErrInvalidToken = Err ''invalid token''"
definition ErrUnknownToken :: error where [go_error_defs]: "ErrUnknownToken = Wrap ''bearer token is not recognised'' ErrInvalidToken"
definition ErrTokenExpired :: error where [go_error_defs]: "ErrTokenExpired = Wrap ''bearer token has expired'' ErrInvalidToken"

record StaticToken =
  st_UserID :: string
  st_Scopes :: "string list"
  st_Expiry :: time

text \<open>A comparison in constant time accumulates the differences of the bytes, after comparing the lengths.\<close>

definition ConstantTimeCompare :: "string \<Rightarrow> string \<Rightarrow> bool" where
  "ConstantTimeCompare x y =
     (length x = length y \<and>
      fold (\<lambda>(a, b) v. or v (xor a b)) (zip (map of_char x) (map of_char y)) (0 :: 8 word) = 0)"

fun lookup_loop :: "(string \<times> StaticToken) list \<Rightarrow> string \<Rightarrow> StaticToken option \<Rightarrow> StaticToken option" where
  "lookup_loop [] presented found = found"
| "lookup_loop ((candidate, entry) # tokens) presented found =
     lookup_loop tokens presented (if ConstantTimeCompare candidate presented then Some entry else found)"

definition lookupToken :: "(string \<times> StaticToken) list \<Rightarrow> string \<Rightarrow> StaticToken option" where
  "lookupToken tokens presented = lookup_loop tokens presented None"

text \<open>\<open>now1\<close> and \<open>now2\<close> are the two readings of the clock.\<close>

definition StaticTokenVerifier :: "(string \<times> StaticToken) list \<Rightarrow> time \<Rightarrow> time \<Rightarrow> string \<Rightarrow> error + TokenInfo" where
  "StaticTokenVerifier tokens now1 now2 token =
     (case lookupToken tokens token of
        None \<Rightarrow> Inl ErrUnknownToken
      | Some e \<Rightarrow>
          if \<not> IsZero (st_Expiry e) \<and> st_Expiry e < now1 then Inl ErrTokenExpired
          else Inr \<lparr>ti_UserID = st_UserID e, ti_Scopes = st_Scopes e,
                    ti_Expiration = (if IsZero (st_Expiry e) then now2 + 3600 * second else st_Expiry e)\<rparr>)"

definition parse_token :: "string \<Rightarrow> (string \<times> StaticToken) option" where
  "parse_token raw =
     (let e = TrimSpace raw in
      if e = [] then None
      else let parts = SplitN 3 (CHR '':'') e
           in if length parts < 2 \<or> parts ! 0 = [] \<or> parts ! 1 = [] then None
              else Some (parts ! 0,
                \<lparr>st_UserID = parts ! 1, st_Scopes = (if 2 < length parts \<and> parts ! 2 \<noteq> [] then Split (CHR ''|'') (parts ! 2) else []),
                 st_Expiry = zero_time\<rparr>))"

definition ParseStaticTokens :: "string \<Rightarrow> (string \<times> StaticToken) list" where
  "ParseStaticTokens raw =
     fold (\<lambda>e tokens. case parse_token e of None \<Rightarrow> tokens | Some (k, t) \<Rightarrow> AList.update k t tokens) (Split (CHR '','') raw) []"

definition withPrincipal :: "tool_ctx \<Rightarrow> tool_ctx" where
  "withPrincipal cx =
     (case tc_token cx of
        Some info \<Rightarrow> ContextWithPrincipal cx \<lparr>p_UserID = ti_UserID info, p_Scopes = ti_Scopes info\<rparr>
      | None \<Rightarrow> cx)"

section \<open>Lemmas\<close>

text \<open>The parsed table has one entry per token, as a Go map has.\<close>

lemma ParseStaticTokens_distinct: "distinct (map fst (ParseStaticTokens raw))"
proof -
  have "distinct (map fst (fold (\<lambda>e tokens. case parse_token e of None \<Rightarrow> tokens | Some (k, t) \<Rightarrow> AList.update k t tokens) es tokens))"
    if "distinct (map fst tokens)" for es tokens
    using that by (induction es arbitrary: tokens) (auto split: option.splits simp: distinct_update)
  then show ?thesis by (simp add: ParseStaticTokens_def)
qed

lemma has_scope_iff: "has_scope scopes name \<longleftrightarrow> name \<in> set scopes"
  by (induction scopes) auto

lemma check_None [simp]: "check bad err = None \<longleftrightarrow> \<not> bad"
  by (simp add: check_def)

lemma mayAccess_iff: "mayAccess p u \<longleftrightarrow> ScopeAdmin \<in> set (p_Scopes p) \<or> (u \<noteq> [] \<and> p_UserID p = u)"
  by (auto simp: mayAccess_def hasScope_def has_scope_iff)

text \<open>Who may act for a user: nobody anonymous when authentication is required, an administrator, or the user.\<close>

definition allowed :: "bool \<Rightarrow> tool_ctx \<Rightarrow> string \<Rightarrow> bool" where
  "allowed requireAuth cx u \<longleftrightarrow> (case PrincipalFrom cx of None \<Rightarrow> \<not> requireAuth | Some p \<Rightarrow> ScopeAdmin \<in> set (p_Scopes p) \<or> (u \<noteq> [] \<and> p_UserID p = u))"

lemma authorise_None: "authorise req cx u = None \<longleftrightarrow> allowed req cx u"
  by (auto simp: authorise_def allowed_def mayAccess_iff split: option.split)

lemma fold_or_zero:
  "fold (\<lambda>(a, b) v. or v (xor a b)) ps (v :: 8 word) = 0 \<longleftrightarrow> v = 0 \<and> (\<forall>(a, b) \<in> set ps. a = b)"
proof (induction ps arbitrary: v)
  case (Cons p ps)
  have "or v (xor (fst p) (snd p)) = 0 \<longleftrightarrow> v = 0 \<and> fst p = snd p" by (auto simp: bit_eq_iff bit_simps)
  with Cons show ?case by (auto simp: split_beta)
qed simp

lemma ConstantTimeCompare_iff: "ConstantTimeCompare x y \<longleftrightarrow> x = y"
proof -
  have inj: "(of_char a :: 8 word) = of_char b \<longleftrightarrow> a = b" for a b :: char
  proof
    assume "(of_char a :: 8 word) = of_char b"
    then have "(of_nat (of_char a) :: 8 word) = of_nat (of_char b)" by (simp only: of_nat_of_char)
    then have "(of_char a :: nat) mod 256 = of_char b mod 256" by (simp add: word_of_nat_eq_iff take_bit_eq_mod)
    then show "a = b" by simp
  qed simp
  have "length x = length y \<Longrightarrow> (\<forall>(a, b) \<in> set (zip (map (of_char :: char \<Rightarrow> 8 word) x) (map of_char y)). a = b) \<longleftrightarrow> x = y"
    by (induction x y rule: list_induct2) (auto simp: inj)
  then show ?thesis by (auto simp: ConstantTimeCompare_def fold_or_zero)
qed

text \<open>The constant-time scan of all entries is a map lookup.\<close>

lemma lookup_loop_map_of:
  assumes "distinct (map fst tokens)"
  shows "lookup_loop tokens presented found = (case map_of tokens presented of Some e \<Rightarrow> Some e | None \<Rightarrow> found)"
  using assms by (induction tokens presented found rule: lookup_loop.induct)
    (auto simp: ConstantTimeCompare_iff map_of_eq_None_iff[THEN iffD2] split: option.splits dest: map_of_SomeD)

lemma lookupToken_map_of: "distinct (map fst tokens) \<Longrightarrow> lookupToken tokens presented = map_of tokens presented"
  by (simp add: lookupToken_def lookup_loop_map_of split: option.split)

text \<open>What an output shows at the depth the schema is checked to: no nil map, slice or pointer in a field that can be set.\<close>

fun no_nil :: "nat \<Rightarrow> reflected \<Rightarrow> bool" where
  "no_nil depth (RMap nil) = (depth \<le> maxSchemaDepth \<longrightarrow> \<not> nil)"
| "no_nil depth (RSlice nil) = (depth \<le> maxSchemaDepth \<longrightarrow> \<not> nil)"
| "no_nil depth (RPointer nil v) = (depth \<le> maxSchemaDepth \<longrightarrow> \<not> nil \<and> no_nil (Suc depth) v)"
| "no_nil depth (RStruct fs) = (depth \<le> maxSchemaDepth \<longrightarrow> (\<forall>(canSet, v) \<in> set fs. canSet \<longrightarrow> no_nil (Suc depth) v))"
| "no_nil depth ROther = True"

lemma fill_no_nil: "no_nil depth (fillEmptyCollections depth v)"
  by (induction depth v rule: fillEmptyCollections.induct) (auto split: prod.splits)

lemma fill_idem: "no_nil depth v \<Longrightarrow> fillEmptyCollections depth v = v"
  by (induction depth v rule: fillEmptyCollections.induct) (auto intro!: map_idI split: prod.splits)

section \<open>Properties\<close>

text \<open>
  Property C11 (tenant isolation of the tools). A caller that may not act for a user, because it is anonymous where authentication is required or because it is neither an
  administrator nor that user, gets an error from every tool on that user's devices, whatever the ports would answer, and changes nothing.
\<close>

theorem mcp_tenant_isolation:
  assumes "\<not> allowed (tl_requireAuth t) cx u"
  shows "(\<exists>err. tool_DeviceState t cx \<lparr>dsi_UserID = u, dsi_DeviceID = d\<rparr> s = Inl err) \<and>
    (\<exists>err. tool_UserDevices t cx \<lparr>udi_UserID = u, udi_Limit = n\<rparr> s = Inl err) \<and>
    (\<exists>err. tool_ResetCounters t now cx \<lparr>rci_UserID = u, rci_DeviceID = d, rci_Actor = a\<rparr> s = (Inl err, s)) \<and>
    (\<exists>err. WatchDevice_begin t cx \<lparr>wdi_UserID = u, wdi_DeviceID = d, wdi_TimeoutSeconds = n\<rparr> ts = (Inl err, ts))"
proof -
  obtain err where auth: "authorise (tl_requireAuth t) cx u = Some err" using assms authorise_None[of "tl_requireAuth t" cx u] by auto
  have refused: "\<exists>e. first_error (cs @ [authorise (tl_requireAuth t) cx u]) = Some e" for cs
    using auth first_error_None[of "cs @ [authorise (tl_requireAuth t) cx u]"] by fastforce
  have "\<exists>err. tool_DeviceState t cx \<lparr>dsi_UserID = u, dsi_DeviceID = d\<rparr> s = Inl err"
    using refused[of "[check (u = []) ErrToolMissingUserID, check (d = []) ErrToolMissingDevice, validateIdentifier ''user_id'' u, validateIdentifier ''device_id'' d]"]
    by (auto simp: tool_DeviceState_def)
  moreover have "\<exists>err. tool_ResetCounters t now cx \<lparr>rci_UserID = u, rci_DeviceID = d, rci_Actor = a\<rparr> s = (Inl err, s)"
    using refused[of "[check (u = []) ErrToolMissingUserID, check (d = []) ErrToolMissingDevice, check (a = []) ErrToolMissingActor,
      validateIdentifier ''user_id'' u, validateIdentifier ''device_id'' d, validateIdentifier ''actor'' a]"]
    by (auto simp: tool_ResetCounters_def split: option.split)
  moreover have "\<exists>err. WatchDevice_begin t cx \<lparr>wdi_UserID = u, wdi_DeviceID = d, wdi_TimeoutSeconds = n\<rparr> ts = (Inl err, ts)"
    using refused[of "[validateIdentifier ''user_id'' u, validateIdentifier ''device_id'' d]"]
    by (auto simp: WatchDevice_begin_def split: option.split)
  ultimately show ?thesis using auth by (auto simp: tool_UserDevices_def split: option.split)
qed

definition ex_tools :: "Memory Tools" where
  "ex_tools = \<lparr>tl_state = Memory_DeviceState, tl_devices = Some UserDevices, tl_metrics = Some PipelineMetrics, tl_commands = Some (\<lambda>cx c m. (None, m)),
     tl_watcher = Some (\<lambda>cx u d m. (None, m)), tl_requireAuth = True, tl_slots = DefaultMaxWatches\<rparr>"

definition ex_options :: "Memory ToolOptions" where
  "ex_options = \<lparr>to_State = Some Memory_DeviceState, to_Devices = Some UserDevices, to_Metrics = Some PipelineMetrics, to_Commands = Some (\<lambda>cx c m. (None, m)),
     to_Watcher = Some (\<lambda>cx u d m. (None, m)), to_RequireAuth = True, to_MaxWatches = 0\<rparr>"

definition ex_caller :: "string \<Rightarrow> string list \<Rightarrow> tool_ctx" where
  "ex_caller u scopes = \<lparr>tc_err = None, tc_principal = Some \<lparr>p_UserID = u, p_Scopes = scopes\<rparr>, tc_token = None\<rparr>"

theorem mcp_tenant_isolation_witness:
  "\<exists>err. tool_DeviceState ex_tools (ex_caller ''mallory'' []) \<lparr>dsi_UserID = ''alice'', dsi_DeviceID = ''d''\<rparr> NewMemory = Inl err"
proof -
  have "\<not> allowed (tl_requireAuth ex_tools) (ex_caller ''mallory'' []) ''alice''" by (simp add: allowed_def ex_caller_def PrincipalFrom_def)
  from mcp_tenant_isolation[OF this] show ?thesis by blast
qed

text \<open>
  Bearer tokens. The verifier accepts exactly the tokens that are configured and not expired; behind it, the caller may act for the user
  of its token, or for everybody when the token carries the administrator scope, and for nobody else.
\<close>

theorem bearer_identity:
  assumes "distinct (map fst tokens)"
  shows "case StaticTokenVerifier tokens now1 now2 tok of
      Inl err \<Rightarrow> errors_Is err ErrInvalidToken \<and>
        (map_of tokens tok = None \<or> (\<exists>e. map_of tokens tok = Some e \<and> \<not> IsZero (st_Expiry e) \<and> st_Expiry e < now1))
    | Inr info \<Rightarrow> \<exists>e. map_of tokens tok = Some e \<and> (IsZero (st_Expiry e) \<or> now1 \<le> st_Expiry e) \<and>
        (\<forall>u. allowed True (withPrincipal \<lparr>tc_err = None, tc_principal = None, tc_token = Some info\<rparr>) u \<longleftrightarrow>
             ScopeAdmin \<in> set (st_Scopes e) \<or> (u \<noteq> [] \<and> st_UserID e = u))"
proof (cases "map_of tokens tok")
  case None
  then show ?thesis by (simp add: StaticTokenVerifier_def lookupToken_map_of[OF assms] go_error_defs)
next
  case (Some e)
  then show ?thesis
    by (simp add: StaticTokenVerifier_def lookupToken_map_of[OF assms] go_error_defs allowed_def withPrincipal_def ContextWithPrincipal_def PrincipalFrom_def not_less)
qed

theorem bearer_identity_witness:
  "case StaticTokenVerifier (ParseStaticTokens ''t1:alice, t2:bob:ironclaw:admin'') 0 0 ''t9'' of
     Inl err \<Rightarrow> errors_Is err ErrInvalidToken
   | Inr info \<Rightarrow> ''t9'' \<in> set (map fst (ParseStaticTokens ''t1:alice, t2:bob:ironclaw:admin''))"
  using bearer_identity[OF ParseStaticTokens_distinct[of "''t1:alice, t2:bob:ironclaw:admin''"], of "''t9''" 0 0]
  by (auto split: sum.splits dest!: map_of_SomeD intro: rev_image_eqI)

text \<open>
  Property C39 (who issues a reset). A reset that a tool reports as accepted was published, once, as a valid command for the user and device of the request, by a caller that may
  act for that user; its actor is the authenticated caller, whom only an administrator can speak for.
\<close>

theorem reset_attribution:
  assumes "tool_ResetCounters t now cx inp s = (Inr out, s')"
  shows "\<exists>publish c. tl_commands t = Some publish \<and> publish (tc_err cx) c s = (None, s') \<and> Command_Validate c = None \<and>
    c_Kind c = CommandResetCounters \<and> c_UserID c = rci_UserID inp \<and> c_DeviceID c = rci_DeviceID inp \<and>
    allowed (tl_requireAuth t) cx (rci_UserID inp) \<and>
    (case PrincipalFrom cx of
       None \<Rightarrow> c_Actor c = rci_Actor inp
     | Some p \<Rightarrow> c_Actor c = p_UserID p \<or> (ScopeAdmin \<in> set (p_Scopes p) \<and> c_Actor c = rci_Actor inp))"
proof -
  let ?c = "\<lparr>c_Kind = CommandResetCounters, c_UserID = rci_UserID inp, c_DeviceID = rci_DeviceID inp, c_Actor = actor cx (rci_Actor inp), c_IssuedAt = now\<rparr>"
  obtain publish where p: "tl_commands t = Some publish" using assms by (auto simp: tool_ResetCounters_def split: option.splits)
  have ok: "authorise (tl_requireAuth t) cx (rci_UserID inp) = None" "Command_Validate ?c = None" "publish (tc_err cx) ?c s = (None, s')"
    using assms p by (auto simp: tool_ResetCounters_def Let_def first_error_None dest!: first_error_None[THEN iffD1] split: option.splits prod.splits)
  have al: "allowed (tl_requireAuth t) cx (rci_UserID inp)" using ok(1) by (simp add: authorise_None)
  then have "case PrincipalFrom cx of None \<Rightarrow> actor cx (rci_Actor inp) = rci_Actor inp
     | Some p \<Rightarrow> actor cx (rci_Actor inp) = p_UserID p \<or> (ScopeAdmin \<in> set (p_Scopes p) \<and> actor cx (rci_Actor inp) = rci_Actor inp)"
    by (auto simp: actor_def allowed_def hasScope_def has_scope_iff split: option.splits)
  with p ok al show ?thesis by (intro exI[of _ publish] exI[of _ ?c]) (simp split: option.splits)
qed

theorem reset_attribution_witness:
  "\<exists>c. Command_Validate c = None \<and> c_UserID c = ''alice'' \<and> c_Actor c = ''alice''"
proof -
  have "tool_ResetCounters ex_tools 5 (ex_caller ''alice'' []) \<lparr>rci_UserID = ''alice'', rci_DeviceID = ''d'', rci_Actor = ''bob''\<rparr> NewMemory =
      (Inr \<lparr>rco_Accepted = True, rco_Command = ''reset_counters''\<rparr>, NewMemory)"
    by (simp add: tool_ResetCounters_def ex_tools_def ex_caller_def check_def validateIdentifier_def MaxIdentifierBytes_def control_byte_def authorise_def PrincipalFrom_def
      mayAccess_def hasScope_def actor_def Command_Validate_def CommandKind_Valid_def commandKindNames_def command_kind_defs CommandKind_String_def ScopeAdmin_def)
  from reset_attribution[OF this] show ?thesis by (auto simp: ex_caller_def PrincipalFrom_def)
qed

text \<open>
  The watches that are open on a server, with the request and the wait of each: calls begin, are refused or end in any order, between them the
  store changes.
\<close>

inductive watches :: "'s Tools \<Rightarrow> 's tool_state \<Rightarrow> (tool_ctx \<times> WatchDeviceInput \<times> duration) list \<Rightarrow> bool" for t where
  watches_new: "watches t \<lparr>ts_store = st, ts_watching = 0\<rparr> []"
| watches_begin: "watches t s act \<Longrightarrow> WatchDevice_begin t cx inp s = (Inr w, s') \<Longrightarrow> watches t s' ((cx, inp, w) # act)"
| watches_refused: "watches t s act \<Longrightarrow> WatchDevice_begin t cx inp s = (Inl err, s') \<Longrightarrow> watches t s' act"
| watches_end: "watches t s (as @ (cx, inp, w) # bs) \<Longrightarrow> WatchDevice_end show_duration inp w outcome s = (r, s') \<Longrightarrow> watches t s' (as @ bs)"
| watches_store: "watches t s act \<Longrightarrow> watches t (s\<lparr>ts_store := st\<rparr>) act"

text \<open>The wait is within its bounds for every 64-bit request, also where the product wraps.\<close>

lemma watch_wait_bounds: "0 < watch_wait n" "watch_wait n \<le> MaxWatchTimeout"
  by (simp_all add: watch_wait_def Let_def MaxWatchTimeout_def DefaultWatchTimeout_def second_def)

lemma watch_wait_exact: "0 < n \<Longrightarrow> n \<le> 300 \<Longrightarrow> watch_wait n = n * second"
  by (simp add: watch_wait_def Let_def MaxWatchTimeout_def second_def wrap64_id in_i64_def MinInt64_def MaxInt64_def)

lemma WatchDevice_begin_ok:
  assumes "WatchDevice_begin t cx inp s = (Inr w, s')"
  shows "allowed (tl_requireAuth t) cx (wdi_UserID inp)" "w = watch_wait (wdi_TimeoutSeconds inp)"
    "ts_watching s < tl_slots t" "ts_watching s' = ts_watching s + 1"
  using assms by (auto simp: WatchDevice_begin_def first_error_None authorise_None split: option.splits prod.splits if_splits)

lemma WatchDevice_begin_err: "WatchDevice_begin t cx inp s = (Inl err, s') \<Longrightarrow> ts_watching s' = ts_watching s"
  by (auto simp: WatchDevice_begin_def split: option.splits prod.splits if_splits)

text \<open>
  Watches are bounded. However watches begin, fail, are refused and end, the slots in use are the open watches and never more than the
  capacity; every open watch was allowed to its caller, and waits for a positive time of at most five minutes, whatever number of seconds was asked for.
\<close>

theorem watches_bounded:
  assumes "watches t s act" and "NewTools options = Inr t"
  shows "ts_watching s = int (length act) \<and> ts_watching s \<le> tl_slots t \<and>
    (\<forall>(cx, inp, w) \<in> set act. allowed (tl_requireAuth t) cx (wdi_UserID inp) \<and> 0 < w \<and> w \<le> MaxWatchTimeout)"
  using assms(1)
proof (induction rule: watches.induct)
  case (watches_new st)
  show ?case using assms(2) by (auto simp: NewTools_def DefaultMaxWatches_def split: option.splits)
next
  case (watches_begin s act cx inp w s')
  then show ?case using WatchDevice_begin_ok[OF watches_begin.hyps(2)] watch_wait_bounds by simp
next
  case (watches_refused s act cx inp err s')
  then show ?case using WatchDevice_begin_err[OF watches_refused.hyps(2)] by simp
next
  case (watches_end s as cx inp w bs show_duration outcome r s')
  then have "ts_watching s' = ts_watching s - 1" by (auto simp: WatchDevice_end_def)
  with watches_end show ?case by auto
qed auto

theorem watches_bounded_witness:
  "0 < watch_wait 18446744073710 \<and> watch_wait 18446744073710 \<le> MaxWatchTimeout"
proof -
  let ?inp = "\<lparr>wdi_UserID = ''alice'', wdi_DeviceID = ''d'', wdi_TimeoutSeconds = 18446744073710\<rparr>"
  let ?s = "\<lparr>ts_store = NewMemory, ts_watching = 0\<rparr>"
  have "WatchDevice_begin ex_tools (ex_caller ''alice'' []) ?inp ?s = (Inr (watch_wait 18446744073710), \<lparr>ts_store = NewMemory, ts_watching = 1\<rparr>)"
    by (simp add: WatchDevice_begin_def ex_tools_def ex_caller_def check_def validateIdentifier_def MaxIdentifierBytes_def control_byte_def authorise_def
      PrincipalFrom_def mayAccess_def hasScope_def ScopeAdmin_def DefaultMaxWatches_def)
  note open1 = watches_begin[OF watches_new this]
  have "NewTools ex_options = Inr ex_tools" by (simp add: NewTools_def ex_options_def ex_tools_def)
  from watches_bounded[OF open1 this] show ?thesis by simp
qed

text \<open>
  Schema-valid outputs. The output that travels with a failed call has no nil map, slice or pointer in a settable field, down to the depth of the schema,
  and filling an output that has none already changes nothing.
\<close>

theorem fill_schema_zero:
  "no_nil depth (fillEmptyCollections depth v) \<and>
   (fillEmptyCollections depth v = v \<longleftrightarrow> no_nil depth v)"
  using fill_no_nil fill_idem by metis

end
