(* ===== verification/Sources.thy ===== *)
theory Sources
  imports Services
begin

text \<open>
  The event sources of the agent: the kernel records and their translation
  (\<^verbatim>\<open>internal/ebpf/record.go\<close>, the pump and the statistics of \<^verbatim>\<open>source.go\<close>) and the synthetic source
  (\<^verbatim>\<open>internal/pipeline/synthetic.go\<close>). The ring buffer, the kernel's maps and the random generator are parameters; loading and attaching the
  kernel program is in \<open>KernelSource\<close>. The lemmas say that records are read as the kernel wrote them and that sources emit valid events only.
\<close>

section \<open>Little-endian integers\<close>

fun le :: "bytes \<Rightarrow> nat" where
  "le [] = 0"
| "le (b # bs) = of_char b + 256 * le bs"

fun to_le :: "nat \<Rightarrow> nat \<Rightarrow> bytes" where
  "to_le 0 v = []"
| "to_le (Suc n) v = char_of (v mod 256) # to_le n (v div 256)"

lemma length_to_le [simp]: "length (to_le n v) = n"
  by (induction n arbitrary: v) simp_all

lemma le_to_le: "le (to_le n v) = v mod 256 ^ n"
proof (induction n arbitrary: v)
  case (Suc n)
  have "v mod 256 + 256 * (v div 256 mod 256 ^ n) = v mod (256 * 256 ^ n)" by (simp add: mod_mult2_eq)
  with Suc show ?case by simp
qed simp

definition Uint64 :: "bytes \<Rightarrow> 64 word" where "Uint64 bs = of_nat (le bs)"
definition Uint32 :: "bytes \<Rightarrow> 32 word" where "Uint32 bs = of_nat (le bs)"

definition slice :: "nat \<Rightarrow> nat \<Rightarrow> bytes \<Rightarrow> bytes" where
  "slice a b raw = take (b - a) (drop a raw)"

section \<open>Kernel records (record.go)\<close>

definition RecordSize :: nat where "RecordSize = 40"

definition ErrShortRecord :: error where [go_error_defs]: "ErrShortRecord = Err ''ebpf: record is shorter than the kernel event layout''"
definition ErrEbpfMissingIdentity :: error where [go_error_defs]: "ErrEbpfMissingIdentity = Err ''ebpf: device and user identity are required''"
definition ErrZeroBootTime :: error where [go_error_defs]: "ErrZeroBootTime = Err ''ebpf: boot time is required to convert monotonic timestamps''"

record Record =
  rec_TimestampNanos :: "64 word"
  rec_LatencyNanos :: "64 word"
  rec_Return :: "64 word"
  rec_PID :: "32 word"
  rec_TGID :: "32 word"
  rec_SyscallNumber :: "32 word"
  rec_Failed :: bool

text \<open>The signed fields are kept as their bit pattern; they are read with \<open>sint\<close> where their value matters.\<close>

definition Decode :: "bytes \<Rightarrow> error + Record" where
  "Decode raw =
     (if length raw < RecordSize then Inl ErrShortRecord
      else Inr \<lparr>rec_TimestampNanos = Uint64 (slice 0 8 raw), rec_LatencyNanos = Uint64 (slice 8 16 raw), rec_Return = Uint64 (slice 16 24 raw),
                rec_PID = Uint32 (slice 24 28 raw), rec_TGID = Uint32 (slice 28 32 raw), rec_SyscallNumber = Uint32 (slice 32 36 raw),
                rec_Failed = (raw ! 36 \<noteq> char_of (0 :: nat))\<rparr>)"

text \<open>The memory of the kernel's \<^verbatim>\<open>struct event\<close> on a little-endian machine.\<close>

definition struct_event :: "Record \<Rightarrow> bytes" where
  "struct_event r = to_le 8 (unat (rec_TimestampNanos r)) @ to_le 8 (unat (rec_LatencyNanos r)) @ to_le 8 (unat (rec_Return r)) @
     to_le 4 (unat (rec_PID r)) @ to_le 4 (unat (rec_TGID r)) @ to_le 4 (unat (rec_SyscallNumber r)) @ to_le 1 (if rec_Failed r then 1 else 0) @ to_le 3 0"

record Translator =
  tr_DeviceID :: string
  tr_UserID :: string
  tr_PodID :: string
  tr_BootTime :: time

definition Translator_Validate :: "Translator \<Rightarrow> error option" where
  "Translator_Validate t =
     (if tr_DeviceID t = [] \<or> tr_UserID t = [] then Some ErrEbpfMissingIdentity
      else if IsZero (tr_BootTime t) then Some ErrZeroBootTime
      else None)"

definition Translator_Event :: "Translator \<Rightarrow> Record \<Rightarrow> error + Event" where
  "Translator_Event t r =
     (case Translator_Validate t of
        Some err \<Rightarrow> Inl err
      | None \<Rightarrow>
          let event = \<lparr>ev_DeviceID = tr_DeviceID t, ev_UserID = tr_UserID t, ev_ProcessID = sint (rec_TGID r), ev_PodID = tr_PodID t, ev_Kind = EventKindSyscall,
                       ev_ObservedAt = tr_BootTime t + sint (rec_TimestampNanos r), ev_LatencyNanos = sint (rec_LatencyNanos r), ev_Bytes = 0, ev_Failed = rec_Failed r\<rparr>
          in case Event_Validate event of Some err \<Rightarrow> Inl err | None \<Rightarrow> Inr event)"

definition BootTime :: "time \<Rightarrow> 64 word \<Rightarrow> time" where
  "BootTime now monotonicNanos = now + wrap64 (- sint monotonicNanos)"

section \<open>The pump and the statistics (source.go)\<close>

definition NewSource :: "Translator \<Rightarrow> error + Translator" where
  "NewSource t = (case Translator_Validate t of Some err \<Rightarrow> Inl err | None \<Rightarrow> Inr t)"

text \<open>
  A read of the ring buffer fails, which ends the pump, or gives a sample; for a sample that becomes an event, the flag says whether the event was received before
  the context ended. The state holds the events received and the count of samples that failed to decode.
\<close>

datatype ring_read = ReadFailed | Sample bytes bool

record pumped =
  pm_out :: "Event list"
  pm_decodeFailures :: "64 word"
  pm_returned :: bool

fun pump :: "Translator \<Rightarrow> ring_read list \<Rightarrow> pumped \<Rightarrow> pumped" where
  "pump t [] p = p"
| "pump t (ReadFailed # rs) p = p\<lparr>pm_returned := True\<rparr>"
| "pump t (Sample raw received # rs) p =
     (case Decode raw of
        Inl err \<Rightarrow> pump t rs (p\<lparr>pm_decodeFailures := pm_decodeFailures p + 1\<rparr>)
      | Inr r \<Rightarrow>
          (case Translator_Event t r of
             Inl err \<Rightarrow> pump t rs (p\<lparr>pm_decodeFailures := pm_decodeFailures p + 1\<rparr>)
           | Inr event \<Rightarrow> if received then pump t rs (p\<lparr>pm_out := pm_out p @ [event]\<rparr>) else p\<lparr>pm_returned := True\<rparr>))"

record EbpfStats =
  es_Observed :: "64 word"
  es_Emitted :: "64 word"
  es_DroppedRingbuf :: "64 word"
  es_DroppedRate :: "64 word"
  es_DroppedFilter :: "64 word"
  es_DroppedUnpaired :: "64 word"
  es_DecodeFailures :: "64 word"

definition statCount :: nat where "statCount = 6"

fun stat_totals :: "(nat \<Rightarrow> error + 64 word list) \<Rightarrow> nat list \<Rightarrow> error + 64 word list" where
  "stat_totals lookup [] = Inr []"
| "stat_totals lookup (index # indexes) =
     (case lookup index of
        Inl err \<Rightarrow> Inl (Wrap (''ebpf: reading stat '' @ AppendInt (int index)) err)
      | Inr perCPU \<Rightarrow>
          (case stat_totals lookup indexes of
             Inl err \<Rightarrow> Inl err
           | Inr totals \<Rightarrow> Inr (sum_list perCPU # totals)))"

text \<open>The collection is absent before the source has started; in a started one the map of statistics may be missing.\<close>

definition Ebpf_Stats :: "(nat \<Rightarrow> error + 64 word list) option option \<Rightarrow> 64 word \<Rightarrow> error + EbpfStats" where
  "Ebpf_Stats collection failures =
     (case collection of
        None \<Rightarrow> Inr \<lparr>es_Observed = 0, es_Emitted = 0, es_DroppedRingbuf = 0, es_DroppedRate = 0, es_DroppedFilter = 0, es_DroppedUnpaired = 0, es_DecodeFailures = 0\<rparr>
      | Some None \<Rightarrow> Inl (Err ''ebpf: stats map is missing from the object'')
      | Some (Some lookup) \<Rightarrow>
          (case stat_totals lookup [0..<statCount] of
             Inl err \<Rightarrow> Inl err
           | Inr totals \<Rightarrow>
               Inr \<lparr>es_Observed = totals ! 0, es_Emitted = totals ! 1, es_DroppedRingbuf = totals ! 2, es_DroppedRate = totals ! 3, es_DroppedFilter = totals ! 4,
                    es_DroppedUnpaired = totals ! 5, es_DecodeFailures = failures\<rparr>))"

section \<open>The synthetic source (synthetic.go)\<close>

definition ErrInvalidEventCount :: error where [go_error_defs]: "ErrInvalidEventCount = Err ''pipeline: event count must be positive''"
definition ErrNoProcesses :: error where [go_error_defs]: "ErrNoProcesses = Err ''pipeline: process id set must not be empty''"
definition ErrSourceClosed :: error where [go_error_defs]: "ErrSourceClosed = Err ''pipeline: source is closed''"

record SyntheticConfig =
  sy_DeviceID :: string
  sy_UserID :: string
  sy_PodID :: string
  sy_ProcessIDs :: "int list"
  sy_EventCount :: int
  sy_Interval :: duration
  sy_ErrorRate :: real
  sy_BaseLatency :: duration
  sy_TailLatency :: duration
  sy_TailFraction :: real

definition SyntheticConfig_validate :: "SyntheticConfig \<Rightarrow> error option" where
  "SyntheticConfig_validate c =
     (if sy_DeviceID c = [] then Some ErrMissingDeviceID
      else if sy_UserID c = [] then Some ErrMissingUserID
      else if sy_EventCount c \<le> 0 then Some ErrInvalidEventCount
      else if sy_ProcessIDs c = [] then Some ErrNoProcesses
      else None)"

text \<open>The random generator, over its state.\<close>

record 'r Rand =
  rd_Float64 :: "'r \<Rightarrow> real \<times> 'r"
  rd_Intn :: "int \<Rightarrow> 'r \<Rightarrow> int \<times> 'r"
  rd_Int63n :: "int \<Rightarrow> 'r \<Rightarrow> int \<times> 'r"

record 'r SyntheticSource =
  sn_config :: SyntheticConfig
  sn_random :: 'r
  sn_closed :: bool

definition NewSyntheticSource :: "SyntheticConfig \<Rightarrow> 'r \<Rightarrow> error + 'r SyntheticSource" where
  "NewSyntheticSource c seeded =
     (case SyntheticConfig_validate c of Some err \<Rightarrow> Inl err | None \<Rightarrow> Inr \<lparr>sn_config = c, sn_random = seeded, sn_closed = False\<rparr>)"

definition latency :: "'r Rand \<Rightarrow> SyntheticConfig \<Rightarrow> 'r \<Rightarrow> int \<times> 'r" where
  "latency rand c r =
     (let base = (if sy_BaseLatency c \<le> 0 then millisecond else sy_BaseLatency c);
          tail = (if sy_TailLatency c \<le> 0 then 50 * millisecond else sy_TailLatency c);
          draw = (if 0 < sy_TailFraction c then rd_Float64 rand r else (1, r));
          slow = (0 < sy_TailFraction c \<and> fst draw < sy_TailFraction c);
          around = (if slow then tail else base);
          (jitter, r2) = rd_Int63n rand around (snd draw)
      in (wrap64 (around + jitter), r2))"

definition next_event :: "'r Rand \<Rightarrow> time \<Rightarrow> nat \<Rightarrow> 'r SyntheticSource \<Rightarrow> Event \<times> 'r SyntheticSource" where
  "next_event rand now index s =
     (let c = sn_config s;
          (lat, r1) = latency rand c (sn_random s);
          (n, r2) = rd_Intn rand 1024 r1;
          (f, r3) = rd_Float64 rand r2
      in (\<lparr>ev_DeviceID = sy_DeviceID c, ev_UserID = sy_UserID c, ev_ProcessID = sy_ProcessIDs c ! (index mod length (sy_ProcessIDs c)), ev_PodID = sy_PodID c,
           ev_Kind = EventKindSyscall, ev_ObservedAt = now, ev_LatencyNanos = lat, ev_Bytes = 64 + n, ev_Failed = (f < sy_ErrorRate c)\<rparr>,
          s\<lparr>sn_random := r3\<rparr>))"

text \<open>
  What one turn of the sending goroutine observes: the clock, whether the source was stopped before the send, whether the event was received, and whether
  the pause ran to its end. The goroutine has returned when the flag of the result is set.
\<close>

record synth_turn =
  sy_now :: time
  sy_stopped :: bool
  sy_received :: bool
  sy_waited :: bool

fun synth_run :: "'r Rand \<Rightarrow> nat \<Rightarrow> synth_turn list \<Rightarrow> 'r SyntheticSource \<Rightarrow> Event list \<Rightarrow> bool \<times> Event list \<times> 'r SyntheticSource" where
  "synth_run rand i [] s out = (\<not> int i < sy_EventCount (sn_config s), out, s)"
| "synth_run rand i (t # ts) s out =
     (if \<not> int i < sy_EventCount (sn_config s) then (True, out, s)
      else let (event, s1) = next_event rand (sy_now t) i s
           in if sy_stopped t then (True, out, s1)
              else if \<not> sy_received t then (True, out, s1)
              else if 0 < sy_Interval (sn_config s) \<and> \<not> sy_waited t then (True, out @ [event], s1)
              else synth_run rand (Suc i) ts s1 (out @ [event]))"

definition Synthetic_Events :: "'r Rand \<Rightarrow> synth_turn list \<Rightarrow> 'r SyntheticSource \<Rightarrow> error + (bool \<times> Event list \<times> 'r SyntheticSource)" where
  "Synthetic_Events rand ts s = (if sn_closed s then Inl ErrSourceClosed else Inr (synth_run rand 0 ts s []))"

definition Synthetic_Close :: "'r SyntheticSource \<Rightarrow> 'r SyntheticSource" where
  "Synthetic_Close s = s\<lparr>sn_closed := True\<rparr>"

section \<open>Properties of kernel records\<close>

lemma Uint64_to_le [simp]: "Uint64 (to_le 8 (unat w)) = w"
  using unsigned_less[where 'a = nat, of w] by (simp add: Uint64_def le_to_le)

lemma Uint32_to_le [simp]: "Uint32 (to_le 4 (unat w)) = w"
  using unsigned_less[where 'a = nat, of w] by (simp add: Uint32_def le_to_le)

lemma slice_at: "length xs = a \<Longrightarrow> length ys = b - a \<Longrightarrow> slice a b (xs @ ys @ zs) = ys"
  by (simp add: slice_def)

text \<open>
  Kernel records. Decoding reads back the record whose kernel layout a sample begins with, whatever follows it, and refuses exactly the samples that are
  shorter than the layout.
\<close>

theorem decode_struct_event:
  "Decode (struct_event r @ rest) = Inr r \<and> (Decode raw = Inl ErrShortRecord \<longleftrightarrow> length raw < length (struct_event r))"
proof -
  let ?w = "\<lambda>w :: 64 word. to_le 8 (unat w)" and ?v = "\<lambda>w :: 32 word. to_le 4 (unat w)"
  let ?f = "to_le 1 (if rec_Failed r then 1 else 0)"
  have size: "length (struct_event r) = RecordSize" by (simp add: struct_event_def RecordSize_def)
  have raw: "struct_event r @ rest = ?w (rec_TimestampNanos r) @ ?w (rec_LatencyNanos r) @ ?w (rec_Return r) @ ?v (rec_PID r) @ ?v (rec_TGID r) @ ?v (rec_SyscallNumber r) @ ?f @ to_le 3 0 @ rest"
    by (simp add: struct_event_def)
  have "slice 0 8 (struct_event r @ rest) = ?w (rec_TimestampNanos r)" unfolding raw using slice_at[of "[]"] by simp
  moreover have "slice 8 16 (struct_event r @ rest) = ?w (rec_LatencyNanos r)" unfolding raw by (rule slice_at) simp_all
  moreover have "slice 16 24 (struct_event r @ rest) = ?w (rec_Return r)"
    unfolding raw using slice_at[of "?w (rec_TimestampNanos r) @ ?w (rec_LatencyNanos r)" 16 "?w (rec_Return r)" 24] by simp
  moreover have "slice 24 28 (struct_event r @ rest) = ?v (rec_PID r)"
    unfolding raw using slice_at[of "?w (rec_TimestampNanos r) @ ?w (rec_LatencyNanos r) @ ?w (rec_Return r)" 24 "?v (rec_PID r)" 28] by simp
  moreover have "slice 28 32 (struct_event r @ rest) = ?v (rec_TGID r)"
    unfolding raw using slice_at[of "?w (rec_TimestampNanos r) @ ?w (rec_LatencyNanos r) @ ?w (rec_Return r) @ ?v (rec_PID r)" 28 "?v (rec_TGID r)" 32] by simp
  moreover have "slice 32 36 (struct_event r @ rest) = ?v (rec_SyscallNumber r)"
    unfolding raw using slice_at[of "?w (rec_TimestampNanos r) @ ?w (rec_LatencyNanos r) @ ?w (rec_Return r) @ ?v (rec_PID r) @ ?v (rec_TGID r)" 32 "?v (rec_SyscallNumber r)" 36] by simp
  moreover have "(struct_event r @ rest) ! 36 = char_of (if rec_Failed r then 1 else 0 :: nat)" unfolding raw by (simp add: nth_append)
  ultimately have "Decode (struct_event r @ rest) = Inr r" using size by (simp add: Decode_def char_of_eq_iff)
  then show ?thesis using size by (simp add: Decode_def)
qed

text \<open>
  Kernel events. With the boot time taken from a reading of the clocks, a record becomes a valid event of the configured device and user, whose instant is as far
  from the reading as its kernel timestamp is from the monotonic one, for all timestamps that fit a signed 64-bit
  integer; a record is refused only when its latency does not fit one, or when the instant is the zero time.
\<close>

theorem kernel_event:
  assumes "Translator_Validate t = None" and "tr_BootTime t = BootTime now monotonic"
    and "uint monotonic < 2 ^ 63" and "uint (rec_TimestampNanos r) < 2 ^ 63"
  shows "case Translator_Event t r of
      Inl err \<Rightarrow> 2 ^ 63 \<le> uint (rec_LatencyNanos r) \<or> IsZero (now + (uint (rec_TimestampNanos r) - uint monotonic))
    | Inr e \<Rightarrow> valid_event e \<and> ev_DeviceID e = tr_DeviceID t \<and> ev_UserID e = tr_UserID t \<and> ev_PodID e = tr_PodID t \<and>
        ev_ProcessID e = sint (rec_TGID r) \<and> ev_LatencyNanos e = uint (rec_LatencyNanos r) \<and> ev_Failed e = rec_Failed r \<and>
        ev_ObservedAt e = now + (uint (rec_TimestampNanos r) - uint monotonic)"
proof -
  have pos: "sint w = uint w" if "uint w < 2 ^ 63" for w :: "64 word"
    using that order_trans[OF _ uint_ge_0, of "- (2 ^ 63)" w] by (simp add: sint_uint signed_take_bit_int_eq_self)
  have neg: "sint w < 0" if "\<not> uint w < 2 ^ 63" for w :: "64 word"
  proof -
    have "uint w div 9223372036854775808 = 1" using that uint_lt2p[of w] by (simp add: div_pos_geq)
    then show ?thesis by (simp add: sint_uint bit_iff_odd)
  qed
  have obs: "tr_BootTime t + sint (rec_TimestampNanos r) = now + (uint (rec_TimestampNanos r) - uint monotonic)"
  proof -
    have "in_i64 (- n)" if "0 \<le> n" "n < 2 ^ 63" for n using that by (simp add: in_i64_def MinInt64_def MaxInt64_def)
    from this[OF uint_ge_0 assms(3)] have "in_i64 (- uint monotonic)" .
    then show ?thesis using assms(2-4) pos by (simp add: BootTime_def)
  qed
  have ids: "tr_DeviceID t \<noteq> []" "tr_UserID t \<noteq> []" using assms(1) by (auto simp: Translator_Validate_def split: if_splits)
  let ?e = "\<lparr>ev_DeviceID = tr_DeviceID t, ev_UserID = tr_UserID t, ev_ProcessID = sint (rec_TGID r), ev_PodID = tr_PodID t, ev_Kind = EventKindSyscall,
    ev_ObservedAt = tr_BootTime t + sint (rec_TimestampNanos r), ev_LatencyNanos = sint (rec_LatencyNanos r), ev_Bytes = 0, ev_Failed = rec_Failed r\<rparr>"
  have valid: "valid_event ?e \<longleftrightarrow> 0 \<le> sint (rec_LatencyNanos r) \<and> \<not> IsZero (ev_ObservedAt ?e)"
    using ids by (simp add: valid_event_def EventKindSyscall_def)
  have run: "Translator_Event t r = (case Event_Validate ?e of Some err \<Rightarrow> Inl err | None \<Rightarrow> Inr ?e)" using assms(1) by (simp add: Translator_Event_def Let_def)
  show ?thesis
  proof (cases "valid_event ?e")
    case True
    moreover from this have "uint (rec_LatencyNanos r) < 2 ^ 63" using valid neg[of "rec_LatencyNanos r"] by linarith
    ultimately show ?thesis using run obs pos[of "rec_LatencyNanos r"] Event_Validate_None[of ?e] by simp
  next
    case False
    then obtain err where "Translator_Event t r = Inl err" using run Event_Validate_None[of ?e] by (cases "Event_Validate ?e") auto
    moreover have "2 ^ 63 \<le> uint (rec_LatencyNanos r) \<or> IsZero (now + (uint (rec_TimestampNanos r) - uint monotonic))"
      using False valid obs pos[of "rec_LatencyNanos r"] uint_ge_0[of "rec_LatencyNanos r"] by fastforce
    ultimately show ?thesis by simp
  qed
qed

definition ex_kernel_record :: Record where
  "ex_kernel_record = \<lparr>rec_TimestampNanos = 700, rec_LatencyNanos = 30, rec_Return = -2, rec_PID = 7, rec_TGID = 6, rec_SyscallNumber = 1, rec_Failed = True\<rparr>"

definition ex_translator :: Translator where
  "ex_translator = \<lparr>tr_DeviceID = ''d'', tr_UserID = ''u'', tr_PodID = ''p'', tr_BootTime = BootTime 5000 600\<rparr>"

theorem kernel_event_witness:
  "\<exists>e. Translator_Event ex_translator ex_kernel_record = Inr e \<and> ev_ObservedAt e = 5100 \<and> ev_LatencyNanos e = 30 \<and> ev_ProcessID e = 6"
proof -
  have small: "uint (600 :: 64 word) < 2 ^ 63" "uint (rec_TimestampNanos ex_kernel_record) < 2 ^ 63" by (simp_all add: ex_kernel_record_def)
  have "BootTime 5000 600 = 4400" by (simp add: BootTime_def in_i64_def MinInt64_def MaxInt64_def)
  then have "Translator_Validate ex_translator = None" "tr_BootTime ex_translator = BootTime 5000 600"
    by (simp_all add: Translator_Validate_def ex_translator_def IsZero_def zero_time_def)
  from kernel_event[OF this small] show ?thesis by (auto simp: ex_kernel_record_def IsZero_def zero_time_def split: sum.splits)
qed

section \<open>Properties of the sources\<close>

text \<open>What a sample is worth: the event it becomes, if any.\<close>

definition event_of :: "Translator \<Rightarrow> bytes \<Rightarrow> Event option" where
  "event_of t raw = (case Decode raw of Inl err \<Rightarrow> None | Inr r \<Rightarrow> (case Translator_Event t r of Inl err \<Rightarrow> None | Inr e \<Rightarrow> Some e))"

lemma event_of_valid: "event_of t raw = Some e \<Longrightarrow> valid_event e \<and> ev_DeviceID e = tr_DeviceID t \<and> ev_UserID e = tr_UserID t"
  by (auto simp: event_of_def Translator_Event_def Let_def simp flip: Event_Validate_None split: sum.splits option.splits)

text \<open>
  The pump loses no sample silently. As long as its events are received, the pump forwards exactly the events of the samples it read, in order, and
  counts every other sample as a failure, up to the wrap-around of the counter; every event it forwards is valid and carries the configured identity.
\<close>

theorem pump_accounts:
  "let p' = pump t (map (\<lambda>raw. Sample raw True) raws @ ReadFailed # rest) p
   in pm_out p' = pm_out p @ List.map_filter (event_of t) raws \<and>
    pm_decodeFailures p' + of_nat (length (pm_out p')) = pm_decodeFailures p + of_nat (length (pm_out p) + length raws) \<and>
    list_all (\<lambda>e. valid_event e \<and> ev_DeviceID e = tr_DeviceID t \<and> ev_UserID e = tr_UserID t) (List.map_filter (event_of t) raws) \<and> pm_returned p'"
proof -
  have step: "pump t (Sample raw True # rs) q =
      (case event_of t raw of None \<Rightarrow> pump t rs (q\<lparr>pm_decodeFailures := pm_decodeFailures q + 1\<rparr>) | Some e \<Rightarrow> pump t rs (q\<lparr>pm_out := pm_out q @ [e]\<rparr>))" for raw rs q
    by (auto simp: event_of_def split: sum.splits option.splits)
  have "pm_out (pump t (map (\<lambda>raw. Sample raw True) rs @ ReadFailed # rest) q) = pm_out q @ List.map_filter (event_of t) rs \<and>
      pm_decodeFailures (pump t (map (\<lambda>raw. Sample raw True) rs @ ReadFailed # rest) q) + of_nat (length (List.map_filter (event_of t) rs)) = pm_decodeFailures q + of_nat (length rs) \<and>
      pm_returned (pump t (map (\<lambda>raw. Sample raw True) rs @ ReadFailed # rest) q)" for rs q
  proof (induction rs arbitrary: q)
    case (Cons raw rs)
    show ?case using Cons[of "q\<lparr>pm_decodeFailures := pm_decodeFailures q + 1\<rparr>"] Cons[of "q\<lparr>pm_out := pm_out q @ [the (event_of t raw)]\<rparr>"]
      by (cases "event_of t raw") (simp_all only: list.map append_Cons step option.case, simp_all add: List.map_filter_def algebra_simps)
  qed (simp add: List.map_filter_def)
  moreover have "list_all (\<lambda>e. valid_event e \<and> ev_DeviceID e = tr_DeviceID t \<and> ev_UserID e = tr_UserID t) (List.map_filter (event_of t) rs)" for rs
    by (induction rs) (auto simp: List.map_filter_def dest: event_of_valid)
  ultimately show ?thesis unfolding Let_def by (auto simp: algebra_simps)
qed

text \<open>What the random generator promises.\<close>

definition rand_ok :: "'r Rand \<Rightarrow> bool" where
  "rand_ok rand \<longleftrightarrow> (\<forall>r. 0 \<le> fst (rd_Float64 rand r) \<and> fst (rd_Float64 rand r) < 1) \<and>
     (\<forall>n r. 0 < n \<longrightarrow> 0 \<le> fst (rd_Intn rand n r) \<and> fst (rd_Intn rand n r) < n) \<and> (\<forall>n r. 0 < n \<longrightarrow> 0 \<le> fst (rd_Int63n rand n r) \<and> fst (rd_Int63n rand n r) < n)"

lemma latency_bounds:
  assumes "rand_ok rand" and "2 * sy_BaseLatency c \<le> MaxInt64" "2 * sy_TailLatency c \<le> MaxInt64"
  shows "0 < fst (latency rand c r)" "fst (latency rand c r) \<le> 2 * max (max millisecond (sy_BaseLatency c)) (max (50 * millisecond) (sy_TailLatency c))"
proof -
  define b where "b = (if sy_BaseLatency c \<le> 0 then millisecond else sy_BaseLatency c)"
  define l where "l = (if sy_TailLatency c \<le> 0 then 50 * millisecond else sy_TailLatency c)"
  define draw where "draw = (if 0 < sy_TailFraction c then rd_Float64 rand r else (1, r))"
  define x where "x = (if 0 < sy_TailFraction c \<and> fst draw < sy_TailFraction c then l else b)"
  have "0 < b \<and> b \<le> max millisecond (sy_BaseLatency c) \<and> 2 * b \<le> MaxInt64" "0 < l \<and> l \<le> max (50 * millisecond) (sy_TailLatency c) \<and> 2 * l \<le> MaxInt64"
    using assms(2,3) by (auto simp: b_def l_def millisecond_def MaxInt64_def)
  then have x: "0 < x" "x \<le> max (max millisecond (sy_BaseLatency c)) (max (50 * millisecond) (sy_TailLatency c))" "2 * x \<le> MaxInt64"
    unfolding x_def by auto
  define r' where "r' = snd draw"
  have fst: "fst (latency rand c r) = wrap64 (x + fst (rd_Int63n rand x r'))"
    by (simp add: latency_def Let_def split_beta r'_def x_def draw_def b_def l_def)
  have j: "0 \<le> fst (rd_Int63n rand x r')" "fst (rd_Int63n rand x r') < x" using assms(1) x(1) by (auto simp: rand_ok_def)
  with x(1,3) have "in_i64 (x + fst (rd_Int63n rand x r'))" by (simp add: in_i64_def MinInt64_def MaxInt64_def)
  with x(1,2) fst j show "0 < fst (latency rand c r)" "fst (latency rand c r) \<le> 2 * max (max millisecond (sy_BaseLatency c)) (max (50 * millisecond) (sy_TailLatency c))"
    by simp_all
qed

text \<open>The turns in which the goroutine sends: not stopped, the event received and the pause, if any, over.\<close>

definition smooth :: "SyntheticConfig \<Rightarrow> synth_turn \<Rightarrow> bool" where
  "smooth c t \<longleftrightarrow> \<not> sy_stopped t \<and> sy_received t \<and> (0 < sy_Interval c \<longrightarrow> sy_waited t)"

definition synthetic_event :: "SyntheticConfig \<Rightarrow> nat \<Rightarrow> Event \<Rightarrow> bool" where
  "synthetic_event c i e \<longleftrightarrow> valid_event e \<and> ev_DeviceID e = sy_DeviceID c \<and> ev_UserID e = sy_UserID c \<and>
     ev_ProcessID e = sy_ProcessIDs c ! (i mod length (sy_ProcessIDs c)) \<and> 64 \<le> ev_Bytes e \<and> ev_Bytes e < 1088 \<and>
     ev_LatencyNanos e \<le> 2 * max (max millisecond (sy_BaseLatency c)) (max (50 * millisecond) (sy_TailLatency c))"

lemma next_event_synthetic:
  assumes "rand_ok rand" "SyntheticConfig_validate (sn_config s) = None" "\<not> IsZero now"
    "2 * sy_BaseLatency (sn_config s) \<le> MaxInt64" "2 * sy_TailLatency (sn_config s) \<le> MaxInt64"
  shows "synthetic_event (sn_config s) i (fst (next_event rand now i s))" "sn_config (snd (next_event rand now i s)) = sn_config s"
proof -
  have n: "0 \<le> fst (rd_Intn rand 1024 r) \<and> fst (rd_Intn rand 1024 r) < 1024" for r using assms(1) by (simp add: rand_ok_def)
  have ids: "sy_DeviceID (sn_config s) \<noteq> []" "sy_UserID (sn_config s) \<noteq> []" using assms(2) by (auto simp: SyntheticConfig_validate_def split: if_splits)
  show "synthetic_event (sn_config s) i (fst (next_event rand now i s))"
    using latency_bounds[OF assms(1,4,5), of "sn_random s"] n[of "snd (latency rand (sn_config s) (sn_random s))"] ids assms(3)
    by (simp add: synthetic_event_def next_event_def Let_def split_beta valid_event_def EventKindSyscall_def)
  show "sn_config (snd (next_event rand now i s)) = sn_config s" by (simp add: next_event_def Let_def split_beta)
qed

text \<open>
  The synthetic source. A source that was built emits only valid events of its device and user, its processes in turn, sizes and latencies within their
  bounds, and never more than configured; when every turn sends, it emits exactly the configured number and returns.
\<close>

theorem synthetic_events:
  assumes "NewSyntheticSource c seeded = Inr s" and "rand_ok rand" and "2 * sy_BaseLatency c \<le> MaxInt64" "2 * sy_TailLatency c \<le> MaxInt64"
    and "\<forall>t \<in> set ts. \<not> IsZero (sy_now t)" and "Synthetic_Events rand ts s = Inr (returned, out, s')"
  shows "(\<forall>i < length out. synthetic_event c i (out ! i)) \<and> int (length out) \<le> sy_EventCount c \<and>
    (list_all (smooth c) ts \<and> length ts = nat (sy_EventCount c) \<longrightarrow> returned \<and> int (length out) = sy_EventCount c)"
proof -
  have c: "SyntheticConfig_validate c = None" "sn_config s = c" "\<not> sn_closed s" using assms(1) by (auto simp: NewSyntheticSource_def split: option.splits)
  have main: "(\<forall>i < length out'. synthetic_event c i (out' ! i)) \<and> int (length out') \<le> sy_EventCount c \<and>
      (list_all (smooth c) us \<and> length us = nat (sy_EventCount c) - length acc \<longrightarrow> ret \<and> int (length out') = sy_EventCount c)"
    if "synth_run rand (length acc) us s1 acc = (ret, out', s2)" "sn_config s1 = c" "\<forall>i < length acc. synthetic_event c i (acc ! i)"
      "int (length acc) \<le> sy_EventCount c" "\<forall>t \<in> set us. \<not> IsZero (sy_now t)" for us s1 acc ret out' s2
    using that
  proof (induction us arbitrary: s1 acc)
    case (Cons t us)
    show ?case
    proof (cases "int (length acc) < sy_EventCount c")
      case True
      obtain e s3 where ev: "next_event rand (sy_now t) (length acc) s1 = (e, s3)" by fastforce
      have e: "synthetic_event c (length acc) e" "sn_config s3 = c"
        using next_event_synthetic[OF assms(2), of s1 "sy_now t" "length acc"] ev Cons.prems(2,5) c(1) assms(3,4) by auto
      have acc: "\<forall>i < length (acc @ [e]). synthetic_event c i ((acc @ [e]) ! i)" using Cons.prems(3) e(1) by (simp add: nth_append less_Suc_eq)
      show ?thesis
      proof (cases "smooth c t")
        case sm: True
        have run: "synth_run rand (length (acc @ [e])) us s3 (acc @ [e]) = (ret, out', s2)"
          using Cons.prems(1,2) True ev sm by (simp add: smooth_def split: if_splits)
        show ?thesis using Cons.IH[OF run e(2) acc] True Cons.prems(5) by (auto simp: Suc_diff_Suc)
      next
        case False
        then have "out' = acc \<or> out' = acc @ [e]" using Cons.prems(1,2) True ev by (auto simp: smooth_def split: if_splits)
        then show ?thesis using acc Cons.prems(3,4) True False by auto
      qed
    next
      case False
      then show ?thesis using Cons.prems by auto
    qed
  qed auto
  from main[of "[]" ts s returned out s'] assms(5,6) c show ?thesis by (auto simp: Synthetic_Events_def SyntheticConfig_validate_def split: if_splits)
qed

definition ex_rand :: "unit Rand" where
  "ex_rand = \<lparr>rd_Float64 = \<lambda>r. (0, r), rd_Intn = \<lambda>n r. (0, r), rd_Int63n = \<lambda>n r. (0, r)\<rparr>"

definition ex_synthetic :: SyntheticConfig where
  "ex_synthetic = \<lparr>sy_DeviceID = ''d'', sy_UserID = ''u'', sy_PodID = ''p'', sy_ProcessIDs = [5, 6], sy_EventCount = 2, sy_Interval = 0, sy_ErrorRate = 0,
     sy_BaseLatency = 10, sy_TailLatency = 20, sy_TailFraction = 0\<rparr>"

definition ex_synth_turn :: synth_turn where
  "ex_synth_turn = \<lparr>sy_now = 9, sy_stopped = False, sy_received = True, sy_waited = True\<rparr>"

theorem synthetic_events_witness:
  "\<exists>out s'. Synthetic_Events ex_rand [ex_synth_turn, ex_synth_turn] \<lparr>sn_config = ex_synthetic, sn_random = (), sn_closed = False\<rparr> = Inr (True, out, s') \<and> length out = 2 \<and>
     (\<forall>i < 2. synthetic_event ex_synthetic i (out ! i))"
proof -
  let ?s = "\<lparr>sn_config = ex_synthetic, sn_random = (), sn_closed = False\<rparr> :: unit SyntheticSource"
  have new: "NewSyntheticSource ex_synthetic () = Inr ?s" by (simp add: NewSyntheticSource_def SyntheticConfig_validate_def ex_synthetic_def)
  have ok: "rand_ok ex_rand" "2 * sy_BaseLatency ex_synthetic \<le> MaxInt64" "2 * sy_TailLatency ex_synthetic \<le> MaxInt64"
    by (simp_all add: rand_ok_def ex_rand_def ex_synthetic_def MaxInt64_def)
  have live: "\<forall>t \<in> set [ex_synth_turn, ex_synth_turn]. \<not> IsZero (sy_now t)" by (simp add: ex_synth_turn_def IsZero_def zero_time_def)
  obtain ret out s' where run: "Synthetic_Events ex_rand [ex_synth_turn, ex_synth_turn] ?s = Inr (ret, out, s')"
    by (cases "Synthetic_Events ex_rand [ex_synth_turn, ex_synth_turn] ?s") (auto simp: Synthetic_Events_def)
  have "list_all (smooth ex_synthetic) [ex_synth_turn, ex_synth_turn]" "length [ex_synth_turn, ex_synth_turn] = nat (sy_EventCount ex_synthetic)"
    by (simp_all add: smooth_def ex_synth_turn_def ex_synthetic_def)
  with synthetic_events[OF new ok live run] run show ?thesis by (auto simp: ex_synthetic_def)
qed

end
