(* ===== verification/WindowTyping.thy ===== *)
theory WindowTyping
  imports Aggregator
begin

text \<open>
  That the aggregator keeps to the types of the program (\<^verbatim>\<open>internal/aggregate\<close>): integers of the model are unbounded, the fields of the structures are
  \<^verbatim>\<open>int64\<close>, and identifiers are required. Every state a client can reach, and every window it is given, stays within them.
\<close>

definition key_typed :: "CorrelationKey \<Rightarrow> bool" where
  "key_typed k \<longleftrightarrow> ck_UserID k \<noteq> [] \<and> ck_DeviceID k \<noteq> []"

definition window_typed :: "duration \<Rightarrow> AggregateWindow \<Rightarrow> bool" where
  "window_typed window_size w \<longleftrightarrow>
     key_typed (w_Key w) \<and> in_i64 (w_WindowID w) \<and> in_i64 (w_Sequence w) \<and> in_i64 (w_Count w) \<and> in_i64 (w_ErrorCount w) \<and> in_i64 (w_Bytes w) \<and>
     in_i64 (w_WindowStart w) \<and> w_WindowEnd w = w_WindowStart w + window_size"

definition open_typed :: "windowKey \<times> 's windowState \<Rightarrow> bool" where
  "open_typed ks \<longleftrightarrow> key_typed (wk_correlation (fst ks)) \<and> in_i64 (wk_windowID (fst ks)) \<and>
     in_i64 (ws_count (snd ks)) \<and> in_i64 (ws_errorCount (snd ks)) \<and> in_i64 (ws_bytes (snd ks))"

definition aggregator_typed :: "'s Aggregator \<Rightarrow> bool" where
  "aggregator_typed a \<longleftrightarrow>
     (\<forall>ks \<in> set (ag_open a). open_typed ks) \<and> (\<forall>iw \<in> set (ag_pending a). window_typed (cfg_WindowSize (ag_config a)) (snd iw)) \<and>
     in_i64 (ag_sequence a) \<and> in_i64 (ag_shed a) \<and> 0 < cfg_WindowSize (ag_config a)"

lemma in_i64_0 [simp]: "in_i64 0"
  by (simp add: in_i64_def MinInt64_def MaxInt64_def)

lemma set_alist_update: "set (AList.update k v m) \<subseteq> insert (k, v) (set m)"
  by (induction m) auto

lemma set_alist_delete: "set (AList.delete k m) \<subseteq> set m"
  by (induction m) auto

lemma WindowID_i64:
  assumes "0 < cfg_WindowSize (ag_config a)"
  shows "in_i64 (WindowID a t)"
proof -
  let ?n = "UnixNano t" and ?s = "cfg_WindowSize (ag_config a)"
  have n: "in_i64 ?n" by (simp add: UnixNano_def)
  have "\<bar>?n\<bar> div ?s \<le> \<bar>?n\<bar>" "0 \<le> \<bar>?n\<bar> div ?s" using assms zdiv_mono2[of "\<bar>?n\<bar>" 1 ?s] by (simp_all add: pos_imp_zdiv_nonneg_iff)
  moreover have "WindowID a t = sgn ?n * (\<bar>?n\<bar> div ?s)" using assms by (simp add: WindowID_def signed_divide_int_def)
  ultimately show ?thesis using n by (auto simp: sgn_if in_i64_def MinInt64_def MaxInt64_def)
qed

lemma absorb_typed: "open_typed (k, st) \<Longrightarrow> open_typed (k, absorb qs e st)"
  by (simp add: open_typed_def absorb_def)

lemma event_key_typed:
  "valid_event e \<Longrightarrow> aggregator_typed a \<Longrightarrow> open_typed (event_key a e, \<lparr>ws_count = 0, ws_errorCount = 0, ws_bytes = 0, ws_sketch = sk\<rparr>)"
  by (simp add: open_typed_def event_key_def key_typed_def Event_CorrelationKey_def valid_event_def aggregator_typed_def WindowID_i64)

lemma ingestLocked_typed:
  assumes "aggregator_typed a" and "valid_event e" and "ingestLocked qs e a = (r, a')"
  shows "aggregator_typed a'"
proof (rule ingestLocked_cases[of qs e a])
  fix sk
  assume "ingestLocked qs e a = (None, a\<lparr>ag_open := ag_open a @ [(event_key a e, absorb qs e \<lparr>ws_count = 0, ws_errorCount = 0, ws_bytes = 0, ws_sketch = sk\<rparr>)]\<rparr>)"
  with assms absorb_typed[OF event_key_typed[OF assms(2,1), of sk], of qs e] show ?thesis by (fastforce simp: aggregator_typed_def)
next
  fix st
  assume known: "ingestLocked qs e a = (None, a\<lparr>ag_open := AList.update (event_key a e) (absorb qs e st) (ag_open a)\<rparr>)" "map_of (ag_open a) (event_key a e) = Some st"
  then have "open_typed (event_key a e, absorb qs e st)" using assms(1) by (auto simp: aggregator_typed_def intro: absorb_typed dest: map_of_SomeD)
  with assms known show ?thesis using set_alist_update[of "event_key a e" "absorb qs e st" "ag_open a"] by (fastforce simp: aggregator_typed_def)
qed (use assms in \<open>auto simp: aggregator_typed_def\<close>)

lemma ingest_all_typed:
  "aggregator_typed a \<Longrightarrow> \<forall>e \<in> set es. valid_event e \<Longrightarrow> ingest_all qs es a = (r, a') \<Longrightarrow> aggregator_typed a'"
proof (induction es arbitrary: a)
  case (Cons e es)
  obtain r1 a1 where s: "ingestLocked qs e a = (r1, a1)" by fastforce
  have "aggregator_typed a1" by (rule ingestLocked_typed[OF Cons.prems(1) _ s]) (use Cons.prems(2) in simp)
  with Cons s show ?case by (auto split: option.splits if_splits)
qed simp

lemma make_window_typed:
  assumes "open_typed (key, st)" and "in_i64 n"
  shows "window_typed (cfg_WindowSize c) (make_window qs c key st sk n p95 p99)"
  using assms by (simp add: window_typed_def open_typed_def make_window_def Let_def Unix_def)

text \<open>A collection returns windows that were pending or were made from open windows.\<close>

lemma collect_loop_typed:
  assumes "collect_loop qs keys windows a = (r, a')" and "aggregator_typed a" and "\<forall>w \<in> set windows. window_typed (cfg_WindowSize (ag_config a)) w"
  shows "aggregator_typed a' \<and> (\<forall>ws. r = Inr ws \<longrightarrow> (\<forall>w \<in> set ws. window_typed (cfg_WindowSize (ag_config a)) w))"
  using assms
proof (induction keys arbitrary: windows a)
  case (Cons key keys)
  show ?case
  proof (cases "map_of (ag_open a) key")
    case None
    with Cons.IH[of windows a] Cons.prems show ?thesis by simp
  next
    case (Some st)
    then have st: "open_typed (key, st)" using Cons.prems(2) by (auto simp: aggregator_typed_def dest: map_of_SomeD)
    then have kept: "aggregator_typed (a\<lparr>ag_open := AList.update key (st\<lparr>ws_sketch := sk\<rparr>) (ag_open a)\<rparr>)" for sk
      using Cons.prems(2) set_alist_update[of key "st\<lparr>ws_sketch := sk\<rparr>" "ag_open a"] by (auto simp: aggregator_typed_def open_typed_def)
    let ?n = "wrap64 (ag_sequence a + 1)"
    let ?w = "\<lambda>sk p95 p99. make_window qs (ag_config a) key st sk ?n p95 p99"
    have w: "window_typed (cfg_WindowSize (ag_config a)) (?w sk p95 p99)" for sk p95 p99 by (rule make_window_typed[OF st]) simp
    have emitted: "aggregator_typed (a\<lparr>ag_sequence := ?n, ag_open := AList.delete key (ag_open a), ag_pending := AList.update (Identity (?w sk p95 p99)) (?w sk p95 p99) (ag_pending a)\<rparr>)"
      for sk p95 p99
      using Cons.prems(2) w[of sk p95 p99] set_alist_delete[of key "ag_open a"] set_alist_update[of "Identity (?w sk p95 p99)" "?w sk p95 p99" "ag_pending a"]
      by (auto simp: aggregator_typed_def)
    obtain r1 sk1 where q1: "qs_Quantile qs 0.95 (ws_sketch st) = (r1, sk1)" by fastforce
    obtain r2 sk2 where q2: "qs_Quantile qs 0.99 sk1 = (r2, sk2)" by fastforce
    show ?thesis
    proof (cases "(\<exists>e. r1 = Inl e) \<or> (\<exists>e. r2 = Inl e)")
      case True
      then show ?thesis using Cons.prems(1) Some q1 q2 kept by (cases r1; cases r2) auto
    next
      case False
      then obtain p95 p99 where "r1 = Inr p95" "r2 = Inr p99" by (cases r1; cases r2) auto
      with Cons.prems(1) Some q1 q2 have "collect_loop qs keys (windows @ [?w sk2 p95 p99])
          (a\<lparr>ag_sequence := ?n, ag_open := AList.delete key (ag_open a), ag_pending := AList.update (Identity (?w sk2 p95 p99)) (?w sk2 p95 p99) (ag_pending a)\<rparr>) = (r, a')"
        by (simp add: Let_def)
      from Cons.IH[OF this emitted] Cons.prems(3) w show ?thesis by auto
    qed
  qed
qed auto

lemma collect_typed:
  assumes "collect qs incl a = (r, a')" and "aggregator_typed a"
  shows "aggregator_typed a' \<and> (\<forall>ws. r = Inr ws \<longrightarrow> (\<forall>w \<in> set ws. window_typed (cfg_WindowSize (ag_config a)) w))"
  using assms by (intro collect_loop_typed[of qs "sort (filter incl (map fst (ag_open a)))" "sort_key Identity (map snd (ag_pending a))"])
    (auto simp: collect_def Let_def aggregator_typed_def)

lemma Commit_typed: "aggregator_typed a \<Longrightarrow> aggregator_typed (Commit ws a)"
  unfolding aggregator_typed_def using Commit_filter[of ws a] by auto

inductive_cases agg_stepE: "agg_step qs a a'"

lemma agg_step_typed: "agg_step qs a a' \<Longrightarrow> aggregator_typed a \<Longrightarrow> aggregator_typed a'"
proof (erule agg_stepE)
qed (auto simp: Ingest_def IngestBatch_def CollectWindowsBefore_def CollectAll_def CloseWindowsBefore_def Flush_def Let_def Event_Validate_None validate_all_None Commit_typed
  dest: ingestLocked_typed ingest_all_typed collect_typed split: option.splits prod.splits sum.splits)

lemma agg_steps_typed: "(agg_step qs)\<^sup>*\<^sup>* a a' \<Longrightarrow> aggregator_typed a \<Longrightarrow> aggregator_typed a'"
  by (induction rule: rtranclp_induct) (auto dest: agg_step_typed)

lemma NewAggregator_typed:
  "NewAggregator now c = Inr a \<Longrightarrow> in_i64 (cfg_SequenceSeed c) \<Longrightarrow> aggregator_typed a"
  by (auto simp: NewAggregator_def Let_def aggregator_typed_def AggConfig_validate_def UnixNano_def split: if_splits option.splits)

section \<open>Property\<close>



end
