(* ===== verification/Wire.thy ===== *)
theory Wire
  imports Domain
begin

text \<open>
  The codecs between the services (\<^verbatim>\<open>internal/wire/codec.go\<close>) and the command codec
  (\<^verbatim>\<open>internal/kafkabus/codec.go\<close>): the messages of the schema and their translation from and to
  the domain. Marshalling a message to bytes is third-party code, a field of the record \<open>Marshallers\<close> per message type.
  The lemmas say what a decoded value keeps of the encoded one, in every format.
\<close>

definition ErrUnknownFormat :: error where [go_error_defs]: "ErrUnknownFormat = Err ''wire: unknown codec format''"
definition ErrKindOutOfRange :: error where [go_error_defs]: "ErrKindOutOfRange = Err ''wire: event kind is outside the domain range''"

definition FormatJSON :: string where "FormatJSON = ''json''"
definition FormatProtobuf :: string where "FormatProtobuf = ''protobuf''"

section \<open>Messages\<close>

record pb_Event =
  pe_DeviceId :: string
  pe_UserId :: string
  pe_ProcessId :: int
  pe_PodId :: string
  pe_Kind :: "32 word"
  pe_ObservedAtUnixNanos :: int
  pe_LatencyNanos :: int
  pe_Bytes :: int
  pe_Failed :: bool

record pb_Batch =
  pb_DeviceId :: string
  pb_CreatedAtUnixNanos :: int
  pb_Events :: "pb_Event list"

record pb_AggregateWindow =
  pw_UserId :: string
  pw_DeviceId :: string
  pw_ProcessId :: int
  pw_PodId :: string
  pw_WindowId :: int
  pw_Sequence :: int
  pw_WindowStartUnixNanos :: int
  pw_WindowEndUnixNanos :: int
  pw_Count :: int
  pw_ErrorCount :: int
  pw_Bytes :: int
  pw_P95Nanos :: int
  pw_P99Nanos :: int
  pw_MaxNanos :: int

record jsonEvent =
  je_DeviceID :: string
  je_UserID :: string
  je_ProcessID :: int
  je_PodID :: string
  je_Kind :: "8 word"
  je_ObservedAt :: int
  je_LatencyNanos :: int
  je_Bytes :: int
  je_Failed :: bool

record jsonBatch =
  jb_DeviceID :: string
  jb_CreatedAt :: int
  jb_Events :: "jsonEvent list"

record jsonWindow =
  jw_UserID :: string
  jw_DeviceID :: string
  jw_ProcessID :: int
  jw_PodID :: string
  jw_WindowID :: int
  jw_Sequence :: int
  jw_WindowStart :: int
  jw_WindowEnd :: int
  jw_Count :: int
  jw_ErrorCount :: int
  jw_Bytes :: int
  jw_P95Nanos :: int
  jw_P99Nanos :: int
  jw_MaxNanos :: int

record commandPayload =
  cp_Kind :: "8 word"
  cp_UserID :: string
  cp_DeviceID :: string
  cp_Actor :: string
  cp_IssuedAt :: int

text \<open>The marshalling functions of the Protobuf and JSON packages, at the message types of the program.\<close>

record Marshallers =
  proto_MarshalBatch :: "pb_Batch \<Rightarrow> error + bytes"
  proto_UnmarshalBatch :: "bytes \<Rightarrow> error + pb_Batch"
  proto_MarshalWindow :: "pb_AggregateWindow \<Rightarrow> error + bytes"
  proto_UnmarshalWindow :: "bytes \<Rightarrow> error + pb_AggregateWindow"
  json_MarshalBatch :: "jsonBatch \<Rightarrow> error + bytes"
  json_UnmarshalBatch :: "bytes \<Rightarrow> error + jsonBatch"
  json_MarshalWindow :: "jsonWindow \<Rightarrow> error + bytes"
  json_UnmarshalWindow :: "bytes \<Rightarrow> error + jsonWindow"
  json_MarshalCommand :: "commandPayload \<Rightarrow> error + bytes"
  json_UnmarshalCommand :: "bytes \<Rightarrow> error + commandPayload"

definition wrap_error :: "string \<Rightarrow> error + 'a \<Rightarrow> error + 'a" where
  "wrap_error msg r = (case r of Inl err \<Rightarrow> Inl (Wrap msg err) | Inr x \<Rightarrow> Inr x)"

record Codec =
  cd_Name :: string
  cd_EncodeBatch :: "Batch \<Rightarrow> error + bytes"
  cd_DecodeBatch :: "bytes \<Rightarrow> error + Batch"
  cd_EncodeWindow :: "AggregateWindow \<Rightarrow> error + bytes"
  cd_DecodeWindow :: "bytes \<Rightarrow> error + AggregateWindow"

section \<open>Protobuf\<close>

definition pb_event :: "Event \<Rightarrow> pb_Event" where
  "pb_event e = \<lparr>pe_DeviceId = ev_DeviceID e, pe_UserId = ev_UserID e, pe_ProcessId = ev_ProcessID e, pe_PodId = ev_PodID e, pe_Kind = ucast (ev_Kind e),
     pe_ObservedAtUnixNanos = UnixNano (ev_ObservedAt e), pe_LatencyNanos = ev_LatencyNanos e, pe_Bytes = ev_Bytes e, pe_Failed = ev_Failed e\<rparr>"

definition pb_batch :: "Batch \<Rightarrow> pb_Batch" where
  "pb_batch b = \<lparr>pb_DeviceId = b_DeviceID b, pb_CreatedAtUnixNanos = UnixNano (b_CreatedAt b), pb_Events = map pb_event (b_Events b)\<rparr>"

definition Protobuf_EncodeBatch :: "Marshallers \<Rightarrow> Batch \<Rightarrow> error + bytes" where
  "Protobuf_EncodeBatch M b = wrap_error ''wire: encoding batch'' (proto_MarshalBatch M (pb_batch b))"

definition from_pb_event :: "pb_Event \<Rightarrow> Event" where
  "from_pb_event e = \<lparr>ev_DeviceID = pe_DeviceId e, ev_UserID = pe_UserId e, ev_ProcessID = pe_ProcessId e, ev_PodID = pe_PodId e, ev_Kind = ucast (pe_Kind e),
     ev_ObservedAt = Unix (pe_ObservedAtUnixNanos e), ev_LatencyNanos = pe_LatencyNanos e, ev_Bytes = pe_Bytes e, ev_Failed = pe_Failed e\<rparr>"

fun decode_events :: "pb_Event list \<Rightarrow> Event list \<Rightarrow> error + Event list" where
  "decode_events [] acc = Inr acc"
| "decode_events (e # es) acc =
     (if 255 < uint (pe_Kind e) then Inl (Wrap (AppendInt (uint (pe_Kind e))) ErrKindOutOfRange)
      else decode_events es (acc @ [from_pb_event e]))"

definition created_at :: "int \<Rightarrow> time" where
  "created_at nanos = (if 0 < nanos then Unix nanos else zero_time)"

definition Protobuf_DecodeBatch :: "Marshallers \<Rightarrow> bytes \<Rightarrow> error + Batch" where
  "Protobuf_DecodeBatch M raw =
     (case wrap_error ''wire: decoding batch'' (proto_UnmarshalBatch M raw) of
        Inl err \<Rightarrow> Inl err
      | Inr message \<Rightarrow>
          (case decode_events (pb_Events message) [] of
             Inl err \<Rightarrow> Inl err
           | Inr events \<Rightarrow> Inr \<lparr>b_DeviceID = pb_DeviceId message, b_CreatedAt = created_at (pb_CreatedAtUnixNanos message), b_Events = events\<rparr>))"

definition pb_window :: "AggregateWindow \<Rightarrow> pb_AggregateWindow" where
  "pb_window w = \<lparr>pw_UserId = ck_UserID (w_Key w), pw_DeviceId = ck_DeviceID (w_Key w), pw_ProcessId = ck_ProcessID (w_Key w), pw_PodId = ck_PodID (w_Key w),
     pw_WindowId = w_WindowID w, pw_Sequence = w_Sequence w, pw_WindowStartUnixNanos = UnixNano (w_WindowStart w), pw_WindowEndUnixNanos = UnixNano (w_WindowEnd w),
     pw_Count = w_Count w, pw_ErrorCount = w_ErrorCount w, pw_Bytes = w_Bytes w, pw_P95Nanos = w_P95Nanos w, pw_P99Nanos = w_P99Nanos w, pw_MaxNanos = w_MaxNanos w\<rparr>"

definition Protobuf_EncodeWindow :: "Marshallers \<Rightarrow> AggregateWindow \<Rightarrow> error + bytes" where
  "Protobuf_EncodeWindow M w = wrap_error ''wire: encoding window'' (proto_MarshalWindow M (pb_window w))"

definition from_pb_window :: "pb_AggregateWindow \<Rightarrow> AggregateWindow" where
  "from_pb_window m = \<lparr>w_Key = CorrelationKey (pw_UserId m) (pw_DeviceId m) (pw_ProcessId m) (pw_PodId m), w_WindowID = pw_WindowId m, w_Sequence = pw_Sequence m,
     w_WindowStart = Unix (pw_WindowStartUnixNanos m), w_WindowEnd = Unix (pw_WindowEndUnixNanos m), w_Count = pw_Count m, w_ErrorCount = pw_ErrorCount m,
     w_Bytes = pw_Bytes m, w_P95Nanos = pw_P95Nanos m, w_P99Nanos = pw_P99Nanos m, w_MaxNanos = pw_MaxNanos m\<rparr>"

definition Protobuf_DecodeWindow :: "Marshallers \<Rightarrow> bytes \<Rightarrow> error + AggregateWindow" where
  "Protobuf_DecodeWindow M raw =
     (case wrap_error ''wire: decoding window'' (proto_UnmarshalWindow M raw) of Inl err \<Rightarrow> Inl err | Inr message \<Rightarrow> Inr (from_pb_window message))"

definition Protobuf :: "Marshallers \<Rightarrow> Codec" where
  "Protobuf M = \<lparr>cd_Name = FormatProtobuf, cd_EncodeBatch = Protobuf_EncodeBatch M, cd_DecodeBatch = Protobuf_DecodeBatch M,
     cd_EncodeWindow = Protobuf_EncodeWindow M, cd_DecodeWindow = Protobuf_DecodeWindow M\<rparr>"

section \<open>JSON\<close>

definition json_event :: "Event \<Rightarrow> jsonEvent" where
  "json_event e = \<lparr>je_DeviceID = ev_DeviceID e, je_UserID = ev_UserID e, je_ProcessID = ev_ProcessID e, je_PodID = ev_PodID e, je_Kind = ev_Kind e,
     je_ObservedAt = UnixNano (ev_ObservedAt e), je_LatencyNanos = ev_LatencyNanos e, je_Bytes = ev_Bytes e, je_Failed = ev_Failed e\<rparr>"

definition json_batch :: "Batch \<Rightarrow> jsonBatch" where
  "json_batch b = \<lparr>jb_DeviceID = b_DeviceID b, jb_CreatedAt = UnixNano (b_CreatedAt b), jb_Events = map json_event (b_Events b)\<rparr>"

definition JSON_EncodeBatch :: "Marshallers \<Rightarrow> Batch \<Rightarrow> error + bytes" where
  "JSON_EncodeBatch M b = wrap_error ''wire: encoding batch'' (json_MarshalBatch M (json_batch b))"

definition from_json_event :: "jsonEvent \<Rightarrow> Event" where
  "from_json_event e = \<lparr>ev_DeviceID = je_DeviceID e, ev_UserID = je_UserID e, ev_ProcessID = je_ProcessID e, ev_PodID = je_PodID e, ev_Kind = je_Kind e,
     ev_ObservedAt = Unix (je_ObservedAt e), ev_LatencyNanos = je_LatencyNanos e, ev_Bytes = je_Bytes e, ev_Failed = je_Failed e\<rparr>"

definition JSON_DecodeBatch :: "Marshallers \<Rightarrow> bytes \<Rightarrow> error + Batch" where
  "JSON_DecodeBatch M raw =
     (case wrap_error ''wire: decoding batch'' (json_UnmarshalBatch M raw) of
        Inl err \<Rightarrow> Inl err
      | Inr payload \<Rightarrow> Inr \<lparr>b_DeviceID = jb_DeviceID payload, b_CreatedAt = created_at (jb_CreatedAt payload), b_Events = map from_json_event (jb_Events payload)\<rparr>)"

definition json_window :: "AggregateWindow \<Rightarrow> jsonWindow" where
  "json_window w = \<lparr>jw_UserID = ck_UserID (w_Key w), jw_DeviceID = ck_DeviceID (w_Key w), jw_ProcessID = ck_ProcessID (w_Key w), jw_PodID = ck_PodID (w_Key w),
     jw_WindowID = w_WindowID w, jw_Sequence = w_Sequence w, jw_WindowStart = UnixNano (w_WindowStart w), jw_WindowEnd = UnixNano (w_WindowEnd w),
     jw_Count = w_Count w, jw_ErrorCount = w_ErrorCount w, jw_Bytes = w_Bytes w, jw_P95Nanos = w_P95Nanos w, jw_P99Nanos = w_P99Nanos w, jw_MaxNanos = w_MaxNanos w\<rparr>"

definition JSON_EncodeWindow :: "Marshallers \<Rightarrow> AggregateWindow \<Rightarrow> error + bytes" where
  "JSON_EncodeWindow M w = wrap_error ''wire: encoding window'' (json_MarshalWindow M (json_window w))"

definition from_json_window :: "jsonWindow \<Rightarrow> AggregateWindow" where
  "from_json_window m = \<lparr>w_Key = CorrelationKey (jw_UserID m) (jw_DeviceID m) (jw_ProcessID m) (jw_PodID m), w_WindowID = jw_WindowID m, w_Sequence = jw_Sequence m,
     w_WindowStart = Unix (jw_WindowStart m), w_WindowEnd = Unix (jw_WindowEnd m), w_Count = jw_Count m, w_ErrorCount = jw_ErrorCount m,
     w_Bytes = jw_Bytes m, w_P95Nanos = jw_P95Nanos m, w_P99Nanos = jw_P99Nanos m, w_MaxNanos = jw_MaxNanos m\<rparr>"

definition JSON_DecodeWindow :: "Marshallers \<Rightarrow> bytes \<Rightarrow> error + AggregateWindow" where
  "JSON_DecodeWindow M raw =
     (case wrap_error ''wire: decoding window'' (json_UnmarshalWindow M raw) of Inl err \<Rightarrow> Inl err | Inr payload \<Rightarrow> Inr (from_json_window payload))"

definition JSON :: "Marshallers \<Rightarrow> Codec" where
  "JSON M = \<lparr>cd_Name = FormatJSON, cd_EncodeBatch = JSON_EncodeBatch M, cd_DecodeBatch = JSON_DecodeBatch M,
     cd_EncodeWindow = JSON_EncodeWindow M, cd_DecodeWindow = JSON_DecodeWindow M\<rparr>"

definition For :: "Marshallers \<Rightarrow> string \<Rightarrow> error + Codec" where
  "For M format =
     (if format = FormatJSON \<or> format = [] then Inr (JSON M)
      else if format = FormatProtobuf then Inr (Protobuf M)
      else Inl (Wrap format ErrUnknownFormat))"

section \<open>Commands (kafkabus/codec.go)\<close>

definition command_payload :: "Command \<Rightarrow> commandPayload" where
  "command_payload c = \<lparr>cp_Kind = c_Kind c, cp_UserID = c_UserID c, cp_DeviceID = c_DeviceID c, cp_Actor = c_Actor c, cp_IssuedAt = UnixNano (c_IssuedAt c)\<rparr>"

definition EncodeCommand :: "Marshallers \<Rightarrow> Command \<Rightarrow> error + bytes" where
  "EncodeCommand M c = wrap_error ''kafkabus: encoding command'' (json_MarshalCommand M (command_payload c))"

definition DecodeCommand :: "Marshallers \<Rightarrow> bytes \<Rightarrow> error + Command" where
  "DecodeCommand M raw =
     (case wrap_error ''kafkabus: decoding command'' (json_UnmarshalCommand M raw) of
        Inl err \<Rightarrow> Inl err
      | Inr p \<Rightarrow> Inr \<lparr>c_Kind = cp_Kind p, c_UserID = cp_UserID p, c_DeviceID = cp_DeviceID p, c_Actor = cp_Actor p, c_IssuedAt = Unix (cp_IssuedAt p)\<rparr>)"

section \<open>What a trip keeps\<close>

text \<open>
  A trip reduces instants to their 64-bit nanoseconds, and a batch keeps its creation time only when it is after the epoch.
\<close>

definition normal_event :: "Event \<Rightarrow> Event" where
  "normal_event e = e\<lparr>ev_ObservedAt := UnixNano (ev_ObservedAt e)\<rparr>"

definition normal_batch :: "Batch \<Rightarrow> Batch" where
  "normal_batch b = \<lparr>b_DeviceID = b_DeviceID b, b_CreatedAt = created_at (UnixNano (b_CreatedAt b)), b_Events = map normal_event (b_Events b)\<rparr>"

definition normal_window :: "AggregateWindow \<Rightarrow> AggregateWindow" where
  "normal_window w = w\<lparr>w_WindowStart := UnixNano (w_WindowStart w), w_WindowEnd := UnixNano (w_WindowEnd w)\<rparr>"

definition normal_command :: "Command \<Rightarrow> Command" where
  "normal_command c = c\<lparr>c_IssuedAt := UnixNano (c_IssuedAt c)\<rparr>"

text \<open>The marshalling functions read back the message they wrote for one value.\<close>

definition pb_batch_back :: "Marshallers \<Rightarrow> Batch \<Rightarrow> bool" where
  "pb_batch_back M b \<longleftrightarrow> (\<forall>raw. proto_MarshalBatch M (pb_batch b) = Inr raw \<longrightarrow> proto_UnmarshalBatch M raw = Inr (pb_batch b))"
definition json_batch_back :: "Marshallers \<Rightarrow> Batch \<Rightarrow> bool" where
  "json_batch_back M b \<longleftrightarrow> (\<forall>raw. json_MarshalBatch M (json_batch b) = Inr raw \<longrightarrow> json_UnmarshalBatch M raw = Inr (json_batch b))"
definition pb_window_back :: "Marshallers \<Rightarrow> AggregateWindow \<Rightarrow> bool" where
  "pb_window_back M w \<longleftrightarrow> (\<forall>raw. proto_MarshalWindow M (pb_window w) = Inr raw \<longrightarrow> proto_UnmarshalWindow M raw = Inr (pb_window w))"
definition json_window_back :: "Marshallers \<Rightarrow> AggregateWindow \<Rightarrow> bool" where
  "json_window_back M w \<longleftrightarrow> (\<forall>raw. json_MarshalWindow M (json_window w) = Inr raw \<longrightarrow> json_UnmarshalWindow M raw = Inr (json_window w))"
definition command_back :: "Marshallers \<Rightarrow> Command \<Rightarrow> bool" where
  "command_back M c \<longleftrightarrow> (\<forall>raw. json_MarshalCommand M (command_payload c) = Inr raw \<longrightarrow> json_UnmarshalCommand M raw = Inr (command_payload c))"

lemmas back_defs = pb_batch_back_def json_batch_back_def pb_window_back_def json_window_back_def command_back_def

text \<open>
  The contract of an encoder and a decoder: a value whose message is read back arrives in its normal form, and normal forms are fixed. What is
  forwarded then arrives as it did the first time.
\<close>

locale codec =
  fixes encode :: "'a \<Rightarrow> error + bytes" and decode :: "bytes \<Rightarrow> error + 'a" and reads :: "'a \<Rightarrow> bool" and normal :: "'a \<Rightarrow> 'a"
  assumes decode_encode: "encode x = Inr raw \<Longrightarrow> reads x \<Longrightarrow> decode raw = Inr (normal x)"
    and normal_idem: "normal (normal x) = normal x"
begin

fun hops :: "nat \<Rightarrow> 'a \<Rightarrow> error + 'a" where
  "hops 0 x = Inr x"
| "hops (Suc n) x = (case encode x of Inl err \<Rightarrow> Inl err | Inr raw \<Rightarrow> (case decode raw of Inl err \<Rightarrow> Inl err | Inr y \<Rightarrow> hops n y))"

lemma hops_normal: "reads (normal x) \<Longrightarrow> hops n (normal x) = Inr y \<Longrightarrow> y = normal x"
  by (induction n) (auto simp: decode_encode normal_idem split: sum.splits)

lemma hops_once:
  assumes "reads x" "reads (normal x)" "hops (Suc n) x = Inr y"
  shows "y = normal x"
  using assms hops_normal[of x n y] by (auto simp: decode_encode split: sum.splits)

end

lemma UnixNano_idem [simp]: "UnixNano (UnixNano t) = UnixNano t"
  by (simp add: UnixNano_def)

lemma created_at_idem [simp]: "created_at (UnixNano (created_at (UnixNano t))) = created_at (UnixNano t)"
  by (auto simp: created_at_def Unix_def) (simp_all add: UnixNano_def zero_time_def wrap64_def)

lemma kind_ucast [simp]: "ucast (ucast (k :: 8 word) :: 32 word) = k" "uint (ucast (k :: 8 word) :: 32 word) = uint k"
proof -
  have u: "uint (ucast k :: 32 word) = uint k" using uint_lt2p[of k] by (simp add: unsigned_ucast_eq take_bit_eq_mod)
  then show "uint (ucast k :: 32 word) = uint k" .
  show "ucast (ucast k :: 32 word) = k" by (rule bit_word_eqI) (auto simp: bit_unsigned_iff)
qed

lemma from_pb_event [simp]: "from_pb_event (pb_event e) = normal_event e"
  by (simp add: from_pb_event_def pb_event_def normal_event_def Unix_def)

lemma from_json_event [simp]: "from_json_event (json_event e) = normal_event e"
  by (simp add: from_json_event_def json_event_def normal_event_def Unix_def)

lemma kind_in_range: "\<not> 255 < uint (pe_Kind (pb_event e))"
  using uint_lt2p[of "ev_Kind e"] by (simp add: pb_event_def)

lemma decode_events_pb_event: "decode_events (map pb_event es) acc = Inr (acc @ map normal_event es)"
  by (induction es arbitrary: acc) (simp_all add: kind_in_range)

lemma normal_idems [simp]:
  "normal_event (normal_event e) = normal_event e" "normal_window (normal_window w) = normal_window w" "normal_command (normal_command c) = normal_command c"
  by (simp_all add: normal_event_def normal_window_def normal_command_def)

lemma normal_batch_idem [simp]: "normal_batch (normal_batch b) = normal_batch b"
  by (simp add: normal_batch_def comp_def)

interpretation pb_batches: codec "Protobuf_EncodeBatch M" "Protobuf_DecodeBatch M" "pb_batch_back M" normal_batch
proof unfold_locales
  fix b raw
  assume "Protobuf_EncodeBatch M b = Inr raw" "pb_batch_back M b"
  then have "proto_UnmarshalBatch M raw = Inr (pb_batch b)" by (auto simp: Protobuf_EncodeBatch_def wrap_error_def back_defs split: sum.splits)
  then show "Protobuf_DecodeBatch M raw = Inr (normal_batch b)"
    by (simp add: Protobuf_DecodeBatch_def wrap_error_def pb_batch_def decode_events_pb_event normal_batch_def)
qed simp

interpretation json_batches: codec "JSON_EncodeBatch M" "JSON_DecodeBatch M" "json_batch_back M" normal_batch
proof unfold_locales
  fix b raw
  assume "JSON_EncodeBatch M b = Inr raw" "json_batch_back M b"
  then have "json_UnmarshalBatch M raw = Inr (json_batch b)" by (auto simp: JSON_EncodeBatch_def wrap_error_def back_defs split: sum.splits)
  then show "JSON_DecodeBatch M raw = Inr (normal_batch b)"
    by (simp add: JSON_DecodeBatch_def wrap_error_def json_batch_def normal_batch_def comp_def)
qed simp

interpretation pb_windows: codec "Protobuf_EncodeWindow M" "Protobuf_DecodeWindow M" "pb_window_back M" normal_window
proof unfold_locales
  fix w raw
  assume "Protobuf_EncodeWindow M w = Inr raw" "pb_window_back M w"
  then have "proto_UnmarshalWindow M raw = Inr (pb_window w)" by (auto simp: Protobuf_EncodeWindow_def wrap_error_def back_defs split: sum.splits)
  then show "Protobuf_DecodeWindow M raw = Inr (normal_window w)"
    by (simp add: Protobuf_DecodeWindow_def wrap_error_def pb_window_def from_pb_window_def normal_window_def Unix_def)
qed simp

interpretation json_windows: codec "JSON_EncodeWindow M" "JSON_DecodeWindow M" "json_window_back M" normal_window
proof unfold_locales
  fix w raw
  assume "JSON_EncodeWindow M w = Inr raw" "json_window_back M w"
  then have "json_UnmarshalWindow M raw = Inr (json_window w)" by (auto simp: JSON_EncodeWindow_def wrap_error_def back_defs split: sum.splits)
  then show "JSON_DecodeWindow M raw = Inr (normal_window w)"
    by (simp add: JSON_DecodeWindow_def wrap_error_def json_window_def from_json_window_def normal_window_def Unix_def)
qed simp

interpretation commands: codec "EncodeCommand M" "DecodeCommand M" "command_back M" normal_command
proof unfold_locales
  fix c raw
  assume "EncodeCommand M c = Inr raw" "command_back M c"
  then have "json_UnmarshalCommand M raw = Inr (command_payload c)" by (auto simp: EncodeCommand_def wrap_error_def back_defs split: sum.splits)
  then show "DecodeCommand M raw = Inr (normal_command c)"
    by (simp add: DecodeCommand_def wrap_error_def command_payload_def normal_command_def Unix_def)
qed simp

section \<open>Properties\<close>

lemma wrap64_fixed: "wrap64 t = t \<longleftrightarrow> in_i64 t"
  by (metis wrap64_in_i64 wrap64_id)

text \<open>The values that a trip leaves as they are.\<close>

definition exact_batch :: "Batch \<Rightarrow> bool" where
  "exact_batch b \<longleftrightarrow> (IsZero (b_CreatedAt b) \<or> (0 < b_CreatedAt b \<and> in_i64 (b_CreatedAt b))) \<and> (\<forall>e \<in> set (b_Events b). in_i64 (ev_ObservedAt e))"

lemma normal_event_fixed: "normal_event e = e \<longleftrightarrow> in_i64 (ev_ObservedAt e)"
proof -
  have "normal_event e = e \<longleftrightarrow> ev_ObservedAt (normal_event e) = ev_ObservedAt e" by (cases e) (simp add: normal_event_def)
  then show ?thesis by (simp add: normal_event_def UnixNano_def wrap64_fixed)
qed

lemma created_at_fixed: "created_at (UnixNano t) = t \<longleftrightarrow> IsZero t \<or> (0 < t \<and> in_i64 t)"
proof (cases "0 < wrap64 t")
  case True
  then show ?thesis using wrap64_fixed[of t] by (auto simp: created_at_def UnixNano_def Unix_def IsZero_def zero_time_def wrap64_def)
next
  case False
  then show ?thesis by (auto simp: created_at_def UnixNano_def IsZero_def)
qed

lemma normal_batch_fixed: "normal_batch b = b \<longleftrightarrow> exact_batch b"
proof -
  have "normal_batch b = b \<longleftrightarrow> created_at (UnixNano (b_CreatedAt b)) = b_CreatedAt b \<and> map normal_event (b_Events b) = b_Events b"
    by (cases b) (simp add: normal_batch_def)
  moreover have "map normal_event es = es \<longleftrightarrow> (\<forall>e \<in> set es. in_i64 (ev_ObservedAt e))" for es
    by (induction es) (simp_all add: normal_event_fixed)
  ultimately show ?thesis by (simp add: created_at_fixed exact_batch_def)
qed

lemma normal_window_fixed: "normal_window w = w \<longleftrightarrow> in_i64 (w_WindowStart w) \<and> in_i64 (w_WindowEnd w)"
  by (cases w) (simp add: normal_window_def UnixNano_def wrap64_fixed)

lemma valid_normal_event: "valid_event e \<Longrightarrow> valid_event (normal_event e)"
  using Unix_not_zero[OF wrap64_in_i64, of "ev_ObservedAt e"] by (simp add: valid_event_def normal_event_def UnixNano_def Unix_def)

lemma valid_normal_batch: "Batch_Validate b = None \<Longrightarrow> Batch_Validate (normal_batch b) = None"
  by (auto simp: Batch_Validate_None normal_batch_def intro: valid_normal_event) (simp add: normal_event_def)

lemma For_cases: "For M format = Inr cd \<Longrightarrow> cd = JSON M \<or> cd = Protobuf M"
  by (auto simp: For_def split: if_splits)

text \<open>Marshalling functions for one batch, one window and one command, used to show that the hypotheses can hold.\<close>

definition ex_marshallers :: "Batch \<Rightarrow> AggregateWindow \<Rightarrow> Command \<Rightarrow> Marshallers" where
  "ex_marshallers b w c = \<lparr>proto_MarshalBatch = \<lambda>_. Inr ''b'', proto_UnmarshalBatch = \<lambda>_. Inr (pb_batch b),
     proto_MarshalWindow = \<lambda>_. Inr ''w'', proto_UnmarshalWindow = \<lambda>_. Inr (pb_window w), json_MarshalBatch = \<lambda>_. Inr ''b'',
     json_UnmarshalBatch = \<lambda>_. Inr (json_batch b), json_MarshalWindow = \<lambda>_. Inr ''w'', json_UnmarshalWindow = \<lambda>_. Inr (json_window w),
     json_MarshalCommand = \<lambda>_. Inr ''c'', json_UnmarshalCommand = \<lambda>_. Inr (command_payload c)\<rparr>"

lemma ex_marshallers_back:
  "pb_batch_back (ex_marshallers b w c) b" "json_batch_back (ex_marshallers b w c) b" "pb_window_back (ex_marshallers b w c) w"
  "json_window_back (ex_marshallers b w c) w" "command_back (ex_marshallers b w c) c"
  by (simp_all add: back_defs ex_marshallers_def)

definition ex_wire_batch :: Batch where
  "ex_wire_batch = \<lparr>b_DeviceID = ''d'', b_CreatedAt = zero_time, b_Events = [\<lparr>ev_DeviceID = ''d'', ev_UserID = ''u'', ev_ProcessID = 7, ev_PodID = ''p'',
     ev_Kind = 2, ev_ObservedAt = 5, ev_LatencyNanos = 1, ev_Bytes = 2, ev_Failed = True\<rparr>]\<rparr>"

definition ex_wire_window :: AggregateWindow where
  "ex_wire_window = \<lparr>w_Key = CorrelationKey ''u'' ''d'' 7 ''p'', w_WindowID = 1, w_Sequence = 0, w_WindowStart = 0, w_WindowEnd = 10, w_Count = 1, w_ErrorCount = 0,
     w_Bytes = 2, w_P95Nanos = 1, w_P99Nanos = 1, w_MaxNanos = 1\<rparr>"

definition ex_wire_command :: Command where
  "ex_wire_command = \<lparr>c_Kind = CommandResetCounters, c_UserID = ''u'', c_DeviceID = ''d'', c_Actor = ''a'', c_IssuedAt = 3\<rparr>"

lemma For_Protobuf: "For M FormatProtobuf = Inr (Protobuf M)"
  by (simp add: For_def FormatProtobuf_def FormatJSON_def)

text \<open>
  Property C27 (batches survive the wire). In every format, a batch whose message is read back decodes to its normal form, which is the batch itself exactly when its creation
  time is zero or after the epoch and every instant fits 64-bit nanoseconds; a valid batch stays valid.
\<close>

theorem wire_batch_roundtrip:
  assumes "For M format = Inr cd" and "pb_batch_back M b" "json_batch_back M b" and "cd_EncodeBatch cd b = Inr raw"
  shows "cd_DecodeBatch cd raw = Inr (normal_batch b) \<and> (normal_batch b = b \<longleftrightarrow> exact_batch b) \<and>
    (Batch_Validate b = None \<longrightarrow> Batch_Validate (normal_batch b) = None)"
  using For_cases[OF assms(1)] assms(2-) pb_batches.decode_encode[of M b raw] json_batches.decode_encode[of M b raw]
  by (auto simp: JSON_def Protobuf_def normal_batch_fixed intro: valid_normal_batch)

theorem wire_batch_roundtrip_witness:
  "Protobuf_DecodeBatch (ex_marshallers ex_wire_batch ex_wire_window ex_wire_command) ''b'' = Inr ex_wire_batch"
proof -
  let ?M = "ex_marshallers ex_wire_batch ex_wire_window ex_wire_command"
  have enc: "cd_EncodeBatch (Protobuf ?M) ex_wire_batch = Inr ''b''" by (simp add: Protobuf_def Protobuf_EncodeBatch_def wrap_error_def ex_marshallers_def)
  have "exact_batch ex_wire_batch" by (simp add: exact_batch_def ex_wire_batch_def IsZero_def in_i64_def MinInt64_def MaxInt64_def)
  with wire_batch_roundtrip[OF For_Protobuf ex_marshallers_back(1,2) enc] show ?thesis by (simp add: Protobuf_def)
qed

text \<open>
  Property C28 (windows survive the wire). In every format, a window whose message is read back decodes to a window with the same counters, percentiles and key and with the
  same identity, by which redeliveries are recognised; it is the same window exactly when its bounds fit 64-bit nanoseconds.
\<close>

theorem wire_window_roundtrip:
  assumes "For M format = Inr cd" and "pb_window_back M w" "json_window_back M w" and "cd_EncodeWindow cd w = Inr raw"
  shows "cd_DecodeWindow cd raw = Inr (normal_window w) \<and> Identity (normal_window w) = Identity w \<and>
    (normal_window w = w \<longleftrightarrow> in_i64 (w_WindowStart w) \<and> in_i64 (w_WindowEnd w))"
  using For_cases[OF assms(1)] assms(2-) pb_windows.decode_encode[of M w raw] json_windows.decode_encode[of M w raw]
  by (auto simp: JSON_def Protobuf_def normal_window_fixed) (simp_all add: normal_window_def Identity_def)

theorem wire_window_roundtrip_witness:
  "Protobuf_DecodeWindow (ex_marshallers ex_wire_batch ex_wire_window ex_wire_command) ''w'' = Inr ex_wire_window"
proof -
  let ?M = "ex_marshallers ex_wire_batch ex_wire_window ex_wire_command"
  have enc: "cd_EncodeWindow (Protobuf ?M) ex_wire_window = Inr ''w''" by (simp add: Protobuf_def Protobuf_EncodeWindow_def wrap_error_def ex_marshallers_def)
  have "in_i64 (w_WindowStart ex_wire_window)" "in_i64 (w_WindowEnd ex_wire_window)" by (simp_all add: ex_wire_window_def in_i64_def MinInt64_def MaxInt64_def)
  with wire_window_roundtrip[OF For_Protobuf ex_marshallers_back(3,4) enc] show ?thesis by (simp add: Protobuf_def)
qed

text \<open>
  Event kinds are checked. A Protobuf batch with an event kind beyond a byte is refused, naming the first such kind, and every batch that
  is accepted carries the kinds of its message.
\<close>

theorem wire_kind_checked:
  assumes "proto_UnmarshalBatch M raw = Inr message"
  shows "case Protobuf_DecodeBatch M raw of
      Inl err \<Rightarrow> errors_Is err ErrKindOutOfRange \<and> (\<exists>e \<in> set (pb_Events message). 255 < uint (pe_Kind e))
    | Inr b \<Rightarrow> map (\<lambda>e. uint (ev_Kind e)) (b_Events b) = map (\<lambda>e. uint (pe_Kind e)) (pb_Events message)"
proof -
  have low: "\<not> 255 < uint k \<Longrightarrow> uint (ucast k :: 8 word) = uint k" for k :: "32 word"
    by (simp add: unsigned_ucast_eq take_bit_eq_mod)
  have "case decode_events es acc of
      Inl err \<Rightarrow> errors_Is err ErrKindOutOfRange \<and> (\<exists>e \<in> set es. 255 < uint (pe_Kind e))
    | Inr evs \<Rightarrow> map (\<lambda>e. uint (ev_Kind e)) evs = map (\<lambda>e. uint (ev_Kind e)) acc @ map (\<lambda>e. uint (pe_Kind e)) es" for es acc
  proof (induction es arbitrary: acc)
    case (Cons e es)
    show ?case using Cons[of "acc @ [from_pb_event e]"] low[of "pe_Kind e"] by (auto simp: from_pb_event_def split: sum.splits)
  qed simp
  from this[of "pb_Events message" "[]"] assms show ?thesis by (auto simp: Protobuf_DecodeBatch_def wrap_error_def split: sum.splits)
qed

theorem wire_kind_checked_witness:
  "\<exists>err. Protobuf_DecodeBatch ((ex_marshallers ex_wire_batch ex_wire_window ex_wire_command)\<lparr>proto_UnmarshalBatch :=
      \<lambda>_. Inr \<lparr>pb_DeviceId = ''d'', pb_CreatedAtUnixNanos = 0, pb_Events = [(pb_event (hd (b_Events ex_wire_batch)))\<lparr>pe_Kind := 256\<rparr>]\<rparr>\<rparr>) ''b'' = Inl err \<and>
    errors_Is err ErrKindOutOfRange"
proof -
  let ?e = "(pb_event (hd (b_Events ex_wire_batch)))\<lparr>pe_Kind := 256\<rparr>"
  let ?m = "\<lparr>pb_DeviceId = ''d'', pb_CreatedAtUnixNanos = 0, pb_Events = [?e]\<rparr>"
  let ?M = "(ex_marshallers ex_wire_batch ex_wire_window ex_wire_command)\<lparr>proto_UnmarshalBatch := \<lambda>_. Inr ?m\<rparr>"
  have read: "proto_UnmarshalBatch ?M ''b'' = Inr ?m" by simp
  have "uint (ev_Kind e) \<noteq> 256" for e :: Event using uint_lt2p[of "ev_Kind e"] by simp
  with wire_kind_checked[OF read] show ?thesis by (auto split: sum.splits)
qed

end
