(* ===== verification/Kafka.thy ===== *)
theory Kafka
  imports Wire Services "HOL-Library.Sublist"
begin

text \<open>
  The Kafka channel (\<^verbatim>\<open>internal/kafkabus\<close>): its security options, the producer, and the consumer with its retries, dead letters
  and offset commits. The Kafka client is third-party code: making and closing a client, producing, fetching and committing are parameters. The state
  records which dead letters and which commits the broker acknowledged. The lemmas say which records a commit may cover.
\<close>

section \<open>Security (security.go)\<close>

definition ErrIncompleteKeyPair :: error where [go_error_defs]: "ErrIncompleteKeyPair = Err ''kafkabus: both a client certificate and key are required for mTLS''"
definition ErrIncompleteSASL :: error where [go_error_defs]: "ErrIncompleteSASL = Err ''kafkabus: both a SASL username and password are required''"
definition ErrKafkaEmptyCABundle :: error where [go_error_defs]: "ErrKafkaEmptyCABundle = Err ''kafkabus: CA bundle contained no certificates''"
definition ErrInsecureWithoutTLS :: error where
  [go_error_defs]: "ErrInsecureWithoutTLS = Err ''kafkabus: SASL credentials require TLS so they are not sent in the clear''"

record Security =
  sec_Enabled :: bool
  sec_CAFile :: string
  sec_CertFile :: string
  sec_KeyFile :: string
  sec_SASLUser :: string
  sec_SASLPassword :: string
  sec_InsecureSkipVerify :: bool
  sec_ServerName :: string

definition Security_validate :: "Security \<Rightarrow> error option" where
  "Security_validate s =
     (if \<not> sec_Enabled s then (if sec_SASLUser s \<noteq> [] \<or> sec_SASLPassword s \<noteq> [] then Some ErrInsecureWithoutTLS else None)
      else if (sec_CertFile s = []) \<noteq> (sec_KeyFile s = []) then Some ErrIncompleteKeyPair
      else if (sec_SASLUser s = []) \<noteq> (sec_SASLPassword s = []) then Some ErrIncompleteSASL
      else None)"

record ('cert, 'pool) kafka_tls =
  kt_InsecureSkipVerify :: bool
  kt_ServerName :: string
  kt_RootCAs :: "'pool option"
  kt_Certificate :: "'cert option"

text \<open>The client options the code uses.\<close>

datatype ('cert, 'pool) kgo_Opt =
    SeedBrokers "string list" | DefaultProduceTopic string | RequiredAcksAllISR | SnappyCompression | StickyKeyPartitioner | AllowAutoTopicCreation
  | ConsumerGroup string | ConsumeTopics string | DisableAutoCommit | ConsumeFromStart
  | DialTLSConfig "('cert, 'pool) kafka_tls" | ScramSha512 string string

text \<open>Reading a file, parsing a certificate bundle and loading a key pair are parameters.\<close>

record ('cert, 'pool) cert_env =
  ce_ReadFile :: "string \<Rightarrow> error + bytes"
  ce_AppendCertsFromPEM :: "bytes \<Rightarrow> 'pool option"
  ce_LoadX509KeyPair :: "string \<Rightarrow> string \<Rightarrow> error + 'cert"

definition load_roots :: "('cert, 'pool) cert_env \<Rightarrow> Security \<Rightarrow> error + 'pool option" where
  "load_roots env s =
     (if sec_CAFile s = [] then Inr None
      else case ce_ReadFile env (sec_CAFile s) of
        Inl err \<Rightarrow> Inl (Wrap ''kafkabus: reading CA bundle'' err)
      | Inr pem \<Rightarrow> (case ce_AppendCertsFromPEM env pem of None \<Rightarrow> Inl ErrKafkaEmptyCABundle | Some pool \<Rightarrow> Inr (Some pool)))"

definition load_certificate :: "('cert, 'pool) cert_env \<Rightarrow> Security \<Rightarrow> error + 'cert option" where
  "load_certificate env s =
     (if sec_CertFile s = [] then Inr None
      else case ce_LoadX509KeyPair env (sec_CertFile s) (sec_KeyFile s) of
        Inl err \<Rightarrow> Inl (Wrap ''kafkabus: loading client certificate'' err)
      | Inr cert \<Rightarrow> Inr (Some cert))"

definition Security_options :: "('cert, 'pool) cert_env \<Rightarrow> Security \<Rightarrow> error + ('cert, 'pool) kgo_Opt list" where
  "Security_options env s =
     (case Security_validate s of
        Some err \<Rightarrow> Inl err
      | None \<Rightarrow>
          if \<not> sec_Enabled s then Inr []
          else case load_roots env s of
            Inl err \<Rightarrow> Inl err
          | Inr roots \<Rightarrow>
              (case load_certificate env s of
                 Inl err \<Rightarrow> Inl err
               | Inr cert \<Rightarrow>
                   Inr (DialTLSConfig \<lparr>kt_InsecureSkipVerify = sec_InsecureSkipVerify s, kt_ServerName = sec_ServerName s, kt_RootCAs = roots, kt_Certificate = cert\<rparr>
                     # (if sec_SASLUser s \<noteq> [] then [ScramSha512 (sec_SASLUser s) (sec_SASLPassword s)] else []))))"

section \<open>Configuration (bus.go)\<close>

definition ErrNoBrokers :: error where [go_error_defs]: "ErrNoBrokers = Err ''kafkabus: at least one broker is required''"
definition ErrNoTopic :: error where [go_error_defs]: "ErrNoTopic = Err ''kafkabus: topic is required''"
definition ErrNoGroup :: error where [go_error_defs]: "ErrNoGroup = Err ''kafkabus: consumer group is required''"
definition ErrNoDeadTopic :: error where
  [go_error_defs]: "ErrNoDeadTopic = Err ''kafkabus: dead letter topic is required when max attempts is exceeded''"

definition MetricPublished :: string where "MetricPublished = ''kafka_published''"
definition MetricConsumed :: string where "MetricConsumed = ''kafka_consumed''"
definition MetricRetried :: string where "MetricRetried = ''kafka_retried''"
definition MetricDeadLetter :: string where "MetricDeadLetter = ''kafka_dead_letter''"

definition DeadLetterReasonHeader :: string where "DeadLetterReasonHeader = ''ironclaw-dlq-reason''"
definition DeadLetterOriginHeader :: string where "DeadLetterOriginHeader = ''ironclaw-dlq-origin''"

text \<open>\<open>kc_Codec\<close> is nil or a codec; the default codec is JSON.\<close>

record KafkaConfig =
  kc_Brokers :: "string list"
  kc_Topic :: string
  kc_Group :: string
  kc_DeadLetterTopic :: string
  kc_MaxAttempts :: int
  kc_Security :: Security
  kc_Codec :: "Codec option"

definition kafka_codec :: "Marshallers \<Rightarrow> KafkaConfig \<Rightarrow> Codec" where
  "kafka_codec M c = (case kc_Codec c of None \<Rightarrow> JSON M | Some cd \<Rightarrow> cd)"

definition validateProducer :: "KafkaConfig \<Rightarrow> error option" where
  "validateProducer c = (if kc_Brokers c = [] then Some ErrNoBrokers else if kc_Topic c = [] then Some ErrNoTopic else None)"

definition validateConsumer :: "KafkaConfig \<Rightarrow> error option" where
  "validateConsumer c =
     (case validateProducer c of
        Some err \<Rightarrow> Some err
      | None \<Rightarrow> if kc_Group c = [] then Some ErrNoGroup else None)"

text \<open>Making a client and closing it act on the state \<open>'k\<close> of the client library.\<close>

record ('cert, 'pool, 'c, 'k) kgo =
  kgo_NewClient :: "('cert, 'pool) kgo_Opt list \<Rightarrow> 'k \<Rightarrow> (error + 'c) \<times> 'k"
  kgo_Close :: "'c \<Rightarrow> 'k \<Rightarrow> 'k"

record 'c Producer =
  kp_client :: 'c
  kp_topic :: string
  kp_codec :: Codec

definition NewProducer :: "Marshallers \<Rightarrow> ('cert, 'pool) cert_env \<Rightarrow> ('cert, 'pool, 'c, 'k) kgo \<Rightarrow> KafkaConfig \<Rightarrow> 'k \<Rightarrow> (error + 'c Producer) \<times> 'k" where
  "NewProducer M env lib c k =
     (case validateProducer c of
        Some err \<Rightarrow> (Inl err, k)
      | None \<Rightarrow>
          (case Security_options env (kc_Security c) of
             Inl err \<Rightarrow> (Inl err, k)
           | Inr secure \<Rightarrow>
               (case kgo_NewClient lib ([SeedBrokers (kc_Brokers c), DefaultProduceTopic (kc_Topic c), RequiredAcksAllISR, SnappyCompression, StickyKeyPartitioner,
                    AllowAutoTopicCreation] @ secure) k of
                  (Inl err, k1) \<Rightarrow> (Inl (Wrap ''kafkabus: creating producer'' err), k1)
                | (Inr client, k1) \<Rightarrow> (Inr \<lparr>kp_client = client, kp_topic = kc_Topic c, kp_codec = kafka_codec M c\<rparr>, k1))))"

record 'c Consumer =
  kn_client :: 'c
  kn_deadLetter :: "'c option"
  kn_deadLetterTopic :: string
  kn_maxAttempts :: int
  kn_codec :: Codec

definition NewConsumer :: "Marshallers \<Rightarrow> ('cert, 'pool) cert_env \<Rightarrow> ('cert, 'pool, 'c, 'k) kgo \<Rightarrow> KafkaConfig \<Rightarrow> 'k \<Rightarrow> (error + 'c Consumer) \<times> 'k" where
  "NewConsumer M env lib c k =
     (case validateConsumer c of
        Some err \<Rightarrow> (Inl err, k)
      | None \<Rightarrow>
          let attempts = (if kc_MaxAttempts c \<le> 0 then 1 else kc_MaxAttempts c)
          in if 1 < attempts \<and> kc_DeadLetterTopic c = [] then (Inl ErrNoDeadTopic, k)
             else case Security_options env (kc_Security c) of
               Inl err \<Rightarrow> (Inl err, k)
             | Inr secure \<Rightarrow>
                 (case kgo_NewClient lib ([SeedBrokers (kc_Brokers c), ConsumerGroup (kc_Group c), ConsumeTopics (kc_Topic c), DisableAutoCommit, ConsumeFromStart] @ secure) k of
                    (Inl err, k1) \<Rightarrow> (Inl (Wrap ''kafkabus: creating consumer'' err), k1)
                  | (Inr client, k1) \<Rightarrow>
                      let consumer = \<lparr>kn_client = client, kn_deadLetter = None, kn_deadLetterTopic = kc_DeadLetterTopic c, kn_maxAttempts = attempts, kn_codec = kafka_codec M c\<rparr>
                      in if kc_DeadLetterTopic c = [] then (Inr consumer, k1)
                         else case kgo_NewClient lib ([SeedBrokers (kc_Brokers c), DefaultProduceTopic (kc_DeadLetterTopic c), AllowAutoTopicCreation] @ secure) k1 of
                           (Inl err, k2) \<Rightarrow> (Inl (Wrap ''kafkabus: creating dead letter producer'' err), kgo_Close lib client k2)
                         | (Inr dead, k2) \<Rightarrow> (Inr (consumer\<lparr>kn_deadLetter := Some dead\<rparr>), k2)))"

definition Producer_Close :: "('cert, 'pool, 'c, 'k) kgo \<Rightarrow> 'c Producer \<Rightarrow> 'k \<Rightarrow> 'k" where
  "Producer_Close lib p k = kgo_Close lib (kp_client p) k"

definition Consumer_Close :: "('cert, 'pool, 'c, 'k) kgo \<Rightarrow> 'c Consumer \<Rightarrow> 'k \<Rightarrow> 'k" where
  "Consumer_Close lib c k =
     (let k1 = kgo_Close lib (kn_client c) k
      in case kn_deadLetter c of None \<Rightarrow> k1 | Some dead \<Rightarrow> kgo_Close lib dead k1)"

record 'c Channel =
  ch_producer :: "'c Producer"
  ch_consumer :: "'c Consumer"

definition NewChannel :: "Marshallers \<Rightarrow> ('cert, 'pool) cert_env \<Rightarrow> ('cert, 'pool, 'c, 'k) kgo \<Rightarrow> KafkaConfig \<Rightarrow> 'k \<Rightarrow> (error + 'c Channel) \<times> 'k" where
  "NewChannel M env lib c k =
     (case NewProducer M env lib c k of
        (Inl err, k1) \<Rightarrow> (Inl err, k1)
      | (Inr producer, k1) \<Rightarrow>
          (case NewConsumer M env lib c k1 of
             (Inl err, k2) \<Rightarrow> (Inl err, Producer_Close lib producer k2)
           | (Inr consumer, k2) \<Rightarrow> (Inr \<lparr>ch_producer = producer, ch_consumer = consumer\<rparr>, k2)))"

definition Channel_Close :: "('cert, 'pool, 'c, 'k) kgo \<Rightarrow> 'c Channel \<Rightarrow> 'k \<Rightarrow> 'k" where
  "Channel_Close lib ch k = Consumer_Close lib (ch_consumer ch) (Producer_Close lib (ch_producer ch) k)"

section \<open>Producing\<close>

record KafkaRecord =
  kr_Topic :: string
  kr_Key :: bytes
  kr_Value :: bytes
  kr_Headers :: "(string \<times> bytes) list"

text \<open>
  Producing a record synchronously is a parameter; the recorder acts on a state of its own. \<open>carrier\<close> is the trace context as key and value pairs,
  in the order in which the runtime iterates over them.
\<close>

type_synonym ('c, 'k) produce_sync = "'c \<Rightarrow> ctx \<Rightarrow> KafkaRecord \<Rightarrow> 'k \<Rightarrow> error option \<times> 'k"

definition kafka_record :: "'m MetricsRecorder \<Rightarrow> string \<Rightarrow> int \<Rightarrow> 'm \<Rightarrow> 'm" where
  "kafka_record met name delta m = (case met of None \<Rightarrow> m | Some increment \<Rightarrow> increment name delta m)"

definition traceHeaders :: "(string \<times> string) list \<Rightarrow> (string \<times> bytes) list" where
  "traceHeaders carrier = (if carrier = [] then [] else map (\<lambda>(key, v). (key, v)) carrier)"

definition kafka_send :: "('c, 'k) produce_sync \<Rightarrow> 'm MetricsRecorder \<Rightarrow> 'c Producer \<Rightarrow> (string \<times> string) list \<Rightarrow> ctx \<Rightarrow> string \<Rightarrow> bytes \<Rightarrow> 'k \<times> 'm
    \<Rightarrow> error option \<times> ('k \<times> 'm)" where
  "kafka_send produce met p carrier ctx partitionKey payload s =
     (case produce (kp_client p) ctx \<lparr>kr_Topic = kp_topic p, kr_Key = partitionKey, kr_Value = payload, kr_Headers = traceHeaders carrier\<rparr> (fst s) of
        (Some err, k) \<Rightarrow> (Some (Wrap (''kafkabus: producing to '' @ kp_topic p) err), (k, snd s))
      | (None, k) \<Rightarrow> (None, (k, kafka_record met MetricPublished 1 (snd s))))"

definition Producer_Publish :: "('c, 'k) produce_sync \<Rightarrow> 'm MetricsRecorder \<Rightarrow> 'c Producer \<Rightarrow> (string \<times> string) list \<Rightarrow> ctx \<Rightarrow> string \<Rightarrow> Batch \<Rightarrow> 'k \<times> 'm
    \<Rightarrow> error option \<times> ('k \<times> 'm)" where
  "Producer_Publish produce met p carrier ctx partitionKey batch s =
     (case cd_EncodeBatch (kp_codec p) batch of
        Inl err \<Rightarrow> (Some err, s)
      | Inr payload \<Rightarrow> kafka_send produce met p carrier ctx partitionKey payload s)"

definition Producer_PublishCommand :: "Marshallers \<Rightarrow> ('c, 'k) produce_sync \<Rightarrow> 'm MetricsRecorder \<Rightarrow> 'c Producer \<Rightarrow> (string \<times> string) list \<Rightarrow> ctx \<Rightarrow> Command \<Rightarrow> 'k \<times> 'm
    \<Rightarrow> error option \<times> ('k \<times> 'm)" where
  "Producer_PublishCommand M produce met p carrier ctx command s =
     (case Command_Validate command of
        Some err \<Rightarrow> (Some err, s)
      | None \<Rightarrow>
          (case EncodeCommand M command of
             Inl err \<Rightarrow> (Some err, s)
           | Inr payload \<Rightarrow> kafka_send produce met p carrier ctx (Command_ShardTag command) payload s))"

definition Producer_PublishWindow :: "('c, 'k) produce_sync \<Rightarrow> 'm MetricsRecorder \<Rightarrow> 'c Producer \<Rightarrow> (string \<times> string) list \<Rightarrow> ctx \<Rightarrow> AggregateWindow \<Rightarrow> 'k \<times> 'm
    \<Rightarrow> error option \<times> ('k \<times> 'm)" where
  "Producer_PublishWindow produce met p carrier ctx window s =
     (case cd_EncodeWindow (kp_codec p) window of
        Inl err \<Rightarrow> (Some err, s)
      | Inr payload \<Rightarrow> kafka_send produce met p carrier ctx (CorrelationKey_ShardTag (w_Key window)) payload s)"

section \<open>Consuming\<close>

text \<open>
  The state of a consumer: the world the handler acts on, the client library, the recorder (with the error callback), and two lists that record what the broker
  acknowledged: the dead letters, with the record each was made of, and the records whose offsets were committed. The code does not keep these lists.
\<close>

record ('s, 'k, 'm) consuming =
  cs_world :: 's
  cs_broker :: 'k
  cs_metrics :: 'm
  cs_dead :: "(KafkaRecord \<times> KafkaRecord) list"
  cs_committed :: "KafkaRecord list"

record ('c, 'k, 'm) consumer_env =
  cv_ProduceSync :: "('c, 'k) produce_sync"
  cv_CommitRecords :: "'c \<Rightarrow> ctx \<Rightarrow> KafkaRecord list \<Rightarrow> 'k \<Rightarrow> error option \<times> 'k"
  cv_metrics :: "'m MetricsRecorder"
  cv_onError :: "(string \<Rightarrow> int \<Rightarrow> error \<Rightarrow> 'm \<Rightarrow> 'm) option"

type_synonym 's record_handler = "ctx \<Rightarrow> KafkaRecord \<Rightarrow> 's \<Rightarrow> error option \<times> 's"

definition count_metric :: "('c, 'k, 'm) consumer_env \<Rightarrow> string \<Rightarrow> ('s, 'k, 'm) consuming \<Rightarrow> ('s, 'k, 'm) consuming" where
  "count_metric env name st = st\<lparr>cs_metrics := kafka_record (cv_metrics env) name 1 (cs_metrics st)\<rparr>"

text \<open>The text of an error is a parameter of the dead letter's reason.\<close>

definition deadLetterHeaders :: "(error \<Rightarrow> string) \<Rightarrow> KafkaRecord \<Rightarrow> error option \<Rightarrow> (string \<times> bytes) list" where
  "deadLetterHeaders message r cause =
     (DeadLetterOriginHeader, kr_Topic r) # (case cause of None \<Rightarrow> [] | Some err \<Rightarrow> [(DeadLetterReasonHeader, message err)])"

definition sendToDeadLetter :: "(error \<Rightarrow> string) \<Rightarrow> ('c, 'k, 'm) consumer_env \<Rightarrow> 'c Consumer \<Rightarrow> ctx \<Rightarrow> KafkaRecord \<Rightarrow> error option \<Rightarrow> ('s, 'k, 'm) consuming
    \<Rightarrow> error option \<times> ('s, 'k, 'm) consuming" where
  "sendToDeadLetter message env c ctx r cause st =
     (case kn_deadLetter c of
        None \<Rightarrow> (Some ErrNoDeadTopic, st)
      | Some client \<Rightarrow>
          let dead = \<lparr>kr_Topic = kn_deadLetterTopic c, kr_Key = kr_Key r, kr_Value = kr_Value r, kr_Headers = deadLetterHeaders message r cause\<rparr>
          in case cv_ProduceSync env client ctx dead (cs_broker st) of
               (Some err, k) \<Rightarrow> (Some (Wrap ''kafkabus: dead lettering'' err), st\<lparr>cs_broker := k\<rparr>)
             | (None, k) \<Rightarrow> (None, count_metric env MetricDeadLetter (st\<lparr>cs_broker := k, cs_dead := cs_dead st @ [(r, dead)]\<rparr>)))"

text \<open>
  \<open>cx n\<close> is what the context reports after the \<open>n\<close>-th attempt. The trace context that a record's headers carry, which no modelled operation reads, is erased.
\<close>

fun deliver_attempts :: "(error \<Rightarrow> string) \<Rightarrow> ('c, 'k, 'm) consumer_env \<Rightarrow> 'c Consumer \<Rightarrow> (nat \<Rightarrow> ctx) \<Rightarrow> 's record_handler \<Rightarrow> KafkaRecord \<Rightarrow> nat \<Rightarrow> nat \<Rightarrow> error option
    \<Rightarrow> ('s, 'k, 'm) consuming \<Rightarrow> error option \<times> ('s, 'k, 'm) consuming" where
  "deliver_attempts message env c cx handle r 0 attempt final st = sendToDeadLetter message env c (cx (attempt - 1)) r final st"
| "deliver_attempts message env c cx handle r (Suc left) attempt final st =
     (case handle (cx (attempt - 1)) r (cs_world st) of
        (None, w) \<Rightarrow> (None, count_metric env MetricConsumed (st\<lparr>cs_world := w\<rparr>))
      | (Some err, w) \<Rightarrow>
          (case cx attempt of
             Some cerr \<Rightarrow> (Some cerr, st\<lparr>cs_world := w\<rparr>)
           | None \<Rightarrow>
               let st1 = st\<lparr>cs_world := w\<rparr>;
                   st2 = (case cv_onError env of None \<Rightarrow> st1 | Some report \<Rightarrow> st1\<lparr>cs_metrics := report (kr_Topic r) (int attempt) err (cs_metrics st1)\<rparr>);
                   st3 = (if int attempt < kn_maxAttempts c then count_metric env MetricRetried st2 else st2)
               in deliver_attempts message env c cx handle r left (Suc attempt) (Some err) st3))"

definition kafka_deliver :: "(error \<Rightarrow> string) \<Rightarrow> ('c, 'k, 'm) consumer_env \<Rightarrow> 'c Consumer \<Rightarrow> (nat \<Rightarrow> ctx) \<Rightarrow> 's record_handler \<Rightarrow> KafkaRecord \<Rightarrow> ('s, 'k, 'm) consuming
    \<Rightarrow> error option \<times> ('s, 'k, 'm) consuming" where
  "kafka_deliver message env c cx handle r st = deliver_attempts message env c cx handle r (nat (kn_maxAttempts c)) 1 None st"

fun each_record :: "(error \<Rightarrow> string) \<Rightarrow> ('c, 'k, 'm) consumer_env \<Rightarrow> 'c Consumer \<Rightarrow> (nat \<Rightarrow> nat \<Rightarrow> ctx) \<Rightarrow> 's record_handler \<Rightarrow> KafkaRecord list \<Rightarrow> KafkaRecord list
    \<Rightarrow> ('s, 'k, 'm) consuming \<Rightarrow> (error option \<times> KafkaRecord list) \<times> ('s, 'k, 'm) consuming" where
  "each_record message env c cx handle [] handled st = ((None, handled), st)"
| "each_record message env c cx handle (r # rs) handled st =
     (case kafka_deliver message env c (cx (length handled)) handle r st of
        (Some err, st1) \<Rightarrow> ((Some err, handled), st1)
      | (None, st1) \<Rightarrow> each_record message env c cx handle rs (handled @ [r]) st1)"

text \<open>
  One turn of the polling loop: what the context reports at its start and after a failed call, the fetch, and the readings of the context while the records are
  delivered, by record and attempt. The loop runs until it returns; \<open>None\<close> stands for a loop that polls on.
\<close>

datatype fetches = ClientClosed | FetchErrors error "error list" | Fetched "KafkaRecord list"

record turn =
  tn_start :: ctx
  tn_fetch :: fetches
  tn_after :: ctx
  tn_ctx :: "nat \<Rightarrow> nat \<Rightarrow> ctx"

definition poll_turn :: "(error \<Rightarrow> string) \<Rightarrow> ('c, 'k, 'm) consumer_env \<Rightarrow> 'c Consumer \<Rightarrow> 's record_handler \<Rightarrow> turn \<Rightarrow> ('s, 'k, 'm) consuming
    \<Rightarrow> error option option \<times> ('s, 'k, 'm) consuming" where
  "poll_turn message env c handle t st =
     (case tn_start t of
        Some err \<Rightarrow> (Some (Some err), st)
      | None \<Rightarrow>
          (case tn_fetch t of
             ClientClosed \<Rightarrow> (Some None, st)
           | FetchErrors err errs \<Rightarrow>
               (Some (Some (case tn_after t of Some cerr \<Rightarrow> cerr | None \<Rightarrow> Wrap ''kafkabus: fetching'' err)), st)
           | Fetched rs \<Rightarrow>
               (case each_record message env c (tn_ctx t) handle rs [] st of
                  ((failure, handled), st1) \<Rightarrow>
                    if handled = [] then (map_option Some failure, st1)
                    else case cv_CommitRecords env (kn_client c) (tn_after t) handled (cs_broker st1) of
                      (Some err, k) \<Rightarrow>
                        (Some (Some (case tn_after t of Some cerr \<Rightarrow> cerr | None \<Rightarrow> Wrap ''kafkabus: committing offsets'' err)), st1\<lparr>cs_broker := k\<rparr>)
                    | (None, k) \<Rightarrow> (map_option Some failure, st1\<lparr>cs_broker := k, cs_committed := cs_committed st1 @ handled\<rparr>))))"

fun poll :: "(error \<Rightarrow> string) \<Rightarrow> ('c, 'k, 'm) consumer_env \<Rightarrow> 'c Consumer \<Rightarrow> 's record_handler \<Rightarrow> turn list \<Rightarrow> ('s, 'k, 'm) consuming
    \<Rightarrow> error option option \<times> ('s, 'k, 'm) consuming" where
  "poll message env c handle [] st = (None, st)"
| "poll message env c handle (t # ts) st =
     (case poll_turn message env c handle t st of
        (Some r, st1) \<Rightarrow> (Some r, st1)
      | (None, st1) \<Rightarrow> poll message env c handle ts st1)"

definition decoding :: "(bytes \<Rightarrow> error + 'a) \<Rightarrow> (ctx \<Rightarrow> 'a \<Rightarrow> 's \<Rightarrow> error option \<times> 's) \<Rightarrow> 's record_handler" where
  "decoding decode handler ctx r s = (case decode (kr_Value r) of Inl err \<Rightarrow> (Some err, s) | Inr x \<Rightarrow> handler ctx x s)"

definition Consume :: "(error \<Rightarrow> string) \<Rightarrow> ('c, 'k, 'm) consumer_env \<Rightarrow> 'c Consumer \<Rightarrow> (ctx \<Rightarrow> Batch \<Rightarrow> 's \<Rightarrow> error option \<times> 's) \<Rightarrow> turn list \<Rightarrow> ('s, 'k, 'm) consuming
    \<Rightarrow> error option option \<times> ('s, 'k, 'm) consuming" where
  "Consume message env c handler ts st = poll message env c (decoding (cd_DecodeBatch (kn_codec c)) handler) ts st"

definition ConsumeCommands :: "Marshallers \<Rightarrow> (error \<Rightarrow> string) \<Rightarrow> ('c, 'k, 'm) consumer_env \<Rightarrow> 'c Consumer \<Rightarrow> (ctx \<Rightarrow> Command \<Rightarrow> 's \<Rightarrow> error option \<times> 's) \<Rightarrow> turn list
    \<Rightarrow> ('s, 'k, 'm) consuming \<Rightarrow> error option option \<times> ('s, 'k, 'm) consuming" where
  "ConsumeCommands M message env c handler ts st = poll message env c (decoding (DecodeCommand M) handler) ts st"

definition ConsumeWindows :: "(error \<Rightarrow> string) \<Rightarrow> ('c, 'k, 'm) consumer_env \<Rightarrow> 'c Consumer \<Rightarrow> (ctx \<Rightarrow> AggregateWindow \<Rightarrow> 's \<Rightarrow> error option \<times> 's) \<Rightarrow> turn list
    \<Rightarrow> ('s, 'k, 'm) consuming \<Rightarrow> error option option \<times> ('s, 'k, 'm) consuming" where
  "ConsumeWindows message env c handler ts st = poll message env c (decoding (cd_DecodeWindow (kn_codec c)) handler) ts st"

section \<open>What a commit covers\<close>

text \<open>
  A record is settled when a handler call on it succeeded or the broker acknowledged a dead letter with its key and value. \<open>progress hs st r hs' st'\<close>: from a state whose
  successful calls were \<open>hs\<close> to one whose successful calls are \<open>hs'\<close>, dead letters only grow and no offset is committed.
\<close>

definition settled :: "KafkaRecord list \<Rightarrow> ('s, 'k, 'm) consuming \<Rightarrow> KafkaRecord \<Rightarrow> bool" where
  "settled hs st r \<longleftrightarrow> r \<in> set hs \<or> (\<exists>d. (r, d) \<in> set (cs_dead st) \<and> kr_Key d = kr_Key r \<and> kr_Value d = kr_Value r)"

definition progress :: "KafkaRecord list \<Rightarrow> ('s, 'k, 'm) consuming \<Rightarrow> KafkaRecord set \<Rightarrow> KafkaRecord list \<Rightarrow> ('s, 'k, 'm) consuming \<Rightarrow> bool" where
  "progress hs st R hs' st' \<longleftrightarrow> prefix hs hs' \<and> set hs' \<subseteq> set hs \<union> R \<and> prefix (cs_dead st) (cs_dead st') \<and> cs_committed st' = cs_committed st"

lemma progress_refl: "progress hs st R hs st"
  by (simp add: progress_def)

lemma progress_trans: "progress hs st R hs1 st1 \<Longrightarrow> progress hs1 st1 R' hs2 st2 \<Longrightarrow> progress hs st (R \<union> R') hs2 st2"
  by (fastforce simp: progress_def intro: prefix_order.trans)

lemma settled_mono: "settled hs st r \<Longrightarrow> prefix hs hs' \<Longrightarrow> prefix (cs_dead st) (cs_dead st') \<Longrightarrow> settled hs' st' r"
  by (auto simp: settled_def dest: set_mono_prefix)

text \<open>
  A handler whose successful calls explain the world: \<open>explains hs w\<close> says that \<open>w\<close> is the result of succeeding on the records \<open>hs\<close>, in this order; a call that
  fails leaves no trace.
\<close>

locale explained_handler =
  fixes handle :: "'s record_handler" and explains :: "KafkaRecord list \<Rightarrow> 's \<Rightarrow> bool"
  assumes handle_ok: "explains hs w \<Longrightarrow> handle cx r w = (None, w') \<Longrightarrow> explains (hs @ [r]) w'"
    and handle_failed: "explains hs w \<Longrightarrow> handle cx r w = (Some err, w') \<Longrightarrow> explains hs w'"
begin

lemma sendToDeadLetter_progress:
  assumes "sendToDeadLetter message env c cx r cause st = (e, st')" and "explains hs (cs_world st)"
  shows "explains hs (cs_world st') \<and> progress hs st R hs st' \<and> (e = None \<longrightarrow> settled hs st' r)"
  using assms by (auto simp: sendToDeadLetter_def progress_def settled_def count_metric_def Let_def split: option.splits prod.splits)

lemma attempts_progress:
  assumes "deliver_attempts message env c cx handle r left n final st = (e, st')" and "explains hs (cs_world st)"
  shows "\<exists>hs'. explains hs' (cs_world st') \<and> progress hs st {r} hs' st' \<and> (e = None \<longrightarrow> settled hs' st' r)"
  using assms
proof (induction left arbitrary: n final st)
  case 0
  then show ?case using sendToDeadLetter_progress by (fastforce simp: progress_def)
next
  case (Suc left)
  obtain e1 w where run: "handle (cx (n - 1)) r (cs_world st) = (e1, w)" by fastforce
  show ?case
  proof (cases e1)
    case None
    then show ?thesis using Suc.prems run handle_ok[OF Suc.prems(2)]
      by (intro exI[of _ "hs @ [r]"]) (auto simp: progress_def settled_def count_metric_def)
  next
    case (Some err)
    have w: "explains hs w" using handle_failed[OF Suc.prems(2)] run Some by simp
    show ?thesis
    proof (cases "cx n")
      case None
      from Suc.IH[OF Suc.prems(1)[unfolded deliver_attempts.simps run Some None prod.case option.case Let_def]] w obtain hs'
        where "explains hs' (cs_world st')" "progress hs st {r} hs' st'" "e = None \<longrightarrow> settled hs' st' r"
        by (fastforce simp: progress_def count_metric_def split: option.splits if_splits)
      then show ?thesis by blast
    next
      case (Some cerr)
      with Suc.prems run \<open>e1 = _\<close> w show ?thesis by (intro exI[of _ hs]) (auto simp: progress_def)
    qed
  qed
qed

lemma each_record_progress:
  assumes "each_record message env c cx handle rs handled st = ((e, handled'), st')" and "explains hs (cs_world st)" and "\<forall>r \<in> set handled. settled hs st r"
  shows "\<exists>hs'. explains hs' (cs_world st') \<and> progress hs st (set rs) hs' st' \<and> (\<forall>r \<in> set handled'. settled hs' st' r)"
  using assms
proof (induction rs arbitrary: handled st hs)
  case Nil
  then show ?case by (intro exI[of _ hs]) (auto simp: progress_refl)
next
  case (Cons r rs)
  obtain e1 st1 where run: "kafka_deliver message env c (cx (length handled)) handle r st = (e1, st1)" by fastforce
  from attempts_progress[OF run[unfolded kafka_deliver_def] Cons.prems(2)] obtain hs1
    where h1: "explains hs1 (cs_world st1)" "progress hs st {r} hs1 st1" "e1 = None \<longrightarrow> settled hs1 st1 r" by blast
  have kept: "\<forall>x \<in> set handled. settled hs1 st1 x" using Cons.prems(3) h1(2) settled_mono by (fastforce simp: progress_def)
  show ?case
  proof (cases e1)
    case None
    with run Cons.prems(1) have "each_record message env c cx handle rs (handled @ [r]) st1 = ((e, handled'), st')" by simp
    from Cons.IH[OF this h1(1)] kept h1(3) None obtain hs2
      where "explains hs2 (cs_world st')" "progress hs1 st1 (set rs) hs2 st'" "\<forall>r \<in> set handled'. settled hs2 st' r" by auto
    then show ?thesis using progress_trans[OF h1(2)] by (metis list.set(2) insert_is_Un)
  next
    case (Some err)
    with run Cons.prems(1) have "handled' = handled" "st' = st1" by auto
    then show ?thesis using h1(1,2) kept by (intro exI[of _ hs1]) (auto simp: progress_def)
  qed
qed

end

text \<open>The records of a turn that are handled are an initial part of what was fetched, and all of it unless a delivery failed.\<close>

lemma each_record_prefix:
  "each_record message env c cx handle rs handled st = ((e, handled'), st') \<Longrightarrow>
   \<exists>ps. handled' = handled @ ps \<and> prefix ps rs \<and> (e = None \<longrightarrow> ps = rs)"
proof (induction rs arbitrary: handled st)
  case (Cons r rs)
  obtain e1 st1 where run: "kafka_deliver message env c (cx (length handled)) handle r st = (e1, st1)" by fastforce
  show ?case
  proof (cases e1)
    case None
    with Cons.prems run Cons.IH[of "handled @ [r]" st1] show ?thesis by auto
  qed (use Cons.prems run in auto)
qed simp

definition fetched :: "turn \<Rightarrow> KafkaRecord list" where
  "fetched t = (case tn_fetch t of Fetched rs \<Rightarrow> rs | _ \<Rightarrow> [])"

text \<open>What a part of the loop does to the fetched records \<open>rs\<close>: it commits an initial part \<open>cm\<close> of them, all of which is settled.\<close>

definition covers :: "KafkaRecord list \<Rightarrow> ('s, 'k, 'm) consuming \<Rightarrow> KafkaRecord list \<Rightarrow> KafkaRecord list \<Rightarrow> KafkaRecord list \<Rightarrow> ('s, 'k, 'm) consuming \<Rightarrow> bool" where
  "covers hs st rs cm hs' st' \<longleftrightarrow> prefix hs hs' \<and> set hs' \<subseteq> set hs \<union> set rs \<and> prefix (cs_dead st) (cs_dead st') \<and>
     cs_committed st' = cs_committed st @ cm \<and> prefix cm rs \<and> (\<forall>r \<in> set cm. settled hs' st' r)"

lemma covers_trans:
  assumes "covers hs st rs rs hs1 st1" and "covers hs1 st1 rs' cm hs2 st2"
  shows "covers hs st (rs @ rs') (rs @ cm) hs2 st2"
  using assms by (auto simp: covers_def intro: prefix_order.trans settled_mono)

lemma covers_stop: "covers hs st rs cm hs' st' \<Longrightarrow> covers hs st (rs @ rs') cm hs' st'"
  by (auto simp: covers_def)

context explained_handler
begin

lemma poll_turn_covers:
  assumes "poll_turn message env c handle t st = (res, st')" and "explains hs (cs_world st)"
  shows "\<exists>hs' cm. explains hs' (cs_world st') \<and> covers hs st (fetched t) cm hs' st' \<and> (res = None \<longrightarrow> cm = fetched t)"
proof (cases "tn_start t = None \<and> (\<exists>rs. tn_fetch t = Fetched rs)")
  case False
  then have "st' = st \<and> res \<noteq> None" using assms(1) by (auto simp: poll_turn_def split: option.splits fetches.splits)
  then show ?thesis using assms(2) by (intro exI[of _ hs] exI[of _ "[]"]) (auto simp: covers_def)
next
  case True
  then obtain rs where rs: "tn_start t = None" "tn_fetch t = Fetched rs" "fetched t = rs" by (auto simp: fetched_def)
  obtain e handled st1 where run: "each_record message env c (tn_ctx t) handle rs [] st = ((e, handled), st1)" by (metis prod.exhaust)
  from each_record_progress[OF run assms(2)] obtain hs1
    where h1: "explains hs1 (cs_world st1)" "progress hs st (set rs) hs1 st1" "\<forall>r \<in> set handled. settled hs1 st1 r" by auto
  from each_record_prefix[OF run] have pre: "prefix handled rs" "e = None \<longrightarrow> handled = rs" by auto
  obtain ce k where commit: "cv_CommitRecords env (kn_client c) (tn_after t) handled (cs_broker st1) = (ce, k)" by fastforce
  note turn = assms(1)[unfolded poll_turn_def rs run commit option.case fetches.case prod.case]
  show ?thesis
  proof (cases "handled = [] \<or> ce \<noteq> None")
    case True
    then have "cs_world st' = cs_world st1" "cs_dead st' = cs_dead st1" "cs_committed st' = cs_committed st1" "res = None \<longrightarrow> rs = []"
      using turn pre by (auto split: if_splits option.splits)
    then show ?thesis using h1 rs(3) by (intro exI[of _ hs1] exI[of _ "[]"]) (auto simp: covers_def progress_def)
  next
    case False
    then have "st' = st1\<lparr>cs_broker := k, cs_committed := cs_committed st1 @ handled\<rparr>" "res = map_option Some e" using turn by (auto split: if_splits)
    then show ?thesis using h1 pre rs(3) by (intro exI[of _ hs1] exI[of _ handled]) (auto simp: covers_def progress_def settled_def)
  qed
qed

lemma poll_covers:
  assumes "poll message env c handle ts st = (res, st')" and "explains hs (cs_world st)"
  shows "\<exists>hs' cm. explains hs' (cs_world st') \<and> covers hs st (concat (map fetched ts)) cm hs' st' \<and> (res = None \<longrightarrow> cm = concat (map fetched ts))"
  using assms
proof (induction ts arbitrary: st hs)
  case Nil
  then show ?case by (intro exI[of _ hs] exI[of _ "[]"]) (auto simp: covers_def)
next
  case (Cons t ts)
  obtain r1 st1 where turn: "poll_turn message env c handle t st = (r1, st1)" by fastforce
  from poll_turn_covers[OF this Cons.prems(2)] obtain hs1 cm1
    where c1: "explains hs1 (cs_world st1)" "covers hs st (fetched t) cm1 hs1 st1" "r1 = None \<longrightarrow> cm1 = fetched t" by blast
  show ?case
  proof (cases r1)
    case None
    with turn Cons.prems(1) have "poll message env c handle ts st1 = (res, st')" by simp
    from Cons.IH[OF this c1(1)] obtain hs2 cm2 where "explains hs2 (cs_world st')" "covers hs1 st1 (concat (map fetched ts)) cm2 hs2 st'"
      "res = None \<longrightarrow> cm2 = concat (map fetched ts)" by blast
    then show ?thesis using covers_trans c1(2,3) None by (intro exI[of _ hs2] exI[of _ "fetched t @ cm2"]) auto
  next
    case (Some r)
    with turn Cons.prems(1) have "res = Some r" "st' = st1" by auto
    then show ?thesis using c1 covers_stop by (intro exI[of _ hs1] exI[of _ cm1]) auto
  qed
qed

end

section \<open>The persister behind Kafka\<close>

text \<open>The windows of the records on which the persister succeeded.\<close>

definition windows_of :: "(bytes \<Rightarrow> error + AggregateWindow) \<Rightarrow> KafkaRecord list \<Rightarrow> AggregateWindow list" where
  "windows_of decode hs = concat (map (\<lambda>r. case decode (kr_Value r) of Inr w \<Rightarrow> [w] | Inl err \<Rightarrow> []) hs)"

interpretation persisted: explained_handler "decoding decode (HandleWindow ApplyWindow met)" "\<lambda>hs s. fst s = deliver_all (windows_of decode hs) NewMemory" for decode met
proof unfold_locales
  fix hs cx r w' and w :: "Memory \<times> 'a"
  assume w: "fst w = deliver_all (windows_of decode hs) NewMemory" and ok: "decoding decode (HandleWindow ApplyWindow met) cx r w = (None, w')"
  then obtain x where x: "decode (kr_Value r) = Inr x" "HandleWindow ApplyWindow met cx x w = (None, w')" by (auto simp: decoding_def split: sum.splits)
  moreover have "cx = None" using x(2) memory.write_cancelled by (cases cx) (auto simp: HandleWindow_def)
  ultimately have "fst w' = snd (ApplyWindow None x (fst w))" by (auto simp: HandleWindow_def split: prod.splits option.splits)
  with w x(1) show "fst w' = deliver_all (windows_of decode (hs @ [r])) NewMemory" by (simp add: windows_of_def deliver_all_def)
next
  fix hs cx r err w' and w :: "Memory \<times> 'a"
  assume w: "fst w = deliver_all (windows_of decode hs) NewMemory" and run: "decoding decode (HandleWindow ApplyWindow met) cx r w = (Some err, w')"
  have "fst w' = fst w"
  proof (cases "decode (kr_Value r)")
    case (Inr x)
    obtain e m where put: "ApplyWindow cx x (fst w) = (e, m)" by fastforce
    with run Inr have "e \<noteq> None" "fst w' = m" by (auto simp: decoding_def HandleWindow_def split: option.splits)
    then show ?thesis using put memory.write_live[of x "fst w"] memory.write_cancelled[of _ x "fst w"] by (cases cx) auto
  qed (use run in \<open>simp add: decoding_def\<close>)
  with w show "fst w' = deliver_all (windows_of decode hs) NewMemory" by simp
qed

lemma deliver_all_total:
  "inj_on Identity {w \<in> set ws. dkey w = k} \<Longrightarrow>
   wrap64 (dev_total cn k (deliver_all ws NewMemory)) = wrap64 (\<Sum>w \<in> {w \<in> set ws. dkey w = k}. of_window cn w)"
  using memory.deliver_total[of ws k cn NewMemory]
  by (simp add: deliver_all_memory memory.fresh_def dev_total_def dev_applied_def NewMemory_def)

definition start_consuming :: "'s \<Rightarrow> 'k \<Rightarrow> 'm \<Rightarrow> ('s, 'k, 'm) consuming" where
  "start_consuming w k m = \<lparr>cs_world = w, cs_broker = k, cs_metrics = m, cs_dead = [], cs_committed = []\<rparr>"

lemma HandleWindow_live: "HandleWindow ApplyWindow None None w s = (None, (snd (ApplyWindow None w (fst s)), snd s))"
  using memory.write_live[of w "fst s"] by (cases "ApplyWindow None w (fst s)") (simp add: HandleWindow_def)

text \<open>A consumer whose codec knows one window, with a broker that acknowledges everything.\<close>

definition ex_codec :: "AggregateWindow \<Rightarrow> Codec" where
  "ex_codec w = \<lparr>cd_Name = FormatJSON, cd_EncodeBatch = \<lambda>_. Inr [], cd_DecodeBatch = \<lambda>_. Inl ErrCanceled, cd_EncodeWindow = \<lambda>_. Inr ''w'', cd_DecodeWindow = \<lambda>_. Inr w\<rparr>"

definition ex_consumer :: "unit Consumer" where
  "ex_consumer = \<lparr>kn_client = (), kn_deadLetter = Some (), kn_deadLetterTopic = ''dead'', kn_maxAttempts = 2, kn_codec = ex_codec (ex_window ''u'' 2 1)\<rparr>"

definition ex_env :: "(unit, unit, unit) consumer_env" where
  "ex_env = \<lparr>cv_ProduceSync = \<lambda>_ _ _ k. (None, k), cv_CommitRecords = \<lambda>_ _ _ k. (None, k), cv_metrics = None, cv_onError = None\<rparr>"

definition ex_record :: KafkaRecord where
  "ex_record = \<lparr>kr_Topic = ''windows'', kr_Key = ''u'', kr_Value = ''w'', kr_Headers = []\<rparr>"

definition ex_turn :: turn where
  "ex_turn = \<lparr>tn_start = None, tn_fetch = Fetched [ex_record], tn_after = None, tn_ctx = \<lambda>_ _. None\<rparr>"

lemmas ex_kafka_defs = ex_codec_def ex_consumer_def ex_env_def ex_record_def ex_turn_def

section \<open>Properties\<close>

text \<open>
  Property C17 (at-least-once consumption, exactly-once counting). However fetches, handler failures, cancellations, dead letters and commits go, the offsets the
  persister commits form an initial part of the fetched stream (all of it while it keeps polling), and every committed record was applied to the
  store or acknowledged on the dead-letter topic with its key and value. The store is the result of the applied windows alone, and each of its counters is the sum
  over the distinct windows, however often a window was fetched again.
\<close>

theorem persister_at_least_once:
  assumes "ConsumeWindows message env c (HandleWindow ApplyWindow met) ts (start_consuming (NewMemory, m0) k0 m1) = (res, st')"
  shows "\<exists>hs. set hs \<subseteq> set (concat (map fetched ts)) \<and>
    fst (cs_world st') = deliver_all (windows_of (cd_DecodeWindow (kn_codec c)) hs) NewMemory \<and>
    prefix (cs_committed st') (concat (map fetched ts)) \<and> (res = None \<longrightarrow> cs_committed st' = concat (map fetched ts)) \<and>
    (\<forall>r \<in> set (cs_committed st'). settled hs st' r) \<and>
    (\<forall>cn k. let W = {w \<in> set (windows_of (cd_DecodeWindow (kn_codec c)) hs). dkey w = k} in
       inj_on Identity W \<longrightarrow> wrap64 (dev_total cn k (fst (cs_world st'))) = wrap64 (\<Sum>w \<in> W. of_window cn w))"
proof -
  let ?st = "start_consuming (NewMemory, m0) k0 m1"
  have "fst (cs_world ?st) = deliver_all (windows_of (cd_DecodeWindow (kn_codec c)) []) NewMemory"
    by (simp add: start_consuming_def windows_of_def deliver_all_def)
  from persisted.poll_covers[OF assms[unfolded ConsumeWindows_def] this] obtain hs cm
    where "fst (cs_world st') = deliver_all (windows_of (cd_DecodeWindow (kn_codec c)) hs) NewMemory" "covers [] ?st (concat (map fetched ts)) cm hs st'"
      "res = None \<longrightarrow> cm = concat (map fetched ts)" by blast
  then show ?thesis by (intro exI[of _ hs]) (auto simp: covers_def start_consuming_def Let_def deliver_all_total)
qed

theorem persister_at_least_once_witness:
  "\<exists>st'. ConsumeWindows (\<lambda>_. []) ex_env ex_consumer (HandleWindow ApplyWindow None) [ex_turn, ex_turn] (start_consuming (NewMemory, ()) () ()) = (None, st') \<and>
     cs_committed st' = [ex_record, ex_record] \<and> wrap64 (dev_total Bytes (deviceKey ''u'' ''d'') (fst (cs_world st'))) = 100"
proof -
  let ?run = "ConsumeWindows (\<lambda>_. []) ex_env ex_consumer (HandleWindow ApplyWindow None) [ex_turn, ex_turn] (start_consuming (NewMemory, ()) () ())"
  obtain res st' where run: "?run = (res, st')" by fastforce
  then have "res = None" "cs_dead st' = []"
    by (auto simp: ConsumeWindows_def poll_turn_def ex_kafka_defs kafka_deliver_def decoding_def HandleWindow_live count_metric_def start_consuming_def eval_nat_numeral)
  moreover have f: "concat (map fetched [ex_turn, ex_turn]) = [ex_record, ex_record]" by (simp add: fetched_def ex_turn_def)
  moreover have win: "windows_of (cd_DecodeWindow (kn_codec ex_consumer)) hs = map (\<lambda>_. ex_window ''u'' 2 1) hs" for hs
    by (induction hs) (simp_all add: windows_of_def ex_kafka_defs)
  ultimately obtain hs where hs: "set hs \<subseteq> {ex_record}" "cs_committed st' = [ex_record, ex_record]" "settled hs st' ex_record"
      "inj_on Identity {w \<in> set (map (\<lambda>_. ex_window ''u'' 2 1) hs). dkey w = deviceKey ''u'' ''d''} \<longrightarrow>
         wrap64 (dev_total Bytes (deviceKey ''u'' ''d'') (fst (cs_world st'))) =
         wrap64 (\<Sum>w \<in> {w \<in> set (map (\<lambda>_. ex_window ''u'' 2 1) hs). dkey w = deviceKey ''u'' ''d''}. of_window Bytes w)"
    using persister_at_least_once[OF run] unfolding f win by (auto simp: Let_def)
  have "hs \<noteq> []" using hs(3) \<open>cs_dead st' = []\<close> by (auto simp: settled_def)
  then have set: "{w \<in> set (map (\<lambda>_. ex_window ''u'' 2 1) hs). dkey w = deviceKey ''u'' ''d''} = {ex_window ''u'' 2 1}"
    by (cases hs) (auto simp: dkey_def ex_window_def)
  show ?thesis using hs(2,4) run \<open>res = None\<close> unfolding set by (simp add: ex_window_def wrap64_def)
qed

text \<open>
  Poison records. A record on which the handler fails at every attempt is not lost and not retried for ever: with a live context and a dead-letter client it becomes one dead
  letter with its key and value, on the dead-letter topic, naming its origin and a reason, and the delivery succeeds exactly when the broker acknowledges it; without
  one the delivery fails.
\<close>

theorem poison_record:
  assumes "\<And>cx w. fst (handle cx r w) \<noteq> None" and "\<And>n. cx n = None" and "1 \<le> kn_maxAttempts c"
    and "kafka_deliver message env c cx handle r st = (e, st')"
  shows "case kn_deadLetter c of
      None \<Rightarrow> e = Some ErrNoDeadTopic \<and> cs_dead st' = cs_dead st
    | Some client \<Rightarrow> \<exists>d reason. kr_Topic d = kn_deadLetterTopic c \<and> kr_Key d = kr_Key r \<and> kr_Value d = kr_Value r \<and>
        kr_Headers d = [(DeadLetterOriginHeader, kr_Topic r), (DeadLetterReasonHeader, reason)] \<and>
        (e = None \<longleftrightarrow> fst (cv_ProduceSync env client None d (cs_broker st)) = None) \<and>
        cs_dead st' = (if e = None then cs_dead st @ [(r, d)] else cs_dead st)"
proof -
  have "\<exists>err st1. deliver_attempts message env c cx handle r left n final st2 = sendToDeadLetter message env c None r (Some err) st1 \<and>
      cs_dead st1 = cs_dead st2 \<and> cs_broker st1 = cs_broker st2" if "left = 0 \<longrightarrow> final \<noteq> None" for left n final st2
    using that
  proof (induction left arbitrary: n final st2)
    case 0
    then show ?case using assms(2) by auto
  next
    case (Suc left)
    obtain err w where run: "handle (cx (n - 1)) r (cs_world st2) = (Some err, w)" using assms(1)[of "cx (n - 1)" "cs_world st2"]
      by (metis option.exhaust prod.collapse)
    let ?st1 = "st2\<lparr>cs_world := w\<rparr>"
    let ?st2 = "case cv_onError env of None \<Rightarrow> ?st1 | Some report \<Rightarrow> ?st1\<lparr>cs_metrics := report (kr_Topic r) (int n) err (cs_metrics ?st1)\<rparr>"
    let ?st3 = "if int n < kn_maxAttempts c then count_metric env MetricRetried ?st2 else ?st2"
    have step: "deliver_attempts message env c cx handle r (Suc left) n final st2 = deliver_attempts message env c cx handle r left (Suc n) (Some err) ?st3"
      using run assms(2) by (simp add: Let_def)
    have "cs_dead ?st3 = cs_dead st2" "cs_broker ?st3 = cs_broker st2" by (simp_all add: count_metric_def split: option.split)
    then show ?case unfolding step using Suc.IH[of "Some err" "Suc n" ?st3] by auto
  qed
  from this[of "nat (kn_maxAttempts c)" None 1 st] assms(3,4) obtain err st1
    where "sendToDeadLetter message env c None r (Some err) st1 = (e, st')" "cs_dead st1 = cs_dead st" "cs_broker st1 = cs_broker st"
    by (auto simp: kafka_deliver_def)
  then show ?thesis
    by (cases "kn_deadLetter c")
      (auto simp: sendToDeadLetter_def deadLetterHeaders_def count_metric_def Let_def split: option.splits prod.splits
        intro!: exI[of _ "\<lparr>kr_Topic = kn_deadLetterTopic c, kr_Key = kr_Key r, kr_Value = kr_Value r, kr_Headers = [(DeadLetterOriginHeader, kr_Topic r), (DeadLetterReasonHeader, message err)]\<rparr>"])
qed

theorem poison_record_witness:
  "cs_dead (snd (kafka_deliver (\<lambda>_. ''boom'') ex_env ex_consumer (\<lambda>_. None) (\<lambda>_ _ w. (Some ErrNoGroup, w)) ex_record (start_consuming () () ()))) =
   [(ex_record, \<lparr>kr_Topic = ''dead'', kr_Key = ''u'', kr_Value = ''w'', kr_Headers = [(DeadLetterOriginHeader, ''windows''), (DeadLetterReasonHeader, ''boom'')]\<rparr>)]"
proof -
  let ?h = "\<lambda>_ _ w. (Some ErrNoGroup, w)"
  obtain e st' where run: "kafka_deliver (\<lambda>_. ''boom'') ex_env ex_consumer (\<lambda>_. None) ?h ex_record (start_consuming () () ()) = (e, st')" by fastforce
  have "1 \<le> kn_maxAttempts ex_consumer" by (simp add: ex_consumer_def)
  then obtain d reason where d: "kr_Topic d = ''dead''" "kr_Key d = ''u''" "kr_Value d = ''w''"
      "kr_Headers d = [(DeadLetterOriginHeader, ''windows''), (DeadLetterReasonHeader, reason)]" "e = None" "cs_dead st' = [(ex_record, d)]"
    using poison_record[of ?h ex_record "\<lambda>_. None", OF _ _ _ run] by (auto simp: ex_kafka_defs start_consuming_def)
  moreover have "reason = ''boom''" using run d(4,6)
    by (auto simp: kafka_deliver_def ex_kafka_defs eval_nat_numeral sendToDeadLetter_def deadLetterHeaders_def count_metric_def start_consuming_def)
  ultimately show ?thesis using run by (cases d) simp
qed

text \<open>
  No credentials in the clear. The client options carry SASL credentials only when they set up TLS as well, and then both the user and the password are present; a security
  configuration is refused or honoured as a whole.
\<close>

theorem kafka_credentials_protected:
  assumes "Security_options env s = Inr opts"
  shows "(ScramSha512 user password \<in> set opts \<longrightarrow> user = sec_SASLUser s \<and> password = sec_SASLPassword s \<and> user \<noteq> [] \<and> password \<noteq> [] \<and>
      (\<exists>cfg. DialTLSConfig cfg \<in> set opts \<and> kt_InsecureSkipVerify cfg = sec_InsecureSkipVerify s)) \<and>
    (sec_SASLUser s \<noteq> [] \<or> sec_SASLPassword s \<noteq> [] \<longrightarrow> ScramSha512 (sec_SASLUser s) (sec_SASLPassword s) \<in> set opts) \<and>
    (sec_CAFile s \<noteq> [] \<and> sec_Enabled s \<longrightarrow> (\<exists>cfg. DialTLSConfig cfg \<in> set opts \<and> kt_RootCAs cfg \<noteq> None))"
  using assms by (auto simp: Security_options_def Security_validate_def load_roots_def dest!: sym[of "Some _"] split: if_splits option.splits sum.splits)

theorem kafka_credentials_protected_witness:
  "\<exists>cfg. DialTLSConfig cfg \<in> set [DialTLSConfig \<lparr>kt_InsecureSkipVerify = False, kt_ServerName = [], kt_RootCAs = Some (), kt_Certificate = (None :: unit option)\<rparr>,
     ScramSha512 ''u'' ''p''] \<and> kt_RootCAs cfg \<noteq> None"
proof -
  let ?env = "\<lparr>ce_ReadFile = \<lambda>_. Inr [], ce_AppendCertsFromPEM = \<lambda>_. Some (), ce_LoadX509KeyPair = \<lambda>_ _. Inl ErrCanceled\<rparr> :: (unit, unit) cert_env"
  let ?s = "\<lparr>sec_Enabled = True, sec_CAFile = ''ca'', sec_CertFile = [], sec_KeyFile = [], sec_SASLUser = ''u'', sec_SASLPassword = ''p'',
    sec_InsecureSkipVerify = False, sec_ServerName = []\<rparr>"
  have "Security_options ?env ?s = Inr [DialTLSConfig \<lparr>kt_InsecureSkipVerify = False, kt_ServerName = [], kt_RootCAs = Some (), kt_Certificate = None\<rparr>, ScramSha512 ''u'' ''p'']"
    by (simp add: Security_options_def Security_validate_def load_roots_def load_certificate_def)
  from kafka_credentials_protected[OF this, of "''u''" "''p''"] show ?thesis by simp
qed


text \<open>
  Clients are not leaked: over a client library in which making a client opens a new one, a failure opens none, and closing closes the client, a
  channel that cannot be built leaves the open clients as they were, and one that is built and closed does too.
\<close>

definition library_ok :: "('cert, 'pool, 'c, 'k) kgo \<Rightarrow> ('k \<Rightarrow> 'c set) \<Rightarrow> bool" where
  "library_ok lib open_clients \<longleftrightarrow>
     (\<forall>opts k. case kgo_NewClient lib opts k of
        (Inl err, k') \<Rightarrow> open_clients k' = open_clients k
      | (Inr c, k') \<Rightarrow> c \<notin> open_clients k \<and> open_clients k' = insert c (open_clients k)) \<and>
     (\<forall>c k. open_clients (kgo_Close lib c k) = open_clients k - {c})"

lemma Close_closes: "library_ok lib oc \<Longrightarrow> oc (kgo_Close lib c k) = oc k - {c}"
  by (simp add: library_ok_def)

lemma NewClient_failed: "library_ok lib oc \<Longrightarrow> kgo_NewClient lib opts k = (Inl err, k') \<Longrightarrow> oc k' = oc k"
  unfolding library_ok_def by (drule conjunct1, drule spec[of _ opts], drule spec[of _ k]) simp

lemma NewClient_made: "library_ok lib oc \<Longrightarrow> kgo_NewClient lib opts k = (Inr c, k') \<Longrightarrow> c \<notin> oc k \<and> oc k' = insert c (oc k)"
  unfolding library_ok_def by (drule conjunct1, drule spec[of _ opts], drule spec[of _ k]) simp

lemma NewProducer_opens:
  assumes lib: "library_ok lib oc" and run: "NewProducer M env lib c k = (r, k')"
  shows "case r of Inl err \<Rightarrow> oc k' = oc k | Inr p \<Rightarrow> kp_client p \<notin> oc k \<and> oc k' = insert (kp_client p) (oc k)"
proof (cases "validateProducer c = None \<and> (\<exists>secure. Security_options env (kc_Security c) = Inr secure)")
  case True
  then obtain secure where ok: "validateProducer c = None" "Security_options env (kc_Security c) = Inr secure" by blast
  let ?opts = "[SeedBrokers (kc_Brokers c), DefaultProduceTopic (kc_Topic c), RequiredAcksAllISR, SnappyCompression, StickyKeyPartitioner, AllowAutoTopicCreation] @ secure"
  obtain r1 k1 where new: "kgo_NewClient lib ?opts k = (r1, k1)" by fastforce
  show ?thesis
  proof (cases r1)
    case (Inl err)
    with run ok new NewClient_failed[OF lib] show ?thesis by (auto simp: NewProducer_def)
  next
    case (Inr client)
    with run ok new NewClient_made[OF lib] show ?thesis by (auto simp: NewProducer_def)
  qed
qed (use run in \<open>auto simp: NewProducer_def split: option.splits sum.splits\<close>)

lemma NewConsumer_opens:
  assumes lib: "library_ok lib oc" and run: "NewConsumer M env lib c k = (r, k')"
  shows "case r of Inl err \<Rightarrow> oc k' = oc k
    | Inr n \<Rightarrow> kn_client n \<notin> oc k \<and> set_option (kn_deadLetter n) \<inter> oc k = {} \<and> oc k' = insert (kn_client n) (set_option (kn_deadLetter n) \<union> oc k)"
proof -
  let ?attempts = "if kc_MaxAttempts c \<le> 0 then 1 else kc_MaxAttempts c"
  show ?thesis
  proof (cases "validateConsumer c = None \<and> \<not> (1 < ?attempts \<and> kc_DeadLetterTopic c = []) \<and> (\<exists>secure. Security_options env (kc_Security c) = Inr secure)")
    case True
    then obtain secure where ok: "validateConsumer c = None" "(1 < ?attempts \<and> kc_DeadLetterTopic c = []) = False" "Security_options env (kc_Security c) = Inr secure" by blast
    let ?opts = "[SeedBrokers (kc_Brokers c), ConsumerGroup (kc_Group c), ConsumeTopics (kc_Topic c), DisableAutoCommit, ConsumeFromStart] @ secure"
    let ?dead = "[SeedBrokers (kc_Brokers c), DefaultProduceTopic (kc_DeadLetterTopic c), AllowAutoTopicCreation] @ secure"
    note run1 = run[unfolded NewConsumer_def Let_def ok option.case sum.case if_False]
    obtain r1 k1 where new: "kgo_NewClient lib ?opts k = (r1, k1)" by fastforce
    show ?thesis
    proof (cases r1)
      case (Inl err)
      with run1 new NewClient_failed[OF lib] show ?thesis by auto
    next
      case (Inr client)
      note made = NewClient_made[OF lib new[unfolded Inr]]
      obtain r2 k2 where new2: "kgo_NewClient lib ?dead k1 = (r2, k2)" by fastforce
      show ?thesis
      proof (cases "kc_DeadLetterTopic c = []")
        case True
        with run1 new Inr made show ?thesis by auto
      next
        case False
        have "case r2 of Inl err \<Rightarrow> oc k2 = oc k1 | Inr d \<Rightarrow> d \<notin> oc k1 \<and> oc k2 = insert d (oc k1)"
          using NewClient_failed[OF lib] NewClient_made[OF lib] new2 by (cases r2) auto
        with run1 new new2 Inr made False Close_closes[OF lib] show ?thesis by (cases r2) auto
      qed
    qed
  qed (use run in \<open>auto simp: NewConsumer_def Let_def split: option.splits sum.splits if_splits\<close>)
qed

theorem channel_no_leak:
  assumes "library_ok lib oc"
  shows "case NewChannel M env lib c k of (Inl err, k') \<Rightarrow> oc k' = oc k | (Inr ch, k') \<Rightarrow> oc (Channel_Close lib ch k') = oc k"
proof -
  obtain r1 k1 where p: "NewProducer M env lib c k = (r1, k1)" by fastforce
  obtain r2 k2 where n: "NewConsumer M env lib c k1 = (r2, k2)" by fastforce
  show ?thesis
    using NewProducer_opens[OF assms p] NewConsumer_opens[OF assms n] Close_closes[OF assms]
    by (auto simp: NewChannel_def p n Channel_Close_def Consumer_Close_def Producer_Close_def Let_def split: sum.splits option.splits)
qed

end
