(* ===== verification/Pipeline.thy ===== *)
theory Pipeline
  imports Kafka
begin

text \<open>
  The telemetry path as a whole: batches enter the aggregator service, its emissions reach the window channel, the persister applies what the channel
  delivers. The steps are the operations of the components, in any order; the channel may lose an acknowledgement and may deliver a window any
  number of times. The theorem is the contract of the path: what the store shows is the sum over the events, each counted once.
\<close>

text \<open>
  The publisher's state is the list of windows that reached the channel. A publisher that reports success has put the window there; one that fails
  may or may not have.
\<close>

definition channel_publisher :: "AggregateWindow list WindowPublisher \<Rightarrow> bool" where
  "channel_publisher pub \<longleftrightarrow>
     (\<forall>ctx w sent. (fst (pub ctx w sent) = None \<and> snd (pub ctx w sent) = sent @ [w]) \<or>
                  (fst (pub ctx w sent) \<noteq> None \<and> snd (pub ctx w sent) \<in> {sent, sent @ [w]}))"

text \<open>\<open>pp_events\<close> collects the events the aggregator absorbed, \<open>pp_delivered\<close> the windows the persister applied; the program keeps neither.\<close>

record ('m, 'n) pipe =
  pp_service :: "(Sketch Aggregator, AggregateWindow list, 'm) AggService"
  pp_store :: "Memory \<times> 'n"
  pp_events :: "Event list"
  pp_delivered :: "AggregateWindow list"

inductive pipe_step :: "('m, 'n) pipe \<Rightarrow> ('m, 'n) pipe \<Rightarrow> bool" where
  pipe_consume: "Agg_HandleBatch (aggregator_source sketch_ops) met ctx b (pp_service p) = (r, s') \<Longrightarrow>
    pipe_step p (p\<lparr>pp_service := s', pp_events := pp_events p @ (if r = None then absorbed sketch_ops (b_Events b) (as_source (pp_service p)) else [])\<rparr>)"
| pipe_emit_closed: "channel_publisher pub \<Longrightarrow> sequence_room (as_source (pp_service p)) \<Longrightarrow>
    EmitClosedWindows (aggregator_source sketch_ops) pub met ctx t (pp_service p) = (r, s') \<Longrightarrow> pipe_step p (p\<lparr>pp_service := s'\<rparr>)"
| pipe_emit_all: "channel_publisher pub \<Longrightarrow> sequence_room (as_source (pp_service p)) \<Longrightarrow>
    EmitAll (aggregator_source sketch_ops) pub met ctx (pp_service p) = (r, s') \<Longrightarrow> pipe_step p (p\<lparr>pp_service := s'\<rparr>)"
| pipe_persist: "w \<in> set (as_publisher (pp_service p)) \<Longrightarrow> HandleWindow ApplyWindow met ctx w (pp_store p) = (r, st') \<Longrightarrow>
    pipe_step p (p\<lparr>pp_store := st', pp_delivered := pp_delivered p @ (if r = None then [w] else [])\<rparr>)"

definition pipe_start :: "Sketch Aggregator \<Rightarrow> 'm \<Rightarrow> 'n \<Rightarrow> ('m, 'n) pipe" where
  "pipe_start a m n = \<lparr>pp_service = NewAggService a [] m, pp_store = (NewMemory, n), pp_events = [], pp_delivered = []\<rparr>"

section \<open>Emissions\<close>

lemma publish_loop_log:
  assumes "channel_publisher pub" and "publish_loop pub ctx ws published failure sent = (published', failure', sent')"
  shows "set sent \<union> set (accepted pub ctx ws sent) \<subseteq> set sent' \<and> set sent' \<subseteq> set sent \<union> set ws"
  using assms(2)
proof (induction ws arbitrary: published failure sent)
  case (Cons w ws)
  obtain e l1 where one: "pub ctx w sent = (e, l1)" by fastforce
  have l1: "(e = None \<and> l1 = sent @ [w]) \<or> (e \<noteq> None \<and> l1 \<in> {sent, sent @ [w]})" using assms(1) one unfolding channel_publisher_def by (metis fst_conv snd_conv)
  obtain pub' f' where "publish_loop pub ctx ws pub' f' l1 = (published', failure', sent')" using Cons.prems one by (cases e) auto
  from Cons.IH[OF this] l1 one show ?case by auto
qed simp

lemma agg_publish_log:
  assumes "channel_publisher pub" and "agg_publish src pub met ctx ws s = (r, s')"
  shows "set (as_publisher s) \<union> set (accepted pub ctx ws (as_publisher s)) \<subseteq> set (as_publisher s')" "set (as_publisher s') \<subseteq> set (as_publisher s) \<union> set ws"
proof -
  obtain published failure sent' where l: "publish_loop pub ctx ws [] None (as_publisher s) = (published, failure, sent')" by (metis prod.exhaust)
  then have "as_publisher s' = sent'" using assms(2) by (auto simp: agg_publish_def Let_def split: if_splits)
  with publish_loop_log[OF assms(1) l] show "set (as_publisher s) \<union> set (accepted pub ctx ws (as_publisher s)) \<subseteq> set (as_publisher s')"
    "set (as_publisher s') \<subseteq> set (as_publisher s) \<union> set ws" by simp_all
qed

text \<open>A collection numbers its new windows beyond all earlier ones.\<close>

lemma collect_numbers:
  assumes "source_ok a" and "sequence_room a" and "collect sketch_ops incl a = (r, a1)"
  shows "ag_sequence a \<le> ag_sequence a1" "ag_config a1 = ag_config a" "\<And>w. w \<in> pending_windows a1 \<Longrightarrow> w \<notin> pending_windows a \<Longrightarrow> ag_sequence a < w_Sequence w"
proof -
  have inv: "agg_inv a" using assms(1) by (simp add: source_ok_def)
  have a1: "a1 = drained sketch_ops (selected_keys incl a) a" using collect_ok(1)[OF sketch_ops_total inv assms(2), of incl] assms(3) by simp
  then show "ag_sequence a \<le> ag_sequence a1" "ag_config a1 = ag_config a" by (simp_all add: drained_def)
  show "ag_sequence a < w_Sequence w" if "w \<in> pending_windows a1" "w \<notin> pending_windows a" for w
    using that by (auto simp: a1 drained_def pending_windows_def dest: emitted_Sequence)
qed

lemma pending_Sequence_inj:
  assumes "agg_inv a" shows "inj_on w_Sequence (pending_windows a)"
proof -
  have "distinct (map w_Sequence (map snd (ag_pending a)))" using assms by (simp add: agg_inv_def comp_def case_prod_unfold)
  then show ?thesis by (auto simp: pending_windows_def distinct_map intro: inj_on_imageI)
qed

lemma pending_Sequence_le: "agg_inv a \<Longrightarrow> w \<in> pending_windows a \<Longrightarrow> w_Sequence w \<le> ag_sequence a"
  by (auto simp: agg_inv_def pending_windows_def)

text \<open>Both emissions collect and then publish.\<close>

lemma emission_cases:
  assumes "EmitClosedWindows (aggregator_source sketch_ops) pub met ctx t s = (r, s') \<or> EmitAll (aggregator_source sketch_ops) pub met ctx s = (r, s')"
    and "source_ok (as_source s)" and "sequence_room (as_source s)"
  obtains incl ws a1 where "collect sketch_ops incl (as_source s) = (Inr ws, a1)"
    "agg_publish (aggregator_source sketch_ops) pub met ctx ws (s\<lparr>as_source := a1\<rparr>) = (r, s')"
proof -
  have inv: "agg_inv (as_source s)" using assms(2) by (simp add: source_ok_def)
  note ok = collect_ok(1)[OF sketch_ops_total inv assms(3)]
  show ?thesis using assms(1)
  proof
    assume "EmitClosedWindows (aggregator_source sketch_ops) pub met ctx t s = (r, s')"
    then show ?thesis
      by (intro that[OF ok[of "\<lambda>key. wk_windowID key < WindowID (as_source s) t"]])
        (simp add: EmitClosedWindows_def aggregator_source_def CollectWindowsBefore_def ok Let_def)
  next
    assume "EmitAll (aggregator_source sketch_ops) pub met ctx s = (r, s')"
    then show ?thesis by (intro that[OF ok[of "\<lambda>_. True"]]) (simp add: EmitAll_def aggregator_source_def CollectAll_def ok)
  qed
qed

section \<open>The invariant of the path\<close>

text \<open>
  \<open>split_ok a sent events A\<close>: the windows \<open>A\<close> were handed over for good, the pending ones may have reached the channel without an acknowledgement, nothing else did; all of
  them are numbered differently, and what was absorbed is either held or in \<open>A\<close>.
\<close>

definition split_ok :: "Sketch Aggregator \<Rightarrow> AggregateWindow list \<Rightarrow> Event list \<Rightarrow> AggregateWindow list \<Rightarrow> bool" where
  "split_ok a sent events A \<longleftrightarrow>
     distinct A \<and> set A \<subseteq> set sent \<and> set sent \<subseteq> set A \<union> pending_windows a \<and> set A \<inter> pending_windows a = {} \<and>
     inj_on w_Sequence (set A \<union> pending_windows a) \<and> (\<forall>w \<in> set A. w_Sequence w \<le> ag_sequence a) \<and>
     (\<forall>c P. wrap64 (held c P a + window_amount c P A) = wrap64 (amount c P a events))"

definition pipe_inv :: "('m, 'n) pipe \<Rightarrow> bool" where
  "pipe_inv p \<longleftrightarrow>
     source_ok (as_source (pp_service p)) \<and> (\<exists>A. split_ok (as_source (pp_service p)) (as_publisher (pp_service p)) (pp_events p) A) \<and>
     fst (pp_store p) = deliver_all (pp_delivered p) NewMemory \<and> set (pp_delivered p) \<subseteq> set (as_publisher (pp_service p))"

lemma split_consume:
  assumes "source_ok a" and "split_ok a sent events A" and "IngestBatch sketch_ops b a = (None, a')"
  shows "split_ok a' sent (events @ absorbed sketch_ops (b_Events b) a) A"
proof -
  have inv: "agg_inv a" using assms(1) by (simp add: source_ok_def)
  have fr: "ag_config a' = ag_config a" "pending_windows a' = pending_windows a" "ag_sequence a' = ag_sequence a"
    using IngestBatch_frame[OF assms(3)] by (simp_all add: pending_windows_def)
  have run: "ingest_all sketch_ops (b_Events b) a = (None, a')" using assms(3) by (auto simp: IngestBatch_def split: option.splits)
  have "wrap64 (held c P a' + window_amount c P A) = wrap64 (amount c P a' (events @ absorbed sketch_ops (b_Events b) a))" for c P
  proof -
    have "wrap64 (held c P a' + window_amount c P A) = wrap64 (held c P a + amount c P a (absorbed sketch_ops (b_Events b) a) + window_amount c P A)"
      using ingest_all_held[OF inv run, of c P] wrap64_add_cong by blast
    also have "\<dots> = wrap64 ((held c P a + window_amount c P A) + amount c P a (absorbed sketch_ops (b_Events b) a))" by (simp add: algebra_simps)
    also have "\<dots> = wrap64 (amount c P a events + amount c P a (absorbed sketch_ops (b_Events b) a))"
      using assms(2) wrap64_add_cong unfolding split_ok_def by blast
    also have "amount c P a = amount c P a'" using fr(1) by (intro amount_config) simp
    finally show ?thesis by simp
  qed
  with assms(2) fr show ?thesis by (simp add: split_ok_def)
qed

lemma split_emission:
  assumes ok: "source_ok a" "sequence_room a" and split: "split_ok a sent events A" and coll: "collect sketch_ops incl a = (Inr ws, a1)"
    and acc: "distinct acc" "set acc \<subseteq> set ws" and sent': "set sent \<union> set acc \<subseteq> set sent'" "set sent' \<subseteq> set sent \<union> set ws"
  shows "source_ok (Commit acc a1) \<and> split_ok (Commit acc a1) sent' events (A @ acc)"
proof -
  note num = collect_numbers[OF ok coll]
  obtain ws' where "Inr ws = Inr ws'" "set ws' = pending_windows a1" using collect_source[OF ok coll] by blast
  then have ws: "set ws = pending_windows a1" by simp
  have a1: "source_ok a1" "agg_inv a1" "pending_windows a \<subseteq> pending_windows a1" "\<And>c P. held c P a1 = held c P a"
    using collect_source[OF ok coll] by (auto simp: source_ok_def)
  have com: "source_ok (Commit acc a1)" "pending_windows (Commit acc a1) = pending_windows a1 - set acc" "\<And>c P. held c P (Commit acc a1) = held c P a1 - window_amount c P acc"
    using aggregator.commit_ok[OF a1(1) acc(1)] acc(2) ws by (simp_all add: aggregator_source_def)
  have seq: "ag_sequence (Commit acc a1) = ag_sequence a1" "ag_config (Commit acc a1) = ag_config a" using num(2) by (simp_all add: Commit_def)
  have A: "distinct A" "set A \<subseteq> set sent" "set sent \<subseteq> set A \<union> pending_windows a" "set A \<inter> pending_windows a = {}" "inj_on w_Sequence (set A \<union> pending_windows a)"
    "\<forall>w \<in> set A. w_Sequence w \<le> ag_sequence a" using split by (auto simp: split_ok_def)
  have new: "w \<in> pending_windows a1 \<Longrightarrow> w \<notin> pending_windows a \<Longrightarrow> v \<in> set A \<Longrightarrow> w_Sequence v < w_Sequence w" for v w using num(3) A(6) by fastforce
  have disj: "set A \<inter> pending_windows a1 = {}" using new A(4) by fastforce
  have inj: "inj_on w_Sequence (set A \<union> pending_windows a1)"
  proof (rule inj_onI)
    fix v w assume vw: "v \<in> set A \<union> pending_windows a1" "w \<in> set A \<union> pending_windows a1" "w_Sequence v = w_Sequence w"
    show "v = w"
    proof (cases "v \<in> pending_windows a1 \<and> w \<in> pending_windows a1")
      case True
      then show ?thesis using pending_Sequence_inj[OF a1(2)] vw(3) by (auto dest: inj_onD)
    next
      case False
      then have "v \<in> set A \<union> pending_windows a" "w \<in> set A \<union> pending_windows a" using vw new[of v w] new[of w v] by fastforce+
      with A(5) vw(3) show ?thesis by (auto dest: inj_onD)
    qed
  qed
  have le: "\<forall>w \<in> set (A @ acc). w_Sequence w \<le> ag_sequence a1" using A(6) num(1) pending_Sequence_le[OF a1(2)] acc(2) ws by fastforce
  have sums: "wrap64 (held c P (Commit acc a1) + window_amount c P (A @ acc)) = wrap64 (amount c P (Commit acc a1) events)" for c P
  proof -
    have "amount c P (Commit acc a1) = amount c P a" using seq(2) by (intro amount_config) simp
    then show ?thesis using split com(3)[of c P] a1(4)[of c P] by (simp add: split_ok_def algebra_simps)
  qed
  have "distinct (A @ acc)" using A(1) acc disj ws by auto
  moreover have "set (A @ acc) \<subseteq> set sent'" using A(2) sent' by auto
  moreover have "set sent' \<subseteq> set (A @ acc) \<union> pending_windows (Commit acc a1)" using A(3) sent'(2) ws a1(3) com(2) by auto
  moreover have "set (A @ acc) \<inter> pending_windows (Commit acc a1) = {}" using disj com(2) by auto
  moreover have "inj_on w_Sequence (set (A @ acc) \<union> pending_windows (Commit acc a1))" by (rule inj_on_subset[OF inj]) (use acc(2) ws com(2) in auto)
  ultimately show ?thesis using com(1) seq(1) le sums by (simp add: split_ok_def)
qed

lemma pipe_emission:
  assumes "EmitClosedWindows (aggregator_source sketch_ops) pub met ctx t s = (r, s') \<or> EmitAll (aggregator_source sketch_ops) pub met ctx s = (r, s')"
    and "channel_publisher pub" and "sequence_room (as_source s)" and "source_ok (as_source s)" and "split_ok (as_source s) (as_publisher s) events A"
  shows "source_ok (as_source s') \<and> set (as_publisher s) \<subseteq> set (as_publisher s') \<and> (\<exists>A'. split_ok (as_source s') (as_publisher s') events A')"
proof -
  obtain incl ws a1 where coll: "collect sketch_ops incl (as_source s) = (Inr ws, a1)"
    and run: "agg_publish (aggregator_source sketch_ops) pub met ctx ws (s\<lparr>as_source := a1\<rparr>) = (r, s')"
    by (rule emission_cases[OF assms(1,4,3)])
  let ?acc = "accepted pub ctx ws (as_publisher s)"
  have "distinct ws" using collect_source[OF assms(4,3) coll] by auto
  then have acc: "distinct ?acc" "set ?acc \<subseteq> set ws" by (simp_all add: distinct_accepted accepted_subset)
  have src: "as_source s' = Commit ?acc a1"
    using as_source_agg_publish[of "aggregator_source sketch_ops" pub met ctx ws "s\<lparr>as_source := a1\<rparr>"] run by (simp add: aggregator_source_def)
  note sent = agg_publish_log[OF assms(2) run, simplified]
  from split_emission[OF assms(4,3,5) coll acc, of "as_publisher s'"] sent src show ?thesis by auto
qed

lemma pipe_step_inv:
  assumes "pipe_step p p'" and "pipe_inv p"
  shows "pipe_inv p'"
  using assms(1)
proof cases
  case (pipe_consume met ctx b r s')
  let ?a = "as_source (pp_service p)"
  have ok: "source_ok ?a" and "\<exists>A. split_ok ?a (as_publisher (pp_service p)) (pp_events p) A" using assms(2) by (auto simp: pipe_inv_def)
  then obtain A where A: "split_ok ?a (as_publisher (pp_service p)) (pp_events p) A" by blast
  obtain r1 a1 where run: "IngestBatch sketch_ops b ?a = (r1, a1)" by fastforce
  have sent: "as_publisher s' = as_publisher (pp_service p)" "as_source s' = (if ctx = None then a1 else ?a)" "r = None \<longleftrightarrow> ctx = None \<and> r1 = None"
    using pipe_consume(2) run by (auto simp: Agg_HandleBatch_def aggregator_source_def recordShed_def Let_def split: option.splits)
  have "source_ok a1" using aggregator.ingest_ok[OF ok] run by (simp add: aggregator_source_def)
  moreover have "r1 \<noteq> None \<Longrightarrow> a1 = ?a" using IngestBatch_error[OF ok] run by fastforce
  ultimately show ?thesis using assms(2) sent ok A split_consume[OF ok A, of b a1] run unfolding pipe_consume(1) pipe_inv_def by (cases ctx; cases r1) auto
next
  case (pipe_emit_closed pub met ctx t r s')
  then show ?thesis using assms(2) pipe_emission[of pub met ctx t "pp_service p" r s' "pp_events p"] unfolding pipe_inv_def by fastforce
next
  case (pipe_emit_all pub met ctx r s')
  then show ?thesis using assms(2) pipe_emission[of pub met ctx _ "pp_service p" r s' "pp_events p"] unfolding pipe_inv_def by fastforce
next
  case (pipe_persist w met ctx r st')
  have "fst st' = deliver_all (pp_delivered p @ (if r = None then [w] else [])) NewMemory"
  proof (cases ctx)
    case None
    obtain m where put: "ApplyWindow None w (fst (pp_store p)) = (None, m)" using memory.write_live[of w "fst (pp_store p)"] by (metis prod.collapse)
    then have "fst st' = m" "r = None" using pipe_persist(3) None by (auto simp: HandleWindow_def)
    with assms(2) put show ?thesis by (simp add: pipe_inv_def deliver_all_def)
  next
    case (Some err)
    then have "fst st' = fst (pp_store p)" "r \<noteq> None" using pipe_persist(3) memory.write_cancelled[of err w "fst (pp_store p)"] by (auto simp: HandleWindow_def)
    with assms(2) show ?thesis by (auto simp: pipe_inv_def)
  qed
  with assms(2) pipe_persist(1,2) show ?thesis by (auto simp: pipe_inv_def)
qed

lemma NewAggregator_source:
  assumes "NewAggregator now c = Inr a" and "in_i64 (cfg_SequenceSeed c)" and "cfg_NewSketch c = None" and "0 \<le> cfg_RelativeAccuracy c"
  shows "source_ok a" "ag_open a = []" "ag_pending a = []"
proof -
  have "\<exists>sk. sketch_factory (ag_config a) = Inr sk"
    using assms(1,3,4) by (auto simp: NewAggregator_def Let_def sketch_factory_def NewSketch_def AggConfig_validate_def defaultRelativeError_def split: if_splits option.splits)
  with NewAggregator_inv[OF assms(1,2)] show "source_ok a" by (simp add: source_ok_def)
  show "ag_open a = []" "ag_pending a = []" using assms(1) by (auto simp: NewAggregator_def Let_def split: option.splits if_splits)
qed

lemma pipe_start_inv:
  assumes "source_ok a" "ag_open a = []" "ag_pending a = []"
  shows "pipe_inv (pipe_start a m n)"
proof -
  have "split_ok a [] [] []" using assms by (simp add: split_ok_def pending_windows_def held_def held_open_def held_pending_def)
  then show ?thesis using assms by (auto simp: pipe_inv_def pipe_start_def NewAggService_def deliver_all_def)
qed

lemma pipe_reachable_inv: "pipe_step\<^sup>*\<^sup>* p p' \<Longrightarrow> pipe_inv p \<Longrightarrow> pipe_inv p'"
  by (induction rule: rtranclp_induct) (auto intro: pipe_step_inv)

text \<open>A healthy channel brings the path to rest: one emission of everything, and one delivery of each window.\<close>

lemma pipe_deliver_all:
  assumes "set ws \<subseteq> set (as_publisher (pp_service p))"
  shows "\<exists>p'. pipe_step\<^sup>*\<^sup>* p p' \<and> pp_service p' = pp_service p \<and> pp_events p' = pp_events p \<and> set ws \<union> set (pp_delivered p) \<subseteq> set (pp_delivered p')"
  using assms
proof (induction ws arbitrary: p)
  case (Cons w ws)
  obtain st' where put: "HandleWindow ApplyWindow None None w (pp_store p) = (None, st')" by (simp add: HandleWindow_live)
  have step: "pipe_step p (p\<lparr>pp_store := st', pp_delivered := pp_delivered p @ [w]\<rparr>)" using pipe_persist[OF _ put] Cons.prems by simp
  from Cons.IH[of "p\<lparr>pp_store := st', pp_delivered := pp_delivered p @ [w]\<rparr>"] Cons.prems step show ?case
    by (auto intro!: converse_rtranclp_into_rtranclp[of pipe_step p])
qed auto

lemma pipe_quiesces:
  fixes p :: "('m, 'n) pipe"
  assumes "pipe_inv p" and "sequence_room (as_source (pp_service p))"
  shows "\<exists>p'. pipe_step\<^sup>*\<^sup>* p p' \<and> OpenWindows (as_source (pp_service p')) = 0 \<and> set (as_publisher (pp_service p')) \<subseteq> set (pp_delivered p') \<and> pp_events p' = pp_events p"
proof -
  let ?pub = "\<lambda>ctx w sent. (None, sent @ [w])" and ?src = "aggregator_source sketch_ops" and ?s = "pp_service p"
  have pub: "channel_publisher ?pub" by (simp add: channel_publisher_def)
  have ok: "source_ok (as_source ?s)" using assms(1) by (simp add: pipe_inv_def)
  obtain r s' where run: "EmitAll ?src ?pub None None ?s = (r, s')" by fastforce
  obtain r1 a1 where coll: "collect sketch_ops (\<lambda>_. True) (as_source ?s) = (r1, a1)" by fastforce
  obtain ws where ws: "r1 = Inr ws" "set ws = pending_windows a1" "ag_open a1 = []" "source_ok a1" "distinct ws"
    using collect_source[OF ok assms(2) coll, of Events "\<lambda>_. True"] by auto
  have "accepted ?pub None ws q = ws" for q by (induction ws arbitrary: q) simp_all
  then have src: "as_source s' = Commit ws a1"
    using run coll ws(1) as_source_agg_publish[of ?src ?pub None None ws "?s\<lparr>as_source := a1\<rparr>"]
    by (simp add: EmitAll_def aggregator_source_def CollectAll_def)
  have "pending_windows (Commit ws a1) = {}" using aggregator.commit_ok[OF ws(4,5)] ws(2) by (simp add: aggregator_source_def)
  then have "OpenWindows (as_source s') = 0" using src ws(3) by (simp add: OpenWindows_def heldWindows_def Commit_def pending_windows_def)
  moreover obtain p' where "pipe_step\<^sup>*\<^sup>* (p\<lparr>pp_service := s'\<rparr>) p'" "pp_service p' = s'" "pp_events p' = pp_events p" "set (as_publisher s') \<subseteq> set (pp_delivered p')"
    using pipe_deliver_all[of "as_publisher s'" "p\<lparr>pp_service := s'\<rparr>"] by auto
  moreover have "pipe_step p (p\<lparr>pp_service := s'\<rparr>)" by (rule pipe_emit_all[OF pub assms(2) run])
  ultimately show ?thesis by (intro exI[of _ p']) (auto intro: converse_rtranclp_into_rtranclp)
qed

section \<open>Properties\<close>

text \<open>Once everything was handed over and what reached the channel was delivered, the store holds the sums of the absorbed events.\<close>

lemma settled_totals:
  assumes "split_ok a sent events A" and "OpenWindows a = 0" and "set delivered = set sent"
  shows "wrap64 (dev_total cn k (deliver_all delivered NewMemory)) = wrap64 (\<Sum>e\<leftarrow>filter (\<lambda>e. deviceKey (ev_UserID e) (ev_DeviceID e) = k) events. of_event cn e)"
proof -
  let ?P = "\<lambda>key. deviceKey (ck_UserID (wk_correlation key)) (ck_DeviceID (wk_correlation key)) = k"
  have empty: "ag_open a = []" "ag_pending a = []" using assms(2) unfolding OpenWindows_def heldWindows_def by (auto simp flip: length_0_conv)
  then have "pending_windows a = {}" by (simp add: pending_windows_def)
  then have A: "distinct A" "set A = set delivered" "inj_on w_Sequence (set A)" using assms(1,3) unfolding split_ok_def by auto
  have "held cn ?P a = 0" using empty by (simp add: held_def held_open_def held_pending_def)
  moreover have "wrap64 (held cn ?P a + window_amount cn ?P A) = wrap64 (amount cn ?P a events)" using assms(1) by (simp add: split_ok_def)
  ultimately have ev: "wrap64 (window_amount cn ?P A) = wrap64 (amount cn ?P a events)" by simp
  have "inj_on Identity {w \<in> set delivered. dkey w = k}"
    by (rule Identity_inj_on) (use A(2,3) in \<open>auto dest: inj_onD\<close>)
  from deliver_all_total[OF this, of cn] have "wrap64 (dev_total cn k (deliver_all delivered NewMemory)) = wrap64 (\<Sum>w \<in> {w \<in> set A. dkey w = k}. of_window cn w)" by (simp add: A(2))
  also have "(\<Sum>w \<in> {w \<in> set A. dkey w = k}. of_window cn w) = window_amount cn ?P A"
    using A(1) by (simp add: window_amount_def window_key_def dkey_def comp_def sum.distinct_set_conv_list flip: set_filter)
  also note ev
  finally show ?thesis by (simp add: amount_def event_key_def Event_CorrelationKey_def)
qed

text \<open>
  Property C1 (each event counts once, end to end). Let batches be consumed, windows emitted and applied in any order, with publications that fail, publications whose acknowledgement is
  lost and deliveries repeated at will. Whenever the aggregator holds nothing more and every window on the channel has been applied at least once, each counter of each device in the
  store is the sum over the absorbed events of that device (in 64-bit arithmetic).
\<close>

theorem pipeline_exactly_once:
  assumes "NewAggregator now c = Inr a0" and "in_i64 (cfg_SequenceSeed c)" and "cfg_NewSketch c = None"
    and "pipe_step\<^sup>*\<^sup>* (pipe_start a0 m n) p"
    and "OpenWindows (as_source (pp_service p)) = 0" and "set (as_publisher (pp_service p)) \<subseteq> set (pp_delivered p)"
  shows "wrap64 (dev_total cn k (fst (pp_store p))) =
    wrap64 (\<Sum>e\<leftarrow>filter (\<lambda>e. deviceKey (ev_UserID e) (ev_DeviceID e) = k) (pp_events p). of_event cn e)"
proof -
  have "0 \<le> cfg_RelativeAccuracy c" using assms(1) by (auto simp: NewAggregator_def Let_def AggConfig_validate_def split: if_splits option.splits)
  from pipe_reachable_inv[OF assms(4) pipe_start_inv[OF NewAggregator_source[OF assms(1-3) this]]] have inv: "pipe_inv p" .
  then obtain A where split: "split_ok (as_source (pp_service p)) (as_publisher (pp_service p)) (pp_events p) A" by (auto simp: pipe_inv_def)
  have "set (pp_delivered p) = set (as_publisher (pp_service p))" using assms(6) inv unfolding pipe_inv_def by blast
  from settled_totals[OF split assms(5) this, of cn k] inv show ?thesis by (simp add: pipe_inv_def)
qed

lemma ex_ingested:
  obtains a1 where "IngestBatch sketch_ops ex_batch ex_aggregator = (None, a1)" "sequence_room a1"
proof -
  obtain r a1 where run: "IngestBatch sketch_ops ex_batch ex_aggregator = (r, a1)" by fastforce
  have "validate_all (b_Events ex_batch) = None" using ex_batch_valid by (simp add: validate_all_None)
  then have r: "r = None" using run ingest_all_shed[OF surjective_pairing ex_aggregator_ok(4), of sketch_ops "b_Events ex_batch"] by (simp add: IngestBatch_def)
  have "(agg_step sketch_ops)\<^sup>*\<^sup>* ex_aggregator a1" by (rule r_into_rtranclp) (rule step_IngestBatch[OF run])
  from agg_steps_safe[OF this] ex_aggregator_ok(1,2) have "heldWindows a1 \<le> 1" by (auto simp: ceiling_ok_def ex_aggregator_def ex_config_def)
  moreover have "ag_sequence a1 = 7" using IngestBatch_frame[OF run] by (simp add: ex_aggregator_def)
  ultimately have "sequence_room a1" by (simp add: sequence_room_def heldWindows_def MaxInt64_def)
  with run r show ?thesis by (intro that) simp_all
qed

lemma ex_consumed:
  obtains s1 where "Agg_HandleBatch (aggregator_source sketch_ops) None None ex_batch (NewAggService ex_aggregator p ()) = (None, s1)" "sequence_room (as_source s1)"
proof -
  obtain a1 where a1: "IngestBatch sketch_ops ex_batch ex_aggregator = (None, a1)" "sequence_room a1" by (rule ex_ingested)
  have "Agg_HandleBatch (aggregator_source sketch_ops) None None ex_batch (NewAggService ex_aggregator p ()) =
      (None, \<lparr>as_source = a1, as_publisher = p, as_metrics = (), as_lastShed = Shed a1\<rparr>)"
    using a1(1) by (simp add: Agg_HandleBatch_def aggregator_source_def NewAggService_def recordShed_def agg_record_def)
  with a1(2) show ?thesis by (intro that[OF \<open>Agg_HandleBatch _ _ _ _ _ = _\<close>]) simp
qed

theorem pipeline_exactly_once_witness:
  "\<exists>p. pipe_step\<^sup>*\<^sup>* (pipe_start ex_aggregator () ()) p \<and> pp_events p = [ex_event, ex_event] \<and>
     wrap64 (dev_total Bytes (deviceKey ''u'' ''d'') (fst (pp_store p))) = 10"
proof -
  let ?p0 = "pipe_start ex_aggregator () () :: (unit, unit) pipe"
  have seed: "in_i64 (cfg_SequenceSeed ex_config)" "cfg_NewSketch ex_config = None" by (simp_all add: ex_config_def in_i64_def MinInt64_def MaxInt64_def)
  obtain s1 where s1: "Agg_HandleBatch (aggregator_source sketch_ops) None None ex_batch (pp_service ?p0) = (None, s1)" "sequence_room (as_source s1)"
    by (rule ex_consumed) (simp add: pipe_start_def)
  let ?p1 = "?p0\<lparr>pp_service := s1, pp_events := [ex_event, ex_event]\<rparr>"
  have step: "pipe_step ?p0 ?p1"
    using pipe_consume[OF s1(1)] ex_batch_absorbed by (simp add: pipe_start_def NewAggService_def)
  have "pipe_inv ?p0" by (rule pipe_start_inv) (use NewAggregator_source[OF NewAggregator_ex seed] in \<open>simp_all add: ex_config_def\<close>)
  from pipe_quiesces[OF pipe_step_inv[OF step this]] s1(2) obtain p where p: "pipe_step\<^sup>*\<^sup>* ?p1 p" "OpenWindows (as_source (pp_service p)) = 0"
    "set (as_publisher (pp_service p)) \<subseteq> set (pp_delivered p)" "pp_events p = [ex_event, ex_event]" by auto
  have run: "pipe_step\<^sup>*\<^sup>* ?p0 p" by (rule converse_rtranclp_into_rtranclp[OF step p(1)])
  from pipeline_exactly_once[OF NewAggregator_ex seed run p(2,3), of Bytes "deviceKey ''u'' ''d''"] run p(4) show ?thesis
    by (intro exI[of _ p]) (simp add: ex_event_def wrap64_def)
qed

end
