(* ===== verification/Server.thy ===== *)
theory Server
  imports GoStrings
begin

text \<open>
  Programs that run on a server: commands that answer or fail and change the server's state, and their composition. The servers themselves, Redis and PostgreSQL, are third-party code and parameters of the
  components that call them. \<open>seen\<close> says that a command of a server does what another does, as seen through a view of the server's state; scripts composed of such commands do so too.
\<close>

text \<open>A command, or a script of commands: it answers or fails, and changes the state.\<close>

type_synonym ('r, 'a) command = "'r \<Rightarrow> (error + 'a) \<times> 'r"

definition reply :: "'a \<Rightarrow> ('r, 'a) command" where "reply x s = (Inr x, s)"

definition fails :: "error \<Rightarrow> ('r, 'a) command" where "fails err s = (Inl err, s)"

text \<open>In sequence: \<^verbatim>\<open>redis.call\<close> raises the error of a failed command, which ends the script; what was done before stays done.\<close>

definition call :: "('r, 'a) command \<Rightarrow> ('a \<Rightarrow> ('r, 'b) command) \<Rightarrow> ('r, 'b) command" where
  "call c f s = (case c s of (Inl err, s1) \<Rightarrow> (Inl err, s1) | (Inr x, s1) \<Rightarrow> f x s1)"

text \<open>A server behaves as documented, seen through a view of its state.\<close>

definition seen :: "('r \<Rightarrow> 's) \<Rightarrow> ('r, 'a) command \<Rightarrow> ('s, 'a) command \<Rightarrow> bool" where
  "seen view c d \<longleftrightarrow> (\<forall>s. fst (c s) = fst (d (view s)) \<and> view (snd (c s)) = snd (d (view s)))"

named_theorems server_seen "commands and scripts that a server runs as documented"

lemma seen_reply [server_seen]: "seen view (reply x) (reply x)"
  by (simp add: seen_def reply_def)

lemma seen_fails [server_seen]: "seen view (fails err) (fails err)"
  by (simp add: seen_def fails_def)

lemma seen_call [server_seen]: "seen view c d \<Longrightarrow> (\<And>x. seen view (f x) (g x)) \<Longrightarrow> seen view (call c f) (call d g)"
proof -
  assume c: "seen view c d" and f: "\<And>x. seen view (f x) (g x)"
  have "fst (call c f s) = fst (call d g (view s)) \<and> view (snd (call c f s)) = snd (call d g (view s))" for s
  proof -
    obtain r s1 where run: "c s = (r, s1)" by fastforce
    then have "d (view s) = (r, view s1)" using c unfolding seen_def by (metis fst_conv prod.collapse snd_conv)
    with run f show ?thesis by (cases r) (simp_all add: call_def seen_def)
  qed
  then show ?thesis by (simp add: seen_def)
qed

lemma seen_if [server_seen]: "seen view c d \<Longrightarrow> seen view c' d' \<Longrightarrow> seen view (if b then c else c') (if b then d else d')"
  by simp

lemma seen_option [server_seen]: "seen view c d \<Longrightarrow> (\<And>x. seen view (f x) (g x)) \<Longrightarrow> seen view (case v of None \<Rightarrow> c | Some x \<Rightarrow> f x) (case v of None \<Rightarrow> d | Some x \<Rightarrow> g x)"
  by (cases v) auto

end
