(* ===== verification/Redis.thy ===== *)
theory Redis
  imports Server
begin

text \<open>
  What the Redis store relies on. The Redis server and its client are third-party code, so both are parameters: a server is a record of the commands the store
  uses over a state of its own, and what a call of the client met on the network is an argument of the call. \<open>documented\<close> states what the Redis manual says of the commands, over an
  explicit key space, and \<open>redis_ok\<close> that a server behaves so as seen through a view of its state; it is a hypothesis of the properties. The numbers of Lua, the language of the store's
  scripts, are doubles: \<open>lua_number\<close>.
\<close>

section \<open>Numbers of Lua\<close>

text \<open>An integer as a double: 53 significant bits, ties to even.\<close>

fun excess_bits :: "nat \<Rightarrow> nat" where
  "excess_bits n = (if n < 2 ^ 53 then 0 else Suc (excess_bits (n div 2)))"

declare excess_bits.simps [simp del]

definition round_even :: "nat \<Rightarrow> nat \<Rightarrow> nat" where
  "round_even n e =
     (let q = n div 2 ^ e; r = n mod 2 ^ e
      in if 2 ^ e < 2 * r \<or> (2 ^ e = 2 * r \<and> odd q) then Suc q else q)"

definition lua_number :: "int \<Rightarrow> int" where
  "lua_number n =
     (let a = nat \<bar>n\<bar>; e = excess_bits a
      in if e = 0 then n else sgn n * int (round_even a e * 2 ^ e))"

text \<open>
  \<^verbatim>\<open>tonumber\<close> of a string; the strings the scripts convert are decimal integers.
\<close>

definition tonumber :: "string \<Rightarrow> int option" where
  "tonumber s = map_option lua_number (ParseInt s)"

lemma excess_bits_small: "n < 2 ^ 53 \<Longrightarrow> excess_bits n = 0"
  by (simp add: excess_bits.simps)

lemma excess_bits_pos: "2 ^ 53 \<le> n \<Longrightarrow> 0 < excess_bits n"
  by (subst excess_bits.simps) simp

lemma lua_number_exact: "\<bar>n\<bar> < 2 ^ 53 \<Longrightarrow> lua_number n = n"
proof -
  assume "\<bar>n\<bar> < 2 ^ 53"
  then have "nat \<bar>n\<bar> < 2 ^ 53" by (simp add: nat_less_iff)
  then show ?thesis by (simp add: lua_number_def excess_bits_small)
qed

lemma excess_bits_range: "2 ^ 53 \<le> n \<Longrightarrow> 2 ^ (52 + excess_bits n) \<le> n"
proof (induction n rule: excess_bits.induct)
  case (1 n)
  show ?case
  proof (cases "n div 2 < 2 ^ 53")
    case True
    with 1 have "excess_bits n = 1" by (simp add: excess_bits.simps[of n] excess_bits_small)
    with 1 show ?thesis by simp
  next
    case False
    with 1 have "2 ^ (52 + excess_bits (n div 2)) \<le> n div 2" by simp
    then have "2 ^ Suc (52 + excess_bits (n div 2)) \<le> n" unfolding power_Suc by linarith
    moreover have "excess_bits n = Suc (excess_bits (n div 2))" using 1(2) by (simp add: excess_bits.simps[of n])
    ultimately show ?thesis by (simp only: add_Suc_right)
  qed
qed

text \<open>Rounding takes no integer into the range where integers are exact.\<close>

lemma lua_number_large: "2 ^ 53 \<le> \<bar>n\<bar> \<Longrightarrow> 2 ^ 53 \<le> \<bar>lua_number n\<bar>"
proof -
  assume large: "2 ^ 53 \<le> \<bar>n\<bar>"
  let ?a = "nat \<bar>n\<bar>"
  let ?e = "excess_bits ?a"
  have a: "2 ^ 53 \<le> ?a" using large by (simp add: le_nat_iff)
  have e: "0 < ?e" by (rule excess_bits_pos[OF a])
  have "2 ^ (52 + ?e) div 2 ^ ?e \<le> ?a div 2 ^ ?e" by (rule div_le_mono[OF excess_bits_range[OF a]])
  then have "2 ^ 52 \<le> ?a div 2 ^ ?e" by (simp add: power_add)
  then have "2 ^ 52 \<le> round_even ?a ?e" by (auto simp: round_even_def Let_def)
  then have "(2 :: nat) ^ 52 * 2 ^ ?e \<le> round_even ?a ?e * 2 ^ ?e" by (rule mult_le_mono1)
  moreover have "(2 :: nat) ^ 53 \<le> 2 ^ 52 * 2 ^ ?e" using e power_increasing[of 1 ?e "2 :: nat"] by simp
  ultimately have "2 ^ 53 \<le> round_even ?a ?e * 2 ^ ?e" by (rule order_trans[rotated])
  then have "int (2 ^ 53) \<le> int (round_even ?a ?e * 2 ^ ?e)" by (simp only: of_nat_le_iff)
  moreover have "\<bar>lua_number n\<bar> = int (round_even ?a ?e * 2 ^ ?e)"
    using e large by (cases "n = 0") (simp_all add: lua_number_def Let_def abs_mult sgn_if)
  ultimately show ?thesis by simp
qed

lemma lua_number_inj: "lua_number n = m \<Longrightarrow> \<bar>m\<bar> < 2 ^ 53 \<Longrightarrow> n = m"
  using lua_number_large[of n] lua_number_exact[of n] by (cases "\<bar>n\<bar> < 2 ^ 53") auto

text \<open>Comparing a value that is not a number raises an error.\<close>

definition NOTNUMBER :: error where "NOTNUMBER = Err ''ERR attempt to compare number with nil''"

lemma AppendInt_0: "AppendInt 0 = ''0''"
proof -
  have "char_of (of_char (CHR ''0'') :: nat) = CHR ''0''" by (rule char_of_char)
  then show ?thesis by (simp add: AppendInt_def digits.simps digit_char_def)
qed

lemma ParseInt_0: "ParseInt ''0'' = Some 0"
  using ParseInt_AppendInt[of 0] by (simp add: AppendInt_0 in_i64_def MinInt64_def MaxInt64_def)

section \<open>Commands\<close>

datatype redis_value = RString string | RHash "string \<rightharpoonup> string" | RZset "string \<rightharpoonup> int" | RSet "string set"

record 'r redis =
  rd_EXISTS :: "string \<Rightarrow> ('r, bool) command"
  rd_GET :: "string \<Rightarrow> ('r, string option) command"
  rd_INCR :: "string \<Rightarrow> ('r, int) command"
  rd_SET_PX :: "string \<Rightarrow> string \<Rightarrow> int \<Rightarrow> ('r, unit) command"
  rd_DEL :: "string \<Rightarrow> ('r, unit) command"
  rd_HGET :: "string \<Rightarrow> string \<Rightarrow> ('r, string option) command"
  rd_HSET :: "string \<Rightarrow> (string \<times> string) list \<Rightarrow> ('r, unit) command"
  rd_HSETNX :: "string \<Rightarrow> string \<Rightarrow> string \<Rightarrow> ('r, unit) command"
  rd_HINCRBY :: "string \<Rightarrow> string \<Rightarrow> int \<Rightarrow> ('r, unit) command"
  rd_HGETALL :: "string \<Rightarrow> ('r, string \<rightharpoonup> string) command"
  rd_ZSCORE :: "string \<Rightarrow> string \<Rightarrow> ('r, int option) command"
  rd_ZADD :: "string \<Rightarrow> int \<Rightarrow> string \<Rightarrow> ('r, unit) command"
  rd_ZREMRANGEBYSCORE :: "string \<Rightarrow> int \<Rightarrow> ('r, unit) command"
  rd_EXPIRE :: "string \<Rightarrow> int \<Rightarrow> ('r, unit) command"
  rd_SADD :: "string \<Rightarrow> string \<Rightarrow> ('r, unit) command"
  rd_SMEMBERS :: "string \<Rightarrow> ('r, string set) command"
  rd_SPUBLISH :: "string \<Rightarrow> string \<Rightarrow> ('r, unit) command"
  rd_advance :: "int \<Rightarrow> 'r \<Rightarrow> 'r"

section \<open>What the manual says\<close>

text \<open>
  The keys that have not expired with their values, the deadlines of keys and the clock in milliseconds, and the messages published. A command on a key of another type fails and
  changes nothing; a missing key counts as empty, and a container that becomes empty is removed.
\<close>

record keyspace =
  kv_keys :: "string \<rightharpoonup> redis_value"
  kv_deadline :: "string \<rightharpoonup> int"
  kv_clock :: int
  kv_published :: "(string \<times> string) list"

definition WRONGTYPE :: error where "WRONGTYPE = Err ''WRONGTYPE Operation against a key holding the wrong kind of value''"
definition NOTINT :: error where "NOTINT = Err ''ERR value is not an integer or out of range''"
definition INVALIDEXPIRE :: error where "INVALIDEXPIRE = Err ''ERR invalid expire time''"
definition OVERFLOW :: error where "OVERFLOW = Err ''ERR increment or decrement would overflow''"

definition hash_at :: "string \<Rightarrow> keyspace \<Rightarrow> (string \<rightharpoonup> string) option" where
  "hash_at k s = (case kv_keys s k of None \<Rightarrow> Some Map.empty | Some (RHash h) \<Rightarrow> Some h | Some _ \<Rightarrow> None)"

definition zset_at :: "string \<Rightarrow> keyspace \<Rightarrow> (string \<rightharpoonup> int) option" where
  "zset_at k s = (case kv_keys s k of None \<Rightarrow> Some Map.empty | Some (RZset z) \<Rightarrow> Some z | Some _ \<Rightarrow> None)"

definition set_at :: "string \<Rightarrow> keyspace \<Rightarrow> string set option" where
  "set_at k s = (case kv_keys s k of None \<Rightarrow> Some {} | Some (RSet x) \<Rightarrow> Some x | Some _ \<Rightarrow> None)"

definition string_at :: "string \<Rightarrow> keyspace \<Rightarrow> string option option" where
  "string_at k s = (case kv_keys s k of None \<Rightarrow> Some None | Some (RString x) \<Rightarrow> Some (Some x) | Some _ \<Rightarrow> None)"

definition typed :: "'v option \<Rightarrow> ('v \<Rightarrow> (keyspace, 'a) command) \<Rightarrow> (keyspace, 'a) command" where
  "typed v f s = (case v of None \<Rightarrow> (Inl WRONGTYPE, s) | Some x \<Rightarrow> f x s)"

definition put :: "string \<Rightarrow> redis_value \<Rightarrow> keyspace \<Rightarrow> keyspace" where
  "put k v s = s\<lparr>kv_keys := (kv_keys s)(k \<mapsto> v)\<rparr>"

definition remove_key :: "string \<Rightarrow> keyspace \<Rightarrow> keyspace" where
  "remove_key k s = s\<lparr>kv_keys := (kv_keys s)(k := None), kv_deadline := (kv_deadline s)(k := None)\<rparr>"

text \<open>Adding to a decimal integer held in a string or in a field.\<close>

definition incremented :: "string option \<Rightarrow> int \<Rightarrow> error + int" where
  "incremented v d =
     (case ParseInt (case v of None \<Rightarrow> ''0'' | Some x \<Rightarrow> x) of
        None \<Rightarrow> Inl NOTINT
      | Some n \<Rightarrow> if in_i64 (n + d) then Inr (n + d) else Inl OVERFLOW)"

definition documented :: "keyspace redis" where
  "documented =
    \<lparr>rd_EXISTS = \<lambda>k s. (Inr (kv_keys s k \<noteq> None), s),
     rd_GET = \<lambda>k s. typed (string_at k s) reply s,
     rd_INCR = \<lambda>k s. typed (string_at k s) (\<lambda>v s. case incremented v 1 of Inl err \<Rightarrow> (Inl err, s) | Inr n \<Rightarrow> (Inr n, put k (RString (AppendInt n)) s)) s,
     rd_SET_PX = \<lambda>k v ms s. if ms \<le> 0 then (Inl INVALIDEXPIRE, s) else (Inr (), (put k (RString v) s)\<lparr>kv_deadline := (kv_deadline s)(k \<mapsto> kv_clock s + ms)\<rparr>),
     rd_DEL = \<lambda>k s. (Inr (), remove_key k s),
     rd_HGET = \<lambda>k f s. typed (hash_at k s) (\<lambda>h. reply (h f)) s,
     rd_HSET = \<lambda>k fs s. typed (hash_at k s) (\<lambda>h s. (Inr (), put k (RHash (fold (\<lambda>(f, v) h. h(f \<mapsto> v)) fs h)) s)) s,
     rd_HSETNX = \<lambda>k f v s. typed (hash_at k s) (\<lambda>h s. (Inr (), put k (RHash (if h f = None then h(f \<mapsto> v) else h)) s)) s,
     rd_HINCRBY = \<lambda>k f d s. typed (hash_at k s)
       (\<lambda>h s. case incremented (h f) d of Inl err \<Rightarrow> (Inl err, s) | Inr n \<Rightarrow> (Inr (), put k (RHash (h(f \<mapsto> AppendInt n))) s)) s,
     rd_HGETALL = \<lambda>k s. typed (hash_at k s) reply s,
     rd_ZSCORE = \<lambda>k m s. typed (zset_at k s) (\<lambda>z. reply (z m)) s,
     rd_ZADD = \<lambda>k score m s. typed (zset_at k s) (\<lambda>z s. (Inr (), put k (RZset (z(m \<mapsto> score))) s)) s,
     rd_ZREMRANGEBYSCORE = \<lambda>k bound s. typed (zset_at k s)
       (\<lambda>z s. let z' = (\<lambda>m. case z m of Some x \<Rightarrow> if x \<le> bound then None else Some x | None \<Rightarrow> None)
              in (Inr (), if dom z' = {} then remove_key k s else put k (RZset z') s)) s,
     rd_EXPIRE = \<lambda>k secs s. (Inr (),
       if kv_keys s k = None then s
       else if secs \<le> 0 then remove_key k s
       else s\<lparr>kv_deadline := (kv_deadline s)(k \<mapsto> kv_clock s + secs * 1000)\<rparr>),
     rd_SADD = \<lambda>k m s. typed (set_at k s) (\<lambda>x s. (Inr (), put k (RSet (insert m x)) s)) s,
     rd_SMEMBERS = \<lambda>k s. typed (set_at k s) reply s,
     rd_SPUBLISH = \<lambda>ch msg s. (Inr (), s\<lparr>kv_published := kv_published s @ [(ch, msg)]\<rparr>),
     rd_advance = \<lambda>t s.
       let now = max t (kv_clock s);
           live = (\<lambda>k. case kv_deadline s k of Some e \<Rightarrow> now < e | None \<Rightarrow> True)
       in s\<lparr>kv_clock := now, kv_keys := (\<lambda>k. if live k then kv_keys s k else None), kv_deadline := (\<lambda>k. if live k then kv_deadline s k else None)\<rparr>\<rparr>"

text \<open>The hypothesis on a server.\<close>

definition redis_ok :: "('r \<Rightarrow> keyspace) \<Rightarrow> 'r redis \<Rightarrow> bool" where
  "redis_ok view rd \<longleftrightarrow>
     (\<forall>k. seen view (rd_EXISTS rd k) (rd_EXISTS documented k)) \<and> (\<forall>k. seen view (rd_GET rd k) (rd_GET documented k)) \<and>
     (\<forall>k. seen view (rd_INCR rd k) (rd_INCR documented k)) \<and> (\<forall>k v ms. seen view (rd_SET_PX rd k v ms) (rd_SET_PX documented k v ms)) \<and>
     (\<forall>k. seen view (rd_DEL rd k) (rd_DEL documented k)) \<and> (\<forall>k f. seen view (rd_HGET rd k f) (rd_HGET documented k f)) \<and>
     (\<forall>k fs. seen view (rd_HSET rd k fs) (rd_HSET documented k fs)) \<and> (\<forall>k f v. seen view (rd_HSETNX rd k f v) (rd_HSETNX documented k f v)) \<and>
     (\<forall>k f d. seen view (rd_HINCRBY rd k f d) (rd_HINCRBY documented k f d)) \<and> (\<forall>k. seen view (rd_HGETALL rd k) (rd_HGETALL documented k)) \<and>
     (\<forall>k m. seen view (rd_ZSCORE rd k m) (rd_ZSCORE documented k m)) \<and> (\<forall>k x m. seen view (rd_ZADD rd k x m) (rd_ZADD documented k x m)) \<and>
     (\<forall>k x. seen view (rd_ZREMRANGEBYSCORE rd k x) (rd_ZREMRANGEBYSCORE documented k x)) \<and> (\<forall>k n. seen view (rd_EXPIRE rd k n) (rd_EXPIRE documented k n)) \<and>
     (\<forall>k m. seen view (rd_SADD rd k m) (rd_SADD documented k m)) \<and> (\<forall>k. seen view (rd_SMEMBERS rd k) (rd_SMEMBERS documented k)) \<and>
     (\<forall>ch msg. seen view (rd_SPUBLISH rd ch msg) (rd_SPUBLISH documented ch msg)) \<and> (\<forall>t s. view (rd_advance rd t s) = rd_advance documented t (view s))"

lemma redis_ok_documented: "redis_ok (\<lambda>s. s) documented"
  by (simp add: redis_ok_def seen_def)

text \<open>What a documented command does on a key of the right type.\<close>

named_theorems redis_run "effects of the documented commands"

lemma at_put [redis_run]:
  "hash_at k (put k' v s) = (if k = k' then (case v of RHash h \<Rightarrow> Some h | _ \<Rightarrow> None) else hash_at k s)"
  "zset_at k (put k' v s) = (if k = k' then (case v of RZset z \<Rightarrow> Some z | _ \<Rightarrow> None) else zset_at k s)"
  "set_at k (put k' v s) = (if k = k' then (case v of RSet x \<Rightarrow> Some x | _ \<Rightarrow> None) else set_at k s)"
  by (auto simp: hash_at_def zset_at_def set_at_def put_def split: redis_value.splits)

lemma put_put [redis_run]: "put k v (put k v' s) = put k v s"
  by (simp add: put_def)

lemma at_frame [redis_run]:
  "hash_at k (s\<lparr>kv_deadline := D\<rparr>) = hash_at k s" "zset_at k (s\<lparr>kv_deadline := D\<rparr>) = zset_at k s" "set_at k (s\<lparr>kv_deadline := D\<rparr>) = set_at k s"
  "hash_at k (s\<lparr>kv_published := P\<rparr>) = hash_at k s" "zset_at k (s\<lparr>kv_published := P\<rparr>) = zset_at k s" "set_at k (s\<lparr>kv_published := P\<rparr>) = set_at k s"
  by (simp_all add: hash_at_def zset_at_def set_at_def)

lemma run_command [redis_run]:
  "rd_EXISTS documented k s = (Inr (kv_keys s k \<noteq> None), s)"
  "rd_SPUBLISH documented ch msg s = (Inr (), s\<lparr>kv_published := kv_published s @ [(ch, msg)]\<rparr>)"
  "hash_at k s = Some h \<Longrightarrow> rd_HGET documented k f s = (Inr (h f), s)"
  "hash_at k s = Some h \<Longrightarrow> rd_HGETALL documented k s = (Inr h, s)"
  "hash_at k s = Some h \<Longrightarrow> rd_HSET documented k fs s = (Inr (), put k (RHash (fold (\<lambda>(f, v) h. h(f \<mapsto> v)) fs h)) s)"
  "hash_at k s = Some h \<Longrightarrow> rd_HSETNX documented k f v s = (Inr (), put k (RHash (if h f = None then h(f \<mapsto> v) else h)) s)"
  "hash_at k s = Some h \<Longrightarrow> incremented (h f) d = Inr n \<Longrightarrow> rd_HINCRBY documented k f d s = (Inr (), put k (RHash (h(f \<mapsto> AppendInt n))) s)"
  "zset_at k s = Some z \<Longrightarrow> rd_ZSCORE documented k m s = (Inr (z m), s)"
  "zset_at k s = Some z \<Longrightarrow> rd_ZADD documented k x m s = (Inr (), put k (RZset (z(m \<mapsto> x))) s)"
  "set_at k s = Some y \<Longrightarrow> rd_SADD documented k m s = (Inr (), put k (RSet (insert m y)) s)"
  "set_at k s = Some y \<Longrightarrow> rd_SMEMBERS documented k s = (Inr y, s)"
  by (simp_all add: documented_def typed_def reply_def)

text \<open>Nothing is old enough to be dropped from the set.\<close>

lemma run_ZREMRANGEBYSCORE:
  assumes "zset_at k s = Some z" and "\<forall>m x. z m = Some x \<longrightarrow> bound < x" and "z \<noteq> Map.empty"
  shows "rd_ZREMRANGEBYSCORE documented k bound s = (Inr (), put k (RZset z) s)"
proof -
  have "(\<lambda>m. case z m of Some x \<Rightarrow> if x \<le> bound then None else Some x | None \<Rightarrow> None) = z"
    using assms(2) by (fastforce split: option.splits)
  then show ?thesis using assms(1,3) by (simp add: documented_def typed_def)
qed

lemma run_EXPIRE:
  "kv_keys s k \<noteq> None \<Longrightarrow> 0 < secs \<Longrightarrow> rd_EXPIRE documented k secs s = (Inr (), s\<lparr>kv_deadline := (kv_deadline s)(k \<mapsto> kv_clock s + secs * 1000)\<rparr>)"
  by (auto simp: documented_def)

section \<open>Calls over the network\<close>

text \<open>
  The client may try a call several times; \<^verbatim>\<open>Dial\<close> sets the number of retries. A failed attempt reached the server, at some time of its clock, or did not; in the end the client has an answer, from a last execution at
  \<open>nt_at\<close>, or gives up with an error.
\<close>

record net =
  nt_failed :: "int option list"
  nt_at :: int
  nt_error :: "error option"

definition MaxRetries :: nat where "MaxRetries = 2"

definition net_times :: "net \<Rightarrow> int set" where
  "net_times nt = insert (nt_at nt) {t. Some t \<in> set (nt_failed nt)}"

definition attempt :: "'r redis \<Rightarrow> ('r, 'a) command \<Rightarrow> int option \<Rightarrow> 'r \<Rightarrow> 'r" where
  "attempt rd c a s = (case a of None \<Rightarrow> s | Some t \<Rightarrow> snd (c (rd_advance rd t s)))"

definition exchange :: "'r redis \<Rightarrow> net \<Rightarrow> ('r, 'a) command \<Rightarrow> ('r, 'a) command" where
  "exchange rd nt c s =
     (let s1 = fold (attempt rd c) (take (Suc MaxRetries) (nt_failed nt)) s
      in case nt_error nt of Some err \<Rightarrow> (Inl err, s1) | None \<Rightarrow> c (rd_advance rd (nt_at nt) s1))"

lemma seen_exchange:
  assumes "redis_ok view rd" and "seen view c d"
  shows "seen view (exchange rd nt c) (exchange documented nt d)"
proof -
  have adv: "view (rd_advance rd t s) = rd_advance documented t (view s)" for t s using assms(1) by (simp add: redis_ok_def)
  have "view (attempt rd c a s) = attempt documented d a (view s)" for a s
    using assms(2) by (simp add: attempt_def seen_def adv split: option.split)
  then have "view (fold (attempt rd c) as s) = fold (attempt documented d) as (view s)" for as s
    by (induction as arbitrary: s) simp_all
  then show ?thesis using assms(2) by (simp add: seen_def exchange_def Let_def adv split: option.split)
qed

lemma exchange_documented:
  assumes "redis_ok view rd" and "seen view c d" and "exchange rd nt c s = (res, s')"
  shows "exchange documented nt d (view s) = (res, view s')"
  using seen_exchange[OF assms(1,2), of nt] assms(3) unfolding seen_def by (metis fst_conv prod.collapse snd_conv)

lemma exchange_cases:
  assumes "exchange rd nt c s = (res, s')"
  obtains (gave_up) err where "res = Inl err" "s' = fold (attempt rd c) (take (Suc MaxRetries) (nt_failed nt)) s"
  | (answered) "c (rd_advance rd (nt_at nt) (fold (attempt rd c) (take (Suc MaxRetries) (nt_failed nt)) s)) = (res, s')"
  using assms by (auto simp: exchange_def Let_def split: option.splits)

text \<open>What holds of every execution holds of an exchange.\<close>

lemma exchange_induct:
  assumes "P s" and "\<And>t s. P s \<Longrightarrow> t \<in> net_times nt \<Longrightarrow> P (rd_advance rd t s)" and "\<And>s. P s \<Longrightarrow> P (snd (c s))"
  shows "P (snd (exchange rd nt c s))"
proof -
  have "P (fold (attempt rd c) as s)" if "set as \<subseteq> set (nt_failed nt)" and "P s" for as s
    using that
  proof (induction as arbitrary: s)
    case (Cons a as)
    have "P (attempt rd c a s)"
    proof (cases a)
      case (Some t)
      with Cons.prems have "t \<in> net_times nt" by (simp add: net_times_def)
      with Some Cons.prems(2) assms(2,3) show ?thesis by (simp add: attempt_def)
    qed (simp add: attempt_def Cons.prems(2))
    with Cons show ?case by simp
  qed simp
  from this[OF set_take_subset assms(1)] show ?thesis using assms(2)[of _ "nt_at nt"] assms(3) by (simp add: exchange_def Let_def net_times_def split: option.split)
qed

end
