(* ===== verification/RedisLock.thy ===== *)
theory RedisLock
  imports Redis Locker
begin

text \<open>
  The fenced lock over Redis (\<^verbatim>\<open>internal/redisstore/lock.go\<close>): the three scripts and the operations that run them, over a server that is a parameter. Under the hypothesis that the
  server behaves as documented they fulfil the contract of \<open>fenced_locker\<close> whatever the network does: calls that are tried again, answers that are lost, keys that expire meanwhile.
\<close>

section \<open>The lock\<close>

definition ErrRedisLockHeld :: error where
  [go_error_defs]: "ErrRedisLockHeld = Err ''redisstore: lock is held by another holder''"
definition ErrRedisLeaseSuperseded :: error where
  [go_error_defs]: "ErrRedisLeaseSuperseded = Err ''redisstore: lease was superseded by a newer fencing token''"
definition ErrRedisEmptyResource :: error where
  [go_error_defs]: "ErrRedisEmptyResource = Err ''redisstore: resource name is required''"

definition RedisDefaultLeaseTTL :: duration where "RedisDefaultLeaseTTL = 15 * second"

definition acquireLock :: "'r redis \<Rightarrow> string \<Rightarrow> string \<Rightarrow> int \<Rightarrow> ('r, int) command" where
  "acquireLock rd k1 k2 ms =
     call (rd_EXISTS rd k1) (\<lambda>held.
       if held then reply (- 1)
       else call (rd_INCR rd k2) (\<lambda>token.
         call (rd_SET_PX rd k1 (AppendInt (lua_number token)) ms) (\<lambda>_. reply (lua_number token))))"

definition releaseLock :: "'r redis \<Rightarrow> string \<Rightarrow> int \<Rightarrow> ('r, int) command" where
  "releaseLock rd k1 token =
     call (rd_GET rd k1) (\<lambda>held.
       case held of
         None \<Rightarrow> reply 0
       | Some v \<Rightarrow>
           if tonumber v \<noteq> Some (lua_number token) then reply (- 1)
           else call (rd_DEL rd k1) (\<lambda>_. reply 1))"

definition guardLock :: "'r redis \<Rightarrow> string \<Rightarrow> string \<Rightarrow> int \<Rightarrow> ('r, int) command" where
  "guardLock rd k1 k2 token =
     call (rd_GET rd k2) (\<lambda>fence.
       case tonumber (case fence of None \<Rightarrow> ''0'' | Some v \<Rightarrow> v) of
         None \<Rightarrow> fails NOTNUMBER
       | Some n \<Rightarrow>
           if lua_number token < n then reply (- 1)
           else call (rd_GET rd k1) (\<lambda>held.
             case held of
               None \<Rightarrow> reply (- 1)
             | Some v \<Rightarrow> if tonumber v \<noteq> Some (lua_number token) then reply (- 1) else reply 1))"

definition lockKey :: "string \<Rightarrow> string \<Rightarrow> string" where
  "lockKey ns resource = ns @ '':lock:{'' @ resource @ ''}''"

definition fenceKey :: "string \<Rightarrow> string \<Rightarrow> string" where
  "fenceKey ns resource = ns @ '':fence:{'' @ resource @ ''}''"

definition redis_Acquire :: "'r redis \<Rightarrow> string \<Rightarrow> net \<Rightarrow> string \<Rightarrow> duration \<Rightarrow> time \<Rightarrow> 'r \<Rightarrow> (error + Lease) \<times> 'r" where
  "redis_Acquire rd ns nt resource ttl0 now s =
     (if resource = [] then (Inl ErrRedisEmptyResource, s)
      else let ttl = (if ttl0 \<le> 0 then RedisDefaultLeaseTTL else ttl0)
           in case exchange rd nt (acquireLock rd (lockKey ns resource) (fenceKey ns resource) (ttl div millisecond)) s of
                (Inl err, s1) \<Rightarrow> (Inl (Wrap (''redisstore: acquiring lock '' @ resource) err), s1)
              | (Inr token, s1) \<Rightarrow>
                  if token < 0 then (Inl ErrRedisLockHeld, s1)
                  else (Inr \<lparr>ls_Resource = resource, ls_Token = token, ls_ExpiresAt = now + ttl\<rparr>, s1))"

definition redis_Release :: "'r redis \<Rightarrow> string \<Rightarrow> net \<Rightarrow> Lease \<Rightarrow> 'r \<Rightarrow> error option \<times> 'r" where
  "redis_Release rd ns nt lease s =
     (case exchange rd nt (releaseLock rd (lockKey ns (ls_Resource lease)) (ls_Token lease)) s of
        (Inl err, s1) \<Rightarrow> (Some (Wrap (''redisstore: releasing lock '' @ ls_Resource lease) err), s1)
      | (Inr released, s1) \<Rightarrow> (if released < 0 then Some ErrRedisLeaseSuperseded else None, s1))"

definition redis_Guard :: "'r redis \<Rightarrow> string \<Rightarrow> net \<Rightarrow> Lease \<Rightarrow> 'r \<Rightarrow> error option \<times> 'r" where
  "redis_Guard rd ns nt lease s =
     (case exchange rd nt (guardLock rd (lockKey ns (ls_Resource lease)) (fenceKey ns (ls_Resource lease)) (ls_Token lease)) s of
        (Inl err, s1) \<Rightarrow> (Some (Wrap (''redisstore: guarding lock '' @ ls_Resource lease) err), s1)
      | (Inr valid, s1) \<Rightarrow> (if valid < 0 then Some ErrRedisLeaseSuperseded else None, s1))"

section \<open>The scripts run as documented\<close>

lemma key_simps [simp]:
  "lockKey ns r = lockKey ns q \<longleftrightarrow> r = q" "fenceKey ns r = fenceKey ns q \<longleftrightarrow> r = q"
  "lockKey ns r \<noteq> fenceKey ns q" "fenceKey ns r \<noteq> lockKey ns q"
  by (auto simp: lockKey_def fenceKey_def)

lemma seen_acquireLock: "redis_ok view rd \<Longrightarrow> seen view (acquireLock rd k1 k2 ms) (acquireLock documented k1 k2 ms)"
  unfolding acquireLock_def by (intro server_seen) (simp_all add: redis_ok_def)

lemma seen_releaseLock: "redis_ok view rd \<Longrightarrow> seen view (releaseLock rd k1 t) (releaseLock documented k1 t)"
  unfolding releaseLock_def by (intro server_seen) (simp_all add: redis_ok_def)

lemma seen_guardLock: "redis_ok view rd \<Longrightarrow> seen view (guardLock rd k1 k2 t) (guardLock documented k1 k2 t)"
  unfolding guardLock_def by (intro server_seen) (simp_all add: redis_ok_def)

section \<open>The invariant\<close>

text \<open>
  The fence of a resource is a number the scripts read exactly, never expires, and a lock that is held is held under it.
\<close>

definition fence_of :: "string \<Rightarrow> keyspace \<Rightarrow> string \<Rightarrow> int" where
  "fence_of ns s r = (case kv_keys s (fenceKey ns r) of Some (RString v) \<Rightarrow> (case ParseInt v of Some n \<Rightarrow> n | None \<Rightarrow> 0) | _ \<Rightarrow> 0)"

definition resource_ok :: "string \<Rightarrow> keyspace \<Rightarrow> string \<Rightarrow> bool" where
  "resource_ok ns s r \<longleftrightarrow>
     0 \<le> fence_of ns s r \<and> fence_of ns s r < 2 ^ 53 \<and> kv_deadline s (fenceKey ns r) = None \<and>
     (kv_keys s (fenceKey ns r) = None \<or> kv_keys s (fenceKey ns r) = Some (RString (AppendInt (fence_of ns s r)))) \<and>
     (kv_keys s (lockKey ns r) = None \<or> kv_keys s (lockKey ns r) = Some (RString (AppendInt (fence_of ns s r))))"

definition redis_lock_ok :: "string \<Rightarrow> keyspace \<Rightarrow> bool" where
  "redis_lock_ok ns s \<longleftrightarrow> (\<forall>r. resource_ok ns s r)"

text \<open>Room for the executions of one call.\<close>

definition redis_token_fits :: "string \<Rightarrow> string \<Rightarrow> keyspace \<Rightarrow> bool" where
  "redis_token_fits ns r s \<longleftrightarrow> fence_of ns s r + int MaxRetries + 2 < 2 ^ 53"

section \<open>Executions of the scripts\<close>

lemmas documented_simps = documented_def call_def reply_def fails_def typed_def string_at_def put_def remove_key_def

lemma AppendInt_exact:
  assumes "0 \<le> n" and "n < 2 ^ 53"
  shows "ParseInt (AppendInt n) = Some n" and "tonumber (AppendInt n) = Some n" and "lua_number n = n"
proof -
  have "in_i64 n" using assms by (simp add: in_i64_def MinInt64_def MaxInt64_def)
  then show parse: "ParseInt (AppendInt n) = Some n" by (rule ParseInt_AppendInt)
  show "lua_number n = n" using assms by (intro lua_number_exact) simp
  with parse show "tonumber (AppendInt n) = Some n" by (simp add: tonumber_def)
qed

lemma advance_resource: "resource_ok ns s r \<Longrightarrow> resource_ok ns (rd_advance documented t s) r \<and> fence_of ns (rd_advance documented t s) r = fence_of ns s r"
  by (auto simp: resource_ok_def fence_of_def documented_def Let_def split: option.splits)

lemma advance_lock: "redis_lock_ok ns s \<Longrightarrow> redis_lock_ok ns (rd_advance documented t s) \<and> fence_of ns (rd_advance documented t s) = fence_of ns s"
  using advance_resource by (fastforce simp: redis_lock_ok_def)

text \<open>What one call may do to the locks: raise the fence of its resource by at most some number, and release it.\<close>

definition lock_effect :: "string \<Rightarrow> string \<Rightarrow> nat \<Rightarrow> keyspace \<Rightarrow> keyspace \<Rightarrow> bool" where
  "lock_effect ns r n s s' \<longleftrightarrow> redis_lock_ok ns s' \<and> fence_of ns s r \<le> fence_of ns s' r \<and> fence_of ns s' r \<le> fence_of ns s r + int n \<and>
     (\<forall>q. q \<noteq> r \<longrightarrow> fence_of ns s' q = fence_of ns s q)"

lemma lock_effect_trans: "lock_effect ns r m s s' \<Longrightarrow> lock_effect ns r n s' s'' \<Longrightarrow> lock_effect ns r (m + n) s s''"
  by (auto simp: lock_effect_def)

lemma lock_effect_refl: "redis_lock_ok ns s \<Longrightarrow> lock_effect ns r n s s"
  by (simp add: lock_effect_def)

lemma lock_effect_mono: "lock_effect ns r n s s' \<Longrightarrow> redis_lock_ok ns s' \<and> (\<forall>q. fence_of ns s q \<le> fence_of ns s' q)"
  unfolding lock_effect_def by (metis order_refl)

lemma EXISTS_documented: "rd_EXISTS documented k s = (Inr (kv_keys s k \<noteq> None), s)"
  by (simp add: documented_def)

lemma SET_PX_documented:
  "rd_SET_PX documented k v ms s = (if ms \<le> 0 then (Inl INVALIDEXPIRE, s) else (Inr (), (put k (RString v) s)\<lparr>kv_deadline := (kv_deadline s)(k \<mapsto> kv_clock s + ms)\<rparr>))"
  by (simp add: documented_def)

lemma acquireLock_effect:
  assumes "redis_lock_ok ns s" and "fence_of ns s r + 1 < 2 ^ 53" and "acquireLock documented (lockKey ns r) (fenceKey ns r) ms s = (res, s')"
  shows "lock_effect ns r 1 s s' \<and> (\<forall>token. res = Inr token \<and> 0 \<le> token \<longrightarrow> token = fence_of ns s' r \<and> fence_of ns s r < token)"
proof (cases "kv_keys s (lockKey ns r) = None")
  case False
  with assms(3) have "res = Inr (- 1)" "s' = s" by (simp_all add: acquireLock_def documented_simps)
  then show ?thesis using lock_effect_refl[OF assms(1)] by simp
next
  case True
  let ?n = "fence_of ns s r" and ?f = "fenceKey ns r"
  have r: "resource_ok ns s r" using assms(1) by (simp add: redis_lock_ok_def)
  have "in_i64 (?n + 1)" using r assms(2) by (simp add: resource_ok_def in_i64_def MinInt64_def MaxInt64_def)
  moreover have "?n = 0" if "kv_keys s ?f = None" using that by (simp add: fence_of_def)
  ultimately have incr: "rd_INCR documented ?f s = (Inr (?n + 1), put ?f (RString (AppendInt (?n + 1))) s)"
    using r AppendInt_exact(1)[of ?n] by (auto simp: resource_ok_def documented_simps incremented_def ParseInt_0)
  have exact: "ParseInt (AppendInt (?n + 1)) = Some (?n + 1)" "lua_number (?n + 1) = ?n + 1" using AppendInt_exact[of "?n + 1"] r assms(2) by (simp_all add: resource_ok_def)
  let ?s1 = "put ?f (RString (AppendInt (?n + 1))) s"
  let ?s2 = "(put (lockKey ns r) (RString (AppendInt (?n + 1))) ?s1)\<lparr>kv_deadline := (kv_deadline ?s1)(lockKey ns r \<mapsto> kv_clock ?s1 + ms)\<rparr>"
  have run: "(res, s') = (if ms \<le> 0 then (Inl INVALIDEXPIRE, ?s1) else (Inr (?n + 1), ?s2))"
    using assms(3) True by (simp add: acquireLock_def call_def incr exact(2) reply_def EXISTS_documented SET_PX_documented split: if_splits)
  have fence: "fence_of ns t q = (if q = r then ?n + 1 else fence_of ns s q)" if "t = ?s1 \<or> t = ?s2" for t q
    using that exact(1) by (auto simp: fence_of_def put_def)
  have ok: "resource_ok ns t q" if t: "t = ?s1 \<or> t = ?s2" for t q
  proof (cases "q = r")
    case True
    with t fence[OF t] assms(2) r \<open>kv_keys s (lockKey ns r) = None\<close> show ?thesis unfolding resource_ok_def by (auto simp: put_def)
  next
    case False
    have "resource_ok ns s q" using assms(1) by (simp add: redis_lock_ok_def)
    with False t fence[OF t] show ?thesis unfolding resource_ok_def by (auto simp: put_def)
  qed
  have s': "s' = ?s1 \<or> s' = ?s2" and res: "res = Inr token \<Longrightarrow> token = ?n + 1" for token using run by (auto split: if_splits)
  have "fence_of ns s' r = ?n + 1" "\<forall>q. q \<noteq> r \<longrightarrow> fence_of ns s' q = fence_of ns s q" "\<forall>q. resource_ok ns s' q" using fence[OF s'] ok[OF s'] by simp_all
  then show ?thesis using res unfolding lock_effect_def redis_lock_ok_def by auto
qed

lemma releaseLock_effect:
  assumes "redis_lock_ok ns s"
  shows "lock_effect ns r 0 s (snd (releaseLock documented (lockKey ns r) t s))"
proof -
  have "resource_ok ns (remove_key (lockKey ns r) s) q \<and> fence_of ns (remove_key (lockKey ns r) s) q = fence_of ns s q" for q
    using assms by (auto simp: redis_lock_ok_def resource_ok_def fence_of_def remove_key_def)
  then have "lock_effect ns r 0 s (remove_key (lockKey ns r) s)" by (simp add: lock_effect_def redis_lock_ok_def)
  with lock_effect_refl[OF assms] show ?thesis
    by (auto simp: releaseLock_def call_def reply_def split: sum.splits prod.splits option.splits) (auto simp: documented_def typed_def reply_def split: option.splits)
qed

lemma guardLock_state: "snd (guardLock documented k1 k2 t s) = s"
  by (auto simp: guardLock_def documented_simps split: option.splits redis_value.splits)

lemma guardLock_newest:
  assumes "redis_lock_ok ns s" and "guardLock documented (lockKey ns r) (fenceKey ns r) t s = (Inr v, s')" and "0 \<le> v"
  shows "t = fence_of ns s r"
proof -
  have r: "resource_ok ns s r" using assms(1) by (simp add: redis_lock_ok_def)
  then have "kv_keys s (lockKey ns r) = Some (RString (AppendInt (fence_of ns s r)))" "tonumber (AppendInt (fence_of ns s r)) = Some (lua_number t)"
    using assms(2,3) by (auto simp: guardLock_def documented_simps resource_ok_def split: option.splits if_splits)
  then have "lua_number t = fence_of ns s r" using AppendInt_exact(2)[of "fence_of ns s r"] r by (simp add: resource_ok_def)
  from lua_number_inj[OF this] r show ?thesis by (simp add: resource_ok_def)
qed

text \<open>The failed attempts of a call add up.\<close>

lemma attempts_effect:
  assumes "\<And>s. redis_lock_ok ns s \<Longrightarrow> fence_of ns s r + int k < 2 ^ 53 \<Longrightarrow> lock_effect ns r k s (snd (c s))"
    and "redis_lock_ok ns s" and "fence_of ns s r + int (k * length as) < 2 ^ 53"
  shows "lock_effect ns r (k * length as) s (fold (attempt documented c) as s)"
  using assms(2,3)
proof (induction as arbitrary: s)
  case (Cons a as)
  have one: "lock_effect ns r k s (attempt documented c a s)"
  proof (cases a)
    case (Some t)
    from advance_lock[OF Cons.prems(1), of t] have adv: "redis_lock_ok ns (rd_advance documented t s)" "fence_of ns (rd_advance documented t s) = fence_of ns s" by auto
    have "0 \<le> int k * int (length as)" by simp
    moreover have "int (k * length (a # as)) = int k + int k * int (length as)" by (simp add: algebra_simps)
    ultimately have "fence_of ns s r + int k < 2 ^ 53" using Cons.prems(2) by linarith
    with assms(1)[of "rd_advance documented t s"] adv Some show ?thesis by (simp add: attempt_def lock_effect_def)
  qed (simp add: attempt_def lock_effect_refl Cons.prems(1))
  then have "lock_effect ns r (k * length as) (attempt documented c a s) (fold (attempt documented c) as (attempt documented c a s))"
    using Cons.prems(2) by (intro Cons.IH) (auto simp: lock_effect_def)
  from lock_effect_trans[OF one this] show ?case by simp
qed (simp add: lock_effect_refl)

section \<open>The operations fulfil the contract\<close>

lemma redis_Acquire_effect:
  assumes "redis_ok view rd" and "redis_lock_ok ns (view s)" and "redis_token_fits ns r (view s)" and "redis_Acquire rd ns nt r ttl now s = (res, s')"
  shows "redis_lock_ok ns (view s') \<and> (\<forall>q. fence_of ns (view s) q \<le> fence_of ns (view s') q) \<and>
    (\<forall>lease. res = Inr lease \<longrightarrow> ls_Resource lease = r \<and> fence_of ns (view s) r < ls_Token lease \<and> fence_of ns (view s') r = ls_Token lease)"
proof (cases "r = []")
  case True
  with assms(2,4) show ?thesis by (auto simp: redis_Acquire_def)
next
  case False
  let ?ttl = "if ttl \<le> 0 then RedisDefaultLeaseTTL else ttl"
  let ?c = "\<lambda>rd. acquireLock rd (lockKey ns r) (fenceKey ns r) (?ttl div millisecond)"
  obtain res1 s1 where ex: "exchange rd nt (?c rd) s = (res1, s1)" by fastforce
  have s1: "s1 = s'" and lease: "\<And>lease. res = Inr lease \<Longrightarrow> \<exists>token. res1 = Inr token \<and> 0 \<le> token \<and> ls_Resource lease = r \<and> ls_Token lease = token"
    using assms(4) False ex by (auto simp: redis_Acquire_def Let_def split: sum.splits if_splits)
  let ?as = "take (Suc MaxRetries) (nt_failed nt)"
  let ?s0 = "fold (attempt documented (?c documented)) ?as (view s)"
  have len: "length ?as \<le> 3" by (simp add: MaxRetries_def)
  have one: "lock_effect ns r 1 t (snd (?c documented t))" if "redis_lock_ok ns t" "fence_of ns t r + int 1 < 2 ^ 53" for t
    using acquireLock_effect[OF that(1) _ prod.collapse[symmetric]] that(2) by simp
  have eff: "lock_effect ns r (length ?as) (view s) ?s0"
    using attempts_effect[where k = 1 and c = "?c documented", OF one assms(2), of ?as] assms(3) len by (simp add: redis_token_fits_def MaxRetries_def)
  from exchange_documented[OF assms(1) seen_acquireLock[OF assms(1)] ex] show ?thesis
  proof (cases rule: exchange_cases)
    case gave_up
    with lock_effect_mono[OF eff] lease s1 show ?thesis by auto
  next
    case answered
    let ?t = "rd_advance documented (nt_at nt) ?s0"
    have t: "redis_lock_ok ns ?t" "fence_of ns ?t = fence_of ns ?s0" using advance_lock[of ns ?s0] eff by (auto simp: lock_effect_def)
    then have "fence_of ns ?t r + 1 < 2 ^ 53" using eff len assms(3) by (auto simp: lock_effect_def redis_token_fits_def MaxRetries_def)
    from acquireLock_effect[OF t(1) this answered] have last: "lock_effect ns r 1 ?t (view s')"
      and token: "\<And>token. res1 = Inr token \<Longrightarrow> 0 \<le> token \<Longrightarrow> token = fence_of ns (view s') r \<and> fence_of ns ?t r < token" using s1 by auto
    have mono: "fence_of ns (view s) q \<le> fence_of ns ?t q" for q using lock_effect_mono[OF eff] t(2) by simp
    with lock_effect_mono[OF last] have "redis_lock_ok ns (view s')" "\<forall>q. fence_of ns (view s) q \<le> fence_of ns (view s') q" using order_trans by blast+
    moreover have "\<exists>token. res1 = Inr token \<and> fence_of ns (view s) r < token" if "res = Inr l" for l using lease[OF that] token mono le_less_trans by blast
    ultimately show ?thesis using lease token by fastforce
  qed
qed

lemma redis_Release_effect:
  assumes "redis_ok view rd" and "redis_lock_ok ns (view s)" and "redis_Release rd ns nt lease s = (e, s')"
  shows "redis_lock_ok ns (view s') \<and> fence_of ns (view s') = fence_of ns (view s)"
proof -
  let ?r = "ls_Resource lease"
  let ?c = "\<lambda>rd. releaseLock rd (lockKey ns ?r) (ls_Token lease)"
  obtain res1 s1 where ex: "exchange rd nt (?c rd) s = (res1, s1)" by fastforce
  have s1: "s1 = s'" using assms(3) ex by (auto simp: redis_Release_def split: sum.splits)
  let ?P = "\<lambda>t. redis_lock_ok ns t \<and> fence_of ns t = fence_of ns (view s)"
  have "?P (snd (exchange documented nt (?c documented) (view s)))"
  proof (rule exchange_induct[where P = ?P])
    show "?P (snd (?c documented t))" if "?P t" for t
      using releaseLock_effect[of ns t ?r "ls_Token lease"] that by (simp add: lock_effect_def fun_eq_iff) (metis order_antisym)
  qed (use assms(2) advance_lock in auto)
  with exchange_documented[OF assms(1) seen_releaseLock[OF assms(1)] ex] s1 show ?thesis by simp
qed

lemma redis_Guard_newest:
  assumes "redis_ok view rd" and "redis_lock_ok ns (view s)" and "fst (redis_Guard rd ns nt lease s) = None"
  shows "ls_Token lease = fence_of ns (view s) (ls_Resource lease)"
proof -
  let ?r = "ls_Resource lease"
  let ?c = "\<lambda>rd. guardLock rd (lockKey ns ?r) (fenceKey ns ?r) (ls_Token lease)"
  obtain res1 s1 where ex: "exchange rd nt (?c rd) s = (res1, s1)" by fastforce
  obtain v where v: "res1 = Inr v" "0 \<le> v" using assms(3) ex by (auto simp: redis_Guard_def split: sum.splits if_splits)
  let ?P = "\<lambda>t. redis_lock_ok ns t \<and> fence_of ns t = fence_of ns (view s)"
  let ?s0 = "fold (attempt documented (?c documented)) (take (Suc MaxRetries) (nt_failed nt)) (view s)"
  have "?P (snd (exchange documented (nt\<lparr>nt_error := Some err\<rparr>) (?c documented) (view s)))" for err
    by (rule exchange_induct[where P = ?P]) (use assms(2) advance_lock in \<open>auto simp: guardLock_state\<close>)
  then have P0: "?P ?s0" by (simp add: exchange_def)
  from exchange_documented[OF assms(1) seen_guardLock[OF assms(1)] ex] show ?thesis
  proof (cases rule: exchange_cases)
    case answered
    have "?P (rd_advance documented (nt_at nt) ?s0)" using P0 advance_lock[of ns ?s0 "nt_at nt"] by simp
    with guardLock_newest[of ns _ ?r, OF _ answered[unfolded v(1)] v(2)] show ?thesis by simp
  qed (use v in simp)
qed

lemma redis_fenced_locker:
  assumes "redis_ok view rd"
  shows "fenced_locker (redis_Acquire rd ns) (redis_Release rd ns) (\<lambda>nt lease now s. fst (redis_Guard rd ns nt lease s))
    (\<lambda>r s. fence_of ns (view s) r) (\<lambda>s. redis_lock_ok ns (view s)) (\<lambda>r s. redis_token_fits ns r (view s))"
proof unfold_locales
  fix s s' r nt ttl now lease
  assume "redis_lock_ok ns (view s)" "redis_token_fits ns r (view s)" "redis_Acquire rd ns nt r ttl now s = (Inr lease, s')"
  from redis_Acquire_effect[OF assms this] show "redis_lock_ok ns (view s') \<and> ls_Resource lease = r \<and> fence_of ns (view s) r < ls_Token lease \<and>
    fence_of ns (view s') r = ls_Token lease \<and> (\<forall>q. fence_of ns (view s) q \<le> fence_of ns (view s') q)" by simp
next
  fix s s' r nt ttl now err
  assume "redis_lock_ok ns (view s)" "redis_token_fits ns r (view s)" "redis_Acquire rd ns nt r ttl now s = (Inl err, s')"
  from redis_Acquire_effect[OF assms this] show "redis_lock_ok ns (view s') \<and> (\<forall>q. fence_of ns (view s) q \<le> fence_of ns (view s') q)" by simp
next
  fix s s' nt lease e
  assume "redis_lock_ok ns (view s)" "redis_Release rd ns nt lease s = (e, s')"
  from redis_Release_effect[OF assms this] show "redis_lock_ok ns (view s') \<and> (\<forall>q. fence_of ns (view s) q \<le> fence_of ns (view s') q)" by simp
next
  fix s nt lease and now :: time
  assume "redis_lock_ok ns (view s)" "fst (redis_Guard rd ns nt lease s) = None"
  from redis_Guard_newest[OF assms this] show "ls_Token lease = fence_of ns (view s) (ls_Resource lease)" .
qed

section \<open>Property\<close>

text \<open>
  Property C9 (mutual exclusion over Redis). Over a server that behaves as documented, in every run of the lock from a state whose fences are in order, and whatever calls were retried, lost or
  overtaken by an expiry: if two leases issued for one resource both pass the guard in the same state, they are the same lease, and no lease issued for the resource has a newer token.
\<close>

theorem redis_lock_exclusion:
  assumes "redis_ok view rd" and "redis_lock_ok ns (view s0)"
    and "locker_run (redis_Acquire rd ns) (redis_Release rd ns) (\<lambda>r s. redis_token_fits ns r (view s)) s0 ls s"
    and "x \<in> set ls" and "y \<in> set ls" and "ls_Resource x = ls_Resource y" and "fst (redis_Guard rd ns nt x s) = None"
  shows "(fst (redis_Guard rd ns nt' y s) = None \<longrightarrow> x = y) \<and> ls_Token y \<le> ls_Token x"
proof -
  note lock = redis_fenced_locker[OF assms(1), of ns]
  have "x = y" if "fst (redis_Guard rd ns nt' y s) = None" using fenced_locker.guard_unique[OF lock assms(3,2,4,5,6,7) that] .
  moreover have "ls_Token y \<le> ls_Token x" using fenced_locker.guard_latest[OF lock assms(3,2,7,5)] assms(6) by simp
  ultimately show ?thesis by blast
qed

text \<open>A lease expires on the server and the resource is acquired again.\<close>

definition ex_net :: "int \<Rightarrow> net" where "ex_net t = \<lparr>nt_failed = [], nt_at = t, nt_error = None\<rparr>"

definition ex_keys :: keyspace where "ex_keys = \<lparr>kv_keys = Map.empty, kv_deadline = Map.empty, kv_clock = 0, kv_published = []\<rparr>"

abbreviation "ex_acquire t s \<equiv> redis_Acquire documented ''ns'' (ex_net t) ''r'' 5000000 t s"

definition ex_first :: keyspace where "ex_first = snd (ex_acquire 0 ex_keys)"
definition ex_second :: keyspace where "ex_second = snd (ex_acquire 10 ex_first)"
definition ex_redis_lease :: "int \<Rightarrow> time \<Rightarrow> Lease" where
  "ex_redis_lease token t = \<lparr>ls_Resource = ''r'', ls_Token = token, ls_ExpiresAt = t + 5000000\<rparr>"

lemmas ex_redis_simps = redis_Acquire_def redis_Guard_def acquireLock_def guardLock_def exchange_def documented_simps ex_net_def incremented_def Let_def millisecond_def ParseInt_0

lemma ex_AppendInt: "ParseInt (AppendInt 1) = Some 1" "tonumber (AppendInt 1) = Some 1" "ParseInt (AppendInt 2) = Some 2" "tonumber (AppendInt 2) = Some 2"
    "lua_number 1 = 1" "lua_number 2 = 2" "in_i64 1" "in_i64 2"
  using AppendInt_exact[of 1] AppendInt_exact[of 2] by (simp_all add: in_i64_def MinInt64_def MaxInt64_def)

lemma ex_first_run: "ex_acquire 0 ex_keys = (Inr (ex_redis_lease 1 0), ex_first)"
  by (simp add: ex_first_def ex_keys_def ex_redis_simps ex_AppendInt ex_redis_lease_def)

lemma ex_second_run: "ex_acquire 10 ex_first = (Inr (ex_redis_lease 2 10), ex_second)"
  by (simp add: ex_second_def ex_first_def ex_keys_def ex_redis_simps ex_AppendInt ex_redis_lease_def)

theorem redis_lock_exclusion_witness:
  "fst (redis_Guard documented ''ns'' (ex_net 11) (ex_redis_lease 2 10) ex_second) = None \<and>
   fst (redis_Guard documented ''ns'' (ex_net 11) (ex_redis_lease 1 0) ex_second) \<noteq> None"
proof -
  let ?run = "locker_run (redis_Acquire documented ''ns'') (redis_Release documented ''ns'') (\<lambda>r s. redis_token_fits ''ns'' r s) ex_keys"
  have ok: "redis_lock_ok ''ns'' ex_keys" by (simp add: redis_lock_ok_def resource_ok_def fence_of_def ex_keys_def)
  have fits: "redis_token_fits ''ns'' ''r'' ex_keys" "redis_token_fits ''ns'' ''r'' ex_first"
    by (simp_all add: redis_token_fits_def fence_of_def ex_keys_def MaxRetries_def ex_first_def ex_redis_simps ex_AppendInt)
  have "?run [] ex_keys" by (rule run_start)
  then have "?run [ex_redis_lease 1 0] ex_first" by (rule run_acquire) (rule fits(1), rule ex_first_run)
  then have "?run [ex_redis_lease 2 10, ex_redis_lease 1 0] ex_second" by (rule run_acquire) (rule fits(2), rule ex_second_run)
  moreover have guard: "fst (redis_Guard documented ''ns'' (ex_net 11) (ex_redis_lease 2 10) ex_second) = None"
    by (simp add: ex_second_def ex_first_def ex_keys_def ex_redis_simps ex_AppendInt ex_redis_lease_def)
  ultimately show ?thesis
    using redis_lock_exclusion[OF redis_ok_documented ok, of "[ex_redis_lease 2 10, ex_redis_lease 1 0]" ex_second "ex_redis_lease 2 10" "ex_redis_lease 1 0" "ex_net 11" "ex_net 11"]
    by (auto simp: ex_redis_lease_def)
qed

end
