(* ===== verification/RedisStore.thy ===== *)
theory RedisStore
  imports Redis GoTime MemoryStore Services
begin

text \<open>
  The Redis state store (\<^verbatim>\<open>internal/redisstore/store.go\<close>): its keys, its two scripts and its operations, over a server that is a parameter. \<open>RedisScript\<close> computes what a script does and \<open>RedisRefines\<close>
  shows that the store implements the in-memory one.
\<close>

section \<open>The store\<close>

definition ErrNilClient :: error where [go_error_defs]: "ErrNilClient = Err ''redisstore: client is nil''"
definition ErrRedisDeviceNotFound :: error where [go_error_defs]: "ErrRedisDeviceNotFound = Wrap ''redisstore'' ErrDeviceNotFound"

definition defaultDedupeTTL :: duration where "defaultDedupeTTL = 6 * 3600 * second"

record 'm RedisOptions =
  ro_Client :: bool
  ro_Namespace :: string
  ro_DedupeTTL :: duration
  ro_MetricsKey :: string
  ro_Recorder :: "'m MetricsRecorder"

record 'm RedisStore =
  rs_namespace :: string
  rs_dedupeTTL :: duration
  rs_metricsKey :: string
  rs_recorder :: "'m MetricsRecorder"

definition NewRedisStore :: "'m RedisOptions \<Rightarrow> error + 'm RedisStore" where
  "NewRedisStore options =
     (if \<not> ro_Client options then Inl ErrNilClient
      else let ns = (if ro_Namespace options = [] then ''ironclaw'' else ro_Namespace options)
           in Inr \<lparr>rs_namespace = ns,
                   rs_dedupeTTL = (if ro_DedupeTTL options \<le> 0 then defaultDedupeTTL else ro_DedupeTTL options),
                   rs_metricsKey = (if ro_MetricsKey options = [] then ns @ '':metrics'' else ro_MetricsKey options),
                   rs_recorder = ro_Recorder options\<rparr>)"

definition stateKey :: "string \<Rightarrow> string \<Rightarrow> string \<Rightarrow> string" where
  "stateKey ns u d = ns @ '':{'' @ u @ ''}:device:'' @ d @ '':state''"

definition DedupeSchemaVersion :: string where "DedupeSchemaVersion = ''v2''"

definition dedupeKey :: "string \<Rightarrow> string \<Rightarrow> string \<Rightarrow> string" where
  "dedupeKey ns u d = ns @ '':{'' @ u @ ''}:device:'' @ d @ '':applied:'' @ DedupeSchemaVersion"

definition devicesKey :: "string \<Rightarrow> string \<Rightarrow> string" where
  "devicesKey ns u = ns @ '':{'' @ u @ ''}:devices''"

definition updatesChannel :: "string \<Rightarrow> string \<Rightarrow> string \<Rightarrow> string" where
  "updatesChannel ns u d = ns @ '':{'' @ u @ ''}:device:'' @ d @ '':updates''"

text \<open>
  The arguments of the script that applies a window. The client passes the integers in decimal; \<^verbatim>\<open>tonumber\<close> of such an argument is its \<open>lua_number\<close>.
\<close>

record apply_args =
  aa_identity :: string
  aa_deviceID :: string
  aa_count :: int
  aa_errorCount :: int
  aa_bytes :: int
  aa_p95 :: int
  aa_p99 :: int
  aa_windowID :: int
  aa_lastSeen :: string
  aa_ttl :: int
  aa_userID :: string
  aa_now :: int

definition set_last_seen :: "'r redis \<Rightarrow> string \<Rightarrow> apply_args \<Rightarrow> ('r, unit) command" where
  "set_last_seen rd k1 a = (if aa_lastSeen a \<noteq> [] then rd_HSET rd k1 [(''last_seen'', aa_lastSeen a)] else reply ())"

definition apply_latest :: "'r redis \<Rightarrow> string \<Rightarrow> apply_args \<Rightarrow> ('r, unit) command" where
  "apply_latest rd k1 a =
     call (rd_HGET rd k1 ''last_window_id'') (\<lambda>last.
       case tonumber (case last of None \<Rightarrow> ''-1'' | Some v \<Rightarrow> v) of
         None \<Rightarrow> fails NOTNUMBER
       | Some current \<Rightarrow>
           if current < lua_number (aa_windowID a) then
             call (rd_HSET rd k1 [(''last_window_id'', AppendInt (aa_windowID a)), (''p95_nanos'', AppendInt (aa_p95 a)), (''p99_nanos'', AppendInt (aa_p99 a)),
                                  (''percentile_sample'', AppendInt (aa_count a))]) (\<lambda>_. set_last_seen rd k1 a)
           else if lua_number (aa_windowID a) = current then
             call (rd_HGET rd k1 ''percentile_sample'') (\<lambda>stored.
               case tonumber (case stored of None \<Rightarrow> ''0'' | Some v \<Rightarrow> v) of
                 None \<Rightarrow> fails NOTNUMBER
               | Some sample \<Rightarrow>
                   call (if sample < lua_number (aa_count a)
                         then rd_HSET rd k1 [(''p95_nanos'', AppendInt (aa_p95 a)), (''p99_nanos'', AppendInt (aa_p99 a)), (''percentile_sample'', AppendInt (aa_count a))]
                         else reply ()) (\<lambda>_. set_last_seen rd k1 a))
           else reply ())"

definition applyWindow :: "'r redis \<Rightarrow> string \<Rightarrow> string \<Rightarrow> string \<Rightarrow> string \<Rightarrow> apply_args \<Rightarrow> ('r, int) command" where
  "applyWindow rd k1 k2 k3 k4 a =
     call (rd_ZSCORE rd k2 (aa_identity a)) (\<lambda>seen.
       if seen \<noteq> None then reply 0
       else call (rd_ZADD rd k2 (lua_number (aa_now a)) (aa_identity a)) (\<lambda>_.
            call (rd_ZREMRANGEBYSCORE rd k2 (lua_number (lua_number (aa_now a) - lua_number (aa_ttl a)))) (\<lambda>_.
            call (rd_EXPIRE rd k2 (aa_ttl a)) (\<lambda>_.
            call (rd_SADD rd k3 (aa_deviceID a)) (\<lambda>_.
            call (rd_HSETNX rd k1 ''user_id'' (aa_userID a)) (\<lambda>_.
            call (rd_HSETNX rd k1 ''device_id'' (aa_deviceID a)) (\<lambda>_.
            call (rd_HINCRBY rd k1 ''count'' (aa_count a)) (\<lambda>_.
            call (rd_HINCRBY rd k1 ''error_count'' (aa_errorCount a)) (\<lambda>_.
            call (rd_HINCRBY rd k1 ''bytes'' (aa_bytes a)) (\<lambda>_.
            call (apply_latest rd k1 a) (\<lambda>_.
            call (rd_SPUBLISH rd k4 (AppendInt (aa_windowID a))) (\<lambda>_. reply 1))))))))))))"

definition resetDevice :: "'r redis \<Rightarrow> string \<Rightarrow> string \<Rightarrow> ('r, int) command" where
  "resetDevice rd k1 k2 =
     call (rd_EXISTS rd k1) (\<lambda>known.
       if \<not> known then reply 0
       else call (rd_HSET rd k1 [(''count'', ''0''), (''error_count'', ''0''), (''bytes'', ''0''), (''p95_nanos'', ''0''), (''p99_nanos'', ''0''), (''percentile_sample'', ''0'')]) (\<lambda>_.
            call (rd_SPUBLISH rd k2 ''reset'') (\<lambda>_. reply 1)))"

section \<open>Operations\<close>

text \<open>
  A store acts on the server and on its recorder. An operation that makes several calls gets what each of them met on the network, in order.
\<close>

definition IncrementInRedis :: "'r redis \<Rightarrow> 'm RedisStore \<Rightarrow> net \<Rightarrow> string \<Rightarrow> int \<Rightarrow> 'r \<Rightarrow> 'r" where
  "IncrementInRedis rd st nt name delta r = snd (exchange rd nt (rd_HINCRBY rd (rs_metricsKey st) name delta) r)"

definition redis_Increment :: "'r redis \<Rightarrow> 'm RedisStore \<Rightarrow> net \<Rightarrow> string \<Rightarrow> int \<Rightarrow> 'r \<times> 'm \<Rightarrow> 'r \<times> 'm" where
  "redis_Increment rd st nt name delta s =
     (case rs_recorder st of
        Some increment \<Rightarrow> (fst s, increment name delta (snd s))
      | None \<Rightarrow> (IncrementInRedis rd st nt name delta (fst s), snd s))"

definition AttachRecorder :: "'m MetricsRecorder \<Rightarrow> 'm RedisStore \<Rightarrow> 'm RedisStore" where
  "AttachRecorder recorder st = st\<lparr>rs_recorder := recorder\<rparr>"

definition ttl_seconds :: "'m RedisStore \<Rightarrow> int" where "ttl_seconds st = rs_dedupeTTL st div second"

definition window_args :: "'m RedisStore \<Rightarrow> time \<Rightarrow> AggregateWindow \<Rightarrow> apply_args" where
  "window_args st now w =
     \<lparr>aa_identity = Identity w, aa_deviceID = ck_DeviceID (w_Key w), aa_count = w_Count w, aa_errorCount = w_ErrorCount w, aa_bytes = w_Bytes w,
      aa_p95 = w_P95Nanos w, aa_p99 = w_P99Nanos w, aa_windowID = w_WindowID w,
      aa_lastSeen = (if IsZero (w_WindowEnd w) then [] else FormatRFC3339 (w_WindowEnd w)),
      aa_ttl = ttl_seconds st, aa_userID = ck_UserID (w_Key w), aa_now = now div second\<rparr>"

definition window_script :: "'r redis \<Rightarrow> 'm RedisStore \<Rightarrow> time \<Rightarrow> AggregateWindow \<Rightarrow> ('r, int) command" where
  "window_script rd st now w =
     (let ns = rs_namespace st; u = ck_UserID (w_Key w); d = ck_DeviceID (w_Key w)
      in applyWindow rd (stateKey ns u d) (dedupeKey ns u d) (devicesKey ns u) (updatesChannel ns u d) (window_args st now w))"

definition redis_ApplyWindow :: "'r redis \<Rightarrow> 'm RedisStore \<Rightarrow> (nat \<Rightarrow> net) \<Rightarrow> time \<Rightarrow> AggregateWindow \<Rightarrow> 'r \<times> 'm \<Rightarrow> error option \<times> ('r \<times> 'm)" where
  "redis_ApplyWindow rd st nt now w s =
     (case exchange rd (nt 0) (window_script rd st now w) (fst s) of
        (Inl err, r1) \<Rightarrow> (Some (Wrap (''redisstore: applying window '' @ Identity w) err), (r1, snd s))
      | (Inr applied, r1) \<Rightarrow>
          if applied = 0 then (None, redis_Increment rd st (nt 1) MetricWindowsDuplicate 1 (r1, snd s))
          else (None, redis_Increment rd st (nt 3) MetricErrorsCounted (w_ErrorCount w)
                        (redis_Increment rd st (nt 2) MetricEventsCounted (w_Count w)
                          (redis_Increment rd st (nt 1) MetricWindowsApplied 1 (r1, snd s)))))"

definition parseInt :: "string option \<Rightarrow> int" where
  "parseInt value = (case ParseInt (case value of None \<Rightarrow> [] | Some v \<Rightarrow> v) of Some n \<Rightarrow> n | None \<Rightarrow> 0)"

definition state_of_fields :: "string \<Rightarrow> string \<Rightarrow> (string \<rightharpoonup> string) \<Rightarrow> DeviceState" where
  "state_of_fields u d fs =
     \<lparr>ds_UserID = u, ds_DeviceID = d, ds_Count = parseInt (fs ''count''), ds_ErrorCount = parseInt (fs ''error_count''),
      ds_Bytes = parseInt (fs ''bytes''), ds_P95Nanos = parseInt (fs ''p95_nanos''), ds_P99Nanos = parseInt (fs ''p99_nanos''),
      ds_LastWindowID = parseInt (fs ''last_window_id''),
      ds_LastSeen = (case fs ''last_seen'' of
                       None \<Rightarrow> zero_time
                     | Some raw \<Rightarrow> if raw = [] then zero_time else (case ParseRFC3339 raw of Some t \<Rightarrow> t | None \<Rightarrow> zero_time)),
      ds_Stale = False\<rparr>"

definition redis_DeviceState :: "'r redis \<Rightarrow> 'm RedisStore \<Rightarrow> net \<Rightarrow> string \<Rightarrow> string \<Rightarrow> 'r \<Rightarrow> (error + DeviceState) \<times> 'r" where
  "redis_DeviceState rd st nt u d r =
     (case exchange rd nt (rd_HGETALL rd (stateKey (rs_namespace st) u d)) r of
        (Inl err, r1) \<Rightarrow> (Inl (Wrap ''redisstore: reading device state'' err), r1)
      | (Inr fs, r1) \<Rightarrow> (if dom fs = {} then Inl ErrRedisDeviceNotFound else Inr (state_of_fields u d fs), r1))"

definition redis_UserDevices :: "'r redis \<Rightarrow> 'm RedisStore \<Rightarrow> net \<Rightarrow> string \<Rightarrow> 'r \<Rightarrow> (error + DeviceListing) \<times> 'r" where
  "redis_UserDevices rd st nt u r =
     (case exchange rd nt (rd_SMEMBERS rd (devicesKey (rs_namespace st) u)) r of
        (Inl err, r1) \<Rightarrow> (Inl (Wrap ''redisstore: listing devices'' err), r1)
      | (Inr devices, r1) \<Rightarrow> (Inr \<lparr>dl_Devices = sorted_list_of_set devices, dl_Stale = False\<rparr>, r1))"

definition redis_PipelineMetrics :: "'r redis \<Rightarrow> 'm RedisStore \<Rightarrow> net \<Rightarrow> 'r \<Rightarrow> (error + (string \<rightharpoonup> int)) \<times> 'r" where
  "redis_PipelineMetrics rd st nt r =
     (case exchange rd nt (rd_HGETALL rd (rs_metricsKey st)) r of
        (Inl err, r1) \<Rightarrow> (Inl (Wrap ''redisstore: reading metrics'' err), r1)
      | (Inr fs, r1) \<Rightarrow> (Inr (\<lambda>name. map_option (\<lambda>v. parseInt (Some v)) (fs name)), r1))"

definition redis_ResetDevice :: "'r redis \<Rightarrow> 'm RedisStore \<Rightarrow> (nat \<Rightarrow> net) \<Rightarrow> string \<Rightarrow> string \<Rightarrow> 'r \<times> 'm \<Rightarrow> error option \<times> ('r \<times> 'm)" where
  "redis_ResetDevice rd st nt u d s =
     (case exchange rd (nt 0) (resetDevice rd (stateKey (rs_namespace st) u d) (updatesChannel (rs_namespace st) u d)) (fst s) of
        (Inl err, r1) \<Rightarrow> (Some (Wrap ''redisstore: resetting device'' err), (r1, snd s))
      | (Inr reset, r1) \<Rightarrow>
          if reset = 0 then (Some ErrRedisDeviceNotFound, (r1, snd s))
          else (None, redis_Increment rd st (nt 1) MetricDeviceResets 1 (r1, snd s)))"

end
