(* ===== verification/RedisScript.thy ===== *)
theory RedisScript
  imports RedisStore
begin

text \<open>
  What the script of the Redis store that applies a window computes (\<^verbatim>\<open>applyWindow\<close> of \<^verbatim>\<open>internal/redisstore/store.go\<close>): its keys are apart, its run over documented commands in closed form, and
  that it makes of the fields of a device record those of the record of the in-memory store with the window applied.
\<close>

section \<open>Keys\<close>

definition plain :: "string \<Rightarrow> bool" where "plain u \<longleftrightarrow> CHR ''}'' \<notin> set u"

lemma user_prefix:
  assumes "plain u" and "plain u'" and "ns @ '':{'' @ u @ ''}'' @ x = ns @ '':{'' @ u' @ ''}'' @ x'"
  shows "u = u' \<and> x = x'"
  using split_first_unique[of u "CHR ''}''" x u' x'] assms by (simp add: plain_def)

lemma stateKey_inj: "plain u \<Longrightarrow> plain u' \<Longrightarrow> stateKey ns u d = stateKey ns u' d' \<longleftrightarrow> u = u' \<and> d = d'"
  using user_prefix[of u u' ns "'':device:'' @ d @ '':state''" "'':device:'' @ d' @ '':state''"] by (auto simp: stateKey_def)

lemma dedupeKey_inj: "plain u \<Longrightarrow> plain u' \<Longrightarrow> dedupeKey ns u d = dedupeKey ns u' d' \<longleftrightarrow> u = u' \<and> d = d'"
  using user_prefix[of u u' ns "'':device:'' @ d @ '':applied:'' @ DedupeSchemaVersion" "'':device:'' @ d' @ '':applied:'' @ DedupeSchemaVersion"] by (auto simp: dedupeKey_def)

lemma devicesKey_inj: "plain u \<Longrightarrow> plain u' \<Longrightarrow> devicesKey ns u = devicesKey ns u' \<longleftrightarrow> u = u'"
  using user_prefix[of u u' ns "'':devices''" "'':devices''"] by (auto simp: devicesKey_def)

lemma last_of_keys:
  "last (stateKey ns u d) = CHR ''e''" "last (dedupeKey ns u d) = CHR ''2''" "last (devicesKey ns u) = CHR ''s''"
  by (simp_all add: stateKey_def dedupeKey_def devicesKey_def DedupeSchemaVersion_def)

lemma keys_differ [simp]:
  "stateKey ns u d \<noteq> dedupeKey ns u' d'" "dedupeKey ns u' d' \<noteq> stateKey ns u d" "stateKey ns u d \<noteq> devicesKey ns u'" "devicesKey ns u' \<noteq> stateKey ns u d"
  "dedupeKey ns u d \<noteq> devicesKey ns u'" "devicesKey ns u' \<noteq> dedupeKey ns u d"
  by (auto dest: arg_cong[where f = last] simp: last_of_keys)

lemma metrics_differ [simp]:
  "ns @ '':metrics'' \<noteq> stateKey ns u d" "ns @ '':metrics'' \<noteq> dedupeKey ns u d" "ns @ '':metrics'' \<noteq> devicesKey ns u"
  by (simp_all add: stateKey_def dedupeKey_def devicesKey_def)

section \<open>The script\<close>

definition add_fields :: "(string \<times> string) list \<Rightarrow> (string \<rightharpoonup> string) \<Rightarrow> (string \<rightharpoonup> string)" where
  "add_fields fs h = fold (\<lambda>(f, v) h. h(f \<mapsto> v)) fs h"

text \<open>The fields after \<open>apply_latest\<close>, given the stored id and sample as numbers.\<close>

definition latest_fields :: "apply_args \<Rightarrow> int \<Rightarrow> int \<Rightarrow> (string \<rightharpoonup> string) \<Rightarrow> (string \<rightharpoonup> string)" where
  "latest_fields a current sample h =
     (let seen = (\<lambda>h. if aa_lastSeen a \<noteq> [] then h(''last_seen'' \<mapsto> aa_lastSeen a) else h);
          percentiles = (\<lambda>h. h(''p95_nanos'' \<mapsto> AppendInt (aa_p95 a), ''p99_nanos'' \<mapsto> AppendInt (aa_p99 a), ''percentile_sample'' \<mapsto> AppendInt (aa_count a)))
      in if current < lua_number (aa_windowID a) then seen (percentiles (h(''last_window_id'' \<mapsto> AppendInt (aa_windowID a))))
         else if lua_number (aa_windowID a) = current then seen (if sample < lua_number (aa_count a) then percentiles h else h)
         else h)"

definition stored_number :: "string \<Rightarrow> string option \<Rightarrow> int option" where
  "stored_number missing v = tonumber (case v of None \<Rightarrow> missing | Some x \<Rightarrow> x)"

lemma apply_latest_run:
  assumes "hash_at k1 s = Some h" and "kv_keys s k1 = Some (RHash h)" and "stored_number ''-1'' (h ''last_window_id'') = Some current" and "stored_number ''0'' (h ''percentile_sample'') = Some sample"
  shows "apply_latest documented k1 a s = (Inr (), put k1 (RHash (latest_fields a current sample h)) s)"
proof -
  have same: "put k1 (RHash h) s = s" using assms(2) by (simp add: put_def fun_upd_idem)
  show ?thesis using assms(1,3,4)
    by (simp add: apply_latest_def call_def redis_run stored_number_def set_last_seen_def reply_def latest_fields_def Let_def same)
qed

lemma applyWindow_seen:
  assumes "zset_at k2 s = Some z" and "z (aa_identity a) \<noteq> None"
  shows "applyWindow documented k1 k2 k3 k4 a s = (Inr 0, s)"
  using assms by (simp add: applyWindow_def call_def redis_run reply_def)

definition named_fields :: "apply_args \<Rightarrow> (string \<rightharpoonup> string) \<Rightarrow> (string \<rightharpoonup> string)" where
  "named_fields a h =
     (let h1 = (if h ''user_id'' = None then h(''user_id'' \<mapsto> aa_userID a) else h)
      in if h1 ''device_id'' = None then h1(''device_id'' \<mapsto> aa_deviceID a) else h1)"

lemma applyWindow_new:
  assumes "hash_at k1 s = Some h" and "zset_at k2 s = Some z" and "set_at k3 s = Some x" and "k1 \<noteq> k2" and "k1 \<noteq> k3" and "k2 \<noteq> k3"
    and "z (aa_identity a) = None" and "0 < aa_ttl a"
    and "\<forall>m y. (z(aa_identity a \<mapsto> lua_number (aa_now a))) m = Some y \<longrightarrow> lua_number (lua_number (aa_now a) - lua_number (aa_ttl a)) < y"
    and "incremented (h ''count'') (aa_count a) = Inr c" and "incremented (h ''error_count'') (aa_errorCount a) = Inr e" and "incremented (h ''bytes'') (aa_bytes a) = Inr b"
    and "stored_number ''-1'' (h ''last_window_id'') = Some current" and "stored_number ''0'' (h ''percentile_sample'') = Some sample"
  shows "applyWindow documented k1 k2 k3 k4 a s =
    (Inr 1, s\<lparr>kv_keys := (kv_keys s)(k2 \<mapsto> RZset (z(aa_identity a \<mapsto> lua_number (aa_now a))), k3 \<mapsto> RSet (insert (aa_deviceID a) x),
        k1 \<mapsto> RHash (latest_fields a current sample ((named_fields a h)(''count'' \<mapsto> AppendInt c, ''error_count'' \<mapsto> AppendInt e, ''bytes'' \<mapsto> AppendInt b)))),
      kv_deadline := (kv_deadline s)(k2 \<mapsto> kv_clock s + aa_ttl a * 1000),
      kv_published := kv_published s @ [(k4, AppendInt (aa_windowID a))]\<rparr>)"
proof -
  let ?z = "z(aa_identity a \<mapsto> lua_number (aa_now a))"
  let ?s1 = "put k2 (RZset ?z) s"
  let ?s2 = "?s1\<lparr>kv_deadline := (kv_deadline ?s1)(k2 \<mapsto> kv_clock ?s1 + aa_ttl a * 1000)\<rparr>"
  let ?s3 = "put k3 (RSet (insert (aa_deviceID a) x)) ?s2"
  let ?h = "(named_fields a h)(''count'' \<mapsto> AppendInt c, ''error_count'' \<mapsto> AppendInt e, ''bytes'' \<mapsto> AppendInt b)"
  have zrem: "rd_ZREMRANGEBYSCORE documented k2 (lua_number (lua_number (aa_now a) - lua_number (aa_ttl a))) ?s1 = (Inr (), ?s1)"
    using run_ZREMRANGEBYSCORE[of k2 ?s1 ?z] assms(9) by (simp add: redis_run)
  have exp: "rd_EXPIRE documented k2 (aa_ttl a) ?s1 = (Inr (), ?s2)" by (rule run_EXPIRE[OF _ assms(8)]) (simp add: put_def)
  have named: "named_fields a h ''count'' = h ''count''" "named_fields a h ''error_count'' = h ''error_count''" "named_fields a h ''bytes'' = h ''bytes''"
    "named_fields a h ''last_window_id'' = h ''last_window_id''" "named_fields a h ''percentile_sample'' = h ''percentile_sample''"
    by (simp_all add: named_fields_def Let_def)
  have latest: "apply_latest documented k1 a (put k1 (RHash ?h) ?s3) = (Inr (), put k1 (RHash (latest_fields a current sample ?h)) (put k1 (RHash ?h) ?s3))"
    by (rule apply_latest_run) (use assms(13,14) in \<open>simp_all add: redis_run named\<close>, simp add: put_def)
  let ?n1 = "if h ''user_id'' = None then h(''user_id'' \<mapsto> aa_userID a) else h"
  have nx: "rd_HSETNX documented k1 ''user_id'' (aa_userID a) ?s3 = (Inr (), put k1 (RHash ?n1) ?s3)"
    "rd_HSETNX documented k1 ''device_id'' (aa_deviceID a) (put k1 (RHash ?n1) ?s3) = (Inr (), put k1 (RHash (named_fields a h)) ?s3)"
    using assms(1,4,5) by (simp_all add: redis_run named_fields_def Let_def)
  have inc: "rd_HINCRBY documented k1 f d (put k1 (RHash g) ?s3) = (Inr (), put k1 (RHash (g(f \<mapsto> AppendInt n))) ?s3)" if "incremented (g f) d = Inr n" for f d g n
    using that by (simp add: redis_run)
  have "applyWindow documented k1 k2 k3 k4 a s = (Inr 1, (put k1 (RHash (latest_fields a current sample ?h)) ?s3)\<lparr>kv_published := kv_published s @ [(k4, AppendInt (aa_windowID a))]\<rparr>)"
    unfolding applyWindow_def call_def
    using assms(2,3,6,7) by (simp add: redis_run zrem exp nx inc named assms(10-12) latest reply_def) (simp add: put_def)
  then show ?thesis using assms(4-6) by (simp add: put_def fun_upd_twist)
qed

section \<open>The simulation\<close>

text \<open>
  \<open>ends\<close> gives the end of a window from its id: all aggregators cut time into windows of one size. \<open>K\<close> bounds the counters.
\<close>

definition represents :: "(int \<Rightarrow> time) \<Rightarrow> int \<Rightarrow> string \<Rightarrow> string \<Rightarrow> deviceRecord \<Rightarrow> (string \<rightharpoonup> string) \<Rightarrow> bool" where
  "represents ends K u d r h \<longleftrightarrow>
     (let s = dr_state r in
      h ''count'' = Some (AppendInt (ds_Count s)) \<and> h ''error_count'' = Some (AppendInt (ds_ErrorCount s)) \<and> h ''bytes'' = Some (AppendInt (ds_Bytes s)) \<and>
      h ''p95_nanos'' = Some (AppendInt (ds_P95Nanos s)) \<and> h ''p99_nanos'' = Some (AppendInt (ds_P99Nanos s)) \<and>
      h ''last_window_id'' = Some (AppendInt (ds_LastWindowID s)) \<and> h ''percentile_sample'' = Some (AppendInt (dr_percentileSample r)) \<and>
      h ''last_seen'' = Some (FormatRFC3339 (ds_LastSeen s)) \<and>
      0 \<le> ds_Count s \<and> ds_Count s \<le> K \<and> 0 \<le> ds_ErrorCount s \<and> ds_ErrorCount s \<le> K \<and> 0 \<le> ds_Bytes s \<and> ds_Bytes s \<le> K \<and>
      in_i64 (ds_P95Nanos s) \<and> in_i64 (ds_P99Nanos s) \<and> 0 \<le> ds_LastWindowID s \<and> ds_LastWindowID s < 2 ^ 53 \<and>
      0 \<le> dr_percentileSample r \<and> dr_percentileSample r < 2 ^ 53 \<and> ds_LastSeen s = ends (ds_LastWindowID s) \<and> four_digit_year (ends (ds_LastWindowID s)) \<and>
      ds_UserID s = u \<and> ds_DeviceID s = d \<and> \<not> ds_Stale s)"

definition window_ok :: "(int \<Rightarrow> time) \<Rightarrow> AggregateWindow \<Rightarrow> bool" where
  "window_ok ends w \<longleftrightarrow>
     plain (ck_UserID (w_Key w)) \<and> 0 \<le> w_WindowID w \<and> w_WindowID w < 2 ^ 53 \<and> 0 < w_Count w \<and> w_Count w < 2 ^ 53 \<and> 0 \<le> w_ErrorCount w \<and> 0 \<le> w_Bytes w \<and>
     in_i64 (w_P95Nanos w) \<and> in_i64 (w_P99Nanos w) \<and> w_WindowEnd w = ends (w_WindowID w) \<and> zero_time < ends (w_WindowID w) \<and> four_digit_year (ends (w_WindowID w))"

definition cost :: "AggregateWindow \<Rightarrow> int" where "cost w = w_Count w + w_ErrorCount w + w_Bytes w"

lemma incremented_exact:
  assumes "0 \<le> n" and "0 \<le> d" and "n + d \<le> MaxInt64"
  shows "incremented (Some (AppendInt n)) d = Inr (n + d)"
proof -
  have "in_i64 n" "in_i64 (n + d)" using assms by (simp_all add: in_i64_def MinInt64_def)
  then show ?thesis by (simp add: incremented_def ParseInt_AppendInt)
qed

lemma incremented_missing: "0 \<le> d \<Longrightarrow> d \<le> MaxInt64 \<Longrightarrow> incremented None d = Inr d"
  by (simp add: incremented_def ParseInt_0 in_i64_def MinInt64_def)

lemma tonumber_exact: "0 \<le> n \<Longrightarrow> n < 2 ^ 53 \<Longrightarrow> tonumber (AppendInt n) = Some n"
  by (simp add: tonumber_def ParseInt_AppendInt lua_number_exact in_i64_def MinInt64_def MaxInt64_def)

lemma tonumber_missing: "tonumber ''-1'' = Some (- 1)" "tonumber ''0'' = Some 0"
proof -
  have "char_of (of_char (CHR ''1'') :: nat) = CHR ''1''" by (rule char_of_char)
  then have "AppendInt (- 1) = ''-1''" by (simp add: AppendInt_def digits.simps digit_char_def)
  then show "tonumber ''-1'' = Some (- 1)" using ParseInt_AppendInt[of "- 1"] by (simp add: tonumber_def lua_number_exact in_i64_def MinInt64_def MaxInt64_def)
  show "tonumber ''0'' = Some 0" by (simp add: tonumber_def ParseInt_0 lua_number_exact)
qed

lemma wrap64_small: "0 \<le> n \<Longrightarrow> n \<le> MaxInt64 \<Longrightarrow> wrap64 n = n"
  by (rule wrap64_id) (simp add: in_i64_def MinInt64_def)

lemma Format_nonempty: "FormatRFC3339 t \<noteq> []"
  by (simp add: FormatRFC3339_def Let_def)

text \<open>The script makes of the fields of a record those of the record with the window applied.\<close>

definition applied_fields :: "'m RedisStore \<Rightarrow> time \<Rightarrow> AggregateWindow \<Rightarrow> int \<Rightarrow> int \<Rightarrow> deviceRecord \<Rightarrow> (string \<rightharpoonup> string) \<Rightarrow> (string \<rightharpoonup> string)" where
  "applied_fields st now w current sample r h =
     latest_fields (window_args st now w) current sample
       ((named_fields (window_args st now w) h)(''count'' \<mapsto> AppendInt (ds_Count (dr_state r) + w_Count w),
          ''error_count'' \<mapsto> AppendInt (ds_ErrorCount (dr_state r) + w_ErrorCount w), ''bytes'' \<mapsto> AppendInt (ds_Bytes (dr_state r) + w_Bytes w)))"

lemma applied_fields_represent:
  assumes "represents ends K u d r h" and "window_ok ends w" and "K + cost w \<le> MaxInt64"
  shows "represents ends (K + cost w) u d (apply_to_record w r) (applied_fields st now w (ds_LastWindowID (dr_state r)) (dr_percentileSample r) r h)"
proof -
  note rep = assms(1)[unfolded represents_def Let_def] and ok = assms(2)[unfolded window_ok_def]
  have c: "w_Count w \<le> cost w" "w_ErrorCount w \<le> cost w" "w_Bytes w \<le> cost w" using ok by (simp_all add: cost_def)
  have wraps: "wrap64 (ds_Count (dr_state r) + w_Count w) = ds_Count (dr_state r) + w_Count w" "wrap64 (ds_ErrorCount (dr_state r) + w_ErrorCount w) = ds_ErrorCount (dr_state r) + w_ErrorCount w"
    "wrap64 (ds_Bytes (dr_state r) + w_Bytes w) = ds_Bytes (dr_state r) + w_Bytes w"
    using rep ok c assms(3) by (intro wrap64_small; linarith)+
  have lua: "lua_number (w_WindowID w) = w_WindowID w" "lua_number (w_Count w) = w_Count w" using ok by (simp_all add: lua_number_exact)
  have seen: "aa_lastSeen (window_args st now w) = FormatRFC3339 (w_WindowEnd w)" using ok by (simp add: window_args_def IsZero_def)
  let ?s = "dr_state r" and ?a = "window_args st now w"
  let ?h = "(named_fields ?a h)(''count'' \<mapsto> AppendInt (ds_Count ?s + w_Count w), ''error_count'' \<mapsto> AppendInt (ds_ErrorCount ?s + w_ErrorCount w), ''bytes'' \<mapsto> AppendInt (ds_Bytes ?s + w_Bytes w))"
  let ?t = "?s\<lparr>ds_Count := ds_Count ?s + w_Count w, ds_ErrorCount := ds_ErrorCount ?s + w_ErrorCount w, ds_Bytes := ds_Bytes ?s + w_Bytes w\<rparr>"
  have fs: "aa_windowID ?a = w_WindowID w" "aa_count ?a = w_Count w" "aa_p95 ?a = w_P95Nanos w" "aa_p99 ?a = w_P99Nanos w" by (simp_all add: window_args_def)
  have nf: "named_fields ?a h f = h f" if "f \<notin> {''user_id'', ''device_id''}" for f using that by (simp add: named_fields_def Let_def)
  have add: "add_counters w ?s = ?t" by (simp add: add_counters_def wraps)
  have bounds: "0 \<le> ds_Count ?t" "ds_Count ?t \<le> K + cost w" "0 \<le> ds_ErrorCount ?t" "ds_ErrorCount ?t \<le> K + cost w" "0 \<le> ds_Bytes ?t" "ds_Bytes ?t \<le> K + cost w"
    using rep ok c by simp_all
  consider (new) "ds_LastWindowID ?s < w_WindowID w" | (same) "w_WindowID w = ds_LastWindowID ?s" | (old) "w_WindowID w < ds_LastWindowID ?s" by linarith
  then show ?thesis
  proof cases
    case new
    then have "apply_to_record w r = \<lparr>dr_state = ?t\<lparr>ds_LastWindowID := w_WindowID w, ds_P95Nanos := w_P95Nanos w, ds_P99Nanos := w_P99Nanos w, ds_LastSeen := w_WindowEnd w\<rparr>,
        dr_applied = insert (Identity w) (dr_applied r), dr_percentileSample = w_Count w\<rparr>"
      by (simp add: apply_to_record_def take_latest_def add)
    moreover have "applied_fields st now w (ds_LastWindowID ?s) (dr_percentileSample r) r h = ?h(''last_window_id'' \<mapsto> AppendInt (w_WindowID w),
        ''p95_nanos'' \<mapsto> AppendInt (w_P95Nanos w), ''p99_nanos'' \<mapsto> AppendInt (w_P99Nanos w), ''percentile_sample'' \<mapsto> AppendInt (w_Count w), ''last_seen'' \<mapsto> FormatRFC3339 (w_WindowEnd w))"
      unfolding applied_fields_def latest_fields_def fs lua seen Let_def using new Format_nonempty[of "w_WindowEnd w"] by simp
    ultimately show ?thesis using rep ok bounds unfolding represents_def by (simp add: nf)
  next
    case same
    then have end_same: "w_WindowEnd w = ds_LastSeen ?s" using rep ok by simp
    show ?thesis
    proof (cases "dr_percentileSample r < w_Count w")
      case True
      have "apply_to_record w r = \<lparr>dr_state = ?t\<lparr>ds_P95Nanos := w_P95Nanos w, ds_P99Nanos := w_P99Nanos w\<rparr>, dr_applied = insert (Identity w) (dr_applied r), dr_percentileSample = w_Count w\<rparr>"
        using same True end_same by (simp add: apply_to_record_def take_latest_def add)
      moreover have "applied_fields st now w (ds_LastWindowID ?s) (dr_percentileSample r) r h = ?h(''p95_nanos'' \<mapsto> AppendInt (w_P95Nanos w), ''p99_nanos'' \<mapsto> AppendInt (w_P99Nanos w),
          ''percentile_sample'' \<mapsto> AppendInt (w_Count w), ''last_seen'' \<mapsto> FormatRFC3339 (w_WindowEnd w))"
        unfolding applied_fields_def latest_fields_def fs lua seen Let_def using same True Format_nonempty[of "w_WindowEnd w"] by simp
      ultimately show ?thesis using rep ok bounds unfolding represents_def by (simp add: nf end_same)
    next
      case False
      have "apply_to_record w r = r\<lparr>dr_state := ?t, dr_applied := insert (Identity w) (dr_applied r)\<rparr>"
        using same False end_same by (simp add: apply_to_record_def take_latest_def add)
      moreover have "applied_fields st now w (ds_LastWindowID ?s) (dr_percentileSample r) r h = ?h(''last_seen'' \<mapsto> FormatRFC3339 (w_WindowEnd w))"
        unfolding applied_fields_def latest_fields_def fs lua seen Let_def using same False Format_nonempty[of "w_WindowEnd w"] by simp
      ultimately show ?thesis using rep ok bounds unfolding represents_def by (simp add: nf end_same)
    qed
  next
    case old
    then have "apply_to_record w r = r\<lparr>dr_state := ?t, dr_applied := insert (Identity w) (dr_applied r)\<rparr>"
      by (simp add: apply_to_record_def take_latest_def add)
    moreover have "applied_fields st now w (ds_LastWindowID ?s) (dr_percentileSample r) r h = ?h"
      unfolding applied_fields_def latest_fields_def fs lua seen Let_def using old by simp
    ultimately show ?thesis using rep ok bounds unfolding represents_def by (simp add: nf)
  qed
qed

end
