(* ===== verification/RedisRefines.thy ===== *)
theory RedisRefines
  imports RedisScript
begin

text \<open>
  The Redis store implements the in-memory store (\<^verbatim>\<open>internal/redisstore\<close> and \<^verbatim>\<open>internal/store\<close>): a simulation between the key space and the device records. Within one
  period of deduplication, in which no identity is forgotten, every call that is answered acts as the in-memory operation, however often the client tried it; a call that failed acted or did not.
\<close>

section \<open>The fields of a new device\<close>

lemma represents_mono: "represents ends K u d r h \<Longrightarrow> K \<le> K' \<Longrightarrow> represents ends K' u d r h"
  by (auto simp: represents_def Let_def)

lemma new_fields_represent:
  assumes "window_ok ends w" and "cost w \<le> MaxInt64"
  shows "represents ends (cost w) u d (apply_to_record w (new_record u d)) (applied_fields st now w (- 1) 0 (new_record u d) Map.empty)"
proof -
  note ok = assms(1)[unfolded window_ok_def]
  have c: "w_Count w \<le> cost w" "w_ErrorCount w \<le> cost w" "w_Bytes w \<le> cost w" using ok by (simp_all add: cost_def)
  have wraps: "wrap64 (w_Count w) = w_Count w" "wrap64 (w_ErrorCount w) = w_ErrorCount w" "wrap64 (w_Bytes w) = w_Bytes w"
    using ok c assms(2) by (intro wrap64_small; linarith)+
  have lua: "lua_number (w_WindowID w) = w_WindowID w" using ok by (simp add: lua_number_exact)
  have seen: "aa_lastSeen (window_args st now w) = FormatRFC3339 (w_WindowEnd w)" using ok by (simp add: window_args_def IsZero_def)
  let ?s = "\<lparr>ds_UserID = u, ds_DeviceID = d, ds_Count = w_Count w, ds_ErrorCount = w_ErrorCount w, ds_Bytes = w_Bytes w, ds_P95Nanos = w_P95Nanos w, ds_P99Nanos = w_P99Nanos w,
    ds_LastWindowID = w_WindowID w, ds_LastSeen = w_WindowEnd w, ds_Stale = False\<rparr>"
  have "apply_to_record w (new_record u d) = \<lparr>dr_state = ?s, dr_applied = {Identity w}, dr_percentileSample = w_Count w\<rparr>"
    using ok by (cases "w_WindowID w = 0") (auto simp: apply_to_record_def take_latest_def add_counters_def new_record_def zero_DeviceState_def wraps)
  moreover have "applied_fields st now w (- 1) 0 (new_record u d) Map.empty = (named_fields (window_args st now w) Map.empty)(''count'' \<mapsto> AppendInt (w_Count w),
      ''error_count'' \<mapsto> AppendInt (w_ErrorCount w), ''bytes'' \<mapsto> AppendInt (w_Bytes w), ''last_window_id'' \<mapsto> AppendInt (w_WindowID w),
      ''p95_nanos'' \<mapsto> AppendInt (w_P95Nanos w), ''p99_nanos'' \<mapsto> AppendInt (w_P99Nanos w), ''percentile_sample'' \<mapsto> AppendInt (w_Count w), ''last_seen'' \<mapsto> FormatRFC3339 (w_WindowEnd w))"
    unfolding applied_fields_def latest_fields_def seen Let_def using ok Format_nonempty[of "w_WindowEnd w"] lua
    by (simp add: window_args_def new_record_def zero_DeviceState_def)
  ultimately show ?thesis using ok c unfolding represents_def by simp
qed

lemma reset_fields_represent:
  assumes "represents ends K u d r h"
  shows "represents ends K u d (reset_record r) (h(''count'' \<mapsto> ''0'', ''error_count'' \<mapsto> ''0'', ''bytes'' \<mapsto> ''0'', ''p95_nanos'' \<mapsto> ''0'', ''p99_nanos'' \<mapsto> ''0'', ''percentile_sample'' \<mapsto> ''0''))"
  using assms by (simp add: represents_def Let_def reset_record_def AppendInt_0 in_i64_def MinInt64_def MaxInt64_def)

section \<open>The simulation\<close>

text \<open>
  A period starts at \<open>N0\<close> on the clients' clocks, in seconds, and at \<open>T0\<close> on the server's, in milliseconds, and lasts as long as identities are kept.
\<close>

definition horizon :: "'m RedisStore \<Rightarrow> int \<Rightarrow> int" where "horizon st T0 = T0 + ttl_seconds st * 1000"

definition dev_sim :: "(int \<Rightarrow> time) \<Rightarrow> 'm RedisStore \<Rightarrow> int \<Rightarrow> int \<Rightarrow> int \<Rightarrow> keyspace \<Rightarrow> string \<Rightarrow> string \<Rightarrow> deviceRecord option \<Rightarrow> bool" where
  "dev_sim ends st N0 T0 K ks u d ro \<longleftrightarrow>
     (let sk = stateKey (rs_namespace st) u d; dk = dedupeKey (rs_namespace st) u d
      in kv_deadline ks sk = None \<and>
         (case ro of
            None \<Rightarrow> kv_keys ks sk = None \<and> kv_keys ks dk = None
          | Some r \<Rightarrow> \<exists>h z e. kv_keys ks sk = Some (RHash h) \<and> represents ends K u d r h \<and> kv_keys ks dk = Some (RZset z) \<and> dom z = dr_applied r \<and>
                        (\<forall>m x. z m = Some x \<longrightarrow> N0 \<le> x) \<and> kv_deadline ks dk = Some e \<and> horizon st T0 \<le> e))"

definition sim :: "(int \<Rightarrow> time) \<Rightarrow> 'm RedisStore \<Rightarrow> int \<Rightarrow> int \<Rightarrow> int \<Rightarrow> keyspace \<Rightarrow> (string \<rightharpoonup> deviceRecord) \<Rightarrow> bool" where
  "sim ends st N0 T0 K ks M \<longleftrightarrow>
     (\<forall>u d. plain u \<longrightarrow> dev_sim ends st N0 T0 K ks u d (M (deviceKey u d))) \<and>
     (\<forall>u. plain u \<longrightarrow> kv_deadline ks (devicesKey (rs_namespace st) u) = None \<and> set_at (devicesKey (rs_namespace st) u) ks = Some {d. M (deviceKey u d) \<noteq> None}) \<and>
     T0 \<le> kv_clock ks \<and> kv_clock ks < horizon st T0"

lemma dev_sim_cong:
  assumes "kv_keys ks' (stateKey (rs_namespace st) u d) = kv_keys ks (stateKey (rs_namespace st) u d)" and "kv_keys ks' (dedupeKey (rs_namespace st) u d) = kv_keys ks (dedupeKey (rs_namespace st) u d)"
    and "kv_deadline ks' (stateKey (rs_namespace st) u d) = kv_deadline ks (stateKey (rs_namespace st) u d)" and "kv_deadline ks' (dedupeKey (rs_namespace st) u d) = kv_deadline ks (dedupeKey (rs_namespace st) u d)"
  shows "dev_sim ends st N0 T0 K ks' u d ro = dev_sim ends st N0 T0 K ks u d ro"
  unfolding dev_sim_def Let_def assms ..

lemma dev_sim_mono: "dev_sim ends st N0 T0 K ks u d ro \<Longrightarrow> K \<le> K' \<Longrightarrow> dev_sim ends st N0 T0 K' ks u d ro"
  unfolding dev_sim_def Let_def by (auto split: option.splits intro: represents_mono)

lemma sim_mono: "sim ends st N0 T0 K ks M \<Longrightarrow> K \<le> K' \<Longrightarrow> sim ends st N0 T0 K' ks M"
  unfolding sim_def by (blast intro: dev_sim_mono)

lemma advance_keeps:
  assumes "t < H" and "kv_clock s < H" and "kv_deadline s k = None \<or> (\<exists>e. kv_deadline s k = Some e \<and> H \<le> e)"
  shows "kv_keys (rd_advance documented t s) k = kv_keys s k" "kv_deadline (rd_advance documented t s) k = kv_deadline s k"
  using assms by (auto simp: documented_def Let_def)

lemma dev_sim_advance:
  assumes "dev_sim ends st N0 T0 K ks u d ro" and "t < horizon st T0" and "kv_clock ks < horizon st T0"
  shows "dev_sim ends st N0 T0 K (rd_advance documented t ks) u d ro"
proof (cases ro)
  case None
  with assms(1) have "kv_deadline ks (stateKey (rs_namespace st) u d) = None" "kv_keys ks (dedupeKey (rs_namespace st) u d) = None" "kv_keys ks (stateKey (rs_namespace st) u d) = None"
    by (simp_all add: dev_sim_def Let_def)
  then show ?thesis using None by (simp add: dev_sim_def documented_def Let_def)
next
  case (Some r)
  with assms(1) have "kv_deadline ks (stateKey (rs_namespace st) u d) = None" "\<exists>e. kv_deadline ks (dedupeKey (rs_namespace st) u d) = Some e \<and> horizon st T0 \<le> e"
    by (auto simp: dev_sim_def Let_def)
  with advance_keeps[OF assms(2,3)] assms(1) show ?thesis by (subst dev_sim_cong) auto
qed

lemma sim_advance:
  assumes "sim ends st N0 T0 K ks M" and "t < horizon st T0"
  shows "sim ends st N0 T0 K (rd_advance documented t ks) M"
proof -
  have clock: "T0 \<le> kv_clock ks" "kv_clock ks < horizon st T0" using assms(1) by (simp_all add: sim_def)
  moreover have "kv_clock (rd_advance documented t ks) = max t (kv_clock ks)" by (simp add: documented_def Let_def)
  moreover have "set_at k (rd_advance documented t ks) = set_at k ks" "kv_deadline (rd_advance documented t ks) k = None" if "kv_deadline ks k = None" for k
    using advance_keeps[OF assms(2) clock(2), of k] that by (simp_all add: set_at_def)
  ultimately show ?thesis using assms dev_sim_advance[of ends st N0 T0 K ks] unfolding sim_def by (auto simp: max_def)
qed

lemma sim_put:
  assumes "sim ends st N0 T0 K ks M" and "k = rs_namespace st @ '':metrics''"
  shows "sim ends st N0 T0 K (put k v ks) M"
proof -
  have "dev_sim ends st N0 T0 K (put k v ks) u d ro = dev_sim ends st N0 T0 K ks u d ro" for u d ro
    by (rule dev_sim_cong) (simp_all add: put_def assms(2) metrics_differ[symmetric])
  moreover have "set_at (devicesKey (rs_namespace st) u) (put k v ks) = set_at (devicesKey (rs_namespace st) u) ks" for u
    by (simp add: redis_run assms(2) metrics_differ[symmetric])
  moreover have "kv_clock (put k v ks) = kv_clock ks" "kv_deadline (put k v ks) = kv_deadline ks" by (simp_all add: put_def)
  ultimately show ?thesis using assms(1) by (simp add: sim_def)
qed

section \<open>One execution of a script\<close>

text \<open>What the in-memory operations make of the records.\<close>

definition stored :: "AggregateWindow \<Rightarrow> (string \<rightharpoonup> deviceRecord) \<Rightarrow> deviceRecord" where
  "stored w M = (case M (dkey w) of Some r \<Rightarrow> r | None \<Rightarrow> new_record (ck_UserID (w_Key w)) (ck_DeviceID (w_Key w)))"

definition with_window :: "AggregateWindow \<Rightarrow> (string \<rightharpoonup> deviceRecord) \<Rightarrow> (string \<rightharpoonup> deviceRecord)" where
  "with_window w M = M(dkey w \<mapsto> (if Identity w \<in> dr_applied (stored w M) then stored w M else apply_to_record w (stored w M)))"

definition with_reset :: "string \<Rightarrow> string \<Rightarrow> (string \<rightharpoonup> deviceRecord) \<Rightarrow> (string \<rightharpoonup> deviceRecord)" where
  "with_reset u d M = (case M (deviceKey u d) of None \<Rightarrow> M | Some r \<Rightarrow> M(deviceKey u d \<mapsto> reset_record r))"

lemma applied_take_latest: "dr_applied (take_latest w r) = dr_applied r"
  by (simp add: take_latest_def Let_def)

lemma applied_apply: "dr_applied (apply_to_record w r) = insert (Identity w) (dr_applied r)"
  by (simp add: apply_to_record_def applied_take_latest)

lemma with_window_known: "Identity w \<in> dr_applied (stored w M) \<Longrightarrow> with_window w M = M"
  by (auto simp: with_window_def stored_def split: option.splits)

lemma stored_with_window: "Identity w \<in> dr_applied (stored w (with_window w M))"
proof -
  have "stored w (M(dkey w \<mapsto> r)) = r" for r by (simp add: stored_def)
  then show ?thesis by (simp add: with_window_def applied_apply)
qed

definition period_ok :: "'m RedisStore \<Rightarrow> int \<Rightarrow> bool" where
  "period_ok st N0 \<longleftrightarrow> 0 < ttl_seconds st \<and> 0 \<le> N0 \<and> N0 + ttl_seconds st < 2 ^ 53"

definition in_period :: "'m RedisStore \<Rightarrow> int \<Rightarrow> time \<Rightarrow> bool" where
  "in_period st N0 now \<longleftrightarrow> N0 \<le> now div second \<and> now div second < N0 + ttl_seconds st"

lemma deviceKey_iff: "plain u \<Longrightarrow> plain u' \<Longrightarrow> deviceKey u d = deviceKey u' d' \<longleftrightarrow> u = u' \<and> d = d'"
  using deviceKey_inj[of u u' d d'] by (auto simp: plain_def)

text \<open>Another device is not touched.\<close>

lemma window_state_sim:
  assumes "sim ends st N0 T0 K ks M" and "plain u" and "K \<le> K'"
    and "represents ends K' u d r h" and "dom z = dr_applied r" and "\<forall>m x. z m = Some x \<longrightarrow> N0 \<le> x"
    and "kv_keys ks' = (kv_keys ks)(dedupeKey (rs_namespace st) u d \<mapsto> RZset z, devicesKey (rs_namespace st) u \<mapsto> RSet (insert d {d. M (deviceKey u d) \<noteq> None}),
          stateKey (rs_namespace st) u d \<mapsto> RHash h)"
    and "kv_deadline ks' = (kv_deadline ks)(dedupeKey (rs_namespace st) u d \<mapsto> kv_clock ks + ttl_seconds st * 1000)" and "kv_clock ks' = kv_clock ks"
  shows "sim ends st N0 T0 K' ks' (M(deviceKey u d \<mapsto> r))"
proof -
  let ?ns = "rs_namespace st"
  note sim = assms(1)[unfolded sim_def]
  have dev: "dev_sim ends st N0 T0 K' ks' u' d' ((M(deviceKey u d \<mapsto> r)) (deviceKey u' d'))" if "plain u'" for u' d'
  proof (cases "u' = u \<and> d' = d")
    case True
    have "kv_deadline ks (stateKey ?ns u d) = None" using sim assms(2) by (auto simp: dev_sim_def Let_def)
    then show ?thesis using True sim assms(4-9) by (simp add: dev_sim_def horizon_def)
  next
    case False
    have other: "deviceKey u' d' \<noteq> deviceKey u d" "stateKey ?ns u' d' \<noteq> stateKey ?ns u d" "dedupeKey ?ns u' d' \<noteq> dedupeKey ?ns u d"
      using False that assms(2) by (auto simp: deviceKey_iff stateKey_inj dedupeKey_inj)
    then have "dev_sim ends st N0 T0 K' ks' u' d' ro = dev_sim ends st N0 T0 K' ks u' d' ro" for ro by (intro dev_sim_cong) (simp_all add: assms(7,8))
    moreover have "dev_sim ends st N0 T0 K' ks u' d' (M (deviceKey u' d'))" by (rule dev_sim_mono[OF _ assms(3)]) (use sim that in simp)
    ultimately show ?thesis using other(1) by simp
  qed
  have "set_at (devicesKey ?ns u') ks' = Some {d'. (M(deviceKey u d \<mapsto> r)) (deviceKey u' d') \<noteq> None}" if "plain u'" for u'
  proof (cases "u' = u")
    case True
    then show ?thesis using assms(2,7) by (auto simp: set_at_def deviceKey_iff)
  next
    case False
    then have "set_at (devicesKey ?ns u') ks' = set_at (devicesKey ?ns u') ks" "\<And>d'. deviceKey u' d' \<noteq> deviceKey u d"
      using that assms(2,7) by (auto simp: set_at_def devicesKey_inj deviceKey_iff)
    then show ?thesis using sim that by simp
  qed
  with dev sim show ?thesis by (simp add: sim_def assms(8,9))
qed

definition shown_window :: "deviceRecord option \<Rightarrow> int" where
  "shown_window ro = (case ro of None \<Rightarrow> - 1 | Some r \<Rightarrow> ds_LastWindowID (dr_state r))"

definition shown_sample :: "deviceRecord option \<Rightarrow> int" where
  "shown_sample ro = (case ro of None \<Rightarrow> 0 | Some r \<Rightarrow> dr_percentileSample r)"

definition record_or_new :: "string \<Rightarrow> string \<Rightarrow> deviceRecord option \<Rightarrow> deviceRecord" where
  "record_or_new u d ro = (case ro of Some r \<Rightarrow> r | None \<Rightarrow> new_record u d)"

definition fields_sim :: "(int \<Rightarrow> time) \<Rightarrow> int \<Rightarrow> string \<Rightarrow> string \<Rightarrow> deviceRecord option \<Rightarrow> (string \<rightharpoonup> string) \<Rightarrow> bool" where
  "fields_sim ends K u d ro h \<longleftrightarrow> (case ro of None \<Rightarrow> h = Map.empty | Some r \<Rightarrow> represents ends K u d r h)"

lemma dev_sim_at:
  assumes "dev_sim ends st N0 T0 K ks u d ro"
  obtains h z where "hash_at (stateKey (rs_namespace st) u d) ks = Some h" and "fields_sim ends K u d ro h" and "zset_at (dedupeKey (rs_namespace st) u d) ks = Some z"
    and "dom z = dr_applied (record_or_new u d ro)" and "\<forall>m x. z m = Some x \<longrightarrow> N0 \<le> x"
proof (cases ro)
  case None
  with assms show ?thesis by (intro that[of Map.empty Map.empty]) (simp_all add: dev_sim_def Let_def hash_at_def zset_at_def fields_sim_def record_or_new_def)
next
  case (Some r)
  with assms obtain h z where "kv_keys ks (stateKey (rs_namespace st) u d) = Some (RHash h)" "represents ends K u d r h" "kv_keys ks (dedupeKey (rs_namespace st) u d) = Some (RZset z)"
    "dom z = dr_applied r" "\<forall>m x. z m = Some x \<longrightarrow> N0 \<le> x" by (auto simp: dev_sim_def Let_def)
  with Some show ?thesis by (intro that[of h z]) (simp_all add: hash_at_def zset_at_def fields_sim_def record_or_new_def)
qed

lemma fields_sim_numbers:
  assumes "fields_sim ends K u d ro h" and "window_ok ends w" and "0 \<le> K" and "K + cost w \<le> MaxInt64"
  shows "incremented (h ''count'') (w_Count w) = Inr (ds_Count (dr_state (record_or_new u d ro)) + w_Count w)"
    and "incremented (h ''error_count'') (w_ErrorCount w) = Inr (ds_ErrorCount (dr_state (record_or_new u d ro)) + w_ErrorCount w)"
    and "incremented (h ''bytes'') (w_Bytes w) = Inr (ds_Bytes (dr_state (record_or_new u d ro)) + w_Bytes w)"
    and "stored_number ''-1'' (h ''last_window_id'') = Some (shown_window ro)" and "stored_number ''0'' (h ''percentile_sample'') = Some (shown_sample ro)"
    and "represents ends (K + cost w) u d (apply_to_record w (record_or_new u d ro)) (applied_fields st now w (shown_window ro) (shown_sample ro) (record_or_new u d ro) h)"
proof -
  note ok = assms(2)[unfolded window_ok_def]
  have c: "0 \<le> w_Count w" "0 \<le> w_ErrorCount w" "0 \<le> w_Bytes w" "w_Count w \<le> cost w" "w_ErrorCount w \<le> cost w" "w_Bytes w \<le> cost w" using ok by (simp_all add: cost_def)
  let ?goal = "incremented (h ''count'') (w_Count w) = Inr (ds_Count (dr_state (record_or_new u d ro)) + w_Count w) \<and>
    incremented (h ''error_count'') (w_ErrorCount w) = Inr (ds_ErrorCount (dr_state (record_or_new u d ro)) + w_ErrorCount w) \<and>
    incremented (h ''bytes'') (w_Bytes w) = Inr (ds_Bytes (dr_state (record_or_new u d ro)) + w_Bytes w) \<and>
    stored_number ''-1'' (h ''last_window_id'') = Some (shown_window ro) \<and> stored_number ''0'' (h ''percentile_sample'') = Some (shown_sample ro)"
  have "?goal \<and> represents ends (K + cost w) u d (apply_to_record w (record_or_new u d ro)) (applied_fields st now w (shown_window ro) (shown_sample ro) (record_or_new u d ro) h)"
  proof (cases ro)
    case None
    have ?goal using None assms c
      by (simp add: fields_sim_def record_or_new_def new_record_def zero_DeviceState_def incremented_missing stored_number_def shown_window_def shown_sample_def tonumber_missing)
    moreover have "cost w \<le> MaxInt64" using assms(3,4) by simp
    ultimately show ?thesis using represents_mono[OF new_fields_represent[OF assms(2)], of "K + cost w" u d st now] assms(1,3) None
      by (simp add: fields_sim_def record_or_new_def shown_window_def shown_sample_def)
  next
    case (Some r)
    then have r: "represents ends K u d r h" using assms(1) by (simp add: fields_sim_def)
    note rep = r[unfolded represents_def Let_def]
    have ?goal using rep c assms(4) Some by (simp add: record_or_new_def incremented_exact stored_number_def shown_window_def shown_sample_def tonumber_exact)
    with applied_fields_represent[OF r assms(2,4), of st now] Some show ?thesis by (simp add: record_or_new_def shown_window_def shown_sample_def)
  qed
  then show "incremented (h ''count'') (w_Count w) = Inr (ds_Count (dr_state (record_or_new u d ro)) + w_Count w)"
    "incremented (h ''error_count'') (w_ErrorCount w) = Inr (ds_ErrorCount (dr_state (record_or_new u d ro)) + w_ErrorCount w)"
    "incremented (h ''bytes'') (w_Bytes w) = Inr (ds_Bytes (dr_state (record_or_new u d ro)) + w_Bytes w)"
    "stored_number ''-1'' (h ''last_window_id'') = Some (shown_window ro)" "stored_number ''0'' (h ''percentile_sample'') = Some (shown_sample ro)"
    "represents ends (K + cost w) u d (apply_to_record w (record_or_new u d ro)) (applied_fields st now w (shown_window ro) (shown_sample ro) (record_or_new u d ro) h)"
    by blast+
qed

lemma sim_window_at:
  assumes "sim ends st N0 T0 K ks M" and "plain (ck_UserID (w_Key w))"
  obtains h z where "hash_at (stateKey (rs_namespace st) (ck_UserID (w_Key w)) (ck_DeviceID (w_Key w))) ks = Some h"
    and "fields_sim ends K (ck_UserID (w_Key w)) (ck_DeviceID (w_Key w)) (M (dkey w)) h"
    and "zset_at (dedupeKey (rs_namespace st) (ck_UserID (w_Key w)) (ck_DeviceID (w_Key w))) ks = Some z" and "dom z = dr_applied (stored w M)" and "\<forall>m x. z m = Some x \<longrightarrow> N0 \<le> x"
proof -
  have r: "record_or_new (ck_UserID (w_Key w)) (ck_DeviceID (w_Key w)) (M (dkey w)) = stored w M" by (simp add: record_or_new_def stored_def)
  have "dev_sim ends st N0 T0 K ks (ck_UserID (w_Key w)) (ck_DeviceID (w_Key w)) (M (dkey w))" using assms by (simp add: sim_def dkey_def)
  from dev_sim_at[OF this] show ?thesis using that by (metis r)
qed

lemma window_script_known:
  assumes "sim ends st N0 T0 K ks M" and "plain (ck_UserID (w_Key w))" and "Identity w \<in> dr_applied (stored w M)"
  shows "window_script documented st now w ks = (Inr 0, ks)"
proof -
  from assms(1,2) obtain z where "zset_at (dedupeKey (rs_namespace st) (ck_UserID (w_Key w)) (ck_DeviceID (w_Key w))) ks = Some z" "dom z = dr_applied (stored w M)" by (rule sim_window_at)
  then show ?thesis using assms(3) by (auto simp: window_script_def Let_def window_args_def intro!: applyWindow_seen)
qed

lemma window_script_sim:
  assumes "sim ends st N0 T0 K ks M" and "window_ok ends w" and "0 \<le> K" and "K + cost w \<le> MaxInt64" and "period_ok st N0" and "in_period st N0 now"
  shows "\<exists>x ks'. window_script documented st now w ks = (Inr x, ks') \<and>
    (if Identity w \<in> dr_applied (stored w M) then ks' = ks else sim ends st N0 T0 (K + cost w) ks' (with_window w M))"
proof -
  let ?ns = "rs_namespace st" and ?u = "ck_UserID (w_Key w)" and ?d = "ck_DeviceID (w_Key w)" and ?a = "window_args st now w" and ?r = "stored w M"
  let ?sk = "stateKey ?ns ?u ?d" and ?dk = "dedupeKey ?ns ?u ?d" and ?vk = "devicesKey ?ns ?u"
  have u: "plain ?u" using assms(2) by (simp add: window_ok_def)
  have devs: "set_at ?vk ks = Some {d. M (deviceKey ?u d) \<noteq> None}" using assms(1) u by (simp add: sim_def)
  have r: "record_or_new ?u ?d (M (dkey w)) = ?r" by (simp add: record_or_new_def stored_def)
  from assms(1) u obtain h z where at: "hash_at ?sk ks = Some h" "zset_at ?dk ks = Some z" "dom z = dr_applied ?r" "\<forall>m x. z m = Some x \<longrightarrow> N0 \<le> x"
    and fields: "fields_sim ends K ?u ?d (M (dkey w)) h" by (rule sim_window_at)
  show ?thesis
  proof (cases "Identity w \<in> dr_applied ?r")
    case True
    with window_script_known[OF assms(1) u] show ?thesis by simp
  next
    case False
    note nums = fields_sim_numbers(1-5)[OF fields assms(2-4), unfolded r] and rep = fields_sim_numbers(6)[OF fields assms(2-4), of st now, unfolded r]
    have lua: "lua_number (aa_now ?a) = now div second" "lua_number (aa_ttl ?a) = ttl_seconds st" "lua_number (now div second - ttl_seconds st) = now div second - ttl_seconds st"
      using assms(5,6) by (auto intro!: lua_number_exact simp: window_args_def period_ok_def in_period_def)
    let ?z = "z(aa_identity ?a \<mapsto> now div second)"
    have scores: "\<forall>m y. ?z m = Some y \<longrightarrow> N0 \<le> y" using at(4) assms(6) by (auto simp: in_period_def)
    then have "\<forall>m y. ?z m = Some y \<longrightarrow> now div second - ttl_seconds st < y" using assms(6) by (force simp: in_period_def)
    then have young: "\<forall>m y. (z(aa_identity ?a \<mapsto> lua_number (aa_now ?a))) m = Some y \<longrightarrow> lua_number (lua_number (aa_now ?a) - lua_number (aa_ttl ?a)) < y" by (simp only: lua)
    have fresh: "z (aa_identity ?a) = None" using False at(3) by (auto simp: window_args_def)
    have args: "0 < aa_ttl ?a" "aa_count ?a = w_Count w" "aa_errorCount ?a = w_ErrorCount w" "aa_bytes ?a = w_Bytes w" "aa_deviceID ?a = ?d" "aa_ttl ?a = ttl_seconds st"
      using assms(5) by (simp_all add: window_args_def period_ok_def)
    let ?ks = "ks\<lparr>kv_keys := (kv_keys ks)(?dk \<mapsto> RZset ?z, ?vk \<mapsto> RSet (insert ?d {d. M (deviceKey ?u d) \<noteq> None}),
        ?sk \<mapsto> RHash (applied_fields st now w (shown_window (M (dkey w))) (shown_sample (M (dkey w))) ?r h)),
      kv_deadline := (kv_deadline ks)(?dk \<mapsto> kv_clock ks + ttl_seconds st * 1000), kv_published := kv_published ks @ [(updatesChannel ?ns ?u ?d, AppendInt (aa_windowID ?a))]\<rparr>"
    have run: "window_script documented st now w ks = (Inr 1, ?ks)"
      unfolding window_script_def Let_def applied_fields_def
      by (subst applyWindow_new[OF at(1,2) devs _ _ _ fresh args(1) young nums(1-3)[folded args(2-4)] nums(4,5)]) (simp_all add: lua(1) args)
    have "dom ?z = dr_applied (apply_to_record w ?r)" using at(3) by (auto simp: applied_apply window_args_def)
    moreover have "K \<le> K + cost w" using assms(2) by (simp add: window_ok_def cost_def)
    ultimately have "sim ends st N0 T0 (K + cost w) ?ks (M(deviceKey ?u ?d \<mapsto> apply_to_record w ?r))"
      by (intro window_state_sim[where z = ?z and ks' = ?ks, OF assms(1) u _ rep _ scores]) simp_all
    moreover have "with_window w M = M(deviceKey ?u ?d \<mapsto> apply_to_record w ?r)" using False by (simp add: with_window_def dkey_def)
    ultimately show ?thesis using False run by (simp only: if_False) blast
  qed
qed

lemma reset_script_sim:
  assumes "sim ends st N0 T0 K ks M" and "plain u"
  shows "\<exists>x ks'. resetDevice documented (stateKey (rs_namespace st) u d) ch ks = (Inr x, ks') \<and> (x = 0 \<longleftrightarrow> M (deviceKey u d) = None) \<and> sim ends st N0 T0 K ks' (with_reset u d M)"
proof -
  let ?sk = "stateKey (rs_namespace st) u d"
  note sim = assms(1)[unfolded sim_def]
  have dev: "dev_sim ends st N0 T0 K ks u d (M (deviceKey u d))" using sim assms(2) by simp
  show ?thesis
  proof (cases "M (deviceKey u d)")
    case None
    with dev assms(1) show ?thesis by (simp add: dev_sim_def Let_def resetDevice_def call_def redis_run reply_def with_reset_def)
  next
    case (Some r)
    then obtain h where h: "kv_keys ks ?sk = Some (RHash h)" "represents ends K u d r h" using dev by (auto simp: dev_sim_def Let_def)
    let ?h = "h(''count'' \<mapsto> ''0'', ''error_count'' \<mapsto> ''0'', ''bytes'' \<mapsto> ''0'', ''p95_nanos'' \<mapsto> ''0'', ''p99_nanos'' \<mapsto> ''0'', ''percentile_sample'' \<mapsto> ''0'')"
    let ?ks = "(put ?sk (RHash ?h) ks)\<lparr>kv_published := kv_published ks @ [(ch, ''reset'')]\<rparr>"
    have at: "hash_at ?sk ks = Some h" using h(1) by (simp add: hash_at_def)
    have run: "resetDevice documented ?sk ch ks = (Inr 1, ?ks)" using h(1) by (simp add: resetDevice_def call_def redis_run at reply_def) (simp add: put_def)
    have "dev_sim ends st N0 T0 K ?ks u' d' ((M(deviceKey u d \<mapsto> reset_record r)) (deviceKey u' d'))" if "plain u'" for u' d'
    proof (cases "u' = u \<and> d' = d")
      case True
      have "dr_applied (reset_record r) = dr_applied r" by (simp add: reset_record_def)
      with True dev Some reset_fields_represent[OF h(2)] show ?thesis by (auto simp: dev_sim_def Let_def put_def)
    next
      case False
      with that assms(2) have "deviceKey u' d' \<noteq> deviceKey u d" "stateKey (rs_namespace st) u' d' \<noteq> ?sk" by (auto simp: deviceKey_iff stateKey_inj)
      moreover from this have "dev_sim ends st N0 T0 K ?ks u' d' ro = dev_sim ends st N0 T0 K ks u' d' ro" for ro by (intro dev_sim_cong) (simp_all add: put_def)
      ultimately show ?thesis using sim that by simp
    qed
    moreover have "set_at (devicesKey (rs_namespace st) u') ?ks = set_at (devicesKey (rs_namespace st) u') ks" for u' by (simp add: redis_run)
    moreover have "{d'. (M(deviceKey u d \<mapsto> reset_record r)) (deviceKey u' d') \<noteq> None} = {d'. M (deviceKey u' d') \<noteq> None}" for u' using Some by auto
    moreover have "kv_clock ?ks = kv_clock ks" "kv_deadline ?ks = kv_deadline ks" by (simp_all add: put_def)
    ultimately have "sim ends st N0 T0 K ?ks (M(deviceKey u d \<mapsto> reset_record r))" unfolding sim_def using sim by simp
    with run Some show ?thesis by (simp add: with_reset_def)
  qed
qed

lemma metrics_sim:
  assumes "sim ends st N0 T0 K ks M" and "k = rs_namespace st @ '':metrics''"
  shows "sim ends st N0 T0 K (snd (rd_HINCRBY documented k name delta ks)) M"
proof -
  have "snd (rd_HINCRBY documented k name delta ks) = ks \<or> (\<exists>v. snd (rd_HINCRBY documented k name delta ks) = put k v ks)"
    by (auto simp: documented_def typed_def split: option.split sum.split)
  then show ?thesis using sim_put[OF assms] assms(1) by auto
qed

section \<open>Calls\<close>

text \<open>A script that may run any number of times, of which every run takes \<open>A\<close> or \<open>B\<close> to \<open>B\<close>.\<close>

lemma exchange_once:
  assumes "exchange rd nt c s = (res, s')" and "A s" and "\<And>t s. t \<in> net_times nt \<Longrightarrow> A s \<or> B s \<Longrightarrow> A (rd_advance rd t s) \<or> B (rd_advance rd t s)"
    and "\<And>s. A s \<or> B s \<Longrightarrow> \<exists>x s'. c s = (Inr x, s') \<and> B s' \<and> Q x"
  shows "(A s' \<or> B s') \<and> (\<forall>x. res = Inr x \<longrightarrow> B s' \<and> Q x) \<and> (\<forall>err. res = Inl err \<longrightarrow> nt_error nt = Some err)"
proof -
  let ?P = "\<lambda>s. A s \<or> B s"
  have step: "?P (snd (c s))" if "?P s" for s using assms(4)[OF that] by auto
  have all: "?P (snd (exchange rd (nt\<lparr>nt_error := e\<rparr>) c s))" for e
    by (rule exchange_induct[where P = ?P]) (use assms(2,3) step in \<open>auto simp: net_times_def\<close>)
  let ?s0 = "fold (attempt rd c) (take (Suc MaxRetries) (nt_failed nt)) s"
  have "?P ?s0" using all[of "Some undefined"] by (simp add: exchange_def)
  then have "?P (rd_advance rd (nt_at nt) ?s0)" using assms(3)[of "nt_at nt"] by (simp add: net_times_def)
  from assms(4)[OF this] \<open>?P ?s0\<close> assms(1) show ?thesis by (auto simp: exchange_def Let_def split: option.splits)
qed

lemma seen_HINCRBY: "redis_ok view rd \<Longrightarrow> seen view (rd_HINCRBY rd k f d) (rd_HINCRBY documented k f d)"
  by (simp add: redis_ok_def)

lemma seen_window_script: "redis_ok view rd \<Longrightarrow> seen view (window_script rd st now w) (window_script documented st now w)"
  unfolding window_script_def Let_def applyWindow_def apply_latest_def set_last_seen_def by (intro server_seen) (simp_all add: redis_ok_def)

lemma seen_resetDevice: "redis_ok view rd \<Longrightarrow> seen view (resetDevice rd k1 k2) (resetDevice documented k1 k2)"
  unfolding resetDevice_def by (intro server_seen) (simp_all add: redis_ok_def)

definition timely :: "'m RedisStore \<Rightarrow> int \<Rightarrow> net \<Rightarrow> bool" where
  "timely st T0 nt \<longleftrightarrow> nt_at nt < horizon st T0 \<and> (\<forall>t. Some t \<in> set (nt_failed nt) \<longrightarrow> t < horizon st T0)"

lemma timely_times: "timely st T0 nt \<Longrightarrow> t \<in> net_times nt \<Longrightarrow> t < horizon st T0"
  by (auto simp: timely_def net_times_def)

lemma Increment_sim:
  assumes "redis_ok view rd" and "rs_metricsKey st = rs_namespace st @ '':metrics''" and "timely st T0 nt" and "sim ends st N0 T0 K (view (fst s)) M"
  shows "sim ends st N0 T0 K (view (fst (redis_Increment rd st nt name delta s))) M"
proof (cases "rs_recorder st")
  case None
  let ?c = "\<lambda>rd. rd_HINCRBY rd (rs_metricsKey st) name delta"
  obtain res r where ex: "exchange rd nt (?c rd) (fst s) = (res, r)" by fastforce
  have "sim ends st N0 T0 K (snd (exchange documented nt (?c documented) (view (fst s)))) M"
    by (rule exchange_induct[where P = "\<lambda>ks. sim ends st N0 T0 K ks M"]) (auto intro: metrics_sim sim_advance timely_times assms)
  with exchange_documented[OF assms(1) seen_HINCRBY[OF assms(1)] ex] None ex show ?thesis by (simp add: redis_Increment_def IncrementInRedis_def)
qed (simp add: redis_Increment_def assms(4))

lemma ApplyWindow_sim:
  assumes "redis_ok view rd" and "rs_metricsKey st = rs_namespace st @ '':metrics''" and "\<forall>i. timely st T0 (nt i)" and "sim ends st N0 T0 K (view (fst s)) M"
    and "window_ok ends w" and "0 \<le> K" and "K + cost w \<le> MaxInt64" and "period_ok st N0" and "in_period st N0 now" and "redis_ApplyWindow rd st nt now w s = (e, s')"
  shows "(sim ends st N0 T0 (K + cost w) (view (fst s')) M \<and> e \<noteq> None) \<or> sim ends st N0 T0 (K + cost w) (view (fst s')) (with_window w M)"
    and "e \<noteq> Some ErrRedisDeviceNotFound"
proof -
  let ?A = "\<lambda>ks. sim ends st N0 T0 K ks M" and ?B = "\<lambda>ks. sim ends st N0 T0 (K + cost w) ks (with_window w M)"
  obtain res r where ex: "exchange rd (nt 0) (window_script rd st now w) (fst s) = (res, r)" by fastforce
  have c: "K \<le> K + cost w" using assms(5) by (simp add: window_ok_def cost_def)
  have adv: "?A (rd_advance documented t ks) \<or> ?B (rd_advance documented t ks)" if "t \<in> net_times (nt 0)" "?A ks \<or> ?B ks" for t ks
    using that sim_advance timely_times[of st T0 "nt 0" t] assms(3) by blast
  have run: "\<exists>x ks'. window_script documented st now w ks = (Inr x, ks') \<and> ?B ks' \<and> True" if "?A ks \<or> ?B ks" for ks
  proof (cases "?B ks")
    case True
    have "plain (ck_UserID (w_Key w))" using assms(5) by (simp add: window_ok_def)
    from window_script_known[OF True this stored_with_window] have "window_script documented st now w ks = (Inr 0, ks)" .
    with True show ?thesis by simp
  next
    case False
    with that have "?A ks" by simp
    from window_script_sim[OF this assms(5-9)] sim_mono[OF \<open>?A ks\<close> c] show ?thesis
      by (cases "Identity w \<in> dr_applied (stored w M)") (auto simp: with_window_known)
  qed
  from exchange_once[where A = ?A and B = ?B and Q = "\<lambda>_. True", OF exchange_documented[OF assms(1) seen_window_script[OF assms(1)] ex] assms(4) adv run]
  have AB: "?A (view r) \<or> ?B (view r)" and B: "\<And>x. res = Inr x \<Longrightarrow> ?B (view r)" by auto
  show "(sim ends st N0 T0 (K + cost w) (view (fst s')) M \<and> e \<noteq> None) \<or> ?B (view (fst s'))"
  proof (cases res)
    case (Inl err)
    with ex AB sim_mono[OF _ c] assms(10) show ?thesis by (auto simp: redis_ApplyWindow_def)
  next
    case (Inr x)
    have inc: "?B (view (fst (redis_Increment rd st (nt i) name delta p)))" if "?B (view (fst p))" for i name delta p
      using Increment_sim[OF assms(1,2) _ that] assms(3) by blast
    from Inr B have "?B (view (fst (r, snd s)))" by simp
    with Inr ex assms(10) show ?thesis by (auto simp: redis_ApplyWindow_def split: if_splits intro!: inc)
  qed
  show "e \<noteq> Some ErrRedisDeviceNotFound" using assms(10) ex
    by (auto simp: redis_ApplyWindow_def ErrRedisDeviceNotFound_def split: sum.splits if_splits)
qed

lemma ResetDevice_sim:
  assumes "redis_ok view rd" and "rs_metricsKey st = rs_namespace st @ '':metrics''" and "\<forall>i. timely st T0 (nt i)" and "sim ends st N0 T0 K (view (fst s)) M"
    and "plain u" and "redis_ResetDevice rd st nt u d s = (e, s')"
  shows "(sim ends st N0 T0 K (view (fst s')) M \<and> e \<noteq> None) \<or> sim ends st N0 T0 K (view (fst s')) (with_reset u d M)"
    and "e = None \<Longrightarrow> M (deviceKey u d) \<noteq> None" and "e = Some ErrRedisDeviceNotFound \<Longrightarrow> M (deviceKey u d) = None"
proof -
  let ?A = "\<lambda>ks. sim ends st N0 T0 K ks M" and ?B = "\<lambda>ks. sim ends st N0 T0 K ks (with_reset u d M)"
  let ?c = "\<lambda>rd. resetDevice rd (stateKey (rs_namespace st) u d) (updatesChannel (rs_namespace st) u d)"
  obtain res r where ex: "exchange rd (nt 0) (?c rd) (fst s) = (res, r)" by fastforce
  have adv: "?A (rd_advance documented t ks) \<or> ?B (rd_advance documented t ks)" if "t \<in> net_times (nt 0)" "?A ks \<or> ?B ks" for t ks
    using that sim_advance timely_times[of st T0 "nt 0" t] assms(3) by blast
  have twice: "with_reset u d (with_reset u d M) = with_reset u d M" "(with_reset u d M (deviceKey u d) = None) = (M (deviceKey u d) = None)"
    by (simp_all add: with_reset_def reset_record_def split: option.split)
  have run: "\<exists>x ks'. ?c documented ks = (Inr x, ks') \<and> ?B ks' \<and> (x = 0 \<longleftrightarrow> M (deviceKey u d) = None)" if "?A ks \<or> ?B ks" for ks
    using that reset_script_sim[OF _ assms(5)] twice by metis
  from exchange_once[where A = ?A and B = ?B and Q = "\<lambda>x. x = 0 \<longleftrightarrow> M (deviceKey u d) = None", OF exchange_documented[OF assms(1) seen_resetDevice[OF assms(1)] ex] assms(4) adv run]
  have AB: "?A (view r) \<or> ?B (view r)" and B: "\<And>x. res = Inr x \<Longrightarrow> ?B (view r) \<and> (x = 0 \<longleftrightarrow> M (deviceKey u d) = None)" by auto
  have inc: "?B (view (fst (redis_Increment rd st (nt 1) MetricDeviceResets 1 (r, snd s))))" if "?B (view r)"
    using Increment_sim[OF assms(1,2), of T0 "nt 1"] assms(3) that by simp
  show "(?A (view (fst s')) \<and> e \<noteq> None) \<or> ?B (view (fst s'))" using assms(6) ex AB B inc
    by (cases res) (auto simp: redis_ResetDevice_def split: if_splits)
  show "e = None \<Longrightarrow> M (deviceKey u d) \<noteq> None" using assms(6) ex B by (auto simp: redis_ResetDevice_def split: sum.splits if_splits)
  show "e = Some ErrRedisDeviceNotFound \<Longrightarrow> M (deviceKey u d) = None" using assms(6) ex B
    by (auto simp: redis_ResetDevice_def ErrRedisDeviceNotFound_def split: sum.splits if_splits)
qed

section \<open>Runs\<close>

text \<open>A run of a store: the calls of its writers, each with what it met on the network. The in-memory store follows it, acting for the calls that did.\<close>

datatype store_call = Put "nat \<Rightarrow> net" time AggregateWindow | Reset "nat \<Rightarrow> net" string string

definition redis_call :: "'r redis \<Rightarrow> 'm RedisStore \<Rightarrow> store_call \<Rightarrow> 'r \<times> 'm \<Rightarrow> error option \<times> ('r \<times> 'm)" where
  "redis_call rd st c s = (case c of Put nt now w \<Rightarrow> redis_ApplyWindow rd st nt now w s | Reset nt u d \<Rightarrow> redis_ResetDevice rd st nt u d s)"

definition memory_call :: "store_call \<Rightarrow> Memory \<Rightarrow> error option \<times> Memory" where
  "memory_call c m = (case c of Put nt now w \<Rightarrow> ApplyWindow None w m | Reset nt u d \<Rightarrow> ResetDevice None u d m)"

fun redis_calls :: "'r redis \<Rightarrow> 'm RedisStore \<Rightarrow> store_call list \<Rightarrow> 'r \<times> 'm \<Rightarrow> error option list \<times> ('r \<times> 'm)" where
  "redis_calls rd st [] s = ([], s)"
| "redis_calls rd st (c # cs) s = (let (e, s1) = redis_call rd st c s; (es, s2) = redis_calls rd st cs s1 in (e # es, s2))"

text \<open>\<open>follows cs es as m m'\<close>: doing in \<open>m\<close> the calls of \<open>cs\<close> that \<open>as\<close> marks gives \<open>m'\<close>. A call that returned no error is marked and succeeds here too, and one that found no device finds none here.\<close>

fun follows :: "store_call list \<Rightarrow> error option list \<Rightarrow> bool list \<Rightarrow> Memory \<Rightarrow> Memory \<Rightarrow> bool" where
  "follows [] [] [] m m' \<longleftrightarrow> m' = m"
| "follows (c # cs) (e # es) (a # as) m m' \<longleftrightarrow>
     (e = None \<longrightarrow> a \<and> fst (memory_call c m) = None) \<and> (e = Some ErrRedisDeviceNotFound \<longrightarrow> fst (memory_call c m) = Some ErrStoreDeviceNotFound) \<and>
     follows cs es as (if a then snd (memory_call c m) else m) m'"
| "follows _ _ _ _ _ \<longleftrightarrow> False"

definition call_ok :: "(int \<Rightarrow> time) \<Rightarrow> 'm RedisStore \<Rightarrow> int \<Rightarrow> int \<Rightarrow> store_call \<Rightarrow> bool" where
  "call_ok ends st N0 T0 c \<longleftrightarrow>
     (case c of Put nt now w \<Rightarrow> (\<forall>i. timely st T0 (nt i)) \<and> window_ok ends w \<and> in_period st N0 now | Reset nt u d \<Rightarrow> (\<forall>i. timely st T0 (nt i)) \<and> plain u)"

definition call_cost :: "store_call \<Rightarrow> int" where
  "call_cost c = (case c of Put nt now w \<Rightarrow> cost w | Reset nt u d \<Rightarrow> 0)"

text \<open>The index of the in-memory store lists the devices it has.\<close>

definition indexed :: "Memory \<Rightarrow> bool" where
  "indexed m \<longleftrightarrow> (\<forall>u. plain u \<longrightarrow> (let l = (case mem_byUser m u of Some l \<Rightarrow> l | None \<Rightarrow> []) in distinct l \<and> set l = {d. mem_devices m (deviceKey u d) \<noteq> None}))"

lemma memory_devices:
  "mem_devices (snd (ApplyWindow None w m)) = with_window w (mem_devices m)" "mem_devices (snd (ResetDevice None u d m)) = with_reset u d (mem_devices m)"
  by (simp_all add: ApplyWindow_devices with_window_def stored_def record_of_def ResetDevice_def Let_def with_reset_def split: option.split)

lemma indexed_ApplyWindow:
  assumes "indexed m" and "plain (ck_UserID (w_Key w))"
  shows "indexed (snd (ApplyWindow None w m))"
proof -
  let ?u = "ck_UserID (w_Key w)" and ?d = "ck_DeviceID (w_Key w)"
  have by_user: "mem_byUser (snd (ApplyWindow None w m)) = (if mem_devices m (dkey w) = None then mem_byUser (register ?u ?d m) else mem_byUser m)"
    by (auto simp: ApplyWindow_def find_record_def dkey_def Let_def register_def split: option.split)
  have "(let l = (case mem_byUser (snd (ApplyWindow None w m)) u of Some l \<Rightarrow> l | None \<Rightarrow> []) in distinct l \<and> set l = {d. with_window w (mem_devices m) (deviceKey u d) \<noteq> None})" if "plain u" for u
  proof -
    define l where "l = (case mem_byUser m u of Some l \<Rightarrow> l | None \<Rightarrow> [])"
    have l: "distinct l" "set l = {d. mem_devices m (deviceKey u d) \<noteq> None}" using assms(1) that by (simp_all add: indexed_def Let_def l_def)
    have "{d. with_window w (mem_devices m) (deviceKey u d) \<noteq> None} = (if u = ?u then insert ?d (set l) else set l)"
      using that assms(2) by (auto simp: with_window_def dkey_def deviceKey_iff l(2))
    moreover have "(case mem_byUser (snd (ApplyWindow None w m)) u of Some l \<Rightarrow> l | None \<Rightarrow> []) = (if u = ?u \<and> ?d \<notin> set l then l @ [?d] else l)"
    proof (cases "u = ?u")
      case True
      then have "?d \<in> set l \<longleftrightarrow> mem_devices m (dkey w) \<noteq> None" using l(2) by (simp add: dkey_def)
      moreover have "(case mem_byUser (register ?u ?d m) u of Some l \<Rightarrow> l | None \<Rightarrow> []) = (if ?d \<in> set l then l else l @ [?d])" unfolding True l_def register_def Let_def by simp
      ultimately show ?thesis using True by (auto simp: by_user l_def)
    next
      case False
      then show ?thesis by (simp add: by_user register_def Let_def l_def)
    qed
    ultimately show ?thesis using l(1) by (auto simp: Let_def)
  qed
  then show ?thesis by (simp add: indexed_def memory_devices)
qed

lemma indexed_ResetDevice: "indexed m \<Longrightarrow> indexed (snd (ResetDevice None u d m))"
proof -
  have "mem_byUser (snd (ResetDevice None u d m)) = mem_byUser m" by (simp add: ResetDevice_def Let_def split: option.split)
  moreover have "with_reset u d M k = None \<longleftrightarrow> M k = None" for M k by (auto simp: with_reset_def split: option.split)
  ultimately show "indexed m \<Longrightarrow> ?thesis" by (simp add: indexed_def memory_devices)
qed

lemma calls_sim:
  assumes "redis_ok view rd" and "rs_metricsKey st = rs_namespace st @ '':metrics''" and "period_ok st N0" and "\<forall>c \<in> set cs. call_ok ends st N0 T0 c"
    and "sim ends st N0 T0 K (view (fst s)) (mem_devices m)" and "0 \<le> K" and "K + sum_list (map call_cost cs) \<le> MaxInt64" and "indexed m" and "redis_calls rd st cs s = (es, s')"
  shows "\<exists>as m' K'. follows cs es as m m' \<and> sim ends st N0 T0 K' (view (fst s')) (mem_devices m') \<and> K' \<le> MaxInt64 \<and> indexed m'"
  using assms(4-9)
proof (induction cs arbitrary: K s m es)
  case Nil
  then have "follows [] es [] m m \<and> sim ends st N0 T0 K (view (fst s')) (mem_devices m) \<and> K \<le> MaxInt64 \<and> indexed m" by simp
  then show ?case by blast
next
  case (Cons c cs)
  obtain e s1 es1 where run: "redis_call rd st c s = (e, s1)" "redis_calls rd st cs s1 = (es1, s')" "es = e # es1"
    using Cons.prems(6) by (auto simp: Let_def split: prod.splits)
  have "0 \<le> call_cost x" if "x \<in> set (c # cs)" for x using Cons.prems(1) that by (auto simp: call_ok_def call_cost_def window_ok_def cost_def split: store_call.splits dest!: bspec)
  then have costs: "0 \<le> call_cost c" "0 \<le> sum_list (map call_cost cs)" by (simp, intro sum_list_nonneg) auto
  have ok: "call_ok ends st N0 T0 c" using Cons.prems(1) by simp
  have "\<exists>a. (e = None \<longrightarrow> a \<and> fst (memory_call c m) = None) \<and> (e = Some ErrRedisDeviceNotFound \<longrightarrow> fst (memory_call c m) = Some ErrStoreDeviceNotFound) \<and>
    sim ends st N0 T0 (K + call_cost c) (view (fst s1)) (mem_devices (if a then snd (memory_call c m) else m)) \<and> indexed (if a then snd (memory_call c m) else m)"
  proof (cases c)
    case (Put nt now w)
    with ok have w: "\<forall>i. timely st T0 (nt i)" "window_ok ends w" "in_period st N0 now" by (simp_all add: call_ok_def)
    have step: "redis_ApplyWindow rd st nt now w s = (e, s1)" using run(1) Put by (simp add: redis_call_def)
    have "call_cost c = cost w" using Put by (simp add: call_cost_def)
    then have le: "K + cost w \<le> MaxInt64" using Cons.prems(4) costs by simp
    note sim = ApplyWindow_sim[OF assms(1,2) w(1) Cons.prems(2) w(2) Cons.prems(3) le assms(3) w(3) step]
    have "plain (ck_UserID (w_Key w))" using w(2) by (simp add: window_ok_def)
    note idx = indexed_ApplyWindow[OF Cons.prems(5) this]
    have "fst (ApplyWindow None w m) = None" by (rule memory.write_live)
    then show ?thesis using sim idx Cons.prems(5) Put memory_devices(1)[of w m] by (auto simp: memory_call_def call_cost_def intro: exI[of _ False] exI[of _ True])
  next
    case (Reset nt u d)
    with ok have w: "\<forall>i. timely st T0 (nt i)" "plain u" by (simp_all add: call_ok_def)
    have step: "redis_ResetDevice rd st nt u d s = (e, s1)" using run(1) Reset by (simp add: redis_call_def)
    note sim = ResetDevice_sim[OF assms(1,2) w(1) Cons.prems(2) w(2) step]
    have "fst (ResetDevice None u d m) = (if mem_devices m (deviceKey u d) = None then Some ErrStoreDeviceNotFound else None)" by (simp add: ResetDevice_def Let_def split: option.split)
    then show ?thesis using sim(1) sim(2,3) indexed_ResetDevice[OF Cons.prems(5), of u d] Cons.prems(5) Reset memory_devices(2)[of u d m]
      by (cases e) (auto simp: memory_call_def call_cost_def intro: exI[of _ False] exI[of _ True])
  qed
  then obtain a where a: "e = None \<longrightarrow> a \<and> fst (memory_call c m) = None" "e = Some ErrRedisDeviceNotFound \<longrightarrow> fst (memory_call c m) = Some ErrStoreDeviceNotFound"
    and sim: "sim ends st N0 T0 (K + call_cost c) (view (fst s1)) (mem_devices (if a then snd (memory_call c m) else m))" and idx: "indexed (if a then snd (memory_call c m) else m)" by blast
  have "0 \<le> K + call_cost c" "K + call_cost c + sum_list (map call_cost cs) \<le> MaxInt64" using Cons.prems(3,4) costs by (simp_all add: algebra_simps)
  from Cons.IH[OF _ sim this idx run(2)] Cons.prems(1) obtain as m' K' where rest: "follows cs es1 as (if a then snd (memory_call c m) else m) m'"
    "sim ends st N0 T0 K' (view (fst s')) (mem_devices m')" "K' \<le> MaxInt64" "indexed m'" by auto
  then have "follows (c # cs) es (a # as) m m'" using a run(3) by simp
  with rest show ?case by blast
qed

section \<open>Reading\<close>

text \<open>What a reader of the Redis store sees of a device state: the time it was last seen is kept in seconds.\<close>

definition in_seconds :: "error + DeviceState \<Rightarrow> error + DeviceState" where
  "in_seconds res = (case res of Inl err \<Rightarrow> Inl ErrRedisDeviceNotFound | Inr s \<Rightarrow> Inr (s\<lparr>ds_LastSeen := ds_LastSeen s div second * second\<rparr>))"

lemma parseInt_AppendInt: "in_i64 n \<Longrightarrow> parseInt (Some (AppendInt n)) = n"
  by (simp add: parseInt_def ParseInt_AppendInt)

lemma represents_read:
  assumes "represents ends K u d r h" and "K \<le> MaxInt64"
  shows "state_of_fields u d h = (dr_state r)\<lparr>ds_LastSeen := ds_LastSeen (dr_state r) div second * second\<rparr>" and "dom h \<noteq> {}"
proof -
  note rep = assms(1)[unfolded represents_def Let_def]
  have "in_i64 (ds_Count (dr_state r))" "in_i64 (ds_ErrorCount (dr_state r))" "in_i64 (ds_Bytes (dr_state r))" "in_i64 (ds_LastWindowID (dr_state r))"
    using rep assms(2) by (simp_all add: in_i64_def MinInt64_def MaxInt64_def)
  moreover have "ParseRFC3339 (FormatRFC3339 (ds_LastSeen (dr_state r))) = Some (ds_LastSeen (dr_state r) div second * second)" using rep by (intro Parse_Format) simp
  ultimately show "state_of_fields u d h = (dr_state r)\<lparr>ds_LastSeen := ds_LastSeen (dr_state r) div second * second\<rparr>"
    using rep by (simp add: state_of_fields_def parseInt_AppendInt Format_nonempty)
  show "dom h \<noteq> {}" using rep by auto
qed

lemma exchange_read:
  assumes "exchange documented nt c s = (res, s')" and "nt_error nt = None" and "timely st T0 nt" and "sim ends st N0 T0 K s M" and "\<And>ks. sim ends st N0 T0 K ks M \<Longrightarrow> c ks = (Inr (v ks), ks)"
  obtains ks where "res = Inr (v ks)" and "sim ends st N0 T0 K ks M"
proof -
  let ?P = "\<lambda>ks. sim ends st N0 T0 K ks M"
  have all: "?P (snd (exchange documented (nt\<lparr>nt_error := e\<rparr>) c s))" for e
    by (rule exchange_induct[where P = ?P]) (use assms(3) in \<open>auto simp: net_times_def timely_def assms(4,5) intro!: sim_advance\<close>)
  let ?s0 = "fold (attempt documented c) (take (Suc MaxRetries) (nt_failed nt)) s"
  have "?P ?s0" using all[of "Some undefined"] by (simp add: exchange_def)
  then have "?P (rd_advance documented (nt_at nt) ?s0)" using assms(3) by (intro sim_advance) (simp_all add: timely_def)
  moreover from assms(5)[OF this] have "res = Inr (v (rd_advance documented (nt_at nt) ?s0))" using assms(1,2) by (auto simp: exchange_def)
  ultimately show ?thesis using that by blast
qed

lemma DeviceState_sim:
  assumes "redis_ok view rd" and "sim ends st N0 T0 K (view r) (mem_devices m)" and "K \<le> MaxInt64" and "plain u" and "nt_error nt = None" and "timely st T0 nt"
  shows "fst (redis_DeviceState rd st nt u d r) = in_seconds (Memory_DeviceState None u d m)"
proof -
  let ?k = "stateKey (rs_namespace st) u d"
  let ?v = "\<lambda>ks. case hash_at ?k ks of Some h \<Rightarrow> h | None \<Rightarrow> Map.empty"
  have at: "\<exists>h. hash_at ?k ks = Some h \<and> fields_sim ends K u d (mem_devices m (deviceKey u d)) h" if "sim ends st N0 T0 K ks (mem_devices m)" for ks
  proof -
    have "dev_sim ends st N0 T0 K ks u d (mem_devices m (deviceKey u d))" using that assms(4) by (simp add: sim_def)
    then show ?thesis by (rule dev_sim_at) blast
  qed
  have read: "rd_HGETALL documented ?k ks = (Inr (?v ks), ks)" if "sim ends st N0 T0 K ks (mem_devices m)" for ks
    using at[OF that] by (auto simp: redis_run)
  obtain res r1 where ex: "exchange rd nt (rd_HGETALL rd ?k) r = (res, r1)" by fastforce
  have seen: "seen view (rd_HGETALL rd ?k) (rd_HGETALL documented ?k)" using assms(1) by (simp add: redis_ok_def)
  obtain ks where "res = Inr (?v ks)" and ks: "sim ends st N0 T0 K ks (mem_devices m)"
    using exchange_read[OF exchange_documented[OF assms(1) seen ex] assms(5,6,2) read] by blast
  moreover obtain h where "hash_at ?k ks = Some h" and h: "fields_sim ends K u d (mem_devices m (deviceKey u d)) h" using at[OF ks] by blast
  ultimately have run: "exchange rd nt (rd_HGETALL rd ?k) r = (Inr h, r1)" using ex by simp
  show ?thesis
  proof (cases "mem_devices m (deviceKey u d)")
    case None
    with run h show ?thesis by (simp add: redis_DeviceState_def fields_sim_def in_seconds_def Memory_DeviceState_def)
  next
    case (Some rec)
    with h have "represents ends K u d rec h" by (simp add: fields_sim_def)
    from represents_read[OF this assms(3)] run Some show ?thesis by (simp add: redis_DeviceState_def in_seconds_def Memory_DeviceState_def)
  qed
qed

lemma UserDevices_sim:
  assumes "redis_ok view rd" and "sim ends st N0 T0 K (view r) (mem_devices m)" and "indexed m" and "plain u" and "nt_error nt = None" and "timely st T0 nt"
  shows "fst (redis_UserDevices rd st nt u r) = UserDevices None u m"
proof -
  let ?k = "devicesKey (rs_namespace st) u" and ?D = "{d. mem_devices m (deviceKey u d) \<noteq> None}"
  define l where "l = (case mem_byUser m u of Some l \<Rightarrow> l | None \<Rightarrow> [])"
  have l: "distinct l" "set l = ?D" using assms(3,4) by (simp_all add: indexed_def Let_def l_def)
  have read: "rd_SMEMBERS documented ?k ks = (Inr ?D, ks)" if "sim ends st N0 T0 K ks (mem_devices m)" for ks
    using that assms(4) by (intro run_command) (simp add: sim_def)
  obtain res r1 where ex: "exchange rd nt (rd_SMEMBERS rd ?k) r = (res, r1)" by fastforce
  have seen: "seen view (rd_SMEMBERS rd ?k) (rd_SMEMBERS documented ?k)" using assms(1) by (simp add: redis_ok_def)
  have "res = Inr ?D" using exchange_read[OF exchange_documented[OF assms(1) seen ex] assms(5,6,2) read] by blast
  moreover have "sorted_list_of_set ?D = sort l" using l by (metis sorted_list_of_set_sort_remdups distinct_remdups_id)
  ultimately show ?thesis using ex by (simp add: redis_UserDevices_def UserDevices_def l_def)
qed

section \<open>Property\<close>

definition fresh_keyspace :: "'m RedisStore \<Rightarrow> int \<Rightarrow> keyspace \<Rightarrow> bool" where
  "fresh_keyspace st T0 ks \<longleftrightarrow> kv_keys ks = Map.empty \<and> kv_deadline ks = Map.empty \<and> T0 \<le> kv_clock ks \<and> kv_clock ks < horizon st T0"


text \<open>A write whose first attempt reached the server and was answered too late, a reset of a device that does not exist and one of a device that does.\<close>

definition ex_store :: "int RedisStore" where
  "ex_store = \<lparr>rs_namespace = ''ns'', rs_dedupeTTL = 100 * second, rs_metricsKey = ''ns:metrics'', rs_recorder = None\<rparr>"

definition ex_times :: "nat \<Rightarrow> net" where "ex_times i = \<lparr>nt_failed = [Some 2], nt_at = 3, nt_error = None\<rparr>"

definition ex_seen :: AggregateWindow where "ex_seen = (ex_window ''u'' 1 1)\<lparr>w_WindowEnd := 2 * second\<rparr>"

definition ex_calls :: "store_call list" where
  "ex_calls = [Put ex_times second ex_seen, Reset ex_times ''v'' ''d'', Reset ex_times ''u'' ''d'']"

definition ex_empty :: keyspace where "ex_empty = \<lparr>kv_keys = Map.empty, kv_deadline = Map.empty, kv_clock = 0, kv_published = []\<rparr>"

lemma ex_year: "four_digit_year (2 * second)"
  by code_simp


end
