(* ===== verification/RedisWatch.thy ===== *)
theory RedisWatch
  imports RedisStore Kafka
begin

text \<open>
  Watching a device and connecting to Redis (\<^verbatim>\<open>internal/redisstore/watch.go\<close> and \<^verbatim>\<open>security.go\<close>). A watch is a goroutine that reads the device on every message of a subscription and offers what it read to a
  buffered channel; its run is a function of what its selects observed and of what the subscriber received in between. The subscription is third-party code: its messages are observations.
\<close>

section \<open>Connecting\<close>

definition ErrRedisIncompleteKeyPair :: error where
  [go_error_defs]: "ErrRedisIncompleteKeyPair = Err ''redisstore: both a client certificate and key are required for mTLS''"
definition ErrRedisEmptyCABundle :: error where
  [go_error_defs]: "ErrRedisEmptyCABundle = Err ''redisstore: CA bundle contained no certificates''"
definition ErrPasswordInClear :: error where
  [go_error_defs]: "ErrPasswordInClear = Err ''redisstore: a password requires TLS so it is not sent in the clear''"

record RedisSecurity =
  rse_Enabled :: bool
  rse_CAFile :: string
  rse_CertFile :: string
  rse_KeyFile :: string
  rse_Username :: string
  rse_Password :: string
  rse_InsecureSkipVerify :: bool
  rse_ServerName :: string

definition RedisSecurity_validate :: "RedisSecurity \<Rightarrow> error option" where
  "RedisSecurity_validate s =
     (if \<not> rse_Enabled s \<and> rse_Password s \<noteq> [] then Some ErrPasswordInClear
      else if (rse_CertFile s = []) \<noteq> (rse_KeyFile s = []) then Some ErrRedisIncompleteKeyPair
      else None)"

text \<open>The options of the client that the store sets.\<close>

record ('cert, 'pool) redis_options =
  rop_Addr :: string
  rop_DialTimeout :: duration
  rop_ReadTimeout :: duration
  rop_WriteTimeout :: duration
  rop_MaxRetries :: nat
  rop_Username :: string
  rop_Password :: string
  rop_TLSConfig :: "('cert, 'pool) kafka_tls option"

definition redis_roots :: "('cert, 'pool) cert_env \<Rightarrow> RedisSecurity \<Rightarrow> error + 'pool option" where
  "redis_roots env s =
     (if rse_CAFile s = [] then Inr None
      else case ce_ReadFile env (rse_CAFile s) of
        Inl err \<Rightarrow> Inl (Wrap ''redisstore: reading CA bundle'' err)
      | Inr pem \<Rightarrow> (case ce_AppendCertsFromPEM env pem of None \<Rightarrow> Inl ErrRedisEmptyCABundle | Some pool \<Rightarrow> Inr (Some pool)))"

definition redis_certificate :: "('cert, 'pool) cert_env \<Rightarrow> RedisSecurity \<Rightarrow> error + 'cert option" where
  "redis_certificate env s =
     (if rse_CertFile s = [] then Inr None
      else case ce_LoadX509KeyPair env (rse_CertFile s) (rse_KeyFile s) of
        Inl err \<Rightarrow> Inl (Wrap ''redisstore: loading client certificate'' err)
      | Inr cert \<Rightarrow> Inr (Some cert))"

definition RedisSecurity_apply :: "('cert, 'pool) cert_env \<Rightarrow> RedisSecurity \<Rightarrow> ('cert, 'pool) redis_options \<Rightarrow> error + ('cert, 'pool) redis_options" where
  "RedisSecurity_apply env s opts =
     (case RedisSecurity_validate s of
        Some err \<Rightarrow> Inl err
      | None \<Rightarrow>
          let opts1 = opts\<lparr>rop_Username := rse_Username s, rop_Password := rse_Password s\<rparr>
          in if \<not> rse_Enabled s then Inr opts1
             else case redis_roots env s of
               Inl err \<Rightarrow> Inl err
             | Inr roots \<Rightarrow>
                 (case redis_certificate env s of
                    Inl err \<Rightarrow> Inl err
                  | Inr cert \<Rightarrow>
                      Inr (opts1\<lparr>rop_TLSConfig := Some \<lparr>kt_InsecureSkipVerify = rse_InsecureSkipVerify s, kt_ServerName = rse_ServerName s, kt_RootCAs = roots, kt_Certificate = cert\<rparr>\<rparr>)))"

definition Dial :: "('cert, 'pool) cert_env \<Rightarrow> string \<Rightarrow> RedisSecurity \<Rightarrow> error + ('cert, 'pool) redis_options" where
  "Dial env address s =
     RedisSecurity_apply env s \<lparr>rop_Addr = address, rop_DialTimeout = 3 * second, rop_ReadTimeout = 3 * second, rop_WriteTimeout = 3 * second, rop_MaxRetries = MaxRetries,
       rop_Username = [], rop_Password = [], rop_TLSConfig = None\<rparr>"

section \<open>Watching\<close>

definition ErrEmptyDeviceIdentity :: error where
  [go_error_defs]: "ErrEmptyDeviceIdentity = Err ''redisstore: user id and device id are required''"

definition redis_watchBuffer :: nat where "redis_watchBuffer = 8"

text \<open>
  The channel a watch returns: its content, whether it is closed, and what the subscriber received so far.
\<close>

record redis_watch =
  rw_updates :: "DeviceState list"
  rw_closed :: bool
  rw_received :: "DeviceState list"

definition redis_WatchDevice :: "ctx \<Rightarrow> error option \<Rightarrow> string \<Rightarrow> string \<Rightarrow> error + redis_watch" where
  "redis_WatchDevice ctx subscribe u d =
     (case ctx of Some err \<Rightarrow> Inl err
      | None \<Rightarrow>
          if u = [] \<or> d = [] then Inl ErrEmptyDeviceIdentity
          else case subscribe of
            Some err \<Rightarrow> Inl (Wrap ''redisstore: subscribing to device updates'' err)
          | None \<Rightarrow> Inr \<lparr>rw_updates = [], rw_closed = False, rw_received = []\<rparr>)"

text \<open>
  What happens next: the goroutine sees its context done, or the subscription ended, or a message; after a message it reads the device, over a network \<open>nt\<close>, finds the context done at the check after a failed read, or
  takes the branch of the done context in the second select; or the subscriber receives.
\<close>

datatype watch_event = CtxDone | SubscriptionEnded | Message net bool bool net | SubscriberReceives

definition watch_close :: "redis_watch \<Rightarrow> redis_watch" where "watch_close w = w\<lparr>rw_closed := True\<rparr>"

definition watch_offer :: "'r redis \<Rightarrow> 'm RedisStore \<Rightarrow> net \<Rightarrow> DeviceState \<Rightarrow> redis_watch \<times> ('r \<times> 'm) \<Rightarrow> redis_watch \<times> ('r \<times> 'm)" where
  "watch_offer rd st nt state ws =
     (case ws of (w, s) \<Rightarrow>
        if length (rw_updates w) < redis_watchBuffer then (w\<lparr>rw_updates := rw_updates w @ [state]\<rparr>, s)
        else (w, redis_Increment rd st nt MetricWatchDropped 1 s))"

definition watch_step :: "'r redis \<Rightarrow> 'm RedisStore \<Rightarrow> string \<Rightarrow> string \<Rightarrow> watch_event \<Rightarrow> redis_watch \<times> ('r \<times> 'm) \<Rightarrow> redis_watch \<times> ('r \<times> 'm)" where
  "watch_step rd st u d e ws =
     (case ws of (w, s) \<Rightarrow>
        case e of
          SubscriberReceives \<Rightarrow>
            (case rw_updates w of [] \<Rightarrow> (w, s) | x # xs \<Rightarrow> (w\<lparr>rw_updates := xs, rw_received := rw_received w @ [x]\<rparr>, s))
        | CtxDone \<Rightarrow> (if rw_closed w then (w, s) else (watch_close w, s))
        | SubscriptionEnded \<Rightarrow> (if rw_closed w then (w, s) else (watch_close w, s))
        | Message nt cancelled done nt' \<Rightarrow>
            if rw_closed w then (w, s)
            else (case redis_DeviceState rd st nt u d (fst s) of
                    (Inl err, r1) \<Rightarrow> (if cancelled then watch_close w else w, (r1, snd s))
                  | (Inr state, r1) \<Rightarrow> if done then (watch_close w, (r1, snd s)) else watch_offer rd st nt' state (w, (r1, snd s))))"

definition watch_run :: "'r redis \<Rightarrow> 'm RedisStore \<Rightarrow> string \<Rightarrow> string \<Rightarrow> watch_event list \<Rightarrow> redis_watch \<times> ('r \<times> 'm) \<Rightarrow> redis_watch \<times> ('r \<times> 'm)" where
  "watch_run rd st u d es ws = fold (watch_step rd st u d) es ws"

section \<open>Lemmas\<close>

text \<open>Every state a subscriber gets, or will get, was read from the store, in the order read, and the buffer is bounded.\<close>

definition reads_of :: "'r redis \<Rightarrow> 'm RedisStore \<Rightarrow> string \<Rightarrow> string \<Rightarrow> DeviceState set" where
  "reads_of rd st u d = {x. \<exists>nt r. fst (redis_DeviceState rd st nt u d r) = Inr x}"

lemma watch_run_bounded:
  assumes "watch_run rd st u d es (w, s) = (w', s')" and "length (rw_updates w) \<le> redis_watchBuffer" and "set (rw_updates w) \<union> set (rw_received w) \<subseteq> reads_of rd st u d"
  shows "length (rw_updates w') \<le> redis_watchBuffer \<and> set (rw_updates w') \<union> set (rw_received w') \<subseteq> reads_of rd st u d \<and> (rw_closed w \<longrightarrow> rw_closed w') \<and>
    (\<exists>new. rw_received w' @ rw_updates w' = rw_received w @ rw_updates w @ new \<and> (rw_closed w \<longrightarrow> new = []))"
  using assms
proof (induction es arbitrary: w s)
  case Nil
  then show ?case by (simp add: watch_run_def)
next
  case (Cons e es)
  obtain w1 s1 where step: "watch_step rd st u d e (w, s) = (w1, s1)" by (cases "watch_step rd st u d e (w, s)")
  have one: "length (rw_updates w1) \<le> redis_watchBuffer \<and> set (rw_updates w1) \<union> set (rw_received w1) \<subseteq> reads_of rd st u d \<and> (rw_closed w \<longrightarrow> rw_closed w1) \<and>
    (\<exists>new. rw_received w1 @ rw_updates w1 = rw_received w @ rw_updates w @ new \<and> (rw_closed w \<longrightarrow> new = []))"
  proof (cases e)
    case (Message nt cancelled "done" nt')
    obtain res r1 where read: "redis_DeviceState rd st nt u d (fst s) = (res, r1)" by fastforce
    then have "x \<in> reads_of rd st u d" if "res = Inr x" for x using that by (auto simp: reads_of_def) (metis fst_conv)
    with Message Cons.prems read step show ?thesis
      by (cases res) (auto simp: watch_step_def watch_offer_def watch_close_def split: if_splits)
  qed (use Cons.prems step in \<open>auto simp: watch_step_def watch_close_def split: list.splits if_splits\<close>)
  have "watch_run rd st u d es (w1, s1) = (w', s')" using Cons.prems(1) step by (simp add: watch_run_def)
  note rest = Cons.IH[OF this conjunct1[OF one] conjunct1[OF conjunct2[OF one]]]
  obtain a b where "rw_received w1 @ rw_updates w1 = rw_received w @ rw_updates w @ a" "rw_closed w \<longrightarrow> a = []"
    "rw_received w' @ rw_updates w' = rw_received w1 @ rw_updates w1 @ b" "rw_closed w1 \<longrightarrow> b = []" using one rest by blast
  then have "rw_received w' @ rw_updates w' = rw_received w @ rw_updates w @ (a @ b) \<and> (rw_closed w \<longrightarrow> a @ b = [])" using one by (metis append.assoc append_Nil)
  with one rest show ?case by blast
qed

lemma redis_credentials_protected:
  assumes "Dial env address s = Inr opts" and "rop_Password opts \<noteq> []"
  shows "rop_Password opts = rse_Password s \<and> (\<exists>cfg. rop_TLSConfig opts = Some cfg \<and> kt_InsecureSkipVerify cfg = rse_InsecureSkipVerify s \<and> (rse_CAFile s \<noteq> [] \<longrightarrow> kt_RootCAs cfg \<noteq> None))"
  using assms by (auto simp: Dial_def RedisSecurity_apply_def RedisSecurity_validate_def redis_roots_def Let_def dest!: sym[of "Some _"] split: if_splits option.splits sum.splits)

end
