(* ===== verification/Postgres.thy ===== *)
theory Postgres
  imports Server GoTime Services
begin

text \<open>
  The archive (\<^verbatim>\<open>internal/postgresstore\<close>): one table of windows, cut by days into partitions, with a default partition for the rest. The server is a parameter: a record of the statements the store
  sends. \<open>archive_db\<close> and the functions over it state what the SQL of the store means, \<open>postgres_ok\<close> that a server runs it so; it is a hypothesis of the properties. A call may be refused, or run with its answer lost.
\<close>

section \<open>The statements\<close>

record 'p postgres =
  pg_schema :: "('p, unit) command"
  pg_insert :: "AggregateWindow \<Rightarrow> ('p, nat) command"
  pg_sums :: "string \<Rightarrow> string \<Rightarrow> ('p, int \<times> int \<times> int \<times> int) command"
  pg_exists :: "string \<Rightarrow> string \<Rightarrow> ('p, bool) command"
  pg_latest :: "string \<Rightarrow> string \<Rightarrow> int \<Rightarrow> ('p, (int \<times> int \<times> time) option) command"
  pg_devices :: "string \<Rightarrow> ('p, string list) command"
  pg_delete :: "string \<Rightarrow> string \<Rightarrow> ('p, nat) command"
  pg_create :: "string \<Rightarrow> time \<Rightarrow> time \<Rightarrow> ('p, unit) command"
  pg_detach :: "('p, unit) command"
  pg_move :: "time \<Rightarrow> time \<Rightarrow> ('p, unit) command"
  pg_clear :: "time \<Rightarrow> time \<Rightarrow> ('p, unit) command"
  pg_attach :: "('p, unit) command"
  pg_partitions :: "('p, string list) command"
  pg_drop :: "string \<Rightarrow> ('p, unit) command"

section \<open>What they mean\<close>

record partition =
  pt_name :: string
  pt_from :: time
  pt_to :: time
  pt_rows :: "AggregateWindow list"

record archive_db =
  db_exists :: bool
  db_attached :: bool
  db_default :: "AggregateWindow list"
  db_parts :: "partition list"

definition UNDEFINEDTABLE :: error where "UNDEFINEDTABLE = Err ''relation \"aggregate_windows\" does not exist''"
definition CHECKVIOLATION :: error where "CHECKVIOLATION = Err ''updated partition constraint for default partition would be violated by some row''"
definition OVERLAP :: error where "OVERLAP = Err ''partition would overlap another partition''"
definition NOPARTITION :: error where "NOPARTITION = Err ''no partition of relation found for row''"
definition NOTATTACHED :: error where "NOTATTACHED = Err ''relation is not a partition of relation''"
definition ALREADYATTACHED :: error where "ALREADYATTACHED = Err ''relation is already a partition''"

text \<open>Timestamps have microseconds; the client cuts the rest off.\<close>

definition micros :: "time \<Rightarrow> time" where "micros t = t div 1000 * 1000"

definition stored_row :: "AggregateWindow \<Rightarrow> AggregateWindow" where
  "stored_row w = w\<lparr>w_WindowStart := micros (w_WindowStart w), w_WindowEnd := micros (w_WindowEnd w)\<rparr>"

definition primary_key :: "AggregateWindow \<Rightarrow> CorrelationKey \<times> int \<times> int \<times> time" where
  "primary_key r = (w_Key r, w_WindowID r, w_Sequence r, w_WindowStart r)"

definition holds :: "partition \<Rightarrow> time \<Rightarrow> bool" where
  "holds p t \<longleftrightarrow> pt_from p \<le> t \<and> t < pt_to p"

definition db_rows :: "archive_db \<Rightarrow> AggregateWindow list" where
  "db_rows db = (if db_attached db then db_default db else []) @ concat (map pt_rows (db_parts db))"

definition existing :: "(archive_db \<Rightarrow> (error + 'a) \<times> archive_db) \<Rightarrow> (archive_db, 'a) command" where
  "existing f db = (if db_exists db then f db else (Inl UNDEFINEDTABLE, db))"

text \<open>A row goes to the partition that holds its \<^verbatim>\<open>window_start\<close>; the key is unique there.\<close>

definition add_row :: "AggregateWindow \<Rightarrow> partition \<Rightarrow> partition" where
  "add_row r p = (if holds p (w_WindowStart r) \<and> primary_key r \<notin> primary_key ` set (pt_rows p) then p\<lparr>pt_rows := pt_rows p @ [r]\<rparr> else p)"

definition insert_row :: "AggregateWindow \<Rightarrow> (archive_db, nat) command" where
  "insert_row r db =
     (case find (\<lambda>p. holds p (w_WindowStart r)) (db_parts db) of
        Some p \<Rightarrow> (Inr (if primary_key r \<in> primary_key ` set (pt_rows p) then 0 else 1), db\<lparr>db_parts := map (add_row r) (db_parts db)\<rparr>)
      | None \<Rightarrow>
          if \<not> db_attached db then (Inl NOPARTITION, db)
          else if primary_key r \<in> primary_key ` set (db_default db) then (Inr 0, db)
          else (Inr 1, db\<lparr>db_default := db_default db @ [r]\<rparr>))"

definition of_device_rows :: "string \<Rightarrow> string \<Rightarrow> archive_db \<Rightarrow> AggregateWindow list" where
  "of_device_rows u d db = filter (\<lambda>r. ck_UserID (w_Key r) = u \<and> ck_DeviceID (w_Key r) = d) (db_rows db)"

definition sums_of :: "AggregateWindow list \<Rightarrow> int \<times> int \<times> int \<times> int" where
  "sums_of rs = (sum_list (map w_Count rs), sum_list (map w_ErrorCount rs), sum_list (map w_Bytes rs), if rs = [] then 0 else Max (set (map w_WindowID rs)))"

text \<open>\<^verbatim>\<open>ORDER BY event_count DESC, sequence DESC LIMIT 1\<close>: one of the greatest rows, which one is not said.\<close>

definition latest_row :: "AggregateWindow list \<Rightarrow> int \<Rightarrow> (int \<times> int \<times> time) option \<Rightarrow> bool" where
  "latest_row rs i answer \<longleftrightarrow>
     (let ms = filter (\<lambda>r. w_WindowID r = i) rs
      in case answer of
           None \<Rightarrow> ms = []
         | Some (p95, p99, seen_at) \<Rightarrow> \<exists>r \<in> set ms. p95 = w_P95Nanos r \<and> p99 = w_P99Nanos r \<and> seen_at = w_WindowEnd r \<and>
             (\<forall>q \<in> set ms. w_Count q < w_Count r \<or> (w_Count q = w_Count r \<and> w_Sequence q \<le> w_Sequence r)))"

definition delete_rows :: "string \<Rightarrow> string \<Rightarrow> (archive_db, nat) command" where
  "delete_rows u d db =
     (let keep = filter (\<lambda>r. \<not> (ck_UserID (w_Key r) = u \<and> ck_DeviceID (w_Key r) = d))
      in (Inr (length (of_device_rows u d db)),
          db\<lparr>db_default := (if db_attached db then keep (db_default db) else db_default db), db_parts := map (\<lambda>p. p\<lparr>pt_rows := keep (pt_rows p)\<rparr>) (db_parts db)\<rparr>))"

definition overlaps :: "time \<Rightarrow> time \<Rightarrow> partition \<Rightarrow> bool" where
  "overlaps a b p \<longleftrightarrow> a < pt_to p \<and> pt_from p < b"

definition in_range :: "time \<Rightarrow> time \<Rightarrow> AggregateWindow \<Rightarrow> bool" where
  "in_range a b r \<longleftrightarrow> a \<le> w_WindowStart r \<and> w_WindowStart r < b"

definition create_partition :: "string \<Rightarrow> time \<Rightarrow> time \<Rightarrow> (archive_db, unit) command" where
  "create_partition name a b db =
     (if name \<in> pt_name ` set (db_parts db) then (Inr (), db)
      else if list_ex (overlaps a b) (db_parts db) then (Inl OVERLAP, db)
      else if db_attached db \<and> list_ex (in_range a b) (db_default db) then (Inl CHECKVIOLATION, db)
      else (Inr (), db\<lparr>db_parts := db_parts db @ [\<lparr>pt_name = name, pt_from = a, pt_to = b, pt_rows = []\<rparr>]\<rparr>))"

definition detach_default :: "(archive_db, unit) command" where
  "detach_default db = (if db_attached db then (Inr (), db\<lparr>db_attached := False\<rparr>) else (Inl NOTATTACHED, db))"

fun move_rows :: "AggregateWindow list \<Rightarrow> (archive_db, unit) command" where
  "move_rows [] = reply ()"
| "move_rows (r # rs) = call (insert_row r) (\<lambda>_. move_rows rs)"

definition move_default :: "time \<Rightarrow> time \<Rightarrow> (archive_db, unit) command" where
  "move_default a b db = move_rows (filter (in_range a b) (db_default db)) db"

definition clear_default :: "time \<Rightarrow> time \<Rightarrow> (archive_db, unit) command" where
  "clear_default a b db = (Inr (), db\<lparr>db_default := filter (\<lambda>r. \<not> in_range a b r) (db_default db)\<rparr>)"

definition attach_default :: "(archive_db, unit) command" where
  "attach_default db =
     (if db_attached db then (Inl ALREADYATTACHED, db)
      else if list_ex (\<lambda>r. list_ex (\<lambda>p. holds p (w_WindowStart r)) (db_parts db)) (db_default db) then (Inl CHECKVIOLATION, db)
      else (Inr (), db\<lparr>db_attached := True\<rparr>))"

definition default_name :: string where "default_name = ''aggregate_windows_default''"

definition partition_names :: "archive_db \<Rightarrow> string list" where
  "partition_names db = (if db_attached db then [default_name] else []) @ map pt_name (db_parts db)"

definition drop_partition :: "string \<Rightarrow> (archive_db, unit) command" where
  "drop_partition name db = (Inr (), db\<lparr>db_parts := filter (\<lambda>p. pt_name p \<noteq> name) (db_parts db)\<rparr>)"

definition apply_schema :: "(archive_db, unit) command" where
  "apply_schema db = (Inr (), if db_exists db then db else \<lparr>db_exists = True, db_attached = True, db_default = [], db_parts = []\<rparr>)"

text \<open>A read answers something that satisfies a condition, and changes nothing.\<close>

definition answers :: "('p \<Rightarrow> archive_db) \<Rightarrow> ('p, 'a) command \<Rightarrow> (archive_db \<Rightarrow> 'a \<Rightarrow> bool) \<Rightarrow> bool" where
  "answers view c Q \<longleftrightarrow> (\<forall>s. view (snd (c s)) = view s \<and> (if db_exists (view s) then \<exists>x. fst (c s) = Inr x \<and> Q (view s) x else fst (c s) = Inl UNDEFINEDTABLE))"

definition postgres_ok :: "('p \<Rightarrow> archive_db) \<Rightarrow> 'p postgres \<Rightarrow> bool" where
  "postgres_ok view pg \<longleftrightarrow>
     seen view (pg_schema pg) apply_schema \<and> (\<forall>w. seen view (pg_insert pg w) (existing (insert_row (stored_row w)))) \<and>
     (\<forall>u d. answers view (pg_sums pg u d) (\<lambda>db x. x = sums_of (of_device_rows u d db))) \<and> (\<forall>u d. answers view (pg_exists pg u d) (\<lambda>db x. x = (of_device_rows u d db \<noteq> []))) \<and>
     (\<forall>u d i. answers view (pg_latest pg u d i) (\<lambda>db. latest_row (of_device_rows u d db) i)) \<and>
     (\<forall>u. answers view (pg_devices pg u) (\<lambda>db x. distinct x \<and> set x = {d. of_device_rows u d db \<noteq> []})) \<and>
     (\<forall>u d. seen view (pg_delete pg u d) (existing (delete_rows u d))) \<and> (\<forall>name a b. seen view (pg_create pg name a b) (existing (create_partition name a b))) \<and>
     seen view (pg_detach pg) (existing detach_default) \<and> (\<forall>a b. seen view (pg_move pg a b) (existing (move_default a b))) \<and> (\<forall>a b. seen view (pg_clear pg a b) (existing (clear_default a b))) \<and>
     seen view (pg_attach pg) (existing attach_default) \<and> answers view (pg_partitions pg) (\<lambda>db x. distinct x \<and> set x = set (partition_names db)) \<and>
     (\<forall>name. seen view (pg_drop pg name) (existing (drop_partition name)))"

section \<open>The store\<close>

definition ErrNilPool :: error where [go_error_defs]: "ErrNilPool = Err ''postgresstore: pool is nil''"
definition ErrPostgresDeviceNotFound :: error where [go_error_defs]: "ErrPostgresDeviceNotFound = Wrap ''postgresstore'' ErrDeviceNotFound"

definition MetricPostgresPersisted :: string where "MetricPostgresPersisted = ''postgres_windows_persisted''"
definition MetricPostgresDuplicate :: string where "MetricPostgresDuplicate = ''postgres_windows_duplicate''"

text \<open>What a call met: it was answered, never ran, or ran and its answer was lost. Rows that are read may end early, with an error.\<close>

datatype pg_call = Answered | Refused error | Lost error

definition pg_exec :: "pg_call \<Rightarrow> ('p, 'a) command \<Rightarrow> ('p, 'a) command" where
  "pg_exec nt c p = (case nt of Answered \<Rightarrow> c p | Refused err \<Rightarrow> (Inl err, p) | Lost err \<Rightarrow> (Inl err, snd (c p)))"

datatype pg_rows = AllRows | StopsAfter nat error | ScanFails error

definition NewPostgresStore :: "bool \<Rightarrow> 'm MetricsRecorder \<Rightarrow> error + 'm MetricsRecorder" where
  "NewPostgresStore pool metrics = (if \<not> pool then Inl ErrNilPool else Inr metrics)"

definition pg_record :: "'m MetricsRecorder \<Rightarrow> string \<Rightarrow> int \<Rightarrow> 'm \<Rightarrow> 'm" where
  "pg_record metrics name delta m = (case metrics of None \<Rightarrow> m | Some increment \<Rightarrow> increment name delta m)"

definition pg_ApplyWindow :: "'p postgres \<Rightarrow> 'm MetricsRecorder \<Rightarrow> pg_call \<Rightarrow> AggregateWindow \<Rightarrow> 'p \<times> 'm \<Rightarrow> error option \<times> ('p \<times> 'm)" where
  "pg_ApplyWindow pg metrics nt w s =
     (case pg_exec nt (pg_insert pg w) (fst s) of
        (Inl err, p1) \<Rightarrow> (Some (Wrap (''postgresstore: inserting window '' @ Identity w) err), (p1, snd s))
      | (Inr affected, p1) \<Rightarrow>
          if affected = 0 then (None, (p1, pg_record metrics MetricPostgresDuplicate 1 (snd s)))
          else (None, (p1, pg_record metrics MetricPostgresPersisted 1 (snd s))))"

text \<open>
  \<^verbatim>\<open>Scan\<close> of the sums, which are numerics of any size, into integers of 64 bits.
\<close>

definition ErrNumericRange :: error where "ErrNumericRange = Err ''can't scan into dest: value out of range''"

definition scan_sums :: "int \<times> int \<times> int \<times> int \<Rightarrow> error + int \<times> int \<times> int \<times> int" where
  "scan_sums x = (case x of (c, e, b, i) \<Rightarrow> if in_i64 c \<and> in_i64 e \<and> in_i64 b \<and> in_i64 i then Inr (c, e, b, i) else Inl ErrNumericRange)"

text \<open>
  The state of a device takes up to three queries, each with what it met; \<open>others i\<close> is what other clients did before the query \<open>i\<close>.
\<close>

definition read_percentiles :: "'p postgres \<Rightarrow> pg_call \<Rightarrow> string \<Rightarrow> string \<Rightarrow> int \<times> int \<times> int \<times> int \<Rightarrow> 'p \<Rightarrow> (error + DeviceState) \<times> 'p" where
  "read_percentiles pg nt u d totals p =
     (case totals of (c, e, b, i) \<Rightarrow>
        let state = \<lparr>ds_UserID = u, ds_DeviceID = d, ds_Count = c, ds_ErrorCount = e, ds_Bytes = b, ds_P95Nanos = 0, ds_P99Nanos = 0, ds_LastWindowID = i,
                     ds_LastSeen = zero_time, ds_Stale = False\<rparr>
        in case pg_exec nt (pg_latest pg u d i) p of
             (Inl err, p1) \<Rightarrow> (Inl (Wrap ''postgresstore: reading percentiles'' err), p1)
           | (Inr None, p1) \<Rightarrow> (Inr state, p1)
           | (Inr (Some (p95, p99, lastSeen)), p1) \<Rightarrow>
               (Inr (let state1 = state\<lparr>ds_P95Nanos := p95, ds_P99Nanos := p99\<rparr>
                     in if \<not> IsZero lastSeen \<and> 0 < lastSeen div second then state1\<lparr>ds_LastSeen := lastSeen\<rparr> else state1), p1))"

definition pg_DeviceState :: "'p postgres \<Rightarrow> (nat \<Rightarrow> pg_call) \<Rightarrow> (nat \<Rightarrow> 'p \<Rightarrow> 'p) \<Rightarrow> string \<Rightarrow> string \<Rightarrow> 'p \<Rightarrow> (error + DeviceState) \<times> 'p" where
  "pg_DeviceState pg nt others u d p =
     (case pg_exec (nt 0) (pg_sums pg u d) (others 0 p) of
        (Inl err, p1) \<Rightarrow> (Inl (Wrap ''postgresstore: reading device state'' err), p1)
      | (Inr answer, p1) \<Rightarrow>
          case scan_sums answer of
            Inl err \<Rightarrow> (Inl (Wrap ''postgresstore: reading device state'' err), p1)
          | Inr (c, e, b, i) \<Rightarrow>
              if c = 0 \<and> i = 0 then
                (case pg_exec (nt 1) (pg_exists pg u d) (others 1 p1) of
                   (Inl err, p2) \<Rightarrow> (Inl (Wrap ''postgresstore: checking device'' err), p2)
                 | (Inr found, p2) \<Rightarrow>
                     if \<not> found then (Inl ErrPostgresDeviceNotFound, p2)
                     else read_percentiles pg (nt 2) u d (c, e, b, i) (others 2 p2))
              else read_percentiles pg (nt 2) u d (c, e, b, i) (others 2 p1))"

definition pg_UserDevices :: "'p postgres \<Rightarrow> pg_call \<Rightarrow> pg_rows \<Rightarrow> string \<Rightarrow> 'p \<Rightarrow> (DeviceListing \<times> error option) \<times> 'p" where
  "pg_UserDevices pg nt rows u p =
     (case pg_exec nt (pg_devices pg u) p of
        (Inl err, p1) \<Rightarrow> ((\<lparr>dl_Devices = [], dl_Stale = False\<rparr>, Some (Wrap ''postgresstore: listing devices'' err)), p1)
      | (Inr devices, p1) \<Rightarrow>
          ((case rows of
              AllRows \<Rightarrow> (\<lparr>dl_Devices = devices, dl_Stale = False\<rparr>, None)
            | StopsAfter n err \<Rightarrow> (\<lparr>dl_Devices = take n devices, dl_Stale = False\<rparr>, Some err)
            | ScanFails err \<Rightarrow> (\<lparr>dl_Devices = [], dl_Stale = False\<rparr>, Some (Wrap ''postgresstore: scanning device'' err))), p1))"

definition pg_ResetDevice :: "'p postgres \<Rightarrow> pg_call \<Rightarrow> string \<Rightarrow> string \<Rightarrow> 'p \<Rightarrow> error option \<times> 'p" where
  "pg_ResetDevice pg nt u d p =
     (case pg_exec nt (pg_delete pg u d) p of
        (Inl err, p1) \<Rightarrow> (Some (Wrap ''postgresstore: resetting device'' err), p1)
      | (Inr affected, p1) \<Rightarrow> (if affected = 0 then Some ErrPostgresDeviceNotFound else None, p1))"

section \<open>Partitions\<close>

definition day_nanos :: int where "day_nanos = 86400 * second"

definition truncate_day :: "time \<Rightarrow> time" where "truncate_day t = t div day_nanos * day_nanos"

definition partitionName :: "time \<Rightarrow> string" where
  "partitionName t =
     (let day = t div second div 86400 + 719528; y = year_of day; yday = day - days_before y; m = month_of (leap y) yday
      in ''aggregate_windows_'' @ pad 4 y @ pad 2 (int m) @ pad 2 (yday - month_starts (leap y) ! (m - 1) + 1))"

definition defaultPartitionBlocked :: "error \<Rightarrow> bool" where
  "defaultPartitionBlocked err \<longleftrightarrow> errors_Is err CHECKVIOLATION"

text \<open>
  The statements of a transaction run on the transaction's state, which becomes the state when the commit takes effect and is dropped otherwise.
\<close>

definition pg_step :: "string \<Rightarrow> pg_call \<Rightarrow> ('p, 'a) command \<Rightarrow> ('p, 'a) command" where
  "pg_step message nt c p = (case pg_exec nt c p of (Inl err, p1) \<Rightarrow> (Inl (Wrap message err), p1) | (Inr x, p1) \<Rightarrow> (Inr x, p1))"

definition adopt_statements :: "'p postgres \<Rightarrow> (nat \<Rightarrow> pg_call) \<Rightarrow> time \<Rightarrow> time \<Rightarrow> ('p, unit) command" where
  "adopt_statements pg nt a b =
     call (pg_step ''postgresstore: starting partition migration'' (nt 0) (reply ())) (\<lambda>_.
     call (pg_step ''postgresstore: migrating rows out of the default partition'' (nt 1) (pg_detach pg)) (\<lambda>_.
     call (pg_step ''postgresstore: migrating rows out of the default partition'' (nt 2) (pg_create pg (partitionName a) a b)) (\<lambda>_.
     call (pg_step ''postgresstore: moving rows into the new partition'' (nt 3) (pg_move pg a b)) (\<lambda>_.
     call (pg_step ''postgresstore: clearing migrated rows'' (nt 4) (pg_clear pg a b)) (\<lambda>_.
     pg_step ''postgresstore: reattaching the default partition'' (nt 5) (pg_attach pg))))))"

definition adoptFromDefaultPartition :: "'p postgres \<Rightarrow> (nat \<Rightarrow> pg_call) \<Rightarrow> time \<Rightarrow> time \<Rightarrow> 'p \<Rightarrow> error option \<times> 'p" where
  "adoptFromDefaultPartition pg nt a b p =
     (case adopt_statements pg nt a b p of
        (Inl err, p1) \<Rightarrow> (Some err, p)
      | (Inr _, p1) \<Rightarrow>
          (case nt 6 of
             Answered \<Rightarrow> (None, p1)
           | Refused err \<Rightarrow> (Some (Wrap ''postgresstore: committing partition migration'' err), p)
           | Lost err \<Rightarrow> (Some (Wrap ''postgresstore: committing partition migration'' err), p1)))"

definition EnsurePartition :: "'p postgres \<Rightarrow> (nat \<Rightarrow> pg_call) \<Rightarrow> time \<Rightarrow> 'p \<Rightarrow> error option \<times> 'p" where
  "EnsurePartition pg nt day p =
     (let a = truncate_day day; b = a + day_nanos
      in case pg_exec (nt 0) (pg_create pg (partitionName a) a b) p of
           (Inr _, p1) \<Rightarrow> (None, p1)
         | (Inl err, p1) \<Rightarrow>
             if \<not> defaultPartitionBlocked err then (Some (Wrap (''postgresstore: creating partition for '' @ take 10 (FormatRFC3339 a)) err), p1)
             else adoptFromDefaultPartition pg (\<lambda>i. nt (Suc i)) a b p1)"

text \<open>\<^verbatim>\<open>AddDate(0, 0, n)\<close> keeps the time of day of the local zone, so it is a parameter.\<close>

fun ensure_loop :: "'p postgres \<Rightarrow> (int \<Rightarrow> time \<Rightarrow> time) \<Rightarrow> (nat \<Rightarrow> nat \<Rightarrow> pg_call) \<Rightarrow> time \<Rightarrow> nat list \<Rightarrow> 'p \<Rightarrow> error option \<times> 'p" where
  "ensure_loop pg addDays nt start [] p = (None, p)"
| "ensure_loop pg addDays nt start (offset # offsets) p =
     (case EnsurePartition pg (nt offset) (addDays (int offset) start) p of
        (Some err, p1) \<Rightarrow> (Some err, p1)
      | (None, p1) \<Rightarrow> ensure_loop pg addDays nt start offsets p1)"

definition EnsurePartitions :: "'p postgres \<Rightarrow> (int \<Rightarrow> time \<Rightarrow> time) \<Rightarrow> (nat \<Rightarrow> nat \<Rightarrow> pg_call) \<Rightarrow> time \<Rightarrow> int \<Rightarrow> 'p \<Rightarrow> error option \<times> 'p" where
  "EnsurePartitions pg addDays nt start days p = ensure_loop pg addDays nt start [0..<nat days] p"

definition Migrate :: "'p postgres \<Rightarrow> (int \<Rightarrow> time \<Rightarrow> time) \<Rightarrow> pg_call \<Rightarrow> (nat \<Rightarrow> nat \<Rightarrow> pg_call) \<Rightarrow> time \<Rightarrow> 'p \<Rightarrow> error option \<times> 'p" where
  "Migrate pg addDays nt0 nt now p =
     (case pg_exec nt0 (pg_schema pg) p of
        (Inl err, p1) \<Rightarrow> (Some (Wrap ''postgresstore: applying schema'' err), p1)
      | (Inr _, p1) \<Rightarrow> EnsurePartitions pg addDays nt (addDays (- 1) now) 8 p1)"

fun drop_loop :: "'p postgres \<Rightarrow> (nat \<Rightarrow> pg_call) \<Rightarrow> string \<Rightarrow> string list \<Rightarrow> nat \<Rightarrow> 'p \<Rightarrow> (nat \<times> error option) \<times> 'p" where
  "drop_loop pg nt boundary [] dropped p = ((dropped, None), p)"
| "drop_loop pg nt boundary (name # names) dropped p =
     (if name = default_name \<or> boundary \<le> name then drop_loop pg nt boundary names dropped p
      else case pg_exec (nt dropped) (pg_drop pg name) p of
             (Inl err, p1) \<Rightarrow> ((dropped, Some (Wrap (''postgresstore: dropping '' @ name) err)), p1)
           | (Inr _, p1) \<Rightarrow> drop_loop pg nt boundary names (Suc dropped) p1)"

definition DropPartitionsBefore :: "'p postgres \<Rightarrow> pg_call \<Rightarrow> pg_rows \<Rightarrow> (nat \<Rightarrow> pg_call) \<Rightarrow> time \<Rightarrow> 'p \<Rightarrow> (nat \<times> error option) \<times> 'p" where
  "DropPartitionsBefore pg nt0 rows nt cutoff p =
     (case pg_exec nt0 (pg_partitions pg) p of
        (Inl err, p1) \<Rightarrow> ((0, Some (Wrap ''postgresstore: listing partitions'' err)), p1)
      | (Inr names, p1) \<Rightarrow>
          (case rows of
             ScanFails err \<Rightarrow> ((0, Some (Wrap ''postgresstore: scanning partition'' err)), p1)
           | StopsAfter n err \<Rightarrow> ((0, Some err), p1)
           | AllRows \<Rightarrow> drop_loop pg nt (partitionName cutoff) names 0 p1))"

section \<open>Connecting (security.go)\<close>

definition ErrEmptyDSN :: error where [go_error_defs]: "ErrEmptyDSN = Err ''postgresstore: dsn is empty''"
definition ErrPlaintextRefused :: error where
  [go_error_defs]: "ErrPlaintextRefused = Err ''postgresstore: sslmode disables TLS but secure connections are required''"

definition permittedSSLModes :: "string set" where "permittedSSLModes = {''require'', ''verify-ca'', ''verify-full''}"

text \<open>
  The query of a URL: the values of each parameter in order. Parsing a URL into its query and the rest, and writing it, are parameters.
\<close>

type_synonym url_values = "string \<rightharpoonup> string list"

definition values_Get :: "url_values \<Rightarrow> string \<Rightarrow> string" where
  "values_Get q key = (case q key of Some (v # _) \<Rightarrow> v | _ \<Rightarrow> [])"

definition values_Set :: "url_values \<Rightarrow> string \<Rightarrow> string \<Rightarrow> url_values" where
  "values_Set q key v = q(key \<mapsto> [v])"

definition RequireTLS :: "(string \<Rightarrow> error + 'u \<times> url_values) \<Rightarrow> ('u \<times> url_values \<Rightarrow> string) \<Rightarrow> string \<Rightarrow> string \<Rightarrow> error + string" where
  "RequireTLS url_Parse url_String dsn rootCert =
     (if dsn = [] then Inl ErrEmptyDSN
      else case url_Parse dsn of
        Inl err \<Rightarrow> Inl (Wrap ''postgresstore: parsing dsn'' err)
      | Inr (parsed, query) \<Rightarrow>
          let mode = (if values_Get query ''sslmode'' = [] then ''verify-full'' else values_Get query ''sslmode'')
          in if mode \<notin> permittedSSLModes then Inl (Wrap (''sslmode='' @ mode) ErrPlaintextRefused)
             else let query1 = values_Set query ''sslmode'' mode;
                      query2 = (if rootCert \<noteq> [] then values_Set query1 ''sslrootcert'' rootCert else query1)
                  in Inr (url_String (parsed, query2)))"

text \<open>A data source that passes insists on TLS, and on the given root certificate, when it is parsed again.\<close>

lemma RequireTLS_secures:
  assumes "RequireTLS url_Parse url_String dsn rootCert = Inr dsn'" and "\<And>x. url_Parse (url_String x) = Inr x"
  shows "\<exists>u q. url_Parse dsn' = Inr (u, q) \<and> values_Get q ''sslmode'' \<in> permittedSSLModes \<and> (rootCert \<noteq> [] \<longrightarrow> values_Get q ''sslrootcert'' = rootCert)"
  using assms by (auto simp: RequireTLS_def Let_def values_Get_def values_Set_def split: if_splits sum.splits prod.splits)

end
