(* ===== verification/PartitionNames.thy ===== *)
theory PartitionNames
  imports Postgres
begin

text \<open>
  The names of the partitions sort by day: \<^verbatim>\<open>DropPartitionsBefore\<close> compares names where it means days. The lemmas go from digit strings of one length, over the numbers they write, to days.
\<close>

section \<open>Digit strings\<close>

lemma digits_val_append_list: "digits_val (xs @ ys) = digits_val xs * 10 ^ length ys + digits_val ys"
proof -
  have "foldl (\<lambda>a c. 10 * a + digit_val c) a ys = a * 10 ^ length ys + foldl (\<lambda>a c. 10 * a + digit_val c) 0 ys" for a
  proof (induction ys arbitrary: a)
    case (Cons c ys)
    have "foldl (\<lambda>a c. 10 * a + digit_val c) a (c # ys) = (10 * a + digit_val c) * 10 ^ length ys + foldl (\<lambda>a c. 10 * a + digit_val c) 0 ys"
      using Cons.IH[of "10 * a + digit_val c"] by simp
    moreover have "foldl (\<lambda>a c. 10 * a + digit_val c) 0 (c # ys) = digit_val c * 10 ^ length ys + foldl (\<lambda>a c. 10 * a + digit_val c) 0 ys"
      using Cons.IH[of "digit_val c"] by simp
    moreover have "(10 * a + digit_val c) * 10 ^ length ys = a * 10 ^ length (c # ys) + digit_val c * 10 ^ length ys" by (simp add: distrib_right)
    ultimately show ?case by linarith
  qed simp
  from this[of "foldl (\<lambda>a c. 10 * a + digit_val c) 0 xs"] show ?thesis unfolding digits_val_def foldl_append .
qed

lemma digits_val_Cons: "digits_val (c # ys) = digit_val c * 10 ^ length ys + digits_val ys"
  using digits_val_append_list[of "[c]" ys] by (simp add: digits_val_def)

lemma digits_val_bound: "\<forall>c \<in> set ys. is_digit c \<Longrightarrow> digits_val ys < 10 ^ length ys"
proof (induction ys)
  case (Cons c ys)
  have "is_digit c" using Cons.prems by simp
  then have "digit_val c \<le> 9" by (simp add: is_digit_def digit_val_def le_diff_conv)
  then have "digit_val c * 10 ^ length ys \<le> 9 * 10 ^ length ys" by (rule mult_le_mono1)
  moreover have "digits_val ys < 10 ^ length ys" using Cons by simp
  ultimately have "digit_val c * 10 ^ length ys + digits_val ys < 10 * 10 ^ length ys" by linarith
  then show ?case by (simp add: digits_val_Cons)
qed (simp add: digits_val_def)

lemma digit_less: "is_digit a \<Longrightarrow> is_digit b \<Longrightarrow> a < b \<longleftrightarrow> digit_val a < digit_val b"
  by (auto simp: is_digit_def digit_val_def less_char_def)

lemma digit_eq: "is_digit a \<Longrightarrow> is_digit b \<Longrightarrow> digit_val a = digit_val b \<Longrightarrow> a = b"
  using digit_less[of a b] digit_less[of b a] by (cases a b rule: linorder_cases) simp_all

lemma digits_less:
  "length xs = length ys \<Longrightarrow> \<forall>c \<in> set (xs @ ys). is_digit c \<Longrightarrow> xs < ys \<longleftrightarrow> digits_val xs < digits_val ys"
proof (induction xs ys rule: list_induct2)
  case (Cons x xs y ys)
  let ?k = "10 ^ length ys :: nat"
  have d: "is_digit x" "is_digit y" and vx: "digits_val xs < ?k" and vy: "digits_val ys < ?k"
    using Cons.prems Cons.hyps digits_val_bound[of xs] digits_val_bound[of ys] by simp_all
  have IH: "xs < ys \<longleftrightarrow> digits_val xs < digits_val ys" using Cons by simp
  have val: "digits_val (x # xs) = digit_val x * ?k + digits_val xs" "digits_val (y # ys) = digit_val y * ?k + digits_val ys" using Cons.hyps by (simp_all add: digits_val_Cons)
  consider "digit_val x < digit_val y" | "digit_val x = digit_val y" | "digit_val y < digit_val x" by linarith
  then show ?case
  proof cases
    case 1
    then have "(digit_val x + 1) * ?k \<le> digit_val y * ?k" by (intro mult_le_mono1) simp
    then show ?thesis using 1 d vx digit_less[OF d] by (simp add: val)
  next
    case 2
    then have "x = y" using digit_eq[OF d] by simp
    then show ?thesis using IH 2 unfolding val by simp
  next
    case 3
    then have "(digit_val y + 1) * ?k \<le> digit_val x * ?k" by (intro mult_le_mono1) simp
    then show ?thesis using 3 d vy digit_less[OF d] digit_less[OF d(2,1)] by (auto simp: val)
  qed
qed simp

lemma same_prefix_less: "p @ x < p @ y \<longleftrightarrow> x < y" for x y :: string
  by (induction p) simp_all

section \<open>Days in order\<close>

lemma days_before_mono: "y \<le> y' \<Longrightarrow> days_before y \<le> days_before y'"
proof (induction y' rule: int_ge_induct[of y])
  case (step i)
  then show ?case using year_length[of i] by (simp split: if_splits)
qed (simp_all)

lemma year_of_mono: "d \<le> d' \<Longrightarrow> year_of d \<le> year_of d'"
proof (rule ccontr)
  assume "d \<le> d'" "\<not> year_of d \<le> year_of d'"
  then have "days_before (year_of d' + 1) \<le> days_before (year_of d)" by (intro days_before_mono) simp
  then show False using year_of_bounds[of d] year_of_bounds[of d'] \<open>d \<le> d'\<close> by linarith
qed

lemma month_of_mono: "x \<le> y \<Longrightarrow> month_of lp x \<le> month_of lp y"
proof -
  assume "x \<le> y"
  then have "length (filter (\<lambda>start. start \<le> x) l) \<le> length (filter (\<lambda>start. start \<le> y) l)" for l by (induction l) auto
  then show ?thesis by (simp add: month_of_def)
qed

text \<open>The date of a day as a number of eight digits.\<close>

definition date_number :: "int \<Rightarrow> int" where
  "date_number day = (let y = year_of day; yday = day - days_before y; m = month_of (leap y) yday in y * 10000 + int m * 100 + (yday - month_starts (leap y) ! (m - 1) + 1))"

lemma date_parts:
  fixes day :: int
  defines "y \<equiv> year_of day"
  defines "yday \<equiv> day - days_before y"
  defines "m \<equiv> month_of (leap y) yday"
  defines "mday \<equiv> yday - month_starts (leap y) ! (m - 1) + 1"
  shows "0 \<le> yday" and "1 \<le> m" and "m \<le> 12" and "1 \<le> mday" and "mday \<le> 31" and "date_number day = y * 10000 + int m * 100 + mday"
proof -
  have yd: "0 \<le> yday" "yday < (if leap y then 366 else 365)" using year_of_bounds[of day] year_length[of y] by (simp_all add: yday_def y_def)
  note b = month_of_bounds[OF yd, folded m_def]
  have "days_in (leap y) (int m) \<le> 31" by (simp add: days_in_def)
  then show "0 \<le> yday" "1 \<le> m" "m \<le> 12" "1 \<le> mday" "mday \<le> 31" using b yd by (simp_all add: mday_def)
  show "date_number day = y * 10000 + int m * 100 + mday" by (simp add: date_number_def Let_def y_def yday_def m_def mday_def)
qed

lemma date_number_mono:
  assumes "day < day'"
  shows "date_number day < date_number day'"
proof -
  note p = date_parts[of day] and p' = date_parts[of day']
  have y: "year_of day \<le> year_of day'" using assms by (intro year_of_mono) simp
  show ?thesis
  proof (cases "year_of day = year_of day'")
    case True
    let ?x = "day - days_before (year_of day)" and ?x' = "day' - days_before (year_of day')"
    let ?m = "month_of (leap (year_of day)) ?x" and ?m' = "month_of (leap (year_of day')) ?x'"
    have "?x < ?x'" using assms True by simp
    then have m: "?m \<le> ?m'" using month_of_mono[of ?x ?x' "leap (year_of day)"] True by simp
    show ?thesis
    proof (cases "?m = ?m'")
      case same: True
      then show ?thesis using p(6) p'(6) \<open>?x < ?x'\<close> True by simp
    next
      case False
      then have "int ?m + 1 \<le> int ?m'" using m by linarith
      then show ?thesis using p(5,6) p'(4,6) True by linarith
    qed
  next
    case False
    then have "year_of day + 1 \<le> year_of day'" using y by simp
    moreover have "int (month_of (leap (year_of day)) (day - days_before (year_of day))) \<le> 12" using p(3) by simp
    ultimately show ?thesis using p(5,6) p'(2,4,6) by linarith
  qed
qed

lemma date_number_less: "date_number day < date_number day' \<longleftrightarrow> day < day'"
  using date_number_mono[of day day'] date_number_mono[of day' day] by (cases day day' rule: linorder_cases) auto

text \<open>The names sort by day.\<close>

definition day_of :: "time \<Rightarrow> int" where "day_of t = t div second div 86400"

lemma partitionName_digits:
  assumes "four_digit_year t"
  obtains ds where "partitionName t = ''aggregate_windows_'' @ ds" and "length ds = 8" and "\<forall>c \<in> set ds. is_digit c" and "int (digits_val ds) = date_number (day_of t + 719528)"
proof -
  let ?day = "day_of t + 719528"
  define y where "y = year_of ?day"
  define m where "m = month_of (leap y) (?day - days_before y)"
  define d where "d = ?day - days_before y - month_starts (leap y) ! (m - 1) + 1"
  note p = date_parts[of ?day, folded y_def, folded m_def, folded d_def]
  have y: "0 \<le> y" "y < 10 ^ 4" using assms by (simp_all add: four_digit_year_def Let_def y_def day_of_def)
  have "int m < 10 ^ 2" "d < 10 ^ 2" "0 \<le> d" using p by simp_all
  note Y = pad_fixed[OF y] and M = pad_fixed[of "int m" 2] and D = pad_fixed[of d 2]
  have "partitionName t = ''aggregate_windows_'' @ pad 4 y @ pad 2 (int m) @ pad 2 d" by (simp add: partitionName_def Let_def y_def m_def d_def day_of_def)
  moreover have "length (pad 4 y @ pad 2 (int m) @ pad 2 d) = 8" using Y M D \<open>int m < 10 ^ 2\<close> \<open>d < 10 ^ 2\<close> \<open>0 \<le> d\<close> by simp
  moreover have "\<forall>c \<in> set (pad 4 y @ pad 2 (int m) @ pad 2 d). is_digit c" using Y M D \<open>int m < 10 ^ 2\<close> \<open>d < 10 ^ 2\<close> \<open>0 \<le> d\<close> by auto
  moreover have "int (digits_val (pad 4 y @ pad 2 (int m) @ pad 2 d)) = date_number ?day"
    using Y M D \<open>int m < 10 ^ 2\<close> \<open>d < 10 ^ 2\<close> \<open>0 \<le> d\<close> p(6) by (simp add: digits_val_append_list)
  ultimately show ?thesis by (rule that)
qed

lemma partitionName_less:
  assumes "four_digit_year t" and "four_digit_year t'"
  shows "partitionName t < partitionName t' \<longleftrightarrow> day_of t < day_of t'"
proof -
  obtain ds where ds: "partitionName t = ''aggregate_windows_'' @ ds" "length ds = 8" "\<forall>c \<in> set ds. is_digit c" "int (digits_val ds) = date_number (day_of t + 719528)"
    using partitionName_digits[OF assms(1)] .
  obtain es where es: "partitionName t' = ''aggregate_windows_'' @ es" "length es = 8" "\<forall>c \<in> set es. is_digit c" "int (digits_val es) = date_number (day_of t' + 719528)"
    using partitionName_digits[OF assms(2)] .
  have "partitionName t < partitionName t' \<longleftrightarrow> digits_val ds < digits_val es" unfolding ds(1) es(1) same_prefix_less by (rule digits_less) (use ds es in auto)
  also have "\<dots> \<longleftrightarrow> date_number (day_of t + 719528) < date_number (day_of t' + 719528)" using ds(4) es(4) by linarith
  finally show ?thesis by (simp add: date_number_less)
qed

lemma partitionName_eq:
  assumes "four_digit_year t" and "four_digit_year t'" and "partitionName t = partitionName t'"
  shows "day_of t = day_of t'"
  using partitionName_less[OF assms(1,2)] partitionName_less[OF assms(2,1)] assms(3) by (cases "day_of t" "day_of t'" rule: linorder_cases) auto

lemma day_of_truncate: "truncate_day t = day_of t * day_nanos"
proof -
  have "t div (second * 86400) = t div second div 86400" by (simp add: second_def zdiv_zmult2_eq)
  then show ?thesis by (simp add: truncate_day_def day_of_def day_nanos_def mult.commute)
qed

end
