(* ===== verification/PostgresArchive.thy ===== *)
theory PostgresArchive
  imports PartitionNames
begin

text \<open>
  What the archive keeps (\<^verbatim>\<open>internal/postgresstore\<close>): the rows are those of the windows inserted, once per primary key, whichever partitions are created, and adopted from, meanwhile.
\<close>

section \<open>Days\<close>

lemma truncate_day_bounds: "truncate_day t \<le> t \<and> t < truncate_day t + day_nanos"
  using div_bounds[of day_nanos t] by (simp add: truncate_day_def mult.commute day_nanos_def second_def)

lemma truncate_day_unique: "truncate_day a = a \<Longrightarrow> a \<le> t \<Longrightarrow> t < a + day_nanos \<Longrightarrow> truncate_day t = a"
proof -
  assume a: "truncate_day a = a" "a \<le> t" "t < a + day_nanos"
  let ?k = "a div day_nanos"
  have k: "day_nanos * ?k = a" using a(1) by (simp add: truncate_day_def mult.commute)
  have "t div day_nanos = ?k" by (rule div_unique) (use a k in \<open>simp_all add: day_nanos_def second_def\<close>)
  then show ?thesis using k by (simp add: truncate_day_def mult.commute)
qed

lemma truncate_day_idem [simp]: "truncate_day (truncate_day t) = truncate_day t"
proof -
  have "day_nanos \<noteq> 0" by (simp add: day_nanos_def second_def)
  then show ?thesis by (simp add: truncate_day_def)
qed

section \<open>The invariant\<close>

definition part_ok :: "partition \<Rightarrow> bool" where
  "part_ok p \<longleftrightarrow> truncate_day (pt_from p) = pt_from p \<and> pt_to p = pt_from p + day_nanos \<and> pt_name p = partitionName (pt_from p) \<and> four_digit_year (pt_from p) \<and>
     (\<forall>r \<in> set (pt_rows p). holds p (w_WindowStart r)) \<and> distinct (map primary_key (pt_rows p))"

definition archive_ok :: "archive_db \<Rightarrow> bool" where
  "archive_ok db \<longleftrightarrow> db_exists db \<and> db_attached db \<and> distinct (map pt_name (db_parts db)) \<and> (\<forall>p \<in> set (db_parts db). part_ok p) \<and>
     distinct (map primary_key (db_default db)) \<and> (\<forall>r \<in> set (db_default db). \<forall>p \<in> set (db_parts db). \<not> holds p (w_WindowStart r))"

lemma holds_day: "part_ok p \<Longrightarrow> holds p t \<longleftrightarrow> truncate_day t = pt_from p"
  using truncate_day_unique[of "pt_from p" t] truncate_day_bounds[of t] by (auto simp: part_ok_def holds_def)

lemma one_partition:
  assumes "archive_ok db" and "p \<in> set (db_parts db)" and "q \<in> set (db_parts db)" and "holds p t" and "holds q t"
  shows "p = q"
proof -
  have "part_ok p" "part_ok q" using assms(1-3) by (simp_all add: archive_ok_def)
  then have "pt_from p = pt_from q" using assms(4,5) holds_day by metis
  then have "pt_name p = pt_name q" using \<open>part_ok p\<close> \<open>part_ok q\<close> by (simp add: part_ok_def)
  then show ?thesis using assms(1-3) by (auto simp: archive_ok_def distinct_map inj_on_def)
qed

lemma row_held: "archive_ok db \<Longrightarrow> p \<in> set (db_parts db) \<Longrightarrow> r \<in> set (pt_rows p) \<Longrightarrow> holds p (w_WindowStart r)"
  by (simp add: archive_ok_def part_ok_def)

text \<open>All rows, with unique keys.\<close>

lemma set_db_rows: "archive_ok db \<Longrightarrow> set (db_rows db) = set (db_default db) \<union> (\<Union>p \<in> set (db_parts db). set (pt_rows p))"
  by (simp add: db_rows_def archive_ok_def)

lemma rows_unique:
  assumes "archive_ok db" and "r \<in> set (db_rows db)" and "q \<in> set (db_rows db)" and "primary_key r = primary_key q"
  shows "r = q"
proof -
  have start: "w_WindowStart r = w_WindowStart q" using assms(4) by (simp add: primary_key_def)
  have inj: "x = y" if "distinct (map primary_key l)" "x \<in> set l" "y \<in> set l" "primary_key x = primary_key y" for l x y
    using that by (auto simp: distinct_map inj_on_def)
  show ?thesis
  proof (cases "\<exists>p \<in> set (db_parts db). holds p (w_WindowStart r)")
    case True
    then obtain p where p: "p \<in> set (db_parts db)" "holds p (w_WindowStart r)" by blast
    have "x \<in> set (pt_rows p)" if x: "x \<in> set (db_rows db)" "w_WindowStart x = w_WindowStart r" for x
    proof -
      have "x \<notin> set (db_default db)" using assms(1) p x(2) by (auto simp: archive_ok_def)
      then obtain p' where p': "p' \<in> set (db_parts db)" "x \<in> set (pt_rows p')" using x(1) set_db_rows[OF assms(1)] by auto
      then have "holds p' (w_WindowStart r)" using row_held[OF assms(1)] x(2) by metis
      then show ?thesis using one_partition[OF assms(1) p(1) p'(1) p(2)] p'(2) by simp
    qed
    then have "r \<in> set (pt_rows p)" "q \<in> set (pt_rows p)" using assms(2,3) start by simp_all
    moreover have "distinct (map primary_key (pt_rows p))" using assms(1) p(1) by (simp add: archive_ok_def part_ok_def)
    ultimately show ?thesis using inj assms(4) by blast
  next
    case False
    have "x \<in> set (db_default db)" if "x \<in> set (db_rows db)" "w_WindowStart x = w_WindowStart r" for x
      using that False assms(1) by (fastforce simp: set_db_rows archive_ok_def part_ok_def)
    then have "r \<in> set (db_default db)" "q \<in> set (db_default db)" using assms(2,3) start by simp_all
    moreover have "distinct (map primary_key (db_default db))" using assms(1) by (simp add: archive_ok_def)
    ultimately show ?thesis using inj assms(4) by blast
  qed
qed

section \<open>Inserting\<close>

lemma add_row_frame [simp]: "pt_name (add_row r p) = pt_name p" "pt_from (add_row r p) = pt_from p" "pt_to (add_row r p) = pt_to p" "holds (add_row r p) t = holds p t"
  by (simp_all add: add_row_def holds_def)

lemma set_add_row: "set (pt_rows (add_row r p)) = (if holds p (w_WindowStart r) \<and> primary_key r \<notin> primary_key ` set (pt_rows p) then insert r (set (pt_rows p)) else set (pt_rows p))"
  by (simp add: add_row_def)

lemma add_row_ok: "part_ok p \<Longrightarrow> part_ok (add_row r p)"
  by (auto simp: part_ok_def add_row_def holds_def)

text \<open>A row goes to the one partition that holds its day, or to the default partition when there is none.\<close>

lemma insert_default_ok:
  assumes "archive_ok db" and None: "find (\<lambda>p. holds p (w_WindowStart r)) (db_parts db) = None"
  shows "\<exists>n db'. insert_row r db = (Inr n, db') \<and> archive_ok db' \<and> (n = 0 \<longleftrightarrow> primary_key r \<in> primary_key ` set (db_rows db)) \<and>
    set (db_rows db') = (if n = 0 then set (db_rows db) else insert r (set (db_rows db)))"
proof -
  have none: "\<forall>p \<in> set (db_parts db). \<not> holds p (w_WindowStart r)" using None by (simp add: find_None_iff)
  have "primary_key x \<noteq> primary_key r" if "p \<in> set (db_parts db)" "x \<in> set (pt_rows p)" for p x
    using row_held[OF assms(1) that] none that(1) by (auto simp: primary_key_def)
  then have key: "primary_key r \<in> primary_key ` set (db_rows db) \<longleftrightarrow> primary_key r \<in> primary_key ` set (db_default db)" unfolding set_db_rows[OF assms(1)] by (fastforce simp: image_iff)
  show ?thesis
  proof (cases "primary_key r \<in> primary_key ` set (db_default db)")
    case True
    then show ?thesis using None key assms by (simp add: insert_row_def archive_ok_def)
  next
    case False
    let ?db = "db\<lparr>db_default := db_default db @ [r]\<rparr>"
    have "archive_ok ?db" using assms False none by (auto simp: archive_ok_def)
    moreover have "set (db_rows ?db) = insert r (set (db_rows db))" using set_db_rows[OF assms(1)] set_db_rows[OF \<open>archive_ok ?db\<close>] by simp
    ultimately show ?thesis using None key False assms by (simp add: insert_row_def archive_ok_def)
  qed
qed

lemma add_row_rows:
  assumes "archive_ok db" and p: "p \<in> set (db_parts db)" "holds p (w_WindowStart r)"
  defines "db' \<equiv> db\<lparr>db_parts := map (add_row r) (db_parts db)\<rparr>"
  shows "archive_ok db'" and "set (db_rows db') = (if primary_key r \<in> primary_key ` set (pt_rows p) then set (db_rows db) else insert r (set (db_rows db)))"
proof -
  let ?new = "if primary_key r \<in> primary_key ` set (pt_rows p) then {} else {r}"
  show ok: "archive_ok db'" using assms add_row_ok by (auto simp: archive_ok_def comp_def)
  have "set (pt_rows (add_row r q)) = set (pt_rows q) \<union> (if q = p then ?new else {})" if "q \<in> set (db_parts db)" for q
  proof (cases "q = p")
    case False
    then have "\<not> holds q (w_WindowStart r)" using one_partition[OF assms(1) that p(1) _ p(2)] by blast
    with False show ?thesis by (simp add: set_add_row)
  qed (simp add: set_add_row p(2))
  then have "(\<Union>q \<in> set (db_parts db). set (pt_rows (add_row r q))) = (\<Union>q \<in> set (db_parts db). set (pt_rows q) \<union> (if q = p then ?new else {}))" by simp
  also have "\<dots> = (\<Union>q \<in> set (db_parts db). set (pt_rows q)) \<union> ?new" using p(1) by (auto split: if_splits)
  finally show "set (db_rows db') = (if primary_key r \<in> primary_key ` set (pt_rows p) then set (db_rows db) else insert r (set (db_rows db)))"
    unfolding set_db_rows[OF assms(1)] set_db_rows[OF ok] by (simp add: db'_def)
qed

lemma key_in_partition:
  assumes "archive_ok db" and p: "p \<in> set (db_parts db)" "holds p (w_WindowStart r)"
  shows "primary_key r \<in> primary_key ` set (db_rows db) \<longleftrightarrow> primary_key r \<in> primary_key ` set (pt_rows p)"
proof
  assume "primary_key r \<in> primary_key ` set (db_rows db)"
  then obtain x where x: "x \<in> set (db_rows db)" "primary_key x = primary_key r" by auto
  have s: "w_WindowStart x = w_WindowStart r" using x(2) by (simp add: primary_key_def)
  then have "x \<notin> set (db_default db)" using assms by (auto simp: archive_ok_def)
  then obtain q where q: "q \<in> set (db_parts db)" "x \<in> set (pt_rows q)" using x(1) set_db_rows[OF assms(1)] by auto
  then have "q = p" using one_partition[OF assms(1) q(1) p(1) _ p(2)] row_held[OF assms(1) q] s by simp
  with q x(2) show "primary_key r \<in> primary_key ` set (pt_rows p)" by (metis image_eqI)
qed (use p(1) set_db_rows[OF assms(1)] in auto)

lemma insert_row_ok:
  assumes "archive_ok db"
  shows "\<exists>n db'. insert_row r db = (Inr n, db') \<and> archive_ok db' \<and> (n = 0 \<longleftrightarrow> primary_key r \<in> primary_key ` set (db_rows db)) \<and>
    set (db_rows db') = (if n = 0 then set (db_rows db) else insert r (set (db_rows db)))"
proof (cases "find (\<lambda>p. holds p (w_WindowStart r)) (db_parts db)")
  case None
  then show ?thesis by (rule insert_default_ok[OF assms])
next
  case (Some p)
  then have p: "p \<in> set (db_parts db)" "holds p (w_WindowStart r)" by (auto simp: find_Some_iff)
  with Some key_in_partition[OF assms p] add_row_rows[OF assms p] show ?thesis by (simp add: insert_row_def)
qed

section \<open>Partitions\<close>

text \<open>Creating the partition of a day, in an archive whose default partition is attached or not.\<close>

lemma day_known:
  assumes "archive_ok db" and "truncate_day a = a" and "list_ex (overlaps a (a + day_nanos)) (db_parts db)"
  shows "partitionName a \<in> pt_name ` set (db_parts db)"
proof -
  obtain p where p: "p \<in> set (db_parts db)" "a < pt_to p" "pt_from p < a + day_nanos" using assms(3) by (auto simp: list_ex_iff overlaps_def)
  have ok: "part_ok p" using assms(1) p(1) by (simp add: archive_ok_def)
  have "pt_from p = a"
  proof (cases "pt_from p \<le> a")
    case True
    have "truncate_day (pt_from p) = pt_from p" "a < pt_from p + day_nanos" using p(2) ok by (simp_all add: part_ok_def)
    from truncate_day_unique[OF this(1) True this(2)] have "truncate_day a = pt_from p" .
    then show ?thesis using assms(2) by simp
  next
    case False
    then have "truncate_day (pt_from p) = a" using truncate_day_unique[OF assms(2) _ p(3)] by simp
    then show ?thesis using ok by (simp add: part_ok_def)
  qed
  then have "partitionName a = pt_name p" using ok by (simp add: part_ok_def)
  then show ?thesis using p(1) by simp
qed

definition new_part :: "time \<Rightarrow> AggregateWindow list \<Rightarrow> partition" where
  "new_part a rows = \<lparr>pt_name = partitionName a, pt_from = a, pt_to = a + day_nanos, pt_rows = rows\<rparr>"

text \<open>The archive with the rows of a day moved from the default partition into one of their own.\<close>

definition split_day :: "time \<Rightarrow> archive_db \<Rightarrow> archive_db" where
  "split_day a db =
     (if partitionName a \<in> pt_name ` set (db_parts db) then db
      else db\<lparr>db_default := filter (\<lambda>r. \<not> in_range a (a + day_nanos) r) (db_default db),
              db_parts := db_parts db @ [new_part a (filter (in_range a (a + day_nanos)) (db_default db))]\<rparr>)"

lemma new_part_holds: "holds (new_part a rows) (w_WindowStart r) \<longleftrightarrow> in_range a (a + day_nanos) r"
  by (simp add: new_part_def holds_def in_range_def)

lemma split_day_ok:
  assumes "archive_ok db" and "truncate_day a = a" and "four_digit_year a"
  shows "archive_ok (split_day a db)" and "set (db_rows (split_day a db)) = set (db_rows db)"
proof -
  let ?rs = "filter (in_range a (a + day_nanos)) (db_default db)"
  have keys: "distinct (map primary_key (filter P (db_default db)))" for P using assms(1) by (intro distinct_map_filter) (simp add: archive_ok_def)
  have part: "part_ok (new_part a ?rs)" using assms(2,3) keys by (auto simp: part_ok_def new_part_def holds_def in_range_def)
  show ok: "archive_ok (split_day a db)"
  proof (cases "partitionName a \<in> pt_name ` set (db_parts db)")
    case True
    then show ?thesis using assms(1) by (simp add: split_day_def)
  next
    case False
    then have "distinct (map pt_name (db_parts db @ [new_part a ?rs]))" using assms(1) by (simp add: archive_ok_def new_part_def)
    with False assms(1) part keys show ?thesis by (auto simp: archive_ok_def split_day_def new_part_holds)
  qed
  show "set (db_rows (split_day a db)) = set (db_rows db)" unfolding set_db_rows[OF ok] set_db_rows[OF assms(1)] by (auto simp: split_day_def new_part_def)
qed

lemma create_partition_ok:
  assumes "archive_ok db" and "truncate_day a = a"
  shows "create_partition (partitionName a) a (a + day_nanos) db = (Inr (), split_day a db) \<or>
    (create_partition (partitionName a) a (a + day_nanos) db = (Inl CHECKVIOLATION, db) \<and> split_day a db \<noteq> db)"
proof (cases "partitionName a \<in> pt_name ` set (db_parts db)")
  case True
  then show ?thesis by (simp add: create_partition_def split_day_def)
next
  case False
  then have "\<not> list_ex (overlaps a (a + day_nanos)) (db_parts db)" using day_known[OF assms] by blast
  moreover have "split_day a db \<noteq> db" using False by (auto simp: split_day_def new_part_def dest!: arg_cong[where f = db_parts])
  moreover have "filter (\<lambda>r. \<not> in_range a (a + day_nanos) r) (db_default db) = db_default db" "filter (in_range a (a + day_nanos)) (db_default db) = []"
    if "\<not> list_ex (in_range a (a + day_nanos)) (db_default db)" using that by (auto simp: list_ex_iff filter_id_conv filter_empty_conv)
  ultimately show ?thesis using False assms(1) by (auto simp: create_partition_def split_day_def new_part_def archive_ok_def)
qed

lemma fold_add_row_frame [simp]: "pt_name (fold add_row rs p) = pt_name p" "pt_from (fold add_row rs p) = pt_from p" "pt_to (fold add_row rs p) = pt_to p"
  by (induction rs arbitrary: p) simp_all

lemma fold_add_row_other: "\<forall>r \<in> set rs. \<not> holds p (w_WindowStart r) \<Longrightarrow> fold add_row rs p = p"
  by (induction rs) (simp_all add: add_row_def)

lemma fold_add_row_all:
  "\<forall>r \<in> set rs. holds p (w_WindowStart r) \<Longrightarrow> distinct (map primary_key (pt_rows p @ rs)) \<Longrightarrow> fold add_row rs p = p\<lparr>pt_rows := pt_rows p @ rs\<rparr>"
proof (induction rs arbitrary: p)
  case (Cons r rs)
  have step: "add_row r p = p\<lparr>pt_rows := pt_rows p @ [r]\<rparr>" using Cons.prems by (auto simp: add_row_def)
  have "fold add_row rs (add_row r p) = (add_row r p)\<lparr>pt_rows := pt_rows (add_row r p) @ rs\<rparr>"
    by (rule Cons.IH) (use Cons.prems step in \<open>auto simp: holds_def\<close>)
  then show ?case by (simp add: step)
qed simp

lemma move_rows_run:
  "\<forall>r \<in> set rs. \<exists>p \<in> set (db_parts db). holds p (w_WindowStart r) \<Longrightarrow> move_rows rs db = (Inr (), db\<lparr>db_parts := map (fold add_row rs) (db_parts db)\<rparr>)"
proof (induction rs arbitrary: db)
  case Nil
  have "fold add_row [] = id" by (simp add: fun_eq_iff)
  then show ?case by (simp add: reply_def)
next
  case (Cons r rs)
  let ?db = "db\<lparr>db_parts := map (add_row r) (db_parts db)\<rparr>"
  obtain p where "find (\<lambda>p. holds p (w_WindowStart r)) (db_parts db) = Some p" using Cons.prems by (cases "find (\<lambda>p. holds p (w_WindowStart r)) (db_parts db)") (auto simp: find_None_iff)
  then have "\<exists>n. insert_row r db = (Inr n, ?db)" by (simp add: insert_row_def)
  moreover have "move_rows rs ?db = (Inr (), ?db\<lparr>db_parts := map (fold add_row rs) (db_parts ?db)\<rparr>)" by (rule Cons.IH) (use Cons.prems in simp)
  ultimately show ?case by (auto simp: call_def comp_def)
qed

section \<open>Adopting rows\<close>

text \<open>The statements of the transaction all succeed, one after the other.\<close>

definition adopt_steps :: "time \<Rightarrow> archive_db \<Rightarrow> archive_db \<Rightarrow> bool" where
  "adopt_steps a db db' \<longleftrightarrow>
     (\<exists>d1 d2 d3 d4. existing detach_default db = (Inr (), d1) \<and> existing (create_partition (partitionName a) a (a + day_nanos)) d1 = (Inr (), d2) \<and>
        existing (move_default a (a + day_nanos)) d2 = (Inr (), d3) \<and> existing (clear_default a (a + day_nanos)) d3 = (Inr (), d4) \<and> existing attach_default d4 = (Inr (), db'))"

lemma adopt_steps_ok:
  assumes "archive_ok db" and "truncate_day a = a" and "four_digit_year a"
  shows "adopt_steps a db (split_day a db)"
proof (cases "partitionName a \<in> pt_name ` set (db_parts db)")
  case True
  then obtain p where p: "p \<in> set (db_parts db)" "pt_name p = partitionName a" by auto
  have ok: "part_ok p" using assms(1) p(1) by (simp add: archive_ok_def)
  have "day_of (pt_from p) = day_of a" using p(2) ok assms(3) by (intro partitionName_eq) (simp_all add: part_ok_def)
  then have "pt_from p = a" using ok assms(2) by (metis day_of_truncate part_ok_def)
  then have out: "\<forall>r \<in> set (db_default db). \<not> in_range a (a + day_nanos) r" using assms(1) p(1) ok by (auto simp: archive_ok_def holds_def in_range_def part_ok_def)
  then have filters: "filter (in_range a (a + day_nanos)) (db_default db) = []" "filter (\<lambda>r. \<not> in_range a (a + day_nanos) r) (db_default db) = db_default db"
    by (simp_all add: filter_empty_conv filter_id_conv)
  have "existing attach_default (db\<lparr>db_attached := False\<rparr>) = (Inr (), db)" using assms(1) by (auto simp: existing_def attach_default_def archive_ok_def list_ex_iff)
  moreover have "existing detach_default db = (Inr (), db\<lparr>db_attached := False\<rparr>)" using assms(1) by (simp add: existing_def detach_default_def archive_ok_def)
  moreover have "split_day a db = db" using True by (simp add: split_day_def)
  ultimately show ?thesis using True assms(1) unfolding adopt_steps_def
    by (intro exI[of _ "db\<lparr>db_attached := False\<rparr>"]) (simp add: existing_def create_partition_def move_default_def clear_default_def filters reply_def archive_ok_def)
next
  case False
  let ?b = "a + day_nanos" and ?rs = "filter (in_range a (a + day_nanos)) (db_default db)"
  let ?d1 = "db\<lparr>db_attached := False\<rparr>"
  let ?d2 = "?d1\<lparr>db_parts := db_parts db @ [new_part a []]\<rparr>"
  let ?d3 = "?d1\<lparr>db_parts := db_parts db @ [new_part a ?rs]\<rparr>"
  have "existing detach_default db = (Inr (), ?d1)" using assms(1) by (simp add: existing_def detach_default_def archive_ok_def)
  moreover have "existing (create_partition (partitionName a) a ?b) ?d1 = (Inr (), ?d2)"
    using False day_known[OF assms(1,2)] assms(1) by (auto simp: existing_def create_partition_def new_part_def archive_ok_def)
  moreover have "existing (move_default a ?b) ?d2 = (Inr (), ?d3)"
  proof -
    have "fold add_row ?rs p = p" if "p \<in> set (db_parts db)" for p using that assms(1) by (intro fold_add_row_other) (auto simp: archive_ok_def)
    moreover have "fold add_row ?rs (new_part a []) = new_part a ?rs"
      using fold_add_row_all[of ?rs "new_part a []"] assms(1) by (simp add: new_part_holds) (simp add: new_part_def archive_ok_def distinct_map_filter)
    ultimately have "map (fold add_row ?rs) (db_parts db @ [new_part a []]) = db_parts db @ [new_part a ?rs]" by (simp add: map_idI)
    moreover have "\<forall>r \<in> set ?rs. \<exists>p \<in> set (db_parts ?d2). holds p (w_WindowStart r)" by (auto simp: new_part_holds)
    ultimately show ?thesis using move_rows_run[of ?rs ?d2] assms(1) by (simp add: existing_def move_default_def archive_ok_def)
  qed
  moreover have "existing (clear_default a ?b) ?d3 = (Inr (), (split_day a db)\<lparr>db_attached := False\<rparr>)" using False assms(1) by (simp add: existing_def clear_default_def split_day_def archive_ok_def)
  moreover have "existing attach_default ((split_day a db)\<lparr>db_attached := False\<rparr>) = (Inr (), split_day a db)"
    using split_day_ok(1)[OF assms] by (auto simp: existing_def attach_default_def archive_ok_def list_ex_iff)
  ultimately show ?thesis unfolding adopt_steps_def by blast
qed

section \<open>The server\<close>

lemma seen_exec [server_seen]: "seen view c d \<Longrightarrow> seen view (pg_exec nt c) (pg_exec nt d)"
  by (auto simp: seen_def pg_exec_def split: pg_call.split)

lemma seen_step [server_seen]: "seen view c d \<Longrightarrow> seen view (pg_step msg nt c) (pg_step msg nt d)"
proof -
  assume "seen view c d"
  then have "seen view (pg_exec nt c) (pg_exec nt d)" by (rule seen_exec)
  then show ?thesis unfolding seen_def pg_step_def by (auto split: prod.split sum.split) (metis fst_conv snd_conv sum.simps)+
qed

lemma seen_run: "seen view c d \<Longrightarrow> c s = (res, s') \<Longrightarrow> d (view s) = (res, view s')"
  unfolding seen_def by (metis fst_conv prod.collapse snd_conv)

text \<open>Statements in order, each of which may be refused.\<close>

definition or_fails :: "('p, 'a) command \<Rightarrow> 'p \<Rightarrow> 'a \<Rightarrow> 'p \<Rightarrow> bool" where
  "or_fails c p x p' \<longleftrightarrow> c p = (Inr x, p') \<or> (\<exists>err. fst (c p) = Inl err)"

lemma or_fails_step: "d p = (Inr x, p') \<Longrightarrow> or_fails (pg_step msg nt d) p x p'"
  by (cases nt) (simp_all add: or_fails_def pg_step_def pg_exec_def)

lemma or_fails_call: "d p = (Inr x, p') \<Longrightarrow> or_fails (f x) p' y q \<Longrightarrow> or_fails (call (pg_step msg nt d) f) p y q"
  using or_fails_step[of d p x p' msg nt] by (auto simp: or_fails_def call_def split: prod.split sum.split)

text \<open>A server that runs the statements as they are meant; where the manual leaves an answer open it takes the first.\<close>

definition first_latest :: "AggregateWindow list \<Rightarrow> int \<Rightarrow> (int \<times> int \<times> time) option" where
  "first_latest rs i =
     (let ms = filter (\<lambda>r. w_WindowID r = i) rs
      in map_option (\<lambda>r. (w_P95Nanos r, w_P99Nanos r, w_WindowEnd r))
           (find (\<lambda>r. list_all (\<lambda>q. w_Count q < w_Count r \<or> (w_Count q = w_Count r \<and> w_Sequence q \<le> w_Sequence r)) ms) ms))"

definition plain_postgres :: "archive_db postgres" where
  "plain_postgres =
    \<lparr>pg_schema = apply_schema, pg_insert = \<lambda>w. existing (insert_row (stored_row w)), pg_sums = \<lambda>u d. existing (\<lambda>db. (Inr (sums_of (of_device_rows u d db)), db)),
     pg_exists = \<lambda>u d. existing (\<lambda>db. (Inr (of_device_rows u d db \<noteq> []), db)), pg_latest = \<lambda>u d i. existing (\<lambda>db. (Inr (first_latest (of_device_rows u d db) i), db)),
     pg_devices = \<lambda>u. existing (\<lambda>db. (Inr (sort (remdups (map (\<lambda>r. ck_DeviceID (w_Key r)) (filter (\<lambda>r. ck_UserID (w_Key r) = u) (db_rows db))))), db)),
     pg_delete = \<lambda>u d. existing (delete_rows u d), pg_create = \<lambda>name a b. existing (create_partition name a b), pg_detach = existing detach_default,
     pg_move = \<lambda>a b. existing (move_default a b), pg_clear = \<lambda>a b. existing (clear_default a b), pg_attach = existing attach_default,
     pg_partitions = existing (\<lambda>db. (Inr (remdups (partition_names db)), db)), pg_drop = \<lambda>name. existing (drop_partition name)\<rparr>"

lemma greatest_exists:
  "ms \<noteq> [] \<Longrightarrow> \<exists>r \<in> set ms. \<forall>q \<in> set ms. f q < f r \<or> (f q = f r \<and> g q \<le> g r)" for f g :: "'a \<Rightarrow> int"
proof (induction ms rule: list_nonempty_induct)
  case (cons x xs)
  then obtain r where r: "r \<in> set xs" "\<forall>q \<in> set xs. f q < f r \<or> (f q = f r \<and> g q \<le> g r)" by blast
  show ?case
  proof (cases "f x < f r \<or> (f x = f r \<and> g x \<le> g r)")
    case True
    with r show ?thesis by auto
  next
    case False
    with r(2) have "\<forall>q \<in> set (x # xs). f q < f x \<or> (f q = f x \<and> g q \<le> g x)" by force
    then show ?thesis by auto
  qed
qed simp

lemma first_latest_ok: "latest_row rs i (first_latest rs i)"
proof -
  let ?ms = "filter (\<lambda>r. w_WindowID r = i) rs"
  let ?P = "\<lambda>r. list_all (\<lambda>q. w_Count q < w_Count r \<or> (w_Count q = w_Count r \<and> w_Sequence q \<le> w_Sequence r)) ?ms"
  show ?thesis
  proof (cases "find ?P ?ms")
    case None
    then have "?ms = []" using greatest_exists[of ?ms w_Count w_Sequence] unfolding find_None_iff list_all_iff by blast
    with None show ?thesis by (simp add: latest_row_def first_latest_def)
  next
    case (Some r)
    then have "r \<in> set ?ms" "?P r" unfolding find_Some_iff by (metis nth_mem)+
    with Some show ?thesis by (auto simp: latest_row_def first_latest_def list_all_iff intro!: bexI[of _ r])
  qed
qed

lemma postgres_ok_plain: "postgres_ok (\<lambda>db. db) plain_postgres"
proof -
  have self: "seen (\<lambda>db. db) c c" for c :: "('p, 'a) command" by (simp add: seen_def)
  have devices: "distinct (sort (remdups (map (\<lambda>r. ck_DeviceID (w_Key r)) (filter (\<lambda>r. ck_UserID (w_Key r) = u) (db_rows db))))) \<and>
      set (sort (remdups (map (\<lambda>r. ck_DeviceID (w_Key r)) (filter (\<lambda>r. ck_UserID (w_Key r) = u) (db_rows db))))) = {d. of_device_rows u d db \<noteq> []}" for u db
    by (auto simp: of_device_rows_def filter_empty_conv)
  show ?thesis unfolding postgres_ok_def answers_def using devices
    by (simp add: plain_postgres_def self existing_def first_latest_ok)
qed

section \<open>The operations\<close>

lemma adopt_statements_ok:
  assumes "adopt_steps a db db'"
  shows "or_fails (adopt_statements plain_postgres nt a (a + day_nanos)) db () db'"
proof -
  from assms obtain d1 d2 d3 d4 where steps: "existing detach_default db = (Inr (), d1)" "existing (create_partition (partitionName a) a (a + day_nanos)) d1 = (Inr (), d2)"
    "existing (move_default a (a + day_nanos)) d2 = (Inr (), d3)" "existing (clear_default a (a + day_nanos)) d3 = (Inr (), d4)" "existing attach_default d4 = (Inr (), db')"
    by (auto simp: adopt_steps_def)
  show ?thesis unfolding adopt_statements_def plain_postgres_def postgres.simps
    by (rule or_fails_call, rule reply_def, rule or_fails_call, rule steps(1), rule or_fails_call, rule steps(2), rule or_fails_call, rule steps(3),
        rule or_fails_call, rule steps(4), rule or_fails_step, rule steps(5))
qed

lemma seen_adopt: "postgres_ok view pg \<Longrightarrow> seen view (adopt_statements pg nt a b) (adopt_statements plain_postgres nt a b)"
  unfolding adopt_statements_def by (intro server_seen) (simp_all add: postgres_ok_def plain_postgres_def)

lemma split_day_idem: "split_day a (split_day a db) = split_day a db"
  by (simp add: split_day_def new_part_def)

lemma adopt_ok:
  assumes "postgres_ok view pg" and "archive_ok (view p)" and "truncate_day a = a" and "four_digit_year a" and "adoptFromDefaultPartition pg nt a (a + day_nanos) p = (e, p')"
  shows "view p' \<in> {view p, split_day a (view p)} \<and> (e = None \<longrightarrow> view p' = split_day a (view p))"
proof -
  obtain res p1 where run: "adopt_statements pg nt a (a + day_nanos) p = (res, p1)" by fastforce
  from adopt_statements_ok[OF adopt_steps_ok[OF assms(2-4)], of nt] seen_run[OF seen_adopt[OF assms(1)] run]
  have "(\<exists>err. res = Inl err) \<or> (res = Inr () \<and> view p1 = split_day a (view p))" by (auto simp: or_fails_def)
  with run assms(5) show ?thesis by (auto simp: adoptFromDefaultPartition_def split: pg_call.splits)
qed

lemma create_ok:
  assumes "postgres_ok view pg" and "archive_ok (view p)" and "truncate_day a = a" and "pg_exec nt (pg_create pg (partitionName a) a (a + day_nanos)) p = (res, p')"
  shows "view p' \<in> {view p, split_day a (view p)} \<and> (\<forall>x. res = Inr x \<longrightarrow> view p' = split_day a (view p))"
proof -
  have s: "seen view (pg_exec nt (pg_create pg (partitionName a) a (a + day_nanos))) (pg_exec nt (existing (create_partition (partitionName a) a (a + day_nanos))))"
    using assms(1) by (intro server_seen) (simp add: postgres_ok_def)
  have "db_exists (view p)" using assms(2) by (simp add: archive_ok_def)
  with seen_run[OF s assms(4)] create_partition_ok[OF assms(2,3)] show ?thesis by (auto simp: pg_exec_def existing_def split: pg_call.splits)
qed

lemma EnsurePartition_ok:
  assumes "postgres_ok view pg" and "archive_ok (view p)" and "four_digit_year (truncate_day day)" and "EnsurePartition pg nt day p = (e, p')"
  shows "view p' \<in> {view p, split_day (truncate_day day) (view p)} \<and> (e = None \<longrightarrow> view p' = split_day (truncate_day day) (view p))"
proof -
  let ?a = "truncate_day day"
  have a: "truncate_day ?a = ?a" by simp
  obtain res p1 where run: "pg_exec (nt 0) (pg_create pg (partitionName ?a) ?a (?a + day_nanos)) p = (res, p1)" by fastforce
  from create_ok[OF assms(1,2) a run] have p1: "view p1 \<in> {view p, split_day ?a (view p)}" "\<And>x. res = Inr x \<Longrightarrow> view p1 = split_day ?a (view p)" by auto
  then have ok: "archive_ok (view p1)" using assms(2) split_day_ok(1)[OF assms(2) a assms(3)] by auto
  show ?thesis
  proof (cases res)
    case (Inr x)
    with run p1 assms(4) show ?thesis by (auto simp: EnsurePartition_def Let_def)
  next
    case (Inl err)
    show ?thesis
    proof (cases "defaultPartitionBlocked err")
      case True
      with run Inl assms(4) have "adoptFromDefaultPartition pg (\<lambda>i. nt (Suc i)) ?a (?a + day_nanos) p1 = (e, p')" by (simp add: EnsurePartition_def Let_def)
      from adopt_ok[OF assms(1) ok a assms(3) this] p1(1) show ?thesis by (auto simp: split_day_idem)
    next
      case False
      with run Inl p1(1) assms(4) show ?thesis by (auto simp: EnsurePartition_def Let_def)
    qed
  qed
qed

lemma ApplyWindow_ok:
  assumes "postgres_ok view pg" and "archive_ok (view (fst s))" and "pg_ApplyWindow pg metrics nt w s = (e, s')"
  shows "view (fst s') = view (fst s) \<and> e \<noteq> None \<or>
    archive_ok (view (fst s')) \<and> set (db_rows (view (fst s'))) =
      (if primary_key (stored_row w) \<in> primary_key ` set (db_rows (view (fst s))) then set (db_rows (view (fst s))) else insert (stored_row w) (set (db_rows (view (fst s)))))"
proof -
  have s: "seen view (pg_insert pg w) (existing (insert_row (stored_row w)))" using assms(1) by (simp add: postgres_ok_def)
  obtain n db' where ins: "insert_row (stored_row w) (view (fst s)) = (Inr n, db')" "archive_ok db'"
    "set (db_rows db') = (if primary_key (stored_row w) \<in> primary_key ` set (db_rows (view (fst s))) then set (db_rows (view (fst s))) else insert (stored_row w) (set (db_rows (view (fst s)))))"
    using insert_row_ok[OF assms(2), of "stored_row w"] by auto
  have run: "view (snd (pg_insert pg w (fst s))) = db'"
    using seen_run[OF s prod.collapse[symmetric], of "fst s"] ins(1) assms(2) by (simp add: existing_def archive_ok_def)
  obtain res p1 where ex: "pg_exec nt (pg_insert pg w) (fst s) = (res, p1)" by fastforce
  have p1: "fst s' = p1" and e: "e = None \<longrightarrow> (\<exists>x. res = Inr x)" using assms(3) ex by (auto simp: pg_ApplyWindow_def split: sum.splits if_splits)
  show ?thesis
  proof (cases nt)
    case (Refused err)
    with ex p1 e show ?thesis by (auto simp: pg_exec_def)
  qed (use ex p1 run ins in \<open>auto simp: pg_exec_def\<close>)
qed

section \<open>Retention\<close>

definition without :: "string set \<Rightarrow> archive_db \<Rightarrow> archive_db" where
  "without D db = db\<lparr>db_parts := filter (\<lambda>p. pt_name p \<notin> D) (db_parts db)\<rparr>"

lemma drop_loop_ok:
  assumes "postgres_ok view pg" and "db_exists (view p)" and "drop_loop pg nt boundary names n p = ((k, e), p')"
  shows "\<exists>D. D \<subseteq> {x \<in> set names. x \<noteq> default_name \<and> x < boundary} \<and> view p' = without D (view p) \<and> (e = None \<longrightarrow> D = {x \<in> set names. x \<noteq> default_name \<and> x < boundary})"
  using assms(2,3)
proof (induction names arbitrary: n p)
  case Nil
  then show ?case by (intro exI[of _ "{}"]) (auto simp: without_def)
next
  case (Cons name names)
  show ?case
  proof (cases "name = default_name \<or> boundary \<le> name")
    case True
    then have "drop_loop pg nt boundary names n p = ((k, e), p')" using Cons.prems(2) by simp
    from Cons.IH[OF Cons.prems(1) this] True show ?thesis by (auto simp: not_le[symmetric] cong: conj_cong)
  next
    case False
    obtain res p1 where ex: "pg_exec (nt n) (pg_drop pg name) p = (res, p1)" by fastforce
    have "seen view (pg_exec (nt n) (pg_drop pg name)) (pg_exec (nt n) (existing (drop_partition name)))" using assms(1) by (intro server_seen) (simp add: postgres_ok_def)
    from seen_run[OF this ex] Cons.prems(1) have p1: "view p1 = view p \<or> view p1 = without {name} (view p)" "\<And>x. res = Inr x \<Longrightarrow> view p1 = without {name} (view p)"
      by (auto simp: pg_exec_def existing_def drop_partition_def without_def split: pg_call.splits)
    have mine: "name \<noteq> default_name" "name < boundary" using False by auto
    show ?thesis
    proof (cases res)
      case (Inl err)
      then have "e \<noteq> None" "p' = p1" using Cons.prems(2) False ex by auto
      from p1(1) show ?thesis
      proof
        assume "view p1 = view p"
        with \<open>e \<noteq> None\<close> \<open>p' = p1\<close> show ?thesis by (intro exI[of _ "{}"]) (auto simp: without_def)
      next
        assume "view p1 = without {name} (view p)"
        with \<open>e \<noteq> None\<close> \<open>p' = p1\<close> mine show ?thesis by (intro exI[of _ "{name}"]) auto
      qed
    next
      case (Inr x)
      then have rest: "drop_loop pg nt boundary names (Suc n) p1 = ((k, e), p')" using Cons.prems(2) False ex by simp
      have v1: "view p1 = without {name} (view p)" by (rule p1(2)[OF Inr])
      then have "db_exists (view p1)" using Cons.prems(1) by (simp add: without_def)
      from Cons.IH[OF this rest] obtain D where D: "D \<subseteq> {x \<in> set names. x \<noteq> default_name \<and> x < boundary}" "view p' = without D (view p1)"
        "e = None \<longrightarrow> D = {x \<in> set names. x \<noteq> default_name \<and> x < boundary}" by blast
      have "view p' = without (insert name D) (view p)" unfolding D(2) v1 by (simp add: without_def conj_commute)
      moreover have "insert name D \<subseteq> {x \<in> set (name # names). x \<noteq> default_name \<and> x < boundary}" using D(1) mine by auto
      moreover have "e = None \<longrightarrow> insert name D = {x \<in> set (name # names). x \<noteq> default_name \<and> x < boundary}" using D(3) mine by auto
      ultimately show ?thesis by blast
    qed
  qed
qed

lemma without_ok:
  assumes "archive_ok db"
  shows "archive_ok (without D db)" and "set (db_rows (without D db)) = set (db_default db) \<union> (\<Union>p \<in> {p \<in> set (db_parts db). pt_name p \<notin> D}. set (pt_rows p))"
proof -
  show ok: "archive_ok (without D db)" using assms by (auto simp: archive_ok_def without_def distinct_map_filter)
  show "set (db_rows (without D db)) = set (db_default db) \<union> (\<Union>p \<in> {p \<in> set (db_parts db). pt_name p \<notin> D}. set (pt_rows p))"
    unfolding set_db_rows[OF ok] by (simp add: without_def)
qed

lemma part_name_before:
  assumes "archive_ok db" and "p \<in> set (db_parts db)" and "r \<in> set (pt_rows p)" and "four_digit_year cutoff"
  shows "pt_name p < partitionName cutoff \<longleftrightarrow> day_of (w_WindowStart r) < day_of cutoff"
proof -
  have p: "part_ok p" "holds p (w_WindowStart r)" using assms(1-3) row_held by (auto simp: archive_ok_def)
  then have from_day: "truncate_day (w_WindowStart r) = pt_from p" using holds_day by blast
  then have "day_of (w_WindowStart r) * day_nanos = day_of (pt_from p) * day_nanos" using p(1) by (metis day_of_truncate part_ok_def)
  then have "day_of (w_WindowStart r) = day_of (pt_from p)" by (simp add: day_nanos_def second_def)
  moreover have "pt_name p < partitionName cutoff \<longleftrightarrow> day_of (pt_from p) < day_of cutoff" using p(1) assms(4) partitionName_less by (simp add: part_ok_def)
  ultimately show ?thesis by simp
qed

lemma default_name_no_day:
  assumes "archive_ok db" and "p \<in> set (db_parts db)"
  shows "pt_name p \<noteq> default_name"
proof -
  have p: "pt_name p = partitionName (pt_from p)" "four_digit_year (pt_from p)" using assms by (simp_all add: archive_ok_def part_ok_def)
  obtain ds where ds: "partitionName (pt_from p) = ''aggregate_windows_'' @ ds" "length ds = 8" using partitionName_digits[OF p(2)] by blast
  have "length (pt_name p) = 26" using ds p(1) by simp
  then show ?thesis by (auto simp: default_name_def)
qed

section \<open>Properties\<close>

text \<open>
  Property C10 (retention drops whole past days). Over a server that runs the statements as they are meant, and in an archive in order, dropping the partitions before an instant removes no row of the day of the instant or of
  a later one and none of the default partition, whatever calls fail; and if it returns no error, no row of an earlier day is left outside the default partition. The archive stays in order.
\<close>

theorem drop_partitions_exact:
  assumes "postgres_ok view pg" and "archive_ok (view p)" and "four_digit_year cutoff" and "DropPartitionsBefore pg nt0 rows nt cutoff p = ((k, e), p')"
  shows "archive_ok (view p') \<and> set (db_rows (view p')) \<subseteq> set (db_rows (view p)) \<and>
    (\<forall>r \<in> set (db_rows (view p)) - set (db_rows (view p')). day_of (w_WindowStart r) < day_of cutoff \<and> r \<notin> set (db_default (view p))) \<and>
    (e = None \<longrightarrow> (\<forall>r \<in> set (db_rows (view p')). day_of (w_WindowStart r) < day_of cutoff \<longrightarrow> r \<in> set (db_default (view p))))"
proof -
  have exists: "db_exists (view p)" using assms(2) by (simp add: archive_ok_def)
  have list: "answers view (pg_partitions pg) (\<lambda>db x. distinct x \<and> set x = set (partition_names db))" using assms(1) by (simp add: postgres_ok_def)
  obtain res p1 where ex: "pg_exec nt0 (pg_partitions pg) p = (res, p1)" by fastforce
  have v1: "view p1 = view p" and names: "\<And>names. res = Inr names \<Longrightarrow> set names = set (partition_names (view p))"
    using list[unfolded answers_def, rule_format, of p] ex exists by (auto simp: pg_exec_def split: pg_call.splits)
  have "\<exists>D. D \<subseteq> {x \<in> set (partition_names (view p)). x \<noteq> default_name \<and> x < partitionName cutoff} \<and> view p' = without D (view p) \<and>
      (e = None \<longrightarrow> D = {x \<in> set (partition_names (view p)). x \<noteq> default_name \<and> x < partitionName cutoff})"
  proof (cases "\<exists>ns. res = Inr ns \<and> rows = AllRows")
    case True
    then obtain ns where ns: "res = Inr ns" "rows = AllRows" by blast
    then have "drop_loop pg nt (partitionName cutoff) ns 0 p1 = ((k, e), p')" using assms(4) ex by (simp add: DropPartitionsBefore_def)
    from drop_loop_ok[OF assms(1) _ this] show ?thesis unfolding v1 names[OF ns(1)] using exists by blast
  next
    case False
    then have "view p' = view p" "e \<noteq> None" using assms(4) ex v1 by (auto simp: DropPartitionsBefore_def split: sum.splits pg_rows.splits)
    then show ?thesis by (intro exI[of _ "{}"]) (auto simp: without_def)
  qed
  then obtain D where D: "D \<subseteq> {x. x < partitionName cutoff}" "view p' = without D (view p)"
    "e = None \<Longrightarrow> D = {x \<in> set (partition_names (view p)). x \<noteq> default_name \<and> x < partitionName cutoff}" by auto
  note w = without_ok[OF assms(2), of D, folded D(2)]
  have gone: "day_of (w_WindowStart r) < day_of cutoff \<and> r \<notin> set (db_default (view p))" if "r \<in> set (db_rows (view p))" "r \<notin> set (db_rows (view p'))" for r
  proof -
    from that obtain q where q: "q \<in> set (db_parts (view p))" "r \<in> set (pt_rows q)" "pt_name q \<in> D" "r \<notin> set (db_default (view p))" unfolding w(2) set_db_rows[OF assms(2)] by auto
    with part_name_before[OF assms(2) q(1,2) assms(3)] D(1) show ?thesis by auto
  qed
  have left: "r \<in> set (db_default (view p))" if "e = None" "r \<in> set (db_rows (view p'))" "day_of (w_WindowStart r) < day_of cutoff" for r
  proof (rule ccontr)
    assume "r \<notin> set (db_default (view p))"
    with that(2) obtain q where q: "q \<in> set (db_parts (view p))" "r \<in> set (pt_rows q)" "pt_name q \<notin> D" unfolding w(2) by auto
    have "pt_name q < partitionName cutoff" using part_name_before[OF assms(2) q(1,2) assms(3)] that(3) by simp
    with q default_name_no_day[OF assms(2) q(1)] D(3)[OF that(1)] show False by (auto simp: partition_names_def)
  qed
  have "set (db_rows (view p')) \<subseteq> set (db_rows (view p))" unfolding w(2) set_db_rows[OF assms(2)] by auto
  then show ?thesis using w(1) gone left by blast
qed

text \<open>Rows of two days and one without a partition; the first day goes.\<close>

definition ex_row :: "int \<Rightarrow> AggregateWindow" where
  "ex_row day = (ex_window ''u'' day 1)\<lparr>w_WindowStart := day * day_nanos, w_WindowEnd := day * day_nanos + second\<rparr>"

definition ex_archive :: archive_db where
  "ex_archive = \<lparr>db_exists = True, db_attached = True, db_default = [ex_row 5], db_parts = [new_part 0 [ex_row 0], new_part day_nanos [ex_row 1]]\<rparr>"

lemma ex_days: "partitionName 0 = ''aggregate_windows_19700101''" "partitionName day_nanos = ''aggregate_windows_19700102''" "four_digit_year 0" "four_digit_year day_nanos"
  "truncate_day 0 = 0" "truncate_day day_nanos = day_nanos" "day_of (1 * day_nanos) = 1" "day_of 0 = 0" "day_of (5 * day_nanos) = 5"
  by code_simp+

lemma ex_archive_ok: "archive_ok ex_archive"
  by (simp add: archive_ok_def ex_archive_def part_ok_def new_part_def holds_def ex_row_def ex_window_def ex_days) (simp add: day_nanos_def second_def)

theorem drop_partitions_exact_witness:
  "ex_row 0 \<notin> set (db_rows (snd (DropPartitionsBefore plain_postgres Answered AllRows (\<lambda>_. Answered) day_nanos ex_archive))) \<and>
   ex_row 1 \<in> set (db_rows (snd (DropPartitionsBefore plain_postgres Answered AllRows (\<lambda>_. Answered) day_nanos ex_archive)))"
proof -
  let ?run = "DropPartitionsBefore plain_postgres Answered AllRows (\<lambda>_. Answered) day_nanos ex_archive"
  have none: "snd (fst ?run) = None"
    by (simp add: DropPartitionsBefore_def pg_exec_def plain_postgres_def existing_def ex_archive_def partition_names_def new_part_def ex_days default_name_def drop_partition_def)
  have rows: "set (db_rows ex_archive) = {ex_row 0, ex_row 1, ex_row 5}" "set (db_default ex_archive) = {ex_row 5}" by (auto simp: ex_archive_def db_rows_def new_part_def)
  have differ: "ex_row 0 \<noteq> ex_row 5" by (simp add: ex_row_def ex_window_def)
  have days: "day_of (w_WindowStart (ex_row 0)) = 0" "day_of (w_WindowStart (ex_row 1)) = 1" "day_of day_nanos = 1" using ex_days by (simp_all add: ex_row_def)
  have "?run = ((fst (fst ?run), snd (fst ?run)), snd ?run)" by simp
  from drop_partitions_exact[OF postgres_ok_plain ex_archive_ok ex_days(4) this, unfolded rows(1)]
  have gone: "\<And>r. r \<in> {ex_row 0, ex_row 1, ex_row 5} \<Longrightarrow> r \<notin> set (db_rows (snd ?run)) \<Longrightarrow> day_of (w_WindowStart r) < day_of day_nanos"
    and left: "\<And>r. r \<in> set (db_rows (snd ?run)) \<Longrightarrow> day_of (w_WindowStart r) < day_of day_nanos \<Longrightarrow> r \<in> {ex_row 5}" using none rows(2) by blast+
  have "ex_row 1 \<in> set (db_rows (snd ?run))" using gone[of "ex_row 1"] days by fastforce
  moreover have "ex_row 0 \<notin> set (db_rows (snd ?run))" using left[of "ex_row 0"] days differ by fastforce
  ultimately show ?thesis by blast
qed

end
