(* ===== verification/ArchiveAgrees.thy ===== *)
theory ArchiveAgrees
  imports PostgresArchive
begin

text \<open>
  The archive and the in-memory store show the same counters (\<^verbatim>\<open>internal/postgresstore\<close> and \<^verbatim>\<open>internal/store\<close>): what \<^verbatim>\<open>internal/app\<close> falls back on when the hot store does not answer.
\<close>

section \<open>Rows as a set\<close>

lemma distinct_concat_rows:
  "distinct ps \<Longrightarrow> \<forall>p \<in> set ps. distinct (pt_rows p) \<Longrightarrow> \<forall>p \<in> set ps. \<forall>q \<in> set ps. p \<noteq> q \<longrightarrow> set (pt_rows p) \<inter> set (pt_rows q) = {} \<Longrightarrow> distinct (concat (map pt_rows ps))"
  by (induction ps) auto

lemma distinct_db_rows:
  assumes "archive_ok db"
  shows "distinct (db_rows db)"
proof -
  have part: "distinct (pt_rows p)" if "p \<in> set (db_parts db)" for p using assms that by (auto simp: archive_ok_def part_ok_def distinct_map)
  have apart: "p = q" if "p \<in> set (db_parts db)" "q \<in> set (db_parts db)" "r \<in> set (pt_rows p)" "r \<in> set (pt_rows q)" for p q r
    using one_partition[OF assms that(1,2)] row_held[OF assms] that by blast
  have "distinct (concat (map pt_rows (db_parts db)))"
  proof (rule distinct_concat_rows)
    show "distinct (db_parts db)" using assms by (simp add: archive_ok_def distinct_map)
  qed (use part apart in blast)+
  moreover have "distinct (db_default db)" using assms by (simp add: archive_ok_def distinct_map)
  moreover have "\<not> holds p (w_WindowStart r)" if "r \<in> set (db_default db)" "p \<in> set (db_parts db)" for r p using assms that by (simp add: archive_ok_def)
  then have "set (db_default db) \<inter> set (concat (map pt_rows (db_parts db))) = {}" using row_held[OF assms] by fastforce
  ultimately show ?thesis using assms by (simp add: db_rows_def archive_ok_def)
qed

section \<open>Runs\<close>

text \<open>Writers of the archive and those who prepare partitions, in any order, each call with what it met.\<close>

datatype archive_call = Archive pg_call AggregateWindow | Prepare "nat \<Rightarrow> pg_call" time

definition archive_step :: "'p postgres \<Rightarrow> 'm MetricsRecorder \<Rightarrow> archive_call \<Rightarrow> 'p \<times> 'm \<Rightarrow> error option \<times> ('p \<times> 'm)" where
  "archive_step pg metrics c s =
     (case c of
        Archive nt w \<Rightarrow> pg_ApplyWindow pg metrics nt w s
      | Prepare nt day \<Rightarrow> (case EnsurePartition pg nt day (fst s) of (e, p) \<Rightarrow> (e, (p, snd s))))"

fun archive_run :: "'p postgres \<Rightarrow> 'm MetricsRecorder \<Rightarrow> archive_call list \<Rightarrow> 'p \<times> 'm \<Rightarrow> error option list \<times> ('p \<times> 'm)" where
  "archive_run pg metrics [] s = ([], s)"
| "archive_run pg metrics (c # cs) s = (let (e, s1) = archive_step pg metrics c s; (es, s2) = archive_run pg metrics cs s1 in (e # es, s2))"

text \<open>The windows of the calls that took effect.\<close>

fun written :: "archive_call list \<Rightarrow> error option list \<Rightarrow> AggregateWindow list \<Rightarrow> bool" where
  "written [] [] ws \<longleftrightarrow> ws = []"
| "written (Archive nt w # cs) (e # es) ws \<longleftrightarrow> (\<exists>ws'. ws = w # ws' \<and> written cs es ws') \<or> (e \<noteq> None \<and> written cs es ws)"
| "written (Prepare nt day # cs) (e # es) ws \<longleftrightarrow> written cs es ws"
| "written _ _ ws \<longleftrightarrow> False"

definition archived :: "archive_call list \<Rightarrow> AggregateWindow set" where
  "archived cs = {w. \<exists>nt. Archive nt w \<in> set cs}"

definition prepares_ok :: "archive_call list \<Rightarrow> bool" where
  "prepares_ok cs \<longleftrightarrow> (\<forall>nt day. Prepare nt day \<in> set cs \<longrightarrow> four_digit_year (truncate_day day))"

lemma written_archived: "written cs es ws \<Longrightarrow> set ws \<subseteq> archived cs"
  by (induction cs es ws rule: written.induct) (fastforce simp: archived_def)+

lemma archive_run_rows:
  assumes "postgres_ok view pg" and "archive_ok (view (fst s))" and "prepares_ok cs" and "inj_on (primary_key \<circ> stored_row) (W \<union> archived cs)" and "set (db_rows (view (fst s))) = stored_row ` W"
    and "archive_run pg metrics cs s = (es, s')"
  shows "\<exists>ws. written cs es ws \<and> archive_ok (view (fst s')) \<and> set (db_rows (view (fst s'))) = stored_row ` (W \<union> set ws)"
  using assms(2-6)
proof (induction cs arbitrary: s es W)
  case Nil
  then have "written [] es [] \<and> archive_ok (view (fst s')) \<and> set (db_rows (view (fst s'))) = stored_row ` (W \<union> set [])" by simp
  then show ?case by blast
next
  case (Cons c cs)
  obtain e s1 es1 where run: "archive_step pg metrics c s = (e, s1)" "archive_run pg metrics cs s1 = (es1, s')" "es = e # es1" using Cons.prems(5) by (auto simp: Let_def split: prod.splits)
  have cs: "prepares_ok cs" using Cons.prems(2) by (auto simp: prepares_ok_def)
  have sub: "archived cs \<subseteq> archived (c # cs)" by (auto simp: archived_def)
  show ?case
  proof (cases c)
    case (Prepare nt day)
    obtain p where p: "EnsurePartition pg nt day (fst s) = (e, p)" "fst s1 = p" using run(1) Prepare by (auto simp: archive_step_def split: prod.splits)
    have day: "four_digit_year (truncate_day day)" using Cons.prems(2) Prepare by (auto simp: prepares_ok_def)
    have "view p = view (fst s) \<or> view p = split_day (truncate_day day) (view (fst s))" using EnsurePartition_ok[OF assms(1) Cons.prems(1) day p(1)] by auto
    then have ok: "archive_ok (view (fst s1))" "set (db_rows (view (fst s1))) = stored_row ` W"
      using p(2) Cons.prems(1,4) split_day_ok[OF Cons.prems(1) truncate_day_idem day] by auto
    have inj: "inj_on (primary_key \<circ> stored_row) (W \<union> archived cs)" by (rule inj_on_subset[OF Cons.prems(3)]) (use sub in blast)
    from Cons.IH[OF ok(1) cs inj ok(2) run(2)] show ?thesis using Prepare run(3) by simp
  next
    case (Archive nt w)
    have step: "pg_ApplyWindow pg metrics nt w s = (e, s1)" using run(1) Archive by (simp add: archive_step_def)
    have w: "w \<in> archived (c # cs)" using Archive by (auto simp: archived_def)
    from ApplyWindow_ok[OF assms(1) Cons.prems(1) step] show ?thesis
    proof
      assume same: "view (fst s1) = view (fst s) \<and> e \<noteq> None"
      have inj: "inj_on (primary_key \<circ> stored_row) (W \<union> archived cs)" by (rule inj_on_subset[OF Cons.prems(3)]) (use sub in blast)
      from Cons.IH[OF _ cs inj _ run(2)] same Cons.prems(1,4) show ?thesis using Archive run(3) by auto
    next
      let ?known = "primary_key (stored_row w) \<in> primary_key ` set (db_rows (view (fst s)))"
      assume new: "archive_ok (view (fst s1)) \<and> set (db_rows (view (fst s1))) = (if ?known then set (db_rows (view (fst s))) else insert (stored_row w) (set (db_rows (view (fst s)))))"
      have "stored_row w \<in> stored_row ` W" if known: ?known
      proof -
        obtain v where "v \<in> W" "primary_key (stored_row w) = primary_key (stored_row v)" using known Cons.prems(4) by auto
        then have "v = w" using inj_onD[OF Cons.prems(3), of v w] w by auto
        with \<open>v \<in> W\<close> show ?thesis by blast
      qed
      then have rows: "set (db_rows (view (fst s1))) = stored_row ` insert w W" using new Cons.prems(4) by auto
      have inj: "inj_on (primary_key \<circ> stored_row) (insert w W \<union> archived cs)" by (rule inj_on_subset[OF Cons.prems(3)]) (use sub w in blast)
      obtain ws where "written cs es1 ws" "archive_ok (view (fst s'))" "set (db_rows (view (fst s'))) = stored_row ` (insert w W \<union> set ws)"
        using Cons.IH[OF _ cs inj rows run(2)] new by blast
      then show ?thesis using Archive run(3) by (intro exI[of _ "w # ws"]) simp
    qed
  qed
qed

section \<open>Reading\<close>

definition windows_of :: "string \<Rightarrow> string \<Rightarrow> AggregateWindow set \<Rightarrow> AggregateWindow set" where
  "windows_of u d W = {w \<in> W. ck_UserID (w_Key w) = u \<and> ck_DeviceID (w_Key w) = d}"

lemma stored_row_simps [simp]:
  "w_Key (stored_row w) = w_Key w" "w_WindowID (stored_row w) = w_WindowID w" "w_Sequence (stored_row w) = w_Sequence w" "w_Count (stored_row w) = w_Count w"
  "w_ErrorCount (stored_row w) = w_ErrorCount w" "w_Bytes (stored_row w) = w_Bytes w"
  by (simp_all add: stored_row_def)

lemma device_rows:
  assumes "archive_ok db" and "set (db_rows db) = stored_row ` W"
  shows "set (of_device_rows u d db) = stored_row ` windows_of u d W" and "distinct (of_device_rows u d db)"
  using distinct_db_rows[OF assms(1)] assms(2) by (auto simp: of_device_rows_def windows_of_def)

lemma sum_rows:
  fixes f :: "AggregateWindow \<Rightarrow> int"
  assumes "archive_ok db" and "set (db_rows db) = stored_row ` W" and "inj_on (primary_key \<circ> stored_row) W" and "\<And>w. f (stored_row w) = f w"
  shows "sum_list (map f (of_device_rows u d db)) = sum f (windows_of u d W)"
proof -
  have inj: "inj_on stored_row (windows_of u d W)" using assms(3) by (auto simp: inj_on_def windows_of_def)
  have "sum_list (map f (of_device_rows u d db)) = sum f (stored_row ` windows_of u d W)"
    using device_rows[OF assms(1,2)] by (simp add: sum_list_distinct_conv_sum_set)
  also have "\<dots> = sum f (windows_of u d W)" using sum.reindex[OF inj, of f] assms(4) by simp
  finally show ?thesis .
qed

lemma answers_run: "answers view c Q \<Longrightarrow> db_exists (view s) \<Longrightarrow> \<exists>x s'. c s = (Inr x, s') \<and> view s' = view s \<and> Q (view s) x"
  unfolding answers_def by (metis prod.collapse)

lemma postgres_reads:
  assumes "postgres_ok view pg" and "db_exists (view p)"
  shows "\<exists>p'. pg_sums pg u d p = (Inr (sums_of (of_device_rows u d (view p))), p') \<and> view p' = view p"
    and "\<exists>p'. pg_exists pg u d p = (Inr (of_device_rows u d (view p) \<noteq> []), p') \<and> view p' = view p"
    and "\<exists>x p'. pg_latest pg u d i p = (Inr x, p') \<and> view p' = view p \<and> latest_row (of_device_rows u d (view p)) i x"
proof -
  have "answers view (pg_sums pg u d) (\<lambda>db x. x = sums_of (of_device_rows u d db))" "answers view (pg_exists pg u d) (\<lambda>db x. x = (of_device_rows u d db \<noteq> []))"
    "answers view (pg_latest pg u d i) (\<lambda>db. latest_row (of_device_rows u d db) i)" using assms(1) by (simp_all add: postgres_ok_def)
  from this[THEN answers_run, OF assms(2)] show "\<exists>p'. pg_sums pg u d p = (Inr (sums_of (of_device_rows u d (view p))), p') \<and> view p' = view p"
    "\<exists>p'. pg_exists pg u d p = (Inr (of_device_rows u d (view p) \<noteq> []), p') \<and> view p' = view p"
    "\<exists>x p'. pg_latest pg u d i p = (Inr x, p') \<and> view p' = view p \<and> latest_row (of_device_rows u d (view p)) i x" by auto
qed

text \<open>The counters of a device in the archive, undisturbed: the sums over its windows and the greatest id, or that it is not found.\<close>

lemma pg_DeviceState_rows:
  fixes u d :: string
  assumes "postgres_ok view pg" and "archive_ok (view p)" and "set (db_rows (view p)) = stored_row ` W" and "inj_on (primary_key \<circ> stored_row) W"
  defines "D \<equiv> windows_of u d W"
  defines "L \<equiv> if D = {} then 0 else Max (w_WindowID ` D)"
  assumes "in_i64 (sum w_Count D)" and "in_i64 (sum w_ErrorCount D)" and "in_i64 (sum w_Bytes D)" and "in_i64 L"
  shows "if D = {} then fst (pg_DeviceState pg (\<lambda>_. Answered) (\<lambda>_ p. p) u d p) = Inl ErrPostgresDeviceNotFound
    else \<exists>s. fst (pg_DeviceState pg (\<lambda>_. Answered) (\<lambda>_ p. p) u d p) = Inr s \<and> ds_Count s = sum w_Count D \<and> ds_ErrorCount s = sum w_ErrorCount D \<and> ds_Bytes s = sum w_Bytes D \<and> ds_LastWindowID s = L"
proof -
  have ex: "db_exists (view p)" using assms(2) by (simp add: archive_ok_def)
  note sums = sum_rows[OF assms(2-4), of _ u d, folded D_def]
  have rows: "set (of_device_rows u d (view p)) = stored_row ` D" using device_rows(1)[OF assms(2,3)] by (simp add: D_def)
  have empty: "of_device_rows u d (view p) = [] \<longleftrightarrow> D = {}" using rows by (metis image_is_empty set_empty)
  have "w_WindowID ` set (of_device_rows u d (view p)) = w_WindowID ` D" unfolding rows image_image by simp
  then have totals: "sums_of (of_device_rows u d (view p)) = (sum w_Count D, sum w_ErrorCount D, sum w_Bytes D, L)" by (simp add: sums_of_def sums empty L_def)
  obtain p1 where r1: "pg_sums pg u d p = (Inr (sum w_Count D, sum w_ErrorCount D, sum w_Bytes D, L), p1)" and v1: "view p1 = view p"
    using postgres_reads(1)[OF assms(1) ex, of u d] totals by auto
  have scan: "scan_sums (sum w_Count D, sum w_ErrorCount D, sum w_Bytes D, L) = Inr (sum w_Count D, sum w_ErrorCount D, sum w_Bytes D, L)" using assms(7-10) by (simp add: scan_sums_def)
  obtain p2 where r2: "pg_exists pg u d p1 = (Inr (D \<noteq> {}), p2)" and v2: "view p2 = view p"
    using postgres_reads(2)[OF assms(1), of p1 u d] ex v1 empty by auto
  have latest: "\<exists>s. fst (read_percentiles pg Answered u d (sum w_Count D, sum w_ErrorCount D, sum w_Bytes D, L) q) = Inr s \<and>
      ds_Count s = sum w_Count D \<and> ds_ErrorCount s = sum w_ErrorCount D \<and> ds_Bytes s = sum w_Bytes D \<and> ds_LastWindowID s = L" if "view q = view p" for q
  proof -
    obtain ans q' where "pg_latest pg u d L q = (Inr ans, q')"
      using postgres_reads(3)[OF assms(1), of q u d L] ex \<open>view q = view p\<close> by auto
    then show ?thesis by (cases ans) (auto simp: read_percentiles_def pg_exec_def Let_def)
  qed
  have zero: "D = {} \<Longrightarrow> sum w_Count D = 0 \<and> L = 0" by (simp add: L_def)
  have run: "fst (pg_DeviceState pg (\<lambda>_. Answered) (\<lambda>_ p. p) u d p) =
      (if sum w_Count D = 0 \<and> L = 0 \<and> D = {} then Inl ErrPostgresDeviceNotFound
       else fst (read_percentiles pg Answered u d (sum w_Count D, sum w_ErrorCount D, sum w_Bytes D, L) (if sum w_Count D = 0 \<and> L = 0 then p2 else p1)))"
    by (simp add: pg_DeviceState_def pg_exec_def r1 scan r2)
  show ?thesis unfolding run using latest[of "if sum w_Count D = 0 \<and> L = 0 then p2 else p1"] v1 v2 zero by simp
qed

section \<open>The in-memory store\<close>

lemma memory_total_i64: "in_i64 (dev_total c k (deliver_all ws NewMemory))"
proof (induction ws rule: rev_induct)
  case Nil
  then show ?case by (simp add: deliver_all_def dev_total_def NewMemory_def in_i64_def MinInt64_def MaxInt64_def)
next
  case (snoc w ws)
  then show ?case using memory.total_write[of c k w "deliver_all ws NewMemory"] by (simp add: deliver_all_def)
qed

lemma memory_totals:
  assumes "inj_on Identity {w \<in> set ws. dkey w = k}" and "in_i64 (\<Sum>w \<in> {w \<in> set ws. dkey w = k}. of_window c w)"
  shows "dev_total c k (deliver_all ws NewMemory) = (\<Sum>w \<in> {w \<in> set ws. dkey w = k}. of_window c w)"
proof -
  have "wrap64 (dev_total c k (deliver_all ws NewMemory)) = wrap64 (\<Sum>w \<in> {w \<in> set ws. dkey w = k}. of_window c w)"
    using memory.deliver_total[OF assms(1), of c NewMemory] by (simp add: deliver_all_memory memory.fresh_def dev_total_def dev_applied_def NewMemory_def)
  then show ?thesis using memory_total_i64[of c k ws] assms(2) by (simp add: wrap64_id)
qed

lemma memory_record:
  assumes "inj_on Identity {w \<in> set ws. dkey w = k}"
  shows "(case mem_devices (deliver_all ws NewMemory) k of None \<Rightarrow> {w \<in> set ws. dkey w = k} = {} | Some r \<Rightarrow> {w \<in> set ws. dkey w = k} \<noteq> {} \<and> latest {w \<in> set ws. dkey w = k} r)"
proof -
  have new: "mem_devices (deliver_all ws NewMemory) k \<noteq> None \<longrightarrow> {w \<in> set ws. dkey w = k} \<noteq> {}"
  proof (induction ws rule: rev_induct)
    case (snoc w ws)
    then show ?case by (auto simp: deliver_all_def ApplyWindow_devices)
  qed (simp add: deliver_all_def NewMemory_def)
  show ?thesis using deliver_all_latest[of "rev ws" k] assms new by (auto simp: latest_at_def split: option.split)
qed

lemma latest_is_Max:
  assumes "latest W r" and "W \<noteq> {}" and "finite W" and "\<forall>w \<in> W. 0 \<le> w_WindowID w"
  shows "ds_LastWindowID (dr_state r) = Max (w_WindowID ` W)"
proof -
  let ?L = "ds_LastWindowID (dr_state r)"
  have L: "0 \<le> ?L" "\<forall>w \<in> W. w_WindowID w \<le> ?L" "0 < ?L \<longrightarrow> (\<exists>w \<in> W. w_WindowID w = ?L)" using assms(1) by (auto simp: latest_def Let_def)
  have "\<exists>w \<in> W. w_WindowID w = ?L"
  proof (cases "0 < ?L")
    case False
    obtain w where "w \<in> W" using assms(2) by blast
    then have "w_WindowID w = ?L" using L(1,2) assms(4) False by fastforce
    with \<open>w \<in> W\<close> show ?thesis by blast
  qed (use L(3) in blast)
  then have "?L \<in> w_WindowID ` W" by (metis image_eqI)
  then show ?thesis using L(2) assms(3) by (intro Max_eqI[symmetric]) auto
qed

section \<open>Property\<close>

definition volume :: "AggregateWindow \<Rightarrow> int" where "volume w = w_Count w + w_ErrorCount w + w_Bytes w"

definition archivable :: "AggregateWindow \<Rightarrow> bool" where
  "archivable w \<longleftrightarrow> CHR ''}'' \<notin> set (ck_UserID (w_Key w)) \<and> 0 \<le> w_WindowID w \<and> in_i64 (w_WindowID w) \<and> 0 \<le> w_Count w \<and> 0 \<le> w_ErrorCount w \<and> 0 \<le> w_Bytes w"

lemma finite_archived: "finite (archived cs)"
proof -
  have "archived cs \<subseteq> (\<lambda>c. case c of Archive nt w \<Rightarrow> w | Prepare nt day \<Rightarrow> undefined) ` set cs" by (force simp: archived_def)
  then show ?thesis by (rule finite_subset) simp
qed

lemma sums_fit:
  assumes "\<forall>w \<in> A. archivable w" and "finite A" and "(\<Sum>w \<in> A. volume w) \<le> MaxInt64" and "W \<subseteq> A"
  shows "in_i64 (sum w_Count W)" and "in_i64 (sum w_ErrorCount W)" and "in_i64 (sum w_Bytes W)"
proof -
  have "0 \<le> sum f W \<and> sum f W \<le> MaxInt64" if f: "\<And>w. w \<in> A \<Longrightarrow> 0 \<le> f w \<and> f w \<le> volume w" for f
  proof
    show "0 \<le> sum f W" using f assms(4) by (intro sum_nonneg) auto
    have "sum f W \<le> sum f A" using f assms(2,4) by (intro sum_mono2) auto
    also have "\<dots> \<le> sum volume A" using f by (intro sum_mono) auto
    finally show "sum f W \<le> MaxInt64" using assms(3) by simp
  qed
  from this[of w_Count] this[of w_ErrorCount] this[of w_Bytes] show "in_i64 (sum w_Count W)" "in_i64 (sum w_ErrorCount W)" "in_i64 (sum w_Bytes W)"
    using assms(1) by (auto simp: archivable_def volume_def in_i64_def MinInt64_def)
qed

lemma key_inj: "inj_on Identity A \<Longrightarrow> inj_on (primary_key \<circ> stored_row) A"
  by (rule inj_onI) (auto simp: primary_key_def Identity_def inj_on_def)

lemma device_windows:
  assumes "\<forall>w \<in> W. archivable w" and "CHR ''}'' \<notin> set u"
  shows "windows_of u d W = {w \<in> W. dkey w = deviceKey u d}"
proof -
  have "dkey w = deviceKey u d \<longleftrightarrow> ck_UserID (w_Key w) = u \<and> ck_DeviceID (w_Key w) = d" if "w \<in> W" for w
    using deviceKey_inj[of "ck_UserID (w_Key w)" u "ck_DeviceID (w_Key w)" d] assms that by (auto simp: dkey_def archivable_def)
  then show ?thesis by (auto simp: windows_of_def)
qed


text \<open>A window that is written twice, once without an answer, before the partition of its day exists, and one whose write is refused.\<close>

definition ex_archive_calls :: "archive_call list" where
  "ex_archive_calls = [Archive (Lost ErrCanceled) (ex_row 0), Prepare (\<lambda>_. Answered) 7, Archive Answered (ex_row 0), Archive (Refused ErrCanceled) (ex_row 1)]"

definition ex_fresh :: archive_db where "ex_fresh = \<lparr>db_exists = True, db_attached = True, db_default = [], db_parts = []\<rparr>"


end
