(* ===== verification/Metrics.thy ===== *)
theory Metrics
  imports Services "HOL-Library.Multiset"
begin

text \<open>
  The metrics recorders (\<^verbatim>\<open>internal/metrics\<close>): the list of known counters, the names and counters of the Prometheus recorder, the fan-out, and the
  asynchronous recorder, whose callers, draining goroutine and \<^verbatim>\<open>Close\<close> are the threads of a step relation. The Prometheus registry is a
  parameter. The lemmas say which samples are recorded, and which can be lost.
\<close>

section \<open>Known counters (known.go)\<close>

definition KnownCounters :: "string list" where
  "KnownCounters =
    [''agent_batches_sent'', ''agent_batches_spooled'', ''agent_batches_drained'', ''agent_spool_dropped'', ''agent_batches_refused'',
     ''agent_spool_release_failed'', ''http_ingest_accepted'', ''http_ingest_rejected'', ''http_ingest_unauthenticated'',
     ''ingest_batches_accepted'', ''ingest_batches_rejected'', ''ingest_events_accepted'', ''kafka_published'', ''kafka_consumed'',
     ''kafka_retried'', ''kafka_dead_letter'', ''aggregator_batches_consumed'', ''aggregator_windows_emitted'', ''aggregator_windows_retained'',
     ''aggregator_events_shed'', ''persister_windows_persisted'', ''postgres_windows_persisted'', ''postgres_windows_duplicate'',
     ''windows_applied'', ''windows_duplicate'', ''events_counted'', ''errors_counted'', ''device_resets'', ''commands_applied'',
     ''commands_rejected'', ''watch_updates_dropped'', ''consumer_handler_errors'', ''runtime_stage_failures'']"

section \<open>The Prometheus recorder (prometheus.go)\<close>

definition namespace :: string where "namespace = ''ironclaw''"

text \<open>The length of the first rune of a non-empty text in UTF-8; a byte that begins no valid encoding counts as one rune.\<close>

definition in_range :: "nat \<Rightarrow> nat \<Rightarrow> char \<Rightarrow> bool" where
  "in_range lo hi c \<longleftrightarrow> lo \<le> of_char c \<and> of_char c \<le> hi"

definition continues :: "char list \<Rightarrow> nat \<Rightarrow> nat \<Rightarrow> nat \<Rightarrow> bool" where
  "continues rest n lo hi \<longleftrightarrow> n \<le> length rest \<and> in_range lo hi (rest ! 0) \<and> list_all (in_range 0x80 0xBF) (take (n - 1) (tl rest))"

definition rune_length :: "char \<Rightarrow> string \<Rightarrow> nat" where
  "rune_length c rest =
     (if in_range 0xC2 0xDF c \<and> continues rest 1 0x80 0xBF then 2
      else if in_range 0xE0 0xE0 c \<and> continues rest 2 0xA0 0xBF then 3
      else if (in_range 0xE1 0xEC c \<or> in_range 0xEE 0xEF c) \<and> continues rest 2 0x80 0xBF then 3
      else if in_range 0xED 0xED c \<and> continues rest 2 0x80 0x9F then 3
      else if in_range 0xF0 0xF0 c \<and> continues rest 3 0x90 0xBF then 4
      else if in_range 0xF1 0xF3 c \<and> continues rest 3 0x80 0xBF then 4
      else if in_range 0xF4 0xF4 c \<and> continues rest 3 0x80 0x8F then 4
      else 1)"

definition name_char :: "char \<Rightarrow> bool" where
  "name_char c \<longleftrightarrow> in_range 97 122 c \<or> in_range 65 90 c \<or> in_range 48 57 c \<or> c = CHR ''_''"

function replace_invalid :: "string \<Rightarrow> string" where
  "replace_invalid [] = []"
| "replace_invalid (c # rest) = (if name_char c then c else CHR ''_'') # replace_invalid (drop (rune_length c rest - 1) rest)"
  by pat_completeness auto
termination by (relation "measure length") (auto simp: le_imp_less_Suc)

definition trim_char :: "char \<Rightarrow> string \<Rightarrow> string" where
  "trim_char c s = rev (dropWhile (\<lambda>x. x = c) (rev (dropWhile (\<lambda>x. x = c) s)))"

definition lower_char :: "char \<Rightarrow> char" where
  "lower_char c = (if in_range 65 90 c then char_of (of_char c + 32 :: nat) else c)"

definition sanitise :: "string \<Rightarrow> string" where
  "sanitise name =
     (let cleaned = trim_char (CHR ''_'') (replace_invalid name)
      in if cleaned = [] then ''unnamed'' else map lower_char cleaned)"

text \<open>
  Registering a counter under a name makes it, or finds a counter already registered under the name, or fails for another reason.
\<close>

datatype 'c registration = Registered 'c | AlreadyRegistered 'c | RegisterFailed

record ('c, 'g) Prometheus =
  pr_registry :: 'g
  pr_counters :: "string \<rightharpoonup> 'c"

definition ErrNilRegistry :: error where [go_error_defs]: "ErrNilRegistry = Err ''metrics: registry is nil''"

definition NewPrometheus :: "'g option \<Rightarrow> error + ('c, 'g) Prometheus" where
  "NewPrometheus registry =
     (case registry of None \<Rightarrow> Inl ErrNilRegistry | Some g \<Rightarrow> Inr \<lparr>pr_registry = g, pr_counters = Map.empty\<rparr>)"

definition prom_counter :: "(string \<Rightarrow> string \<Rightarrow> 'g \<Rightarrow> 'c registration \<times> 'g) \<Rightarrow> string \<Rightarrow> ('c, 'g) Prometheus \<Rightarrow> 'c option \<times> ('c, 'g) Prometheus" where
  "prom_counter registers name p =
     (case pr_counters p name of
        Some existing \<Rightarrow> (Some existing, p)
      | None \<Rightarrow>
          (case registers namespace (sanitise name @ ''_total'') (pr_registry p) of
             (Registered c, g) \<Rightarrow> (Some c, \<lparr>pr_registry = g, pr_counters = (pr_counters p)(name \<mapsto> c)\<rparr>)
           | (AlreadyRegistered c, g) \<Rightarrow> (Some c, \<lparr>pr_registry = g, pr_counters = (pr_counters p)(name \<mapsto> c)\<rparr>)
           | (RegisterFailed, g) \<Rightarrow> (None, p\<lparr>pr_registry := g\<rparr>)))"

definition Preregister :: "(string \<Rightarrow> string \<Rightarrow> 'g \<Rightarrow> 'c registration \<times> 'g) \<Rightarrow> string list \<Rightarrow> ('c, 'g) Prometheus \<Rightarrow> ('c, 'g) Prometheus" where
  "Preregister registers names p = fold (\<lambda>name p. snd (prom_counter registers name p)) names p"

definition prom_Increment :: "(string \<Rightarrow> string \<Rightarrow> 'g \<Rightarrow> 'c registration \<times> 'g) \<Rightarrow> ('c \<Rightarrow> int \<Rightarrow> 'g \<Rightarrow> 'g) \<Rightarrow> string \<Rightarrow> int \<Rightarrow> ('c, 'g) Prometheus \<Rightarrow> ('c, 'g) Prometheus" where
  "prom_Increment registers add name delta p =
     (if delta = 0 then p
      else case prom_counter registers name p of
        (None, p1) \<Rightarrow> p1
      | (Some c, p1) \<Rightarrow> p1\<lparr>pr_registry := add c delta (pr_registry p1)\<rparr>)"

section \<open>Fan-out\<close>

definition NewFanout :: "'m MetricsRecorder list \<Rightarrow> (string \<Rightarrow> int \<Rightarrow> 'm \<Rightarrow> 'm) list" where
  "NewFanout targets = List.map_filter id targets"

definition Fanout_Increment :: "(string \<Rightarrow> int \<Rightarrow> 'm \<Rightarrow> 'm) list \<Rightarrow> string \<Rightarrow> int \<Rightarrow> 'm \<Rightarrow> 'm" where
  "Fanout_Increment targets name delta m = fold (\<lambda>increment m. increment name delta m) targets m"

section \<open>The asynchronous recorder (async.go)\<close>

definition ErrNilRecorder :: error where [go_error_defs]: "ErrNilRecorder = Err ''metrics: underlying recorder is nil''"
definition defaultBuffer :: int where "defaultBuffer = 4096"

type_synonym sample = "string \<times> int"

text \<open>
  The draining goroutine runs, empties the buffer after it saw \<^verbatim>\<open>done\<close>, or has returned. A caller of \<^verbatim>\<open>Increment\<close> that found the recorder open
  is about to send; these callers are a list. \<open>ac_offered\<close> and \<open>ac_recorded\<close> are the samples of all calls and those passed to
  the inner recorder, in order; the code does not keep them.
\<close>

datatype drainer = DrainRunning | DrainEmptying | DrainReturned

record 'm Async =
  ac_inner :: 'm
  ac_buffer :: int
  ac_samples :: "sample list"
  ac_closed :: bool
  ac_done :: bool
  ac_dropped :: int
  ac_drainer :: drainer
  ac_senders :: "sample list"
  ac_offered :: "sample list"
  ac_recorded :: "sample list"

definition NewAsync :: "'m MetricsRecorder \<Rightarrow> int \<Rightarrow> 'm \<Rightarrow> error + 'm Async" where
  "NewAsync inner buffer m =
     (case inner of
        None \<Rightarrow> Inl ErrNilRecorder
      | Some increment \<Rightarrow>
          Inr \<lparr>ac_inner = m, ac_buffer = (if buffer \<le> 0 then defaultBuffer else buffer), ac_samples = [], ac_closed = False, ac_done = False, ac_dropped = 0,
               ac_drainer = DrainRunning, ac_senders = [], ac_offered = [], ac_recorded = []\<rparr>)"

definition Increment_begin :: "sample \<Rightarrow> 'm Async \<Rightarrow> 'm Async" where
  "Increment_begin x a =
     (let a1 = a\<lparr>ac_offered := ac_offered a @ [x]\<rparr>
      in if ac_closed a then a1\<lparr>ac_dropped := wrap64 (ac_dropped a + 1)\<rparr> else a1\<lparr>ac_senders := ac_senders a @ [x]\<rparr>)"

definition Increment_send :: "nat \<Rightarrow> 'm Async \<Rightarrow> 'm Async" where
  "Increment_send i a =
     (let x = ac_senders a ! i; a1 = a\<lparr>ac_senders := take i (ac_senders a) @ drop (Suc i) (ac_senders a)\<rparr>
      in if int (length (ac_samples a)) < ac_buffer a then a1\<lparr>ac_samples := ac_samples a @ [x]\<rparr>
         else a1\<lparr>ac_dropped := wrap64 (ac_dropped a + 1)\<rparr>)"

definition drain_take :: "(string \<Rightarrow> int \<Rightarrow> 'm \<Rightarrow> 'm) \<Rightarrow> 'm Async \<Rightarrow> 'm Async" where
  "drain_take increment a =
     (let x = hd (ac_samples a)
      in a\<lparr>ac_samples := tl (ac_samples a), ac_inner := increment (fst x) (snd x) (ac_inner a), ac_recorded := ac_recorded a @ [x]\<rparr>)"

definition Dropped :: "'m Async \<Rightarrow> int" where "Dropped a = ac_dropped a"

definition Async_Close :: "'m Async \<Rightarrow> 'm Async" where
  "Async_Close a = (if ac_closed a then a else a\<lparr>ac_closed := True, ac_done := True\<rparr>)"

text \<open>\<^verbatim>\<open>Close\<close> returns when the draining goroutine has returned.\<close>

inductive async_step :: "(string \<Rightarrow> int \<Rightarrow> 'm \<Rightarrow> 'm) \<Rightarrow> 'm Async \<Rightarrow> 'm Async \<Rightarrow> bool" for increment where
  async_begin: "async_step increment a (Increment_begin x a)"
| async_send: "i < length (ac_senders a) \<Longrightarrow> async_step increment a (Increment_send i a)"
| async_take: "ac_drainer a \<noteq> DrainReturned \<Longrightarrow> ac_samples a \<noteq> [] \<Longrightarrow> async_step increment a (drain_take increment a)"
| async_done: "ac_drainer a = DrainRunning \<Longrightarrow> ac_done a \<Longrightarrow> async_step increment a (a\<lparr>ac_drainer := DrainEmptying\<rparr>)"
| async_return: "ac_drainer a = DrainEmptying \<Longrightarrow> ac_samples a = [] \<Longrightarrow> async_step increment a (a\<lparr>ac_drainer := DrainReturned\<rparr>)"
| async_close: "async_step increment a (Async_Close a)"

section \<open>Names\<close>

definition metric_char :: "char \<Rightarrow> bool" where
  "metric_char c \<longleftrightarrow> in_range 97 122 c \<or> in_range 48 57 c \<or> c = CHR ''_''"

lemma replace_invalid_chars: "list_all name_char (replace_invalid s)"
  by (induction s rule: replace_invalid.induct) (auto simp: name_char_def)

lemma rune_length_name: "name_char c \<Longrightarrow> rune_length c rest = 1"
proof -
  assume "name_char c"
  then have "(of_char c :: nat) < 128" by (auto simp: name_char_def in_range_def)
  then show ?thesis by (simp add: rune_length_def in_range_def)
qed

lemma replace_valid: "list_all name_char s \<Longrightarrow> replace_invalid s = s"
  by (induction s) (simp_all add: rune_length_name)

lemma trim_char_set: "set (trim_char c s) \<subseteq> set s"
  unfolding trim_char_def by (metis set_dropWhileD set_rev subsetI)

lemma trim_char_ends: "trim_char c s \<noteq> [] \<Longrightarrow> hd (trim_char c s) \<noteq> c \<and> last (trim_char c s) \<noteq> c"
proof -
  let ?d = "dropWhile (\<lambda>x. x = c)"
  assume ne: "trim_char c s \<noteq> []"
  have "last (trim_char c s) \<noteq> c" using ne hd_dropWhile[of "\<lambda>x. x = c" "rev (?d s)"] by (auto simp: trim_char_def last_rev)
  moreover have "hd (trim_char c s) = hd (?d s)"
  proof -
    obtain xs where "rev (?d s) = xs @ ?d (rev (?d s))" by (metis takeWhile_dropWhile_id)
    then have "?d s = trim_char c s @ rev xs" unfolding trim_char_def by (metis rev_append rev_rev_ident)
    then show ?thesis using ne by (metis hd_append2)
  qed
  moreover have "?d s \<noteq> []" using ne unfolding trim_char_def by force
  ultimately show ?thesis using hd_dropWhile[of "\<lambda>x. x = c" s] by simp
qed

lemma trim_char_id: "s = [] \<or> (hd s \<noteq> c \<and> last s \<noteq> c) \<Longrightarrow> trim_char c s = s"
  by (auto simp: trim_char_def dropWhile_eq_self_iff[THEN iffD2] hd_rev)

lemma of_char_lower: "in_range 65 90 c \<Longrightarrow> (of_char (lower_char c) :: nat) = of_char c + 32"
  by (simp add: lower_char_def in_range_def)

lemma lower_char_metric: "name_char c \<Longrightarrow> metric_char (lower_char c)"
  using of_char_lower[of c] by (auto simp: name_char_def metric_char_def lower_char_def in_range_def)

lemma lower_char_underscore: "name_char c \<Longrightarrow> lower_char c = CHR ''_'' \<Longrightarrow> c = CHR ''_''"
proof (rule ccontr)
  assume c: "name_char c" "lower_char c = CHR ''_''" "c \<noteq> CHR ''_''"
  then have "in_range 65 90 c" by (auto simp: lower_char_def split: if_splits)
  from of_char_lower[OF this] c(2) this show False by (simp add: in_range_def)
qed

lemma lower_metric_char: "metric_char c \<Longrightarrow> lower_char c = c"
  by (auto simp: metric_char_def lower_char_def in_range_def)

lemma metric_name_char: "metric_char c \<Longrightarrow> name_char c"
  by (auto simp: metric_char_def name_char_def)

definition metric_name :: "string \<Rightarrow> bool" where
  "metric_name s \<longleftrightarrow> s \<noteq> [] \<and> list_all metric_char s \<and> hd s \<noteq> CHR ''_'' \<and> last s \<noteq> CHR ''_''"

lemma sanitise_fixed: "metric_name s \<Longrightarrow> sanitise s = s"
proof -
  assume s: "metric_name s"
  then have "replace_invalid s = s" by (intro replace_valid) (auto simp: metric_name_def list_all_iff intro: metric_name_char)
  moreover have "trim_char (CHR ''_'') s = s" by (rule trim_char_id) (use s in \<open>simp add: metric_name_def\<close>)
  moreover have "map lower_char s = s" by (rule map_idI) (use s in \<open>auto simp: metric_name_def list_all_iff lower_metric_char\<close>)
  ultimately show ?thesis using s by (simp add: sanitise_def metric_name_def)
qed

lemma sanitise_metric_name: "metric_name (sanitise name)"
proof -
  let ?t = "trim_char (CHR ''_'') (replace_invalid name)"
  have t: "list_all name_char ?t" using trim_char_set[of "CHR ''_''" "replace_invalid name"] replace_invalid_chars[of name] by (auto simp: list_all_iff)
  show ?thesis
  proof (cases "?t = []")
    case True
    then show ?thesis by (simp add: sanitise_def metric_name_def metric_char_def in_range_def)
  next
    case False
    then have ends: "hd ?t \<noteq> CHR ''_''" "last ?t \<noteq> CHR ''_''" using trim_char_ends by blast+
    have "name_char (hd ?t)" "name_char (last ?t)" using t False by (auto simp: list_all_iff)
    with ends False t lower_char_underscore show ?thesis
      by (auto simp: sanitise_def metric_name_def list_all_iff hd_map last_map intro: lower_char_metric)
  qed
qed

section \<open>The asynchronous recorder: what is kept\<close>

definition in_hand :: "'m Async \<Rightarrow> int" where
  "in_hand a = int (length (ac_senders a) + length (ac_samples a) + length (ac_recorded a))"

definition async_inv :: "(string \<Rightarrow> int \<Rightarrow> 'm \<Rightarrow> 'm) \<Rightarrow> 'm \<Rightarrow> 'm Async \<Rightarrow> bool" where
  "async_inv increment m a \<longleftrightarrow>
     ac_inner a = fold (\<lambda>x. increment (fst x) (snd x)) (ac_recorded a) m \<and>
     wrap64 (in_hand a + ac_dropped a) = wrap64 (int (length (ac_offered a))) \<and>
     mset (ac_senders a) + mset (ac_samples a) + mset (ac_recorded a) \<subseteq># mset (ac_offered a) \<and>
     int (length (ac_samples a)) \<le> ac_buffer a \<and> (ac_drainer a \<noteq> DrainRunning \<longrightarrow> ac_closed a)  \<and> (ac_done a \<longrightarrow> ac_closed a)"

lemma mset_take_drop_nth: "i < length xs \<Longrightarrow> mset xs = add_mset (xs ! i) (mset (take i xs @ drop (Suc i) xs))"
proof -
  assume "i < length xs"
  then have "mset xs = mset (take i xs @ xs ! i # drop (Suc i) xs)" by (simp only: id_take_nth_drop[symmetric])
  then show ?thesis by simp
qed

lemma begin_total: "wrap64 (in_hand (Increment_begin x a) + ac_dropped (Increment_begin x a)) = wrap64 (in_hand a + ac_dropped a + 1)"
proof (cases "ac_closed a")
  case True
  then have "in_hand (Increment_begin x a) = in_hand a" "ac_dropped (Increment_begin x a) = wrap64 (ac_dropped a + 1)"
    by (simp_all add: Increment_begin_def in_hand_def Let_def)
  then show ?thesis by (simp only: wrap64_add_right add.assoc)
qed (simp add: Increment_begin_def in_hand_def Let_def algebra_simps)

lemma send_total:
  assumes "i < length (ac_senders a)"
  shows "wrap64 (in_hand (Increment_send i a) + ac_dropped (Increment_send i a)) = wrap64 (in_hand a + ac_dropped a)"
proof (cases "int (length (ac_samples a)) < ac_buffer a")
  case False
  then have "in_hand (Increment_send i a) = in_hand a - 1" "ac_dropped (Increment_send i a) = wrap64 (ac_dropped a + 1)"
    using assms by (simp_all add: Increment_send_def in_hand_def Let_def)
  then show ?thesis by (simp only: wrap64_add_right) simp
qed (use assms in \<open>simp add: Increment_send_def in_hand_def Let_def\<close>)

lemma async_step_inv:
  assumes "async_step increment a a'" and "async_inv increment m a"
  shows "async_inv increment m a'"
  using assms(1)
proof cases
  case (async_begin x)
  have "wrap64 (in_hand a' + ac_dropped a') = wrap64 (int (length (ac_offered a) + 1))"
    using assms(2) begin_total[of x a] wrap64_add_cong[of "in_hand a + ac_dropped a" "int (length (ac_offered a))" 1] by (simp add: async_inv_def async_begin add.commute[of 1])
  moreover have "mset (ac_senders a') + mset (ac_samples a') + mset (ac_recorded a') \<subseteq># mset (ac_offered a')"
    using assms(2) by (auto simp: async_inv_def async_begin Increment_begin_def Let_def ac_simps intro: subset_mset.order_trans)
  ultimately show ?thesis using assms(2) by (auto simp: async_inv_def async_begin Increment_begin_def Let_def)
next
  case (async_send i)
  let ?xs = "take i (ac_senders a) @ drop (Suc i) (ac_senders a)"
  have ms: "mset (ac_senders a) = add_mset (ac_senders a ! i) (mset ?xs)" using async_send(2) by (rule mset_take_drop_nth)
  have "mset (ac_senders a') + mset (ac_samples a') + mset (ac_recorded a') \<subseteq># mset (ac_senders a) + mset (ac_samples a) + mset (ac_recorded a)"
    unfolding async_send(1) ms by (simp add: Increment_send_def Let_def)
  then have "mset (ac_senders a') + mset (ac_samples a') + mset (ac_recorded a') \<subseteq># mset (ac_offered a')"
  proof (rule subset_mset.order_trans)
    show "mset (ac_senders a) + mset (ac_samples a) + mset (ac_recorded a) \<subseteq># mset (ac_offered a')"
      using assms(2) by (simp add: async_inv_def async_send(1) Increment_send_def Let_def)
  qed
  moreover have "wrap64 (in_hand a' + ac_dropped a') = wrap64 (int (length (ac_offered a')))"
    using assms(2) send_total[OF async_send(2)] by (simp add: async_inv_def async_send(1)) (simp add: Increment_send_def Let_def)
  ultimately show ?thesis using assms(2) by (auto simp: async_inv_def async_send(1) Increment_send_def Let_def)
next
  case async_take
  then obtain x xs where "ac_samples a = x # xs" by (cases "ac_samples a") auto
  with assms(2) show ?thesis unfolding async_take(1) by (simp add: async_inv_def in_hand_def drain_take_def)
next
  case async_done
  with assms(2) show ?thesis by (simp add: async_inv_def in_hand_def)
next
  case async_return
  with assms(2) show ?thesis by (simp add: async_inv_def in_hand_def)
next
  case async_close
  with assms(2) show ?thesis by (auto simp: async_inv_def in_hand_def Async_Close_def)
qed

lemma async_steps_inv: "(async_step increment)\<^sup>*\<^sup>* a a' \<Longrightarrow> async_inv increment m a \<Longrightarrow> async_inv increment m a'"
  by (induction rule: rtranclp_induct) (auto intro: async_step_inv)

lemma NewAsync_inv: "NewAsync (Some increment) buffer m = Inr a \<Longrightarrow> async_inv increment m a"
  by (auto simp: NewAsync_def async_inv_def in_hand_def defaultBuffer_def)

text \<open>After a quiet \<^verbatim>\<open>Close\<close> nobody sends any more.\<close>

lemma quiet_step:
  assumes "async_step increment a a'" and "ac_closed a \<and> ac_senders a = [] \<and> (ac_drainer a = DrainReturned \<longrightarrow> ac_samples a = [])"
  shows "ac_closed a' \<and> ac_senders a' = [] \<and> (ac_drainer a' = DrainReturned \<longrightarrow> ac_samples a' = [])"
  using assms by cases (auto simp: Increment_begin_def Increment_send_def drain_take_def Async_Close_def Let_def)

lemma quiet_steps:
  "(async_step increment)\<^sup>*\<^sup>* a a' \<Longrightarrow> ac_closed a \<and> ac_senders a = [] \<and> (ac_drainer a = DrainReturned \<longrightarrow> ac_samples a = []) \<Longrightarrow>
   ac_closed a' \<and> ac_senders a' = [] \<and> (ac_drainer a' = DrainReturned \<longrightarrow> ac_samples a' = [])"
  by (induction rule: rtranclp_induct) (auto dest: quiet_step)

section \<open>Properties\<close>

text \<open>
  Metric names. The name under which a counter is registered is never empty, consists of lower-case letters, digits and inner underscores, and is its own
  sanitised form; a name of this form is registered unchanged.
\<close>

theorem sanitise_names:
  "metric_name (sanitise name) \<and> sanitise (sanitise name) = sanitise name \<and> (sanitise name = name \<longleftrightarrow> metric_name name)"
  using sanitise_metric_name sanitise_fixed by metis

text \<open>
  Asynchronous metrics. Whatever the interleaving, every sample is waiting with its caller, buffered, recorded, or counted as dropped, the buffer
  is bounded and the inner recorder has seen exactly the recorded samples in order. If \<^verbatim>\<open>Close\<close> is called while no call of \<^verbatim>\<open>Increment\<close> is under way, then once it returns
  nothing is buffered and every sample has been recorded or counted.
\<close>

theorem async_accounts:
  assumes "NewAsync (Some increment) buffer m = Inr a0" and "(async_step increment)\<^sup>*\<^sup>* a0 a"
  shows "async_inv increment m a \<and>
    (\<forall>a'. ac_senders a = [] \<and> \<not> ac_closed a \<and> (async_step increment)\<^sup>*\<^sup>* (Async_Close a) a' \<and> ac_drainer a' = DrainReturned \<longrightarrow>
       ac_samples a' = [] \<and> wrap64 (int (length (ac_recorded a')) + Dropped a') = wrap64 (int (length (ac_offered a'))))"
proof (intro conjI allI impI)
  show inv: "async_inv increment m a" by (rule async_steps_inv[OF assms(2) NewAsync_inv[OF assms(1)]])
  fix a'
  assume a': "ac_senders a = [] \<and> \<not> ac_closed a \<and> (async_step increment)\<^sup>*\<^sup>* (Async_Close a) a' \<and> ac_drainer a' = DrainReturned"
  then have "ac_drainer a = DrainRunning" using inv unfolding async_inv_def by blast
  then have "ac_closed (Async_Close a) \<and> ac_senders (Async_Close a) = [] \<and> (ac_drainer (Async_Close a) = DrainReturned \<longrightarrow> ac_samples (Async_Close a) = [])"
    using a' by (simp add: Async_Close_def)
  from quiet_steps[OF _ this] a' have quiet: "ac_senders a' = []" "ac_samples a' = []" by blast+
  then show "ac_samples a' = []" by simp
  have "async_inv increment m (Async_Close a)" by (rule async_step_inv[OF async_close inv])
  from async_steps_inv[OF conjunct1[OF conjunct2[OF conjunct2[OF a']]] this] have "async_inv increment m a'" .
  then show "wrap64 (int (length (ac_recorded a')) + Dropped a') = wrap64 (int (length (ac_offered a')))" using quiet by (simp add: async_inv_def in_hand_def Dropped_def)
qed

definition ex_async :: "unit Async" where
  "ex_async = \<lparr>ac_inner = (), ac_buffer = 1, ac_samples = [], ac_closed = False, ac_done = False, ac_dropped = 0, ac_drainer = DrainRunning, ac_senders = [],
     ac_offered = [], ac_recorded = []\<rparr>"

lemma NewAsync_ex: "NewAsync (Some (\<lambda>name delta m. m)) 1 () = Inr ex_async"
  by (simp add: NewAsync_def ex_async_def)

theorem async_accounts_witness:
  "let a1 = drain_take (\<lambda>name delta m. m) (Increment_send 0 (Increment_begin (''windows_applied'', 1) ex_async));
       a2 = (Async_Close a1)\<lparr>ac_drainer := DrainReturned\<rparr>
   in ac_recorded a2 = [(''windows_applied'', 1)] \<and> wrap64 (1 + Dropped a2) = 1"
proof -
  let ?step = "async_step (\<lambda>name delta m. m) :: unit Async \<Rightarrow> unit Async \<Rightarrow> bool"
  let ?b = "Increment_begin (''windows_applied'', 1) ex_async"
  let ?a1 = "drain_take (\<lambda>name delta m. m) (Increment_send 0 ?b)"
  let ?e = "(Async_Close ?a1)\<lparr>ac_drainer := DrainEmptying\<rparr>"
  note defs = Increment_begin_def Increment_send_def drain_take_def Async_Close_def ex_async_def Let_def
  have "?step ex_async ?b" by (rule async_begin)
  moreover have "?step ?b (Increment_send 0 ?b)" by (rule async_send) (simp add: defs)
  moreover have "?step (Increment_send 0 ?b) ?a1" by (rule async_take) (simp_all add: defs)
  ultimately have run: "?step\<^sup>*\<^sup>* ex_async ?a1" by (meson rtranclp.rtrancl_into_rtrancl rtranclp.rtrancl_refl)
  have "?step (Async_Close ?a1) ?e" by (rule async_done) (simp_all add: defs)
  moreover have "?step ?e (?e\<lparr>ac_drainer := DrainReturned\<rparr>)" by (rule async_return) (simp_all add: defs)
  ultimately have close: "?step\<^sup>*\<^sup>* (Async_Close ?a1) ((Async_Close ?a1)\<lparr>ac_drainer := DrainReturned\<rparr>)"
    by (auto intro!: converse_rtranclp_into_rtranclp r_into_rtranclp)
  have rec: "ac_recorded ((Async_Close ?a1)\<lparr>ac_drainer := DrainReturned\<rparr>) = [(''windows_applied'', 1)]" "ac_senders ?a1 = []" "\<not> ac_closed ?a1"
    "ac_offered ((Async_Close ?a1)\<lparr>ac_drainer := DrainReturned\<rparr>) = [(''windows_applied'', 1)]" by (simp_all add: defs)
  have "wrap64 (1 + Dropped ((Async_Close ?a1)\<lparr>ac_drainer := DrainReturned\<rparr>)) = wrap64 1"
    using conjunct2[OF async_accounts[OF NewAsync_ex run]] close rec by fastforce
  then show ?thesis using rec(1) by (simp add: Let_def wrap64_def)
qed

text \<open>
  Without that proviso a sample can vanish: a caller that found the recorder open sends after the draining goroutine has returned, and its sample is neither recorded nor counted.
\<close>

theorem async_close_race:
  "\<exists>a0 a. NewAsync (Some (\<lambda>name delta m. m)) 1 () = Inr a0 \<and> (async_step (\<lambda>name delta m. m))\<^sup>*\<^sup>* a0 a \<and> ac_drainer a = DrainReturned \<and> ac_senders a = [] \<and>
     ac_offered a = [x] \<and> ac_recorded a = [] \<and> Dropped a = 0"
proof -
  let ?step = "async_step (\<lambda>name delta m. m) :: unit Async \<Rightarrow> unit Async \<Rightarrow> bool"
  let ?a0 = "\<lparr>ac_inner = (), ac_buffer = 1, ac_samples = [], ac_closed = False, ac_done = False, ac_dropped = 0, ac_drainer = DrainRunning, ac_senders = [],
    ac_offered = [], ac_recorded = []\<rparr> :: unit Async"
  let ?a1 = "Increment_begin x ?a0"
  let ?a2 = "Async_Close ?a1"
  let ?a3 = "?a2\<lparr>ac_drainer := DrainEmptying\<rparr>"
  let ?a4 = "?a3\<lparr>ac_drainer := DrainReturned\<rparr>"
  let ?a5 = "Increment_send 0 ?a4"
  have "?step ?a0 ?a1" by (rule async_begin)
  moreover have "?step ?a1 ?a2" by (rule async_close)
  moreover have "?step ?a2 ?a3" by (rule async_done) (simp_all add: Increment_begin_def Async_Close_def)
  moreover have "?step ?a3 ?a4" by (rule async_return) (simp_all add: Increment_begin_def Async_Close_def)
  moreover have "?step ?a4 ?a5" by (rule async_send) (simp add: Increment_begin_def Async_Close_def)
  ultimately have "?step\<^sup>*\<^sup>* ?a0 ?a5" by (meson rtranclp.rtrancl_into_rtrancl rtranclp.rtrancl_refl)
  then show ?thesis by (intro exI[of _ ?a0] exI[of _ ?a5]) (simp add: NewAsync_def Increment_begin_def Async_Close_def Increment_send_def Dropped_def)
qed

end
