(* ===== verification/App.thy ===== *)
theory App
  imports Kafka Metrics
begin

text \<open>
  The wiring of the services (\<^verbatim>\<open>internal/app\<close>): the store with its archive to fall back on, the fan-out of windows, the naming of brokers and topics, the
  Kafka configurations, the reporting of failed stages and a tick of the emission loop. The choice of backends and the order of starting and stopping build on this theory.
\<close>

definition MetricStageFailures :: string where "MetricStageFailures = ''runtime_stage_failures''"
definition MetricHandlerErrors :: string where "MetricHandlerErrors = ''consumer_handler_errors''"

section \<open>Falling back to the archive (fallback.go)\<close>

definition fallback_DeviceState :: "(ctx \<Rightarrow> string \<Rightarrow> string \<Rightarrow> 's \<Rightarrow> error + DeviceState) \<Rightarrow> (ctx \<Rightarrow> string \<Rightarrow> string \<Rightarrow> 's \<Rightarrow> error + DeviceState)
    \<Rightarrow> ctx \<Rightarrow> string \<Rightarrow> string \<Rightarrow> 's \<Rightarrow> error + DeviceState" where
  "fallback_DeviceState primary archive ctx userID deviceID s =
     (case primary ctx userID deviceID s of
        Inr state \<Rightarrow> Inr state
      | Inl err \<Rightarrow>
          if errors_Is err ErrDeviceNotFound then Inl err
          else case archive ctx userID deviceID s of
            Inl archiveErr \<Rightarrow> Inl err
          | Inr archived \<Rightarrow> Inr (archived\<lparr>ds_Stale := True\<rparr>))"

definition fallback_UserDevices :: "(ctx \<Rightarrow> string \<Rightarrow> 's \<Rightarrow> error + DeviceListing) \<Rightarrow> (ctx \<Rightarrow> string \<Rightarrow> 's \<Rightarrow> error + DeviceListing)
    \<Rightarrow> ctx \<Rightarrow> string \<Rightarrow> 's \<Rightarrow> error + DeviceListing" where
  "fallback_UserDevices primary archive ctx userID s =
     (case primary ctx userID s of
        Inr listing \<Rightarrow> Inr listing
      | Inl err \<Rightarrow>
          (case archive ctx userID s of
             Inl archiveErr \<Rightarrow> Inl err
           | Inr archived \<Rightarrow> Inr (archived\<lparr>dl_Stale := True\<rparr>)))"

section \<open>Fan-out of windows (fanout.go)\<close>

fun fanout_loop :: "'p WindowPublisher list \<Rightarrow> ctx \<Rightarrow> AggregateWindow \<Rightarrow> error option \<Rightarrow> 'p \<Rightarrow> error option \<times> 'p" where
  "fanout_loop [] ctx w firstErr p = (firstErr, p)"
| "fanout_loop (target # targets) ctx w firstErr p =
     (case target ctx w p of (err, p1) \<Rightarrow> fanout_loop targets ctx w (if err \<noteq> None \<and> firstErr = None then err else firstErr) p1)"

definition fanOut_PublishWindow :: "'p WindowPublisher list \<Rightarrow> 'p WindowPublisher" where
  "fanOut_PublishWindow targets ctx w p = fanout_loop targets ctx w None p"

section \<open>Backends (backends.go)\<close>

record Backends =
  be_RedisAddr :: string
  be_PostgresDSN :: string
  be_KafkaBrokers :: string
  be_TopicPrefix :: string
  be_RequireTLS :: bool
  be_CAFile :: string
  be_CertFile :: string
  be_KeyFile :: string
  be_RedisUsername :: string
  be_RedisPassword :: string
  be_KafkaSASLUser :: string
  be_KafkaSASLPass :: string
  be_PostgresRootCA :: string
  be_WireFormat :: string

definition backends_codec :: "Marshallers \<Rightarrow> Backends \<Rightarrow> error + Codec" where
  "backends_codec M b = For M (be_WireFormat b)"

definition kafkaSecurity :: "Backends \<Rightarrow> Security" where
  "kafkaSecurity b = \<lparr>sec_Enabled = be_RequireTLS b, sec_CAFile = be_CAFile b, sec_CertFile = be_CertFile b, sec_KeyFile = be_KeyFile b,
     sec_SASLUser = be_KafkaSASLUser b, sec_SASLPassword = be_KafkaSASLPass b, sec_InsecureSkipVerify = False, sec_ServerName = []\<rparr>"

definition splitTrimmed :: "string \<Rightarrow> string list" where
  "splitTrimmed raw = (if TrimSpace raw = [] then [] else filter (\<lambda>s. s \<noteq> []) (map TrimSpace (Split (CHR '','') raw)))"

definition brokers :: "Backends \<Rightarrow> string list" where
  "brokers b = splitTrimmed (be_KafkaBrokers b)"

definition topic :: "Backends \<Rightarrow> string \<Rightarrow> string" where
  "topic b name = (if be_TopicPrefix b = [] then ''ironclaw'' else be_TopicPrefix b) @ ''.'' @ name"

definition channel_config :: "Backends \<Rightarrow> Codec \<Rightarrow> string \<Rightarrow> string \<Rightarrow> KafkaConfig" where
  "channel_config b cd name grp =
     \<lparr>kc_Brokers = brokers b, kc_Topic = topic b name, kc_Group = topic b name @ ''.'' @ grp, kc_DeadLetterTopic = topic b name @ ''.dlq'',
      kc_MaxAttempts = 3, kc_Security = kafkaSecurity b, kc_Codec = Some cd\<rparr>"

text \<open>
  The Kafka channels: batches, windows, commands and, with an archive, the windows again under another consumer group. A channel that cannot be opened closes those opened before it.
\<close>

record 'c Channels =
  cs_Batches :: "'c Channel"
  cs_Windows :: "'c Channel"
  cs_Commands :: "'c Channel"
  cs_ArchiveWindows :: "'c Channel option"

definition buildKafkaChannels :: "Marshallers \<Rightarrow> ('cert, 'pool) cert_env \<Rightarrow> ('cert, 'pool, 'c, 'k) kgo \<Rightarrow> Backends \<Rightarrow> bool \<Rightarrow> 'k \<Rightarrow> (error + 'c Channels) \<times> 'k" where
  "buildKafkaChannels M env lib b archived k =
     (case backends_codec M b of
        Inl err \<Rightarrow> (Inl err, k)
      | Inr cd \<Rightarrow>
          let channel = (\<lambda>name grp. NewChannel M env lib (channel_config b cd name grp))
          in case channel ''events.raw'' ''aggregators'' k of
               (Inl err, k1) \<Rightarrow> (Inl err, k1)
             | (Inr batches, k1) \<Rightarrow>
                 (case channel ''events.aggregated'' ''hot-state'' k1 of
                    (Inl err, k2) \<Rightarrow> (Inl err, Channel_Close lib batches k2)
                  | (Inr windows, k2) \<Rightarrow>
                      (case channel ''commands'' ''appliers'' k2 of
                         (Inl err, k3) \<Rightarrow> (Inl err, Channel_Close lib windows (Channel_Close lib batches k3))
                       | (Inr commands, k3) \<Rightarrow>
                           if \<not> archived then (Inr \<lparr>cs_Batches = batches, cs_Windows = windows, cs_Commands = commands, cs_ArchiveWindows = None\<rparr>, k3)
                           else case channel ''events.aggregated'' ''archive'' k3 of
                             (Inl err, k4) \<Rightarrow> (Inl err, Channel_Close lib commands (Channel_Close lib windows (Channel_Close lib batches k4)))
                           | (Inr arch, k4) \<Rightarrow>
                               (Inr \<lparr>cs_Batches = batches, cs_Windows = windows, cs_Commands = commands, cs_ArchiveWindows = Some arch\<rparr>, k4))))"

definition handlerErrorLogger :: "'m MetricsRecorder \<Rightarrow> string \<Rightarrow> int \<Rightarrow> error \<Rightarrow> 'm \<Rightarrow> 'm" where
  "handlerErrorLogger state topicName attempt err m =
     (case state of None \<Rightarrow> m | Some increment \<Rightarrow> increment MetricHandlerErrors 1 m)"

section \<open>The runtime (runtime.go)\<close>

definition ErrInvalidDeviceCount :: error where [go_error_defs]: "ErrInvalidDeviceCount = Err ''app: device count must be positive''"

record 'm Runtime =
  rt_failures :: int
  rt_metrics :: 'm

definition report :: "'m MetricsRecorder \<Rightarrow> error option \<Rightarrow> 'm Runtime \<Rightarrow> 'm Runtime" where
  "report state err r =
     (case err of
        None \<Rightarrow> r
      | Some e \<Rightarrow>
          if errors_Is e ErrCanceled then r
          else let r1 = r\<lparr>rt_failures := wrap64 (rt_failures r + 1)\<rparr>
               in case state of None \<Rightarrow> r1 | Some increment \<Rightarrow> r1\<lparr>rt_metrics := increment MetricStageFailures 1 (rt_metrics r1)\<rparr>)"

text \<open>One tick of the emission loop, at the time of the tick.\<close>

definition emit_tick :: "bool \<Rightarrow> 'a WindowSource \<Rightarrow> 'p WindowPublisher \<Rightarrow> 'm MetricsRecorder \<Rightarrow> ctx \<Rightarrow> time \<Rightarrow> ('a, 'p, 'm) AggService \<times> 'n Runtime \<Rightarrow> 'n MetricsRecorder
    \<Rightarrow> ('a, 'p, 'm) AggService \<times> 'n Runtime" where
  "emit_tick emitOpen src pub met ctx now sr state =
     (case (if emitOpen then EmitAll src pub met ctx (fst sr) else EmitClosedWindows src pub met ctx now (fst sr)) of
        (err, s) \<Rightarrow> (s, report state err (snd sr)))"

section \<open>Lemmas\<close>

definition clients :: "'c Channel \<Rightarrow> 'c set" where
  "clients ch = {kp_client (ch_producer ch), kn_client (ch_consumer ch)} \<union> set_option (kn_deadLetter (ch_consumer ch))"

lemma Channel_Close_closes: "library_ok lib oc \<Longrightarrow> oc (Channel_Close lib ch k) = oc k - clients ch"
  by (auto simp: Channel_Close_def Consumer_Close_def Producer_Close_def Close_closes clients_def Let_def split: option.split)

lemma NewChannel_opens:
  assumes "library_ok lib oc" and "NewChannel M env lib c k = (r, k')"
  shows "case r of Inl err \<Rightarrow> oc k' = oc k | Inr ch \<Rightarrow> clients ch \<inter> oc k = {} \<and> oc k' = clients ch \<union> oc k"
proof -
  obtain r1 k1 where p: "NewProducer M env lib c k = (r1, k1)" by fastforce
  obtain r2 k2 where n: "NewConsumer M env lib c k1 = (r2, k2)" by fastforce
  show ?thesis
  proof (cases r1)
    case (Inl err)
    with assms(2) p NewProducer_opens[OF assms(1) p] show ?thesis by (auto simp: NewChannel_def)
  next
    case (Inr producer)
    with assms(2) p n NewProducer_opens[OF assms(1) p] NewConsumer_opens[OF assms(1) n] Close_closes[OF assms(1)] show ?thesis
      by (cases r2) (auto simp: NewChannel_def Producer_Close_def clients_def)
  qed
qed

definition all_clients :: "'c Channels \<Rightarrow> 'c set" where
  "all_clients cs = clients (cs_Batches cs) \<union> clients (cs_Windows cs) \<union> clients (cs_Commands cs) \<union>
     (case cs_ArchiveWindows cs of None \<Rightarrow> {} | Some ch \<Rightarrow> clients ch)"

lemma fanout_loop_spec:
  "fanout_loop targets ctx w e p =
     (if e = None then first_error (fst (fold (\<lambda>t (errs, p). (errs @ [fst (t ctx w p)], snd (t ctx w p))) targets ([], p))) else e,
      snd (fold (\<lambda>t (errs, p). (errs @ [fst (t ctx w p)], snd (t ctx w p))) targets ([], p)))"
proof -
  let ?f = "\<lambda>t (errs, p). (errs @ [fst (t ctx w p)], snd (t ctx w p))"
  have acc: "fold ?f ts (errs, q) = (errs @ fst (fold ?f ts ([], q)), snd (fold ?f ts ([], q)))" for ts errs q
  proof (induction ts arbitrary: errs q)
    case (Cons t ts)
    show ?case using Cons[of "errs @ [fst (t ctx w q)]" "snd (t ctx w q)"] Cons[of "[fst (t ctx w q)]" "snd (t ctx w q)"] by simp
  qed simp
  show ?thesis
  proof (induction targets arbitrary: e p)
    case (Cons t ts)
    obtain x p1 where t: "t ctx w p = (x, p1)" by fastforce
    show ?case using Cons[of "if x \<noteq> None \<and> e = None then x else e" p1] acc[of ts "[x]" p1] t by (cases x) auto
  qed simp
qed

lemma buildKafkaChannels_opens:
  assumes "library_ok lib oc"
  shows "case buildKafkaChannels M env lib b archived k of (Inl err, k') \<Rightarrow> oc k' = oc k
    | (Inr cs, k') \<Rightarrow> oc k' = all_clients cs \<union> oc k \<and> all_clients cs \<inter> oc k = {} \<and> (archived \<longleftrightarrow> cs_ArchiveWindows cs \<noteq> None)"
proof (cases "backends_codec M b")
  case (Inr cd)
  let ?ch = "\<lambda>name grp. NewChannel M env lib (channel_config b cd name grp)"
  obtain r1 k1 where c1: "?ch ''events.raw'' ''aggregators'' k = (r1, k1)" by fastforce
  obtain r2 k2 where c2: "?ch ''events.aggregated'' ''hot-state'' k1 = (r2, k2)" by fastforce
  obtain r3 k3 where c3: "?ch ''commands'' ''appliers'' k2 = (r3, k3)" by fastforce
  obtain r4 k4 where c4: "?ch ''events.aggregated'' ''archive'' k3 = (r4, k4)" by fastforce
  note opens = NewChannel_opens[OF assms c1] NewChannel_opens[OF assms c2] NewChannel_opens[OF assms c3] NewChannel_opens[OF assms c4]
  note run = buildKafkaChannels_def Inr c1 c2 c3 c4 Channel_Close_closes[OF assms] all_clients_def
  show ?thesis
  proof (cases r1)
    case r1: (Inr batches)
    show ?thesis
    proof (cases r2)
      case r2: (Inr windows)
      show ?thesis
      proof (cases r3)
        case r3: (Inr cmds)
        with r1 r2 opens show ?thesis by (cases archived; cases r4) (auto simp: run)
      qed (use r1 r2 opens in \<open>auto simp: run\<close>)
    qed (use r1 opens in \<open>auto simp: run\<close>)
  qed (use opens in \<open>auto simp: run\<close>)
qed (simp add: buildKafkaChannels_def)

section \<open>Properties\<close>

text \<open>
  Stale answers are marked. A read answers from the hot store whenever that succeeds, unchanged; from the archive only when the hot store failed with something other than
  "no such device", and then the answer is marked as stale; a device the hot store does not know is reported as such, and an error is always the hot store's.
\<close>

theorem fallback_marks_stale:
  "(case fallback_DeviceState primary archive ctx u d s of
      Inr st \<Rightarrow> primary ctx u d s = Inr st \<or>
        (\<exists>err a. primary ctx u d s = Inl err \<and> \<not> errors_Is err ErrDeviceNotFound \<and> archive ctx u d s = Inr a \<and> st = a\<lparr>ds_Stale := True\<rparr>)
    | Inl err \<Rightarrow> primary ctx u d s = Inl err \<and> (errors_Is err ErrDeviceNotFound \<or> (\<exists>e. archive ctx u d s = Inl e))) \<and>
   (case fallback_UserDevices lister archived ctx u s of
      Inr l \<Rightarrow> lister ctx u s = Inr l \<or> (\<exists>err a. lister ctx u s = Inl err \<and> archived ctx u s = Inr a \<and> l = a\<lparr>dl_Stale := True\<rparr>)
    | Inl err \<Rightarrow> lister ctx u s = Inl err \<and> (\<exists>e. archived ctx u s = Inl e))"
  by (auto simp: fallback_DeviceState_def fallback_UserDevices_def split: sum.splits)

text \<open>
  Windows fan out to every target. Every target is offered the window, in order and whatever the others answered, and the result is the first
  failure; it succeeds exactly when all targets do, so that a window a single target refused is offered again to all.
\<close>

theorem fanout_offers_all:
  "fanOut_PublishWindow targets ctx w p =
     (let (errs, p') = fold (\<lambda>t (errs, p). (errs @ [fst (t ctx w p)], snd (t ctx w p))) targets ([], p)
      in (first_error errs, p'))"
  by (simp add: fanOut_PublishWindow_def fanout_loop_spec split_beta Let_def)

text \<open>
  Channels are opened all or none. Over a client library in which opening and closing clients works as documented, opening the Kafka channels either fails and leaves the open clients as
  they were, or opens the clients of the returned channels and no others.
\<close>

theorem kafka_channels_all_or_none:
  assumes "library_ok lib oc"
  shows "case buildKafkaChannels M env lib b archived k of (Inl err, k') \<Rightarrow> oc k' = oc k | (Inr cs, k') \<Rightarrow> oc k' = all_clients cs \<union> oc k \<and> (archived \<longleftrightarrow> cs_ArchiveWindows cs \<noteq> None)"
  using buildKafkaChannels_opens[OF assms, where M = M and env = env and b = b and archived = archived and k = k] by (auto split: prod.splits sum.splits)

text \<open>A client library that numbers its clients.\<close>

definition ex_library :: "(unit, unit, nat, nat list) kgo" where
  "ex_library = \<lparr>kgo_NewClient = \<lambda>opts k. (Inr (Suc (sum_list k)), Suc (sum_list k) # k), kgo_Close = \<lambda>c k. removeAll c k\<rparr>"

lemma ex_library_ok: "library_ok ex_library set"
proof -
  have "Suc (sum_list k) \<notin> set k" for k :: "nat list" using member_le_sum_list[of "Suc (sum_list k)" k] by auto
  then show ?thesis by (simp add: library_ok_def ex_library_def)
qed

definition ex_backends :: Backends where
  "ex_backends = \<lparr>be_RedisAddr = [], be_PostgresDSN = [], be_KafkaBrokers = ''k1:9092'', be_TopicPrefix = [], be_RequireTLS = False, be_CAFile = [], be_CertFile = [],
     be_KeyFile = [], be_RedisUsername = [], be_RedisPassword = [], be_KafkaSASLUser = [], be_KafkaSASLPass = [], be_PostgresRootCA = [], be_WireFormat = ''protobuf''\<rparr>"

theorem kafka_channels_all_or_none_witness:
  "\<exists>cs k'. buildKafkaChannels (ex_marshallers ex_wire_batch ex_wire_window ex_wire_command) \<lparr>ce_ReadFile = \<lambda>_. Inr [], ce_AppendCertsFromPEM = \<lambda>_. None, ce_LoadX509KeyPair = \<lambda>_ _. Inl ErrCanceled\<rparr>
     ex_library ex_backends True [] = (Inr cs, k') \<and> set k' = all_clients cs"
proof -
  let ?M = "ex_marshallers ex_wire_batch ex_wire_window ex_wire_command"
  let ?env = "\<lparr>ce_ReadFile = \<lambda>_. Inr [], ce_AppendCertsFromPEM = \<lambda>_. None, ce_LoadX509KeyPair = \<lambda>_ _. Inl ErrCanceled\<rparr> :: (unit, unit) cert_env"
  have "TrimSpace ''k1:9092'' = ''k1:9092''" by (rule TrimSpace_visible) (simp_all add: visible_char_def)
  then have br: "brokers ex_backends = [''k1:9092'']" by (simp add: brokers_def splitTrimmed_def ex_backends_def)
  have one: "\<exists>ch k'. NewChannel ?M ?env ex_library (channel_config ex_backends cd name grp) k = (Inr ch, k')" for cd name grp k
    by (simp add: NewChannel_def NewProducer_def NewConsumer_def channel_config_def validateProducer_def validateConsumer_def br[unfolded ex_backends_def] topic_def kafkaSecurity_def Security_options_def
      Security_validate_def ex_backends_def ex_library_def Let_def)
  have cd: "\<exists>cd. backends_codec ?M ex_backends = Inr cd" by (simp add: backends_codec_def ex_backends_def For_def FormatJSON_def FormatProtobuf_def)
  obtain r k' where run: "buildKafkaChannels ?M ?env ex_library ex_backends True [] = (r, k')" by fastforce
  have "\<exists>cs. r = Inr cs"
  proof -
    obtain cd where "backends_codec ?M ex_backends = Inr cd" using cd by blast
    moreover obtain b k1 where "NewChannel ?M ?env ex_library (channel_config ex_backends cd ''events.raw'' ''aggregators'') [] = (Inr b, k1)" using one by blast
    moreover obtain w k2 where "NewChannel ?M ?env ex_library (channel_config ex_backends cd ''events.aggregated'' ''hot-state'') k1 = (Inr w, k2)" using one by blast
    moreover obtain c k3 where "NewChannel ?M ?env ex_library (channel_config ex_backends cd ''commands'' ''appliers'') k2 = (Inr c, k3)" using one by blast
    moreover obtain a k4 where "NewChannel ?M ?env ex_library (channel_config ex_backends cd ''events.aggregated'' ''archive'') k3 = (Inr a, k4)" using one by blast
    ultimately show ?thesis using run by (auto simp: buildKafkaChannels_def)
  qed
  then obtain cs where "r = Inr cs" by blast
  with kafka_channels_all_or_none[OF ex_library_ok, where M = ?M and env = ?env and b = ex_backends and archived = True and k = "[]"] run show ?thesis by auto
qed

end
