(* ===== verification/Wiring.thy ===== *)
theory Wiring
  imports App RedisWatch PostgresArchive Bus Batcher Sources
begin

text \<open>
  Building the runtime (\<^verbatim>\<open>internal/app/backends.go\<close> and \<^verbatim>\<open>runtime.go\<close>): its configuration, the choice of stores and channels, the agents, and the clients, pools and recorders that are opened on the way and
  have to be closed again when a later step fails. What third-party calls answer is a parameter.
\<close>

section \<open>Configuration\<close>

record AppConfig =
  cf_Devices :: int
  cf_EventsPerDevice :: int
  cf_EventInterval :: duration
  cf_BatchSize :: int
  cf_BatchInterval :: duration
  cf_WindowSize :: duration
  cf_EmitInterval :: duration
  cf_Partitions :: int
  cf_QueueCapacity :: int
  cf_RelativeAccuracy :: real
  cf_Seed :: int
  cf_EmitOpenWindows :: bool
  cf_MaxOpenWindows :: int
  cf_Backends :: Backends

definition no_backends :: Backends where
  "no_backends = \<lparr>be_RedisAddr = [], be_PostgresDSN = [], be_KafkaBrokers = [], be_TopicPrefix = [], be_RequireTLS = False, be_CAFile = [], be_CertFile = [], be_KeyFile = [],
     be_RedisUsername = [], be_RedisPassword = [], be_KafkaSASLUser = [], be_KafkaSASLPass = [], be_PostgresRootCA = [], be_WireFormat = []\<rparr>"

definition DefaultConfig :: AppConfig where
  "DefaultConfig = \<lparr>cf_Devices = 8, cf_EventsPerDevice = 100000, cf_EventInterval = millisecond, cf_BatchSize = 200, cf_BatchInterval = 100 * millisecond, cf_WindowSize = 10 * second,
     cf_EmitInterval = second, cf_Partitions = 8, cf_QueueCapacity = 4096, cf_RelativeAccuracy = 1 / 100, cf_Seed = 1, cf_EmitOpenWindows = True, cf_MaxOpenWindows = 500000,
     cf_Backends = no_backends\<rparr>"

definition AppConfig_validate :: "AppConfig \<Rightarrow> error option" where
  "AppConfig_validate c = (if cf_Devices c \<le> 0 then Some ErrInvalidDeviceCount else None)"

definition redisSecurity :: "Backends \<Rightarrow> RedisSecurity" where
  "redisSecurity b = \<lparr>rse_Enabled = be_RequireTLS b, rse_CAFile = be_CAFile b, rse_CertFile = be_CertFile b, rse_KeyFile = be_KeyFile b, rse_Username = be_RedisUsername b,
     rse_Password = be_RedisPassword b, rse_InsecureSkipVerify = False, rse_ServerName = []\<rparr>"

section \<open>Resources\<close>

text \<open>
  What is open: the Redis client, the goroutine of the asynchronous recorder and the Postgres pool, and in \<open>wd_kafka\<close> the clients of the Kafka library. The buses are plain memory; closing them is not needed for
  anything outside.
\<close>

datatype extra = RedisClient | AsyncRecorder | PostgresPool

record ('k, 'p) world =
  wd_open :: "extra set"
  wd_kafka :: 'k
  wd_archive :: 'p

definition open_extra :: "extra \<Rightarrow> ('k, 'p) world \<Rightarrow> ('k, 'p) world" where "open_extra x w = w\<lparr>wd_open := insert x (wd_open w)\<rparr>"
definition close_extra :: "extra \<Rightarrow> ('k, 'p) world \<Rightarrow> ('k, 'p) world" where "close_extra x w = w\<lparr>wd_open := wd_open w - {x}\<rparr>"

datatype state_backend = MemoryState | RedisState | FallbackState

record memory_channels =
  mc_Batches :: "Batch Bus"
  mc_Windows :: "AggregateWindow Bus"
  mc_Commands :: "Command Bus"
  mc_ArchiveWindows :: "AggregateWindow Bus option"

datatype 'c app_channels = InMemory memory_channels | OverKafka "'c Channels"

record 'c Dependencies =
  dp_State :: "state_backend option"
  dp_Archive :: bool
  dp_Channels :: "'c app_channels option"
  dp_FanOutWindows :: bool
  dp_Extra :: "extra list"
  dp_Describing :: string

definition closeExtras :: "'c Dependencies \<Rightarrow> ('k, 'p) world \<Rightarrow> 'c Dependencies \<times> ('k, 'p) world" where
  "closeExtras d w = (d\<lparr>dp_Extra := []\<rparr>, fold close_extra (dp_Extra d) w)"

definition close_channels :: "('cert, 'pool, 'c, 'k) kgo \<Rightarrow> 'c app_channels \<Rightarrow> 'k \<Rightarrow> 'k" where
  "close_channels lib chs k =
     (case chs of
        InMemory _ \<Rightarrow> k
      | OverKafka cs \<Rightarrow>
          let k1 = Channel_Close lib (cs_Windows cs) (Channel_Close lib (cs_Batches cs) k);
              k2 = (case cs_ArchiveWindows cs of None \<Rightarrow> k1 | Some ch \<Rightarrow> Channel_Close lib ch k1)
          in Channel_Close lib (cs_Commands cs) k2)"

definition closeAll :: "('cert, 'pool, 'c, 'k) kgo \<Rightarrow> 'c Dependencies \<Rightarrow> ('k, 'p) world \<Rightarrow> ('k, 'p) world" where
  "closeAll lib d w =
     (let w1 = fold close_extra (dp_Extra d) w
      in case dp_Channels d of None \<Rightarrow> w1 | Some chs \<Rightarrow> w1\<lparr>wd_kafka := close_channels lib chs (wd_kafka w1)\<rparr>)"

section \<open>Building\<close>

text \<open>What the calls of third-party code answer.\<close>

record ('cert, 'pool, 'c, 'k, 'u, 'p) app_env =
  ae_certs :: "('cert, 'pool) cert_env"
  ae_lib :: "('cert, 'pool, 'c, 'k) kgo"
  ae_marshal :: Marshallers
  ae_redisPing :: "error option"
  ae_poolNew :: "string \<Rightarrow> error option"
  ae_poolPing :: "error option"
  ae_postgres :: "'p postgres"
  ae_addDays :: "int \<Rightarrow> time \<Rightarrow> time"
  ae_schemaCall :: pg_call
  ae_partitionCalls :: "nat \<Rightarrow> nat \<Rightarrow> pg_call"
  ae_now :: time
  ae_urlParse :: "string \<Rightarrow> error + 'u \<times> url_values"
  ae_urlString :: "'u \<times> url_values \<Rightarrow> string"

definition secured_dsn :: "('cert, 'pool, 'c, 'k, 'u, 'p) app_env \<Rightarrow> Backends \<Rightarrow> error + string" where
  "secured_dsn env b =
     (if be_RequireTLS b then RequireTLS (ae_urlParse env) (ae_urlString env) (be_PostgresDSN b) (be_PostgresRootCA b) else Inr (be_PostgresDSN b))"

definition build_archive :: "('cert, 'pool, 'c, 'k, 'u, 'p) app_env \<Rightarrow> Backends \<Rightarrow> 'c Dependencies \<Rightarrow> ('k, 'p) world \<Rightarrow> error option \<times> 'c Dependencies \<times> ('k, 'p) world" where
  "build_archive env b d w =
     (case secured_dsn env b of
        Inl err \<Rightarrow> (Some err, d, w)
      | Inr dsn \<Rightarrow>
          (case ae_poolNew env dsn of
             Some err \<Rightarrow> (Some (Wrap ''app: connecting to postgres'' err), d, w)
           | None \<Rightarrow>
               let w1 = open_extra PostgresPool w
               in case ae_poolPing env of
                    Some err \<Rightarrow> (Some (Wrap ''app: pinging postgres'' err), d, close_extra PostgresPool w1)
                  | None \<Rightarrow>
                      (case NewPostgresStore True (None :: unit MetricsRecorder) of
                         Inl err \<Rightarrow> (Some err, d, close_extra PostgresPool w1)
                       | Inr archive \<Rightarrow>
                      (case Migrate (ae_postgres env) (ae_addDays env) (ae_schemaCall env) (ae_partitionCalls env) (ae_now env) (wd_archive w1) of
                         (Some err, p1) \<Rightarrow> (Some err, d, close_extra PostgresPool (w1\<lparr>wd_archive := p1\<rparr>))
                       | (None, p1) \<Rightarrow>
                           (None, d\<lparr>dp_Archive := True, dp_State := Some FallbackState, dp_Extra := dp_Extra d @ [PostgresPool], dp_Describing := ''redis+postgres''\<rparr>,
                            w1\<lparr>wd_archive := p1\<rparr>)))))"

definition buildState :: "('cert, 'pool, 'c, 'k, 'u, 'p) app_env \<Rightarrow> AppConfig \<Rightarrow> 'c Dependencies \<Rightarrow> ('k, 'p) world \<Rightarrow> error option \<times> 'c Dependencies \<times> ('k, 'p) world" where
  "buildState env config d w =
     (let b = cf_Backends config
      in if be_RedisAddr b = [] then (None, d\<lparr>dp_State := Some MemoryState\<rparr>, w)
         else case Dial (ae_certs env) (be_RedisAddr b) (redisSecurity b) of
           Inl err \<Rightarrow> (Some err, d, w)
         | Inr opts \<Rightarrow>
             let w1 = open_extra RedisClient w
             in case ae_redisPing env of
                  Some err \<Rightarrow> (Some (Wrap (''app: connecting to redis at '' @ be_RedisAddr b) err), d, close_extra RedisClient w1)
                | None \<Rightarrow>
                    (case NewRedisStore \<lparr>ro_Client = True, ro_Namespace = [], ro_DedupeTTL = 0, ro_MetricsKey = [], ro_Recorder = None :: unit MetricsRecorder\<rparr> of
                       Inl err \<Rightarrow> (Some err, d, close_extra RedisClient w1)
                     | Inr state \<Rightarrow>
                         (case NewAsync (Some (\<lambda>name delta. id)) 0 () of
                            Inl err \<Rightarrow> (Some err, d, close_extra RedisClient w1)
                          | Inr async \<Rightarrow>
                              let d1 = d\<lparr>dp_State := Some RedisState, dp_Extra := dp_Extra d @ [AsyncRecorder, RedisClient], dp_Describing := ''redis''\<rparr>;
                                  w2 = open_extra AsyncRecorder w1
                              in if be_PostgresDSN b = [] then (None, d1, w2) else build_archive env b d1 w2)))"

definition buildMemoryChannels :: "AppConfig \<Rightarrow> bool \<Rightarrow> error + memory_channels" where
  "buildMemoryChannels config archived =
     (let bc = \<lparr>bcf_Partitions = cf_Partitions config, bcf_Capacity = cf_QueueCapacity config, bcf_MaxAttempts = 3\<rparr>
      in case NewBus bc of
           Inl err \<Rightarrow> Inl err
         | Inr batches \<Rightarrow>
             (case NewBus bc of
                Inl err \<Rightarrow> Inl err
              | Inr windows \<Rightarrow>
                  (case NewBus bc of
                     Inl err \<Rightarrow> Inl err
                   | Inr cmds \<Rightarrow>
                       let chs = \<lparr>mc_Batches = batches, mc_Windows = windows, mc_Commands = cmds, mc_ArchiveWindows = None\<rparr>
                       in if \<not> archived then Inr chs
                          else case NewBus bc of Inl err \<Rightarrow> Inl err | Inr arch \<Rightarrow> Inr (chs\<lparr>mc_ArchiveWindows := Some arch\<rparr>))))"

definition buildChannels :: "('cert, 'pool, 'c, 'k, 'u, 'p) app_env \<Rightarrow> AppConfig \<Rightarrow> 'c Dependencies \<Rightarrow> ('k, 'p) world \<Rightarrow> error option \<times> 'c Dependencies \<times> ('k, 'p) world" where
  "buildChannels env config d w =
     (let b = cf_Backends config
      in if brokers b = [] then
           (case buildMemoryChannels config (dp_Archive d) of
              Inl err \<Rightarrow> (Some err, d, w)
            | Inr chs \<Rightarrow> (None, d\<lparr>dp_Channels := Some (InMemory chs), dp_FanOutWindows := dp_Archive d\<rparr>, w))
         else
           (case buildKafkaChannels (ae_marshal env) (ae_certs env) (ae_lib env) b (dp_Archive d) (wd_kafka w) of
              (Inl err, k) \<Rightarrow> (Some err, d, w\<lparr>wd_kafka := k\<rparr>)
            | (Inr cs, k) \<Rightarrow> (None, d\<lparr>dp_Channels := Some (OverKafka cs), dp_Describing := dp_Describing d @ ''+kafka''\<rparr>, w\<lparr>wd_kafka := k\<rparr>)))"

definition no_dependencies :: "'c Dependencies" where
  "no_dependencies = \<lparr>dp_State = None, dp_Archive = False, dp_Channels = None, dp_FanOutWindows = False, dp_Extra = [], dp_Describing = ''in-memory''\<rparr>"

definition buildDependencies :: "('cert, 'pool, 'c, 'k, 'u, 'p) app_env \<Rightarrow> AppConfig \<Rightarrow> ('k, 'p) world \<Rightarrow> (error + 'c Dependencies) \<times> ('k, 'p) world" where
  "buildDependencies env config w =
     (case buildState env config no_dependencies w of
        (Some err, d, w1) \<Rightarrow> (Inl err, snd (closeExtras d w1))
      | (None, d, w1) \<Rightarrow>
          (case buildChannels env config d w1 of
             (Some err, d2, w2) \<Rightarrow> (Inl err, snd (closeExtras d2 w2))
           | (None, d2, w2) \<Rightarrow> (Inr d2, w2)))"

section \<open>The runtime\<close>

definition padded :: "string \<Rightarrow> int \<Rightarrow> string" where "padded name n = name @ pad 3 n"

definition agent_source :: "AppConfig \<Rightarrow> int \<Rightarrow> SyntheticConfig" where
  "agent_source config i =
     \<lparr>sy_DeviceID = padded ''device-'' i, sy_UserID = padded ''user-'' (i mod 4), sy_PodID = padded ''pod-'' (i mod 3), sy_ProcessIDs = [100 + i, 200 + i],
      sy_EventCount = cf_EventsPerDevice config, sy_Interval = cf_EventInterval config, sy_ErrorRate = 1 / 20, sy_BaseLatency = millisecond, sy_TailLatency = 40 * millisecond,
      sy_TailFraction = 1 / 20\<rparr>"

definition agent_batcher :: "AppConfig \<Rightarrow> int \<Rightarrow> BatcherConfig" where
  "agent_batcher config i =
     \<lparr>bt_DeviceID = padded ''device-'' i, bt_MaxEvents = cf_BatchSize config, bt_MaxInterval = cf_BatchInterval config, bt_QueueDepth = 256, bt_Policy = OverflowBlock,
      bt_ShutdownGrace = 0, bt_FlushSignal = False\<rparr>"

text \<open>The generators of the sources are seeded one apart; \<open>seeded\<close> makes one from its seed.\<close>

fun build_agents_from :: "(int \<Rightarrow> 'r) \<Rightarrow> AppConfig \<Rightarrow> int list \<Rightarrow> error + ('r SyntheticSource \<times> Batcher) list" where
  "build_agents_from seeded config [] = Inr []"
| "build_agents_from seeded config (i # js) =
     (case NewSyntheticSource (agent_source config i) (seeded (wrap64 (cf_Seed config + i))) of
        Inl err \<Rightarrow> Inl err
      | Inr source \<Rightarrow>
          (case NewBatcher (agent_batcher config i) of
             Inl err \<Rightarrow> Inl err
           | Inr batcher \<Rightarrow>
               (case build_agents_from seeded config js of Inl err \<Rightarrow> Inl err | Inr rest \<Rightarrow> Inr ((source, batcher) # rest))))"

definition buildAgents :: "(int \<Rightarrow> 'r) \<Rightarrow> AppConfig \<Rightarrow> error + ('r SyntheticSource \<times> Batcher) list" where
  "buildAgents seeded config = build_agents_from seeded config [0 .. cf_Devices config - 1]"

record ('c, 'r) AppRuntime =
  ar_config :: AppConfig
  ar_deps :: "'c Dependencies"
  ar_aggregator :: "Sketch Aggregator"
  ar_fansOut :: bool
  ar_agents :: "('r SyntheticSource \<times> Batcher) list"

definition archive_channel :: "'c Dependencies \<Rightarrow> bool" where
  "archive_channel d =
     (case dp_Channels d of None \<Rightarrow> False | Some (InMemory chs) \<Rightarrow> mc_ArchiveWindows chs \<noteq> None | Some (OverKafka cs) \<Rightarrow> cs_ArchiveWindows cs \<noteq> None)"

definition NewWithContext :: "('cert, 'pool, 'c, 'k, 'u, 'p) app_env \<Rightarrow> (int \<Rightarrow> 'r) \<Rightarrow> time \<Rightarrow> AppConfig \<Rightarrow> ('k, 'p) world \<Rightarrow> (error + ('c, 'r) AppRuntime) \<times> ('k, 'p) world" where
  "NewWithContext env seeded now config w =
     (case AppConfig_validate config of
        Some err \<Rightarrow> (Inl err, w)
      | None \<Rightarrow>
          (case buildDependencies env config w of
             (Inl err, w1) \<Rightarrow> (Inl err, w1)
           | (Inr d, w1) \<Rightarrow>
               (case NewAggregator now \<lparr>cfg_WindowSize = cf_WindowSize config, cfg_RelativeAccuracy = cf_RelativeAccuracy config, cfg_NewSketch = None,
                       cfg_SequenceSeed = 0, cfg_MaxOpenWindows = cf_MaxOpenWindows config\<rparr> of
                  Inl err \<Rightarrow> (Inl err, closeAll (ae_lib env) d w1)
                | Inr inner \<Rightarrow>
                    (case buildAgents seeded config of
                       Inl err \<Rightarrow> (Inl err, closeAll (ae_lib env) d w1)
                     | Inr agents \<Rightarrow>
                         (Inr \<lparr>ar_config = config, ar_deps = d, ar_aggregator = inner, ar_fansOut = (dp_FanOutWindows d \<and> archive_channel d), ar_agents = agents\<rparr>, w1)))))"

definition Backend :: "('c, 'r) AppRuntime \<Rightarrow> string" where "Backend r = dp_Describing (ar_deps r)"

section \<open>Nothing is left open\<close>

lemma extras_closed: "wd_open (fold close_extra xs w) = wd_open w - set xs" "wd_kafka (fold close_extra xs w) = wd_kafka w"
  by (induction xs arbitrary: w) (auto simp: close_extra_def)

lemma build_archive_extras:
  assumes "build_archive env b d w = (e, d', w')"
  shows "wd_kafka w' = wd_kafka w \<and> (if e = None then dp_Extra d' = dp_Extra d @ [PostgresPool] \<and> wd_open w' = insert PostgresPool (wd_open w) else d' = d \<and> wd_open w' - {PostgresPool} = wd_open w - {PostgresPool} \<and>
    (PostgresPool \<notin> wd_open w \<longrightarrow> wd_open w' = wd_open w)) \<and> dp_Channels d' = dp_Channels d"
proof -
  consider (failed) err p where "e = Some err" "d' = d" "w' = w \<or> w' = close_extra PostgresPool (open_extra PostgresPool w) \<or> w' = close_extra PostgresPool (open_extra PostgresPool w\<lparr>wd_archive := p\<rparr>)"
    | (built) p where "e = None" "dp_Extra d' = dp_Extra d @ [PostgresPool]" "dp_Channels d' = dp_Channels d" "w' = open_extra PostgresPool w\<lparr>wd_archive := p\<rparr>"
    using assms by (auto simp: build_archive_def Let_def NewPostgresStore_def split: sum.splits option.splits prod.splits)
  then show ?thesis by cases (auto simp: open_extra_def close_extra_def)
qed

lemma buildState_extras:
  assumes "buildState env config no_dependencies w = (e, d, w')" and "wd_open w = {}"
  shows "wd_kafka w' = wd_kafka w \<and> wd_open w' = set (dp_Extra d) \<and> dp_Channels d = None"
proof -
  let ?d1 = "no_dependencies\<lparr>dp_State := Some RedisState, dp_Extra := [AsyncRecorder, RedisClient], dp_Describing := ''redis''\<rparr>"
  let ?w2 = "open_extra AsyncRecorder (open_extra RedisClient w)"
  have arch: "wd_kafka w' = wd_kafka w \<and> wd_open w' = set (dp_Extra d) \<and> dp_Channels d = None" if "build_archive env (cf_Backends config) ?d1 ?w2 = (e, d, w')"
    using build_archive_extras[OF that] assms(2) by (auto simp: open_extra_def no_dependencies_def split: if_splits)
  show ?thesis using assms arch
    by (auto simp: buildState_def Let_def NewRedisStore_def NewAsync_def open_extra_def close_extra_def no_dependencies_def split: if_splits sum.splits option.splits)
qed

definition channel_clients :: "'c Dependencies \<Rightarrow> 'c set" where
  "channel_clients d = (case dp_Channels d of Some (OverKafka cs) \<Rightarrow> all_clients cs | _ \<Rightarrow> {})"

lemma buildChannels_opens:
  assumes "library_ok (ae_lib env) oc" and "buildChannels env config d w = (e, d', w')" and "dp_Channels d = None"
  shows "wd_open w' = wd_open w \<and> dp_Extra d' = dp_Extra d \<and> channel_clients d' \<inter> oc (wd_kafka w) = {} \<and> oc (wd_kafka w') = channel_clients d' \<union> oc (wd_kafka w) \<and> (e \<noteq> None \<longrightarrow> d' = d)"
proof (cases "brokers (cf_Backends config) = []")
  case True
  with assms(2,3) show ?thesis by (auto simp: buildChannels_def channel_clients_def split: sum.splits)
next
  case False
  obtain r k where run: "buildKafkaChannels (ae_marshal env) (ae_certs env) (ae_lib env) (cf_Backends config) (dp_Archive d) (wd_kafka w) = (r, k)" by fastforce
  note opens = buildKafkaChannels_opens[OF assms(1), where M = "ae_marshal env" and env = "ae_certs env" and b = "cf_Backends config" and archived = "dp_Archive d" and k = "wd_kafka w", unfolded run]
  show ?thesis
  proof (cases r)
    case (Inl err)
    then have "e = Some err" "d' = d" "w' = w\<lparr>wd_kafka := k\<rparr>" using assms(2) False run by (simp_all add: buildChannels_def Let_def)
    then show ?thesis using opens Inl assms(3) by (simp add: channel_clients_def)
  next
    case (Inr cs)
    then have "e = None" "d' = d\<lparr>dp_Channels := Some (OverKafka cs), dp_Describing := dp_Describing d @ ''+kafka''\<rparr>" "w' = w\<lparr>wd_kafka := k\<rparr>"
      using assms(2) False run by (simp_all add: buildChannels_def Let_def)
    then show ?thesis using opens Inr by (simp add: channel_clients_def)
  qed
qed

lemma buildDependencies_opens:
  assumes "library_ok (ae_lib env) oc" and "buildDependencies env config w = (r, w')" and "wd_open w = {}"
  shows "case r of Inl err \<Rightarrow> wd_open w' = {} \<and> oc (wd_kafka w') = oc (wd_kafka w)
    | Inr d \<Rightarrow> wd_open w' = set (dp_Extra d) \<and> channel_clients d \<inter> oc (wd_kafka w) = {} \<and> oc (wd_kafka w') = channel_clients d \<union> oc (wd_kafka w)"
proof -
  obtain e d w1 where st: "buildState env config no_dependencies w = (e, d, w1)" by (rule prod_cases3)
  note s = buildState_extras[OF st assms(3)]
  show ?thesis
  proof (cases e)
    case (Some err)
    then show ?thesis using assms(2) st s by (auto simp: buildDependencies_def closeExtras_def extras_closed)
  next
    case None
    obtain e2 d2 w2 where ch: "buildChannels env config d w1 = (e2, d2, w2)" by (rule prod_cases3)
    have "dp_Channels d = None" using s by simp
    note c = buildChannels_opens[OF assms(1) ch this]
    show ?thesis
    proof (cases e2)
      case (Some err)
      then have "channel_clients d2 = {}" using c s by (simp add: channel_clients_def)
      then show ?thesis using assms(2) st ch None Some s c by (auto simp: buildDependencies_def closeExtras_def extras_closed)
    next
      case None
      then show ?thesis using assms(2) st ch \<open>e = None\<close> s c by (auto simp: buildDependencies_def)
    qed
  qed
qed

lemma closeAll_closes:
  assumes "library_ok (ae_lib env) oc" and "channel_clients d \<inter> K = {}" and "wd_open w = set (dp_Extra d)" and "oc (wd_kafka w) = channel_clients d \<union> K"
  shows "wd_open (closeAll (ae_lib env) d w) = {} \<and> oc (wd_kafka (closeAll (ae_lib env) d w)) = K"
proof (cases "dp_Channels d")
  case None
  then show ?thesis using assms(2-4) by (simp add: closeAll_def extras_closed channel_clients_def)
next
  case (Some chs)
  show ?thesis
  proof (cases chs)
    case (InMemory m)
    then show ?thesis using Some assms(2-4) by (simp add: closeAll_def extras_closed channel_clients_def close_channels_def)
  next
    case (OverKafka cs)
    have "oc (close_channels (ae_lib env) chs k) = oc k - all_clients cs" for k
      using OverKafka by (auto simp: close_channels_def all_clients_def Channel_Close_closes[OF assms(1)] Let_def split: option.split)
    then show ?thesis using Some OverKafka assms(2-4) by (auto simp: closeAll_def extras_closed channel_clients_def)
  qed
qed

lemma build_agents_length: "build_agents_from seeded config js = Inr xs \<Longrightarrow> length xs = length js"
  by (induction js arbitrary: xs) (auto split: sum.splits)

section \<open>Properties\<close>

text \<open>
  Property C40 (a runtime is built whole or not at all). Over a Kafka client library in which opening and closing clients works as documented, and starting with nothing of its own open, building the runtime either fails and leaves the
  clients, pools and recorders that were open as they were, whatever step failed, or succeeds, and then exactly those are open that the runtime will close: the extras of its dependencies and the clients of its channels.
\<close>

theorem runtime_all_or_none:
  assumes "library_ok (ae_lib env) oc" and "wd_open w = {}" and "NewWithContext env seeded now config w = (r, w')"
  shows "case r of Inl err \<Rightarrow> wd_open w' = {} \<and> oc (wd_kafka w') = oc (wd_kafka w)
    | Inr rt \<Rightarrow> wd_open w' = set (dp_Extra (ar_deps rt)) \<and> oc (wd_kafka w') = channel_clients (ar_deps rt) \<union> oc (wd_kafka w) \<and>
        wd_open (closeAll (ae_lib env) (ar_deps rt) w') = {} \<and> oc (wd_kafka (closeAll (ae_lib env) (ar_deps rt) w')) = oc (wd_kafka w) \<and> length (ar_agents rt) = nat (cf_Devices config)"
proof (cases "AppConfig_validate config")
  case (Some err)
  with assms(2,3) show ?thesis by (auto simp: NewWithContext_def)
next
  case valid: None
  obtain r1 w1 where deps: "buildDependencies env config w = (r1, w1)" by fastforce
  note opens = buildDependencies_opens[OF assms(1) deps assms(2)]
  show ?thesis
  proof (cases r1)
    case (Inl err)
    with valid deps opens assms(3) show ?thesis by (auto simp: NewWithContext_def)
  next
    case (Inr d)
    have "wd_open (closeAll (ae_lib env) d w1) = {} \<and> oc (wd_kafka (closeAll (ae_lib env) d w1)) = oc (wd_kafka w)" using opens Inr by (intro closeAll_closes[OF assms(1)]) simp_all
    then show ?thesis using valid deps opens Inr assms(3) build_agents_length[of seeded config "[0 .. cf_Devices config - 1]"]
      by (auto simp: NewWithContext_def buildAgents_def split: sum.splits)
  qed
qed

text \<open>The archive is reached, and its migration fails.\<close>

definition ex_backends :: Backends where
  "ex_backends = no_backends\<lparr>be_RedisAddr := ''redis:6379'', be_PostgresDSN := ''postgres://archive''\<rparr>"

definition ex_env :: "pg_call \<Rightarrow> (unit, unit, nat, nat list, unit, archive_db) app_env" where
  "ex_env schema =
    \<lparr>ae_certs = \<lparr>ce_ReadFile = \<lambda>_. Inl ErrCanceled, ce_AppendCertsFromPEM = \<lambda>_. None, ce_LoadX509KeyPair = \<lambda>_ _. Inl ErrCanceled\<rparr>, ae_lib = ex_library,
     ae_marshal = undefined, ae_redisPing = None, ae_poolNew = \<lambda>_. None, ae_poolPing = None, ae_postgres = plain_postgres, ae_addDays = \<lambda>n t. t + n * day_nanos,
     ae_schemaCall = schema, ae_partitionCalls = \<lambda>_ _. Answered, ae_now = 0, ae_urlParse = \<lambda>_. Inl ErrCanceled, ae_urlString = \<lambda>_. []\<rparr>"

definition ex_world :: "(nat list, archive_db) world" where "ex_world = \<lparr>wd_open = {}, wd_kafka = [1], wd_archive = ex_archive\<rparr>"

theorem runtime_all_or_none_witness:
  "fst (NewWithContext (ex_env (Refused ErrCanceled)) (\<lambda>_. ()) 0 (DefaultConfig\<lparr>cf_Backends := ex_backends\<rparr>) ex_world) = Inl (Wrap ''postgresstore: applying schema'' ErrCanceled) \<and>
   wd_open (snd (NewWithContext (ex_env (Refused ErrCanceled)) (\<lambda>_. ()) 0 (DefaultConfig\<lparr>cf_Backends := ex_backends\<rparr>) ex_world)) = {} \<and>
   set (wd_kafka (snd (NewWithContext (ex_env (Refused ErrCanceled)) (\<lambda>_. ()) 0 (DefaultConfig\<lparr>cf_Backends := ex_backends\<rparr>) ex_world))) = {1}"
proof -
  let ?run = "NewWithContext (ex_env (Refused ErrCanceled)) (\<lambda>_. ()) 0 (DefaultConfig\<lparr>cf_Backends := ex_backends\<rparr>) ex_world"
  have failed: "fst ?run = Inl (Wrap ''postgresstore: applying schema'' ErrCanceled)"
    by (simp add: NewWithContext_def AppConfig_validate_def DefaultConfig_def buildDependencies_def buildState_def ex_backends_def no_backends_def Dial_def RedisSecurity_apply_def RedisSecurity_validate_def
        redisSecurity_def ex_env_def NewRedisStore_def NewAsync_def build_archive_def secured_dsn_def NewPostgresStore_def Migrate_def pg_exec_def Let_def)
  have lib: "library_ok (ae_lib (ex_env (Refused ErrCanceled))) set" using ex_library_ok by (simp add: ex_env_def)
  from runtime_all_or_none[OF lib _ prod.collapse[symmetric], of ex_world "\<lambda>_. ()" 0 "DefaultConfig\<lparr>cf_Backends := ex_backends\<rparr>"] failed
  show ?thesis by (simp add: ex_world_def)
qed

end
