(* ===== verification/ServerTls.thy ===== *)
theory ServerTls
  imports Kafka
begin

text \<open>
  The server side of a TLS connection, as \<^verbatim>\<open>crypto/tls\<close> does it in version 1.3: which part of the configuration the two servers of the program set, and what a handshake checks. Certificates and
  their verification are parameters: \<open>cn\<close> reads the common name of a certificate, \<open>verify\<close> gives the verified chains of what a client presented, none when it does not verify.
\<close>

datatype client_auth = NoClientCert | RequireAndVerifyClientCert

record ('cert, 'pool, 'x) tls_config =
  tls_Certificate :: 'cert
  tls_ClientCAs :: "'pool option"
  tls_ClientAuth :: client_auth
  tls_VerifyPeerCertificate :: "('x list list \<Rightarrow> error option) option"
  tls_VerifyConnection :: "('x list \<Rightarrow> error option) option"

definition hook :: "('a \<Rightarrow> error option) option \<Rightarrow> 'a \<Rightarrow> bool" where
  "hook h x = (case h of None \<Rightarrow> True | Some f \<Rightarrow> f x = None)"

text \<open>
  A server that does not ask for a certificate gets none. One that requires it refuses a client without one, verifies what it got and then asks \<^verbatim>\<open>VerifyPeerCertificate\<close>. \<^verbatim>\<open>VerifyConnection\<close> is asked in
  every case. The result is the list of peer certificates of the connection, \<open>None\<close> when there is no connection.
\<close>

definition handshake :: "('pool option \<Rightarrow> 'x list \<Rightarrow> 'x list list) \<Rightarrow> ('cert, 'pool, 'x) tls_config \<Rightarrow> 'x list \<Rightarrow> 'x list option" where
  "handshake verify c presented =
     (case tls_ClientAuth c of
        NoClientCert \<Rightarrow> if hook (tls_VerifyConnection c) [] then Some [] else None
      | RequireAndVerifyClientCert \<Rightarrow>
          if presented = [] then None
          else let chains = verify (tls_ClientCAs c) presented
               in if chains = [] then None
                  else if \<not> hook (tls_VerifyPeerCertificate c) chains then None
                  else if hook (tls_VerifyConnection c) presented then Some presented else None)"

text \<open>A client certificate bundle: the file and the pool, each with its own error.\<close>

definition client_pool :: "('cert, 'pool) cert_env \<Rightarrow> (error \<Rightarrow> error) \<Rightarrow> error \<Rightarrow> string \<Rightarrow> error + 'pool" where
  "client_pool env reading no_certs file =
     (case ce_ReadFile env file of
        Inl err \<Rightarrow> Inl (reading err)
      | Inr pem \<Rightarrow> (case ce_AppendCertsFromPEM env pem of None \<Rightarrow> Inl no_certs | Some pool \<Rightarrow> Inr pool))"

section \<open>Lemmas\<close>

lemma handshake_peers:
  assumes "handshake verify c presented = Some peers" and "peers \<noteq> []"
  shows "tls_ClientAuth c = RequireAndVerifyClientCert" "peers = presented" "verify (tls_ClientCAs c) presented \<noteq> []"
    "hook (tls_VerifyPeerCertificate c) (verify (tls_ClientCAs c) presented)" "hook (tls_VerifyConnection c) peers"
  using assms by (auto simp: handshake_def Let_def split: client_auth.splits if_splits)

lemma handshake_asked:
  "handshake verify c presented = Some peers \<Longrightarrow> hook (tls_VerifyConnection c) peers"
  by (auto simp: handshake_def Let_def split: client_auth.splits if_splits)

lemma handshake_required:
  assumes "handshake verify c presented = Some peers" and "tls_ClientAuth c = RequireAndVerifyClientCert"
  shows "peers \<noteq> [] \<and> verify (tls_ClientCAs c) peers \<noteq> []"
  using assms by (auto simp: handshake_def Let_def split: if_splits)

end
