(* ===== verification/IngestServe.thy ===== *)
theory IngestServe
  imports ServerTls HttpIngest App RedisStore
begin

text \<open>
  The ingest process (\<^verbatim>\<open>ingest/main.go\<close>): its options, the TLS configuration with the pinned names of the edge, the batch handler over a Kafka producer, the server, and the recorder of its counters. A
  connection is a handshake of the configured server; a request over it reaches the handler of \<open>HttpIngest\<close>. Parsing flags, tracing, the health listener and the wait for a signal are not modelled.
\<close>

section \<open>Options\<close>

record IngestOptions =
  io_addr :: string
  io_certFile :: string
  io_keyFile :: string
  io_clientCA :: string
  io_allowedCNs :: string
  io_healthAddr :: string
  io_brokers :: string
  io_topic :: string
  io_redisAddr :: string
  io_requireMTLS :: bool
  io_wireFormat :: string

definition allowedClientCNs :: "IngestOptions \<Rightarrow> string list" where
  "allowedClientCNs opts =
     (if TrimSpace (io_allowedCNs opts) = [] then []
      else filter (\<lambda>s. s \<noteq> []) (map TrimSpace (Split (CHR '','') (io_allowedCNs opts))))"

definition ingest_splitTrimmed :: "string \<Rightarrow> string list" where
  "ingest_splitTrimmed raw = filter (\<lambda>s. s \<noteq> []) (map TrimSpace (Split (CHR '','') raw))"

section \<open>TLS\<close>

definition ErrNoClientCA :: error where
  [go_error_defs]: "ErrNoClientCA = Err ''require-mtls is set but no client CA was provided, so client certificates cannot be verified''"
definition ErrNoPinnedNames :: error where
  [go_error_defs]: "ErrNoPinnedNames = Err ''a client CA is configured but allowed-client-cn is empty: the CA that signs the edge also signs device certificates, so without pinning a device could bypass the edge and submit telemetry as another device''"
definition ErrEmptyClientCA :: error where [go_error_defs]: "ErrEmptyClientCA = Err ''client CA bundle contained no certificates''"
definition ErrNotAnEdge :: error where [go_error_defs]: "ErrNotAnEdge = Err ''client certificate common name is not an authorised edge''"

definition verify_chains :: "('x \<Rightarrow> string) \<Rightarrow> string set \<Rightarrow> 'x list list \<Rightarrow> error option" where
  "verify_chains cn permitted verified = (if list_ex (\<lambda>ch. ch \<noteq> [] \<and> cn (hd ch) \<in> permitted) verified then None else Some ErrNotAnEdge)"

definition verify_connection :: "('x \<Rightarrow> string) \<Rightarrow> string set \<Rightarrow> 'x list \<Rightarrow> error option" where
  "verify_connection cn permitted peers = (if peers \<noteq> [] \<and> cn (hd peers) \<in> permitted then None else Some ErrNotAnEdge)"

definition pin_names :: "('x \<Rightarrow> string) \<Rightarrow> string list \<Rightarrow> ('cert, 'pool, 'x) tls_config \<Rightarrow> ('cert, 'pool, 'x) tls_config" where
  "pin_names cn allowed config =
     (if allowed = [] then config
      else config\<lparr>tls_VerifyPeerCertificate := Some (verify_chains cn (set allowed)), tls_VerifyConnection := Some (verify_connection cn (set allowed))\<rparr>)"

definition ingest_buildTLS :: "('cert, 'pool) cert_env \<Rightarrow> ('x \<Rightarrow> string) \<Rightarrow> IngestOptions \<Rightarrow> error + ('cert, 'pool, 'x) tls_config" where
  "ingest_buildTLS env cn opts =
     (case ce_LoadX509KeyPair env (io_certFile opts) (io_keyFile opts) of
        Inl err \<Rightarrow> Inl (Wrap ''loading server certificate'' err)
      | Inr certificate \<Rightarrow>
          let config = \<lparr>tls_Certificate = certificate, tls_ClientCAs = None, tls_ClientAuth = NoClientCert, tls_VerifyPeerCertificate = None, tls_VerifyConnection = None\<rparr>
          in if io_requireMTLS opts \<and> io_clientCA opts = [] then Inl ErrNoClientCA
             else if io_clientCA opts \<noteq> [] \<and> allowedClientCNs opts = [] then Inl ErrNoPinnedNames
             else if io_clientCA opts = [] then Inr (pin_names cn (allowedClientCNs opts) config)
             else case client_pool env (Wrap ''reading client CA'') ErrEmptyClientCA (io_clientCA opts) of
               Inl err \<Rightarrow> Inl err
             | Inr pool \<Rightarrow>
                 Inr (pin_names cn (allowedClientCNs opts)
                   (config\<lparr>tls_ClientCAs := Some pool, tls_ClientAuth := (if io_requireMTLS opts then RequireAndVerifyClientCert else NoClientCert)\<rparr>)))"

section \<open>The server\<close>

record ('cert, 'pool, 'x) http_server =
  sv_Addr :: string
  sv_ReadHeaderTimeout :: duration
  sv_ReadTimeout :: duration
  sv_WriteTimeout :: duration
  sv_IdleTimeout :: duration
  sv_TLSConfig :: "('cert, 'pool, 'x) tls_config option"

definition newIngestServer :: "('cert, 'pool) cert_env \<Rightarrow> ('x \<Rightarrow> string) \<Rightarrow> IngestOptions \<Rightarrow> error + ('cert, 'pool, 'x) http_server" where
  "newIngestServer env cn opts =
     (let server = \<lparr>sv_Addr = io_addr opts, sv_ReadHeaderTimeout = 10 * second, sv_ReadTimeout = 30 * second, sv_WriteTimeout = 30 * second, sv_IdleTimeout = 120 * second,
                    sv_TLSConfig = None\<rparr>
      in if io_certFile opts = [] then Inr server
         else case ingest_buildTLS env cn opts of
           Inl err \<Rightarrow> Inl err
         | Inr config \<Rightarrow> Inr (server\<lparr>sv_TLSConfig := Some config\<rparr>))"

text \<open>The batch handler: a producer for the topic, the ingest service over it and the endpoint.\<close>

definition newBatchHandler :: "Marshallers \<Rightarrow> ('cert, 'pool) cert_env \<Rightarrow> ('cert, 'pool, 'c, 'k) kgo \<Rightarrow> string \<Rightarrow> IngestOptions \<Rightarrow> 'k \<Rightarrow> (error + 'c Producer \<times> HttpServer) \<times> 'k" where
  "newBatchHandler M env lib localPod opts k =
     (case For M (io_wireFormat opts) of
        Inl err \<Rightarrow> (Inl err, k)
      | Inr cd \<Rightarrow>
          (case NewProducer M env lib
              \<lparr>kc_Brokers = ingest_splitTrimmed (io_brokers opts), kc_Topic = io_topic opts, kc_Group = [], kc_DeadLetterTopic = [], kc_MaxAttempts = 0,
               kc_Security = \<lparr>sec_Enabled = False, sec_CAFile = [], sec_CertFile = [], sec_KeyFile = [], sec_SASLUser = [], sec_SASLPassword = [], sec_InsecureSkipVerify = False,
                 sec_ServerName = []\<rparr>, kc_Codec = Some cd\<rparr> k of
             (Inl err, k1) \<Rightarrow> (Inl err, k1)
           | (Inr producer, k1) \<Rightarrow>
               (Inr (producer, NewHttpServer localPod \<lparr>hc_IdentityHeader = [], hc_MaxBodyBytes = 0, hc_AllowedClientCNs = allowedClientCNs opts, hc_PodID = []\<rparr>), k1)))"

text \<open>
  A request to the endpoint. Without TLS there is no peer; with it the peer is the first certificate of the handshake, and a refused handshake is no request at all.
\<close>

definition request_peer :: "('pool option \<Rightarrow> 'x list \<Rightarrow> 'x list list) \<Rightarrow> ('x \<Rightarrow> string) \<Rightarrow> ('cert, 'pool, 'x) http_server \<Rightarrow> 'x list \<Rightarrow> string option option" where
  "request_peer verify cn server presented =
     (case sv_TLSConfig server of
        None \<Rightarrow> Some None
      | Some config \<Rightarrow> (case handshake verify config presented of None \<Rightarrow> None | Some peers \<Rightarrow> Some (if peers = [] then None else Some (cn (hd peers)))))"

definition serve_batch :: "('pool option \<Rightarrow> 'x list \<Rightarrow> 'x list list) \<Rightarrow> ('x \<Rightarrow> string) \<Rightarrow> ('cert, 'pool, 'x) http_server \<Rightarrow> HttpServer \<Rightarrow> 's BatchAcceptor \<Rightarrow> 'm MetricsRecorder
    \<Rightarrow> (int \<Rightarrow> string \<Rightarrow> EdgeBatch option) \<Rightarrow> (nat \<Rightarrow> time) \<Rightarrow> 'x list \<Rightarrow> Request \<Rightarrow> 's \<times> 'm \<Rightarrow> int option \<times> ('s \<times> 'm)" where
  "serve_batch verify cn server handler accept met decode clock presented r st =
     (case request_peer verify cn server presented of
        None \<Rightarrow> (None, st)
      | Some peer \<Rightarrow> (case http_ingest accept met decode handler clock (r\<lparr>rq_peerCN := peer\<rparr>) st of (status, st1) \<Rightarrow> (Some status, st1)))"

section \<open>The recorder\<close>

text \<open>
  \<open>buildMetrics\<close> keeps the counters in memory without a Redis address, and also when Redis does not answer; \<open>ping\<close> is what it answers. The last component says whether a client stays open.
\<close>

datatype backing = InMemoryBacking | AsyncRedisBacking

definition buildMetrics :: "error option \<Rightarrow> string \<Rightarrow> error + backing \<times> bool" where
  "buildMetrics ping address =
     (if address = [] then Inr (InMemoryBacking, False)
      else case ping of
        Some err \<Rightarrow> Inr (InMemoryBacking, False)
      | None \<Rightarrow>
          (case NewRedisStore \<lparr>ro_Client = True, ro_Namespace = [], ro_DedupeTTL = 0, ro_MetricsKey = [], ro_Recorder = None :: unit MetricsRecorder\<rparr> of
             Inl err \<Rightarrow> Inl err
           | Inr recorder \<Rightarrow>
               (case NewAsync (Some (\<lambda>name delta. id)) 0 () of
                  Inl err \<Rightarrow> Inl err
                | Inr async \<Rightarrow> Inr (AsyncRedisBacking, True))))"

section \<open>Starting up\<close>

text \<open>
  The steps of \<^verbatim>\<open>run\<close> up to serving. Everything opened before a failure is closed by the deferred calls: \<open>k\<close> is the state of the Kafka library, the boolean says whether the Redis client is open.
\<close>

definition ingest_start :: "Marshallers \<Rightarrow> ('cert, 'pool) cert_env \<Rightarrow> ('cert, 'pool, 'c, 'k) kgo \<Rightarrow> ('x \<Rightarrow> string) \<Rightarrow> error option \<Rightarrow> string \<Rightarrow> IngestOptions \<Rightarrow> 'k
    \<Rightarrow> (error + ('cert, 'pool, 'x) http_server \<times> HttpServer \<times> 'c Producer) \<times> 'k \<times> bool" where
  "ingest_start M env lib cn ping localPod opts k =
     (case buildMetrics ping (io_redisAddr opts) of
        Inl err \<Rightarrow> (Inl err, k, False)
      | Inr (backing, client) \<Rightarrow>
          (case newBatchHandler M env lib localPod opts k of
             (Inl err, k1) \<Rightarrow> (Inl err, k1, False)
           | (Inr (producer, handler), k1) \<Rightarrow>
               (case newIngestServer env cn opts of
                  Inl err \<Rightarrow> (Inl err, Producer_Close lib producer k1, False)
                | Inr server \<Rightarrow> (Inr (server, handler, producer), k1, client))))"

section \<open>Who gets in\<close>

lemma allowed_nonempty: "\<forall>n \<in> set (allowedClientCNs opts). n \<noteq> []"
  by (simp add: allowedClientCNs_def)

lemma pinned_handler:
  "hs_allowedClients (NewHttpServer pod \<lparr>hc_IdentityHeader = [], hc_MaxBodyBytes = 0, hc_AllowedClientCNs = allowedClientCNs opts, hc_PodID = []\<rparr>) = set (allowedClientCNs opts)"
  using allowed_nonempty[of opts] by (auto simp: NewHttpServer_def)

lemma newBatchHandler_pins:
  "newBatchHandler M env lib pod opts k = (Inr (producer, handler), k') \<Longrightarrow> hs_allowedClients handler = set (allowedClientCNs opts)"
  by (auto simp: newBatchHandler_def pinned_handler split: sum.splits prod.splits)

text \<open>A TLS configuration that asks for certificates has a pool to verify them with, made from the client CA, and one with pinned names asks for them in every handshake.\<close>

lemma ingest_buildTLS_cases:
  assumes "ingest_buildTLS env cn opts = Inr config"
  shows "tls_ClientAuth config = RequireAndVerifyClientCert \<longleftrightarrow> io_requireMTLS opts"
    and "io_requireMTLS opts \<Longrightarrow> allowedClientCNs opts \<noteq> [] \<and> (\<exists>pool. tls_ClientCAs config = Some pool \<and>
      client_pool env (Wrap ''reading client CA'') ErrEmptyClientCA (io_clientCA opts) = Inr pool)"
    and "allowedClientCNs opts \<noteq> [] \<Longrightarrow> tls_VerifyConnection config = Some (verify_connection cn (set (allowedClientCNs opts)))"
  using assms by (auto simp: ingest_buildTLS_def pin_names_def Let_def split: sum.splits if_splits)

lemma hook_connection: "hook (Some (verify_connection cn permitted)) peers \<longleftrightarrow> peers \<noteq> [] \<and> cn (hd peers) \<in> permitted"
  by (simp add: hook_def verify_connection_def)

text \<open>
  Property C24 (only the edge submits batches). Let the process be started with at least one permitted name. A batch is then published, or a request accepted, only over a TLS connection on which the client presented a certificate that
  verified against the configured client CA and whose common name is permitted, and only if mutual TLS was asked for; every other request leaves the publisher untouched.
\<close>

theorem only_edges_submit:
  assumes "ingest_start M env lib cn ping pod opts k = (Inr (server, handler, producer), k', open_client)" and "allowedClientCNs opts \<noteq> []"
    and "serve_batch verify cn server handler (Accept pub met1) met decode clock presented r ((p, m1), m) = (answer, ((p', m1'), m'))"
    and "answer = Some StatusAccepted \<or> p' \<noteq> p"
  shows "io_certFile opts \<noteq> [] \<and> io_requireMTLS opts \<and> presented \<noteq> [] \<and> cn (hd presented) \<in> set (allowedClientCNs opts) \<and>
    (\<exists>pool. client_pool env (Wrap ''reading client CA'') ErrEmptyClientCA (io_clientCA opts) = Inr pool \<and> verify (Some pool) presented \<noteq> [])"
proof -
  have pins: "hs_allowedClients handler = set (allowedClientCNs opts)" and server: "newIngestServer env cn opts = Inr server"
    using assms(1) newBatchHandler_pins by (fastforce simp: ingest_start_def split: sum.splits prod.splits)+
  obtain peer where peer: "request_peer verify cn server presented = Some peer"
    using assms(3,4) by (cases "request_peer verify cn server presented") (auto simp: serve_batch_def)
  obtain status where run: "http_ingest (Accept pub met1) met decode handler clock (r\<lparr>rq_peerCN := peer\<rparr>) ((p, m1), m) = (status, ((p', m1'), m'))" "answer = Some status"
    using assms(3) peer by (auto simp: serve_batch_def split: prod.splits)
  have "peerIsAuthorisedEdge handler (r\<lparr>rq_peerCN := peer\<rparr>)"
    using run assms(4) by (cases rule: http_ingest_cases[OF run(1)]) (auto simp: status_defs)
  then obtain name where name: "peer = Some name" "name \<in> set (allowedClientCNs opts)"
    using pins assms(2) by (auto simp: peerIsAuthorisedEdge_def split: option.splits if_splits)
  obtain config peers where tls: "sv_TLSConfig server = Some config" "handshake verify config presented = Some peers" "peers \<noteq> []" "name = cn (hd peers)"
    using peer name(1) by (auto simp: request_peer_def split: option.splits if_splits)
  have built: "io_certFile opts \<noteq> []" "ingest_buildTLS env cn opts = Inr config"
    using server tls(1) by (auto simp: newIngestServer_def Let_def split: if_splits sum.splits)
  note shake = handshake_peers[OF tls(2,3)]
  have mtls: "io_requireMTLS opts" using ingest_buildTLS_cases(1)[OF built(2)] shake(1) by simp
  from ingest_buildTLS_cases(2)[OF built(2) mtls] shake(2,3) tls(3,4) name(2) built(1) mtls show ?thesis by auto
qed

definition ex_ingest :: IngestOptions where
  "ex_ingest = \<lparr>io_addr = '':8443'', io_certFile = ''cert'', io_keyFile = ''key'', io_clientCA = ''ca'', io_allowedCNs = ''edge'', io_healthAddr = [], io_brokers = ''k1:9092'',
     io_topic = ''raw'', io_redisAddr = [], io_requireMTLS = True, io_wireFormat = ''json''\<rparr>"

definition ex_certs :: "(unit, unit) cert_env" where
  "ex_certs = \<lparr>ce_ReadFile = \<lambda>_. Inr [], ce_AppendCertsFromPEM = \<lambda>_. Some (), ce_LoadX509KeyPair = \<lambda>_ _. Inr ()\<rparr>"

lemma ex_names: "allowedClientCNs ex_ingest = [''edge'']" "ingest_splitTrimmed ''k1:9092'' = [''k1:9092'']"
proof -
  have "TrimSpace ''edge'' = ''edge''" "TrimSpace ''k1:9092'' = ''k1:9092''" by (rule TrimSpace_visible; simp add: visible_char_def)+
  then show "allowedClientCNs ex_ingest = [''edge'']" "ingest_splitTrimmed ''k1:9092'' = [''k1:9092'']" by (simp_all add: allowedClientCNs_def ex_ingest_def ingest_splitTrimmed_def)
qed

theorem only_edges_submit_witness:
  "\<exists>server producer k'. ingest_start (ex_marshallers ex_wire_batch ex_wire_window ex_wire_command) ex_certs ex_library id None ''pod-7'' ex_ingest [] = (Inr (server, ex_server, producer), k', False) \<and>
     fst (serve_batch (\<lambda>_ certs. [certs]) id server ex_server (Accept ex_publish (None :: unit MetricsRecorder)) (None :: unit MetricsRecorder) ex_decode (\<lambda>_. 1) [''edge''] (ex_request None) (([], ()), ())) =
       Some StatusAccepted \<and> io_requireMTLS ex_ingest"
proof -
  let ?M = "ex_marshallers ex_wire_batch ex_wire_window ex_wire_command"
  have pinned: "NewHttpServer ''pod-7'' \<lparr>hc_IdentityHeader = [], hc_MaxBodyBytes = 0, hc_AllowedClientCNs = allowedClientCNs ex_ingest, hc_PodID = []\<rparr> = ex_server" by (simp add: ex_server_def ex_names)
  have handler: "\<exists>producer k'. newBatchHandler ?M ex_certs ex_library ''pod-7'' ex_ingest [] = (Inr (producer, ex_server), k')"
    using pinned by (simp add: newBatchHandler_def For_def FormatJSON_def ex_ingest_def ex_names NewProducer_def validateProducer_def Security_options_def Security_validate_def ex_library_def)
  let ?config = "\<lparr>tls_Certificate = (), tls_ClientCAs = Some (), tls_ClientAuth = RequireAndVerifyClientCert, tls_VerifyPeerCertificate = Some (verify_chains id {''edge''}),
    tls_VerifyConnection = Some (verify_connection id {''edge''})\<rparr>"
  have "ingest_buildTLS ex_certs id ex_ingest = Inr ?config"
    using ex_names(1) by (simp add: ingest_buildTLS_def ex_certs_def client_pool_def pin_names_def Let_def) (simp add: ex_ingest_def)
  then obtain server where server: "newIngestServer ex_certs id ex_ingest = Inr server" "sv_TLSConfig server = Some ?config"
    by (simp add: newIngestServer_def Let_def) (simp add: ex_ingest_def)
  have "request_peer (\<lambda>_ certs. [certs]) id server [''edge''] = Some (Some ''edge'')"
    using server(2) by (simp add: request_peer_def handshake_def hook_def verify_chains_def verify_connection_def)
  then have "serve_batch (\<lambda>_ certs. [certs]) id server ex_server (Accept ex_publish (None :: unit MetricsRecorder)) (None :: unit MetricsRecorder) ex_decode (\<lambda>_. 1) [''edge''] (ex_request None) (([], ()), ()) =
      (Some StatusAccepted, (([\<lparr>b_DeviceID = ''d'', b_CreatedAt = 1, b_Events = [to_event ex_server ''d'' 1 ex_edge_event]\<rparr>], ()), ()))"
    using ex_http_accepts by (simp add: serve_batch_def ex_request_def)
  moreover obtain producer k' where start: "ingest_start ?M ex_certs ex_library id None ''pod-7'' ex_ingest [] = (Inr (server, ex_server, producer), k', False)"
    using handler server(1) by (auto simp: ingest_start_def buildMetrics_def ex_ingest_def)
  ultimately show ?thesis using only_edges_submit[OF start _ _ disjI1] ex_names(1) by fastforce
qed

section \<open>What the options do not do\<close>

text \<open>
  Asking for mutual TLS without a server certificate is not refused: the server then speaks plain HTTP, and with no permitted names every peer passes.
\<close>

lemma mtls_without_certificate:
  assumes "io_certFile opts = []" and "allowedClientCNs opts = []" and "newIngestServer env cn opts = Inr server" and "newBatchHandler M env' lib pod opts k = (Inr (producer, handler), k')"
  shows "sv_TLSConfig server = None \<and> request_peer verify cn server presented = Some None \<and> peerIsAuthorisedEdge handler r"
  using assms newBatchHandler_pins[OF assms(4)] by (auto simp: newIngestServer_def Let_def request_peer_def peerIsAuthorisedEdge_def)

text \<open>With a client CA but without mutual TLS no certificate is asked for, so the check of the pinned names refuses every connection.\<close>

lemma client_ca_without_mtls:
  assumes "ingest_buildTLS env cn opts = Inr config" and "io_clientCA opts \<noteq> []" and "\<not> io_requireMTLS opts"
  shows "handshake verify config presented = None"
proof -
  have "allowedClientCNs opts \<noteq> []" using assms by (auto simp: ingest_buildTLS_def Let_def split: sum.splits if_splits)
  then have "tls_VerifyConnection config = Some (verify_connection cn (set (allowedClientCNs opts)))" by (rule ingest_buildTLS_cases(3)[OF assms(1)])
  moreover have "tls_ClientAuth config = NoClientCert" using ingest_buildTLS_cases(1)[OF assms(1)] assms(3) by (cases "tls_ClientAuth config") auto
  ultimately show ?thesis by (simp add: handshake_def hook_connection)
qed

end
