(* ===== verification/McpServe.thy ===== *)
theory McpServe
  imports ServerTls McpTools
begin

text \<open>
  Serving the tools over HTTP (\<^verbatim>\<open>internal/mcpserver/httpserver.go\<close>, \<^verbatim>\<open>server.go\<close> and \<^verbatim>\<open>mcp-server/main.go\<close>): the options, the checks before the server is made, the handlers a request passes, and the tool
  that is called in the end. The middleware that reads bearer tokens is third-party code, the parameter \<open>bearer\<close>; what is assumed of it is \<open>bearer_ok\<close>. The listener, the MCP protocol and its sessions are not modelled.
\<close>

section \<open>The server (httpserver.go)\<close>

definition ErrNoVerifier :: error where [go_error_defs]: "ErrNoVerifier = Err ''mcpserver: a token verifier is required when authentication is enabled''"
definition ErrMcpEmptyClientCA :: error where [go_error_defs]: "ErrMcpEmptyClientCA = Err ''mcpserver: client CA bundle contained no certificates''"

type_synonym TokenVerifier = "time \<Rightarrow> time \<Rightarrow> string \<Rightarrow> error + TokenInfo"

record 's HTTPOptions =
  ho_Addr :: string
  ho_Tools :: "'s Tools"
  ho_Verifier :: "TokenVerifier option"
  ho_RequireAuth :: bool
  ho_CertFile :: string
  ho_KeyFile :: string
  ho_ClientCAFile :: string
  ho_ResourceMetaURL :: string
  ho_MaxBodyBytes :: int
  ho_SessionTTL :: duration

definition McpMaxBodyBytes :: int where "McpMaxBodyBytes = 4 * 1048576"
definition DefaultIdleTimeout :: duration where "DefaultIdleTimeout = 120 * second"
definition DefaultSessionTTL :: duration where "DefaultSessionTTL = 1800 * second"

text \<open>The server as its handler is built: \<open>mh_auth\<close> is the verifier of the bearer middleware, \<open>None\<close> when requests are not authenticated.\<close>

record ('cert, 'pool, 'x, 's) mcp_server =
  mh_Addr :: string
  mh_tools :: "'s Tools"
  mh_auth :: "TokenVerifier option"
  mh_maxBody :: int
  mh_sessionTTL :: duration
  mh_idleTimeout :: duration
  mh_TLSConfig :: "('cert, 'pool, 'x) tls_config option"

definition mcp_buildTLS :: "('cert, 'pool) cert_env \<Rightarrow> 's HTTPOptions \<Rightarrow> error + ('cert, 'pool, 'x) tls_config" where
  "mcp_buildTLS env options =
     (case ce_LoadX509KeyPair env (ho_CertFile options) (ho_KeyFile options) of
        Inl err \<Rightarrow> Inl err
      | Inr certificate \<Rightarrow>
          let config = \<lparr>tls_Certificate = certificate, tls_ClientCAs = None, tls_ClientAuth = NoClientCert, tls_VerifyPeerCertificate = None, tls_VerifyConnection = None\<rparr>
          in if ho_ClientCAFile options = [] then Inr config
             else case client_pool env id ErrMcpEmptyClientCA (ho_ClientCAFile options) of
               Inl err \<Rightarrow> Inl err
             | Inr pool \<Rightarrow> Inr (config\<lparr>tls_ClientCAs := Some pool, tls_ClientAuth := RequireAndVerifyClientCert\<rparr>))"

definition NewHTTPServer :: "('cert, 'pool) cert_env \<Rightarrow> 's HTTPOptions \<Rightarrow> error + ('cert, 'pool, 'x, 's) mcp_server" where
  "NewHTTPServer env options =
     (if ho_RequireAuth options \<and> ho_Verifier options = None then Inl ErrNoVerifier
      else let server = \<lparr>mh_Addr = ho_Addr options, mh_tools = ho_Tools options, mh_auth = (if ho_RequireAuth options then ho_Verifier options else None),
                         mh_maxBody = (if ho_MaxBodyBytes options \<le> 0 then McpMaxBodyBytes else ho_MaxBodyBytes options),
                         mh_sessionTTL = (if ho_SessionTTL options \<le> 0 then DefaultSessionTTL else ho_SessionTTL options),
                         mh_idleTimeout = DefaultIdleTimeout, mh_TLSConfig = None\<rparr>
           in if ho_CertFile options = [] then Inr server
              else case mcp_buildTLS env options of
                Inl err \<Rightarrow> Inl err
              | Inr config \<Rightarrow> Inr (server\<lparr>mh_TLSConfig := Some config\<rparr>))"

section \<open>A request\<close>

text \<open>
  What the handlers read of a request: \<open>mr_originHost\<close> is the host of the parsed \<^verbatim>\<open>Origin\<close> header, \<open>None\<close> when it does not parse; \<open>mr_bearer\<close> the token of the \<^verbatim>\<open>Authorization\<close> header.
\<close>

record mcp_request =
  mr_ctx :: ctx
  mr_method :: string
  mr_secFetchSite :: string
  mr_origin :: string
  mr_originHost :: "string option"
  mr_host :: string
  mr_bearer :: "string option"
  mr_bodyLen :: int

text \<open>The check of \<^verbatim>\<open>http.CrossOriginProtection\<close> with no trusted origins and no bypass.\<close>

definition same_origin :: "mcp_request \<Rightarrow> bool" where
  "same_origin r =
     (if mr_method r \<in> {''GET'', ''HEAD'', ''OPTIONS''} then True
      else if mr_secFetchSite r \<noteq> [] then mr_secFetchSite r \<in> {''same-origin'', ''none''}
      else mr_origin r = [] \<or> mr_originHost r = Some (mr_host r))"

text \<open>
  The middleware passes a request on only with the token information that the verifier returned for the token of the request.
\<close>

type_synonym bearer_middleware = "(string \<Rightarrow> error + TokenInfo) \<Rightarrow> mcp_request \<Rightarrow> TokenInfo option"

definition bearer_ok :: "bearer_middleware \<Rightarrow> bool" where
  "bearer_ok bearer \<longleftrightarrow> (\<forall>verifier r info. bearer verifier r = Some info \<longrightarrow> (\<exists>token. mr_bearer r = Some token \<and> verifier token = Inr info))"

text \<open>The context in which a request to \<^verbatim>\<open>/mcp\<close> reaches the tools, if it does; \<open>now1\<close> and \<open>now2\<close> are the verifier's readings of the clock.\<close>

definition mcp_context :: "bearer_middleware \<Rightarrow> ('cert, 'pool, 'x, 's) mcp_server \<Rightarrow> time \<Rightarrow> time \<Rightarrow> mcp_request \<Rightarrow> tool_ctx option" where
  "mcp_context bearer server now1 now2 r =
     (if \<not> same_origin r then None
      else if mh_maxBody server < mr_bodyLen r then None
      else case mh_auth server of
        None \<Rightarrow> Some (withPrincipal \<lparr>tc_err = mr_ctx r, tc_principal = None, tc_token = None\<rparr>)
      | Some verifier \<Rightarrow>
          (case bearer (verifier now1 now2) r of
             None \<Rightarrow> None
           | Some info \<Rightarrow> Some (withPrincipal \<lparr>tc_err = mr_ctx r, tc_principal = None, tc_token = Some info\<rparr>)))"

section \<open>The tools of a server (server.go)\<close>

datatype tool_call =
    GetDeviceState DeviceStateInput | GetUserDevices UserDevicesInput | GetPipelineMetrics | WatchDeviceCall WatchDeviceInput | ResetDeviceCounters ResetCountersInput

fun tool_name :: "tool_call \<Rightarrow> string" where
  "tool_name (GetDeviceState _) = ''get_device_state''"
| "tool_name (GetUserDevices _) = ''get_user_devices''"
| "tool_name GetPipelineMetrics = ''get_pipeline_metrics''"
| "tool_name (WatchDeviceCall _) = ''watch_device''"
| "tool_name (ResetDeviceCounters _) = ''reset_device_counters''"

text \<open>A registered tool is its handler; here it reports only whether it failed, a watch that it began.\<close>

definition failed :: "error + 'a \<Rightarrow> error option" where
  "failed r = (case r of Inl err \<Rightarrow> Some err | Inr _ \<Rightarrow> None)"

fun call_tool :: "'s Tools \<Rightarrow> time \<Rightarrow> tool_ctx \<Rightarrow> tool_call \<Rightarrow> 's tool_state \<Rightarrow> error option \<times> 's tool_state" where
  "call_tool t now cx (GetDeviceState inp) s = (failed (tool_DeviceState t cx inp (ts_store s)), s)"
| "call_tool t now cx (GetUserDevices inp) s = (failed (tool_UserDevices t cx inp (ts_store s)), s)"
| "call_tool t now cx GetPipelineMetrics s = (failed (tool_PipelineMetrics t cx (ts_store s)), s)"
| "call_tool t now cx (WatchDeviceCall inp) s = (case WatchDevice_begin t cx inp s of (r, s1) \<Rightarrow> (failed r, s1))"
| "call_tool t now cx (ResetDeviceCounters inp) s = (case tool_ResetCounters t now cx inp (ts_store s) of (r, st) \<Rightarrow> (failed r, s\<lparr>ts_store := st\<rparr>))"

section \<open>The process (main.go)\<close>

record serveOptions =
  so_headless :: bool
  so_healthAddr :: string
  so_httpAddr :: string
  so_staticTokens :: string
  so_requireAuth :: bool
  so_allowAnonymous :: bool
  so_tlsCert :: string
  so_tlsKey :: string
  so_clientCA :: string
  so_maxWatches :: int
  so_sessionTTL :: duration

definition ErrAnonymousHTTP :: error where
  [go_error_defs]: "ErrAnonymousHTTP = Err ''ironclaw: -require-auth=false serves every tenant's telemetry to any caller; pass -allow-anonymous-http to accept that explicitly''"
definition ErrNoTokens :: error where [go_error_defs]: "ErrNoTokens = Err ''ironclaw: -require-auth is set but no tokens were supplied''"

definition tool_options :: "serveOptions \<Rightarrow> 's ToolOptions \<Rightarrow> 's ToolOptions" where
  "tool_options serve ports = ports\<lparr>to_RequireAuth := (so_httpAddr serve \<noteq> [] \<and> so_requireAuth serve), to_MaxWatches := so_maxWatches serve\<rparr>"

definition serveHTTP :: "('cert, 'pool) cert_env \<Rightarrow> 's Tools \<Rightarrow> serveOptions \<Rightarrow> error + ('cert, 'pool, 'x, 's) mcp_server" where
  "serveHTTP env tools serve =
     (let options = \<lparr>ho_Addr = so_httpAddr serve, ho_Tools = tools, ho_Verifier = None, ho_RequireAuth = so_requireAuth serve, ho_CertFile = so_tlsCert serve, ho_KeyFile = so_tlsKey serve,
                     ho_ClientCAFile = so_clientCA serve, ho_ResourceMetaURL = [], ho_MaxBodyBytes = 0, ho_SessionTTL = so_sessionTTL serve\<rparr>
      in if \<not> so_requireAuth serve \<and> \<not> so_allowAnonymous serve then Inl ErrAnonymousHTTP
         else if so_requireAuth serve then
           let tokens = ParseStaticTokens (so_staticTokens serve)
           in if tokens = [] then Inl ErrNoTokens else NewHTTPServer env (options\<lparr>ho_Verifier := Some (StaticTokenVerifier tokens)\<rparr>)
         else NewHTTPServer env options)"

text \<open>
  What \<^verbatim>\<open>run\<close> serves once the pipeline runs: nothing but the health check, the tools over HTTP, or the tools over standard input and output.
\<close>

datatype ('cert, 'pool, 'x, 's) serving = HealthOnly | OverHTTP "('cert, 'pool, 'x, 's) mcp_server" | OverStdio "'s Tools"

definition choose_serving :: "('cert, 'pool) cert_env \<Rightarrow> 's ToolOptions \<Rightarrow> serveOptions \<Rightarrow> error + ('cert, 'pool, 'x, 's) serving" where
  "choose_serving env ports serve =
     (case NewTools (tool_options serve ports) of
        Inl err \<Rightarrow> Inl err
      | Inr tools \<Rightarrow>
          if so_headless serve then Inr HealthOnly
          else if so_httpAddr serve \<noteq> [] then (case serveHTTP env tools serve of Inl err \<Rightarrow> Inl err | Inr server \<Rightarrow> Inr (OverHTTP server))
          else Inr (OverStdio tools))"

section \<open>Lemmas\<close>

lemma NewHTTPServer_fields:
  assumes "NewHTTPServer env options = Inr server"
  shows "mh_tools server = ho_Tools options" "mh_auth server = (if ho_RequireAuth options then ho_Verifier options else None)" "0 < mh_maxBody server" "0 < mh_sessionTTL server"
    "ho_ClientCAFile options \<noteq> [] \<Longrightarrow> ho_CertFile options \<noteq> [] \<Longrightarrow> \<exists>config. mh_TLSConfig server = Some config \<and> tls_ClientAuth config = RequireAndVerifyClientCert"
  using assms by (auto simp: NewHTTPServer_def mcp_buildTLS_def Let_def McpMaxBodyBytes_def DefaultSessionTTL_def second_def split: if_splits sum.splits)

lemma serveHTTP_auth:
  assumes "serveHTTP env tools serve = Inr server"
  shows "mh_tools server = tools"
    "mh_auth server = (if so_requireAuth serve then Some (StaticTokenVerifier (ParseStaticTokens (so_staticTokens serve))) else None)" "so_requireAuth serve \<or> so_allowAnonymous serve"
  using assms by (auto simp: serveHTTP_def Let_def NewHTTPServer_fields(1,2) split: if_splits)

text \<open>A tool does something for a user, or shows the metrics of all, only for a caller that is allowed to.\<close>

fun call_user :: "tool_call \<Rightarrow> string option" where
  "call_user (GetDeviceState inp) = Some (dsi_UserID inp)"
| "call_user (GetUserDevices inp) = Some (udi_UserID inp)"
| "call_user GetPipelineMetrics = None"
| "call_user (WatchDeviceCall inp) = Some (wdi_UserID inp)"
| "call_user (ResetDeviceCounters inp) = Some (rci_UserID inp)"

definition may_call :: "bool \<Rightarrow> tool_ctx \<Rightarrow> tool_call \<Rightarrow> bool" where
  "may_call requireAuth cx call \<longleftrightarrow>
     (case call_user call of
        Some u \<Rightarrow> allowed requireAuth cx u
      | None \<Rightarrow> (case PrincipalFrom cx of None \<Rightarrow> \<not> requireAuth | Some p \<Rightarrow> ScopeAdmin \<in> set (p_Scopes p)))"

lemma call_tool_allowed:
  assumes "call_tool t now cx call ts = (e, ts')" and "e = None \<or> ts' \<noteq> ts"
  shows "may_call (tl_requireAuth t) cx call"
proof (cases call)
  case (GetDeviceState inp)
  then show ?thesis using assms by (auto simp: may_call_def failed_def tool_DeviceState_def authorise_None dest!: first_error_None[THEN iffD1] split: option.splits)
next
  case (GetUserDevices inp)
  then show ?thesis using assms by (auto simp: may_call_def failed_def tool_UserDevices_def authorise_None split: option.splits sum.splits)
next
  case GetPipelineMetrics
  then show ?thesis using assms by (auto simp: may_call_def failed_def tool_PipelineMetrics_def hasScope_def has_scope_iff split: option.splits sum.splits if_splits)
next
  case (WatchDeviceCall inp)
  then show ?thesis using assms by (auto simp: may_call_def failed_def WatchDevice_begin_def authorise_None dest!: first_error_None[THEN iffD1] split: option.splits sum.splits if_splits prod.splits)
next
  case (ResetDeviceCounters inp)
  then show ?thesis using assms
    by (auto simp: may_call_def failed_def tool_ResetCounters_def Let_def authorise_None dest!: first_error_None[THEN iffD1] split: option.splits sum.splits if_splits prod.splits)
qed

section \<open>Properties\<close>

definition token_grants :: "StaticToken \<Rightarrow> tool_call \<Rightarrow> bool" where
  "token_grants e call \<longleftrightarrow> ScopeAdmin \<in> set (st_Scopes e) \<or> (case call_user call of None \<Rightarrow> False | Some u \<Rightarrow> u \<noteq> [] \<and> st_UserID e = u)"

text \<open>
  Property C25 (nobody uses the tools over HTTP without a token that allows it). Assume that the bearer middleware passes on only what the verifier returned for the token of the request. If a tool call that came over HTTP succeeds, or
  changes anything, then either the operator turned authentication off and also allowed anonymous callers explicitly, or the request carried one of the configured tokens, not expired, whose user is the user the call is about
  or which has the administrator scope; the metrics of all users need that scope. A request from another origin reaches no tool.
\<close>

theorem http_callers_hold_tokens:
  assumes "bearer_ok bearer" and "choose_serving env ports serve = Inr (OverHTTP server)" and "mcp_context bearer server now1 now2 r = Some cx"
    and "call_tool (mh_tools server) now cx call ts = (e, ts')" and "e = None \<or> ts' \<noteq> ts"
  shows "same_origin r \<and>
    ((\<not> so_requireAuth serve \<and> so_allowAnonymous serve) \<or>
     (\<exists>token entry. mr_bearer r = Some token \<and> map_of (ParseStaticTokens (so_staticTokens serve)) token = Some entry \<and> (IsZero (st_Expiry entry) \<or> now1 \<le> st_Expiry entry) \<and>
        token_grants entry call))"
proof -
  obtain tools where tools: "NewTools (tool_options serve ports) = Inr tools" "serveHTTP env tools serve = Inr server" "so_httpAddr serve \<noteq> []"
    using assms(2) by (auto simp: choose_serving_def split: sum.splits if_splits)
  note auth = serveHTTP_auth[OF tools(2)]
  have "tl_requireAuth tools = so_requireAuth serve" using tools(1,3) by (auto simp: NewTools_def tool_options_def split: option.splits)
  then have req: "tl_requireAuth (mh_tools server) = so_requireAuth serve" using auth(1) by simp
  have same: "same_origin r" using assms(3) by (auto simp: mcp_context_def split: if_splits)
  show ?thesis
  proof (cases "so_requireAuth serve")
    case False
    with auth(3) same show ?thesis by simp
  next
    case True
    let ?tokens = "ParseStaticTokens (so_staticTokens serve)"
    obtain info where info: "bearer (StaticTokenVerifier ?tokens now1 now2) r = Some info" "cx = withPrincipal \<lparr>tc_err = mr_ctx r, tc_principal = None, tc_token = Some info\<rparr>"
      using assms(3) auth(2) True by (auto simp: mcp_context_def split: if_splits option.splits)
    obtain token where token: "mr_bearer r = Some token" "StaticTokenVerifier ?tokens now1 now2 token = Inr info" using assms(1)[unfolded bearer_ok_def, rule_format, OF info(1)] by blast
    obtain entry where entry: "map_of ?tokens token = Some entry" "IsZero (st_Expiry entry) \<or> now1 \<le> st_Expiry entry" "ti_UserID info = st_UserID entry" "ti_Scopes info = st_Scopes entry"
      using token(2) by (auto simp: StaticTokenVerifier_def lookupToken_map_of[OF ParseStaticTokens_distinct] not_less split: option.splits if_splits)
    have "PrincipalFrom cx = Some \<lparr>p_UserID = st_UserID entry, p_Scopes = st_Scopes entry\<rparr>"
      using entry(3,4) by (simp add: info(2) withPrincipal_def ContextWithPrincipal_def PrincipalFrom_def)
    then have "token_grants entry call" using call_tool_allowed[OF assms(4,5)] req True by (auto simp: may_call_def token_grants_def allowed_def split: option.splits)
    with token(1) entry(1,2) same show ?thesis by blast
  qed
qed

definition ex_serve :: serveOptions where
  "ex_serve = \<lparr>so_headless = False, so_healthAddr = [], so_httpAddr = '':8443'', so_staticTokens = ''t1:alice'', so_requireAuth = True, so_allowAnonymous = False, so_tlsCert = [], so_tlsKey = [],
     so_clientCA = [], so_maxWatches = 0, so_sessionTTL = 0\<rparr>"

definition ex_mcp_request :: mcp_request where
  "ex_mcp_request = \<lparr>mr_ctx = None, mr_method = ''POST'', mr_secFetchSite = [], mr_origin = [], mr_originHost = None, mr_host = ''h'', mr_bearer = Some ''t1'', mr_bodyLen = 10\<rparr>"

definition ex_bearer :: bearer_middleware where
  "ex_bearer verifier r = (case mr_bearer r of None \<Rightarrow> None | Some token \<Rightarrow> (case verifier token of Inl _ \<Rightarrow> None | Inr info \<Rightarrow> Some info))"

lemma ex_bearer_ok: "bearer_ok ex_bearer"
  by (auto simp: bearer_ok_def ex_bearer_def split: option.splits sum.splits)

lemma ex_tokens: "ParseStaticTokens ''t1:alice'' = [(''t1'', \<lparr>st_UserID = ''alice'', st_Scopes = [], st_Expiry = zero_time\<rparr>)]"
proof -
  have "TrimSpace ''t1:alice'' = ''t1:alice''" by (rule TrimSpace_visible) (simp_all add: visible_char_def)
  then show ?thesis by (simp add: ParseStaticTokens_def parse_token_def Let_def numeral_3_eq_3 numeral_2_eq_2)
qed

theorem http_callers_hold_tokens_witness:
  "\<exists>server cx. choose_serving \<lparr>ce_ReadFile = \<lambda>_. Inr [], ce_AppendCertsFromPEM = \<lambda>_. Some (), ce_LoadX509KeyPair = \<lambda>_ _. Inr ()\<rparr> ex_options ex_serve = Inr (OverHTTP server :: (unit, unit, unit, Memory) serving) \<and>
     mcp_context ex_bearer server 5 5 ex_mcp_request = Some cx \<and>
     fst (call_tool (mh_tools server) 5 cx (ResetDeviceCounters \<lparr>rci_UserID = ''alice'', rci_DeviceID = ''d'', rci_Actor = ''alice''\<rparr>) \<lparr>ts_store = NewMemory, ts_watching = 0\<rparr>) = None \<and>
     mr_bearer ex_mcp_request \<noteq> None"
proof -
  let ?env = "\<lparr>ce_ReadFile = \<lambda>_. Inr [], ce_AppendCertsFromPEM = \<lambda>_. Some (), ce_LoadX509KeyPair = \<lambda>_ _. Inr ()\<rparr> :: (unit, unit) cert_env"
  let ?call = "ResetDeviceCounters \<lparr>rci_UserID = ''alice'', rci_DeviceID = ''d'', rci_Actor = ''alice''\<rparr>"
  let ?ts = "\<lparr>ts_store = NewMemory, ts_watching = 0\<rparr>"
  obtain server :: "(unit, unit, unit, Memory) mcp_server" where server: "choose_serving ?env ex_options ex_serve = Inr (OverHTTP server)"
      "mh_auth server = Some (StaticTokenVerifier [(''t1'', \<lparr>st_UserID = ''alice'', st_Scopes = [], st_Expiry = zero_time\<rparr>)])" "mh_maxBody server = McpMaxBodyBytes"
      "tl_commands (mh_tools server) = Some (\<lambda>cx c m. (None, m))" "tl_requireAuth (mh_tools server)"
    using ex_tokens by (simp add: choose_serving_def NewTools_def tool_options_def ex_options_def ex_serve_def serveHTTP_def NewHTTPServer_def Let_def)
  let ?cx = "withPrincipal \<lparr>tc_err = None, tc_principal = None, tc_token = Some \<lparr>ti_UserID = ''alice'', ti_Scopes = [], ti_Expiration = 5 + 3600 * second\<rparr>\<rparr>"
  have cx: "mcp_context ex_bearer server 5 5 ex_mcp_request = Some ?cx"
    by (simp add: mcp_context_def server same_origin_def ex_mcp_request_def McpMaxBodyBytes_def ex_bearer_def StaticTokenVerifier_def lookupToken_map_of IsZero_def)
  have ok: "call_tool (mh_tools server) 5 ?cx ?call ?ts = (None, ?ts)"
    by (simp add: tool_ResetCounters_def server failed_def check_def validateIdentifier_def MaxIdentifierBytes_def control_byte_def authorise_def PrincipalFrom_def withPrincipal_def ContextWithPrincipal_def
      mayAccess_def hasScope_def actor_def Command_Validate_def CommandKind_Valid_def commandKindNames_def command_kind_defs CommandKind_String_def ScopeAdmin_def)
  from http_callers_hold_tokens[OF ex_bearer_ok server(1) cx ok] server(1) cx ok show ?thesis by (auto simp: ex_serve_def)
qed

end
