(* ===== verification/Freshness.thy ===== *)
theory Freshness
  imports HttpIngest
begin

text \<open>
  The freshness probe (\<^verbatim>\<open>internal/probe/freshness.go\<close>): it posts a batch, polls a counter until the batch is visible, and reports how long that took over several rounds. What the clock, the HTTP client and the observed
  counter say in a round is a record of readings; a reading with index \<open>i\<close> belongs to the \<open>i\<close>-th turn of the polling loop. The loop may run as long as the clock allows, so it is a partial function; that it returns is a lemma.
\<close>

definition ErrProbeNilClient :: error where [go_error_defs]: "ErrProbeNilClient = Err ''probe: http client is nil''"
definition ErrNilObserver :: error where [go_error_defs]: "ErrNilObserver = Err ''probe: visibility observer is nil''"
definition ErrNotAccepted :: error where [go_error_defs]: "ErrNotAccepted = Err ''probe: edge did not accept the batch''"
definition ErrNeverVisible :: error where [go_error_defs]: "ErrNeverVisible = Err ''probe: batch never became visible before the deadline''"
definition ErrNoSamples :: error where [go_error_defs]: "ErrNoSamples = Err ''probe: no samples were collected''"
definition ErrInvalidRounds :: error where [go_error_defs]: "ErrInvalidRounds = Err ''probe: rounds must be positive''"

section \<open>Reports\<close>

record Report =
  rp_Samples :: "duration list"
  rp_Sent :: int
  rp_Lost :: int

text \<open>\<open>None\<close> when the index is out of range, where the code panics.\<close>

definition report_Quantile :: "Report \<Rightarrow> real \<Rightarrow> duration option" where
  "report_Quantile r q =
     (if rp_Samples r = [] then Some 0
      else let sorted_samples = sort (rp_Samples r); rank = \<lfloor>q * real (length sorted_samples - 1)\<rfloor>
           in if 0 \<le> rank \<and> rank < int (length sorted_samples) then Some (sorted_samples ! nat rank) else None)"

text \<open>The sum wraps around; the division truncates toward zero.\<close>

definition report_Mean :: "Report \<Rightarrow> duration" where
  "report_Mean r =
     (if rp_Samples r = [] then 0
      else let total = fold (\<lambda>sample t. wrap64 (t + sample)) (rp_Samples r) 0
           in total sdiv int (length (rp_Samples r)))"

section \<open>The probe\<close>

text \<open>The client and the observer are present or nil; what they answer is in the readings.\<close>

record ProbeConfig =
  pb_UserID :: string
  pb_DeviceID :: string
  pb_Rounds :: int
  pb_EventCount :: int
  pb_PollEvery :: duration
  pb_Timeout :: duration
  pb_Client :: bool
  pb_Observer :: bool

definition ProbeConfig_validate :: "ProbeConfig \<Rightarrow> error option" where
  "ProbeConfig_validate c =
     (if \<not> pb_Client c then Some ErrProbeNilClient else if \<not> pb_Observer c then Some ErrNilObserver else if pb_Rounds c \<le> 0 then Some ErrInvalidRounds else None)"

definition NewFreshness :: "ProbeConfig \<Rightarrow> error + ProbeConfig" where
  "NewFreshness c =
     (case ProbeConfig_validate c of
        Some err \<Rightarrow> Inl err
      | None \<Rightarrow>
          let c1 = (if pb_EventCount c \<le> 0 then c\<lparr>pb_EventCount := 1\<rparr> else c);
              c2 = (if pb_PollEvery c1 \<le> 0 then c1\<lparr>pb_PollEvery := 20 * millisecond\<rparr> else c1)
          in Inr (if pb_Timeout c2 \<le> 0 then c2\<lparr>pb_Timeout := 30 * second\<rparr> else c2))"

text \<open>The payload of a post: its events differ in the process id only. The text of the JSON is not modelled.\<close>

definition probe_batch :: "ProbeConfig \<Rightarrow> time \<Rightarrow> EdgeBatch" where
  "probe_batch c instant =
     \<lparr>eb_DeviceID = [],
      eb_Events = map (\<lambda>i. \<lparr>ee_UserID = pb_UserID c, ee_ProcessID = int i, ee_Kind = 1, ee_ObservedAtUnixNanos = UnixNano instant, ee_LatencyNanos = 1000000, ee_Bytes = 64, ee_Failed = False\<rparr>)
        [0..<nat (pb_EventCount c)]\<rparr>"

text \<open>
  The readings of a round: the counter before, the instant of the post and what came of it (the status or an error), the instant after it, and for each turn the clock, the context, the counter and the time since the post.
\<close>

record readings =
  rd_before :: "error + int"
  rd_sentAt :: time
  rd_response :: "error + int"
  rd_after :: time
  rd_clock :: "nat \<Rightarrow> time"
  rd_ctx :: "nat \<Rightarrow> ctx"
  rd_count :: "nat \<Rightarrow> error + int"
  rd_since :: "nat \<Rightarrow> duration"

definition probe_post :: "readings \<Rightarrow> error option" where
  "probe_post rd =
     (case rd_response rd of
        Inl err \<Rightarrow> Some err
      | Inr status \<Rightarrow> if status \<noteq> StatusAccepted then Some (Wrap (''status '' @ AppendInt status) ErrNotAccepted) else None)"

partial_function (option) poll_visible :: "ProbeConfig \<Rightarrow> readings \<Rightarrow> int \<Rightarrow> nat \<Rightarrow> (error + duration) option" where
  "poll_visible c rd seen0 i =
     (if \<not> rd_clock rd i < rd_after rd + pb_Timeout c then Some (Inl ErrNeverVisible)
      else case rd_ctx rd i of
        Some err \<Rightarrow> Some (Inl err)
      | None \<Rightarrow>
          if (case rd_count rd i of Inl _ \<Rightarrow> False | Inr current \<Rightarrow> wrap64 (seen0 + pb_EventCount c) \<le> current) then Some (Inr (rd_since rd i))
          else poll_visible c rd seen0 (Suc i))"

declare poll_visible.simps [code]

definition measure_freshness :: "ProbeConfig \<Rightarrow> readings \<Rightarrow> (error + duration) option" where
  "measure_freshness c rd =
     (case rd_before rd of
        Inl err \<Rightarrow> Some (Inl err)
      | Inr seen0 \<Rightarrow> (case probe_post rd of Some err \<Rightarrow> Some (Inl err) | None \<Rightarrow> poll_visible c rd seen0 0))"

text \<open>The rounds: \<open>cx k\<close> is the context before round \<open>k\<close>, \<open>rds k\<close> what round \<open>k\<close> reads.\<close>

fun run_rounds :: "ProbeConfig \<Rightarrow> (nat \<Rightarrow> ctx) \<Rightarrow> (nat \<Rightarrow> readings) \<Rightarrow> nat list \<Rightarrow> Report \<Rightarrow> (Report \<times> error option) option" where
  "run_rounds c cx rds [] report = Some (report, if rp_Samples report = [] then Some ErrNoSamples else None)"
| "run_rounds c cx rds (k # ks) report =
     (case cx k of
        Some err \<Rightarrow> Some (report, Some err)
      | None \<Rightarrow>
          (case measure_freshness c (rds k) of
             None \<Rightarrow> None
           | Some r \<Rightarrow>
               let report1 = report\<lparr>rp_Sent := rp_Sent report + 1\<rparr>
               in case r of
                    Inl err \<Rightarrow>
                      if errors_Is err ErrNeverVisible then run_rounds c cx rds ks (report1\<lparr>rp_Lost := rp_Lost report1 + 1\<rparr>)
                      else Some (report1, Some err)
                  | Inr sample \<Rightarrow> run_rounds c cx rds ks (report1\<lparr>rp_Samples := rp_Samples report1 @ [sample]\<rparr>)))"

definition Freshness_Run :: "ProbeConfig \<Rightarrow> (nat \<Rightarrow> ctx) \<Rightarrow> (nat \<Rightarrow> readings) \<Rightarrow> (Report \<times> error option) option" where
  "Freshness_Run c cx rds = run_rounds c cx rds [0..<nat (pb_Rounds c)] \<lparr>rp_Samples = [], rp_Sent = 0, rp_Lost = 0\<rparr>"

section \<open>Lemmas\<close>

text \<open>The clock never goes back and \<^verbatim>\<open>Sleep\<close> sleeps at least as long as it was told to.\<close>

definition sleeps :: "ProbeConfig \<Rightarrow> readings \<Rightarrow> bool" where
  "sleeps c rd \<longleftrightarrow> (\<forall>i. rd_clock rd i + pb_PollEvery c \<le> rd_clock rd (Suc i))"

text \<open>The turn saw the batch.\<close>

definition visible :: "ProbeConfig \<Rightarrow> readings \<Rightarrow> int \<Rightarrow> nat \<Rightarrow> bool" where
  "visible c rd seen0 i \<longleftrightarrow> (case rd_count rd i of Inl _ \<Rightarrow> False | Inr current \<Rightarrow> wrap64 (seen0 + pb_EventCount c) \<le> current)"

definition in_time :: "ProbeConfig \<Rightarrow> readings \<Rightarrow> nat \<Rightarrow> bool" where
  "in_time c rd i \<longleftrightarrow> rd_clock rd i < rd_after rd + pb_Timeout c"

lemma poll_visible_unfold:
  "poll_visible c rd seen0 i =
     (if \<not> in_time c rd i then Some (Inl ErrNeverVisible)
      else case rd_ctx rd i of Some err \<Rightarrow> Some (Inl err) | None \<Rightarrow> if visible c rd seen0 i then Some (Inr (rd_since rd i)) else poll_visible c rd seen0 (Suc i))"
  by (subst poll_visible.simps) (simp add: in_time_def visible_def)

lemma poll_visible_returns:
  assumes "0 < pb_PollEvery c" and "sleeps c rd"
  shows "\<exists>j \<ge> i. (\<forall>k. i \<le> k \<longrightarrow> k < j \<longrightarrow> in_time c rd k \<and> rd_ctx rd k = None \<and> \<not> visible c rd seen0 k) \<and>
    ((\<not> in_time c rd j \<and> poll_visible c rd seen0 i = Some (Inl ErrNeverVisible)) \<or>
     (in_time c rd j \<and> (case rd_ctx rd j of Some err \<Rightarrow> poll_visible c rd seen0 i = Some (Inl err) | None \<Rightarrow> visible c rd seen0 j \<and> poll_visible c rd seen0 i = Some (Inr (rd_since rd j)))))"
proof (induction "nat (rd_after rd + pb_Timeout c - rd_clock rd i)" arbitrary: i rule: less_induct)
  case less
  show ?case
  proof (cases "in_time c rd i \<and> rd_ctx rd i = None \<and> \<not> visible c rd seen0 i")
    case False
    then show ?thesis by (intro exI[of _ i]) (auto simp: poll_visible_unfold[of c rd seen0 i] split: option.splits)
  next
    case True
    have "rd_clock rd i + pb_PollEvery c \<le> rd_clock rd (Suc i)" using assms(2) by (simp add: sleeps_def)
    then have "nat (rd_after rd + pb_Timeout c - rd_clock rd (Suc i)) < nat (rd_after rd + pb_Timeout c - rd_clock rd i)" using True assms(1) by (simp add: in_time_def)
    from less[OF this] obtain j where j: "Suc i \<le> j" "\<forall>k. Suc i \<le> k \<longrightarrow> k < j \<longrightarrow> in_time c rd k \<and> rd_ctx rd k = None \<and> \<not> visible c rd seen0 k"
      "(\<not> in_time c rd j \<and> poll_visible c rd seen0 (Suc i) = Some (Inl ErrNeverVisible)) \<or>
       (in_time c rd j \<and> (case rd_ctx rd j of Some err \<Rightarrow> poll_visible c rd seen0 (Suc i) = Some (Inl err) | None \<Rightarrow> visible c rd seen0 j \<and> poll_visible c rd seen0 (Suc i) = Some (Inr (rd_since rd j))))"
      by blast
    have "poll_visible c rd seen0 i = poll_visible c rd seen0 (Suc i)" using True by (simp add: poll_visible_unfold[of c rd seen0 i])
    moreover have "\<forall>k. i \<le> k \<longrightarrow> k < j \<longrightarrow> in_time c rd k \<and> rd_ctx rd k = None \<and> \<not> visible c rd seen0 k" using j(2) True by (metis Suc_leI le_neq_implies_less)
    ultimately show ?thesis using j(1,3) by (intro exI[of _ j]) (simp split: option.splits)
  qed
qed

text \<open>What a round establishes: a sample is the time after which the batch was seen, for the first time and before the deadline.\<close>

definition sampled :: "ProbeConfig \<Rightarrow> readings \<Rightarrow> duration \<Rightarrow> bool" where
  "sampled c rd d \<longleftrightarrow> (\<exists>seen0 j. rd_before rd = Inr seen0 \<and> probe_post rd = None \<and> in_time c rd j \<and> visible c rd seen0 j \<and> (\<forall>k < j. \<not> visible c rd seen0 k) \<and> d = rd_since rd j)"

lemma measure_returns:
  assumes "0 < pb_PollEvery c" and "sleeps c rd"
  shows "\<exists>r. measure_freshness c rd = Some r \<and> (\<forall>d. r = Inr d \<longrightarrow> sampled c rd d)"
proof (cases "\<exists>seen0. rd_before rd = Inr seen0 \<and> probe_post rd = None")
  case False
  then show ?thesis by (auto simp: measure_freshness_def split: sum.splits option.splits)
next
  case True
  then obtain seen0 where b: "rd_before rd = Inr seen0" "probe_post rd = None" by blast
  from poll_visible_returns[OF assms, of 0 seen0] obtain r where "poll_visible c rd seen0 0 = Some r" "\<forall>d. r = Inr d \<longrightarrow> sampled c rd d"
    using b by (fastforce simp: sampled_def split: option.splits)
  with b show ?thesis by (simp add: measure_freshness_def)
qed

lemma NewFreshness_ok: "NewFreshness c0 = Inr c \<Longrightarrow> 0 < pb_PollEvery c \<and> 0 < pb_EventCount c \<and> 0 < pb_Timeout c \<and> 0 < pb_Rounds c"
  by (auto simp: NewFreshness_def ProbeConfig_validate_def Let_def millisecond_def second_def split: if_splits option.splits)

definition report_ok :: "ProbeConfig \<Rightarrow> (nat \<Rightarrow> readings) \<Rightarrow> nat \<Rightarrow> Report \<Rightarrow> bool" where
  "report_ok c rds n r \<longleftrightarrow> rp_Sent r = int n \<and> rp_Sent r = int (length (rp_Samples r)) + rp_Lost r \<and> 0 \<le> rp_Lost r \<and> (\<forall>d \<in> set (rp_Samples r). \<exists>k. sampled c (rds k) d)"

lemma run_rounds_ok:
  assumes "0 < pb_PollEvery c" and "\<forall>k. sleeps c (rds k)" and "report_ok c rds n report"
  shows "\<exists>r e. run_rounds c cx rds ks report = Some (r, e) \<and>
    ((report_ok c rds (n + length ks) r \<and> e = (if rp_Samples r = [] then Some ErrNoSamples else None)) \<or>
     (e \<noteq> None \<and> (\<exists>m r0. m \<le> n + length ks \<and> report_ok c rds m r0 \<and> (r = r0 \<or> (m < n + length ks \<and> r = r0\<lparr>rp_Sent := rp_Sent r0 + 1\<rparr>)))))"
  using assms(3)
proof (induction ks arbitrary: n report)
  case (Cons k ks)
  obtain m where m: "measure_freshness c (rds k) = Some m" "\<forall>d. m = Inr d \<longrightarrow> sampled c (rds k) d" using measure_returns[of c "rds k"] assms by blast
  let ?sent = "report\<lparr>rp_Sent := rp_Sent report + 1\<rparr>"
  consider (ctx) err where "cx k = Some err" | (lost) err where "cx k = None" "m = Inl err" "errors_Is err ErrNeverVisible"
    | (failed) err where "cx k = None" "m = Inl err" "\<not> errors_Is err ErrNeverVisible" | (sample) d where "cx k = None" "m = Inr d"
    by (metis option.exhaust sumE)
  then show ?case
  proof cases
    case ctx
    then have "run_rounds c cx rds (k # ks) report = Some (report, Some err)" by simp
    then show ?thesis using Cons.prems by (intro exI[of _ report] exI[of _ "Some err"]) (auto intro!: exI[of _ n] exI[of _ report])
  next
    case lost
    have "report_ok c rds (Suc n) (?sent\<lparr>rp_Lost := rp_Lost ?sent + 1\<rparr>)" using Cons.prems by (simp add: report_ok_def)
    from Cons.IH[OF this] lost m(1) show ?thesis by simp
  next
    case failed
    then have "run_rounds c cx rds (k # ks) report = Some (?sent, Some err)" using m(1) by simp
    then show ?thesis using Cons.prems by (intro exI[of _ ?sent] exI[of _ "Some err"]) (auto intro!: exI[of _ n] exI[of _ report])
  next
    case sample
    have "report_ok c rds (Suc n) (?sent\<lparr>rp_Samples := rp_Samples ?sent @ [d]\<rparr>)" using Cons.prems m(2) sample by (auto simp: report_ok_def)
    from Cons.IH[OF this] sample m(1) show ?thesis by simp
  qed
qed simp

text \<open>The payload of the probe is a batch that the ingest endpoint takes, with as many events as the counter is expected to grow by.\<close>

lemma probe_batch_accepted:
  assumes "pb_UserID c \<noteq> []" and "dev \<noteq> []" and "0 < pb_EventCount c" and "0 < UnixNano instant"
  shows "\<exists>b. toBatch s clock dev (probe_batch c instant) = Inr b \<and> acceptable dev b \<and> int (length (b_Events b)) = pb_EventCount c"
proof -
  define evs where "evs = map (\<lambda>(i, e). to_event s dev (clock (Suc i)) e) (enumerate 0 (eb_Events (probe_batch c instant)))"
  have "valid_event (to_event s dev t e) \<and> ev_DeviceID (to_event s dev t e) = dev" if "e \<in> set (eb_Events (probe_batch c instant))" for t e
    using that assms by (auto simp: probe_batch_def to_event_def valid_event_def EventKind_Valid_iff IsZero_def zero_time_def Unix_def)
  then have "\<forall>x \<in> set evs. valid_event x \<and> ev_DeviceID x = dev" by (auto simp: evs_def enumerate_eq_zip dest!: set_zip_rightD)
  moreover have "evs \<noteq> []" using assms(3) by (simp add: evs_def probe_batch_def flip: length_greater_0_conv)
  ultimately have "Batch_Validate \<lparr>b_DeviceID = dev, b_CreatedAt = clock 0, b_Events = evs\<rparr> = None" using assms(2) by (simp add: Batch_Validate_None)
  then have run: "toBatch s clock dev (probe_batch c instant) = Inr \<lparr>b_DeviceID = dev, b_CreatedAt = clock 0, b_Events = evs\<rparr>" by (simp add: toBatch_def Let_def evs_def)
  have "int (length (eb_Events (probe_batch c instant))) = pb_EventCount c" using assms(3) by (simp add: probe_batch_def)
  with toBatch_acceptable(1,3)[OF run assms(2)] run show ?thesis by metis
qed

text \<open>The quantile of a report is the sample at that rank: so many samples are at most it, and the rest at least it.\<close>

lemma report_Quantile_rank:
  assumes "rp_Samples r \<noteq> []" and "0 \<le> q" and "q \<le> 1"
  shows "\<exists>x \<in> set (rp_Samples r). report_Quantile r q = Some x \<and>
    \<lfloor>q * real (length (rp_Samples r) - 1)\<rfloor> < int (length (filter (\<lambda>y. y \<le> x) (rp_Samples r))) \<and>
    int (length (rp_Samples r)) - \<lfloor>q * real (length (rp_Samples r) - 1)\<rfloor> \<le> int (length (filter (\<lambda>y. x \<le> y) (rp_Samples r)))"
proof -
  let ?xs = "sort (rp_Samples r)" and ?n = "length (rp_Samples r)"
  define m where "m = \<lfloor>q * real (?n - 1)\<rfloor>"
  let ?k = "nat m"
  have "q * real (?n - 1) \<le> 1 * real (?n - 1)" using assms(2,3) by (intro mult_right_mono) simp_all
  moreover have n: "0 < ?n" using assms(1) by simp
  ultimately have "q * real (?n - 1) < real ?n" by linarith
  then have "m < int ?n" by (simp only: m_def floor_less_iff of_int_of_nat_eq)
  moreover have "0 \<le> m" using assms(2) by (simp add: m_def)
  ultimately have rank: "0 \<le> m" "?k < ?n" by simp_all
  have low: "y \<le> ?xs ! ?k" if "y \<in> set (take (Suc ?k) ?xs)" for y
    using that rank(2) by (auto simp: in_set_conv_nth intro!: sorted_nth_mono)
  have high: "?xs ! ?k \<le> y" if "y \<in> set (drop ?k ?xs)" for y
    using that rank(2) by (auto simp: in_set_conv_nth intro!: sorted_nth_mono)
  have count: "length (filter P (rp_Samples r)) = length (filter P ?xs)" for P
    by (metis mset_filter mset_sort size_mset)
  have "Suc ?k \<le> length (filter (\<lambda>y. y \<le> ?xs ! ?k) ?xs)"
  proof -
    have "filter (\<lambda>y. y \<le> ?xs ! ?k) (take (Suc ?k) ?xs) = take (Suc ?k) ?xs" using low by (simp add: filter_id_conv)
    moreover have "length (filter (\<lambda>y. y \<le> ?xs ! ?k) (take (Suc ?k) ?xs)) \<le> length (filter (\<lambda>y. y \<le> ?xs ! ?k) ?xs)"
      by (metis append_take_drop_id filter_append le_add1 length_append)
    ultimately show ?thesis using rank(2) by simp
  qed
  moreover have "?n - ?k \<le> length (filter (\<lambda>y. ?xs ! ?k \<le> y) ?xs)"
  proof -
    have "filter (\<lambda>y. ?xs ! ?k \<le> y) (drop ?k ?xs) = drop ?k ?xs" using high by (simp add: filter_id_conv)
    moreover have "length (filter (\<lambda>y. ?xs ! ?k \<le> y) (drop ?k ?xs)) \<le> length (filter (\<lambda>y. ?xs ! ?k \<le> y) ?xs)"
      by (metis append_take_drop_id filter_append le_add2 length_append)
    ultimately show ?thesis by simp
  qed
  moreover have "report_Quantile r q = Some (?xs ! ?k)" using rank assms(1) by (simp only: report_Quantile_def Let_def length_sort m_def[symmetric]) simp
  moreover have "?xs ! ?k \<in> set (rp_Samples r)" using rank(2) by (metis length_sort nth_mem set_sort)
  ultimately show ?thesis unfolding m_def[symmetric] using rank by (intro bexI[of _ "?xs ! ?k"]) (simp_all add: count, linarith)
qed

section \<open>Properties\<close>

text \<open>
  Property C30 (the probe ends and accounts for its rounds). If the clock moves on while the probe sleeps, a configured probe returns. What it sent is what it sampled plus what it lost, plus one when a round failed, and
  never more than the rounds asked for; without an error it made all of them and has a sample. Every sample is the time after which a round first saw its batch in the counter, before its deadline.
\<close>

theorem probe_returns:
  assumes "NewFreshness c0 = Inr c" and "\<forall>k. sleeps c (rds k)"
  shows "\<exists>r e. Freshness_Run c cx rds = Some (r, e) \<and> rp_Sent r \<le> pb_Rounds c \<and> 0 \<le> rp_Lost r \<and>
    (rp_Sent r = int (length (rp_Samples r)) + rp_Lost r \<or> (e \<noteq> None \<and> rp_Sent r = int (length (rp_Samples r)) + rp_Lost r + 1)) \<and>
    (e = None \<longrightarrow> rp_Sent r = pb_Rounds c \<and> rp_Samples r \<noteq> []) \<and> (\<forall>d \<in> set (rp_Samples r). \<exists>k. sampled c (rds k) d)"
proof -
  have c: "0 < pb_PollEvery c" "0 < pb_Rounds c" using NewFreshness_ok[OF assms(1)] by simp_all
  have "report_ok c rds 0 \<lparr>rp_Samples = [], rp_Sent = 0, rp_Lost = 0\<rparr>" by (simp add: report_ok_def)
  from run_rounds_ok[OF c(1) assms(2) this, of cx "[0..<nat (pb_Rounds c)]"] obtain r e where run: "Freshness_Run c cx rds = Some (r, e)"
    and cases: "(report_ok c rds (nat (pb_Rounds c)) r \<and> e = (if rp_Samples r = [] then Some ErrNoSamples else None)) \<or>
      (e \<noteq> None \<and> (\<exists>m r0. m \<le> nat (pb_Rounds c) \<and> report_ok c rds m r0 \<and> (r = r0 \<or> (m < nat (pb_Rounds c) \<and> r = r0\<lparr>rp_Sent := rp_Sent r0 + 1\<rparr>))))"
    by (auto simp: Freshness_Run_def)
  from cases have "rp_Sent r \<le> pb_Rounds c \<and> 0 \<le> rp_Lost r \<and>
    (rp_Sent r = int (length (rp_Samples r)) + rp_Lost r \<or> (e \<noteq> None \<and> rp_Sent r = int (length (rp_Samples r)) + rp_Lost r + 1)) \<and>
    (e = None \<longrightarrow> rp_Sent r = pb_Rounds c \<and> rp_Samples r \<noteq> []) \<and> (\<forall>d \<in> set (rp_Samples r). \<exists>k. sampled c (rds k) d)"
    using c(2) by (auto simp: report_ok_def)
  with run show ?thesis by blast
qed

definition ex_probe :: ProbeConfig where
  "ex_probe = \<lparr>pb_UserID = ''u'', pb_DeviceID = ''d'', pb_Rounds = 1, pb_EventCount = 2, pb_PollEvery = 10, pb_Timeout = 100, pb_Client = True, pb_Observer = True\<rparr>"

text \<open>The counter shows the two events at the third poll.\<close>

definition ex_readings :: readings where
  "ex_readings = \<lparr>rd_before = Inr 5, rd_sentAt = 1000, rd_response = Inr StatusAccepted, rd_after = 1001, rd_clock = \<lambda>i. 1002 + 10 * int i, rd_ctx = \<lambda>_. None,
     rd_count = \<lambda>i. Inr (if i < 2 then 5 else 7), rd_since = \<lambda>i. 3 + 10 * int i\<rparr>"

theorem probe_returns_witness:
  "\<exists>r. Freshness_Run ex_probe (\<lambda>_. None) (\<lambda>_. ex_readings) = Some (r, None) \<and> rp_Samples r = [23] \<and> rp_Sent r = 1"
proof -
  have c: "NewFreshness ex_probe = Inr ex_probe" by (simp add: NewFreshness_def ProbeConfig_validate_def ex_probe_def Let_def)
  have "\<forall>k. sleeps ex_probe ex_readings" by (simp add: sleeps_def ex_probe_def ex_readings_def)
  note ok = probe_returns[OF c this, of "\<lambda>_. None"]
  have "poll_visible ex_probe ex_readings 5 0 = Some (Inr 23)"
    by (subst poll_visible.simps, subst poll_visible.simps, subst poll_visible.simps) (simp add: ex_probe_def ex_readings_def wrap64_def)
  then have "Freshness_Run ex_probe (\<lambda>_. None) (\<lambda>_. ex_readings) = Some (\<lparr>rp_Samples = [23], rp_Sent = 1, rp_Lost = 0\<rparr>, None)"
    by (simp add: Freshness_Run_def ex_probe_def measure_freshness_def ex_readings_def probe_post_def)
  with ok show ?thesis by auto
qed

end
