(* ===== verification/KernelSource.thy ===== *)
theory KernelSource
  imports Sources
begin

text \<open>
  Opening and closing the kernel source (\<^verbatim>\<open>internal/ebpf/source.go\<close>): loading the program, writing its settings, attaching it and opening the ring buffer. The eBPF library is a parameter, a record of what its calls answer;
  the state keeps which of its handles are open. Reading the ring buffer is in \<open>Sources\<close>.
\<close>

definition ErrAlreadyStarted :: error where [go_error_defs]: "ErrAlreadyStarted = Err ''ebpf: source already started''"

record EbpfSettings =
  ebs_MinLatency :: duration
  ebs_MaxEventsPerCPUPerSecond :: "64 word"
  ebs_SampleModulus :: "32 word"
  ebs_TargetTGID :: "32 word"

record kernelConfig =
  kcf_MinLatencyNanos :: "64 word"
  kcf_MaxEventsPerCPUPerSecond :: "64 word"
  kcf_SampleModulus :: "32 word"
  kcf_TargetTGID :: "32 word"
  kcf_Enabled :: "8 word"

text \<open>\<open>el_flipped\<close> says in which order the map of the two programs is iterated.\<close>

record ebpf_lib =
  el_RemoveMemlock :: "error option"
  el_LoadSpec :: "error option"
  el_NewCollection :: "error option"
  el_hasSettings :: bool
  el_Put :: "kernelConfig \<Rightarrow> error option"
  el_flipped :: bool
  el_hasProgram :: "string \<Rightarrow> bool"
  el_Tracepoint :: "string \<Rightarrow> error option"
  el_NewReader :: "error option"

datatype handle = Collection | Link string | Reader

text \<open>The fields of the source and, in \<open>ks_open\<close>, the handles that are open in the kernel.\<close>

record KernelSource =
  ks_translator :: Translator
  ks_settings :: EbpfSettings
  ks_collection :: bool
  ks_links :: "string list"
  ks_reader :: bool
  ks_started :: bool
  ks_closed :: bool
  ks_open :: "handle set"

definition NewKernelSource :: "Translator \<Rightarrow> EbpfSettings \<Rightarrow> error + KernelSource" where
  "NewKernelSource t settings =
     (case NewSource t of
        Inl err \<Rightarrow> Inl err
      | Inr t1 \<Rightarrow> Inr \<lparr>ks_translator = t1, ks_settings = settings, ks_collection = False, ks_links = [], ks_reader = False, ks_started = False, ks_closed = False, ks_open = {}\<rparr>)"

definition Ebpf_Close :: "KernelSource \<Rightarrow> KernelSource" where
  "Ebpf_Close s =
     (if ks_closed s then s
      else s\<lparr>ks_closed := True, ks_open := ks_open s - ((if ks_reader s then {Reader} else {}) \<union> Link ` set (ks_links s) \<union> (if ks_collection s then {Collection} else {}))\<rparr>)"

definition kernel_config :: "EbpfSettings \<Rightarrow> kernelConfig" where
  "kernel_config st = \<lparr>kcf_MinLatencyNanos = word_of_int (ebs_MinLatency st), kcf_MaxEventsPerCPUPerSecond = ebs_MaxEventsPerCPUPerSecond st, kcf_SampleModulus = ebs_SampleModulus st,
     kcf_TargetTGID = ebs_TargetTGID st, kcf_Enabled = 1\<rparr>"

definition applySettings :: "ebpf_lib \<Rightarrow> KernelSource \<Rightarrow> error option" where
  "applySettings lib s =
     (if \<not> el_hasSettings lib then Some (Err ''ebpf: settings map is missing from the object'')
      else case el_Put lib (kernel_config (ks_settings s)) of Some err \<Rightarrow> Some (Wrap ''ebpf: writing settings'' err) | None \<Rightarrow> None)"

fun attach_loop :: "ebpf_lib \<Rightarrow> (string \<times> string) list \<Rightarrow> KernelSource \<Rightarrow> error option \<times> KernelSource" where
  "attach_loop lib [] s = (None, s)"
| "attach_loop lib ((name, tracepoint) # ps) s =
     (if \<not> el_hasProgram lib name then (Some (Err (''ebpf: program '' @ name @ '' is missing from the object'')), s)
      else case el_Tracepoint lib tracepoint of
        Some err \<Rightarrow> (Some (Wrap (''ebpf: attaching '' @ tracepoint) err), s)
      | None \<Rightarrow> attach_loop lib ps (s\<lparr>ks_links := ks_links s @ [tracepoint], ks_open := insert (Link tracepoint) (ks_open s)\<rparr>))"

definition ebpf_programs :: "(string \<times> string) list" where
  "ebpf_programs = [(''ironclaw_sys_enter'', ''sys_enter''), (''ironclaw_sys_exit'', ''sys_exit'')]"

definition attach_programs :: "ebpf_lib \<Rightarrow> KernelSource \<Rightarrow> error option \<times> KernelSource" where
  "attach_programs lib s = attach_loop lib (if el_flipped lib then rev ebpf_programs else ebpf_programs) s"

definition Ebpf_Events :: "ebpf_lib \<Rightarrow> KernelSource \<Rightarrow> error option \<times> KernelSource" where
  "Ebpf_Events lib s =
     (if ks_started s then (Some ErrAlreadyStarted, s)
      else let s1 = s\<lparr>ks_started := True\<rparr>
           in case el_RemoveMemlock lib of
                Some err \<Rightarrow> (Some (Wrap ''ebpf: raising memlock limit'' err), s1)
              | None \<Rightarrow>
           (case el_LoadSpec lib of
                Some err \<Rightarrow> (Some (Wrap ''ebpf: loading collection spec'' err), s1)
              | None \<Rightarrow>
           (case el_NewCollection lib of
                Some err \<Rightarrow> (Some (Wrap ''ebpf: creating collection'' err), s1)
              | None \<Rightarrow>
                  let s2 = s1\<lparr>ks_collection := True, ks_open := insert Collection (ks_open s1)\<rparr>
                  in case applySettings lib s2 of
                       Some err \<Rightarrow> (Some err, Ebpf_Close s2)
                     | None \<Rightarrow>
                         (case attach_programs lib s2 of
                            (Some err, s3) \<Rightarrow> (Some err, Ebpf_Close s3)
                          | (None, s3) \<Rightarrow>
                              (case el_NewReader lib of
                                 Some err \<Rightarrow> (Some (Wrap ''ebpf: opening ring buffer'' err), Ebpf_Close s3)
                               | None \<Rightarrow> (None, s3\<lparr>ks_reader := True, ks_open := insert Reader (ks_open s3)\<rparr>))))))"

section \<open>Lemmas\<close>

text \<open>What is open is what the fields of the source know.\<close>

definition handles_ok :: "KernelSource \<Rightarrow> bool" where
  "handles_ok s \<longleftrightarrow> ks_open s = (if ks_reader s then {Reader} else {}) \<union> Link ` set (ks_links s) \<union> (if ks_collection s then {Collection} else {})"

lemma attach_loop_ok:
  assumes "attach_loop lib ps s = (e, s')" and "handles_ok s"
  shows "handles_ok s' \<and> ks_closed s' = ks_closed s \<and> ks_reader s' = ks_reader s \<and> ks_collection s' = ks_collection s \<and> (e = None \<longrightarrow> ks_links s' = ks_links s @ map snd ps)"
  using assms by (induction lib ps s rule: attach_loop.induct) (auto simp: handles_ok_def split: if_splits option.splits)

lemma Ebpf_Close_closes: "handles_ok s \<Longrightarrow> \<not> ks_closed s \<Longrightarrow> ks_open (Ebpf_Close s) = {}"
  by (simp add: Ebpf_Close_def handles_ok_def)

text \<open>Starting a new source either opens the program, its links and the ring buffer, which closing it releases, or fails and leaves nothing open.\<close>

lemma kernel_source_all_or_none:
  assumes "NewKernelSource t settings = Inr s" and "Ebpf_Events lib s = (e, s')"
  shows "if e = None then ks_open s' = {Collection, Reader} \<union> Link ` {''sys_enter'', ''sys_exit''} \<and> ks_open (Ebpf_Close s') = {} else ks_open s' = {}"
proof -
  have s: "\<not> ks_started s" "\<not> ks_closed s" "ks_open s = {}" "ks_links s = []" "\<not> ks_reader s" "\<not> ks_collection s"
    using assms(1) by (auto simp: NewKernelSource_def split: sum.splits)
  let ?s2 = "s\<lparr>ks_started := True, ks_collection := True, ks_open := {Collection}\<rparr>"
  have ok2: "handles_ok ?s2" using s by (simp add: handles_ok_def)
  obtain e3 s3 where att: "attach_programs lib ?s2 = (e3, s3)" by fastforce
  note a = attach_loop_ok[OF att[unfolded attach_programs_def] ok2]
  have fail2: "ks_open (Ebpf_Close ?s2) = {}" using Ebpf_Close_closes[OF ok2] s by simp
  have fail3: "ks_open (Ebpf_Close s3) = {}" using Ebpf_Close_closes[of s3] a s by simp
  show ?thesis
  proof (cases "el_RemoveMemlock lib = None \<and> el_LoadSpec lib = None \<and> el_NewCollection lib = None")
    case False
    then have "e \<noteq> None" "s' = s\<lparr>ks_started := True\<rparr>" using assms(2) s by (auto simp: Ebpf_Events_def Let_def split: option.splits)
    then show ?thesis using s by simp
  next
    case True
    then have "Ebpf_Events lib s = (case applySettings lib ?s2 of Some err \<Rightarrow> (Some err, Ebpf_Close ?s2)
        | None \<Rightarrow> (case e3 of Some err \<Rightarrow> (Some err, Ebpf_Close s3)
          | None \<Rightarrow> (case el_NewReader lib of Some err \<Rightarrow> (Some (Wrap ''ebpf: opening ring buffer'' err), Ebpf_Close s3)
            | None \<Rightarrow> (None, s3\<lparr>ks_reader := True, ks_open := insert Reader (ks_open s3)\<rparr>))))"
      using s att by (cases "applySettings lib ?s2"; cases e3; cases "el_NewReader lib") (simp_all add: Ebpf_Events_def Let_def)
    note run = this[symmetric, unfolded assms(2)]
    show ?thesis
    proof (cases "applySettings lib ?s2 = None \<and> e3 = None \<and> el_NewReader lib = None")
      case False
      then have "e \<noteq> None" "s' = Ebpf_Close ?s2 \<or> s' = Ebpf_Close s3" using run by (cases "applySettings lib ?s2"; cases e3; cases "el_NewReader lib"; simp; fastforce)+
      then show ?thesis using fail2 fail3 by auto
    next
      case True
      then have e: "e = None" "s' = s3\<lparr>ks_reader := True, ks_open := insert Reader (ks_open s3)\<rparr>" using run by simp_all
      have "handles_ok s'" "\<not> ks_closed s'" using a s e(2) by (auto simp: handles_ok_def)
      moreover have "ks_open s' = {Collection, Reader} \<union> Link ` {''sys_enter'', ''sys_exit''}" using a s e True by (auto simp: handles_ok_def ebpf_programs_def split: if_splits)
      ultimately show ?thesis using e(1) Ebpf_Close_closes by simp
    qed
  qed
qed

text \<open>A source that is closed before it is started never releases what starting it opens.\<close>

lemma close_before_start_leaks:
  assumes "NewKernelSource t settings = Inr s" and "Ebpf_Events lib (Ebpf_Close s) = (None, s')"
  shows "Ebpf_Close s' = s' \<and> Reader \<in> ks_open s'"
proof -
  have s: "\<not> ks_closed s" using assms(1) by (auto simp: NewKernelSource_def split: sum.splits)
  have keep: "attach_loop lib ps q = (e, q') \<Longrightarrow> ks_closed q' = ks_closed q" for ps q e q'
    by (induction lib ps q rule: attach_loop.induct) (auto split: if_splits option.splits)
  have "ks_closed s' \<and> Reader \<in> ks_open s'"
    using assms(2) s by (auto simp: Ebpf_Events_def Ebpf_Close_def attach_programs_def Let_def dest!: keep split: option.splits if_splits prod.splits)
  then show ?thesis by (simp add: Ebpf_Close_def)
qed

end
