(* ===== verification/AgentRun.thy ===== *)
theory AgentRun
  imports KernelSource Batcher Transport
begin

text \<open>
  The agent process (\<^verbatim>\<open>agent/main.go\<close>, \<^verbatim>\<open>capture.go\<close>, \<^verbatim>\<open>capture_ebpf.go\<close>): its options, the choice of the source of events, the spool, the transport and the batcher it is put together from. Parsing flags, tracing and the periodic log
  line are not modelled.
\<close>

section \<open>Capture (capture.go)\<close>

definition captureSynthetic :: string where "captureSynthetic = ''synthetic''"
definition captureEBPF :: string where "captureEBPF = ''ebpf''"

definition ErrUnknownCaptureSource :: error where [go_error_defs]: "ErrUnknownCaptureSource = Err ''agent: unknown capture source''"
definition ErrCaptureSettingRange :: error where [go_error_defs]: "ErrCaptureSettingRange = Err ''agent: capture setting does not fit the kernel field width''"
definition ErrProcUptime :: error where [go_error_defs]: "ErrProcUptime = Err ''agent: reading kernel uptime''"
definition ErrEBPFNotCompiled :: error where
  [go_error_defs]: "ErrEBPFNotCompiled = Err ''agent: this binary was built without the ebpf build tag; rebuild with: go build -tags ebpf ./agent''"

record captureSettings =
  cap_mode :: string
  cap_deviceID :: string
  cap_userID :: string
  cap_podID :: string
  cap_events :: int
  cap_interval :: duration
  cap_tailFraction :: real
  cap_minLatency :: duration
  cap_maxEventsPerCPU :: "64 word"
  cap_sampleModulus :: "32 word"
  cap_targetTGID :: "32 word"

definition narrowUint32 :: "string \<Rightarrow> 64 word \<Rightarrow> error + 32 word" where
  "narrowUint32 name v =
     (if (4294967295 :: 64 word) < v then Inl (Wrap (name @ '' '' @ AppendInt (uint v) @ '' exceeds 4294967295'') ErrCaptureSettingRange) else Inr (ucast v))"

definition newSyntheticSource :: "captureSettings \<Rightarrow> 'r \<Rightarrow> error + 'r SyntheticSource" where
  "newSyntheticSource settings seeded =
     NewSyntheticSource \<lparr>sy_DeviceID = cap_deviceID settings, sy_UserID = cap_userID settings, sy_PodID = cap_podID settings, sy_ProcessIDs = [101, 102, 103, 104],
       sy_EventCount = cap_events settings, sy_Interval = cap_interval settings, sy_ErrorRate = 1 / 20, sy_BaseLatency = millisecond, sy_TailLatency = 40 * millisecond,
       sy_TailFraction = cap_tailFraction settings\<rparr> seeded"

text \<open>
  The uptime of the kernel: \<open>uptime\<close> is what reading the file gives, already split into fields, and \<open>parse\<close> reads a decimal number. The product with a second is cut to an unsigned integer.
\<close>

definition kernelBootTime :: "error + string list \<Rightarrow> (string \<Rightarrow> error + real) \<Rightarrow> time \<Rightarrow> error + time" where
  "kernelBootTime uptime parse now =
     (case uptime of
        Inl err \<Rightarrow> Inl (Join ErrProcUptime err)
      | Inr [] \<Rightarrow> Inl (Wrap ''file is empty'' ErrProcUptime)
      | Inr (field # rest) \<Rightarrow>
          (case parse field of
             Inl err \<Rightarrow> Inl (Join ErrProcUptime err)
           | Inr seconds \<Rightarrow> Inr (BootTime now (word_of_int \<lfloor>seconds * real_of_int second\<rfloor>))))"

record capture_env =
  cpe_ebpf :: bool
  cpe_uptime :: "error + string list"
  cpe_parse :: "string \<Rightarrow> error + real"
  cpe_now :: time

definition newEBPFSource :: "capture_env \<Rightarrow> captureSettings \<Rightarrow> error + KernelSource" where
  "newEBPFSource env settings =
     (if \<not> cpe_ebpf env then Inl ErrEBPFNotCompiled
      else case kernelBootTime (cpe_uptime env) (cpe_parse env) (cpe_now env) of
        Inl err \<Rightarrow> Inl err
      | Inr boot \<Rightarrow>
          NewKernelSource \<lparr>tr_DeviceID = cap_deviceID settings, tr_UserID = cap_userID settings, tr_PodID = cap_podID settings, tr_BootTime = boot\<rparr>
            \<lparr>ebs_MinLatency = cap_minLatency settings, ebs_MaxEventsPerCPUPerSecond = cap_maxEventsPerCPU settings, ebs_SampleModulus = cap_sampleModulus settings,
             ebs_TargetTGID = cap_targetTGID settings\<rparr>)"

datatype 'r capture_source = SyntheticCapture "'r SyntheticSource" | KernelCapture KernelSource

definition newCaptureSource :: "capture_env \<Rightarrow> captureSettings \<Rightarrow> 'r \<Rightarrow> error + 'r capture_source" where
  "newCaptureSource env settings seeded =
     (if cap_mode settings = captureSynthetic then (case newSyntheticSource settings seeded of Inl err \<Rightarrow> Inl err | Inr s \<Rightarrow> Inr (SyntheticCapture s))
      else if cap_mode settings = captureEBPF then (case newEBPFSource env settings of Inl err \<Rightarrow> Inl err | Inr s \<Rightarrow> Inr (KernelCapture s))
      else Inl (Wrap (cap_mode settings) ErrUnknownCaptureSource))"

section \<open>The process (main.go)\<close>

definition ErrDeviceFlag :: error where [go_error_defs]: "ErrDeviceFlag = Err ''agent: -device is required''"
definition ErrUserFlag :: error where [go_error_defs]: "ErrUserFlag = Err ''agent: -user is required''"

record AgentOptions =
  ao_endpoint :: string
  ao_serverName :: string
  ao_certFile :: string
  ao_keyFile :: string
  ao_caFile :: string
  ao_deviceID :: string
  ao_userID :: string
  ao_podID :: string
  ao_spoolDir :: string
  ao_spoolBytes :: int
  ao_capture :: string
  ao_events :: int
  ao_interval :: duration
  ao_batchSize :: int
  ao_batchWindow :: duration
  ao_baseBackoff :: duration
  ao_maxBackoff :: duration
  ao_queueDepth :: int
  ao_tailFraction :: real
  ao_minLatency :: duration
  ao_maxEventsPerCPU :: "64 word"
  ao_sampleModulus :: "64 word"
  ao_targetTGID :: "64 word"

definition openSpool :: "AgentOptions \<Rightarrow> fsys \<Rightarrow> (error + Spool option) \<times> fsys" where
  "openSpool opts f =
     (if ao_spoolDir opts = [] then (Inr None, f)
      else case Spool_Open (ao_spoolDir opts) (ao_spoolBytes opts) f of (Inl err, f1) \<Rightarrow> (Inl err, f1) | (Inr s, f1) \<Rightarrow> (Inr (Some s), f1))"

definition newShipper :: "(HTTPSConfig \<Rightarrow> error + 'tls) \<Rightarrow> (EdgeBatch \<Rightarrow> error + string) \<Rightarrow> AgentOptions \<Rightarrow> error + HTTPS" where
  "newShipper build_tls marshal opts =
     NewHTTPS build_tls \<lparr>hx_Endpoint = ao_endpoint opts, hx_CertFile = ao_certFile opts, hx_KeyFile = ao_keyFile opts, hx_CAFile = ao_caFile opts, hx_ServerName = ao_serverName opts,
       hx_Encode = Some (EncodeEdgeBatch marshal), hx_Client = False, hx_BaseBackoff = ao_baseBackoff opts, hx_MaxBackoff = ao_maxBackoff opts, hx_DrainEvery = 0\<rparr>"

definition agent_newBatcher :: "AgentOptions \<Rightarrow> error + Batcher" where
  "agent_newBatcher opts =
     NewBatcher \<lparr>bt_DeviceID = ao_deviceID opts, bt_MaxEvents = ao_batchSize opts, bt_MaxInterval = ao_batchWindow opts, bt_QueueDepth = ao_queueDepth opts, bt_Policy = OverflowDropOldest,
       bt_ShutdownGrace = 0, bt_FlushSignal = False\<rparr>"

definition capture_settings :: "AgentOptions \<Rightarrow> error + captureSettings" where
  "capture_settings opts =
     (case narrowUint32 ''sample modulus'' (ao_sampleModulus opts) of
        Inl err \<Rightarrow> Inl err
      | Inr modulus \<Rightarrow>
          (case narrowUint32 ''target tgid'' (ao_targetTGID opts) of
             Inl err \<Rightarrow> Inl err
           | Inr tgid \<Rightarrow>
               Inr \<lparr>cap_mode = ao_capture opts, cap_deviceID = ao_deviceID opts, cap_userID = ao_userID opts, cap_podID = ao_podID opts, cap_events = ao_events opts,
                    cap_interval = ao_interval opts, cap_tailFraction = ao_tailFraction opts, cap_minLatency = ao_minLatency opts, cap_maxEventsPerCPU = ao_maxEventsPerCPU opts,
                    cap_sampleModulus = modulus, cap_targetTGID = tgid\<rparr>))"

record 'r Agent =
  ag_spool :: "Spool option"
  ag_shipper :: HTTPS
  ag_source :: "'r capture_source"
  ag_batcher :: Batcher

text \<open>The steps of \<^verbatim>\<open>run\<close> before the batcher runs. The spool drains in the background exactly when there is one.\<close>

definition agent_start :: "capture_env \<Rightarrow> (HTTPSConfig \<Rightarrow> error + 'tls) \<Rightarrow> (EdgeBatch \<Rightarrow> error + string) \<Rightarrow> 'r \<Rightarrow> AgentOptions \<Rightarrow> fsys \<Rightarrow> (error + 'r Agent) \<times> fsys" where
  "agent_start env build_tls marshal seeded opts f =
     (if ao_deviceID opts = [] then (Inl ErrDeviceFlag, f)
      else if ao_userID opts = [] then (Inl ErrUserFlag, f)
      else case openSpool opts f of
        (Inl err, f1) \<Rightarrow> (Inl err, f1)
      | (Inr spl, f1) \<Rightarrow>
          (case newShipper build_tls marshal opts of
             Inl err \<Rightarrow> (Inl err, f1)
           | Inr shipper \<Rightarrow>
               (case capture_settings opts of
                  Inl err \<Rightarrow> (Inl err, f1)
                | Inr settings \<Rightarrow>
                    (case newCaptureSource env settings seeded of
                       Inl err \<Rightarrow> (Inl err, f1)
                     | Inr source \<Rightarrow>
                         (case agent_newBatcher opts of
                            Inl err \<Rightarrow> (Inl err, f1)
                          | Inr batcher \<Rightarrow> (Inr \<lparr>ag_spool = spl, ag_shipper = shipper, ag_source = source, ag_batcher = batcher\<rparr>, f1))))))"

text \<open>The numbers of the periodic log line.\<close>

definition logStats :: "Batcher \<Rightarrow> (nat \<times> int) option \<Rightarrow> int \<times> int \<times> int \<times> int \<times> nat \<times> int" where
  "logStats b queued =
     (pc_eventsAccepted (ba_stats b), pc_batchesSent (ba_stats b), pc_eventsDropped (ba_stats b), pc_sendFailures (ba_stats b),
      (case queued of None \<Rightarrow> 0 | Some q \<Rightarrow> fst q), (case queued of None \<Rightarrow> 0 | Some q \<Rightarrow> snd q))"

section \<open>Lemmas\<close>

text \<open>Narrowing keeps the value or refuses it.\<close>

lemma narrowUint32_exact: "narrowUint32 name v = Inr w \<longleftrightarrow> uint v < 2 ^ 32 \<and> w = ucast v \<and> uint w = uint v"
proof -
  have "(4294967295 :: 64 word) < v \<longleftrightarrow> \<not> uint v < 2 ^ 32" by (auto simp: word_less_def)
  moreover have "uint v < 2 ^ 32 \<Longrightarrow> uint (ucast v :: 32 word) = uint v" by (simp add: unsigned_ucast_eq take_bit_int_eq_self)
  ultimately show ?thesis by (auto simp: narrowUint32_def)
qed

text \<open>The events a source may emit, whatever its goroutine observes.\<close>

definition emits :: "'r Rand \<Rightarrow> 'r capture_source \<Rightarrow> Event list \<Rightarrow> bool" where
  "emits rand src out \<longleftrightarrow>
     (case src of
        SyntheticCapture s \<Rightarrow> \<exists>ts returned s'. (\<forall>t \<in> set ts. \<not> IsZero (sy_now t)) \<and> Synthetic_Events rand ts s = Inr (returned, out, s')
      | KernelCapture s \<Rightarrow> \<exists>rs. out = pm_out (pump (ks_translator s) rs \<lparr>pm_out = [], pm_decodeFailures = 0, pm_returned = False\<rparr>))"

lemma pump_out: "set (pm_out (pump t rs p)) \<subseteq> set (pm_out p) \<union> {e. \<exists>raw. event_of t raw = Some e}"
proof (induction t rs p rule: pump.induct)
  case (3 t raw received rs p)
  show ?case
  proof (cases "Decode raw")
    case (Inr r)
    show ?thesis
    proof (cases "Translator_Event t r")
      case (Inr e)
      then have "event_of t raw = Some e" using \<open>Decode raw = Inr r\<close> by (simp add: event_of_def)
      then show ?thesis using 3(3)[OF \<open>Decode raw = Inr r\<close> Inr] \<open>Decode raw = Inr r\<close> Inr by auto
    qed (use 3(2) Inr in simp)
  qed (use 3(1) in simp)
qed simp_all

text \<open>
  Property C31 (the agent's batcher refuses nothing of its source). Whatever a source that the process chose emits, synthetic or from the kernel, passes the batcher's check: the agent is put together with one device name,
  every event is valid and names it. So the batcher of a started agent never counts an event as invalid.
\<close>

theorem agent_events_fit:
  assumes "agent_start env build_tls marshal seeded opts f = (Inr a, f')" and "rand_ok rand" and "emits rand (ag_source a) out"
  shows "\<forall>e \<in> set out. takes_in (ba_config (ag_batcher a)) e \<and> ev_UserID e = ao_userID opts"
proof -
  obtain settings where a: "capture_settings opts = Inr settings" "newCaptureSource env settings seeded = Inr (ag_source a)" "agent_newBatcher opts = Inr (ag_batcher a)"
    using assms(1) by (auto simp: agent_start_def split: if_splits sum.splits prod.splits)
  have set: "cap_deviceID settings = ao_deviceID opts" "cap_userID settings = ao_userID opts" using a(1) by (auto simp: capture_settings_def split: sum.splits)
  have dev: "bt_DeviceID (ba_config (ag_batcher a)) = ao_deviceID opts" using a(3) by (auto simp: agent_newBatcher_def NewBatcher_def dest!: sym[of _ "ag_batcher a"] split: option.splits)
  show ?thesis
  proof (cases "ag_source a")
    case (SyntheticCapture s)
    then have new: "newSyntheticSource settings seeded = Inr s" using a(2) by (auto simp: newCaptureSource_def split: if_splits sum.splits)
    obtain ts returned s' where run: "\<forall>t \<in> set ts. \<not> IsZero (sy_now t)" "Synthetic_Events rand ts s = Inr (returned, out, s')" using assms(3) SyntheticCapture by (auto simp: emits_def)
    have "\<forall>i < length out. valid_event (out ! i) \<and> ev_DeviceID (out ! i) = ao_deviceID opts \<and> ev_UserID (out ! i) = ao_userID opts"
      using synthetic_events[OF new[unfolded newSyntheticSource_def] assms(2) _ _ run] set by (simp add: MaxInt64_def synthetic_event_def millisecond_def)
    then show ?thesis unfolding takes_in_def dev by (metis in_set_conv_nth)
  next
    case (KernelCapture s)
    then have new: "newEBPFSource env settings = Inr s" using a(2) by (auto simp: newCaptureSource_def split: if_splits sum.splits)
    then have tr: "tr_DeviceID (ks_translator s) = ao_deviceID opts" "tr_UserID (ks_translator s) = ao_userID opts"
      using set by (auto simp: newEBPFSource_def NewKernelSource_def NewSource_def split: if_splits sum.splits option.splits)
    obtain rs where "out = pm_out (pump (ks_translator s) rs \<lparr>pm_out = [], pm_decodeFailures = 0, pm_returned = False\<rparr>)" using assms(3) KernelCapture by (auto simp: emits_def)
    then have "\<forall>e \<in> set out. \<exists>raw. event_of (ks_translator s) raw = Some e" using pump_out[of "ks_translator s" rs "\<lparr>pm_out = [], pm_decodeFailures = 0, pm_returned = False\<rparr>"] by auto
    then show ?thesis unfolding takes_in_def dev using event_of_valid tr by metis
  qed
qed

definition ex_agent_options :: AgentOptions where
  "ex_agent_options = \<lparr>ao_endpoint = ''e'', ao_serverName = [], ao_certFile = [], ao_keyFile = [], ao_caFile = [], ao_deviceID = ''d'', ao_userID = ''u'', ao_podID = [],
     ao_spoolDir = [], ao_spoolBytes = 0, ao_capture = ''synthetic'', ao_events = 2, ao_interval = 0, ao_batchSize = 2, ao_batchWindow = second, ao_baseBackoff = 0, ao_maxBackoff = 0,
     ao_queueDepth = 2, ao_tailFraction = 0, ao_minLatency = 0, ao_maxEventsPerCPU = 0, ao_sampleModulus = 0, ao_targetTGID = 0\<rparr>"

definition ex_capture_env :: capture_env where
  "ex_capture_env = \<lparr>cpe_ebpf = False, cpe_uptime = Inr [], cpe_parse = (\<lambda>s. Inr 0), cpe_now = 9\<rparr>"

definition ex_agent_source :: "unit SyntheticSource" where
  "ex_agent_source = \<lparr>sn_config = \<lparr>sy_DeviceID = ''d'', sy_UserID = ''u'', sy_PodID = [], sy_ProcessIDs = [101, 102, 103, 104], sy_EventCount = 2, sy_Interval = 0, sy_ErrorRate = 1 / 20,
     sy_BaseLatency = millisecond, sy_TailLatency = 40 * millisecond, sy_TailFraction = 0\<rparr>, sn_random = (), sn_closed = False\<rparr>"

theorem agent_events_fit_witness:
  "\<exists>a out. agent_start ex_capture_env (\<lambda>c. Inr ()) (\<lambda>b. Inr []) () ex_agent_options ex_dir = (Inr a, ex_dir) \<and> emits ex_rand (ag_source a) out \<and>
     out \<noteq> [] \<and> takes_in (ba_config (ag_batcher a)) (out ! 0)"
proof -
  obtain a where a: "agent_start ex_capture_env (\<lambda>c. Inr ()) (\<lambda>b. Inr []) () ex_agent_options ex_dir = (Inr a, ex_dir)" "ag_source a = SyntheticCapture ex_agent_source"
    by (simp add: agent_start_def ex_agent_options_def openSpool_def newShipper_def NewHTTPS_def capture_settings_def narrowUint32_def newCaptureSource_def captureSynthetic_def
        newSyntheticSource_def NewSyntheticSource_def SyntheticConfig_validate_def agent_newBatcher_def NewBatcher_def BatcherConfig_validate_def second_def ex_agent_source_def)
  obtain returned out s' where run: "Synthetic_Events ex_rand [ex_synth_turn, ex_synth_turn] ex_agent_source = Inr (returned, out, s')"
    by (cases "synth_run ex_rand 0 [ex_synth_turn, ex_synth_turn] ex_agent_source []") (simp add: Synthetic_Events_def ex_agent_source_def)
  have new: "NewSyntheticSource (sn_config ex_agent_source) () = Inr ex_agent_source" by (simp add: NewSyntheticSource_def SyntheticConfig_validate_def ex_agent_source_def)
  have live: "\<forall>t \<in> set [ex_synth_turn, ex_synth_turn]. \<not> IsZero (sy_now t)" by (simp add: ex_synth_turn_def IsZero_def zero_time_def)
  have rand: "rand_ok ex_rand" by (simp add: rand_ok_def ex_rand_def)
  have "list_all (smooth (sn_config ex_agent_source)) [ex_synth_turn, ex_synth_turn]" by (simp add: smooth_def ex_synth_turn_def ex_agent_source_def)
  with synthetic_events[OF new rand _ _ live run] have out: "out \<noteq> []" by (auto simp: ex_agent_source_def MaxInt64_def millisecond_def)
  have em: "emits ex_rand (ag_source a) out" using run live a(2) by (auto simp: emits_def intro!: exI[of _ "[ex_synth_turn, ex_synth_turn]"])
  from agent_events_fit[OF a(1) rand em] out have "takes_in (ba_config (ag_batcher a)) (out ! 0)" by simp
  with a(1) em out show ?thesis by blast
qed

end
