(* ===== verification/Shutdown.thy ===== *)
theory Shutdown
  imports Pipeline BusShutdown
begin

text \<open>
  Running and stopping the runtime (\<^verbatim>\<open>internal/app/runtime.go\<close>: \<^verbatim>\<open>Start\<close>, \<^verbatim>\<open>emitLoop\<close>, \<^verbatim>\<open>Stop\<close>, \<^verbatim>\<open>shutdown\<close>) over the in-process bus. The goroutines are the threads of a step relation: agents that send batches, the
  consumers of the two buses, the emitter, and the goroutine that stops them in order. A thread step is a channel operation, a call under one lock, or one statement of \<^verbatim>\<open>shutdown\<close>. The run's context is cancelled only at the very end, so no
  thread sees it done. The archive and the command channel, which \<^verbatim>\<open>shutdown\<close> closes after the others in the same way, and reset commands are not part of this model.
\<close>

section \<open>The worlds of the handlers\<close>

text \<open>\<open>bw_events\<close>, \<open>bw_handled\<close> and \<open>ww_delivered\<close> are logs that the program does not keep.\<close>

record 'm batch_world =
  bw_service :: "(Sketch Aggregator, unit, 'm) AggService"
  bw_events :: "Event list"
  bw_handled :: "Batch list"

record 'n window_world =
  ww_store :: "Memory \<times> 'n"
  ww_delivered :: "AggregateWindow list"

definition batch_handler :: "'m MetricsRecorder \<Rightarrow> (Batch, 'm batch_world) handler" where
  "batch_handler met b w =
     (case Agg_HandleBatch (aggregator_source sketch_ops) met None b (bw_service w) of
        (None, s) \<Rightarrow> (None, w\<lparr>bw_service := s, bw_events := bw_events w @ absorbed sketch_ops (b_Events b) (as_source (bw_service w)), bw_handled := bw_handled w @ [b]\<rparr>)
      | (Some err, s) \<Rightarrow> (Some err, w\<lparr>bw_service := s\<rparr>))"

definition window_handler :: "'n MetricsRecorder \<Rightarrow> (AggregateWindow, 'n window_world) handler" where
  "window_handler met v w =
     (case HandleWindow ApplyWindow met None v (ww_store w) of
        (None, st) \<Rightarrow> (None, w\<lparr>ww_store := st, ww_delivered := ww_delivered w @ [v]\<rparr>)
      | (Some err, st) \<Rightarrow> (Some err, w\<lparr>ww_store := st\<rparr>))"

section \<open>Emission in steps\<close>

text \<open>
  \<^verbatim>\<open>EmitClosedWindows\<close> and \<^verbatim>\<open>EmitAll\<close> hold the aggregator's lock while they collect and while they commit, not while they publish: an emission is idle, offers its next window, is inside a send, or has to
  return from it.
\<close>

record publication =
  pn_windows :: "AggregateWindow list"
  pn_todo :: "AggregateWindow list"
  pn_published :: "AggregateWindow list"
  pn_failure :: "error option"

datatype emission = Resting | Offering publication | Sending AggregateWindow publication | Returning publication

definition collect_windows :: "bool \<Rightarrow> time \<Rightarrow> Sketch Aggregator \<Rightarrow> (error + AggregateWindow list) \<times> Sketch Aggregator" where
  "collect_windows everything now a = (if everything then CollectAll sketch_ops a else CollectWindowsBefore sketch_ops now a)"

definition begin_publication :: "error + AggregateWindow list \<Rightarrow> emission" where
  "begin_publication r = (case r of Inl err \<Rightarrow> Resting | Inr ws \<Rightarrow> Offering \<lparr>pn_windows = ws, pn_todo = ws, pn_published = [], pn_failure = None\<rparr>)"

definition window_accepted :: "AggregateWindow \<Rightarrow> publication \<Rightarrow> publication" where
  "window_accepted w pn = pn\<lparr>pn_published := pn_published pn @ [w]\<rparr>"

definition window_failed :: "error \<Rightarrow> publication \<Rightarrow> publication" where
  "window_failed err pn = pn\<lparr>pn_failure := (if pn_failure pn = None then Some err else pn_failure pn)\<rparr>"

definition finish_publication :: "'m MetricsRecorder \<Rightarrow> publication \<Rightarrow> (Sketch Aggregator, unit, 'm) AggService \<Rightarrow> (Sketch Aggregator, unit, 'm) AggService" where
  "finish_publication met pn s =
     (let s1 = s\<lparr>as_source := Commit (pn_published pn) (as_source s)\<rparr>;
          s2 = agg_record met MetricWindowsEmitted (int (length (pn_published pn))) s1
      in if pn_failure pn \<noteq> None then agg_record met MetricWindowsRetained (int (length (pn_windows pn)) - int (length (pn_published pn))) s2 else s2)"

section \<open>The runtime\<close>

text \<open>Where the stopping goroutine is; it first closes the sources, which the agents see on their own.\<close>

datatype shutdown_pc = Running | WaitAgents | ClosingBatches | WaitConsumers | WaitEmitter | FinalEmit | ClosingWindows | WaitPersisted | Stopped

fun rank :: "shutdown_pc \<Rightarrow> nat" where
  "rank Running = 0"
| "rank WaitAgents = 1"
| "rank ClosingBatches = 2"
| "rank WaitConsumers = 3"
| "rank WaitEmitter = 4"
| "rank FinalEmit = 5"
| "rank ClosingWindows = 6"
| "rank WaitPersisted = 7"
| "rank Stopped = 8"

text \<open>\<open>rt_agents\<close> counts the agents that have not returned, each of which sends at most one batch at a time. \<open>rt_refused\<close> logs the sends that a closed bus refused.\<close>

record ('m, 'n) runtime =
  rt_pc :: shutdown_pc
  rt_batches :: "(Batch, 'm batch_world) bus_conf"
  rt_windows :: "(AggregateWindow, 'n window_world) bus_conf"
  rt_agents :: nat
  rt_emitter :: bool
  rt_emitStop :: bool
  rt_emission :: emission
  rt_refused :: nat

abbreviation rt_source :: "('m, 'n) runtime \<Rightarrow> Sketch Aggregator" where
  "rt_source r \<equiv> as_source (bw_service (bc_world (rt_batches r)))"

definition set_service :: "(Sketch Aggregator, unit, 'm) AggService \<Rightarrow> ('m, 'n) runtime \<Rightarrow> ('m, 'n) runtime" where
  "set_service s r = r\<lparr>rt_batches := (rt_batches r)\<lparr>bc_world := (bc_world (rt_batches r))\<lparr>bw_service := s\<rparr>\<rparr>\<rparr>"

definition set_source :: "Sketch Aggregator \<Rightarrow> ('m, 'n) runtime \<Rightarrow> ('m, 'n) runtime" where
  "set_source a r = set_service ((bw_service (bc_world (rt_batches r)))\<lparr>as_source := a\<rparr>) r"

text \<open>A bus whose consumer group was started with a context that is never cancelled.\<close>

definition group_started :: "'a Bus \<Rightarrow> 's \<Rightarrow> ('a, 's) bus_conf" where
  "group_started b w = (bus_initial b w)\<lparr>bc_consumers := map (\<lambda>p. (p, Consuming)) [0..<length (bus_partitions b)]\<rparr>"

inductive consume_step :: "('a, 's) handler \<Rightarrow> ('a, 's) bus_conf \<Rightarrow> ('a, 's) bus_conf \<Rightarrow> bool" for handler where
  consume_take: "i < length (bc_consumers c) \<Longrightarrow> bc_consumers c ! i = (p, if draining then Draining else Consuming) \<Longrightarrow> pop p (bc_bus c) = Some (v, b) \<Longrightarrow>
    consume_step handler c (c\<lparr>bc_bus := b, bc_consumers := (bc_consumers c)[i := (p, Holding v draining)], bc_taken := (bc_taken c)(p := bc_taken c p @ [v])\<rparr>)"
| consume_deliver: "i < length (bc_consumers c) \<Longrightarrow> bc_consumers c ! i = (p, Holding v draining) \<Longrightarrow> deliver (\<lambda>_. None) handler v (bc_bus c, bc_world c) = (b, w) \<Longrightarrow>
    consume_step handler c (c\<lparr>bc_bus := b, bc_world := w, bc_consumers := (bc_consumers c)[i := (p, if draining then Draining else Consuming)]\<rparr>)"
| consume_shutdown: "i < length (bc_consumers c) \<Longrightarrow> bc_consumers c ! i = (p, Consuming) \<Longrightarrow> bus_shutdown (bc_bus c) \<Longrightarrow>
    consume_step handler c (c\<lparr>bc_consumers := (bc_consumers c)[i := (p, Draining)]\<rparr>)"
| consume_drained: "i < length (bc_consumers c) \<Longrightarrow> bc_consumers c ! i = (p, Draining) \<Longrightarrow> pop p (bc_bus c) = None \<Longrightarrow>
    consume_step handler c (c\<lparr>bc_consumers := (bc_consumers c)[i := (p, Returned None)]\<rparr>)"

definition group_returned :: "('a, 's) bus_conf \<Rightarrow> bool" where
  "group_returned c = list_all (\<lambda>ps. case snd ps of Returned e \<Rightarrow> True | _ \<Rightarrow> False) (bc_consumers c)"

definition rt_start :: "Sketch Aggregator \<Rightarrow> Batch Bus \<Rightarrow> AggregateWindow Bus \<Rightarrow> nat \<Rightarrow> 'm \<Rightarrow> 'n \<Rightarrow> ('m, 'n) runtime" where
  "rt_start a bb wb agents m n =
     \<lparr>rt_pc = Running, rt_batches = group_started bb \<lparr>bw_service = NewAggService a () m, bw_events = [], bw_handled = []\<rparr>,
      rt_windows = group_started wb \<lparr>ww_store = (NewMemory, n), ww_delivered = []\<rparr>, rt_agents = agents, rt_emitter = True, rt_emitStop = False, rt_emission = Resting, rt_refused = 0\<rparr>"

text \<open>The parameters are the recorders and whether the emitter emits open windows. As before, the sequence numbers of an emission fit 64 bits.\<close>

inductive rt_step :: "'m MetricsRecorder \<Rightarrow> 'n MetricsRecorder \<Rightarrow> bool \<Rightarrow> ('m, 'n) runtime \<Rightarrow> ('m, 'n) runtime \<Rightarrow> bool" for met1 met2 everything where
  agent_enters: "length (bc_senders (rt_batches r)) < rt_agents r \<Longrightarrow> enterSend (bc_bus (rt_batches r)) = (True, b) \<Longrightarrow>
    rt_step met1 met2 everything r (r\<lparr>rt_batches := (rt_batches r)\<lparr>bc_bus := b, bc_senders := bc_senders (rt_batches r) @ [Selecting key v]\<rparr>\<rparr>)"
| agent_refused: "length (bc_senders (rt_batches r)) < rt_agents r \<Longrightarrow> enterSend (bc_bus (rt_batches r)) = (False, b) \<Longrightarrow>
    rt_step met1 met2 everything r (r\<lparr>rt_refused := Suc (rt_refused r)\<rparr>)"
| agent_sends: "i < length (bc_senders (rt_batches r)) \<Longrightarrow> bc_senders (rt_batches r) ! i = Selecting key v \<Longrightarrow>
    send_select ToPartition None key v (bc_bus (rt_batches r)) = Some (None, b) \<Longrightarrow> p = PartitionFor (bc_bus (rt_batches r)) key \<Longrightarrow>
    rt_step met1 met2 everything r (r\<lparr>rt_batches := (rt_batches r)\<lparr>bc_bus := b, bc_senders := (bc_senders (rt_batches r))[i := Leaving],
      bc_sent := (bc_sent (rt_batches r))(p := bc_sent (rt_batches r) p @ [v])\<rparr>\<rparr>)"
| agent_fails: "i < length (bc_senders (rt_batches r)) \<Longrightarrow> bc_senders (rt_batches r) ! i = Selecting key v \<Longrightarrow>
    send_select br None key v (bc_bus (rt_batches r)) = Some (Some err, b) \<Longrightarrow>
    rt_step met1 met2 everything r (r\<lparr>rt_batches := (rt_batches r)\<lparr>bc_bus := b, bc_senders := (bc_senders (rt_batches r))[i := Leaving]\<rparr>, rt_refused := Suc (rt_refused r)\<rparr>)"
| agent_leaves: "i < length (bc_senders (rt_batches r)) \<Longrightarrow> bc_senders (rt_batches r) ! i = Leaving \<Longrightarrow>
    rt_step met1 met2 everything r (r\<lparr>rt_batches := (rt_batches r)\<lparr>bc_bus := leaveSend (bc_bus (rt_batches r)),
      bc_senders := take i (bc_senders (rt_batches r)) @ drop (Suc i) (bc_senders (rt_batches r))\<rparr>\<rparr>)"
| agent_returns: "length (bc_senders (rt_batches r)) < rt_agents r \<Longrightarrow> rt_step met1 met2 everything r (r\<lparr>rt_agents := rt_agents r - 1\<rparr>)"
| consume: "consume_step (batch_handler met1) (rt_batches r) c \<Longrightarrow> rt_step met1 met2 everything r (r\<lparr>rt_batches := c\<rparr>)"
| tick: "rt_emitter r \<Longrightarrow> rt_emission r = Resting \<Longrightarrow> sequence_room (rt_source r) \<Longrightarrow> collect_windows everything now (rt_source r) = (ws, a) \<Longrightarrow>
    rt_step met1 met2 everything r ((set_source a r)\<lparr>rt_emission := begin_publication ws\<rparr>)"
| window_enters: "rt_emission r = Offering pn \<Longrightarrow> pn_todo pn = w # ws \<Longrightarrow> enterSend (bc_bus (rt_windows r)) = (True, b) \<Longrightarrow>
    rt_step met1 met2 everything r (r\<lparr>rt_emission := Sending w (pn\<lparr>pn_todo := ws\<rparr>),
      rt_windows := (rt_windows r)\<lparr>bc_bus := b, bc_senders := bc_senders (rt_windows r) @ [Selecting (CorrelationKey_ShardTag (w_Key w)) w]\<rparr>\<rparr>)"
| window_refused: "rt_emission r = Offering pn \<Longrightarrow> pn_todo pn = w # ws \<Longrightarrow> enterSend (bc_bus (rt_windows r)) = (False, b) \<Longrightarrow>
    rt_step met1 met2 everything r (r\<lparr>rt_emission := Offering (window_failed ErrClosed (pn\<lparr>pn_todo := ws\<rparr>)), rt_refused := Suc (rt_refused r)\<rparr>)"
| window_sent: "rt_emission r = Sending w pn \<Longrightarrow> i < length (bc_senders (rt_windows r)) \<Longrightarrow> bc_senders (rt_windows r) ! i = Selecting key v \<Longrightarrow>
    send_select ToPartition None key v (bc_bus (rt_windows r)) = Some (None, b) \<Longrightarrow> p = PartitionFor (bc_bus (rt_windows r)) key \<Longrightarrow>
    rt_step met1 met2 everything r (r\<lparr>rt_emission := Returning (window_accepted w pn), rt_windows := (rt_windows r)\<lparr>bc_bus := b, bc_senders := (bc_senders (rt_windows r))[i := Leaving],
      bc_sent := (bc_sent (rt_windows r))(p := bc_sent (rt_windows r) p @ [v])\<rparr>\<rparr>)"
| window_fails: "rt_emission r = Sending w pn \<Longrightarrow> i < length (bc_senders (rt_windows r)) \<Longrightarrow> bc_senders (rt_windows r) ! i = Selecting key v \<Longrightarrow>
    send_select br None key v (bc_bus (rt_windows r)) = Some (Some err, b) \<Longrightarrow>
    rt_step met1 met2 everything r (r\<lparr>rt_emission := Returning (window_failed err pn), rt_refused := Suc (rt_refused r),
      rt_windows := (rt_windows r)\<lparr>bc_bus := b, bc_senders := (bc_senders (rt_windows r))[i := Leaving]\<rparr>\<rparr>)"
| window_leaves: "rt_emission r = Returning pn \<Longrightarrow> i < length (bc_senders (rt_windows r)) \<Longrightarrow> bc_senders (rt_windows r) ! i = Leaving \<Longrightarrow>
    rt_step met1 met2 everything r (r\<lparr>rt_emission := Offering pn, rt_windows := (rt_windows r)\<lparr>bc_bus := leaveSend (bc_bus (rt_windows r)),
      bc_senders := take i (bc_senders (rt_windows r)) @ drop (Suc i) (bc_senders (rt_windows r))\<rparr>\<rparr>)"
| publication_ends: "rt_emission r = Offering pn \<Longrightarrow> pn_todo pn = [] \<Longrightarrow>
    rt_step met1 met2 everything r ((set_service (finish_publication met1 pn (bw_service (bc_world (rt_batches r)))) r)\<lparr>rt_emission := Resting\<rparr>)"
| persist: "consume_step (window_handler met2) (rt_windows r) c \<Longrightarrow> rt_step met1 met2 everything r (r\<lparr>rt_windows := c\<rparr>)"
| emitter_returns: "rt_emitter r \<Longrightarrow> rt_emitStop r \<Longrightarrow> rt_emission r = Resting \<Longrightarrow> rt_step met1 met2 everything r (r\<lparr>rt_emitter := False\<rparr>)"
| stop_begins: "rt_pc r = Running \<Longrightarrow> rt_step met1 met2 everything r (r\<lparr>rt_pc := WaitAgents\<rparr>)"
| agents_waited: "rt_pc r = WaitAgents \<Longrightarrow> rt_agents r = 0 \<Longrightarrow>
    rt_step met1 met2 everything r (r\<lparr>rt_pc := ClosingBatches, rt_batches := (rt_batches r)\<lparr>bc_bus := Close_begin (bc_bus (rt_batches r)), bc_closer := WaitingIdle\<rparr>\<rparr>)"
| batches_closed: "rt_pc r = ClosingBatches \<Longrightarrow> \<not> 0 < bus_inflight (bc_bus (rt_batches r)) \<Longrightarrow>
    rt_step met1 met2 everything r (r\<lparr>rt_pc := WaitConsumers, rt_batches := (rt_batches r)\<lparr>bc_bus := Close_end (bc_bus (rt_batches r)), bc_closer := Shut\<rparr>\<rparr>)"
| consumers_waited: "rt_pc r = WaitConsumers \<Longrightarrow> group_returned (rt_batches r) \<Longrightarrow> rt_step met1 met2 everything r (r\<lparr>rt_pc := WaitEmitter, rt_emitStop := True\<rparr>)"
| emitter_waited: "rt_pc r = WaitEmitter \<Longrightarrow> \<not> rt_emitter r \<Longrightarrow> sequence_room (rt_source r) \<Longrightarrow> CollectAll sketch_ops (rt_source r) = (ws, a) \<Longrightarrow>
    rt_step met1 met2 everything r ((set_source a r)\<lparr>rt_pc := FinalEmit, rt_emission := begin_publication ws\<rparr>)"
| final_emitted: "rt_pc r = FinalEmit \<Longrightarrow> rt_emission r = Resting \<Longrightarrow>
    rt_step met1 met2 everything r (r\<lparr>rt_pc := ClosingWindows, rt_windows := (rt_windows r)\<lparr>bc_bus := Close_begin (bc_bus (rt_windows r)), bc_closer := WaitingIdle\<rparr>\<rparr>)"
| windows_closed: "rt_pc r = ClosingWindows \<Longrightarrow> \<not> 0 < bus_inflight (bc_bus (rt_windows r)) \<Longrightarrow>
    rt_step met1 met2 everything r (r\<lparr>rt_pc := WaitPersisted, rt_windows := (rt_windows r)\<lparr>bc_bus := Close_end (bc_bus (rt_windows r)), bc_closer := Shut\<rparr>\<rparr>)"
| persisted_waited: "rt_pc r = WaitPersisted \<Longrightarrow> group_returned (rt_windows r) \<Longrightarrow> rt_step met1 met2 everything r (r\<lparr>rt_pc := Stopped\<rparr>)"

text \<open>Without interruption, the steps of an emission are the publication of the aggregator service.\<close>

lemma publication_agrees:
  assumes "publish_loop pub ctx ws [] None () = (published, failure, p)"
  shows "agg_publish (aggregator_source sketch_ops) pub met ctx ws s =
    (failure, finish_publication met \<lparr>pn_windows = ws, pn_todo = [], pn_published = published, pn_failure = failure\<rparr> s)"
  using assms by (cases s) (simp add: agg_publish_def finish_publication_def aggregator_source_def Let_def)

section \<open>The threads\<close>

lemma consume_bus:
  assumes "consume_step handler c c'"
  shows "bus_step handler c c'"
  using assms
proof cases
  case (consume_take i p draining v b)
  from consumer_take[OF consume_take(2,3) refl consume_take(4)] show ?thesis unfolding consume_take(1) .
next
  case (consume_deliver i p v draining b w)
  from consumer_deliver[OF consume_deliver(2,3,4)] show ?thesis unfolding consume_deliver(1) .
next
  case (consume_shutdown i p)
  from consumer_shutdown[OF consume_shutdown(2,3,4)] show ?thesis unfolding consume_shutdown(1) .
next
  case (consume_drained i p)
  from consumer_drained[OF consume_drained(2,3,4)] show ?thesis unfolding consume_drained(1) .
qed

lemma group_returned_iff: "group_returned c \<longleftrightarrow> (\<forall>i < length (bc_consumers c). \<exists>e. snd (bc_consumers c ! i) = Returned e)"
proof -
  have "(case st of Returned e \<Rightarrow> True | _ \<Rightarrow> False) \<longleftrightarrow> (\<exists>e. st = Returned e)" for st :: "'a stage" by (cases st) auto
  then show ?thesis by (simp add: group_returned_def list_all_length)
qed

lemma consume_frame:
  assumes "consume_step handler c c'"
  shows "bc_senders c' = bc_senders c" "bc_closer c' = bc_closer c" "bc_sent c' = bc_sent c" "\<not> group_returned c"
  using assms by (cases; fastforce simp: group_returned_iff split: if_splits)+

definition senders_of :: "emission \<Rightarrow> AggregateWindow sender list" where
  "senders_of em = (case em of Sending w pn \<Rightarrow> [Selecting (CorrelationKey_ShardTag (w_Key w)) w] | Returning pn \<Rightarrow> [Leaving] | _ \<Rightarrow> [])"

text \<open>What the threads know of each other: the order of the stopping goroutine, and that nobody sends on a bus that is being closed.\<close>

definition control_ok :: "('m, 'n) runtime \<Rightarrow> bool" where
  "control_ok r \<longleftrightarrow> rt_refused r = 0 \<and>
     bc_closer (rt_batches r) = (if rank (rt_pc r) < 2 then Open else if rank (rt_pc r) = 2 then WaitingIdle else Shut) \<and>
     bc_closer (rt_windows r) = (if rank (rt_pc r) < 6 then Open else if rank (rt_pc r) = 6 then WaitingIdle else Shut) \<and>
     length (bc_senders (rt_batches r)) \<le> rt_agents r \<and> (2 \<le> rank (rt_pc r) \<longrightarrow> rt_agents r = 0) \<and>
     (4 \<le> rank (rt_pc r) \<longrightarrow> group_returned (rt_batches r)) \<and> (5 \<le> rank (rt_pc r) \<longrightarrow> \<not> rt_emitter r) \<and>
     (rt_emission r \<noteq> Resting \<longrightarrow> rt_emitter r \<or> rt_pc r = FinalEmit) \<and> bc_senders (rt_windows r) = senders_of (rt_emission r) \<and>
     (8 \<le> rank (rt_pc r) \<longrightarrow> group_returned (rt_windows r)) \<and> (rt_emitStop r \<longleftrightarrow> 4 \<le> rank (rt_pc r))"

definition buses_ok :: "('m, 'n) runtime \<Rightarrow> bool" where
  "buses_ok r \<longleftrightarrow> bus_inv (rt_batches r) \<and> closing_ok (bc_bus (rt_batches r)) \<and> bus_inv (rt_windows r) \<and> closing_ok (bc_bus (rt_windows r))"

lemma emitting_open:
  assumes "control_ok r" and "rt_emission r \<noteq> Resting"
  shows "bc_closer (rt_windows r) = Open"
proof -
  have "rank (rt_pc r) \<le> 5" using assms by (auto simp: control_ok_def intro: ccontr)
  then show ?thesis using assms(1) by (simp add: control_ok_def)
qed

lemma sending_open:
  assumes "control_ok r" and "0 < rt_agents r"
  shows "bc_closer (rt_batches r) = Open"
  using assms by (auto simp: control_ok_def)

lemma open_sends:
  assumes "bus_inv c" and "closing_ok (bc_bus c)" and "bc_closer c = Open"
  shows "fst (enterSend (bc_bus c))" "send_select br None key v (bc_bus c) \<noteq> Some (Some err, b)"
  using assms by (auto simp: bus_inv_def close_ok_def closing_ok_def enterSend_def send_select_def split: branch.splits)

lemma rt_step_control:
  assumes "rt_step met1 met2 everything r r'" and "control_ok r" and "buses_ok r"
  shows "control_ok r'"
  using assms(1)
proof cases
  case (agent_refused b)
  then show ?thesis using open_sends(1)[of "rt_batches r"] sending_open[OF assms(2)] assms(3) by (simp add: buses_ok_def)
next
  case (agent_fails i key v br err b)
  then have "0 < rt_agents r" using assms(2) by (auto simp: control_ok_def)
  then show ?thesis using open_sends(2)[of "rt_batches r"] sending_open[OF assms(2)] assms(3) agent_fails by (auto simp: buses_ok_def)
next
  case (window_refused pn w ws b)
  then show ?thesis using open_sends(1)[of "rt_windows r"] emitting_open[OF assms(2)] assms(3) by (simp add: buses_ok_def)
next
  case (window_fails w pn i key v br err b)
  then show ?thesis using open_sends(2)[of "rt_windows r"] emitting_open[OF assms(2)] assms(3) by (auto simp: buses_ok_def)
next
  case (consume c)
  then show ?thesis using consume_frame[of "batch_handler met1" "rt_batches r" c] assms(2) by (auto simp: control_ok_def)
next
  case (persist c)
  then show ?thesis using consume_frame[of "window_handler met2" "rt_windows r" c] assms(2) by (auto simp: control_ok_def)
qed (use assms(2) in \<open>auto simp: control_ok_def senders_of_def set_source_def set_service_def begin_publication_def window_accepted_def group_returned_def split: sum.splits emission.splits if_splits\<close>)

lemma rt_step_batches:
  assumes "rt_step met1 met2 everything r r'" and "control_ok r"
  shows "bus_step (batch_handler met1) (rt_batches r) (rt_batches r') \<or> (\<exists>w. rt_batches r' = (rt_batches r)\<lparr>bc_world := w\<rparr>)"
  using assms(1)
proof cases
  case (agent_enters b key v)
  with send_enter[OF agent_enters(3)] show ?thesis by simp
next
  case (agent_sends i key v b p)
  with send_sent[OF agent_sends(2-5)] show ?thesis by simp
next
  case (agent_fails i key v br err b)
  with send_failed[OF agent_fails(2-4)] show ?thesis by simp
next
  case (agent_leaves i)
  with send_leave[OF agent_leaves(2,3)] show ?thesis by simp
next
  case (consume c)
  with consume_bus[OF consume(2)] show ?thesis by simp
next
  case agents_waited
  with close_begin[of "rt_batches r"] assms(2) show ?thesis by (simp add: control_ok_def)
next
  case batches_closed
  with close_end[of "rt_batches r"] assms(2) show ?thesis by (simp add: control_ok_def)
qed (auto simp: set_source_def set_service_def intro!: exI[of _ "bc_world (rt_batches r')"])

lemma rt_step_windows:
  assumes "rt_step met1 met2 everything r r'" and "control_ok r"
  shows "bus_step (window_handler met2) (rt_windows r) (rt_windows r') \<or> rt_windows r' = rt_windows r"
  using assms(1)
proof cases
  case (window_enters pn w ws b)
  with send_enter[OF window_enters(4)] show ?thesis by simp
next
  case (window_sent w pn i key v b p)
  with send_sent[OF window_sent(3-6)] show ?thesis by simp
next
  case (window_fails w pn i key v br err b)
  with send_failed[OF window_fails(3-5)] show ?thesis by simp
next
  case (window_leaves pn i)
  with send_leave[OF window_leaves(3,4)] show ?thesis by simp
next
  case (persist c)
  with consume_bus[OF persist(2)] show ?thesis by simp
next
  case final_emitted
  with close_begin[of "rt_windows r"] assms(2) show ?thesis by (simp add: control_ok_def)
next
  case windows_closed
  with close_end[of "rt_windows r"] assms(2) show ?thesis by (simp add: control_ok_def)
qed (simp_all add: set_source_def set_service_def)

lemma world_irrelevant [simp]: "bus_inv (c\<lparr>bc_world := w\<rparr>) = bus_inv c"
  by (simp add: bus_inv_def close_ok_def logs_ok_def queued_def count_ok_def Bus.held_def)

lemma rt_step_buses:
  assumes "rt_step met1 met2 everything r r'" and "control_ok r" and "buses_ok r"
  shows "buses_ok r'"
proof -
  have "bus_inv (rt_batches r') \<and> closing_ok (bc_bus (rt_batches r'))"
    using rt_step_batches[OF assms(1,2)] assms(3) by (auto simp: buses_ok_def dest: step_inv step_closing)
  moreover have "bus_inv (rt_windows r') \<and> closing_ok (bc_bus (rt_windows r'))"
    using rt_step_windows[OF assms(1,2)] assms(3) by (auto simp: buses_ok_def dest: step_inv step_closing)
  ultimately show ?thesis by (simp add: buses_ok_def)
qed

section \<open>Nothing gets lost on a bus\<close>

definition sent_of :: "('a, 's) bus_conf \<Rightarrow> 'a list" where
  "sent_of c = concat (map (bc_sent c) [0..<length (bus_partitions (bc_bus c))])"

definition taken_of :: "('a, 's) bus_conf \<Rightarrow> 'a list" where
  "taken_of c = concat (map (bc_taken c) [0..<length (bus_partitions (bc_bus c))])"

fun in_hand :: "nat \<times> 'a stage \<Rightarrow> 'a multiset" where
  "in_hand (p, Holding v draining) = {#v#}"
| "in_hand (p, st) = {#}"

text \<open>What the consumers took was handled, is a dead letter, or is in their hands. \<open>handled\<close> reads the handler's log.\<close>

definition flows :: "('s \<Rightarrow> 'a list) \<Rightarrow> ('a, 's) bus_conf \<Rightarrow> bool" where
  "flows handled c \<longleftrightarrow> mset (taken_of c) = mset (handled (bc_world c)) + mset (bus_deadLetter (bc_bus c)) + (\<Sum>ps\<leftarrow>bc_consumers c. in_hand ps)"

lemma mset_concat_update: "p < n \<Longrightarrow> mset (concat (map (f(p := f p @ [v])) [0..<n])) = add_mset v (mset (concat (map f [0..<n])))"
proof (induction n)
  case (Suc n)
  show ?case
  proof (cases "p = n")
    case True
    then have "map (f(p := f p @ [v])) [0..<n] = map f [0..<n]" by (intro map_cong) auto
    with True show ?thesis by (simp del: fun_upd_apply) simp
  next
    case False
    with Suc show ?thesis by simp
  qed
qed simp

lemma sum_list_update_mset:
  fixes f :: "'b \<Rightarrow> 'c multiset"
  assumes "i < length xs"
  shows "(\<Sum>x\<leftarrow>xs[i := y]. f x) + f (xs ! i) = (\<Sum>x\<leftarrow>xs. f x) + f y"
  using assms by (induction xs arbitrary: i) (auto split: nat.split simp: ac_simps)

locale logged_handler =
  fixes handler :: "('a, 's) handler" and handled :: "'s \<Rightarrow> 'a list"
  assumes logs: "handler v s = (r, s1) \<Longrightarrow> handled s1 = handled s @ (if r = None then [v] else [])"
begin

lemma deliver_from_logs:
  assumes "deliver_from left n (\<lambda>_. None) handler v (b, s) = (b', s')"
  shows "mset (handled s') + mset (bus_deadLetter b') = add_mset v (mset (handled s) + mset (bus_deadLetter b))"
  using assms
proof (induction left arbitrary: n b s)
  case (Suc left)
  obtain e s1 where run: "handler v s = (e, s1)" by fastforce
  show ?case
  proof (cases e)
    case None
    with Suc.prems run logs[OF run] show ?thesis by auto
  next
    case (Some err)
    with Suc.prems run logs[OF run] Suc.IH[of "Suc n" _ s1] show ?thesis by (fastforce split: if_splits)
  qed
qed auto

lemma deliver_logs:
  assumes "deliver (\<lambda>_. None) handler v (b, s) = (b', s')"
  shows "mset (handled s') + mset (bus_deadLetter b') = add_mset v (mset (handled s) + mset (bus_deadLetter b))"
  using deliver_from_logs assms unfolding deliver_def by simp

lemma consume_flows:
  assumes "consume_step handler c c'" and "bus_inv c" and "flows handled c"
  shows "flows handled c'"
  using assms(1)
proof cases
  case (consume_take i p draining v b)
  obtain rest where b: "b = (bc_bus c)\<lparr>bus_partitions := (bus_partitions (bc_bus c))[p := rest]\<rparr>" using consume_take(4) by (auto simp: pop_Some)
  have "p < length (bus_partitions (bc_bus c))" by (rule consumer_in_range[OF assms(2) consume_take(2,3)])
  from mset_concat_update[OF this, of "bc_taken c" v] have "mset (taken_of c') = add_mset v (mset (taken_of c))" unfolding consume_take(1) by (simp add: taken_of_def b)
  moreover have "(\<Sum>ps\<leftarrow>bc_consumers c'. in_hand ps) = add_mset v (\<Sum>ps\<leftarrow>bc_consumers c. in_hand ps)"
    using sum_list_update_mset[OF consume_take(2), of in_hand "(p, Holding v draining)"] consume_take(1,3) by (simp split: if_splits)
  ultimately show ?thesis using assms(3) by (simp add: flows_def consume_take(1) b)
next
  case (consume_deliver i p v draining b w)
  have "taken_of c' = taken_of c" using deliver_frame(1)[OF consume_deliver(4)] by (simp add: taken_of_def consume_deliver(1) same_bus_def)
  moreover have "add_mset v (\<Sum>ps\<leftarrow>bc_consumers c'. in_hand ps) = (\<Sum>ps\<leftarrow>bc_consumers c. in_hand ps)"
    using sum_list_update_mset[OF consume_deliver(2), of in_hand "(p, if draining then Draining else Consuming)"] consume_deliver(1,3) by (simp split: if_splits)
  ultimately show ?thesis using assms(3) deliver_logs[OF consume_deliver(4)] unfolding flows_def consume_deliver(1) by (simp add: ac_simps)
next
  case (consume_shutdown i p)
  have "(\<Sum>ps\<leftarrow>bc_consumers c'. in_hand ps) = (\<Sum>ps\<leftarrow>bc_consumers c. in_hand ps)"
    using sum_list_update_mset[OF consume_shutdown(2), of in_hand "(p, Draining)"] consume_shutdown(1,3) by simp
  then show ?thesis using assms(3) by (simp add: flows_def taken_of_def consume_shutdown(1))
next
  case (consume_drained i p)
  have "(\<Sum>ps\<leftarrow>bc_consumers c'. in_hand ps) = (\<Sum>ps\<leftarrow>bc_consumers c. in_hand ps)"
    using sum_list_update_mset[OF consume_drained(2), of in_hand "(p, Returned None)"] consume_drained(1,3) by simp
  then show ?thesis using assms(3) by (simp add: flows_def taken_of_def consume_drained(1))
qed

end

interpretation batch_log: logged_handler "batch_handler met" bw_handled for met
  by unfold_locales (auto simp: batch_handler_def split: prod.splits option.splits)

interpretation window_log: logged_handler "window_handler met" ww_delivered for met
  by unfold_locales (auto simp: window_handler_def split: prod.splits option.splits)

lemma flows_same:
  assumes "flows handled c" and "bc_taken c' = bc_taken c" "bc_consumers c' = bc_consumers c" "handled (bc_world c') = handled (bc_world c)"
    and "bus_deadLetter (bc_bus c') = bus_deadLetter (bc_bus c)" "length (bus_partitions (bc_bus c')) = length (bus_partitions (bc_bus c))"
  shows "flows handled c'"
  using assms by (simp add: flows_def taken_of_def)

lemma select_same: "send_select br cx key v b = Some (e, b') \<Longrightarrow> bus_deadLetter b' = bus_deadLetter b \<and> length (bus_partitions b') = length (bus_partitions b) \<and> bus_config b' = bus_config b"
  by (auto simp: push_def dest!: send_select_cases split: if_splits)

lemmas rt_op_defs = set_source_def set_service_def enterSend_def leaveSend_def Close_begin_def Close_end_def

lemma rt_step_batch_flow:
  assumes "rt_step met1 met2 everything r r'" and "buses_ok r" and "flows bw_handled (rt_batches r)"
  shows "flows bw_handled (rt_batches r')"
  using assms(1)
proof cases
  case (consume c)
  then show ?thesis using batch_log.consume_flows[OF consume(2) _ assms(3)] assms(2) by (simp add: buses_ok_def)
next
  case (agent_sends i key v b p)
  then show ?thesis using select_same[OF agent_sends(4)] by (auto intro: flows_same[OF assms(3)])
next
  case (agent_fails i key v br err b)
  then show ?thesis using select_same[OF agent_fails(4)] by (auto intro: flows_same[OF assms(3)])
qed (auto simp: rt_op_defs split: if_splits intro!: flows_same[OF assms(3)])

text \<open>The persister succeeds at once, so a window bus has no dead letters and the store is what the delivered windows make of it.\<close>

definition persister_ok :: "('m, 'n) runtime \<Rightarrow> bool" where
  "persister_ok r \<longleftrightarrow> flows ww_delivered (rt_windows r) \<and> bus_deadLetter (bc_bus (rt_windows r)) = [] \<and> 0 < bcf_MaxAttempts (bus_config (bc_bus (rt_windows r))) \<and>
     fst (ww_store (bc_world (rt_windows r))) = deliver_all (ww_delivered (bc_world (rt_windows r))) NewMemory"

lemma window_handler_run:
  "\<exists>st. window_handler met v w = (None, w\<lparr>ww_store := st, ww_delivered := ww_delivered w @ [v]\<rparr>) \<and> fst st = snd (ApplyWindow None v (fst (ww_store w)))"
proof -
  obtain m where "ApplyWindow None v (fst (ww_store w)) = (None, m)" using memory.write_live[of v "fst (ww_store w)"] by (metis prod.collapse)
  then show ?thesis by (simp add: window_handler_def HandleWindow_def) blast
qed

lemma consume_persists:
  assumes "consume_step (window_handler met) c c'" and "bus_deadLetter (bc_bus c) = []" "0 < bcf_MaxAttempts (bus_config (bc_bus c))"
    and "fst (ww_store (bc_world c)) = deliver_all (ww_delivered (bc_world c)) NewMemory"
  shows "bus_deadLetter (bc_bus c') = [] \<and> bus_config (bc_bus c') = bus_config (bc_bus c) \<and> fst (ww_store (bc_world c')) = deliver_all (ww_delivered (bc_world c')) NewMemory"
  using assms(1)
proof cases
  case (consume_deliver i p v draining b w)
  obtain st where run: "window_handler met v (bc_world c) = (None, (bc_world c)\<lparr>ww_store := st, ww_delivered := ww_delivered (bc_world c) @ [v]\<rparr>)"
    and st: "fst st = snd (ApplyWindow None v (fst (ww_store (bc_world c))))" using window_handler_run by blast
  obtain k where "nat (bcf_MaxAttempts (bus_config (bc_bus c))) = Suc k" using assms(3) by (cases "nat (bcf_MaxAttempts (bus_config (bc_bus c)))") auto
  with consume_deliver(4) run st assms(2,4) show ?thesis by (auto simp: deliver_def consume_deliver(1) deliver_all_def)
qed (use assms in \<open>auto simp: pop_Some\<close>)

lemma rt_step_persister:
  assumes "rt_step met1 met2 everything r r'" and "buses_ok r" and "persister_ok r"
  shows "persister_ok r'"
  using assms(1)
proof cases
  case (persist c)
  then show ?thesis using window_log.consume_flows[OF persist(2)] consume_persists[OF persist(2)] assms(2,3) by (simp add: buses_ok_def persister_ok_def)
next
  case (window_sent w pn i key v b p)
  then show ?thesis using select_same[OF window_sent(5)] assms(3) by (auto simp: persister_ok_def intro: flows_same)
next
  case (window_fails w pn i key v br err b)
  then show ?thesis using select_same[OF window_fails(5)] assms(3) by (auto simp: persister_ok_def intro: flows_same)
qed (use assms(3) in \<open>auto simp: rt_op_defs persister_ok_def split: if_splits intro: flows_same\<close>)

section \<open>Nothing gets lost in the aggregator\<close>

lemma split_ok_sent: "set sent = set sent' \<Longrightarrow> split_ok a sent events A = split_ok a sent' events A"
  by (simp add: split_ok_def)

text \<open>A window that is pending may reach the channel, and one that reached it may be committed.\<close>

lemma split_send: "split_ok a sent events A \<Longrightarrow> w \<in> pending_windows a \<Longrightarrow> set sent' = insert w (set sent) \<Longrightarrow> split_ok a sent' events A"
  by (auto simp: split_ok_def)

lemma split_commit:
  assumes "source_ok a" and "split_ok a sent events A" and "distinct ws" "set ws \<subseteq> pending_windows a" "set ws \<subseteq> set sent"
  shows "source_ok (Commit ws a) \<and> pending_windows (Commit ws a) = pending_windows a - set ws \<and> split_ok (Commit ws a) sent events (A @ ws)"
proof -
  have com: "source_ok (Commit ws a)" "pending_windows (Commit ws a) = pending_windows a - set ws" "\<And>c P. Aggregator.held c P (Commit ws a) = Aggregator.held c P a - window_amount c P ws"
    using aggregator.commit_ok[OF assms(1,3,4)] by (simp_all add: aggregator_source_def)
  have seq: "ag_sequence (Commit ws a) = ag_sequence a" "ag_config (Commit ws a) = ag_config a" by (simp_all add: Commit_def)
  have inv: "agg_inv a" using assms(1) by (simp add: source_ok_def)
  have am: "amount c P (Commit ws a) = amount c P a" for c P using seq(2) by (intro amount_config) simp
  have "inj_on w_Sequence (set A \<union> pending_windows a)" using assms(2) by (simp add: split_ok_def)
  then have inj: "inj_on w_Sequence (set (A @ ws) \<union> pending_windows (Commit ws a))" by (rule inj_on_subset) (use assms(4) com(2) in auto)
  have "split_ok (Commit ws a) sent events (A @ ws)"
    using assms(2-5) com(2,3) seq(1) am pending_Sequence_le[OF inv] inj unfolding split_ok_def by (auto simp: algebra_simps)
  with com show ?thesis by simp
qed

lemma collect_windows_collect: "\<exists>incl. collect_windows everything now a = collect sketch_ops incl a"
  by (auto simp: collect_windows_def CollectAll_def CollectWindowsBefore_def Let_def)

definition pub_ok :: "Sketch Aggregator \<Rightarrow> AggregateWindow list \<Rightarrow> publication \<Rightarrow> AggregateWindow list \<Rightarrow> bool" where
  "pub_ok a sent pn ws \<longleftrightarrow> pn_windows pn = ws \<and> distinct ws \<and> set ws \<subseteq> pending_windows a \<and> set (pn_published pn) \<subseteq> set sent \<and> pn_failure pn = None"

fun emission_ok :: "Sketch Aggregator \<Rightarrow> AggregateWindow list \<Rightarrow> emission \<Rightarrow> bool" where
  "emission_ok a sent Resting = True"
| "emission_ok a sent (Offering pn) = pub_ok a sent pn (pn_published pn @ pn_todo pn)"
| "emission_ok a sent (Sending w pn) = pub_ok a sent pn (pn_published pn @ w # pn_todo pn)"
| "emission_ok a sent (Returning pn) = pub_ok a sent pn (pn_published pn @ pn_todo pn)"

fun emitting :: "emission \<Rightarrow> AggregateWindow list" where
  "emitting Resting = []"
| "emitting (Offering pn) = pn_windows pn"
| "emitting (Sending w pn) = pn_windows pn"
| "emitting (Returning pn) = pn_windows pn"

definition aggregate_ok :: "('m, 'n) runtime \<Rightarrow> bool" where
  "aggregate_ok r \<longleftrightarrow> source_ok (rt_source r) \<and> (\<exists>A. split_ok (rt_source r) (sent_of (rt_windows r)) (bw_events (bc_world (rt_batches r))) A) \<and>
     emission_ok (rt_source r) (sent_of (rt_windows r)) (rt_emission r) \<and>
     (5 \<le> rank (rt_pc r) \<longrightarrow> ag_open (rt_source r) = [] \<and> pending_windows (rt_source r) \<subseteq> set (emitting (rt_emission r)))"

lemma emission_ok_mono: "emission_ok a sent em \<Longrightarrow> pending_windows a' = pending_windows a \<Longrightarrow> set sent \<subseteq> set sent' \<Longrightarrow> emission_ok a' sent' em"
  by (cases em) (auto simp: pub_ok_def)

lemma deliver_keeps:
  assumes "\<And>s r s'. I s \<Longrightarrow> handler v s = (r, s') \<Longrightarrow> I s'" and "deliver cx handler v (b, s) = (b', s')" and "I s"
  shows "I s'"
proof -
  have "deliver_from k n cx handler v (b, s) = (b', s') \<Longrightarrow> I s \<Longrightarrow> I s'" for k n b s
  proof (induction k arbitrary: n b s)
    case (Suc k)
    obtain e s1 where run: "handler v s = (e, s1)" by fastforce
    with assms(1)[OF Suc.prems(2)] have "I s1" by simp
    with Suc run show ?case by (cases e) (auto split: if_splits)
  qed simp
  with assms(2,3) show ?thesis by (auto simp: deliver_def)
qed

lemma consume_partitions: "consume_step handler c c' \<Longrightarrow> length (bus_partitions (bc_bus c')) = length (bus_partitions (bc_bus c))"
  by (erule consume_step.cases) (auto simp: pop_Some same_bus_def dest: deliver_frame(1))

lemma sent_of_same: "bc_sent c' = bc_sent c \<Longrightarrow> length (bus_partitions (bc_bus c')) = length (bus_partitions (bc_bus c)) \<Longrightarrow> sent_of c' = sent_of c"
  by (simp add: sent_of_def)

text \<open>Handling a batch, whatever the outcome, keeps the aggregator sound and its pending windows.\<close>

definition absorbing :: "AggregateWindow list \<Rightarrow> AggregateWindow set \<Rightarrow> 'm batch_world \<Rightarrow> bool" where
  "absorbing sent P w \<longleftrightarrow> source_ok (as_source (bw_service w)) \<and> pending_windows (as_source (bw_service w)) = P \<and> (\<exists>A. split_ok (as_source (bw_service w)) sent (bw_events w) A)"

lemma batch_handler_absorbing:
  assumes "absorbing sent P w" and "batch_handler met b w = (r, w')"
  shows "absorbing sent P w'"
proof -
  let ?a = "as_source (bw_service w)"
  obtain A where A: "source_ok ?a" "split_ok ?a sent (bw_events w) A" "pending_windows ?a = P" using assms(1) by (auto simp: absorbing_def)
  obtain e a1 where run: "IngestBatch sketch_ops b ?a = (e, a1)" by fastforce
  have a1: "source_ok a1" "pending_windows a1 = P" using aggregator.ingest_ok[OF A(1)] run A(3) by (simp_all add: aggregator_source_def)
  show ?thesis
  proof (cases e)
    case None
    then have "as_source (bw_service w') = a1" "bw_events w' = bw_events w @ absorbed sketch_ops (b_Events b) ?a"
      using assms(2) run by (auto simp: batch_handler_def Agg_HandleBatch_def aggregator_source_def)
    with split_consume[OF A(1,2)] run None a1 show ?thesis by (auto simp: absorbing_def)
  next
    case (Some err)
    then have "as_source (bw_service w') = ?a" "bw_events w' = bw_events w"
      using assms(2) run IngestBatch_error[OF A(1)] by (auto simp: batch_handler_def Agg_HandleBatch_def aggregator_source_def)
    with assms(1) show ?thesis by (simp add: absorbing_def)
  qed
qed

lemma consume_absorbing:
  assumes "consume_step (batch_handler met) c c'" and "absorbing sent P (bc_world c)"
  shows "absorbing sent P (bc_world c')"
  using assms(1)
proof cases
  case (consume_deliver i p v draining b w)
  from deliver_keeps[where I = "absorbing sent P", OF batch_handler_absorbing consume_deliver(4) assms(2)] show ?thesis by (simp add: consume_deliver(1))
qed (use assms(2) in simp_all)

lemma collect_splits:
  assumes "source_ok a" and "sequence_room a" and "split_ok a sent events A" and "collect sketch_ops incl a = (r, a1)"
  shows "\<exists>ws. r = Inr ws \<and> distinct ws \<and> set ws = pending_windows a1 \<and> source_ok a1 \<and> split_ok a1 sent events A \<and> ag_open a1 = filter (\<lambda>(k, _). \<not> incl k) (ag_open a)"
proof -
  obtain ws where ws: "r = Inr ws" "distinct ws" "set ws = pending_windows a1" "ag_open a1 = filter (\<lambda>(k, _). \<not> incl k) (ag_open a)"
    using collect_source[OF assms(1,2,4), of Bytes "\<lambda>_. True"] by blast
  have none: "Commit [] a1 = a1" by (simp add: Commit_def)
  from split_emission[OF assms(1,2,3), of incl ws a1 "[]" sent] assms(4) ws(1) none have "source_ok a1 \<and> split_ok a1 sent events A" by simp
  with ws show ?thesis by blast
qed

lemma aggregate_frame:
  assumes "aggregate_ok r" and "rt_source r' = rt_source r" "bw_events (bc_world (rt_batches r')) = bw_events (bc_world (rt_batches r))"
    and "sent_of (rt_windows r') = sent_of (rt_windows r)" "rt_emission r' = rt_emission r" "rank (rt_pc r') \<le> rank (rt_pc r) \<or> rank (rt_pc r') < 5 \<or> 5 \<le> rank (rt_pc r)"
  shows "aggregate_ok r'"
  using assms unfolding aggregate_ok_def by auto

lemma emission_moves:
  assumes "aggregate_ok r" and "sent_of c = sent_of (rt_windows r)" and "emitting em = emitting (rt_emission r)" and "emission_ok (rt_source r) (sent_of (rt_windows r)) em"
  shows "aggregate_ok (r\<lparr>rt_emission := em, rt_windows := c\<rparr>)"
  using assms by (simp add: aggregate_ok_def)

lemma begin_emission:
  assumes "aggregate_ok r" and "sequence_room (rt_source r)" and "collect sketch_ops incl (rt_source r) = (ws, a)" and "rank pc < 5 \<or> incl = (\<lambda>_. True)"
  shows "aggregate_ok ((set_source a r)\<lparr>rt_pc := pc, rt_emission := begin_publication ws\<rparr>)"
proof -
  obtain A where A: "source_ok (rt_source r)" "split_ok (rt_source r) (sent_of (rt_windows r)) (bw_events (bc_world (rt_batches r))) A" using assms(1) by (auto simp: aggregate_ok_def)
  obtain us where us: "ws = Inr us" "distinct us" "set us = pending_windows a" "source_ok a" "split_ok a (sent_of (rt_windows r)) (bw_events (bc_world (rt_batches r))) A"
    "ag_open a = filter (\<lambda>(k, _). \<not> incl k) (ag_open (rt_source r))" using collect_splits[OF A(1) assms(2) A(2) assms(3)] by blast
  have "ag_open a = []" if "incl = (\<lambda>_. True)" using us(6) that by simp
  with us assms(4) show ?thesis by (auto simp: aggregate_ok_def set_source_def set_service_def begin_publication_def pub_ok_def)
qed

lemma end_emission:
  assumes "aggregate_ok r" and "rt_emission r = Offering pn" "pn_todo pn = []"
  shows "aggregate_ok ((set_service (finish_publication met pn (bw_service (bc_world (rt_batches r)))) r)\<lparr>rt_emission := Resting\<rparr>)"
proof -
  obtain A where A: "source_ok (rt_source r)" "split_ok (rt_source r) (sent_of (rt_windows r)) (bw_events (bc_world (rt_batches r))) A" using assms(1) by (auto simp: aggregate_ok_def)
  have pn: "pn_windows pn = pn_published pn" "distinct (pn_published pn)" "set (pn_published pn) \<subseteq> pending_windows (rt_source r)" "set (pn_published pn) \<subseteq> set (sent_of (rt_windows r))"
    "pn_failure pn = None" using assms by (auto simp: aggregate_ok_def pub_ok_def)
  have src: "as_source (finish_publication met pn s) = Commit (pn_published pn) (as_source s)" for s :: "(Sketch Aggregator, unit, 'a) AggService"
    by (simp add: finish_publication_def Let_def)
  have "ag_open (Commit (pn_published pn) (rt_source r)) = ag_open (rt_source r)" by (simp add: Commit_def)
  with split_commit[OF A pn(2-4)] src pn(1) assms show ?thesis by (auto simp: aggregate_ok_def set_service_def)
qed

lemma window_reaches:
  assumes "aggregate_ok r" and "buses_ok r" and "bc_senders (rt_windows r) = senders_of (rt_emission r)" and "rt_emission r = Sending w pn" and "i < length (bc_senders (rt_windows r))"
    and "bc_senders (rt_windows r) ! i = Selecting key v" and "send_select ToPartition None key v (bc_bus (rt_windows r)) = Some (None, b)" and "p = PartitionFor (bc_bus (rt_windows r)) key"
  shows "aggregate_ok (r\<lparr>rt_emission := Returning (window_accepted w pn), rt_windows := (rt_windows r)\<lparr>bc_bus := b, bc_senders := (bc_senders (rt_windows r))[i := Leaving],
    bc_sent := (bc_sent (rt_windows r))(p := bc_sent (rt_windows r) p @ [v])\<rparr>\<rparr>)" (is "aggregate_ok ?r")
proof -
  have v: "v = w" using assms(3-6) by (simp add: senders_of_def)
  have "p < length (bus_partitions (bc_bus (rt_windows r)))" using PartitionFor_range[of "bc_bus (rt_windows r)"] assms(2,8) by (simp add: buses_ok_def bus_inv_def)
  from mset_concat_update[OF this, of "bc_sent (rt_windows r)" v] select_same[OF assms(7)] have "mset (sent_of (rt_windows ?r)) = add_mset w (mset (sent_of (rt_windows r)))"
    by (simp add: sent_of_def v)
  then have sent: "set (sent_of (rt_windows ?r)) = insert w (set (sent_of (rt_windows r)))" by (metis set_mset_add_mset_insert set_mset_mset)
  obtain A where A: "split_ok (rt_source r) (sent_of (rt_windows r)) (bw_events (bc_world (rt_batches r))) A" using assms(1) by (auto simp: aggregate_ok_def)
  have pn: "pub_ok (rt_source r) (sent_of (rt_windows r)) pn (pn_published pn @ w # pn_todo pn)" using assms(1,4) by (simp add: aggregate_ok_def)
  then have "w \<in> pending_windows (rt_source r)" by (simp add: pub_ok_def)
  from split_send[OF A this sent] have "split_ok (rt_source ?r) (sent_of (rt_windows ?r)) (bw_events (bc_world (rt_batches ?r))) A" by simp
  moreover have "emission_ok (rt_source ?r) (sent_of (rt_windows ?r)) (rt_emission ?r)" using pn sent by (auto simp: pub_ok_def window_accepted_def)
  ultimately show ?thesis using assms(1,4) by (auto simp: aggregate_ok_def window_accepted_def)
qed

lemma rt_step_aggregate:
  assumes "rt_step met1 met2 everything r r'" and "control_ok r" and "buses_ok r" and "aggregate_ok r"
  shows "aggregate_ok r'"
  using assms(1)
proof cases
  case (consume c)
  let ?sent = "sent_of (rt_windows r)" and ?P = "pending_windows (rt_source r)"
  have "absorbing ?sent ?P (bc_world c)" by (rule consume_absorbing[OF consume(2)]) (use assms(4) in \<open>simp add: absorbing_def aggregate_ok_def\<close>)
  moreover have "rank (rt_pc r) < 4" using consume_frame(4)[OF consume(2)] assms(2) by (auto simp: control_ok_def)
  moreover have "emission_ok (as_source (bw_service (bc_world c))) ?sent (rt_emission r)"
  proof (rule emission_ok_mono)
    show "emission_ok (rt_source r) ?sent (rt_emission r)" using assms(4) unfolding aggregate_ok_def by blast
    show "pending_windows (as_source (bw_service (bc_world c))) = ?P" using calculation(1) unfolding absorbing_def by blast
  qed simp
  ultimately show ?thesis unfolding consume(1) aggregate_ok_def absorbing_def by simp
next
  case (persist c)
  have "sent_of c = sent_of (rt_windows r)" by (rule sent_of_same[OF consume_frame(3)[OF persist(2)] consume_partitions[OF persist(2)]])
  with persist(1) show ?thesis by (intro aggregate_frame[OF assms(4)]) simp_all
next
  case (tick now ws a)
  have "rank (rt_pc r) < 5" using tick(2) assms(2) by (auto simp: control_ok_def)
  then show ?thesis using begin_emission[OF assms(4) tick(4), of _ ws a "rt_pc r"] collect_windows_collect[of everything now "rt_source r"] tick(1,5) by (auto simp: set_source_def set_service_def)
next
  case (emitter_waited ws a)
  then show ?thesis using begin_emission[OF assms(4) emitter_waited(4), of "\<lambda>_. True" ws a FinalEmit] by (simp add: CollectAll_def)
next
  case (publication_ends pn)
  then show ?thesis using end_emission[OF assms(4)] by simp
next
  case (window_sent w pn i key v b p)
  then show ?thesis using window_reaches[OF assms(4,3) _ window_sent(2-6)] assms(2) by (simp add: control_ok_def)
next
  case (window_enters pn w ws b)
  have "emission_ok (rt_source r) (sent_of (rt_windows r)) (Offering pn)" using assms(4) window_enters(2) by (simp add: aggregate_ok_def)
  then show ?thesis unfolding window_enters(1) using window_enters(2-4)
    by (intro emission_moves[OF assms(4)]) (auto simp: enterSend_def pub_ok_def intro: sent_of_same split: if_splits)
next
  case (window_leaves pn i)
  have "emission_ok (rt_source r) (sent_of (rt_windows r)) (Returning pn)" using assms(4) window_leaves(2) by (simp add: aggregate_ok_def)
  then show ?thesis unfolding window_leaves(1) using window_leaves(2)
    by (intro emission_moves[OF assms(4)]) (auto simp: leaveSend_def intro: sent_of_same)
next
  case (window_refused pn w ws b)
  then show ?thesis using open_sends(1)[of "rt_windows r"] emitting_open[OF assms(2)] assms(3) by (simp add: buses_ok_def)
next
  case (window_fails w pn i key v br err b)
  then show ?thesis using open_sends(2)[of "rt_windows r"] emitting_open[OF assms(2)] assms(3) by (auto simp: buses_ok_def)
qed (auto intro!: aggregate_frame[OF assms(4)] simp: rt_op_defs sent_of_def)

section \<open>The whole runtime\<close>

text \<open>Every partition has its consumer, and none of them failed.\<close>

definition group_ok :: "('a, 's) bus_conf \<Rightarrow> bool" where
  "group_ok c \<longleftrightarrow> map fst (bc_consumers c) = [0..<length (bus_partitions (bc_bus c))] \<and> (\<forall>ps \<in> set (bc_consumers c). \<forall>e. snd ps = Returned e \<longrightarrow> e = None)"

lemma group_ok_same: "group_ok c \<Longrightarrow> bc_consumers c' = bc_consumers c \<Longrightarrow> length (bus_partitions (bc_bus c')) = length (bus_partitions (bc_bus c)) \<Longrightarrow> group_ok c'"
  by (simp add: group_ok_def)

lemma group_ok_update:
  assumes "group_ok c" and "i < length (bc_consumers c)" "bc_consumers c ! i = (p, st)" and "bc_consumers c' = (bc_consumers c)[i := (p, st')]"
    and "length (bus_partitions (bc_bus c')) = length (bus_partitions (bc_bus c))" and "\<And>e. st' = Returned e \<Longrightarrow> e = None"
  shows "group_ok c'"
proof -
  have "map fst (bc_consumers c') = map fst (bc_consumers c)" using assms(2-4) by (simp add: map_update list_update_same_conv)
  then show ?thesis using assms(1,4-6) set_update_subset_insert[of "bc_consumers c" i "(p, st')"] unfolding group_ok_def by auto
qed

lemma consume_group:
  assumes "consume_step handler c c'" and "group_ok c"
  shows "group_ok c'"
  using assms(1)
proof cases
  case (consume_take i p draining v b)
  then show ?thesis by (intro group_ok_update[OF assms(2) consume_take(2,3) _ consume_partitions[OF assms(1)], where st' = "Holding v draining"]) simp_all
next
  case (consume_deliver i p v draining b w)
  then show ?thesis by (intro group_ok_update[OF assms(2) consume_deliver(2,3) _ consume_partitions[OF assms(1)], where st' = "if draining then Draining else Consuming"]) (simp_all split: if_splits)
next
  case (consume_shutdown i p)
  then show ?thesis by (intro group_ok_update[OF assms(2) consume_shutdown(2,3) _ consume_partitions[OF assms(1)], where st' = Draining]) simp_all
next
  case (consume_drained i p)
  then show ?thesis by (intro group_ok_update[OF assms(2) consume_drained(2,3) _ consume_partitions[OF assms(1)], where st' = "Returned None"]) simp_all
qed

lemma rt_step_groups:
  assumes "rt_step met1 met2 everything r r'" and "group_ok (rt_batches r) \<and> group_ok (rt_windows r)"
  shows "group_ok (rt_batches r') \<and> group_ok (rt_windows r')"
  using assms(1)
proof cases
  case (consume c)
  then show ?thesis using consume_group[OF consume(2)] assms(2) by simp
next
  case (persist c)
  then show ?thesis using consume_group[OF persist(2)] assms(2) by simp
next
  case (agent_sends i key v b p)
  then show ?thesis using select_same[OF agent_sends(4)] assms(2) by (auto intro: group_ok_same)
next
  case (agent_fails i key v br err b)
  then show ?thesis using select_same[OF agent_fails(4)] assms(2) by (auto intro: group_ok_same)
next
  case (window_sent w pn i key v b p)
  then show ?thesis using select_same[OF window_sent(5)] assms(2) by (auto intro: group_ok_same)
next
  case (window_fails w pn i key v br err b)
  then show ?thesis using select_same[OF window_fails(5)] assms(2) by (auto intro: group_ok_same)
qed (use assms(2) in \<open>auto simp: rt_op_defs group_ok_def split: if_splits\<close>)

text \<open>A group that has returned left nothing behind: what was sent to its bus was handled or is a dead letter.\<close>

lemma returned_flows:
  assumes "bus_inv c" and "group_ok c" and "group_returned c" and "flows handled c"
  shows "mset (sent_of c) = mset (handled (bc_world c)) + mset (bus_deadLetter (bc_bus c))"
proof -
  let ?n = "length (bus_partitions (bc_bus c))"
  have ret: "snd ps = Returned None" if "ps \<in> set (bc_consumers c)" for ps
    using that assms(2,3) by (cases "snd ps") (fastforce simp: group_ok_def group_returned_def list_all_iff)+
  have "bus_partitions (bc_bus c) ! p = []" if "p < ?n" for p
  proof -
    have "p \<in> fst ` set (bc_consumers c)" using that assms(2) unfolding group_ok_def by (metis atLeastLessThan_iff le0 list.set_map set_upt)
    then have "(p, Returned None) \<in> set (bc_consumers c)" using ret by force
    then show ?thesis using assms(1) by (auto simp: bus_inv_def stage_ok_def)
  qed
  then have "map (bc_sent c) [0..<?n] = map (bc_taken c) [0..<?n]" using assms(1) by (auto simp: bus_inv_def logs_ok_def queued_def)
  then have "sent_of c = taken_of c" unfolding sent_of_def taken_of_def by (simp only:)
  moreover have "(\<Sum>ps\<leftarrow>bc_consumers c. in_hand ps) = {#}"
  proof -
    have "in_hand ps = {#}" if "ps \<in> set (bc_consumers c)" for ps using ret[OF that] by (cases ps) simp
    then have "map in_hand (bc_consumers c) = map (\<lambda>_. {#}) (bc_consumers c)" by simp
    then show ?thesis by (simp only: sum_list_0)
  qed
  ultimately show ?thesis using assms(4) by (simp add: flows_def)
qed

definition rt_inv :: "('m, 'n) runtime \<Rightarrow> bool" where
  "rt_inv r \<longleftrightarrow> control_ok r \<and> buses_ok r \<and> flows bw_handled (rt_batches r) \<and> persister_ok r \<and> aggregate_ok r \<and> group_ok (rt_batches r) \<and> group_ok (rt_windows r)"

lemma rt_step_inv:
  assumes "rt_step met1 met2 everything r r'" and "rt_inv r"
  shows "rt_inv r'"
proof -
  have inv: "control_ok r" "buses_ok r" "flows bw_handled (rt_batches r)" "persister_ok r" "aggregate_ok r" "group_ok (rt_batches r) \<and> group_ok (rt_windows r)"
    using assms(2) by (simp_all add: rt_inv_def)
  show ?thesis unfolding rt_inv_def
    using rt_step_control[OF assms(1) inv(1,2)] rt_step_buses[OF assms(1) inv(1,2)] rt_step_batch_flow[OF assms(1) inv(2,3)] rt_step_persister[OF assms(1) inv(2,4)]
      rt_step_aggregate[OF assms(1) inv(1,2,5)] rt_step_groups[OF assms(1) inv(6)] by blast
qed

lemma group_started_ok:
  assumes "NewBus cfg = Inr b"
  shows "bus_inv (group_started b w) \<and> closing_ok b \<and> group_ok (group_started b w) \<and> (handled w = [] \<longrightarrow> flows handled (group_started b w))"
proof -
  have inv: "bus_inv (bus_initial b w)" by (rule NewBus_ok[OF assms])
  have close: "closing_ok b" using reachable_closing[OF assms rtranclp.rtrancl_refl] by (simp add: bus_initial_def)
  have "bus_deadLetter b = []" using NewBus_fields[OF assms] by blast
  moreover have "concat (map (\<lambda>_. []) xs) = []" for xs :: "nat list" by simp
  moreover have "(\<Sum>ps\<leftarrow>map (\<lambda>p. (p, Consuming)) xs. in_hand ps) = {#}" for xs :: "nat list" by (induction xs) auto
  ultimately show ?thesis using inv close
    by (auto simp: group_started_def bus_initial_def bus_inv_def close_ok_def stage_ok_def shape_ok_def logs_ok_def queued_def count_ok_def Bus.held_def group_ok_def flows_def taken_of_def comp_def
        filter_map split: stage.splits)
qed

lemma rt_start_inv:
  assumes "source_ok a" "ag_open a = []" "ag_pending a = []" and "NewBus cfg1 = Inr bb" and "NewBus cfg2 = Inr wb"
  shows "rt_inv (rt_start a bb wb agents m n)"
proof -
  have none: "sent_of (group_started b w) = []" for b :: "'c Bus" and w :: 'd by (simp add: sent_of_def group_started_def bus_initial_def)
  have "split_ok a [] [] []" using assms(1-3) by (simp add: split_ok_def pending_windows_def Aggregator.held_def held_open_def held_pending_def)
  moreover have "rt_source (rt_start a bb wb agents m n) = a" "bw_events (bc_world (rt_batches (rt_start a bb wb agents m n))) = []" "sent_of (rt_windows (rt_start a bb wb agents m n)) = []"
    "rt_emission (rt_start a bb wb agents m n) = Resting" "rank (rt_pc (rt_start a bb wb agents m n)) = 0"
    by (simp_all add: rt_start_def NewAggService_def none) (simp_all add: group_started_def bus_initial_def)
  ultimately have "aggregate_ok (rt_start a bb wb agents m n)" using assms(1) unfolding aggregate_ok_def by auto
  moreover have "persister_ok (rt_start a bb wb agents m n)"
    using NewBus_fields[OF assms(5)] group_started_ok[OF assms(5), where handled = ww_delivered and w = "\<lparr>ww_store = (NewMemory, n), ww_delivered = []\<rparr>"]
    by (auto simp: persister_ok_def rt_start_def deliver_all_def group_started_def bus_initial_def)
  moreover have "control_ok (rt_start a bb wb agents m n)" by (simp add: control_ok_def rt_start_def group_started_def bus_initial_def senders_of_def)
  ultimately show ?thesis using group_started_ok[OF assms(4), where handled = bw_handled and w = "\<lparr>bw_service = NewAggService a () m, bw_events = [], bw_handled = []\<rparr>"]
      group_started_ok[OF assms(5), where handled = ww_delivered and w = "\<lparr>ww_store = (NewMemory, n), ww_delivered = []\<rparr>"]
    by (simp add: rt_inv_def buses_ok_def rt_start_def group_started_def bus_initial_def)
qed

lemma rt_reachable_inv: "(rt_step met1 met2 everything)\<^sup>*\<^sup>* r r' \<Longrightarrow> rt_inv r \<Longrightarrow> rt_inv r'"
  by (induction rule: rtranclp_induct) (auto intro: rt_step_inv)

text \<open>
  Property C2 (stopping loses nothing). Start the runtime with any number of agents and let agents, consumers, emitter and the stopping goroutine interleave at will. When \<^verbatim>\<open>Stop\<close> has come to its end, no send was ever refused by
  a closed bus, every batch that was published was handled by the aggregator or is a dead letter, the aggregator holds nothing any more, and each counter of each device in the store is the sum over the events the
  aggregator absorbed, each counted once (in 64-bit arithmetic).
\<close>

theorem stop_loses_nothing:
  assumes "NewAggregator now c = Inr a0" and "in_i64 (cfg_SequenceSeed c)" and "cfg_NewSketch c = None" and "NewBus cfg1 = Inr bb" and "NewBus cfg2 = Inr wb"
    and "(rt_step met1 met2 everything)\<^sup>*\<^sup>* (rt_start a0 bb wb agents m n) r" and "rt_pc r = Stopped"
  shows "rt_refused r = 0 \<and> mset (sent_of (rt_batches r)) = mset (bw_handled (bc_world (rt_batches r))) + mset (DeadLettered (bc_bus (rt_batches r))) \<and>
    OpenWindows (rt_source r) = 0 \<and>
    wrap64 (dev_total cn k (fst (ww_store (bc_world (rt_windows r))))) =
      wrap64 (\<Sum>e\<leftarrow>filter (\<lambda>e. deviceKey (ev_UserID e) (ev_DeviceID e) = k) (bw_events (bc_world (rt_batches r))). of_event cn e)"
proof -
  have "0 \<le> cfg_RelativeAccuracy c" using assms(1) by (auto simp: NewAggregator_def Let_def AggConfig_validate_def split: if_splits option.splits)
  from rt_reachable_inv[OF assms(6) rt_start_inv[OF NewAggregator_source[OF assms(1-3) this] assms(4,5)]]
  have inv: "control_ok r" "buses_ok r" "flows bw_handled (rt_batches r)" "persister_ok r" "aggregate_ok r" "group_ok (rt_batches r)" "group_ok (rt_windows r)" by (simp_all add: rt_inv_def)
  have ret: "rt_refused r = 0" "group_returned (rt_batches r)" "group_returned (rt_windows r)" "rt_emission r = Resting" using inv(1) assms(7) by (auto simp: control_ok_def)
  have batches: "mset (sent_of (rt_batches r)) = mset (bw_handled (bc_world (rt_batches r))) + mset (DeadLettered (bc_bus (rt_batches r)))"
    using returned_flows[OF _ inv(6) ret(2) inv(3)] inv(2) by (simp add: buses_ok_def DeadLettered_def)
  have "mset (sent_of (rt_windows r)) = mset (ww_delivered (bc_world (rt_windows r)))"
    using returned_flows[OF _ inv(7) ret(3), of ww_delivered] inv(2,4) by (simp add: buses_ok_def persister_ok_def)
  then have dl: "set (ww_delivered (bc_world (rt_windows r))) = set (sent_of (rt_windows r))" by (metis set_mset_mset)
  have "ag_open (rt_source r) = []" "pending_windows (rt_source r) = {}" using inv(5) assms(7) ret(4) by (auto simp: aggregate_ok_def)
  then have empty: "OpenWindows (rt_source r) = 0" by (simp add: OpenWindows_def heldWindows_def pending_windows_def)
  obtain A where "split_ok (rt_source r) (sent_of (rt_windows r)) (bw_events (bc_world (rt_batches r))) A" using inv(5) by (auto simp: aggregate_ok_def)
  from settled_totals[OF this empty dl, of cn k] ret(1) batches empty inv(4) show ?thesis by (simp add: persister_ok_def)
qed

end
