(* ===== verification/ShutdownEnds.thy ===== *)
theory ShutdownEnds
  imports Shutdown
begin

text \<open>
  That stopping the runtime comes to an end (\<^verbatim>\<open>internal/app/runtime.go\<close>): once it has begun, the threads cannot block each other, and as long as no agent begins another send and the emitter no other
  emission, every run is finite and ends with \<^verbatim>\<open>Stop\<close> over.
\<close>

definition progress :: "'m MetricsRecorder \<Rightarrow> 'n MetricsRecorder \<Rightarrow> bool \<Rightarrow> ('m, 'n) runtime \<Rightarrow> ('m, 'n) runtime \<Rightarrow> bool" where
  "progress met1 met2 everything r r' \<longleftrightarrow> rt_step met1 met2 everything r r' \<and> rt_pc r \<noteq> Running \<and>
     length (bc_senders (rt_batches r')) \<le> length (bc_senders (rt_batches r)) \<and> (rt_emission r = Resting \<longrightarrow> rt_emission r' = Resting \<or> rt_pc r' \<noteq> rt_pc r)"

section \<open>The work left\<close>

definition bus_work :: "('a, 's) bus_conf \<Rightarrow> nat" where
  "bus_work c = (\<Sum>s\<leftarrow>bc_senders c. sender_weight s) + (\<Sum>ps\<leftarrow>bc_consumers c. stage_weight (snd ps)) + 2 * length (concat (bus_partitions (bc_bus c)))"

fun emission_weight :: "emission \<Rightarrow> nat" where
  "emission_weight Resting = 0"
| "emission_weight (Offering pn) = 6 * length (pn_todo pn) + 1"
| "emission_weight (Sending w pn) = 6 * length (pn_todo pn) + 2"
| "emission_weight (Returning pn) = 6 * length (pn_todo pn) + 2"

definition rt_work :: "('m, 'n) runtime \<Rightarrow> nat" where
  "rt_work r = bus_work (rt_batches r) + bus_work (rt_windows r) + rt_agents r + emission_weight (rt_emission r) + (if rt_emitter r then 1 else 0)"

lemma consume_work:
  assumes "consume_step handler c c'" and "bus_inv c"
  shows "bus_work c' < bus_work c"
  using assms(1)
proof cases
  note stages = sum_list_update_nat[where f = "\<lambda>ps. stage_weight (snd ps)"]
  case (consume_take i p draining v b)
  then obtain rest where "bus_partitions (bc_bus c) ! p = v # rest" "b = (bc_bus c)\<lparr>bus_partitions := (bus_partitions (bc_bus c))[p := rest]\<rparr>" by (auto simp: pop_Some)
  with consume_take stages[OF consume_take(2), of "(p, Holding v draining)"] concat_pop[OF consumer_in_range[OF assms(2) consume_take(2,3)], of v rest]
  show ?thesis by (auto simp: bus_work_def split: if_splits)
next
  note stages = sum_list_update_nat[where f = "\<lambda>ps. stage_weight (snd ps)"]
  case (consume_deliver i p v draining b w)
  have "bus_partitions b = bus_partitions (bc_bus c)" using deliver_frame(1)[OF consume_deliver(4)] by (simp add: same_bus_def)
  with consume_deliver stages[OF consume_deliver(2), of "(p, if draining then Draining else Consuming)"] show ?thesis by (simp add: bus_work_def split: if_splits)
next
  note stages = sum_list_update_nat[where f = "\<lambda>ps. stage_weight (snd ps)"]
  case (consume_shutdown i p)
  with stages[OF consume_shutdown(2), of "(p, Draining)"] show ?thesis by (simp add: bus_work_def)
next
  note stages = sum_list_update_nat[where f = "\<lambda>ps. stage_weight (snd ps)"]
  case (consume_drained i p)
  with stages[OF consume_drained(2), of "(p, Returned None)"] show ?thesis by (simp add: bus_work_def)
qed

lemma send_work:
  assumes "bus_inv c" and "i < length (bc_senders c)" and "bc_senders c ! i = Selecting key v" and "send_select ToPartition None key v (bc_bus c) = Some (None, b)"
  shows "bus_work (c\<lparr>bc_bus := b, bc_senders := (bc_senders c)[i := Leaving], bc_sent := f\<rparr>) < bus_work c"
proof -
  have "b = push (PartitionFor (bc_bus c) key) v (bc_bus c)" using send_select_cases[OF assms(4)] by simp
  moreover have "PartitionFor (bc_bus c) key < length (bus_partitions (bc_bus c))" using PartitionFor_range assms(1) by (auto simp: bus_inv_def)
  ultimately show ?thesis using sum_list_update_nat[OF assms(2), of sender_weight Leaving] assms(3) by (simp add: bus_work_def push_def concat_push)
qed

lemma leave_work:
  assumes "i < length (bc_senders c)" and "bc_senders c ! i = Leaving"
  shows "bus_work (c\<lparr>bc_bus := leaveSend (bc_bus c), bc_senders := take i (bc_senders c) @ drop (Suc i) (bc_senders c)\<rparr>) < bus_work c"
  using sum_list_remove_nat[OF assms(1), of sender_weight] assms(2) by (simp add: bus_work_def leaveSend_def)

lemma collects:
  assumes "rt_inv r" and "sequence_room (rt_source r)" and "collect_windows everything now (rt_source r) = (ws, a)"
  shows "\<exists>us. ws = Inr us"
proof -
  obtain incl where "collect sketch_ops incl (rt_source r) = (ws, a)" using collect_windows_collect[of everything now "rt_source r"] assms(3) by auto
  moreover obtain A where "source_ok (rt_source r)" "split_ok (rt_source r) (sent_of (rt_windows r)) (bw_events (bc_world (rt_batches r))) A" using assms(1) by (auto simp: rt_inv_def aggregate_ok_def)
  ultimately show ?thesis using collect_splits[OF _ assms(2)] by blast
qed

text \<open>Every step takes work away, or moves the stopping goroutine on.\<close>

lemma progress_work:
  assumes "progress met1 met2 everything r r'" and "rt_inv r"
  shows "rank (rt_pc r) < rank (rt_pc r') \<or> rt_pc r' = rt_pc r \<and> rt_work r' < rt_work r"
proof -
  have inv: "control_ok r" "buses_ok r" "bus_inv (rt_batches r)" "bus_inv (rt_windows r)" using assms(2) by (auto simp: rt_inv_def buses_ok_def)
  have step: "rt_step met1 met2 everything r r'" and quiet: "length (bc_senders (rt_batches r')) \<le> length (bc_senders (rt_batches r))"
    "rt_emission r = Resting \<longrightarrow> rt_emission r' = Resting \<or> rt_pc r' \<noteq> rt_pc r" using assms(1) by (auto simp: progress_def)
  have open1: "rt_agents r > 0 \<Longrightarrow> bc_closer (rt_batches r) = Open" by (rule sending_open[OF inv(1)])
  from step show ?thesis
  proof cases
    case (agent_refused b)
    then show ?thesis using open_sends(1)[of "rt_batches r"] open1 inv(2) by (simp add: buses_ok_def)
  next
    case (agent_fails i key v br err b)
    then have "0 < rt_agents r" using inv(1) by (auto simp: control_ok_def)
    then show ?thesis using open_sends(2)[of "rt_batches r"] open1 inv(2) agent_fails by (auto simp: buses_ok_def)
  next
    case (window_refused pn w ws b)
    then show ?thesis using open_sends(1)[of "rt_windows r"] emitting_open[OF inv(1)] inv(2) by (simp add: buses_ok_def)
  next
    case (window_fails w pn i key v br err b)
    then show ?thesis using open_sends(2)[of "rt_windows r"] emitting_open[OF inv(1)] inv(2) by (auto simp: buses_ok_def)
  next
    case (agent_sends i key v b p)
    then show ?thesis using send_work[OF inv(3) agent_sends(2-4), of "(bc_sent (rt_batches r))(p := bc_sent (rt_batches r) p @ [v])"] by (simp add: rt_work_def)
  next
    case (agent_leaves i)
    then show ?thesis using leave_work[OF agent_leaves(2,3)] by (simp add: rt_work_def)
  next
    case (consume c)
    then show ?thesis using consume_work[OF consume(2) inv(3)] by (simp add: rt_work_def)
  next
    case (persist c)
    then show ?thesis using consume_work[OF persist(2) inv(4)] by (simp add: rt_work_def)
  next
    case (window_sent w pn i key v b p)
    then show ?thesis using send_work[OF inv(4) window_sent(3-5), of "(bc_sent (rt_windows r))(p := bc_sent (rt_windows r) p @ [v])"] by (simp add: rt_work_def window_accepted_def)
  next
    case (window_leaves pn i)
    then show ?thesis using leave_work[OF window_leaves(3,4)] by (simp add: rt_work_def)
  next
    case (window_enters pn w ws b)
    then show ?thesis by (auto simp: rt_work_def bus_work_def enterSend_def split: if_splits)
  next
    case (tick now ws a)
    have "\<exists>us. ws = Inr us" by (rule collects[OF assms(2) tick(4,5)])
    then show ?thesis using tick quiet(2) by (auto simp: begin_publication_def rt_work_def set_source_def set_service_def bus_work_def split: sum.splits)
  qed (use quiet(1) in \<open>auto simp: rt_work_def bus_work_def set_source_def set_service_def\<close>)
qed

section \<open>Nobody is stuck\<close>

text \<open>Channels have room for a value, which is settled when they are made.\<close>

definition roomy :: "('a, 's) bus_conf \<Rightarrow> bool" where
  "roomy c \<longleftrightarrow> 0 < bcf_Capacity (bus_config (bc_bus c))"

lemma bus_step_roomy: "bus_step handler c c' \<Longrightarrow> roomy c \<Longrightarrow> roomy c'"
proof (induction rule: bus_step.induct)
  case (consumer_deliver i c p v draining cx b w)
  from deliver_frame(1)[OF consumer_deliver(3)] consumer_deliver(4) show ?case by (simp add: roomy_def same_bus_def)
qed (auto simp: roomy_def bus_op_defs pop_Some split: if_splits dest!: send_select_cases)

definition live_inv :: "('m, 'n) runtime \<Rightarrow> bool" where
  "live_inv r \<longleftrightarrow> rt_inv r \<and> roomy (rt_batches r) \<and> roomy (rt_windows r)"

lemma rt_step_live:
  assumes "rt_step met1 met2 everything r r'" and "live_inv r"
  shows "live_inv r'"
proof -
  have inv: "rt_inv r" "control_ok r" "roomy (rt_batches r)" "roomy (rt_windows r)" using assms(2) by (simp_all add: live_inv_def rt_inv_def)
  have "roomy (rt_batches r')" using rt_step_batches[OF assms(1) inv(2)] inv(3) by (auto simp: roomy_def dest: bus_step_roomy[unfolded roomy_def])
  moreover have "roomy (rt_windows r')" using rt_step_windows[OF assms(1) inv(2)] inv(4) by (auto dest: bus_step_roomy)
  ultimately show ?thesis using rt_step_inv[OF assms(1) inv(1)] by (simp add: live_inv_def)
qed

lemma consumer_moves:
  assumes "bus_inv c" and "group_ok c" and "(bus_shutdown (bc_bus c) \<and> \<not> group_returned c) \<or> (\<exists>p < length (bus_partitions (bc_bus c)). bus_partitions (bc_bus c) ! p \<noteq> [])"
  shows "\<exists>c'. consume_step handler c c'"
proof -
  have "\<exists>i p st. i < length (bc_consumers c) \<and> bc_consumers c ! i = (p, st) \<and> (\<nexists>e. st = Returned e) \<and> (bus_shutdown (bc_bus c) \<or> bus_partitions (bc_bus c) ! p \<noteq> [])"
    using assms(3)
  proof
    assume shut: "bus_shutdown (bc_bus c) \<and> \<not> group_returned c"
    then obtain i where "i < length (bc_consumers c)" "\<nexists>e. snd (bc_consumers c ! i) = Returned e" by (auto simp: group_returned_iff)
    with shut show ?thesis by (metis prod.collapse)
  next
    assume "\<exists>p < length (bus_partitions (bc_bus c)). bus_partitions (bc_bus c) ! p \<noteq> []"
    then obtain p where p: "p < length (bus_partitions (bc_bus c))" "bus_partitions (bc_bus c) ! p \<noteq> []" by blast
    have n: "map fst (bc_consumers c) = [0..<length (bus_partitions (bc_bus c))]" using assms(2) by (simp add: group_ok_def)
    then have i: "p < length (bc_consumers c)" "fst (bc_consumers c ! p) = p" using p(1) by (metis length_map length_upt minus_nat.diff_0, metis add_0 length_map length_upt minus_nat.diff_0 nth_map nth_upt)
    have "(p, snd (bc_consumers c ! p)) \<in> set (bc_consumers c)" using i by (metis nth_mem prod.collapse)
    then have "\<nexists>e. snd (bc_consumers c ! p) = Returned e" using assms(1,2) p(2) by (fastforce simp: bus_inv_def stage_ok_def group_ok_def)
    with i p(2) show ?thesis by (metis prod.collapse)
  qed
  then obtain i p st where i: "i < length (bc_consumers c)" "bc_consumers c ! i = (p, st)" "\<nexists>e. st = Returned e" "bus_shutdown (bc_bus c) \<or> bus_partitions (bc_bus c) ! p \<noteq> []" by blast
  have take: "\<exists>c'. consume_step handler c c'" if "st = (if draining then Draining else Consuming)" "pop p (bc_bus c) = Some vb" for draining vb
  proof -
    obtain v b where "vb = (v, b)" by fastforce
    with consume_take[OF i(1) i(2)[unfolded that(1)]] that(2) show ?thesis by blast
  qed
  show ?thesis
  proof (cases st)
    case (Holding v draining)
    obtain b w where "deliver (\<lambda>_. None) handler v (bc_bus c, bc_world c) = (b, w)" by fastforce
    with consume_deliver[OF i(1) i(2)[unfolded Holding]] show ?thesis by blast
  next
    case Consuming
    show ?thesis
    proof (cases "pop p (bc_bus c)")
      case None
      then have "bus_shutdown (bc_bus c)" using i(4) by (simp add: pop_None)
      with consume_shutdown[OF i(1) i(2)[unfolded Consuming]] show ?thesis by blast
    qed (use take[of False] Consuming in simp)
  next
    case Draining
    show ?thesis
    proof (cases "pop p (bc_bus c)")
      case None
      with consume_drained[OF i(1) i(2)[unfolded Draining]] show ?thesis by blast
    qed (use take[of True] Draining in simp)
  qed (use i(3) in simp)
qed

text \<open>A sender that waits has room, or a consumer has something to take.\<close>

lemma sender_moves:
  assumes "bus_inv c" and "group_ok c" and "roomy c"
  shows "(\<exists>b. send_select ToPartition None key v (bc_bus c) = Some (None, b)) \<or> (\<exists>c'. consume_step handler c c')"
proof (cases "int (length (bus_partitions (bc_bus c) ! PartitionFor (bc_bus c) key)) < bcf_Capacity (bus_config (bc_bus c))")
  case False
  have "PartitionFor (bc_bus c) key < length (bus_partitions (bc_bus c))" using PartitionFor_range assms(1) by (auto simp: bus_inv_def)
  moreover have "bus_partitions (bc_bus c) ! PartitionFor (bc_bus c) key \<noteq> []" using False assms(3) by (auto simp: roomy_def)
  ultimately show ?thesis using consumer_moves[OF assms(1,2)] by blast
qed (simp add: send_select_def)

lemma emission_can_step:
  assumes "live_inv r" and "rt_pc r \<noteq> Running" and "rt_emission r \<noteq> Resting"
  shows "\<exists>r'. progress met1 met2 everything r r'"
proof -
  have inv: "control_ok r" "buses_ok r" "group_ok (rt_windows r)" "roomy (rt_windows r)" using assms(1) by (simp_all add: live_inv_def rt_inv_def)
  have bus: "bus_inv (rt_windows r)" "closing_ok (bc_bus (rt_windows r))" using inv(2) by (simp_all add: buses_ok_def)
  have senders: "bc_senders (rt_windows r) = senders_of (rt_emission r)" using inv(1) by (simp add: control_ok_def)
  show ?thesis
  proof (cases "rt_emission r")
    case (Offering pn)
    show ?thesis
    proof (cases "pn_todo pn")
      case Nil
      from publication_ends[OF Offering Nil] Offering assms(2) show ?thesis unfolding progress_def by (fastforce simp: set_service_def)
    next
      case (Cons w ws)
      have "fst (enterSend (bc_bus (rt_windows r)))" by (rule open_sends(1)[OF bus emitting_open[OF inv(1) assms(3)]])
      then obtain b where "enterSend (bc_bus (rt_windows r)) = (True, b)" by (metis eq_fst_iff)
      from window_enters[OF Offering Cons this] Offering assms(2) show ?thesis unfolding progress_def by fastforce
    qed
  next
    case (Sending w pn)
    let ?key = "CorrelationKey_ShardTag (w_Key w)"
    have s: "0 < length (bc_senders (rt_windows r))" "bc_senders (rt_windows r) ! 0 = Selecting ?key w" using senders Sending by (simp_all add: senders_of_def)
    from sender_moves[OF bus(1) inv(3,4), of ?key w "window_handler met2"] show ?thesis
    proof
      assume "\<exists>b. send_select ToPartition None ?key w (bc_bus (rt_windows r)) = Some (None, b)"
      then obtain b where "send_select ToPartition None ?key w (bc_bus (rt_windows r)) = Some (None, b)" by blast
      from window_sent[OF Sending s this refl] Sending assms(2) show ?thesis unfolding progress_def by fastforce
    next
      assume "\<exists>c'. consume_step (window_handler met2) (rt_windows r) c'"
      then obtain c' where "consume_step (window_handler met2) (rt_windows r) c'" by blast
      from persist[OF this] Sending assms(2) show ?thesis unfolding progress_def by fastforce
    qed
  next
    case (Returning pn)
    have s: "0 < length (bc_senders (rt_windows r))" "bc_senders (rt_windows r) ! 0 = Leaving" using senders Returning by (simp_all add: senders_of_def)
    from window_leaves[OF Returning s] Returning assms(2) show ?thesis unfolding progress_def by fastforce
  qed (use assms(3) in simp)
qed

lemma agents_can_step:
  assumes "live_inv r" and "rt_pc r = WaitAgents"
  shows "\<exists>r'. progress met1 met2 everything r r'"
proof -
  have inv: "control_ok r" "bus_inv (rt_batches r)" "group_ok (rt_batches r)" "roomy (rt_batches r)" using assms(1) by (simp_all add: live_inv_def rt_inv_def buses_ok_def)
  have pc: "rt_pc r \<noteq> Running" using assms(2) by simp
  show ?thesis
  proof (cases "bc_senders (rt_batches r)")
    case Nil
    then show ?thesis using agents_waited[OF assms(2), of met1 met2 everything] agent_returns[of r met1 met2 everything] pc unfolding progress_def by (cases "rt_agents r = 0") fastforce+
  next
    case (Cons s ss)
    then have i: "0 < length (bc_senders (rt_batches r))" by simp
    show ?thesis
    proof (cases "bc_senders (rt_batches r) ! 0")
      case Leaving
      from agent_leaves[OF i this] i pc show ?thesis unfolding progress_def by fastforce
    next
      case (Selecting key v)
      from sender_moves[OF inv(2-4), of key v "batch_handler met1"] show ?thesis
      proof
        assume "\<exists>b. send_select ToPartition None key v (bc_bus (rt_batches r)) = Some (None, b)"
        then obtain b where "send_select ToPartition None key v (bc_bus (rt_batches r)) = Some (None, b)" by blast
        from agent_sends[OF i Selecting this refl] pc show ?thesis unfolding progress_def by fastforce
      next
        assume "\<exists>c'. consume_step (batch_handler met1) (rt_batches r) c'"
        then obtain c' where c': "consume_step (batch_handler met1) (rt_batches r) c'" by blast
        from consume[OF c'] consume_frame(1)[OF c'] pc show ?thesis unfolding progress_def by fastforce
      qed
    qed
  qed
qed

text \<open>The bus the stopping goroutine waits on: a consumer that has not returned can take a step, as the bus is shut down.\<close>

lemma batches_can_step:
  assumes "live_inv r" and pc: "rt_pc r = WaitConsumers"
  shows "\<exists>r'. progress met1 met2 everything r r'"
proof (cases "group_returned (rt_batches r)")
  case True
  from consumers_waited[OF pc True] pc show ?thesis unfolding progress_def by fastforce
next
  case False
  have inv: "control_ok r" "bus_inv (rt_batches r)" "group_ok (rt_batches r)" using assms(1) by (simp_all add: live_inv_def rt_inv_def buses_ok_def)
  then have "bus_shutdown (bc_bus (rt_batches r))" using pc by (simp add: control_ok_def bus_inv_def close_ok_def)
  with False obtain c' where c': "consume_step (batch_handler met1) (rt_batches r) c'" using consumer_moves[OF inv(2,3)] by blast
  from consume[OF c'] consume_frame(1)[OF c'] pc show ?thesis unfolding progress_def by fastforce
qed

lemma windows_can_step:
  assumes "live_inv r" and pc: "rt_pc r = WaitPersisted"
  shows "\<exists>r'. progress met1 met2 everything r r'"
proof (cases "group_returned (rt_windows r)")
  case True
  from persisted_waited[OF pc True] pc show ?thesis unfolding progress_def by fastforce
next
  case False
  have inv: "control_ok r" "bus_inv (rt_windows r)" "group_ok (rt_windows r)" using assms(1) by (simp_all add: live_inv_def rt_inv_def buses_ok_def)
  then have "bus_shutdown (bc_bus (rt_windows r))" using pc by (simp add: control_ok_def bus_inv_def close_ok_def)
  with False obtain c' where c': "consume_step (window_handler met2) (rt_windows r) c'" using consumer_moves[OF inv(2,3)] by blast
  from persist[OF c'] pc show ?thesis unfolding progress_def by fastforce
qed

lemma emitter_can_step:
  assumes "live_inv r" and pc: "rt_pc r = WaitEmitter" and room: "sequence_room (rt_source r)"
  shows "\<exists>r'. progress met1 met2 everything r r'"
proof -
  consider "rt_emission r \<noteq> Resting" | "rt_emission r = Resting" "rt_emitter r" | "\<not> rt_emitter r" by blast
  then show ?thesis
  proof cases
    case 1
    show ?thesis by (rule emission_can_step[OF assms(1) _ 1]) (simp add: pc)
  next
    case 2
    have "rt_emitStop r" using assms(1) pc by (simp add: control_ok_def live_inv_def rt_inv_def)
    from emitter_returns[OF 2(2) this 2(1)] 2 pc show ?thesis unfolding progress_def by fastforce
  next
    case 3
    obtain ws a where "CollectAll sketch_ops (rt_source r) = (ws, a)" by fastforce
    from emitter_waited[OF pc 3 _ this] room pc show ?thesis unfolding progress_def by (fastforce simp: set_source_def set_service_def)
  qed
qed

lemma progress_possible:
  assumes "live_inv r" and "rt_pc r \<noteq> Running" and "rt_pc r \<noteq> Stopped" and "rt_pc r = WaitEmitter \<longrightarrow> sequence_room (rt_source r)"
  shows "\<exists>r'. progress met1 met2 everything r r'"
proof -
  have inv: "control_ok r" "bus_inv (rt_batches r)" "bus_inv (rt_windows r)" using assms(1) by (simp_all add: live_inv_def rt_inv_def buses_ok_def)
  note emit = emission_can_step[OF assms(1,2), of met1 met2 everything]
  show ?thesis
  proof (cases "rt_pc r")
    case WaitAgents
    then show ?thesis by (rule agents_can_step[OF assms(1)])
  next
    case ClosingBatches
    then have "\<not> 0 < bus_inflight (bc_bus (rt_batches r))" using inv(1,2) by (auto simp: control_ok_def bus_inv_def close_ok_def)
    from batches_closed[OF ClosingBatches this] ClosingBatches show ?thesis unfolding progress_def by fastforce
  next
    case WaitConsumers
    then show ?thesis by (rule batches_can_step[OF assms(1)])
  next
    case WaitEmitter
    then show ?thesis using assms(4) by (intro emitter_can_step[OF assms(1)]) simp_all
  next
    case FinalEmit
    then show ?thesis using emit final_emitted[OF FinalEmit, of met1 met2 everything] unfolding progress_def by (cases "rt_emission r = Resting") fastforce+
  next
    case ClosingWindows
    then have "bc_senders (rt_windows r) = []" using inv(1) by (auto simp: control_ok_def senders_of_def split: emission.splits)
    then have "\<not> 0 < bus_inflight (bc_bus (rt_windows r))" using inv(3) by (simp add: bus_inv_def close_ok_def)
    from windows_closed[OF ClosingWindows this] ClosingWindows show ?thesis unfolding progress_def by fastforce
  next
    case WaitPersisted
    then show ?thesis by (rule windows_can_step[OF assms(1)])
  qed (use assms(2,3) in simp_all)
qed

section \<open>Properties\<close>

text \<open>Steps go down in a well-founded order: first the place of the stopping goroutine, then the work left.\<close>

lemma progress_wf: "wfP (\<lambda>r' r. live_inv r \<and> progress met1 met2 everything r r')"
proof -
  let ?m = "\<lambda>r. (8 - rank (rt_pc r), rt_work r)"
  have "rank pc \<le> 8" for pc by (cases pc) simp_all
  then have "{(r', r). live_inv r \<and> progress met1 met2 everything r r'} \<subseteq> inv_image (less_than <*lex*> less_than) ?m"
    using progress_work by (fastforce simp: live_inv_def less_diff_conv2 intro: diff_less_mono2 order.strict_trans2)
  then show ?thesis unfolding wfp_def by (rule wf_subset[rotated]) (simp add: wf_inv_image wf_lex_prod)
qed

lemma progress_live: "(progress met1 met2 everything)\<^sup>*\<^sup>* r r' \<Longrightarrow> live_inv r \<Longrightarrow> rt_pc r \<noteq> Running \<Longrightarrow> live_inv r' \<and> rt_pc r' \<noteq> Running"
proof (induction rule: rtranclp_induct)
  case (step r1 r2)
  then have r1: "live_inv r1" "rt_pc r1 \<noteq> Running" "rt_step met1 met2 everything r1 r2" by (auto simp: progress_def)
  have "rank (rt_pc r1) \<le> rank (rt_pc r2)" using progress_work[OF step(2)] r1(1) by (auto simp: live_inv_def)
  moreover have "rank (rt_pc r1) \<noteq> 0" using r1(2) by (cases "rt_pc r1") simp_all
  ultimately have "rt_pc r2 \<noteq> Running" by auto
  with rt_step_live[OF r1(3,1)] show ?case by simp
qed simp

lemma rt_start_live:
  assumes "NewAggregator now c = Inr a0" and "in_i64 (cfg_SequenceSeed c)" and "cfg_NewSketch c = None" and "NewBus cfg1 = Inr bb" and "NewBus cfg2 = Inr wb"
    and "(rt_step met1 met2 everything)\<^sup>*\<^sup>* (rt_start a0 bb wb agents m n) r"
  shows "live_inv r"
proof -
  have "0 \<le> cfg_RelativeAccuracy c" using assms(1) by (auto simp: NewAggregator_def Let_def AggConfig_validate_def split: if_splits option.splits)
  from rt_start_inv[OF NewAggregator_source[OF assms(1-3) this] assms(4,5)] NewBus_fields[OF assms(4)] NewBus_fields[OF assms(5)]
  have "live_inv (rt_start a0 bb wb agents m n)" by (auto simp: live_inv_def roomy_def rt_start_def group_started_def bus_initial_def)
  with assms(6) show ?thesis by (induction rule: rtranclp_induct) (auto intro: rt_step_live)
qed

text \<open>
  Property C20 (\<open>Stop\<close> returns). Whatever the state in which stopping began, as long as no agent begins another send and the emitter no other emission, there is no infinite run, and a run that cannot go on has brought \<open>Stop\<close> to its end; the only
  other way to be at rest is that the 64-bit sequence numbers of windows are used up before the final emission. So agents, consumers, emitter and the goroutine that stops them never block each other.
\<close>

theorem stop_returns:
  assumes "NewAggregator now c = Inr a0" and "in_i64 (cfg_SequenceSeed c)" and "cfg_NewSketch c = None" and "NewBus cfg1 = Inr bb" and "NewBus cfg2 = Inr wb"
    and "(rt_step met1 met2 everything)\<^sup>*\<^sup>* (rt_start a0 bb wb agents m n) r" and "rt_pc r \<noteq> Running"
  shows "(\<nexists>f. f 0 = r \<and> (\<forall>i. progress met1 met2 everything (f i) (f (Suc i)))) \<and>
    (\<forall>r'. (progress met1 met2 everything)\<^sup>*\<^sup>* r r' \<longrightarrow> (\<nexists>r''. progress met1 met2 everything r' r'') \<longrightarrow>
       rt_pc r' = Stopped \<or> rt_pc r' = WaitEmitter \<and> \<not> sequence_room (rt_source r'))"
proof -
  have live: "live_inv r" by (rule rt_start_live[OF assms(1-6)])
  have "\<not> (\<forall>i. progress met1 met2 everything (f i) (f (Suc i)))" if "f 0 = r" for f
  proof
    assume run: "\<forall>i. progress met1 met2 everything (f i) (f (Suc i))"
    have "(progress met1 met2 everything)\<^sup>*\<^sup>* r (f i)" for i by (induction i) (auto simp: that run intro: rtranclp.rtrancl_into_rtrancl)
    then have "live_inv (f i)" for i using progress_live live assms(7) by blast
    with run progress_wf[of met1 met2 everything] show False unfolding wfp_def wf_iff_no_infinite_down_chain by blast
  qed
  moreover have "rt_pc r' = Stopped \<or> rt_pc r' = WaitEmitter \<and> \<not> sequence_room (rt_source r')"
    if "(progress met1 met2 everything)\<^sup>*\<^sup>* r r'" "\<nexists>r''. progress met1 met2 everything r' r''" for r'
    using progress_possible[of r' met1 met2 everything] progress_live[OF that(1) live assms(7)] that(2) by blast
  ultimately show ?thesis by blast
qed

text \<open>From the final emission on, the end can be reached.\<close>

lemma stop_reachable:
  assumes "live_inv r" and "5 \<le> rank (rt_pc r)"
  shows "\<exists>r'. (rt_step met1 met2 everything)\<^sup>*\<^sup>* r r' \<and> rt_pc r' = Stopped"
  using progress_wf[of met1 met2 everything] assms
proof (induction r rule: wfp_induct_rule)
  case (less r)
  show ?case
  proof (cases "rt_pc r = Stopped")
    case False
    have "rt_pc r \<noteq> Running" "rt_pc r \<noteq> WaitEmitter" using less.prems(2) by auto
    with progress_possible[OF less.prems(1)] False obtain r1 where r1: "progress met1 met2 everything r r1" by blast
    then have step: "rt_step met1 met2 everything r r1" by (simp add: progress_def)
    have "5 \<le> rank (rt_pc r1)" using progress_work[OF r1] less.prems by (auto simp: live_inv_def)
    from less.IH[OF conjI[OF less.prems(1) r1] rt_step_live[OF step less.prems(1)] this] step show ?thesis by (meson converse_rtranclp_into_rtranclp)
  qed auto
qed

text \<open>Once the consumers of batches have returned, the aggregator absorbs nothing more.\<close>

lemma absorbed_settled:
  assumes "(rt_step met1 met2 everything)\<^sup>*\<^sup>* r r'" and "live_inv r" and "group_returned (rt_batches r)"
  shows "group_returned (rt_batches r') \<and> bw_events (bc_world (rt_batches r')) = bw_events (bc_world (rt_batches r)) \<and> bw_handled (bc_world (rt_batches r')) = bw_handled (bc_world (rt_batches r))"
  using assms(1)
proof (induction rule: rtranclp_induct)
  case (step r1 r2)
  from step(2) show ?case
  proof cases
    case (consume c)
    with consume_frame(4)[OF consume(2)] step(3) show ?thesis by simp
  qed (use step(3) in \<open>auto simp: group_returned_def set_source_def set_service_def\<close>)
qed (simp add: assms(3))

definition ex_new_bus :: "'a Bus" where
  "ex_new_bus = (case NewBus ex_bus_config of Inr b \<Rightarrow> b | Inl _ \<Rightarrow> undefined)"

lemma ex_new_bus_new: "NewBus ex_bus_config = Inr ex_new_bus"
  by (simp add: ex_new_bus_def NewBus_def ex_bus_config_def BusConfig_validate_def Let_def)

lemma ex_new_bus_fields:
  "ex_new_bus = \<lparr>bus_config = \<lparr>bcf_Partitions = 1, bcf_Capacity = 2, bcf_MaxAttempts = 1\<rparr>, bus_partitions = [[]], bus_claimed = [False], bus_deadLetter = [], bus_partitionCount = 1,
     bus_closing = False, bus_shutdown = False, bus_inflight = 0, bus_closed = False, bus_published = 0, bus_delivered = 0, bus_retried = 0, bus_dead = 0, bus_abandoned = 0\<rparr>"
  by (simp add: ex_new_bus_def NewBus_def ex_bus_config_def BusConfig_validate_def Let_def)

text \<open>One agent sends a batch of two events and returns; the batch is consumed and stopping begins.\<close>

definition ex_bus_at :: "Batch list list \<Rightarrow> int \<Rightarrow> nat \<Rightarrow> int \<Rightarrow> int \<Rightarrow> Batch Bus" where
  "ex_bus_at parts inflight fin published delivered =
     ex_new_bus\<lparr>bus_partitions := parts, bus_inflight := inflight, bus_closed := (0 < fin), bus_closing := (0 < fin), bus_shutdown := (1 < fin), bus_published := published, bus_delivered := delivered\<rparr>"

definition ex_conf :: "Batch Bus \<Rightarrow> Batch sender list \<Rightarrow> Batch stage \<Rightarrow> closer \<Rightarrow> unit batch_world \<Rightarrow> Batch list \<Rightarrow> Batch list \<Rightarrow> (Batch, unit batch_world) bus_conf" where
  "ex_conf bus ss st cl w sent taken = \<lparr>bc_bus = bus, bc_senders = ss, bc_consumers = [(0, st)], bc_closer = cl, bc_world = w, bc_sent = (\<lambda>_. [])(0 := sent), bc_taken = (\<lambda>_. [])(0 := taken)\<rparr>"

definition ex_rt :: "shutdown_pc \<Rightarrow> (Batch, unit batch_world) bus_conf \<Rightarrow> nat \<Rightarrow> bool \<Rightarrow> bool \<Rightarrow> (unit, unit) runtime" where
  "ex_rt pc c agents emitter stopped = (rt_start ex_aggregator ex_new_bus ex_new_bus 1 () ())\<lparr>rt_pc := pc, rt_batches := c, rt_agents := agents, rt_emitter := emitter, rt_emitStop := stopped\<rparr>"

definition ex_world :: "unit batch_world" where
  "ex_world = \<lparr>bw_service = NewAggService ex_aggregator () (), bw_events = [], bw_handled = []\<rparr>"

lemmas ex_rt_defs = ex_rt_def ex_conf_def ex_bus_at_def rt_start_def group_started_def bus_initial_def ex_new_bus_fields

lemma ex_handled:
  obtains w where "batch_handler None ex_batch ex_world = (None, w)" "bw_events w = [ex_event, ex_event]" "bw_handled w = [ex_batch]" "sequence_room (as_source (bw_service w))"
proof -
  obtain s1 where s1: "Agg_HandleBatch (aggregator_source sketch_ops) None None ex_batch (NewAggService ex_aggregator () ()) = (None, s1)" "sequence_room (as_source s1)"
    by (rule ex_consumed)
  then have "batch_handler None ex_batch ex_world = (None, \<lparr>bw_service = s1, bw_events = [ex_event, ex_event], bw_handled = [ex_batch]\<rparr>)"
    using ex_batch_absorbed by (simp add: batch_handler_def NewAggService_def ex_world_def)
  from that[OF this] s1(2) show ?thesis by simp
qed

lemma rt_chain: "rt_step met1 met2 everything r r1 \<Longrightarrow> (rt_step met1 met2 everything)\<^sup>*\<^sup>* r1 r2 \<Longrightarrow> (rt_step met1 met2 everything)\<^sup>*\<^sup>* r r2"
  by (rule converse_rtranclp_into_rtranclp)

lemma ex_batch_consumed:
  assumes "batch_handler None ex_batch ex_world = (None, w)"
  shows "(rt_step None None False)\<^sup>*\<^sup>* (rt_start ex_aggregator ex_new_bus ex_new_bus 1 () ()) (ex_rt Running (ex_conf (ex_bus_at [[]] 0 0 1 1) [] Consuming Open w [ex_batch] [ex_batch]) 0 True False)"
proof -
  let ?S = "rt_step None None False :: (unit, unit) runtime \<Rightarrow> (unit, unit) runtime \<Rightarrow> bool"
  let ?rax = "ex_rt Running (ex_conf (ex_bus_at [[]] 0 0 0 0) [] Consuming Open ex_world [] []) 1 True False"
  let ?rbx = "ex_rt Running (ex_conf (ex_bus_at [[]] 1 0 0 0) [Selecting [] ex_batch] Consuming Open ex_world [] []) 1 True False"
  let ?rcx = "ex_rt Running (ex_conf (ex_bus_at [[ex_batch]] 1 0 1 0) [Leaving] Consuming Open ex_world [ex_batch] []) 1 True False"
  let ?rdx = "ex_rt Running (ex_conf (ex_bus_at [[ex_batch]] 0 0 1 0) [] Consuming Open ex_world [ex_batch] []) 1 True False"
  let ?rex = "ex_rt Running (ex_conf (ex_bus_at [[]] 0 0 1 0) [] (Holding ex_batch False) Open ex_world [ex_batch] [ex_batch]) 1 True False"
  let ?rfx = "ex_rt Running (ex_conf (ex_bus_at [[]] 0 0 1 1) [] Consuming Open w [ex_batch] [ex_batch]) 1 True False"
  let ?rgx = "ex_rt Running (ex_conf (ex_bus_at [[]] 0 0 1 1) [] Consuming Open w [ex_batch] [ex_batch]) 0 True False"
  have start: "rt_start ex_aggregator ex_new_bus ex_new_bus 1 () () = ?rax" by (simp add: ex_rt_defs ex_world_def) auto
  have 1: "?S ?rax ?rbx"
    using agent_enters[of ?rax "ex_bus_at [[]] 1 0 0 0" None None False "[]" ex_batch] by (simp add: ex_rt_defs enterSend_def)
  have 2: "?S ?rbx ?rcx"
    using agent_sends[of 0 ?rbx "[]" ex_batch "ex_bus_at [[ex_batch]] 1 0 1 0" 0 None None False] by (simp add: ex_rt_defs send_select_def push_def ex_PartitionFor wrap64_def)
  have 3: "?S ?rcx ?rdx"
    using agent_leaves[of 0 ?rcx None None False] by (simp add: ex_rt_defs leaveSend_def)
  have 4: "?S ?rdx ?rex"
    using consume[OF consume_take[of 0 "rt_batches ?rdx" 0 False ex_batch "ex_bus_at [[]] 0 0 1 0"], of None None False] by (simp add: ex_rt_defs pop_def)
  have 5: "?S ?rex ?rfx"
    using consume[OF consume_deliver[of 0 "rt_batches ?rex" 0 ex_batch False "batch_handler None" "ex_bus_at [[]] 0 0 1 1" w], of None False] assms by (simp add: ex_rt_defs deliver_def wrap64_def)
  have 6: "?S ?rfx ?rgx"
    using agent_returns[of ?rfx None None False] by (simp add: ex_rt_defs)
  show ?thesis unfolding start
    by (rule rt_chain[OF 1], rule rt_chain[OF 2], rule rt_chain[OF 3], rule rt_chain[OF 4],
        rule rt_chain[OF 5], rule rt_chain[OF 6], rule rtranclp.rtrancl_refl)
qed

lemma ex_consumers_stop:
  "(rt_step None None False)\<^sup>*\<^sup>* (ex_rt Running (ex_conf (ex_bus_at [[]] 0 0 1 1) [] Consuming Open w [ex_batch] [ex_batch]) 0 True False) (ex_rt WaitEmitter (ex_conf (ex_bus_at [[]] 0 2 1 1) [] (Returned None) Shut w [ex_batch] [ex_batch]) 0 False True)"
proof -
  let ?S = "rt_step None None False :: (unit, unit) runtime \<Rightarrow> (unit, unit) runtime \<Rightarrow> bool"
  let ?rgx = "ex_rt Running (ex_conf (ex_bus_at [[]] 0 0 1 1) [] Consuming Open w [ex_batch] [ex_batch]) 0 True False"
  let ?rhx = "ex_rt WaitAgents (ex_conf (ex_bus_at [[]] 0 0 1 1) [] Consuming Open w [ex_batch] [ex_batch]) 0 True False"
  let ?rix = "ex_rt ClosingBatches (ex_conf (ex_bus_at [[]] 0 1 1 1) [] Consuming WaitingIdle w [ex_batch] [ex_batch]) 0 True False"
  let ?rjx = "ex_rt WaitConsumers (ex_conf (ex_bus_at [[]] 0 2 1 1) [] Consuming Shut w [ex_batch] [ex_batch]) 0 True False"
  let ?rkx = "ex_rt WaitConsumers (ex_conf (ex_bus_at [[]] 0 2 1 1) [] Draining Shut w [ex_batch] [ex_batch]) 0 True False"
  let ?rlx = "ex_rt WaitConsumers (ex_conf (ex_bus_at [[]] 0 2 1 1) [] (Returned None) Shut w [ex_batch] [ex_batch]) 0 True False"
  let ?rmx = "ex_rt WaitEmitter (ex_conf (ex_bus_at [[]] 0 2 1 1) [] (Returned None) Shut w [ex_batch] [ex_batch]) 0 True True"
  let ?rnx = "ex_rt WaitEmitter (ex_conf (ex_bus_at [[]] 0 2 1 1) [] (Returned None) Shut w [ex_batch] [ex_batch]) 0 False True"
  have 7: "?S ?rgx ?rhx"
    using stop_begins[of ?rgx None None False] by (simp add: ex_rt_defs)
  have 8: "?S ?rhx ?rix"
    using agents_waited[of ?rhx None None False] by (simp add: ex_rt_defs Close_begin_def)
  have 9: "?S ?rix ?rjx"
    using batches_closed[of ?rix None None False] by (simp add: ex_rt_defs Close_end_def)
  have 10: "?S ?rjx ?rkx"
    using consume[OF consume_shutdown[of 0 "rt_batches ?rjx" 0], of None None False] by (simp add: ex_rt_defs)
  have 11: "?S ?rkx ?rlx"
    using consume[OF consume_drained[of 0 "rt_batches ?rkx" 0], of None None False] by (simp add: ex_rt_defs pop_def)
  have 12: "?S ?rlx ?rmx"
    using consumers_waited[of ?rlx None None False] by (simp add: ex_rt_defs group_returned_def)
  have 13: "?S ?rmx ?rnx"
    using emitter_returns[of ?rmx None None False] by (simp add: ex_rt_defs)
  show ?thesis
    by (rule rt_chain[OF 7], rule rt_chain[OF 8], rule rt_chain[OF 9], rule rt_chain[OF 10],
        rule rt_chain[OF 11], rule rt_chain[OF 12], rule rt_chain[OF 13], rule rtranclp.rtrancl_refl)
qed

lemma ex_stopping:
  obtains r where "(rt_step None None False)\<^sup>*\<^sup>* (rt_start ex_aggregator ex_new_bus ex_new_bus 1 () ()) r" "rt_pc r = FinalEmit" "group_returned (rt_batches r)"
    "bw_events (bc_world (rt_batches r)) = [ex_event, ex_event]" "bw_handled (bc_world (rt_batches r)) = [ex_batch]"
proof -
  obtain w where w: "batch_handler None ex_batch ex_world = (None, w)" "bw_events w = [ex_event, ex_event]" "bw_handled w = [ex_batch]" "sequence_room (as_source (bw_service w))"
    by (rule ex_handled)
  let ?start = "rt_start ex_aggregator ex_new_bus ex_new_bus 1 () () :: (unit, unit) runtime"
  let ?r = "ex_rt WaitEmitter (ex_conf (ex_bus_at [[]] 0 2 1 1) [] (Returned None) Shut w [ex_batch] [ex_batch]) 0 False True"
  obtain ws a where col: "CollectAll sketch_ops (rt_source ?r) = (ws, a)" by fastforce
  have ready: "rt_pc ?r = WaitEmitter" "\<not> rt_emitter ?r" "sequence_room (rt_source ?r)" using w(4) by (simp_all add: ex_rt_def ex_conf_def)
  let ?q = "(set_source a ?r)\<lparr>rt_pc := FinalEmit, rt_emission := begin_publication ws\<rparr>"
  have final: "rt_step None None False ?r ?q" by (rule emitter_waited[OF ready col])
  have run: "(rt_step None None False)\<^sup>*\<^sup>* ?start ?q" by (rule rtranclp_trans[OF ex_batch_consumed[OF w(1)] rtranclp_trans[OF ex_consumers_stop rt_chain[OF final rtranclp.rtrancl_refl]]])
  have "rt_pc ?q = FinalEmit" "group_returned (rt_batches ?q)" "bw_events (bc_world (rt_batches ?q)) = [ex_event, ex_event]" "bw_handled (bc_world (rt_batches ?q)) = [ex_batch]"
    using w(2,3) by (simp_all add: set_source_def set_service_def ex_rt_def ex_conf_def group_returned_def)
  with run show ?thesis by (rule that)
qed

lemmas ex_started = NewAggregator_ex ex_new_bus_new ex_new_bus_new

lemma ex_seed: "in_i64 (cfg_SequenceSeed ex_config)" "cfg_NewSketch ex_config = None"
  by (simp_all add: ex_config_def in_i64_def MinInt64_def MaxInt64_def)

theorem stop_returns_witness:
  "\<exists>r. (rt_step None None False)\<^sup>*\<^sup>* (rt_start ex_aggregator ex_new_bus ex_new_bus 1 () ()) r \<and> rt_pc r = FinalEmit \<and> (\<nexists>f. f 0 = r \<and> (\<forall>i. progress None None False (f i) (f (Suc i))))"
proof -
  obtain r where r: "(rt_step None None False)\<^sup>*\<^sup>* (rt_start ex_aggregator ex_new_bus ex_new_bus 1 () ()) r" "rt_pc r = FinalEmit" by (rule ex_stopping)
  have "rt_pc r \<noteq> Running" using r(2) by simp
  from stop_returns[OF NewAggregator_ex ex_seed ex_new_bus_new ex_new_bus_new r(1) this] r show ?thesis by blast
qed

theorem stop_loses_nothing_witness:
  "\<exists>r. (rt_step None None False)\<^sup>*\<^sup>* (rt_start ex_aggregator ex_new_bus ex_new_bus 1 () ()) r \<and> rt_pc r = Stopped \<and> bw_handled (bc_world (rt_batches r)) = [ex_batch] \<and>
     wrap64 (dev_total Bytes (deviceKey ''u'' ''d'') (fst (ww_store (bc_world (rt_windows r))))) = 10"
proof -
  let ?start = "rt_start ex_aggregator ex_new_bus ex_new_bus 1 () () :: (unit, unit) runtime"
  obtain q where q: "(rt_step None None False)\<^sup>*\<^sup>* ?start q" "rt_pc q = FinalEmit" "group_returned (rt_batches q)" "bw_events (bc_world (rt_batches q)) = [ex_event, ex_event]"
    "bw_handled (bc_world (rt_batches q)) = [ex_batch]" by (rule ex_stopping)
  have live: "live_inv q" by (rule rt_start_live[OF NewAggregator_ex ex_seed ex_new_bus_new ex_new_bus_new q(1)])
  obtain r where r: "(rt_step None None False)\<^sup>*\<^sup>* q r" "rt_pc r = Stopped" using stop_reachable[OF live, of None None False] q(2) by auto
  have run: "(rt_step None None False)\<^sup>*\<^sup>* ?start r" by (rule rtranclp_trans[OF q(1) r(1)])
  have "bw_events (bc_world (rt_batches r)) = [ex_event, ex_event]" "bw_handled (bc_world (rt_batches r)) = [ex_batch]" using absorbed_settled[OF r(1) live q(3)] q(4,5) by simp_all
  with stop_loses_nothing[OF NewAggregator_ex ex_seed ex_new_bus_new ex_new_bus_new run r(2), of Bytes "deviceKey ''u'' ''d''"] run r(2) show ?thesis
    by (intro exI[of _ r]) (simp add: ex_event_def wrap64_def)
qed

end
