(* ===== verification/Spec2Isabelle.thy ===== *)
theory Spec2Isabelle
  imports Locker Transport BusShutdown Batcher McpTools Sources WindowTyping Pipeline RedisLock RedisRefines RedisWatch ArchiveAgrees Wiring IngestServe McpServe Freshness AgentRun ShutdownEnds
begin

text \<open>
  A verification development for \<^verbatim>\<open>mcp-ironclaw\<close>, a telemetry pipeline written in Go. All paths below are relative to \<^verbatim>\<open>src/\<close>.

  \<^bold>\<open>The program.\<close> An \<^emph>\<open>agent\<close> (\<^verbatim>\<open>agent/\<close>) on each device captures events from the kernel or makes synthetic ones, collects them into batches and posts them over mutual TLS to the \<^emph>\<open>ingest\<close> process
  (\<^verbatim>\<open>ingest/\<close>), keeping what cannot be sent in a spool on disk. Ingest checks who sent a batch and publishes it to a channel, Kafka or an in-process bus. The \<^emph>\<open>aggregator\<close> folds events into tumbling windows, with a sketch
  for percentiles, and emits windows to a second channel; the \<^emph>\<open>persister\<close> applies them to a state store, in memory or in Redis, and an archive in Postgres. The \<^emph>\<open>MCP server\<close> (\<^verbatim>\<open>mcp-server/\<close>) lets tools read and
  watch that state and issue reset commands, each for the users its caller may act for. \<^verbatim>\<open>internal/app\<close> puts these parts together and starts and stops them.

  \<^bold>\<open>How the code is modelled.\<close> A struct is a record with a prefix of its own on the fields, an enumeration a datatype, a method a function that returns the new state beside its result. Errors are values of the type \<open>error\<close>, and
  \<open>Inl\<close> of a sum or \<open>Some\<close> of an option where a call may fail; \<open>errors_Is\<close> follows wrapped errors. \<^verbatim>\<open>int64\<close> is \<open>int\<close> with \<open>wrap64\<close> wherever a sum can leave the range, kernel records and hashes are words, instants are nanoseconds. A
  Go map that is iterated is an association list whose order stands for the order of the iteration. A method that holds a lock is one step. Goroutines are threads of a step relation, or, where only one goroutine acts on a state, a function of what
  its selects observe. A loop whose end depends on the outside is a partial function, and that it returns is proved. Third-party code is a parameter: the Redis and Postgres servers, the Kafka and eBPF libraries, HTTP
  clients, JSON and Protobuf marshalling, certificates, the bearer middleware, clocks and random numbers.

  \<^bold>\<open>The theories.\<close>

    \<^item> \<open>Prelude\<close>, \<open>GoStrings\<close>, \<open>GoTime\<close>: 64-bit arithmetic, errors, association lists; the operations of \<^verbatim>\<open>strconv\<close>, \<^verbatim>\<open>strings\<close> and \<^verbatim>\<open>path/filepath\<close>; RFC 3339. Shared lemmas and simplification rules, among them the round trips of
      formatting and parsing.

    \<^item> \<open>Domain\<close> (\<^verbatim>\<open>internal/domain\<close>): events, batches, windows, states, commands, their validation and identities.

    \<^item> \<open>Sketch\<close> (\<^verbatim>\<open>internal/aggregate/sketch.go\<close>): the sketch, over exact reals. Its answers are within the relative accuracy of the order statistic; merging is exact. The locale \<open>quantile_sketch\<close> is the interface the aggregator uses.

    \<^item> \<open>Aggregator\<close>, \<open>WindowTyping\<close>, \<open>AggregatorService\<close> (\<^verbatim>\<open>internal/aggregate/aggregator.go\<close>, \<^verbatim>\<open>internal/aggregator\<close>): ingest, collection and commit; nothing is lost or counted twice, whatever fails; the service over any
      window source (locale \<open>window_source\<close>, interpreted by the aggregator).

    \<^item> \<open>MemoryStore\<close>, \<open>Locker\<close> (\<^verbatim>\<open>internal/store\<close>): exactly-once counting, resets, isolation of users, watchers, the fenced lock. The locales \<open>state_writer\<close> and \<open>fenced_locker\<close> are the contracts of the stores and locks.

    \<^item> \<open>Services\<close> (\<^verbatim>\<open>internal/persister\<close>, \<^verbatim>\<open>internal/ingest\<close>, \<^verbatim>\<open>internal/commands\<close>).

    \<^item> \<open>Spool\<close>, \<open>Transport\<close>, \<open>HttpIngest\<close>, \<open>Batcher\<close>, \<open>Sources\<close>, \<open>KernelSource\<close> (\<^verbatim>\<open>internal/spool\<close>, \<^verbatim>\<open>internal/transport\<close>, \<^verbatim>\<open>internal/httpingest\<close>, \<^verbatim>\<open>internal/wire/edge.go\<close>, \<^verbatim>\<open>internal/pipeline\<close>, \<^verbatim>\<open>internal/ebpf\<close>): the parts of
      the agent and its way to ingest. The spool refines a bounded queue and survives a crash at any point; draining loses nothing and makes progress; the batcher accounts for every event under each overflow strategy (a locale that the three
      strategies interpret).

    \<^item> \<open>Wire\<close>, \<open>Kafka\<close> (\<^verbatim>\<open>internal/wire/codec.go\<close>, \<^verbatim>\<open>internal/kafkabus\<close>): codecs with their round trips; the consumer commits only what was handled or acknowledged as a dead letter.

    \<^item> \<open>Bus\<close>, \<open>BusShutdown\<close> (\<^verbatim>\<open>internal/bus\<close>): the in-process bus as threads; accounting, order, and a shutdown that drains and ends.

    \<^item> \<open>Server\<close>, \<open>Redis\<close>, \<open>RedisStore\<close>, \<open>RedisScript\<close>, \<open>RedisRefines\<close>, \<open>RedisLock\<close>, \<open>RedisWatch\<close> (\<^verbatim>\<open>internal/redisstore\<close>): the scripts command by command. The store refines the in-memory one by a simulation; the lock fulfils the same
      contract as the one in memory.

    \<^item> \<open>Postgres\<close>, \<open>PartitionNames\<close>, \<open>PostgresArchive\<close>, \<open>ArchiveAgrees\<close> (\<^verbatim>\<open>internal/postgresstore\<close>): statements over tables cut into daily partitions; retention drops whole past days; the archive answers as the in-memory store.

    \<^item> \<open>Metrics\<close> (\<^verbatim>\<open>internal/metrics\<close>): names and recorders, the asynchronous recorder as threads.

    \<^item> \<open>McpTools\<close>, \<open>McpServe\<close> (\<^verbatim>\<open>internal/mcpserver\<close>, \<^verbatim>\<open>mcp-server/\<close>): principals, tools, bearer tokens, and the way of a request to a tool. \<open>ServerTls\<close>, \<open>IngestServe\<close> (\<^verbatim>\<open>ingest/\<close>): TLS handshakes and who may submit batches.

    \<^item> \<open>AgentRun\<close> (\<^verbatim>\<open>agent/\<close>), \<open>Freshness\<close> (\<^verbatim>\<open>internal/probe\<close>): the agent as it is put together, and the probe that measures how soon a batch is visible.

    \<^item> \<open>App\<close>, \<open>Wiring\<close>, \<open>Pipeline\<close>, \<open>Shutdown\<close>, \<open>ShutdownEnds\<close> (\<^verbatim>\<open>internal/app\<close>): the choice of backends with everything that is opened and closed; the path from an event to its counter; the runtime as it runs and stops.

  \<^bold>\<open>What is proved of the whole.\<close> In \<open>Pipeline\<close>, every counter in the store is the sum over the absorbed events, each counted once, with failing publications, lost acknowledgements and repeated deliveries. In \<open>Shutdown\<close>, when
  \<^verbatim>\<open>Stop\<close> is over, in every interleaving, no send was refused, every published batch was handled or is a dead letter and the same sums hold; in \<open>ShutdownEnds\<close>, that stopping ends. In \<open>IngestServe\<close> and
  \<open>McpServe\<close>, from the command line to the handler, that only the edge submits batches and only holders of a token use the tools. The properties are marked \<open>Property\<close> with their number.

  \<^bold>\<open>Hypotheses.\<close> What is assumed of third-party code is always a named premise: \<open>redis_ok\<close> (the commands do what the Redis manual says, as seen through a view of the server), \<open>postgres_ok\<close> (the statements mean what their SQL
  says), \<open>library_ok\<close> (closing a Kafka client closes it and no other), \<open>bearer_ok\<close> (the middleware passes on only what the verifier returned), \<open>rand_ok\<close> (random numbers are in their range), \<open>sleeps\<close> (the clock moves on
  while the probe sleeps), and that decoding gives back what was marshalled. A call to a server may be refused, retried, or run with its answer lost. \<open>sequence_room\<close>, and the ranges of counters in the Redis and Postgres theories, say that 64-bit numbers
  are not used up. Each property with a premise has a witness in which all of them hold, with a concrete server or function in place of the parameter.

  \<^bold>\<open>Fuel and bounds.\<close> Three loops carry fuel that is computed from the state: the search for a free name in the spool runs at most once more than there are names in use (\<open>nextName_finds\<close> shows that it always finds one), the
  eviction at most once per entry, since each round removes one, and trimming spaces once per character. A delivery has the configured number of attempts. Loops of goroutines (draining, consuming, collecting, pumping) are recursions over the list of
  what they observe; a list that has been used up stands for a goroutine that has observed nothing more, and a list of faults that has been used up for calls that succeed. The polling loop of the probe, which the clock ends, is a partial function; that it returns is proved.

  \<^bold>\<open>Not modelled.\<close> Rounding of floating-point numbers in the sketch, of which the stated accuracy is that of exact arithmetic; tracing (\<^verbatim>\<open>internal/tracing\<close>, \<^verbatim>\<open>internal/transport/traced.go\<close>: calls of OpenTelemetry that change no
  result); the parsing of flags, health listeners and signals of the processes; log lines; the MCP protocol of the SDK; the C program in the kernel (\<^verbatim>\<open>bpf/\<close>) beyond the layout of its record; generated code
  (\<^verbatim>\<open>internal/wire/ironclawpb\<close>); test support (\<^verbatim>\<open>internal/testenv\<close>, \<^verbatim>\<open>internal/locktest\<close>), the load test (\<^verbatim>\<open>loadtest/\<close>) and end-to-end tests. In \<open>Shutdown\<close> the archive and the command channel, which are closed after the other
  channels in the same way, do not take part.
\<close>

end
